(* ===== verification/Prelude.thy ===== *)
theory Prelude
  imports Main "HOL-Library.Word"
begin

text \<open>
  Shared vocabulary of the development.  The fixed-width integers of
  include/minitool/common/types.hpp are words of the same width; an i64 is kept as the
  64-bit word with the same bits and read with \<open>sint\<close> where the code compares or divides it
  as a signed number, so that \<open>static_cast\<close> between i64 and u64 is the identity.
  \<open>std::expected<T, E>\<close> is the sum \<open>E + T\<close>, with \<open>Inl\<close> for the error.  The generic lemmas on
  lists and words below carry the component proofs.
\<close>

unbundle bit_operations_syntax

type_synonym u8 = "8 word"
type_synonym u16 = "16 word"
type_synonym u32 = "32 word"
type_synonym u64 = "64 word"
type_synonym i64 = "64 word"

type_synonym ('e, 'a) expected = "'e + 'a"

text \<open>A call whose error is returned at once, and whose value the rest uses.\<close>

definition and_then :: "('e, 'a) expected \<Rightarrow> ('a \<Rightarrow> ('e, 'b) expected) \<Rightarrow> ('e, 'b) expected" where
  "and_then x f = (case x of Inl e \<Rightarrow> Inl e | Inr a \<Rightarrow> f a)"

lemma and_then_simps [simp]: "and_then (Inl e) f = Inl e" "and_then (Inr a) f = f a"
  by (simp_all add: and_then_def)

lemma and_then_Inr: "and_then x f = Inr b \<longleftrightarrow> (\<exists>a. x = Inr a \<and> f a = Inr b)"
  by (cases x) simp_all

text \<open>
  Three collections of facts: \<open>byte_simps\<close> about bytes and little-endian words, \<open>layout_simps\<close>
  about lengths and positions in a serialised image, \<open>frame_simps\<close> about the parts of a state an
  operation leaves alone.
\<close>

named_theorems byte_simps
named_theorems layout_simps
named_theorems frame_simps

subsection \<open>Lists\<close>

definition splice_at :: "nat \<Rightarrow> 'a list \<Rightarrow> 'a list \<Rightarrow> 'a list" where
  "splice_at off new xs = take off xs @ new @ drop (off + length new) xs"

lemma length_splice_at [simp]:
  "off + length new \<le> length xs \<Longrightarrow> length (splice_at off new xs) = length xs"
  by (simp add: splice_at_def)

lemma nth_splice_at:
  assumes "off + length new \<le> length xs" and "i < length xs"
  shows "splice_at off new xs ! i =
    (if off \<le> i \<and> i < off + length new then new ! (i - off) else xs ! i)"
  using assms by (auto simp: splice_at_def nth_append)

lemma take_splice_at [simp]:
  "n \<le> off \<Longrightarrow> off \<le> length xs \<Longrightarrow> take n (splice_at off new xs) = take n xs"
  by (simp add: splice_at_def min_def)

lemma slice_splice_at [simp]:
  "off \<le> length xs \<Longrightarrow> take (length new) (drop off (splice_at off new xs)) = new"
  by (simp add: splice_at_def)

lemma drop_splice_at [simp]:
  "off + length new \<le> n \<Longrightarrow> off \<le> length xs \<Longrightarrow> drop n (splice_at off new xs) = drop n xs"
  by (simp add: splice_at_def min_def)

lemma splice_at_mid:
  "length pre = off \<Longrightarrow> length old = length new \<Longrightarrow> splice_at off new (pre @ old @ suf) = pre @ new @ suf"
  by (simp add: splice_at_def)

lemma find_SomeD: "find P xs = Some x \<Longrightarrow> x \<in> set xs \<and> P x"
  by (induction xs) (auto split: if_splits)

lemma find_NoneD: "find P xs = None \<Longrightarrow> x \<in> set xs \<Longrightarrow> \<not> P x"
  by (induction xs) (auto split: if_splits)

lemma find_None_conv: "find P xs = None \<longleftrightarrow> (\<forall>x \<in> set xs. \<not> P x)"
  by (induction xs) auto

lemma find_append_dist: "find P (xs @ ys) = (case find P xs of None \<Rightarrow> find P ys | Some x \<Rightarrow> Some x)"
  by (induction xs) auto

subsection \<open>Words\<close>

lemma unat_add_no_wrap:
  fixes a b :: "'a::len word"
  shows "unat a + unat b < 2 ^ LENGTH('a) \<Longrightarrow> unat (a + b) = unat a + unat b"
  by (simp add: unat_word_ariths)

lemma unat_sub_le:
  fixes a b :: "'a::len word"
  shows "b \<le> a \<Longrightarrow> unat (a - b) = unat a - unat b"
  by (simp add: unat_sub_if' word_le_nat_alt)

lemma unat_u64_less: "unat (x :: u64) < 18446744073709551616"
  using unsigned_less [of x] by simp

lemma unat_u8_less: "unat (x :: u8) < 256"
  using unsigned_less [of x] by simp

lemma unat_of_nat_u64: "n < 18446744073709551616 \<Longrightarrow> unat (of_nat n :: u64) = n"
  by (simp add: unat_of_nat take_bit_nat_eq_self)

lemma mask_push: "push_bit n 1 - 1 = (mask n :: 'a::len word)"
  by (simp add: mask_eq_exp_minus_1 push_bit_eq_mult)

lemma sint_of_int_u64:
  "- (2 ^ 63) \<le> k \<Longrightarrow> k < 2 ^ 63 \<Longrightarrow> sint (of_int k :: u64) = k"
  by (simp add: signed_of_int signed_take_bit_int_eq_self)


lemma xor_cancel_left:
  fixes a b c :: "'a::len word"
  assumes "a XOR b = a XOR c"
  shows "b = c"
proof -
  have "a XOR (a XOR b) = a XOR (a XOR c)" by (simp only: assms)
  then show ?thesis by (simp add: xor.assoc [symmetric])
qed

lemma bit_63_iff: "bit (v :: u64) 63 \<longleftrightarrow> 9223372036854775808 \<le> unat v"
proof (cases "unat v < 9223372036854775808")
  case True
  then have "unat v div 2 ^ 63 = 0" by simp
  then have "\<not> bit (unat v) 63" by (simp only: bit_iff_odd) simp
  then show ?thesis using True by (simp add: bit_unsigned_iff)
next
  case False
  then have "unat v div 2 ^ 63 = 1"
    using unat_u64_less [of v] by (intro div_nat_eqI) simp_all
  then have "bit (unat v) 63" by (simp only: bit_iff_odd) simp
  then show ?thesis using False by (simp add: bit_unsigned_iff)
qed

lemma sint_u64_eq:
  "sint (v :: u64) =
     (if 9223372036854775808 \<le> unat v then int (unat v) - 18446744073709551616 else int (unat v))"
proof -
  have "sint v = take_bit 64 (uint v) - 2 ^ 64 * of_bool (bit (uint v) 63)"
    by (simp add: sint_uint signed_take_bit_eq_take_bit_minus)
  moreover have "take_bit 64 (uint v) = uint v"
    by (simp add: take_bit_word_eq_self flip: unsigned_take_bit_eq)
  moreover have "bit (uint v) 63 = bit v 63" by (simp add: bit_uint_iff)
  ultimately show ?thesis by (simp add: bit_63_iff)
qed

lemma sint_nonneg_iff: "0 \<le> sint (v :: u64) \<longleftrightarrow> unat v < 9223372036854775808"
proof -
  have "int (unat v) < 18446744073709551616" using unat_u64_less [of v] by linarith
  then show ?thesis unfolding sint_u64_eq by (cases "9223372036854775808 \<le> unat v") (simp_all only: if_True if_False, linarith+)
qed

lemma sint_neg_iff: "sint (v :: u64) < 0 \<longleftrightarrow> 9223372036854775808 \<le> unat v"
  using sint_nonneg_iff [of v] by linarith

lemma sint_eq_unat: "unat (v :: u64) < 9223372036854775808 \<Longrightarrow> sint v = int (unat v)"
  by (simp add: sint_u64_eq)

subsection \<open>Alignment\<close>

text \<open>\<open>std::vector::resize\<close>, and the rounding the assembler and the linker both use.\<close>

definition resize :: "nat \<Rightarrow> u8 list \<Rightarrow> u8 list" where
  "resize n xs = take n xs @ replicate (n - length xs) 0"

definition alignUp :: "u64 \<Rightarrow> u64 \<Rightarrow> u64" where
  "alignUp v alignment =
     (if alignment \<le> 1 then v
      else let remainder = v mod alignment in
           if remainder = 0 then v else v + (alignment - remainder))"

lemma resize_grow: "length xs \<le> n \<Longrightarrow> resize n xs = xs @ replicate (n - length xs) 0"
  by (simp add: resize_def)

lemma alignUp_nat:
  assumes "unat v < 2 ^ 63" and "unat a \<le> 2 ^ 63"
  shows "unat v \<le> unat (alignUp v a) \<and> unat (alignUp v a) < unat v + max 1 (unat a) \<and>
    (0 < unat a \<longrightarrow> unat a dvd unat (alignUp v a))"
proof (cases "a \<le> 1")
  case True
  then have "unat a = 0 \<or> unat a = 1" by (auto simp: word_le_nat_alt)
  with True show ?thesis by (auto simp: alignUp_def)
next
  case False
  then have a: "1 < unat a" by (simp add: word_le_nat_alt)
  let ?r = "unat v mod unat a"
  have rem: "unat (v mod a) = ?r" by (simp add: unat_mod)
  have lt: "?r < unat a" using a by simp
  show ?thesis
  proof (cases "?r = 0")
    case True
    then have "v mod a = 0" using rem by (simp only: unat_eq_0 [symmetric])
    with False a True show ?thesis by (simp add: alignUp_def Let_def dvd_eq_mod_eq_0)
  next
    case r: False
    then have "v mod a \<noteq> 0" using rem by (metis unat_0)
    then have e: "alignUp v a = v + (a - v mod a)" using False by (simp add: alignUp_def)
    have "v mod a \<le> a" using rem lt by (simp add: word_le_nat_alt)
    then have d: "unat (a - v mod a) = unat a - ?r" by (simp add: unat_sub_le rem)
    have u: "unat (alignUp v a) = unat v + (unat a - ?r)"
      unfolding e using assms lt by (subst unat_add_no_wrap) (simp_all add: d)
    have "unat v + (unat a - ?r) = unat a * (unat v div unat a + 1)"
      unfolding distrib_left using lt mult_div_mod_eq [of "unat a" "unat v"] by linarith
    then have "unat a dvd unat v + (unat a - ?r)" by (metis dvd_triv_left)
    moreover have "unat v \<le> unat v + (unat a - ?r)" by (rule le_add1)
    moreover have "unat v + (unat a - ?r) < unat v + max 1 (unat a)" using lt r a by linarith
    ultimately show ?thesis unfolding u by (intro conjI impI)
  qed
qed

lemma power_of_two_bound:
  fixes a :: u64
  assumes "a \<noteq> 0" and "a AND (a - 1) = 0"
  shows "unat a \<le> 2 ^ 63"
proof (rule ccontr)
  assume "\<not> unat a \<le> 2 ^ 63"
  then have big: "9223372036854775808 < unat a" by simp
  then have "unat (a - 1) = unat a - 1" using assms(1) by (simp add: unat_sub_le word_le_nat_alt)
  with big have "bit a 63 \<and> bit (a - 1) 63" by (simp add: bit_63_iff)
  then have "bit (a AND (a - 1)) 63" by (simp add: bit_and_iff)
  with assms(2) show False by simp
qed

end
