(* ===== verification/Byte_Order.thy ===== *)
theory Byte_Order
  imports Prelude
begin

text \<open>
  include/minitool/common/byte_order.hpp: moving 16-, 32- and 64-bit words in and out of byte
  buffers, sign extension and the two range checks.  The template parameter \<open>T\<close> is the number of
  bytes \<open>sizeof(T)\<close>; both functions work on the widened 64-bit value, as the code does.
\<close>

definition le_byte :: "u64 \<Rightarrow> nat \<Rightarrow> u8" where
  "le_byte wide i = ucast (drop_bit (8 * i) wide AND 0xFF)"

definition le_bytes :: "nat \<Rightarrow> u64 \<Rightarrow> u8 list" where
  "le_bytes n wide = map (le_byte wide) [0..<n]"

definition store_le :: "nat \<Rightarrow> u8 list \<Rightarrow> u64 \<Rightarrow> u8 list" where
  "store_le n out wide = le_bytes n wide @ drop n out"

definition load_le :: "nat \<Rightarrow> u8 list \<Rightarrow> u64" where
  "load_le n inp = fold (\<lambda>i wide. wide OR push_bit (8 * i) (ucast (inp ! i))) [0..<n] 0"

definition signExtend :: "u64 \<Rightarrow> nat \<Rightarrow> i64" where
  "signExtend value bits =
     (if bits \<ge> 64 then value
      else
        let mask = push_bit bits 1 - 1;
            sign = push_bit (bits - 1) 1;
            truncated = value AND mask
        in (truncated XOR sign) - sign)"

definition fitsSigned :: "i64 \<Rightarrow> nat \<Rightarrow> bool" where
  "fitsSigned value bits =
     (if bits \<ge> 64 then True
      else
        let mn = - push_bit (bits - 1) (1 :: i64);
            mx = push_bit (bits - 1) (1 :: i64) - 1
        in sint mn \<le> sint value \<and> sint value \<le> sint mx)"

definition fitsUnsigned :: "u64 \<Rightarrow> nat \<Rightarrow> bool" where
  "fitsUnsigned value bits = (if bits \<ge> 64 then True else value < push_bit bits 1)"

subsection \<open>Bytes and words\<close>

lemma length_le_bytes [simp]: "length (le_bytes n w) = n"
  by (simp add: le_bytes_def)

lemma le_bytes_eq_Nil [simp]: "le_bytes n w = [] \<longleftrightarrow> n = 0"
  by (simp flip: length_0_conv)

lemma nth_le_bytes [simp]: "i < n \<Longrightarrow> le_bytes n w ! i = le_byte w i"
  by (simp add: le_bytes_def)

lemma bit_le_byte: "bit (le_byte w i) k \<longleftrightarrow> k < 8 \<and> bit w (8 * i + k)"
proof -
  have ff: "(0xFF :: u64) = mask 8" by (simp add: mask_eq_exp_minus_1)
  show ?thesis
    by (auto simp: le_byte_def ff bit_simps ac_simps dest: bit_imp_le_length)
qed

lemma load_le_Suc:
  "load_le (Suc n) inp = load_le n inp OR push_bit (8 * n) (ucast (inp ! n))"
  by (simp add: load_le_def)

lemma bit_load_le:
  "bit (load_le n inp) k \<longleftrightarrow> k < 64 \<and> k < 8 * n \<and> bit (inp ! (k div 8)) (k mod 8)"
proof (induction n)
  case 0
  then show ?case by (simp add: load_le_def)
next
  case (Suc n)
  have step: "bit (load_le (Suc n) inp) k \<longleftrightarrow>
      bit (load_le n inp) k \<or> (8 * n \<le> k \<and> k < 64 \<and> bit (inp ! n) (k - 8 * n))"
    by (auto simp: load_le_Suc bit_or_iff bit_push_bit_iff bit_ucast_iff)
  consider "k < 8 * n" | "8 * n \<le> k" "k < 8 * n + 8" | "8 * n + 8 \<le> k"
    by linarith
  then show ?case
  proof cases
    case 1
    then show ?thesis by (simp add: step Suc)
  next
    case 2
    then obtain j where j: "k = 8 * n + j" "j < 8"
      by (metis le_add_diff_inverse nat_add_left_cancel_less)
    then show ?thesis unfolding step Suc by auto
  next
    case 3
    then have "\<not> bit (inp ! n) (k - 8 * n)"
      using bit_imp_le_length [of "inp ! n" "k - 8 * n"] by auto
    with 3 show ?thesis by (simp add: step Suc)
  qed
qed

lemma load_le_cong:
  assumes "\<And>i. i < n \<Longrightarrow> xs ! i = ys ! i"
  shows "load_le n xs = load_le n ys"
proof (rule bit_word_eqI)
  fix k assume "k < LENGTH(64)"
  show "bit (load_le n xs) k = bit (load_le n ys) k"
    using assms [of "k div 8"] by (auto simp: bit_load_le less_mult_imp_div_less ac_simps)
qed

lemma load_le_append [simp]: "length xs = n \<Longrightarrow> load_le n (xs @ ys) = load_le n xs"
  by (rule load_le_cong) (simp add: nth_append)

lemma load_le_bytes: "load_le n (le_bytes n w) = take_bit (8 * n) w"
proof (rule bit_word_eqI)
  fix k assume "k < LENGTH(64)"
  then show "bit (load_le n (le_bytes n w)) k = bit (take_bit (8 * n) w) k"
    by (auto simp: bit_load_le bit_le_byte bit_take_bit_iff less_mult_imp_div_less ac_simps)
qed

lemma load_le_bytes_8 [simp, byte_simps]: "load_le 8 (le_bytes 8 w) = w"
  by (simp add: load_le_bytes take_bit_word_eq_self)

lemma le_bytes_load:
  assumes "n \<le> length bs" and "n \<le> 8"
  shows "le_bytes n (load_le n bs) = take n bs"
proof (rule nth_equalityI)
  show "length (le_bytes n (load_le n bs)) = length (take n bs)"
    using assms by simp
next
  fix i assume "i < length (le_bytes n (load_le n bs))"
  then have i: "i < n" by simp
  have "le_byte (load_le n bs) i = bs ! i"
  proof (rule bit_word_eqI)
    fix k assume "k < LENGTH(8)"
    with i \<open>n \<le> 8\<close> show "bit (le_byte (load_le n bs) i) k = bit (bs ! i) k"
      by (auto simp: bit_le_byte bit_load_le)
  qed
  with i assms show "le_bytes n (load_le n bs) ! i = take n bs ! i"
    by simp
qed

lemma length_store_le [simp]: "n \<le> length out \<Longrightarrow> length (store_le n out w) = length out"
  by (simp add: store_le_def)

lemma load_store_le: "load_le n (store_le n out w) = take_bit (8 * n) w"
  by (simp add: store_le_def load_le_bytes)

subsection \<open>Sign extension and range checks\<close>

lemma signExtend_eq:
  assumes "0 < n" and "n \<le> 64"
  shows "signExtend v n = signed_take_bit (n - 1) v"
proof (cases "n = 64")
  case True
  then show ?thesis
    by (simp add: signExtend_def) (rule bit_word_eqI, auto simp: bit_signed_take_bit_iff min_def elim!: back_subst [where P = "bit v"])
next
  case False
  with assms obtain m where m: "n = Suc m" "m < 63" by (cases n) auto
  let ?S = "push_bit m (1 :: u64)"
  have trunc: "v AND (push_bit n 1 - 1) = take_bit (Suc m) v"
    by (simp only: mask_push m take_bit_eq_mask)
  have "(take_bit (Suc m) v XOR ?S) - ?S = signed_take_bit m v"
  proof (cases "bit v m")
    case True
    have x: "take_bit (Suc m) v XOR ?S = take_bit m v"
      by (rule bit_word_eqI) (use True m in \<open>auto simp: bit_simps less_Suc_eq\<close>)
    have ns: "- ?S = NOT (mask m)"
      by (simp add: push_bit_eq_mult minus_exp_eq_not_mask)
    have "take_bit m v - ?S = take_bit m v + NOT (mask m)"
      by (simp only: ns [symmetric] diff_conv_add_uminus)
    also have "\<dots> = take_bit m v OR NOT (mask m)"
      by (rule disjunctive_add) (simp add: bit_simps)
    also have "\<dots> = signed_take_bit m v"
      by (rule bit_word_eqI) (use True in \<open>auto simp: bit_simps min_def\<close>)
    finally show ?thesis by (simp only: x)
  next
    case F: False
    have x: "take_bit (Suc m) v XOR ?S = take_bit m v + ?S"
    proof -
      have "take_bit m v + ?S = take_bit m v OR ?S"
        by (rule disjunctive_add) (auto simp: bit_simps)
      also have "\<dots> = take_bit (Suc m) v XOR ?S"
        by (rule bit_word_eqI) (use F m in \<open>auto simp: bit_simps less_Suc_eq\<close>)
      finally show ?thesis by simp
    qed
    have "take_bit m v = signed_take_bit m v"
      by (rule bit_word_eqI) (use F m in \<open>auto simp: bit_simps min_def\<close>)
    then show ?thesis by (simp only: x) simp
  qed
  then show ?thesis
    using m trunc by (simp add: signExtend_def Let_def)
qed


lemma fitsSigned_iff:
  assumes "0 < n" and "n \<le> 64"
  shows "fitsSigned v n \<longleftrightarrow> - (2 ^ (n - 1)) \<le> sint v \<and> sint v < 2 ^ (n - 1)"
proof (cases "n = 64")
  case True
  then show ?thesis using sint_greater_eq [of v] sint_less [of v] by (simp add: fitsSigned_def)
next
  case False
  with assms obtain m where m: "n = Suc m" "m < 63" by (cases n) auto
  have le: "(2 :: int) ^ m \<le> 2 ^ 62" using m by (intro power_increasing) auto
  have one: "(1 :: int) \<le> 2 ^ m" by simp
  have p: "push_bit m (1 :: u64) = of_int (2 ^ m)" by (simp add: push_bit_eq_mult)
  have a: "sint (- push_bit m (1 :: u64)) = - (2 ^ m)"
    using sint_of_int_u64 [of "- (2 ^ m)"] le one by (simp add: p)
  have b: "sint (push_bit m (1 :: u64) - 1) = 2 ^ m - 1"
    using sint_of_int_u64 [of "2 ^ m - 1"] le one by (simp add: p)
  show ?thesis using m by (simp add: fitsSigned_def Let_def a [simplified push_bit_eq_mult, simplified] b [simplified push_bit_eq_mult, simplified] push_bit_eq_mult)
qed

lemma fitsUnsigned_iff: "n \<le> 64 \<Longrightarrow> fitsUnsigned v n \<longleftrightarrow> unat v < 2 ^ n"
proof (cases "n = 64")
  case True
  then show ?thesis using unat_u64_less [of v] by (simp add: fitsUnsigned_def)
next
  case False
  moreover assume "n \<le> 64"
  ultimately have "n < 64" by simp
  then have "(2 :: nat) ^ n < 2 ^ 64" by (intro power_strict_increasing) auto
  with \<open>n < 64\<close> have "unat (push_bit n 1 :: u64) = 2 ^ n"
    using unat_of_nat_u64 [of "2 ^ n"] by (simp add: push_bit_eq_mult)
  with \<open>n < 64\<close> show ?thesis by (simp add: fitsUnsigned_def word_less_nat_alt)
qed

lemma signExtend_truncates:
  assumes "0 < n" and "n \<le> 64" and "fitsSigned v n"
  shows "signExtend (take_bit n v) n = v"
proof -
  obtain m where m: "n = Suc m" using assms by (cases n) auto
  have "- (2 ^ m) \<le> sint v" "sint v < 2 ^ m"
    using assms by (auto simp: fitsSigned_iff m)
  then have si: "signed_take_bit m (sint v) = sint v" by (rule signed_take_bit_int_eq_self)
  have "signed_take_bit m v = v"
  proof (rule bit_word_eqI)
    fix k assume k: "k < LENGTH(64)"
    have "bit (sint v) k \<longleftrightarrow> bit (sint v) (min m k)"
      using arg_cong [OF si, of "\<lambda>x. bit x k"] by (simp add: bit_signed_take_bit_iff min.commute)
    moreover have "m < 64" using assms m by simp
    ultimately have "bit v k \<longleftrightarrow> bit v (min m k)"
      using k by (simp add: bit_sint_iff not_le min_less_iff_disj)
    then show "bit (signed_take_bit m v) k = bit v k"
      using k by (simp add: bit_signed_take_bit_iff min.commute)
  qed
  moreover have "signed_take_bit m (take_bit (Suc m) v) = signed_take_bit m v"
    by (rule bit_word_eqI) (auto simp: bit_simps min_def)
  ultimately show ?thesis using assms by (simp add: signExtend_eq m)
qed

end
