(* ===== verification/Isa.thy ===== *)
theory Isa
  imports Byte_Order
begin

text \<open>
  include/minitool/isa/ and src/isa/opcode.cpp, registers.cpp: opcodes and their metadata
  table, operand formats, registers, instructions.  \<open>OP_X\<close> is \<open>Opcode::X\<close>; \<open>OP_UNDEF b\<close> is the
  enumeration value \<open>b\<close> that a \<open>static_cast\<close> can produce without an enumerator having it.  A
  \<open>Reg\<close> is the byte the enumeration is based on.
\<close>

datatype Opcode =
    OP_NOP | OP_HALT | OP_SYSCALL | OP_MOV | OP_MOVI | OP_LOAD | OP_STORE | OP_LEA
  | OP_PUSH | OP_POP | OP_ADD | OP_SUB | OP_MUL | OP_DIV | OP_MOD | OP_INC
  | OP_DEC | OP_NEG | OP_AND | OP_OR | OP_XOR | OP_NOT | OP_SHL | OP_SHR
  | OP_SAR | OP_CMP | OP_TEST | OP_JMP | OP_JE | OP_JNE | OP_JG | OP_JL
  | OP_JGE | OP_JLE | OP_CALL | OP_RET
  | OP_UNDEF u8

fun opcode_num :: "Opcode \<Rightarrow> u8" where
  "opcode_num OP_NOP = 0x00"
| "opcode_num OP_HALT = 0x01"
| "opcode_num OP_SYSCALL = 0x02"
| "opcode_num OP_MOV = 0x10"
| "opcode_num OP_MOVI = 0x11"
| "opcode_num OP_LOAD = 0x12"
| "opcode_num OP_STORE = 0x13"
| "opcode_num OP_LEA = 0x14"
| "opcode_num OP_PUSH = 0x15"
| "opcode_num OP_POP = 0x16"
| "opcode_num OP_ADD = 0x20"
| "opcode_num OP_SUB = 0x21"
| "opcode_num OP_MUL = 0x22"
| "opcode_num OP_DIV = 0x23"
| "opcode_num OP_MOD = 0x24"
| "opcode_num OP_INC = 0x25"
| "opcode_num OP_DEC = 0x26"
| "opcode_num OP_NEG = 0x27"
| "opcode_num OP_AND = 0x30"
| "opcode_num OP_OR = 0x31"
| "opcode_num OP_XOR = 0x32"
| "opcode_num OP_NOT = 0x33"
| "opcode_num OP_SHL = 0x34"
| "opcode_num OP_SHR = 0x35"
| "opcode_num OP_SAR = 0x36"
| "opcode_num OP_CMP = 0x40"
| "opcode_num OP_TEST = 0x41"
| "opcode_num OP_JMP = 0x50"
| "opcode_num OP_JE = 0x51"
| "opcode_num OP_JNE = 0x52"
| "opcode_num OP_JG = 0x53"
| "opcode_num OP_JL = 0x54"
| "opcode_num OP_JGE = 0x55"
| "opcode_num OP_JLE = 0x56"
| "opcode_num OP_CALL = 0x57"
| "opcode_num OP_RET = 0x58"
| "opcode_num (OP_UNDEF b) = b"

datatype Format = Fmt_None | Fmt_Reg1 | Fmt_Reg2 | Fmt_RegImm | Fmt_Mem | Fmt_Jump | Fmt_SysImm

fun formatName :: "Format \<Rightarrow> string" where
  "formatName Fmt_None = ''none''"
| "formatName Fmt_Reg1 = ''reg1''"
| "formatName Fmt_Reg2 = ''reg2''"
| "formatName Fmt_RegImm = ''regimm''"
| "formatName Fmt_Mem = ''mem''"
| "formatName Fmt_Jump = ''jump''"
| "formatName Fmt_SysImm = ''sysimm''"

record OpcodeInfo =
  oi_opcode :: Opcode
  oi_mnemonic :: string
  oi_format :: Format
  oi_writes_dst :: bool
  oi_reads_dst :: bool
  oi_writes_flags :: bool
  oi_is_terminator :: bool
  oi_is_branch :: bool

definition opcode_row ::
  "Opcode \<Rightarrow> string \<Rightarrow> Format \<Rightarrow> bool \<Rightarrow> bool \<Rightarrow> bool \<Rightarrow> bool \<Rightarrow> bool \<Rightarrow> OpcodeInfo" where
  "opcode_row code name fmt wd rd wr term br =
     \<lparr> oi_opcode = code, oi_mnemonic = name, oi_format = fmt, oi_writes_dst = wd,
       oi_reads_dst = rd, oi_writes_flags = wr, oi_is_terminator = term, oi_is_branch = br \<rparr>"

definition kOpcodes :: "OpcodeInfo list" where
  "kOpcodes =
   [ opcode_row OP_NOP ''NOP'' Fmt_None False False False False False,
     opcode_row OP_HALT ''HALT'' Fmt_None False False False True False,
     opcode_row OP_SYSCALL ''SYSCALL'' Fmt_SysImm False False False False False,
     opcode_row OP_MOV ''MOV'' Fmt_Reg2 True False False False False,
     opcode_row OP_MOVI ''MOVI'' Fmt_RegImm True False False False False,
     opcode_row OP_LOAD ''LOAD'' Fmt_Mem True False False False False,
     opcode_row OP_STORE ''STORE'' Fmt_Mem False True False False False,
     opcode_row OP_LEA ''LEA'' Fmt_RegImm True False False False False,
     opcode_row OP_PUSH ''PUSH'' Fmt_Reg1 False True False False False,
     opcode_row OP_POP ''POP'' Fmt_Reg1 True False False False False,
     opcode_row OP_ADD ''ADD'' Fmt_Reg2 True True True False False,
     opcode_row OP_SUB ''SUB'' Fmt_Reg2 True True True False False,
     opcode_row OP_MUL ''MUL'' Fmt_Reg2 True True True False False,
     opcode_row OP_DIV ''DIV'' Fmt_Reg2 True True True False False,
     opcode_row OP_MOD ''MOD'' Fmt_Reg2 True True True False False,
     opcode_row OP_INC ''INC'' Fmt_Reg1 True True True False False,
     opcode_row OP_DEC ''DEC'' Fmt_Reg1 True True True False False,
     opcode_row OP_NEG ''NEG'' Fmt_Reg1 True True True False False,
     opcode_row OP_AND ''AND'' Fmt_Reg2 True True True False False,
     opcode_row OP_OR ''OR'' Fmt_Reg2 True True True False False,
     opcode_row OP_XOR ''XOR'' Fmt_Reg2 True True True False False,
     opcode_row OP_NOT ''NOT'' Fmt_Reg1 True True False False False,
     opcode_row OP_SHL ''SHL'' Fmt_Reg2 True True True False False,
     opcode_row OP_SHR ''SHR'' Fmt_Reg2 True True True False False,
     opcode_row OP_SAR ''SAR'' Fmt_Reg2 True True True False False,
     opcode_row OP_CMP ''CMP'' Fmt_Reg2 False True True False False,
     opcode_row OP_TEST ''TEST'' Fmt_Reg2 False True True False False,
     opcode_row OP_JMP ''JMP'' Fmt_Jump False False False True True,
     opcode_row OP_JE ''JE'' Fmt_Jump False False False False True,
     opcode_row OP_JNE ''JNE'' Fmt_Jump False False False False True,
     opcode_row OP_JG ''JG'' Fmt_Jump False False False False True,
     opcode_row OP_JL ''JL'' Fmt_Jump False False False False True,
     opcode_row OP_JGE ''JGE'' Fmt_Jump False False False False True,
     opcode_row OP_JLE ''JLE'' Fmt_Jump False False False False True,
     opcode_row OP_CALL ''CALL'' Fmt_Jump False False False False True,
     opcode_row OP_RET ''RET'' Fmt_None False False False True True ]"

definition findOpcode :: "Opcode \<Rightarrow> OpcodeInfo option" where
  "findOpcode opcode = find (\<lambda>info. oi_opcode info = opcode) kOpcodes"

definition toOpcode :: "u8 \<Rightarrow> Opcode" where
  "toOpcode b =
     (case find (\<lambda>opcode. opcode_num opcode = b) (map oi_opcode kOpcodes) of
        Some opcode \<Rightarrow> opcode
      | None \<Rightarrow> OP_UNDEF b)"

definition isValidOpcode :: "Opcode \<Rightarrow> bool" where
  "isValidOpcode opcode \<longleftrightarrow> findOpcode opcode \<noteq> None"

definition toupper :: "char \<Rightarrow> char" where
  "toupper c =
     (let n = (of_char c :: nat) in if 97 \<le> n \<and> n \<le> 122 then char_of (n - 32) else c)"

definition findMnemonic :: "string \<Rightarrow> OpcodeInfo option" where
  "findMnemonic mnemonic =
     find (\<lambda>info. length (oi_mnemonic info) = length mnemonic \<and>
                  list_all2 (\<lambda>a b. toupper a = b) mnemonic (oi_mnemonic info)) kOpcodes"

definition opcodeName :: "Opcode \<Rightarrow> string" where
  "opcodeName opcode = (case findOpcode opcode of Some info \<Rightarrow> oi_mnemonic info | None \<Rightarrow> ''???'')"

fun operandCount :: "Format \<Rightarrow> nat" where
  "operandCount Fmt_None = 0"
| "operandCount Fmt_Reg1 = 1"
| "operandCount Fmt_Jump = 1"
| "operandCount Fmt_SysImm = 1"
| "operandCount Fmt_Reg2 = 2"
| "operandCount Fmt_RegImm = 2"
| "operandCount Fmt_Mem = 2"

subsection \<open>Registers\<close>

type_synonym Reg = u8

definition kRegisterCount :: nat where "kRegisterCount = 16"

definition kFramePointer :: Reg where "kFramePointer = 13"

definition kReturnValue :: Reg where "kReturnValue = 14"

definition registerIndex :: "Reg \<Rightarrow> nat" where "registerIndex reg = unat reg"

definition isValidRegister :: "Reg \<Rightarrow> bool" where
  "isValidRegister reg \<longleftrightarrow> registerIndex reg < kRegisterCount"

definition kNames :: "string list" where
  "kNames = [''R0'', ''R1'', ''R2'', ''R3'', ''R4'', ''R5'', ''R6'', ''R7'',
             ''R8'', ''R9'', ''R10'', ''R11'', ''R12'', ''R13'', ''R14'', ''R15'']"

definition registerName :: "Reg \<Rightarrow> string" where
  "registerName reg = (if \<not> isValidRegister reg then ''R?'' else kNames ! registerIndex reg)"

fun register_digits :: "nat \<Rightarrow> string \<Rightarrow> nat option" where
  "register_digits value [] = Some value"
| "register_digits value (c # cs) =
     (if (of_char c :: nat) < 48 \<or> (of_char c :: nat) > 57 then None
      else register_digits (value * 10 + (of_char c - 48)) cs)"

definition parseRegister :: "string \<Rightarrow> Reg option" where
  "parseRegister text =
     (if length text = 2 \<and> toupper (text ! 0) = CHR ''F'' \<and> toupper (text ! 1) = CHR ''P''
      then Some kFramePointer
      else if length text = 2 \<and> toupper (text ! 0) = CHR ''R'' \<and> toupper (text ! 1) = CHR ''V''
      then Some kReturnValue
      else if length text < 2 \<or> length text > 3 \<or> toupper (text ! 0) \<noteq> CHR ''R'' then None
      else
        let digits = drop 1 text in
        if length digits > 1 \<and> digits ! 0 = CHR ''0'' then None
        else case register_digits 0 digits of
               None \<Rightarrow> None
             | Some value \<Rightarrow> if value \<ge> kRegisterCount then None else Some (of_nat value))"

subsection \<open>Instructions\<close>

record Instruction =
  i_opcode :: Opcode
  i_dst :: Reg
  i_src :: Reg
  i_imm :: i64

definition mk_instr :: "Opcode \<Rightarrow> Reg \<Rightarrow> Reg \<Rightarrow> i64 \<Rightarrow> Instruction" where
  "mk_instr opcode dst src imm = \<lparr> i_opcode = opcode, i_dst = dst, i_src = src, i_imm = imm \<rparr>"

definition formatOf :: "Opcode \<Rightarrow> Format option" where
  "formatOf opcode = (case findOpcode opcode of None \<Rightarrow> None | Some info \<Rightarrow> Some (oi_format info))"

subsection \<open>The table\<close>

lemma kOpcodes_ascending: "sorted_wrt (<) (map (\<lambda>info. opcode_num (oi_opcode info)) kOpcodes)"
  by (simp add: kOpcodes_def opcode_row_def)

lemma kOpcodes_length: "length kOpcodes = 36"
  by (simp add: kOpcodes_def)

lemma findOpcode_opcode: "findOpcode opcode = Some info \<Longrightarrow> oi_opcode info = opcode"
  by (auto simp: findOpcode_def dest: find_SomeD)

lemma toOpcode_cases:
  "(\<exists>info \<in> set kOpcodes. toOpcode b = oi_opcode info) \<or> toOpcode b = OP_UNDEF b"
proof (cases "find (\<lambda>opcode. opcode_num opcode = b) (map oi_opcode kOpcodes)")
  case (Some op)
  from find_SomeD [OF this] Some show ?thesis by (auto simp: toOpcode_def)
qed (simp add: toOpcode_def)

lemma opcode_num_toOpcode [simp]: "opcode_num (toOpcode b) = b"
  by (auto simp: toOpcode_def split: option.splits dest: find_SomeD)

lemma findOpcode_undef [simp]: "findOpcode (OP_UNDEF b) = None"
  by (simp add: findOpcode_def kOpcodes_def opcode_row_def)

lemma isValidOpcode_iff: "isValidOpcode opcode \<longleftrightarrow> (\<forall>b. opcode \<noteq> OP_UNDEF b)"
  by (cases opcode) (simp_all add: isValidOpcode_def findOpcode_def kOpcodes_def opcode_row_def)

lemma toOpcode_num [simp]: "isValidOpcode opcode \<Longrightarrow> toOpcode (opcode_num opcode) = opcode"
  by (cases opcode)
    (simp_all add: isValidOpcode_iff toOpcode_def kOpcodes_def opcode_row_def)

lemma findOpcode_simps [simp]:
  "findOpcode OP_NOP = Some (opcode_row OP_NOP ''NOP'' Fmt_None False False False False False)"
  "findOpcode OP_HALT = Some (opcode_row OP_HALT ''HALT'' Fmt_None False False False True False)"
  "findOpcode OP_SYSCALL = Some (opcode_row OP_SYSCALL ''SYSCALL'' Fmt_SysImm False False False False False)"
  "findOpcode OP_MOV = Some (opcode_row OP_MOV ''MOV'' Fmt_Reg2 True False False False False)"
  "findOpcode OP_MOVI = Some (opcode_row OP_MOVI ''MOVI'' Fmt_RegImm True False False False False)"
  "findOpcode OP_LOAD = Some (opcode_row OP_LOAD ''LOAD'' Fmt_Mem True False False False False)"
  "findOpcode OP_STORE = Some (opcode_row OP_STORE ''STORE'' Fmt_Mem False True False False False)"
  "findOpcode OP_LEA = Some (opcode_row OP_LEA ''LEA'' Fmt_RegImm True False False False False)"
  "findOpcode OP_PUSH = Some (opcode_row OP_PUSH ''PUSH'' Fmt_Reg1 False True False False False)"
  "findOpcode OP_POP = Some (opcode_row OP_POP ''POP'' Fmt_Reg1 True False False False False)"
  "findOpcode OP_ADD = Some (opcode_row OP_ADD ''ADD'' Fmt_Reg2 True True True False False)"
  "findOpcode OP_SUB = Some (opcode_row OP_SUB ''SUB'' Fmt_Reg2 True True True False False)"
  "findOpcode OP_MUL = Some (opcode_row OP_MUL ''MUL'' Fmt_Reg2 True True True False False)"
  "findOpcode OP_DIV = Some (opcode_row OP_DIV ''DIV'' Fmt_Reg2 True True True False False)"
  "findOpcode OP_MOD = Some (opcode_row OP_MOD ''MOD'' Fmt_Reg2 True True True False False)"
  "findOpcode OP_INC = Some (opcode_row OP_INC ''INC'' Fmt_Reg1 True True True False False)"
  "findOpcode OP_DEC = Some (opcode_row OP_DEC ''DEC'' Fmt_Reg1 True True True False False)"
  "findOpcode OP_NEG = Some (opcode_row OP_NEG ''NEG'' Fmt_Reg1 True True True False False)"
  "findOpcode OP_AND = Some (opcode_row OP_AND ''AND'' Fmt_Reg2 True True True False False)"
  "findOpcode OP_OR = Some (opcode_row OP_OR ''OR'' Fmt_Reg2 True True True False False)"
  "findOpcode OP_XOR = Some (opcode_row OP_XOR ''XOR'' Fmt_Reg2 True True True False False)"
  "findOpcode OP_NOT = Some (opcode_row OP_NOT ''NOT'' Fmt_Reg1 True True False False False)"
  "findOpcode OP_SHL = Some (opcode_row OP_SHL ''SHL'' Fmt_Reg2 True True True False False)"
  "findOpcode OP_SHR = Some (opcode_row OP_SHR ''SHR'' Fmt_Reg2 True True True False False)"
  "findOpcode OP_SAR = Some (opcode_row OP_SAR ''SAR'' Fmt_Reg2 True True True False False)"
  "findOpcode OP_CMP = Some (opcode_row OP_CMP ''CMP'' Fmt_Reg2 False True True False False)"
  "findOpcode OP_TEST = Some (opcode_row OP_TEST ''TEST'' Fmt_Reg2 False True True False False)"
  "findOpcode OP_JMP = Some (opcode_row OP_JMP ''JMP'' Fmt_Jump False False False True True)"
  "findOpcode OP_JE = Some (opcode_row OP_JE ''JE'' Fmt_Jump False False False False True)"
  "findOpcode OP_JNE = Some (opcode_row OP_JNE ''JNE'' Fmt_Jump False False False False True)"
  "findOpcode OP_JG = Some (opcode_row OP_JG ''JG'' Fmt_Jump False False False False True)"
  "findOpcode OP_JL = Some (opcode_row OP_JL ''JL'' Fmt_Jump False False False False True)"
  "findOpcode OP_JGE = Some (opcode_row OP_JGE ''JGE'' Fmt_Jump False False False False True)"
  "findOpcode OP_JLE = Some (opcode_row OP_JLE ''JLE'' Fmt_Jump False False False False True)"
  "findOpcode OP_CALL = Some (opcode_row OP_CALL ''CALL'' Fmt_Jump False False False False True)"
  "findOpcode OP_RET = Some (opcode_row OP_RET ''RET'' Fmt_None False False False True True)"
  by (simp_all add: findOpcode_def kOpcodes_def opcode_row_def)

lemma formatOf_simps [simp]:
  "formatOf OP_NOP = Some Fmt_None"
  "formatOf OP_HALT = Some Fmt_None"
  "formatOf OP_SYSCALL = Some Fmt_SysImm"
  "formatOf OP_MOV = Some Fmt_Reg2"
  "formatOf OP_MOVI = Some Fmt_RegImm"
  "formatOf OP_LOAD = Some Fmt_Mem"
  "formatOf OP_STORE = Some Fmt_Mem"
  "formatOf OP_LEA = Some Fmt_RegImm"
  "formatOf OP_PUSH = Some Fmt_Reg1"
  "formatOf OP_POP = Some Fmt_Reg1"
  "formatOf OP_ADD = Some Fmt_Reg2"
  "formatOf OP_SUB = Some Fmt_Reg2"
  "formatOf OP_MUL = Some Fmt_Reg2"
  "formatOf OP_DIV = Some Fmt_Reg2"
  "formatOf OP_MOD = Some Fmt_Reg2"
  "formatOf OP_INC = Some Fmt_Reg1"
  "formatOf OP_DEC = Some Fmt_Reg1"
  "formatOf OP_NEG = Some Fmt_Reg1"
  "formatOf OP_AND = Some Fmt_Reg2"
  "formatOf OP_OR = Some Fmt_Reg2"
  "formatOf OP_XOR = Some Fmt_Reg2"
  "formatOf OP_NOT = Some Fmt_Reg1"
  "formatOf OP_SHL = Some Fmt_Reg2"
  "formatOf OP_SHR = Some Fmt_Reg2"
  "formatOf OP_SAR = Some Fmt_Reg2"
  "formatOf OP_CMP = Some Fmt_Reg2"
  "formatOf OP_TEST = Some Fmt_Reg2"
  "formatOf OP_JMP = Some Fmt_Jump"
  "formatOf OP_JE = Some Fmt_Jump"
  "formatOf OP_JNE = Some Fmt_Jump"
  "formatOf OP_JG = Some Fmt_Jump"
  "formatOf OP_JL = Some Fmt_Jump"
  "formatOf OP_JGE = Some Fmt_Jump"
  "formatOf OP_JLE = Some Fmt_Jump"
  "formatOf OP_CALL = Some Fmt_Jump"
  "formatOf OP_RET = Some Fmt_None"
  by (simp_all add: formatOf_def opcode_row_def)

lemma formatOf_undef [simp]: "formatOf (OP_UNDEF b) = None"
  by (simp add: formatOf_def)

lemma findOpcode_Some:
  "findOpcode opcode = Some info \<Longrightarrow> isValidOpcode opcode \<and> formatOf opcode = Some (oi_format info)"
  by (simp add: isValidOpcode_def formatOf_def)

lemma mnemonics_distinct: "distinct (map oi_mnemonic kOpcodes)"
  by (simp add: kOpcodes_def opcode_row_def)

lemma list_all2_map_eq: "list_all2 (\<lambda>a b. f a = b) xs ys \<longleftrightarrow> map f xs = ys"
  by (simp add: list_all2_map1 [symmetric] list.rel_eq)

text \<open>the mnemonic lookup finds a row exactly when the upper-cased text is its mnemonic.\<close>

theorem findMnemonic_iff:
  "findMnemonic text = Some info \<longleftrightarrow> info \<in> set kOpcodes \<and> map toupper text = oi_mnemonic info"
proof -
  have pred: "(length (oi_mnemonic i) = length text \<and> list_all2 (\<lambda>a b. toupper a = b) text (oi_mnemonic i))
      \<longleftrightarrow> map toupper text = oi_mnemonic i" for i
    using list_all2_map_eq [of toupper "text" "oi_mnemonic i"] by (auto dest: list_all2_lengthD)
  have uniq: "find (\<lambda>i. map toupper text = oi_mnemonic i) ks = Some info
      \<longleftrightarrow> info \<in> set ks \<and> map toupper text = oi_mnemonic info"
    if "distinct (map oi_mnemonic ks)" for ks :: "OpcodeInfo list"
    using that
  proof (induction ks)
    case (Cons k ks)
    then show ?case by (auto simp: image_iff)
  qed simp
  show ?thesis
    unfolding findMnemonic_def pred by (rule uniq [OF mnemonics_distinct])
qed

subsection \<open>Register names\<close>

lemma valid_register_cases:
  assumes "isValidRegister r"
  obtains "r = 0" | "r = 1" | "r = 2" | "r = 3" | "r = 4" | "r = 5" | "r = 6" | "r = 7"
    | "r = 8" | "r = 9" | "r = 10" | "r = 11" | "r = 12" | "r = 13" | "r = 14" | "r = 15"
proof -
  have "unat r < 16"
    using assms by (simp add: isValidRegister_def registerIndex_def kRegisterCount_def)
  then have "unat r = 0 \<or> unat r = 1 \<or> unat r = 2 \<or> unat r = 3 \<or> unat r = 4 \<or> unat r = 5
      \<or> unat r = 6 \<or> unat r = 7 \<or> unat r = 8 \<or> unat r = 9 \<or> unat r = 10 \<or> unat r = 11
      \<or> unat r = 12 \<or> unat r = 13 \<or> unat r = 14 \<or> unat r = 15" by presburger
  moreover have "unat r = n \<Longrightarrow> r = of_nat n" for n by auto
  ultimately show ?thesis using that by fastforce
qed

lemma parseRegister_registerName:
  "isValidRegister r \<Longrightarrow> parseRegister (registerName r) = Some r"
  by (erule valid_register_cases)
    (simp_all add: registerName_def isValidRegister_def registerIndex_def kRegisterCount_def
      kNames_def parseRegister_def toupper_def Let_def)

lemma parseRegister_valid: "parseRegister text = Some r \<Longrightarrow> isValidRegister r"
proof -
  have small: "isValidRegister (of_nat n)" if "n < 16" for n
    using that by (simp add: isValidRegister_def registerIndex_def kRegisterCount_def unat_of_nat
        take_bit_nat_eq_self)
  assume "parseRegister text = Some r"
  then show ?thesis
    by (auto simp: parseRegister_def Let_def kFramePointer_def kReturnValue_def kRegisterCount_def
        not_le small split: if_splits option.splits)
      (simp_all add: isValidRegister_def registerIndex_def kRegisterCount_def)
qed

end
