(* ===== verification/Semantics.thy ===== *)
theory Semantics
  imports Isa "HOL-Library.Signed_Division"
begin

text \<open>
  include/minitool/isa/semantics.hpp and src/isa/semantics.cpp: the arithmetic and logic
  operations with their FLAGS rules, shared by the virtual CPU and the constant folder, and the
  predicates of the conditional branches.
\<close>

definition kZeroFlag :: u64 where "kZeroFlag = push_bit 0 1"
definition kSignFlag :: u64 where "kSignFlag = push_bit 1 1"
definition kCarryFlag :: u64 where "kCarryFlag = push_bit 2 1"
definition kOverflowFlag :: u64 where "kOverflowFlag = push_bit 3 1"
definition kFlagsMask :: u64 where
  "kFlagsMask = kZeroFlag OR kSignFlag OR kCarryFlag OR kOverflowFlag"

lemmas flag_consts = kZeroFlag_def kSignFlag_def kCarryFlag_def kOverflowFlag_def

datatype AluError = DivisionByZero | NotArithmetic

record AluResult =
  alu_value :: u64
  alu_flags :: u64
  alu_writes_value :: bool
  alu_writes_flags :: bool

definition alu_result :: "u64 \<Rightarrow> u64 \<Rightarrow> bool \<Rightarrow> bool \<Rightarrow> AluResult" where
  "alu_result v f wv wrf =
     \<lparr> alu_value = v, alu_flags = f, alu_writes_value = wv, alu_writes_flags = wrf \<rparr>"

definition zeroAndSign :: "u64 \<Rightarrow> u64" where
  "zeroAndSign result =
     (let flags = (if result = 0 then kZeroFlag else 0)
      in if drop_bit 63 result \<noteq> 0 then flags OR kSignFlag else flags)"

definition logical :: "u64 \<Rightarrow> AluResult" where
  "logical result = alu_result result (zeroAndSign result) True True"

definition computeFlags :: "u64 \<Rightarrow> u64 \<Rightarrow> u64 \<Rightarrow> bool \<Rightarrow> u64" where
  "computeFlags result a b is_subtraction =
     (let flags = zeroAndSign result in
      if is_subtraction then
        let flags = (if a < b then flags OR kCarryFlag else flags)
        in if drop_bit 63 ((a XOR b) AND (a XOR result)) \<noteq> 0 then flags OR kOverflowFlag else flags
      else
        let flags = (if result < a then flags OR kCarryFlag else flags)
        in if drop_bit 63 (NOT (a XOR b) AND (a XOR result)) \<noteq> 0 then flags OR kOverflowFlag
           else flags)"

definition isBinaryAlu :: "Opcode \<Rightarrow> bool" where
  "isBinaryAlu opcode \<longleftrightarrow> opcode \<in> {OP_ADD, OP_SUB, OP_MUL, OP_DIV, OP_MOD, OP_AND, OP_OR, OP_XOR,
     OP_SHL, OP_SHR, OP_SAR, OP_CMP, OP_TEST}"

definition isUnaryAlu :: "Opcode \<Rightarrow> bool" where
  "isUnaryAlu opcode \<longleftrightarrow> opcode \<in> {OP_INC, OP_DEC, OP_NEG, OP_NOT}"

definition evaluateBinary :: "Opcode \<Rightarrow> u64 \<Rightarrow> u64 \<Rightarrow> (AluError, AluResult) expected" where
  "evaluateBinary opcode a b =
     (case opcode of
        OP_ADD \<Rightarrow> let result = a + b in
          Inr (alu_result result (computeFlags result a b False) True True)
      | OP_SUB \<Rightarrow> let result = a - b in
          Inr (alu_result result (computeFlags result a b True) True True)
      | OP_MUL \<Rightarrow>
          let result = a * b; flags = zeroAndSign result;
              flags = (if a \<noteq> 0 \<and> result div a \<noteq> b then flags OR kCarryFlag else flags)
          in Inr (alu_result result flags True True)
      | OP_DIV \<Rightarrow>
          if b = 0 then Inl DivisionByZero
          else
            let result = (if sint b = -1 then NOT a + 1 else word_of_int (sint a sdiv sint b))
            in Inr (alu_result result (zeroAndSign result) True True)
      | OP_MOD \<Rightarrow>
          if b = 0 then Inl DivisionByZero
          else
            let result = (if sint b = -1 then 0 else word_of_int (sint a smod sint b))
            in Inr (alu_result result (zeroAndSign result) True True)
      | OP_AND \<Rightarrow> Inr (logical (a AND b))
      | OP_OR \<Rightarrow> Inr (logical (a OR b))
      | OP_XOR \<Rightarrow> Inr (logical (a XOR b))
      | OP_SHL \<Rightarrow>
          let count = unat (b AND 63);
              result = (if count = 0 then a else push_bit count a);
              flags = zeroAndSign result;
              flags = (if count \<noteq> 0 \<and> drop_bit (64 - count) a AND 1 \<noteq> 0 then flags OR kCarryFlag
                       else flags)
          in Inr (alu_result result flags True True)
      | OP_SHR \<Rightarrow>
          let count = unat (b AND 63);
              result = (if count = 0 then a else drop_bit count a);
              flags = zeroAndSign result;
              flags = (if count \<noteq> 0 \<and> drop_bit (count - 1) a AND 1 \<noteq> 0 then flags OR kCarryFlag
                       else flags)
          in Inr (alu_result result flags True True)
      | OP_SAR \<Rightarrow>
          let count = unat (b AND 63);
              result =
                (if count \<noteq> 0 then
                   let sign = (if drop_bit 63 a \<noteq> 0 then push_bit (64 - count) (NOT 0) else 0)
                   in drop_bit count a OR sign
                 else a);
              flags = zeroAndSign result;
              flags = (if count \<noteq> 0 \<and> drop_bit (count - 1) a AND 1 \<noteq> 0 then flags OR kCarryFlag
                       else flags)
          in Inr (alu_result result flags True True)
      | OP_CMP \<Rightarrow> let result = a - b in
          Inr (alu_result a (computeFlags result a b True) False True)
      | OP_TEST \<Rightarrow> let result = a AND b in Inr (alu_result a (zeroAndSign result) False True)
      | _ \<Rightarrow> Inl NotArithmetic)"

definition evaluateUnary :: "Opcode \<Rightarrow> u64 \<Rightarrow> (AluError, AluResult) expected" where
  "evaluateUnary opcode a =
     (case opcode of
        OP_INC \<Rightarrow> let result = a + 1 in
          Inr (alu_result result (computeFlags result a 1 False) True True)
      | OP_DEC \<Rightarrow> let result = a - 1 in
          Inr (alu_result result (computeFlags result a 1 True) True True)
      | OP_NEG \<Rightarrow> let result = NOT a + 1 in
          Inr (alu_result result (computeFlags result 0 a True) True True)
      | OP_NOT \<Rightarrow> Inr (alu_result (NOT a) 0 True False)
      | _ \<Rightarrow> Inl NotArithmetic)"

definition readsFlags :: "Opcode \<Rightarrow> bool" where
  "readsFlags opcode \<longleftrightarrow> opcode \<in> {OP_JE, OP_JNE, OP_JG, OP_JL, OP_JGE, OP_JLE}"

definition branchTaken :: "Opcode \<Rightarrow> u64 \<Rightarrow> bool" where
  "branchTaken opcode flags =
     (let zero = (flags AND kZeroFlag \<noteq> 0);
          sign = (flags AND kSignFlag \<noteq> 0);
          overflow = (flags AND kOverflowFlag \<noteq> 0)
      in case opcode of
           OP_JMP \<Rightarrow> True
         | OP_CALL \<Rightarrow> True
         | OP_JE \<Rightarrow> zero
         | OP_JNE \<Rightarrow> \<not> zero
         | OP_JG \<Rightarrow> \<not> zero \<and> sign = overflow
         | OP_JL \<Rightarrow> sign \<noteq> overflow
         | OP_JGE \<Rightarrow> sign = overflow
         | OP_JLE \<Rightarrow> zero \<or> sign \<noteq> overflow
         | _ \<Rightarrow> False)"

subsection \<open>Reading FLAGS\<close>

lemma and_pow2_iff: "(w :: u64) AND push_bit n 1 \<noteq> 0 \<longleftrightarrow> n < 64 \<and> bit w n"
proof
  assume "w AND push_bit n 1 \<noteq> 0"
  then obtain k where "bit (w AND push_bit n 1) k" by (metis bit_0_eq bit_word_eqI bot_apply bot_bool_def)
  then show "n < 64 \<and> bit w n" by (auto simp: bit_simps)
next
  assume "n < 64 \<and> bit w n"
  then have "bit (w AND push_bit n 1) n" by (simp add: bit_simps)
  then show "w AND push_bit n 1 \<noteq> 0" by auto
qed

lemma drop_63_iff: "drop_bit 63 (w :: u64) \<noteq> 0 \<longleftrightarrow> bit w 63"
proof -
  have "drop_bit 63 w \<noteq> 0 \<longleftrightarrow> unat (drop_bit 63 w) \<noteq> 0" by (simp only: word_unat_eq_iff unat_0)
  also have "\<dots> \<longleftrightarrow> bit w 63"
    unfolding unat_drop_bit_eq drop_bit_eq_div [where 'a = nat] bit_63_iff by (simp add: div_eq_0_iff not_less)
  finally show ?thesis .
qed

definition flag :: "nat \<Rightarrow> u64 \<Rightarrow> bool" where "flag n w = bit w n"

lemma flag_or: "flag n (a OR b) \<longleftrightarrow> flag n a \<or> flag n b"
  by (simp add: flag_def bit_or_iff)

lemma flag_0 [simp]: "\<not> flag n 0"
  by (simp add: flag_def)

lemma flag_consts_iff:
  "flag n kZeroFlag \<longleftrightarrow> n = 0" "flag n kSignFlag \<longleftrightarrow> n = 1"
  "flag n kCarryFlag \<longleftrightarrow> n = 2" "flag n kOverflowFlag \<longleftrightarrow> n = 3"
  unfolding flag_consts flag_def bit_push_bit_iff by (auto simp: bit_1_iff)

lemma and_flag_iff:
  "w AND kZeroFlag \<noteq> 0 \<longleftrightarrow> flag 0 w" "w AND kSignFlag \<noteq> 0 \<longleftrightarrow> flag 1 w"
  "w AND kOverflowFlag \<noteq> 0 \<longleftrightarrow> flag 3 w"
  unfolding flag_consts flag_def and_pow2_iff by simp_all

lemma flag_zeroAndSign:
  "flag n (zeroAndSign r) \<longleftrightarrow> (n = 0 \<and> r = 0) \<or> (n = 1 \<and> bit r 63)"
  unfolding zeroAndSign_def Let_def drop_63_iff by (auto simp: flag_or flag_consts_iff)

lemma flag_computeFlags_sub:
  "flag n (computeFlags r a b True) \<longleftrightarrow>
     (n = 0 \<and> r = 0) \<or> (n = 1 \<and> bit r 63) \<or> (n = 2 \<and> a < b) \<or>
     (n = 3 \<and> bit a 63 \<noteq> bit b 63 \<and> bit a 63 \<noteq> bit r 63)"
  unfolding computeFlags_def Let_def drop_63_iff bit_and_iff bit_xor_iff
  by (simp add: flag_or flag_zeroAndSign flag_consts_iff) blast

lemma flag_computeFlags_add:
  "flag n (computeFlags r a b False) \<longleftrightarrow>
     (n = 0 \<and> r = 0) \<or> (n = 1 \<and> bit r 63) \<or> (n = 2 \<and> r < a) \<or>
     (n = 3 \<and> bit a 63 = bit b 63 \<and> bit a 63 \<noteq> bit r 63)"
  unfolding computeFlags_def Let_def drop_63_iff bit_and_iff bit_xor_iff bit_not_iff_eq
  by (simp add: flag_or flag_zeroAndSign flag_consts_iff) blast

lemma branchTaken_flags:
  "branchTaken OP_JE f \<longleftrightarrow> flag 0 f"
  "branchTaken OP_JNE f \<longleftrightarrow> \<not> flag 0 f"
  "branchTaken OP_JG f \<longleftrightarrow> \<not> flag 0 f \<and> flag 1 f = flag 3 f"
  "branchTaken OP_JL f \<longleftrightarrow> flag 1 f \<noteq> flag 3 f"
  "branchTaken OP_JGE f \<longleftrightarrow> flag 1 f = flag 3 f"
  "branchTaken OP_JLE f \<longleftrightarrow> flag 0 f \<or> flag 1 f \<noteq> flag 3 f"
  unfolding branchTaken_def Let_def and_flag_iff by simp_all

subsection \<open>FLAGS are what signed and unsigned arithmetic say they are\<close>

lemma unat_diff_cases:
  fixes a b :: u64
  shows "unat b \<le> unat a \<and> unat (a - b) = unat a - unat b \<or>
    unat a < unat b \<and> unat (a - b) = 18446744073709551616 + unat a - unat b"
  using unat_u64_less [of b] by (auto simp: unat_sub_if')

lemma unat_sum_cases:
  fixes a b :: u64
  shows "unat a + unat b < 18446744073709551616 \<and> unat (a + b) = unat a + unat b \<or>
    18446744073709551616 \<le> unat a + unat b \<and> unat (a + b) = unat a + unat b - 18446744073709551616"
  by (auto simp: unat_plus_if')

lemma sub_arith:
  fixes A B R :: nat
  assumes "A < 18446744073709551616" and "B < 18446744073709551616"
    and "B \<le> A \<and> R = A - B \<or> A < B \<and> R = 18446744073709551616 + A - B"
  defines "s \<equiv> \<lambda>X. if 9223372036854775808 \<le> X then int X - 18446744073709551616 else int X"
  defines "ov \<equiv> (9223372036854775808 \<le> A) \<noteq> (9223372036854775808 \<le> B) \<and>
                 (9223372036854775808 \<le> A) \<noteq> (9223372036854775808 \<le> R)"
  shows "(9223372036854775808 \<le> R) \<noteq> ov \<longleftrightarrow> s A < s B"
    and "ov \<longleftrightarrow> \<not> (- 9223372036854775808 \<le> s A - s B \<and> s A - s B < 9223372036854775808)"
  using assms(1-3) unfolding s_def ov_def
  by (cases "9223372036854775808 \<le> A"; cases "9223372036854775808 \<le> B"; cases "9223372036854775808 \<le> R"; simp; linarith)+

lemma add_arith:
  fixes A B R :: nat
  assumes "A < 18446744073709551616" and "B < 18446744073709551616"
    and "A + B < 18446744073709551616 \<and> R = A + B \<or>
         18446744073709551616 \<le> A + B \<and> R = A + B - 18446744073709551616"
  defines "s \<equiv> \<lambda>X. if 9223372036854775808 \<le> X then int X - 18446744073709551616 else int X"
  defines "ov \<equiv> (9223372036854775808 \<le> A) = (9223372036854775808 \<le> B) \<and>
                 (9223372036854775808 \<le> A) \<noteq> (9223372036854775808 \<le> R)"
  shows "ov \<longleftrightarrow> \<not> (- 9223372036854775808 \<le> s A + s B \<and> s A + s B < 9223372036854775808)"
    and "R < A \<longleftrightarrow> 18446744073709551616 \<le> A + B"
  using assms(1-3) unfolding s_def ov_def
  by (cases "9223372036854775808 \<le> A"; cases "9223372036854775808 \<le> B"; cases "9223372036854775808 \<le> R"; simp; linarith)+

lemma sub_flags:
  fixes a b :: u64
  shows "flag 0 (computeFlags (a - b) a b True) \<longleftrightarrow> a = b"
    and "flag 1 (computeFlags (a - b) a b True) \<longleftrightarrow> 9223372036854775808 \<le> unat (a - b)"
    and "flag 2 (computeFlags (a - b) a b True) \<longleftrightarrow> unat a < unat b"
    and "flag 3 (computeFlags (a - b) a b True) \<longleftrightarrow>
      (9223372036854775808 \<le> unat a) \<noteq> (9223372036854775808 \<le> unat b) \<and>
      (9223372036854775808 \<le> unat a) \<noteq> (9223372036854775808 \<le> unat (a - b))"
  by (simp_all add: flag_computeFlags_sub bit_63_iff word_less_nat_alt)

lemma add_flags:
  fixes a b :: u64
  shows "flag 2 (computeFlags (a + b) a b False) \<longleftrightarrow> unat (a + b) < unat a"
    and "flag 3 (computeFlags (a + b) a b False) \<longleftrightarrow>
      (9223372036854775808 \<le> unat a) = (9223372036854775808 \<le> unat b) \<and>
      (9223372036854775808 \<le> unat a) \<noteq> (9223372036854775808 \<le> unat (a + b))"
  by (simp_all add: flag_computeFlags_add bit_63_iff word_less_nat_alt)

lemmas sub_arith_words = sub_arith [OF unat_u64_less unat_u64_less unat_diff_cases]

lemmas add_arith_words = add_arith [OF unat_u64_less unat_u64_less unat_sum_cases]

lemma sub_signed:
  fixes a b :: u64
  shows "flag 1 (computeFlags (a - b) a b True) \<noteq> flag 3 (computeFlags (a - b) a b True)
      \<longleftrightarrow> sint a < sint b"
    and "flag 3 (computeFlags (a - b) a b True) \<longleftrightarrow>
      \<not> (- 9223372036854775808 \<le> sint a - sint b \<and> sint a - sint b < 9223372036854775808)"
  unfolding sub_flags sint_u64_eq by (rule sub_arith_words)+

text \<open>CF and OF of an addition.\<close>

theorem add_carry_overflow:
  "\<exists>r. evaluateBinary OP_ADD a b = Inr r \<and>
     unat (alu_value r) = (unat a + unat b) mod 2 ^ 64 \<and>
     (flag 2 (alu_flags r) \<longleftrightarrow> 2 ^ 64 \<le> unat a + unat b) \<and>
     (flag 3 (alu_flags r) \<longleftrightarrow> \<not> (- (2 ^ 63) \<le> sint a + sint b \<and> sint a + sint b < 2 ^ 63))"
proof -
  have "flag 2 (computeFlags (a + b) a b False) \<longleftrightarrow> 18446744073709551616 \<le> unat a + unat b"
    and "flag 3 (computeFlags (a + b) a b False) \<longleftrightarrow>
      \<not> (- 9223372036854775808 \<le> sint a + sint b \<and> sint a + sint b < 9223372036854775808)"
    unfolding add_flags sint_u64_eq by (rule add_arith_words)+
  then show ?thesis
    by (auto simp: evaluateBinary_def alu_result_def Let_def unat_word_ariths)
qed

text \<open>C21: a comparison followed by a conditional jump decides the signed order.\<close>

theorem compare_and_branch:
  assumes "evaluateBinary OP_CMP a b = Inr r"
  shows "(branchTaken OP_JE (alu_flags r) \<longleftrightarrow> sint a = sint b) \<and>
    (branchTaken OP_JNE (alu_flags r) \<longleftrightarrow> sint a \<noteq> sint b) \<and>
    (branchTaken OP_JL (alu_flags r) \<longleftrightarrow> sint a < sint b) \<and>
    (branchTaken OP_JLE (alu_flags r) \<longleftrightarrow> sint a \<le> sint b) \<and>
    (branchTaken OP_JG (alu_flags r) \<longleftrightarrow> sint a > sint b) \<and>
    (branchTaken OP_JGE (alu_flags r) \<longleftrightarrow> sint a \<ge> sint b)"
proof -
  have f: "alu_flags r = computeFlags (a - b) a b True"
    using assms by (auto simp: evaluateBinary_def alu_result_def Let_def)
  have lt: "flag 1 (alu_flags r) \<noteq> flag 3 (alu_flags r) \<longleftrightarrow> sint a < sint b"
    unfolding f by (rule sub_signed)
  have eq: "flag 0 (alu_flags r) \<longleftrightarrow> sint a = sint b"
    unfolding f sub_flags by (rule word_eq_iff_signed)
  show ?thesis
    unfolding branchTaken_flags using lt eq by linarith
qed

lemma compare_and_branch_witness:
  "branchTaken OP_JL (alu_flags (alu_result (-3) (computeFlags (-3 - 5) (-3) 5 True) False True))"
proof -
  have "evaluateBinary OP_CMP (-3) 5
      = Inr (alu_result (-3) (computeFlags (-3 - 5) (-3) 5 True) False True)"
    by (simp add: evaluateBinary_def Let_def)
  from compare_and_branch [OF this] show ?thesis by simp
qed

subsection \<open>Products, quotients and shifts\<close>

lemma mul_overflow_test:
  fixes a b :: u64
  assumes "a \<noteq> 0"
  shows "a * b div a \<noteq> b \<longleftrightarrow> 2 ^ 64 \<le> unat a * unat b"
proof
  assume "2 ^ 64 \<le> unat a * unat b"
  then have wrap: "unat (a * b) \<noteq> unat a * unat b"
    using unat_u64_less [of "a * b"] by simp
  show "a * b div a \<noteq> b"
  proof
    assume "a * b div a = b"
    then have q: "unat (a * b) div unat a = unat b" by (metis unat_div)
    have "unat a * unat b \<le> unat (a * b)"
      unfolding q [symmetric] by (rule times_div_less_eq_dividend)
    moreover have "unat (a * b) \<le> unat a * unat b"
      by (simp add: unat_word_ariths)
    ultimately show False using wrap by simp
  qed
next
  assume "a * b div a \<noteq> b"
  show "2 ^ 64 \<le> unat a * unat b"
  proof (rule ccontr)
    assume "\<not> 2 ^ 64 \<le> unat a * unat b"
    then have "unat (a * b) = unat a * unat b"
      by (simp add: unat_word_ariths)
    then have "unat (a * b div a) = unat b"
      using assms by (simp add: unat_div word_unat_eq_iff)
    with \<open>a * b div a \<noteq> b\<close> show False by (simp add: word_unat_eq_iff)
  qed
qed

text \<open>CF of a multiplication reports that the unsigned product needs more than 64 bits.\<close>

lemma mul_carry:
  "\<exists>r. evaluateBinary OP_MUL a b = Inr r \<and>
     alu_value r = a * b \<and> (flag 2 (alu_flags r) \<longleftrightarrow> 2 ^ 64 \<le> unat a * unat b) \<and>
     \<not> flag 3 (alu_flags r)"
  using mul_overflow_test [of a b] 
  by (cases "a = 0")
    (auto simp: evaluateBinary_def alu_result_def Let_def flag_or flag_zeroAndSign flag_consts_iff
      simp del: One_nat_def)

lemma sdiv_bounds:
  assumes "- (2 ^ 63) \<le> x" and "x < 2 ^ 63" and "y \<noteq> 0" and "y \<noteq> -1"
  shows "- (2 ^ 63) \<le> x sdiv y \<and> x sdiv y < (2 ^ 63 :: int)"
proof (cases "y = 1")
  case False
  with assms(3,4) have y: "2 \<le> \<bar>y\<bar>" by linarith
  have "\<bar>x sdiv y\<bar> = \<bar>x\<bar> div \<bar>y\<bar>"
    using assms(3) by (auto simp: signed_divide_int_def abs_mult abs_sgn_eq div_pos_pos_trivial pos_imp_zdiv_nonneg_iff)
  also have "\<dots> \<le> \<bar>x\<bar> div 2" using y by (intro zdiv_mono2) auto
  also have "\<dots> < 2 ^ 63" using assms(1,2) by auto
  finally show ?thesis by linarith
qed (use assms in \<open>simp add: signed_divide_int_def sgn_if\<close>)

lemma smod_bounds:
  assumes "- (2 ^ 63) \<le> y" and "y < 2 ^ 63" and "y \<noteq> 0"
  shows "- (2 ^ 63) \<le> x smod y \<and> x smod y < (2 ^ 63 :: int)"
proof -
  have "x smod y = sgn x * (\<bar>x\<bar> mod \<bar>y\<bar>)"
    by (simp add: signed_modulo_int_def signed_divide_int_def algebra_simps minus_div_mult_eq_mod
        [symmetric] sgn_mult abs_mult mult_sgn_abs)
  moreover define m where "m = \<bar>x\<bar> mod \<bar>y\<bar>"
  moreover have "0 \<le> m" "m < \<bar>y\<bar>" using assms by (auto simp: m_def)
  moreover have "\<bar>y\<bar> \<le> 2 ^ 63" using assms by linarith
  moreover have "sgn x = 0 \<or> sgn x = 1 \<or> sgn x = -1" by (simp add: sgn_if)
  ultimately show ?thesis by (elim disjE) simp_all
qed

lemma sint_bounds: "- (2 ^ 63) \<le> sint (a :: u64) \<and> sint a < 2 ^ 63"
  using sint_greater_eq [of a] sint_less [of a] by simp

text \<open>
  DIV and MOD truncate towards zero, the one overflowing quotient wraps, and the two results
  satisfy the division identity.
\<close>

theorem div_mod_truncate:
  assumes "b \<noteq> 0"
  shows "\<exists>q m. evaluateBinary OP_DIV a b = Inr q \<and> evaluateBinary OP_MOD a b = Inr m \<and>
    sint (alu_value q) =
      (if sint a = - (2 ^ 63) \<and> sint b = -1 then - (2 ^ 63) else sint a sdiv sint b) \<and>
    sint (alu_value m) = sint a smod sint b \<and>
    a = b * alu_value q + alu_value m"
proof (cases "sint b = -1")
  case True
  then have b: "b = -1" by (metis signed_minus_1 word_eq_iff_signed)
  have neg: "sint (- a) = (if sint a = - (2 ^ 63) then - (2 ^ 63) else - sint a)"
  proof (cases "sint a = - (2 ^ 63)")
    case True
    then show ?thesis by (simp add: sint_word_minus signed_take_bit_eq_take_bit_shift)
  next
    case False
    then show ?thesis
      using sint_of_int_u64 [of "- sint a"] sint_bounds [of a] by simp
  qed
  show ?thesis
    using assms True neg
    by (auto simp: evaluateBinary_def alu_result_def Let_def b minus_eq_not_minus_1 [symmetric] not_eq_complement
        signed_divide_int_def signed_modulo_int_def sgn_mult mult_sgn_abs)
next
  case False
  have b0: "sint b \<noteq> 0" using assms by (simp add: signed_eq_0_iff)
  have q: "sint (word_of_int (sint a sdiv sint b) :: u64) = sint a sdiv sint b"
    using sdiv_bounds [of "sint a" "sint b"] sint_bounds [of a] b0 False by (simp add: sint_of_int_u64)
  have m: "sint (word_of_int (sint a smod sint b) :: u64) = sint a smod sint b"
    using smod_bounds [of "sint b" "sint a"] sint_bounds [of b] b0 by (simp add: sint_of_int_u64)
  have "sint b * (sint a sdiv sint b) + sint a smod sint b = sint a"
    using sdiv_mult_smod_eq [of "sint a" "sint b"] by (simp only: mult.commute)
  then have "of_int (sint b) * of_int (sint a sdiv sint b) + of_int (sint a smod sint b) = (of_int (sint a) :: u64)"
    by (simp only: flip: of_int_add of_int_mult)
  then have "b * word_of_int (sint a sdiv sint b) + word_of_int (sint a smod sint b) = a"
    by (simp only: of_int_sint scast_id)
  then show ?thesis
    using assms False q m by (auto simp: evaluateBinary_def alu_result_def Let_def)
qed

lemma div_mod_truncate_witness:
  "\<exists>q m. evaluateBinary OP_DIV (-7) 2 = Inr q \<and> evaluateBinary OP_MOD (-7) 2 = Inr m \<and>
    sint (alu_value q) = -3 \<and> sint (alu_value m) = -1"
  using div_mod_truncate [of 2 "-7"] by (auto simp: signed_divide_int_def signed_modulo_int_def)

lemma sar_bits:
  fixes a :: u64
  assumes "0 < n" and "n < 64"
  shows "drop_bit n a OR (if drop_bit 63 a \<noteq> 0 then push_bit (64 - n) (NOT 0) else 0)
    = signed_drop_bit n a"
  unfolding drop_63_iff
  by (rule bit_word_eqI) (use assms in \<open>auto simp: bit_simps bit_signed_drop_bit_iff dest: bit_imp_le_length\<close>)

lemma sint_signed_drop_bit: "sint (signed_drop_bit n (a :: u64)) = sint a div 2 ^ n"
  by (simp add: sint_signed_drop_bit_eq drop_bit_eq_div)

text \<open>SAR divides the signed value by a power of two, rounding down.\<close>

theorem sar_signed_shift:
  "\<exists>r. evaluateBinary OP_SAR a b = Inr r \<and>
     sint (alu_value r) = sint a div 2 ^ (unat b mod 64) \<and>
     (flag 2 (alu_flags r) \<longleftrightarrow> unat b mod 64 \<noteq> 0 \<and> bit a (unat b mod 64 - 1))"
proof -
  have cnt: "unat (b AND 63) = unat b mod 64"
  proof -
    have "(63 :: u64) = mask 6" by (simp add: mask_eq_exp_minus_1)
    then have *: "b AND 63 = take_bit 6 b" by (simp only: take_bit_eq_mask)
    show ?thesis unfolding * unsigned_take_bit_eq by (simp add: take_bit_eq_mod)
  qed
  have bit1: "drop_bit n a AND 1 \<noteq> 0 \<longleftrightarrow> bit a n" for n
    using and_pow2_iff [of "drop_bit n a" 0] by (simp add: bit_drop_bit_eq)
  have "\<exists>r. evaluateBinary OP_SAR a b = Inr r" by (simp add: evaluateBinary_def Let_def)
  then obtain r where ev: "evaluateBinary OP_SAR a b = Inr r" ..
  then have r: "r =
      (let count = unat b mod 64;
           result = (if count \<noteq> 0 then signed_drop_bit count a else a)
       in alu_result result (if count \<noteq> 0 \<and> bit a (count - 1) then zeroAndSign result OR kCarryFlag
                             else zeroAndSign result) True True)"
    using sar_bits [of "unat b mod 64" a]
    unfolding evaluateBinary_def Let_def cnt bit1 by (auto split: if_splits)
  show ?thesis unfolding ev
    by (cases "unat b mod 64 = 0")
      (simp_all add: r Let_def alu_result_def flag_or flag_zeroAndSign flag_consts_iff
        sint_signed_drop_bit)
qed

lemma in_mask_iff: "f AND NOT kFlagsMask = 0 \<longleftrightarrow> (\<forall>n < 64. flag n f \<longrightarrow> n < 4)"
proof -
  have m: "bit kFlagsMask n \<longleftrightarrow> n < 4" for n
    using flag_consts_iff [of n] by (auto simp: kFlagsMask_def bit_or_iff flag_def)
  show ?thesis
  proof
    assume z: "f AND NOT kFlagsMask = 0"
    show "\<forall>n < 64. flag n f \<longrightarrow> n < 4"
      using arg_cong [OF z, of bit] by (auto simp: fun_eq_iff bit_simps m flag_def)
  next
    assume "\<forall>n < 64. flag n f \<longrightarrow> n < 4"
    then show "f AND NOT kFlagsMask = 0"
      by (intro bit_word_eqI) (auto simp: bit_simps m flag_def)
  qed
qed

lemma flags_below_4 [simp]:
  "flag n (zeroAndSign r) \<Longrightarrow> n < 4" "flag n (computeFlags r a b s) \<Longrightarrow> n < 4"
  by (cases s; auto simp: flag_zeroAndSign flag_computeFlags_add flag_computeFlags_sub)+

text \<open>every FLAGS word an operation produces lies inside the architectural mask.\<close>

theorem alu_flags_in_mask:
  "(evaluateBinary opcode a b = Inr r \<or> evaluateUnary opcode a = Inr r) \<Longrightarrow>
   alu_flags r AND NOT kFlagsMask = 0"
  unfolding in_mask_iff
  by (auto simp: evaluateBinary_def evaluateUnary_def logical_def alu_result_def Let_def flag_or flag_consts_iff
      split: Opcode.splits if_splits)

lemma alu_flags_in_mask_witness:
  "alu_flags (logical (5 AND 3)) AND NOT kFlagsMask = 0"
  by (rule alu_flags_in_mask [of OP_AND 5 3]) (simp add: evaluateBinary_def)

lemma binary_total: "isBinaryAlu opcode \<longleftrightarrow> (\<forall>a b. evaluateBinary opcode a b \<noteq> Inl NotArithmetic)"
  by (cases opcode) (auto simp: isBinaryAlu_def evaluateBinary_def Let_def)

lemma unary_total: "isUnaryAlu opcode \<longleftrightarrow> (\<forall>a. evaluateUnary opcode a \<noteq> Inl NotArithmetic)"
  by (cases opcode) (auto simp: isUnaryAlu_def evaluateUnary_def Let_def)

end
