(* ===== verification/Encoding.thy ===== *)
theory Encoding
  imports Isa
begin

text \<open>
  include/minitool/isa/encoding.hpp and src/isa/encoding.cpp: the 64-bit instruction word, its
  encoder and decoder, branch displacements and the textual rendering.
\<close>

definition kInstructionSize :: nat where "kInstructionSize = 8"
definition kOpcodeShift :: nat where "kOpcodeShift = 56"
definition kDstShift :: nat where "kDstShift = 52"
definition kSrcShift :: nat where "kSrcShift = 48"
definition kImmediateBits :: nat where "kImmediateBits = 48"
definition kImmediateMask :: u64 where "kImmediateMask = push_bit kImmediateBits 1 - 1"
definition kRegisterMask :: u64 where "kRegisterMask = 0xF"

lemmas encoding_consts = kInstructionSize_def kOpcodeShift_def kDstShift_def kSrcShift_def
  kImmediateBits_def kImmediateMask_def kRegisterMask_def

datatype EncodeError = EncUnknownOpcode | InvalidRegister | ImmediateOutOfRange
  | NonCanonicalOperand | BufferTooSmall

datatype DecodeError = DecUnknownOpcode | ReservedRegisterFieldSet | ReservedImmediateFieldSet
  | DecTruncated

fun encodeErrorName :: "EncodeError \<Rightarrow> string" where
  "encodeErrorName EncUnknownOpcode = ''unknown opcode''"
| "encodeErrorName InvalidRegister = ''invalid register''"
| "encodeErrorName ImmediateOutOfRange = ''immediate out of range''"
| "encodeErrorName NonCanonicalOperand = ''non-canonical operand field''"
| "encodeErrorName BufferTooSmall = ''buffer too small''"

fun decodeErrorName :: "DecodeError \<Rightarrow> string" where
  "decodeErrorName DecUnknownOpcode = ''unknown opcode''"
| "decodeErrorName ReservedRegisterFieldSet = ''reserved register field set''"
| "decodeErrorName ReservedImmediateFieldSet = ''reserved immediate field set''"
| "decodeErrorName DecTruncated = ''truncated instruction''"

record FieldUse =
  uses_dst :: bool
  uses_src :: bool
  uses_imm :: bool
  imm_signed :: bool

definition field_use :: "bool \<Rightarrow> bool \<Rightarrow> bool \<Rightarrow> bool \<Rightarrow> FieldUse" where
  "field_use d s i g = \<lparr> uses_dst = d, uses_src = s, uses_imm = i, imm_signed = g \<rparr>"

fun fieldsOf :: "Format \<Rightarrow> FieldUse" where
  "fieldsOf Fmt_None = field_use False False False True"
| "fieldsOf Fmt_Reg1 = field_use True False False True"
| "fieldsOf Fmt_Reg2 = field_use True True False True"
| "fieldsOf Fmt_RegImm = field_use True False True True"
| "fieldsOf Fmt_Mem = field_use True True True True"
| "fieldsOf Fmt_Jump = field_use False False True True"
| "fieldsOf Fmt_SysImm = field_use False False True False"

definition encode :: "Instruction \<Rightarrow> (EncodeError, u64) expected" where
  "encode instruction =
     (case findOpcode (i_opcode instruction) of
        None \<Rightarrow> Inl EncUnknownOpcode
      | Some info \<Rightarrow>
          let fields = fieldsOf (oi_format info);
              dst = i_dst instruction; src = i_src instruction; imm = i_imm instruction
          in if \<not> isValidRegister dst \<or> \<not> isValidRegister src then Inl InvalidRegister
             else if \<not> uses_dst fields \<and> dst \<noteq> 0 then Inl NonCanonicalOperand
             else if \<not> uses_src fields \<and> src \<noteq> 0 then Inl NonCanonicalOperand
             else if \<not> uses_imm fields \<and> imm \<noteq> 0 then Inl NonCanonicalOperand
             else if uses_imm fields \<and> imm_signed fields \<and> \<not> fitsSigned imm kImmediateBits
             then Inl ImmediateOutOfRange
             else if uses_imm fields \<and> \<not> imm_signed fields \<and>
                     (sint imm < 0 \<or> \<not> fitsUnsigned imm kImmediateBits)
             then Inl ImmediateOutOfRange
             else
               let imm_bits = (if uses_imm fields then imm AND kImmediateMask else 0)
               in Inr (push_bit kOpcodeShift (ucast (opcode_num (i_opcode instruction))) OR
                       push_bit kDstShift (of_nat (registerIndex dst)) OR
                       push_bit kSrcShift (of_nat (registerIndex src)) OR imm_bits))"

definition decode :: "u64 \<Rightarrow> (DecodeError, Instruction) expected" where
  "decode word =
     (let opcode = toOpcode (ucast (drop_bit kOpcodeShift word AND 0xFF)) in
      case findOpcode opcode of
        None \<Rightarrow> Inl DecUnknownOpcode
      | Some info \<Rightarrow>
          let fields = fieldsOf (oi_format info);
              dst_bits = drop_bit kDstShift word AND kRegisterMask;
              src_bits = drop_bit kSrcShift word AND kRegisterMask;
              imm_bits = word AND kImmediateMask
          in if \<not> uses_dst fields \<and> dst_bits \<noteq> 0 then Inl ReservedRegisterFieldSet
             else if \<not> uses_src fields \<and> src_bits \<noteq> 0 then Inl ReservedRegisterFieldSet
             else if \<not> uses_imm fields \<and> imm_bits \<noteq> 0 then Inl ReservedImmediateFieldSet
             else Inr \<lparr> i_opcode = opcode, i_dst = ucast dst_bits, i_src = ucast src_bits,
                         i_imm = (if uses_imm fields
                                  then (if imm_signed fields then signExtend imm_bits kImmediateBits
                                        else imm_bits)
                                  else 0) \<rparr>)"

definition encodeInto :: "u8 list \<Rightarrow> Instruction \<Rightarrow> (EncodeError, u8 list) expected" where
  "encodeInto out instruction =
     (if length out < kInstructionSize then Inl BufferTooSmall
      else case encode instruction of
             Inl e \<Rightarrow> Inl e
           | Inr word \<Rightarrow> Inr (store_le 8 out word))"

definition decodeFrom :: "u8 list \<Rightarrow> (DecodeError, Instruction) expected" where
  "decodeFrom inp =
     (if length inp < kInstructionSize then Inl DecTruncated else decode (load_le 8 inp))"

definition branchTarget :: "u64 \<Rightarrow> i64 \<Rightarrow> u64" where
  "branchTarget instruction_address displacement =
     instruction_address + of_nat kInstructionSize + displacement"

definition branchDisplacement :: "u64 \<Rightarrow> u64 \<Rightarrow> i64" where
  "branchDisplacement instruction_address target =
     target - (instruction_address + of_nat kInstructionSize)"

subsection \<open>Rendering\<close>

fun dec_digits :: "nat \<Rightarrow> string \<Rightarrow> string" where
  "dec_digits n acc =
     (let acc' = char_of (48 + n mod 10) # acc in if n < 10 then acc' else dec_digits (n div 10) acc')"

declare dec_digits.simps [simp del]

definition nat_str :: "nat \<Rightarrow> string" where "nat_str n = dec_digits n ''''"

definition int_str :: "int \<Rightarrow> string" where
  "int_str i = (if i < 0 then CHR ''-'' # nat_str (nat (- i)) else nat_str (nat i))"

definition hex_digit :: "nat \<Rightarrow> char" where
  "hex_digit d = char_of (if d < 10 then 48 + d else 55 + d)"

definition hex2 :: "nat \<Rightarrow> string" where
  "hex2 n = [hex_digit (n div 16 mod 16), hex_digit (n mod 16)]"

definition toString :: "Instruction \<Rightarrow> string" where
  "toString i =
     (case findOpcode (i_opcode i) of
        None \<Rightarrow> ''.word 0x'' @ hex2 (unat (opcode_num (i_opcode i))) @ ''...''
      | Some info \<Rightarrow>
          let name = oi_mnemonic info;
              dst = registerName (i_dst i); src = registerName (i_src i);
              imm = i_imm i
          in (case oi_format info of
                Fmt_None \<Rightarrow> name
              | Fmt_Reg1 \<Rightarrow> name @ '' '' @ dst
              | Fmt_Reg2 \<Rightarrow> name @ '' '' @ dst @ '', '' @ src
              | Fmt_RegImm \<Rightarrow> name @ '' '' @ dst @ '', '' @ int_str (sint imm)
              | Fmt_Mem \<Rightarrow>
                  let sign = (if sint imm < 0 then ''-'' else ''+'');
                      magnitude = nat_str (unat (if sint imm < 0 then NOT imm + 1 else imm))
                  in if i_opcode i = OP_STORE
                     then name @ '' ['' @ dst @ '' '' @ sign @ '' '' @ magnitude @ ''], '' @ src
                     else name @ '' '' @ dst @ '', ['' @ src @ '' '' @ sign @ '' '' @ magnitude @ '']''
              | Fmt_Jump \<Rightarrow> name @ '' .'' @ (if sint imm < 0 then '''' else ''+'') @ int_str (sint imm)
              | Fmt_SysImm \<Rightarrow> name @ '' '' @ int_str (sint imm)))"

subsection \<open>Packing and unpacking a word\<close>

definition pack :: "u8 \<Rightarrow> u64 \<Rightarrow> u64 \<Rightarrow> u64 \<Rightarrow> u64" where
  "pack code d s m = push_bit 56 (ucast code) OR push_bit 52 d OR push_bit 48 s OR m"

lemma kImmediateMask_eq: "kImmediateMask = mask 48"
  unfolding encoding_consts by (rule mask_push)

lemma and_imm_mask: "w AND kImmediateMask = take_bit 48 w"
  by (simp add: kImmediateMask_eq take_bit_eq_mask)

lemma and_reg_mask: "w AND kRegisterMask = take_bit 4 w"
  by (simp add: encoding_consts take_bit_eq_mask mask_eq_exp_minus_1)

lemma and_byte_mask: "(w :: u64) AND 0xFF = take_bit 8 w"
  by (simp add: take_bit_eq_mask mask_eq_exp_minus_1)

lemma small_bits: "take_bit n v = v \<Longrightarrow> bit v k \<Longrightarrow> k < n"
  by (metis bit_take_bit_iff)

lemma unpack_pack:
  assumes d: "take_bit 4 d = d" and s: "take_bit 4 s = s" and m: "take_bit 48 m = m"
  shows "ucast (drop_bit 56 (pack code d s m)) = code" (is ?code)
    and "take_bit 4 (drop_bit 52 (pack code d s m)) = d" (is ?dst)
    and "take_bit 4 (drop_bit 48 (pack code d s m)) = s" (is ?src)
    and "take_bit 48 (pack code d s m) = m" (is ?imm)
proof -
  note fields = pack_def bit_or_iff bit_push_bit_iff bit_drop_bit_eq bit_take_bit_iff bit_ucast_iff
  show ?code
  proof (rule bit_word_eqI)
    fix n assume "n < LENGTH(8)"
    then show "bit (ucast (drop_bit 56 (pack code d s m)) :: u8) n = bit code n"
      using small_bits [OF d, of "4 + n"] small_bits [OF s, of "8 + n"] small_bits [OF m, of "56 + n"]
      by (auto simp: fields)
  qed
  show ?dst
  proof (rule bit_word_eqI)
    fix n assume "n < LENGTH(64)"
    then show "bit (take_bit 4 (drop_bit 52 (pack code d s m))) n = bit d n"
      using small_bits [OF d, of n] small_bits [OF s, of "4 + n"] small_bits [OF m, of "52 + n"]
      by (auto simp: fields)
  qed
  show ?src
  proof (rule bit_word_eqI)
    fix n assume "n < LENGTH(64)"
    then show "bit (take_bit 4 (drop_bit 48 (pack code d s m))) n = bit s n"
      using small_bits [OF s, of n] small_bits [OF m, of "48 + n"]
      by (auto simp: fields)
  qed
  show ?imm
    by (rule bit_word_eqI) (use small_bits [OF m] in \<open>auto simp: fields\<close>)
qed

lemma pack_unpack:
  "pack (ucast (drop_bit 56 w)) (take_bit 4 (drop_bit 52 w)) (take_bit 4 (drop_bit 48 w)) (take_bit 48 w) = w"
proof (rule bit_word_eqI)
  fix n assume n: "n < LENGTH(64)"
  consider "n < 48" | "48 \<le> n \<and> n < 52" | "52 \<le> n \<and> n < 56" | "56 \<le> n" by linarith
  then show "bit (pack (ucast (drop_bit 56 w)) (take_bit 4 (drop_bit 52 w)) (take_bit 4 (drop_bit 48 w))
      (take_bit 48 w)) n = bit w n"
    using n by cases (auto simp: pack_def bit_simps)
qed

lemma valid_register_bits:
  "isValidRegister r \<Longrightarrow> take_bit 4 (ucast r :: u64) = ucast r"
  by (erule valid_register_cases) simp_all

lemma ucast_register_bits: "isValidRegister (ucast (take_bit 4 (w :: u64)))"
proof -
  have "unat (ucast (take_bit 4 w) :: u8) < 16"
    by (simp add: unsigned_take_bit_eq unsigned_ucast_eq take_bit_nat_less_exp [of 4, simplified])
  then show ?thesis by (simp add: isValidRegister_def registerIndex_def kRegisterCount_def)
qed

lemma ucast_ucast_register: "ucast (ucast (take_bit 4 (w :: u64)) :: u8) = take_bit 4 w"
  by (rule bit_word_eqI) (auto simp: bit_simps)

lemma of_nat_registerIndex: "of_nat (registerIndex r) = (ucast r :: u64)"
  by (simp add: registerIndex_def)

lemma ucast_down_up [simp]: "(ucast (ucast (r :: u8) :: u64) :: u8) = r"
  by (rule bit_word_eqI) (auto simp: bit_simps)

lemma ucast_u8_eq_0 [simp]: "(ucast (r :: u8) :: u64) = 0 \<longleftrightarrow> r = 0"
  by (metis ucast_down_up ucast_0)

text \<open>The requirements the encoder puts on an instruction, written once.\<close>

definition encodable :: "Instruction \<Rightarrow> bool" where
  "encodable i \<longleftrightarrow>
     (case formatOf (i_opcode i) of
        None \<Rightarrow> False
      | Some fmt \<Rightarrow>
          isValidRegister (i_dst i) \<and> isValidRegister (i_src i) \<and>
          (uses_dst (fieldsOf fmt) \<or> i_dst i = 0) \<and> (uses_src (fieldsOf fmt) \<or> i_src i = 0) \<and>
          (if \<not> uses_imm (fieldsOf fmt) then i_imm i = 0
           else if imm_signed (fieldsOf fmt) then - (2 ^ 47) \<le> sint (i_imm i) \<and> sint (i_imm i) < 2 ^ 47
           else unat (i_imm i) < 2 ^ 48))"

lemma encode_eq:
  "encodable i \<Longrightarrow>
   encode i = Inr (pack (opcode_num (i_opcode i)) (ucast (i_dst i)) (ucast (i_src i)) (take_bit 48 (i_imm i)))"
  by (auto simp: encodable_def encode_def formatOf_def Let_def pack_def of_nat_registerIndex
      and_imm_mask fitsSigned_iff fitsUnsigned_iff kImmediateBits_def kOpcodeShift_def kDstShift_def
      kSrcShift_def sint_neg_iff
      split: option.splits if_splits)

lemma encode_Inr_iff: "(\<exists>w. encode i = Inr w) \<longleftrightarrow> encodable i"
proof
  assume "\<exists>w. encode i = Inr w"
  then show "encodable i"
    by (auto simp: encodable_def encode_def formatOf_def Let_def fitsSigned_iff fitsUnsigned_iff
        kImmediateBits_def sint_neg_iff split: option.splits if_splits)
qed (auto simp: encode_eq)

lemma decode_pack:
  assumes "encodable i"
  shows "decode (pack (opcode_num (i_opcode i)) (ucast (i_dst i)) (ucast (i_src i)) (take_bit 48 (i_imm i)))
    = Inr i" (is "decode ?w = _")
proof -
  from assms obtain fmt where fmt: "formatOf (i_opcode i) = Some fmt"
    by (auto simp: encodable_def split: option.splits)
  then obtain info where info: "findOpcode (i_opcode i) = Some info" "oi_format info = fmt"
    by (auto simp: formatOf_def split: option.splits)
  have valid: "isValidOpcode (i_opcode i)" by (simp add: isValidOpcode_def info)
  have d: "isValidRegister (i_dst i)" and s: "isValidRegister (i_src i)"
    using assms fmt by (auto simp: encodable_def)
  note parts = unpack_pack [of "ucast (i_dst i)" "ucast (i_src i)" "take_bit 48 (i_imm i)"
      "opcode_num (i_opcode i)", OF valid_register_bits [OF d] valid_register_bits [OF s], simplified]
  have op: "(ucast (drop_bit 56 ?w AND 0xFF) :: u8) = opcode_num (i_opcode i)"
  proof -
    have "(ucast (take_bit 8 (drop_bit 56 ?w)) :: u8) = ucast (drop_bit 56 ?w)"
      by (rule bit_word_eqI) (auto simp: bit_simps)
    then show ?thesis by (simp only: and_byte_mask parts)
  qed
  have im: "signExtend (take_bit 48 (i_imm i)) 48 = i_imm i"
    if "- (2 ^ 47) \<le> sint (i_imm i)" "sint (i_imm i) < 2 ^ 47"
    using that by (intro signExtend_truncates) (simp_all add: fitsSigned_iff)
  have um: "take_bit 48 (i_imm i) = i_imm i" if "unat (i_imm i) < 2 ^ 48"
    using that take_bit_nat_eq_self [of "unat (i_imm i)" 48]
    by (simp add: word_unat_eq_iff unsigned_take_bit_eq)
  define w where "w = ?w"
  note parts = parts [folded w_def] and op = op [folded w_def]
  have "decode w = Inr \<lparr> i_opcode = i_opcode i, i_dst = i_dst i, i_src = i_src i, i_imm = i_imm i \<rparr>"
    using assms fmt info im um valid
    by (cases "uses_imm (fieldsOf fmt)"; cases "imm_signed (fieldsOf fmt)")
      (auto simp: decode_def op Let_def kOpcodeShift_def kDstShift_def kSrcShift_def
        kImmediateBits_def and_imm_mask and_reg_mask parts encodable_def)
  then show ?thesis by (simp add: w_def)
qed

lemma decode_encode: "encode i = Inr w \<Longrightarrow> decode w = Inr i"
  using encode_Inr_iff [of i] encode_eq [of i] decode_pack [of i] by auto

lemma signExtend_48:
  "- (2 ^ 47) \<le> sint (signExtend v 48) \<and> sint (signExtend v 48) < 2 ^ 47"
  and take_signExtend_48: "take_bit 48 (signExtend v 48) = take_bit 48 v"
proof -
  have e: "signExtend v 48 = signed_take_bit 47 v" by (simp add: signExtend_eq)
  have "sint (signed_take_bit 47 v) = signed_take_bit 47 (sint v)"
    by (rule bit_eqI) (auto simp: bit_simps min_def)
  then show "- (2 ^ 47) \<le> sint (signExtend v 48) \<and> sint (signExtend v 48) < 2 ^ 47"
    using signed_take_bit_int_greater_eq_minus_exp [of 47 "sint v"]
      signed_take_bit_int_less_exp [of 47 "sint v"] by (simp add: e)
  show "take_bit 48 (signExtend v 48) = take_bit 48 v"
    unfolding e
    by (rule bit_word_eqI) (auto simp: bit_simps min_def elim!: back_subst [where P = "bit v"])
qed

lemma decode_encodable:
  assumes "decode w = Inr i"
  shows "encodable i \<and>
    pack (opcode_num (i_opcode i)) (ucast (i_dst i)) (ucast (i_src i)) (take_bit 48 (i_imm i)) = w"
proof -
  let ?op = "toOpcode (ucast (drop_bit 56 w AND 0xFF))"
  have byte: "(ucast (drop_bit 56 w AND 0xFF) :: u8) = ucast (drop_bit 56 w)"
    unfolding and_byte_mask by (rule bit_word_eqI) (auto simp: bit_simps)
  have z: "isValidRegister 0"
    by (simp add: isValidRegister_def registerIndex_def kRegisterCount_def)
  have imm: "unat (take_bit 48 w) < 2 ^ 48"
    by (simp only: unsigned_take_bit_eq take_bit_nat_less_exp)
  from assms obtain info where info: "findOpcode ?op = Some info"
    by (auto simp: decode_def Let_def kOpcodeShift_def split: option.splits)
  let ?f = "fieldsOf (oi_format info)"
  from assms info have i: "i = \<lparr> i_opcode = ?op, i_dst = ucast (take_bit 4 (drop_bit 52 w)),
      i_src = ucast (take_bit 4 (drop_bit 48 w)),
      i_imm = (if uses_imm ?f then (if imm_signed ?f then signExtend (take_bit 48 w) 48 else take_bit 48 w)
               else 0) \<rparr>"
    and u: "uses_dst ?f \<or> take_bit 4 (drop_bit 52 w) = 0" "uses_src ?f \<or> take_bit 4 (drop_bit 48 w) = 0"
      "uses_imm ?f \<or> take_bit 48 w = 0"
    by (simp_all add: decode_def Let_def kOpcodeShift_def kDstShift_def kSrcShift_def kImmediateBits_def
        and_imm_mask and_reg_mask split: if_splits)
  have fmt: "formatOf ?op = Some (oi_format info)" using info by (simp add: formatOf_def)
  have enc: "encodable i"
    using u fmt signExtend_48 [of "take_bit 48 w"] imm
    by (auto simp: encodable_def i ucast_register_bits z)
  have "take_bit 48 (i_imm i) = take_bit 48 w"
    using u by (auto simp: i take_signExtend_48)
  then show ?thesis
    using enc pack_unpack [of w] by (simp add: i byte ucast_ucast_register)
qed

lemma encode_decode: "decode w = Inr i \<Longrightarrow> encode i = Inr w"
  using decode_encodable [of w i] encode_eq [of i] by auto

text \<open>
  C10: encoding and decoding are inverse to each other on the nose: a 64-bit word is the encoding
  of an instruction exactly when it decodes to that instruction, so no two instructions share an
  encoding and no word but a canonical one is accepted.
\<close>

theorem encode_iff_decode: "encode i = Inr w \<longleftrightarrow> decode w = Inr i"
  using decode_encode encode_decode by blast

subsection \<open>Byte buffers and branches\<close>

lemma decodeFrom_encodeInto:
  assumes "encodeInto out i = Inr out'"
  shows "decodeFrom out' = Inr i \<and> length out' = length out \<and> drop 8 out' = drop 8 out"
proof -
  from assms obtain w where w: "encode i = Inr w" and o: "out' = store_le 8 out w"
    and len: "8 \<le> length out"
    by (auto simp: encodeInto_def kInstructionSize_def split: if_splits sum.splits)
  have "load_le 8 out' = w"
    unfolding o load_store_le by (simp add: take_bit_word_eq_self)
  then show ?thesis
    using len decode_encode [OF w] by (simp add: decodeFrom_def kInstructionSize_def o) (simp add: store_le_def)
qed

lemma branchTarget_branchDisplacement [simp]:
  "branchTarget a (branchDisplacement a t) = t"
  by (simp add: branchTarget_def branchDisplacement_def)

lemma branchDisplacement_branchTarget [simp]:
  "branchDisplacement a (branchTarget a d) = d"
  by (simp add: branchTarget_def branchDisplacement_def)

lemma decode_error_iff_undefined:
  "decode w = Inl DecUnknownOpcode \<longleftrightarrow> \<not> isValidOpcode (toOpcode (ucast (drop_bit 56 w)))"
proof -
  have byte: "(ucast (drop_bit 56 w AND 0xFF) :: u8) = ucast (drop_bit 56 w)"
    unfolding and_byte_mask by (rule bit_word_eqI) (auto simp: bit_simps)
  show ?thesis
    by (auto simp: decode_def Let_def kOpcodeShift_def byte isValidOpcode_def split: option.splits)
qed

end
