(* ===== verification/Memory.thy ===== *)
theory Memory
  imports Encoding
begin

text \<open>
  include/minitool/vm/memory.hpp and src/vm/memory.cpp: the region based address space of the
  virtual machine.  A region's byte vector is the function from offsets below its size to
  bytes; \<open>checkAccess\<close> returns the index of the region it found, the model's form of the
  pointer into \<open>regions_\<close>.  The operations are shown to implement a flat partial map from
  addresses to bytes (\<open>mem_at\<close>) together with a map of permissions (\<open>perm_at\<close>).
\<close>

type_synonym Permission = u8

definition Perm_None :: Permission where "Perm_None = 0"
definition Perm_Read :: Permission where "Perm_Read = 1"
definition Perm_Write :: Permission where "Perm_Write = 2"
definition Perm_Exec :: Permission where "Perm_Exec = 4"

lemmas perm_consts = Perm_None_def Perm_Read_def Perm_Write_def Perm_Exec_def

definition hasPermission :: "Permission \<Rightarrow> Permission \<Rightarrow> bool" where
  "hasPermission permissions wanted \<longleftrightarrow> permissions AND wanted = wanted"

definition permissionsToString :: "Permission \<Rightarrow> string" where
  "permissionsToString p =
     [if hasPermission p Perm_Read then CHR ''r'' else CHR ''-'',
      if hasPermission p Perm_Write then CHR ''w'' else CHR ''-'',
      if hasPermission p Perm_Exec then CHR ''x'' else CHR ''-'']"

datatype MemoryErrorKind = Unmapped | ReadDenied | WriteDenied | ExecuteDenied
  | CrossesRegionEnd | OutOfMemory

record MemoryFault =
  mf_kind :: MemoryErrorKind
  mf_address :: u64
  mf_size :: u64

definition mk_fault :: "MemoryErrorKind \<Rightarrow> u64 \<Rightarrow> u64 \<Rightarrow> MemoryFault" where
  "mk_fault kind address sz = \<lparr> mf_kind = kind, mf_address = address, mf_size = sz \<rparr>"

fun kindName :: "MemoryErrorKind \<Rightarrow> string" where
  "kindName Unmapped = ''address is not mapped''"
| "kindName ReadDenied = ''region is not readable''"
| "kindName WriteDenied = ''region is not writable''"
| "kindName ExecuteDenied = ''region is not executable''"
| "kindName CrossesRegionEnd = ''access runs past the end of its region''"
| "kindName OutOfMemory = ''the heap is exhausted''"

record Region =
  rg_name :: string
  rg_base :: u64
  rg_size :: u64
  rg_permissions :: Permission
  rg_data :: "nat \<Rightarrow> u8"

record VirtualMemory =
  regions :: "Region list"
  heap_next :: u64

definition empty_memory :: VirtualMemory where
  "empty_memory = \<lparr> regions = [], heap_next = 0 \<rparr>"

definition mem_reset :: "VirtualMemory \<Rightarrow> VirtualMemory" where
  "mem_reset m = m\<lparr> regions := [], heap_next := 0 \<rparr>"

definition overlaps :: "Region \<Rightarrow> u64 \<Rightarrow> u64 \<Rightarrow> bool" where
  "overlaps region base sz \<longleftrightarrow>
     base < rg_base region + rg_size region \<and> rg_base region < base + sz"

definition addRegion ::
  "VirtualMemory \<Rightarrow> string \<Rightarrow> u64 \<Rightarrow> u64 \<Rightarrow> Permission \<Rightarrow> u8 list \<Rightarrow> bool \<times> VirtualMemory" where
  "addRegion m name base sz permissions initial =
     (if sz = 0 \<or> base > 0xFFFFFFFFFFFFFFFF - sz then (False, m)
      else if \<exists>region \<in> set (regions m). overlaps region base sz then (False, m)
      else
        let copied = min (length initial) (unat sz);
            region = \<lparr> rg_name = name, rg_base = base, rg_size = sz, rg_permissions = permissions,
                       rg_data = (\<lambda>i. if i < copied then initial ! i else 0) \<rparr>
        in (True, m\<lparr> heap_next := (if name = ''heap'' then base else heap_next m),
                     regions := regions m @ [region] \<rparr>))"

definition region_has :: "Region \<Rightarrow> u64 \<Rightarrow> bool" where
  "region_has region address \<longleftrightarrow>
     address \<ge> rg_base region \<and> address - rg_base region < rg_size region"

fun region_index :: "Region list \<Rightarrow> u64 \<Rightarrow> nat option" where
  "region_index [] address = None"
| "region_index (region # rest) address =
     (if region_has region address then Some 0
      else map_option Suc (region_index rest address))"

definition regionAt :: "VirtualMemory \<Rightarrow> u64 \<Rightarrow> nat option" where
  "regionAt m address = region_index (regions m) address"

definition checkAccess ::
  "VirtualMemory \<Rightarrow> u64 \<Rightarrow> u64 \<Rightarrow> Permission \<Rightarrow> (MemoryFault, nat) expected" where
  "checkAccess m address sz needed =
     (case regionAt m address of
        None \<Rightarrow> Inl (mk_fault Unmapped address sz)
      | Some i \<Rightarrow>
          let region = regions m ! i; offset = address - rg_base region in
          if sz > rg_size region - offset then Inl (mk_fault CrossesRegionEnd address sz)
          else if \<not> hasPermission (rg_permissions region) needed then
            Inl (mk_fault (if needed = Perm_Write then WriteDenied
                           else if needed = Perm_Exec then ExecuteDenied else ReadDenied) address sz)
          else Inr i)"

definition region_bytes :: "Region \<Rightarrow> nat \<Rightarrow> nat \<Rightarrow> u8 list" where
  "region_bytes region offset n = map (rg_data region) [offset..<offset + n]"

definition region_put :: "Region \<Rightarrow> nat \<Rightarrow> u8 list \<Rightarrow> Region" where
  "region_put region offset bytes =
     region\<lparr> rg_data := (\<lambda>i. if offset \<le> i \<and> i < offset + length bytes then bytes ! (i - offset)
                             else rg_data region i) \<rparr>"

definition readByte :: "VirtualMemory \<Rightarrow> u64 \<Rightarrow> (MemoryFault, u8) expected" where
  "readByte m address =
     (case checkAccess m address 1 Perm_Read of
        Inl e \<Rightarrow> Inl e
      | Inr i \<Rightarrow> let region = regions m ! i in Inr (rg_data region (unat (address - rg_base region))))"

definition readU64 :: "VirtualMemory \<Rightarrow> u64 \<Rightarrow> (MemoryFault, u64) expected" where
  "readU64 m address =
     (case checkAccess m address 8 Perm_Read of
        Inl e \<Rightarrow> Inl e
      | Inr i \<Rightarrow>
          let region = regions m ! i; offset = unat (address - rg_base region)
          in Inr (load_le 8 (region_bytes region offset 8)))"

definition fetchInstruction :: "VirtualMemory \<Rightarrow> u64 \<Rightarrow> (MemoryFault, u64) expected" where
  "fetchInstruction m address =
     (case checkAccess m address 8 Perm_Exec of
        Inl e \<Rightarrow> Inl e
      | Inr i \<Rightarrow>
          let region = regions m ! i; offset = unat (address - rg_base region)
          in Inr (load_le 8 (region_bytes region offset 8)))"

definition put_at :: "VirtualMemory \<Rightarrow> nat \<Rightarrow> u64 \<Rightarrow> u8 list \<Rightarrow> VirtualMemory" where
  "put_at m i address bytes =
     (let region = regions m ! i; offset = unat (address - rg_base region)
      in m\<lparr> regions := (regions m)[i := region_put region offset bytes] \<rparr>)"

definition writeByte :: "VirtualMemory \<Rightarrow> u64 \<Rightarrow> u8 \<Rightarrow> (MemoryFault, VirtualMemory) expected" where
  "writeByte m address value =
     (case checkAccess m address 1 Perm_Write of
        Inl e \<Rightarrow> Inl e
      | Inr i \<Rightarrow> Inr (put_at m i address [value]))"

definition writeU64 :: "VirtualMemory \<Rightarrow> u64 \<Rightarrow> u64 \<Rightarrow> (MemoryFault, VirtualMemory) expected" where
  "writeU64 m address value =
     (case checkAccess m address 8 Perm_Write of
        Inl e \<Rightarrow> Inl e
      | Inr i \<Rightarrow> Inr (put_at m i address (le_bytes 8 value)))"

definition readBytes :: "VirtualMemory \<Rightarrow> u64 \<Rightarrow> nat \<Rightarrow> (MemoryFault, u8 list) expected" where
  "readBytes m address n =
     (if n = 0 then Inr []
      else case checkAccess m address (of_nat n) Perm_Read of
             Inl e \<Rightarrow> Inl e
           | Inr i \<Rightarrow>
               let region = regions m ! i; offset = unat (address - rg_base region)
               in Inr (region_bytes region offset n))"

definition writeBytes ::
  "VirtualMemory \<Rightarrow> u64 \<Rightarrow> u8 list \<Rightarrow> (MemoryFault, VirtualMemory) expected" where
  "writeBytes m address bytes =
     (if bytes = [] then Inr m
      else case checkAccess m address (of_nat (length bytes)) Perm_Write of
             Inl e \<Rightarrow> Inl e
           | Inr i \<Rightarrow> Inr (put_at m i address bytes))"

definition allocate :: "VirtualMemory \<Rightarrow> u64 \<Rightarrow> (MemoryFault, u64) expected \<times> VirtualMemory" where
  "allocate m sz =
     (let oom = (Inl (mk_fault OutOfMemory (heap_next m) sz), m) in
      case regionAt m (heap_next m) of
        None \<Rightarrow> oom
      | Some i \<Rightarrow>
          let heap = regions m ! i in
          if rg_name heap \<noteq> ''heap'' then oom
          else
            let rounded = (sz + 7) AND NOT 7 in
            if rounded < sz then oom
            else
              let end_addr = rg_base heap + rg_size heap in
              if heap_next m > end_addr - rounded then oom
              else (Inr (heap_next m), m\<lparr> heap_next := heap_next m + rounded \<rparr>))"

definition isMapped :: "VirtualMemory \<Rightarrow> u64 \<Rightarrow> bool" where
  "isMapped m address \<longleftrightarrow> regionAt m address \<noteq> None"

definition isExecutable :: "VirtualMemory \<Rightarrow> u64 \<Rightarrow> bool" where
  "isExecutable m address \<longleftrightarrow>
     (case regionAt m address of
        None \<Rightarrow> False
      | Some i \<Rightarrow> hasPermission (rg_permissions (regions m ! i)) Perm_Exec)"

definition isWritable :: "VirtualMemory \<Rightarrow> u64 \<Rightarrow> bool" where
  "isWritable m address \<longleftrightarrow>
     (case regionAt m address of
        None \<Rightarrow> False
      | Some i \<Rightarrow> hasPermission (rg_permissions (regions m ! i)) Perm_Write)"

subsection \<open>Well-formed memories\<close>

definition region_end :: "Region \<Rightarrow> nat" where
  "region_end r = unat (rg_base r) + unat (rg_size r)"

definition region_ok :: "Region \<Rightarrow> bool" where
  "region_ok r \<longleftrightarrow> 0 < unat (rg_size r) \<and> region_end r < 2 ^ 64"

definition disjoint_regions :: "Region \<Rightarrow> Region \<Rightarrow> bool" where
  "disjoint_regions r s \<longleftrightarrow> region_end r \<le> unat (rg_base s) \<or> region_end s \<le> unat (rg_base r)"

definition regions_ok :: "Region list \<Rightarrow> bool" where
  "regions_ok rs \<longleftrightarrow> (\<forall>r \<in> set rs. region_ok r) \<and> sorted_wrt disjoint_regions rs"

definition mem_ok :: "VirtualMemory \<Rightarrow> bool" where
  "mem_ok m \<longleftrightarrow> regions_ok (regions m)"

lemma region_has_iff:
  "region_ok r \<Longrightarrow> region_has r a \<longleftrightarrow> unat (rg_base r) \<le> unat a \<and> unat a < region_end r"
  by (auto simp: region_has_def region_end_def region_ok_def word_le_nat_alt word_less_nat_alt unat_sub_le)

lemma region_index_SomeD:
  "region_index rs a = Some i \<Longrightarrow> i < length rs \<and> region_has (rs ! i) a"
  by (induction rs arbitrary: i) (auto split: if_splits)

lemma region_index_None_iff: "region_index rs a = None \<longleftrightarrow> (\<forall>r \<in> set rs. \<not> region_has r a)"
  by (induction rs) auto

lemma regions_ok_Cons:
  "regions_ok (r # rs) \<longleftrightarrow> region_ok r \<and> (\<forall>s \<in> set rs. disjoint_regions r s) \<and> regions_ok rs"
  by (auto simp: regions_ok_def)

lemma disjoint_has:
  "region_ok r \<Longrightarrow> region_ok s \<Longrightarrow> disjoint_regions r s \<Longrightarrow> region_has r a \<Longrightarrow> \<not> region_has s a"
  by (auto simp: region_has_iff disjoint_regions_def)

lemma region_index_unique:
  "regions_ok rs \<Longrightarrow> i < length rs \<Longrightarrow> region_has (rs ! i) a \<Longrightarrow> region_index rs a = Some i"
proof (induction rs arbitrary: i)
  case (Cons r rs)
  then show ?case
  proof (cases i)
    case (Suc j)
    with Cons have "region_has (rs ! j) a" "j < length rs" by auto
    moreover from this Cons.prems(1) have "\<not> region_has r a"
      using disjoint_has [of r "rs ! j" a] by (auto simp: regions_ok_Cons regions_ok_def)
    ultimately show ?thesis using Cons.IH [of j] Cons.prems(1) Suc by (simp add: regions_ok_Cons)
  qed auto
qed simp

definition region_layout :: "Region \<Rightarrow> string \<times> u64 \<times> u64 \<times> Permission" where
  "region_layout r = (rg_name r, rg_base r, rg_size r, rg_permissions r)"

definition mem_layout :: "VirtualMemory \<Rightarrow> (string \<times> u64 \<times> u64 \<times> Permission) list" where
  "mem_layout m = map region_layout (regions m)"

lemma mem_layout_length: "mem_layout m = mem_layout m' \<Longrightarrow> length (regions m) = length (regions m')"
  unfolding mem_layout_def by (metis length_map)

lemma mem_layout_nth:
  "mem_layout m = mem_layout m' \<Longrightarrow> i < length (regions m) \<Longrightarrow>
   region_layout (regions m ! i) = region_layout (regions m' ! i)"
  unfolding mem_layout_def by (metis length_map nth_map)

lemma region_index_layout:
  "map region_layout rs = map region_layout rs' \<Longrightarrow> region_index rs a = region_index rs' a"
proof (induction rs arbitrary: rs')
  case (Cons r rs)
  then obtain r' rest where "rs' = r' # rest" by (cases rs') auto
  with Cons show ?case by (auto simp: region_layout_def region_has_def)
qed simp

lemma regionAt_layout: "mem_layout m = mem_layout m' \<Longrightarrow> regionAt m a = regionAt m' a"
  unfolding regionAt_def mem_layout_def by (rule region_index_layout)

lemma checkAccess_layout:
  assumes "mem_layout m = mem_layout m'"
  shows "checkAccess m a n p = checkAccess m' a n p"
proof (cases "regionAt m a")
  case None
  then show ?thesis using regionAt_layout [OF assms, of a] by (simp add: checkAccess_def)
next
  case (Some i)
  then have "i < length (regions m)" by (auto simp: regionAt_def dest: region_index_SomeD)
  from mem_layout_nth [OF assms this] Some regionAt_layout [OF assms, of a] show ?thesis
    by (simp add: checkAccess_def region_layout_def)
qed

lemma regions_ok_layout:
  "map region_layout rs = map region_layout rs' \<Longrightarrow> regions_ok rs = regions_ok rs'"
proof (induction rs arbitrary: rs')
  case (Cons r rs)
  then obtain r' rest where rs': "rs' = r' # rest" by (cases rs') auto
  with Cons.prems have e: "region_layout r = region_layout r'" "map region_layout rs = map region_layout rest"
    by auto
  have all: "(\<forall>s \<in> set ss. disjoint_regions r s) = (\<forall>l \<in> set (map region_layout ss).
      case l of (nm, b, sz, pm) \<Rightarrow> region_end r \<le> unat b \<or> unat b + unat sz \<le> unat (rg_base r))" for r ss
    by (auto simp: disjoint_regions_def region_end_def region_layout_def)
  show ?case
    using e Cons.IH [OF e(2)] unfolding rs' regions_ok_Cons all e(2)
    by (simp add: region_layout_def region_ok_def region_end_def)
qed simp

lemma mem_ok_layout: "mem_layout m = mem_layout m' \<Longrightarrow> mem_ok m = mem_ok m'"
  unfolding mem_ok_def mem_layout_def by (rule regions_ok_layout)

lemma region_layout_put [simp]: "region_layout (region_put r off bs) = region_layout r"
  by (simp add: region_put_def region_layout_def)

lemma put_at_layout [simp, frame_simps]: "mem_layout (put_at m i a bs) = mem_layout m"
proof (cases "i < length (regions m)")
  case True
  then have "(map region_layout (regions m))[i := region_layout (regions m ! i)] = map region_layout (regions m)"
    by (metis list_update_id nth_map)
  then show ?thesis by (simp add: mem_layout_def put_at_def Let_def map_update)
qed (simp add: mem_layout_def put_at_def Let_def list_update_beyond)

lemma put_at_frame [simp, frame_simps]:
  "regionAt (put_at m i a bs) = regionAt m"
  "checkAccess (put_at m i a bs) = checkAccess m"
  "mem_ok (put_at m i a bs) = mem_ok m"
  using regionAt_layout checkAccess_layout mem_ok_layout put_at_layout by (blast intro: ext)+

lemma heap_next_put_at [simp]: "heap_next (put_at m i a bs) = heap_next m"
  by (simp add: put_at_def Let_def)

subsection \<open>What a successful access check means\<close>

lemma checkAccess_InrD:
  assumes "checkAccess m a n p = Inr i" and "mem_ok m"
  shows "i < length (regions m)" and "regionAt m a = Some i" and "region_ok (regions m ! i)"
    and "unat (rg_base (regions m ! i)) \<le> unat a"
    and "unat a + unat n \<le> region_end (regions m ! i)"
    and "hasPermission (rg_permissions (regions m ! i)) p"
proof -
  from assms(1) have at: "regionAt m a = Some i"
    and len: "\<not> n > rg_size (regions m ! i) - (a - rg_base (regions m ! i))"
    and perm: "hasPermission (rg_permissions (regions m ! i)) p"
    by (auto simp: checkAccess_def Let_def split: option.splits if_splits)
  from at have i: "i < length (regions m)" and has: "region_has (regions m ! i) a"
    by (auto simp: regionAt_def dest: region_index_SomeD)
  have ok: "region_ok (regions m ! i)" using assms(2) i by (simp add: mem_ok_def regions_ok_def)
  show "i < length (regions m)" "regionAt m a = Some i" "region_ok (regions m ! i)"
    "hasPermission (rg_permissions (regions m ! i)) p" by (fact i at ok perm)+
  show base: "unat (rg_base (regions m ! i)) \<le> unat a" using has ok by (simp add: region_has_iff)
  from has len base show "unat a + unat n \<le> region_end (regions m ! i)"
    by (simp add: region_has_def region_end_def not_less word_le_nat_alt word_less_nat_alt unat_sub_le)
qed

text \<open>No access the check admits leaves the byte vector of its region.\<close>

lemma access_in_bounds:
  assumes "mem_ok m" and "checkAccess m a n p = Inr i"
  shows "i < length (regions m) \<and>
    unat (a - rg_base (regions m ! i)) + unat n \<le> unat (rg_size (regions m ! i)) \<and>
    hasPermission (rg_permissions (regions m ! i)) p"
  using checkAccess_InrD [OF assms(2,1)]
  by (simp add: region_end_def unat_sub_le word_le_nat_alt)

subsection \<open>The flat view\<close>

definition mem_at :: "VirtualMemory \<Rightarrow> u64 \<Rightarrow> u8 option" where
  "mem_at m a =
     (case regionAt m a of
        None \<Rightarrow> None
      | Some i \<Rightarrow> Some (rg_data (regions m ! i) (unat (a - rg_base (regions m ! i)))))"

definition perm_at :: "VirtualMemory \<Rightarrow> u64 \<Rightarrow> Permission option" where
  "perm_at m a = map_option (\<lambda>i. rg_permissions (regions m ! i)) (regionAt m a)"

lemma perm_at_layout: "mem_layout m = mem_layout m' \<Longrightarrow> perm_at m a = perm_at m' a"
proof (cases "regionAt m a")
  case (Some i)
  assume l: "mem_layout m = mem_layout m'"
  from Some have "i < length (regions m)" by (auto simp: regionAt_def dest: region_index_SomeD)
  from mem_layout_nth [OF l this] Some regionAt_layout [OF l, of a] show ?thesis
    by (simp add: perm_at_def region_layout_def)
qed (auto simp: perm_at_def dest: regionAt_layout [of m m' a])

lemma regionAt_in_access:
  assumes "mem_ok m" and "i < length (regions m)"
    and "unat (rg_base (regions m ! i)) \<le> unat a" and "unat a < region_end (regions m ! i)"
  shows "regionAt m a = Some i"
proof -
  have "region_ok (regions m ! i)" using assms by (simp add: mem_ok_def regions_ok_def)
  then show ?thesis
    unfolding regionAt_def using assms
    by (intro region_index_unique) (simp_all add: mem_ok_def region_has_iff)
qed

text \<open>Address arithmetic inside an admitted access never wraps.\<close>

lemma access_offset:
  assumes "mem_ok m" and "checkAccess m a n p = Inr i" and "k < unat n"
  shows "unat (a + of_nat k) = unat a + k"
    and "regionAt m (a + of_nat k) = Some i"
    and "unat (a + of_nat k - rg_base (regions m ! i)) = unat (a - rg_base (regions m ! i)) + k"
proof -
  note d = checkAccess_InrD [OF assms(2,1)]
  have lt: "unat a + k < 2 ^ 64" using d(3,5) assms(3) by (simp add: region_ok_def)
  then show e: "unat (a + of_nat k) = unat a + k"
    by (simp add: unat_add_no_wrap unat_of_nat_u64)
  show "regionAt m (a + of_nat k) = Some i"
    using d(1,4,5) assms(1,3) e by (intro regionAt_in_access) simp_all
  show "unat (a + of_nat k - rg_base (regions m ! i)) = unat (a - rg_base (regions m ! i)) + k"
    using d(4) e by (simp add: unat_sub_le word_le_nat_alt)
qed

lemma region_bytes_nth [simp]: "k < n \<Longrightarrow> region_bytes r off n ! k = rg_data r (off + k)"
  by (simp add: region_bytes_def)

lemma region_bytes_length [simp]: "length (region_bytes r off n) = n"
  by (simp add: region_bytes_def)

lemma access_bytes:
  assumes "mem_ok m" and "checkAccess m a n p = Inr i" and "k < unat n"
  shows "mem_at m (a + of_nat k)
    = Some (region_bytes (regions m ! i) (unat (a - rg_base (regions m ! i))) (unat n) ! k)"
  using access_offset [OF assms] assms(3) by (simp add: mem_at_def)

text \<open>The bytes of the flat view in \<open>[a, a + n)\<close>.\<close>

definition mem_span :: "VirtualMemory \<Rightarrow> u64 \<Rightarrow> nat \<Rightarrow> u8 option list" where
  "mem_span m a n = map (\<lambda>k. mem_at m (a + of_nat k)) [0..<n]"

lemma mem_span_access:
  assumes "mem_ok m" and "checkAccess m a n p = Inr i"
  shows "mem_span m a (unat n)
    = map Some (region_bytes (regions m ! i) (unat (a - rg_base (regions m ! i))) (unat n))"
  by (rule nth_equalityI) (use access_bytes [OF assms] in \<open>simp_all add: mem_span_def\<close>)

lemma regions_put_at:
  "regions (put_at m i a bs)
    = (regions m)[i := region_put (regions m ! i) (unat (a - rg_base (regions m ! i))) bs]"
  by (simp add: put_at_def Let_def)

lemma region_put_simps [simp]:
  "rg_base (region_put r off bs) = rg_base r"
  "rg_size (region_put r off bs) = rg_size r"
  "rg_name (region_put r off bs) = rg_name r"
  "rg_permissions (region_put r off bs) = rg_permissions r"
  "rg_data (region_put r off bs) k
    = (if off \<le> k \<and> k < off + length bs then bs ! (k - off) else rg_data r k)"
  by (simp_all add: region_put_def)

lemma mem_at_put_at:
  assumes "regionAt m b = Some j"
  shows "mem_at (put_at m i a bs) b =
    (let off = unat (a - rg_base (regions m ! i)); k = unat (b - rg_base (regions m ! j))
     in if j = i \<and> off \<le> k \<and> k < off + length bs then Some (bs ! (k - off)) else mem_at m b)"
proof -
  have "j < length (regions m)"
    using assms by (auto simp: regionAt_def dest: region_index_SomeD)
  with assms show ?thesis
    by (cases "j = i") (simp_all add: mem_at_def regions_put_at Let_def)
qed

lemma mem_at_put:
  assumes ok: "mem_ok m" and acc: "checkAccess m a (of_nat (length bs)) p = Inr i"
    and len: "length bs < 2 ^ 64"
  shows "mem_at (put_at m i a bs) b
    = (if unat (b - a) < length bs then Some (bs ! unat (b - a)) else mem_at m b)"
proof (cases "regionAt m b")
  case None
  have "\<not> unat (b - a) < length bs"
    using access_offset(2) [OF ok acc, of "unat (b - a)"] None len by (auto simp: unat_of_nat_u64)
  with None show ?thesis by (simp add: mem_at_def)
next
  case (Some j)
  note d = checkAccess_InrD [OF acc ok]
  let ?base = "rg_base (regions m ! i)"
  show ?thesis
  proof (cases "unat (b - a) < length bs")
    case True
    have "regionAt m b = Some i" "unat (b - ?base) = unat (a - ?base) + unat (b - a)"
      using access_offset(2,3) [OF ok acc, of "unat (b - a)"] True len by (simp_all add: unat_of_nat_u64)
    with True show ?thesis by (simp add: mem_at_put_at Let_def)
  next
    case False
    have "\<not> (unat (a - ?base) \<le> unat (b - ?base) \<and> unat (b - ?base) < unat (a - ?base) + length bs)"
      if "j = i"
    proof -
      have has: "unat ?base \<le> unat b"
        using Some that d(3) by (auto simp: regionAt_def region_has_iff dest: region_index_SomeD)
      have e: "unat (a - ?base) = unat a - unat ?base" "unat (b - ?base) = unat b - unat ?base"
        using d(4) has by (simp_all add: unat_sub_le word_le_nat_alt)
      show ?thesis
      proof (cases "a \<le> b")
        case True
        then have "unat b - unat a \<ge> length bs" using False by (simp add: unat_sub_le)
        moreover have "unat a \<le> unat b" using True by (simp add: word_le_nat_alt)
        ultimately show ?thesis unfolding e using d(4) has by arith
      next
        case False
        then show ?thesis using e d(4) has by (simp add: word_le_nat_alt)
      qed
    qed
    with False Some show ?thesis by (auto simp: mem_at_put_at Let_def)
  qed
qed

subsection \<open>Reads and writes against the flat view\<close>

text \<open>A read returns exactly the bytes of the flat view.\<close>

lemma readBytes_flat:
  assumes "mem_ok m" and "n < 2 ^ 64" and "readBytes m a n = Inr bs"
  shows "mem_span m a n = map Some bs"
proof (cases "n = 0")
  case False
  then obtain i where "checkAccess m a (of_nat n) Perm_Read = Inr i"
    "bs = region_bytes (regions m ! i) (unat (a - rg_base (regions m ! i))) n"
    using assms(3) by (auto simp: readBytes_def Let_def split: sum.splits)
  with mem_span_access [OF assms(1)] assms(2) show ?thesis by (force simp: unat_of_nat_u64)
qed (use assms in \<open>simp add: readBytes_def mem_span_def\<close>)

text \<open>A write updates the flat view at the written addresses and nowhere else.\<close>

lemma writeBytes_flat:
  assumes "mem_ok m" and "length bs < 2 ^ 64" and "writeBytes m a bs = Inr m'"
  shows "mem_at m' b = (if unat (b - a) < length bs then Some (bs ! unat (b - a)) else mem_at m b) \<and>
    mem_layout m' = mem_layout m \<and> heap_next m' = heap_next m"
proof (cases "bs = []")
  case False
  then obtain i where i: "checkAccess m a (of_nat (length bs)) Perm_Write = Inr i" "m' = put_at m i a bs"
    using assms(3) by (auto simp: writeBytes_def split: sum.splits)
  then show ?thesis using mem_at_put [OF assms(1) i(1) assms(2)] by simp
qed (use assms in \<open>simp add: writeBytes_def\<close>)

lemma writeU64_writeBytes: "writeU64 m a v = writeBytes m a (le_bytes 8 v)"
  by (simp add: writeU64_def writeBytes_def)

lemma writeByte_writeBytes: "writeByte m a v = writeBytes m a [v]"
  by (simp add: writeByte_def writeBytes_def)

lemma readU64_readBytes: "readU64 m a = map_sum id (load_le 8) (readBytes m a 8)"
  by (simp add: readU64_def readBytes_def Let_def split: sum.splits)

lemma readByte_readBytes: "readByte m a = map_sum id hd (readBytes m a 1)"
  by (simp add: readByte_def readBytes_def Let_def region_bytes_def upt_rec split: sum.splits)

lemma writeU64_flat:
  assumes "mem_ok m" and "writeU64 m a v = Inr m'"
  shows "mem_at m' b = (if unat (b - a) < 8 then Some (le_byte v (unat (b - a))) else mem_at m b)"
    and "mem_layout m' = mem_layout m" and "heap_next m' = heap_next m"
  using writeBytes_flat [OF assms(1) _ assms(2) [unfolded writeU64_writeBytes], of b] by simp_all

lemma writeByte_flat:
  assumes "mem_ok m" and "writeByte m a v = Inr m'"
  shows "mem_at m' b = (if b = a then Some v else mem_at m b)"
    and "mem_layout m' = mem_layout m" and "heap_next m' = heap_next m"
  using writeBytes_flat [OF assms(1) _ assms(2) [unfolded writeByte_writeBytes], of b]
  by (auto simp: unat_eq_0)

lemma writeBytes_ok:
  "mem_ok m \<Longrightarrow> length bs < 2 ^ 64 \<Longrightarrow> writeBytes m a bs = Inr m' \<Longrightarrow> mem_ok m'"
  using writeBytes_flat mem_ok_layout by blast

lemma mem_span_nth [simp]: "k < n \<Longrightarrow> mem_span m a n ! k = mem_at m (a + of_nat k)"
  by (simp add: mem_span_def)

lemma mem_span_length [simp]: "length (mem_span m a n) = n"
  by (simp add: mem_span_def)

lemma mem_span_write:
  assumes "mem_ok m" and "length bs < 2 ^ 64" and "writeBytes m a bs = Inr m'"
  shows "mem_span m' a (length bs) = map Some bs"
proof (rule nth_equalityI)
  fix k assume "k < length (mem_span m' a (length bs))"
  then have k: "k < length bs" by simp
  with assms(2) have "unat (of_nat k :: u64) = k" by (simp add: unat_of_nat_u64)
  then show "mem_span m' a (length bs) ! k = map Some bs ! k"
    using writeBytes_flat [OF assms, of "a + of_nat k"] k by simp
qed simp

lemma map_Some_inj [simp]: "map Some xs = map Some ys \<longleftrightarrow> xs = ys"
  by (simp add: inj_map_eq_map)

text \<open>Whether an access is admitted only depends on the layout, so reads succeed after a write.\<close>

lemma readBytes_layout:
  assumes "mem_layout m = mem_layout m'"
  shows "(\<exists>bs. readBytes m a n = Inr bs) = (\<exists>bs. readBytes m' a n = Inr bs)"
  by (auto simp: readBytes_def checkAccess_layout [OF assms] Let_def split: sum.splits)

text \<open>What was written is read back; reads of other addresses are unchanged.\<close>

lemma read_after_write:
  assumes "mem_ok m" and "length bs < 2 ^ 64" and "writeBytes m a bs = Inr m'"
    and "readBytes m a (length bs) = Inr old"
  shows "readBytes m' a (length bs) = Inr bs"
proof -
  have "mem_layout m = mem_layout m'" using writeBytes_flat [OF assms(1-3)] by simp
  with assms(4) obtain new where new: "readBytes m' a (length bs) = Inr new"
    using readBytes_layout [of m m' a "length bs"] by auto
  have "map Some new = map Some bs"
    using readBytes_flat [OF writeBytes_ok [OF assms(1-3)] assms(2) new]
      mem_span_write [OF assms(1-3)] by simp
  with new show ?thesis by simp
qed

lemma read_untouched:
  assumes "mem_ok m" and "length bs < 2 ^ 64" and "writeBytes m a bs = Inr m'"
    and "readBytes m b n = Inr old" and "n < 2 ^ 64"
    and "\<And>k. k < n \<Longrightarrow> \<not> unat (b + of_nat k - a) < length bs"
  shows "readBytes m' b n = Inr old"
proof -
  have "mem_layout m = mem_layout m'" using writeBytes_flat [OF assms(1-3)] by simp
  with assms(4) obtain new where new: "readBytes m' b n = Inr new"
    using readBytes_layout [of m m' b n] by auto
  have "mem_span m' b n = mem_span m b n"
    using writeBytes_flat [OF assms(1-3)] assms(6) by (auto simp: mem_span_def)
  then have "map Some new = map Some old"
    using readBytes_flat [OF writeBytes_ok [OF assms(1-3)] assms(5) new]
      readBytes_flat [OF assms(1,5,4)] by simp
  with new show ?thesis by simp
qed

lemma readU64_writeU64:
  assumes "mem_ok m" and "writeU64 m a v = Inr m'" and "readU64 m a = Inr old"
  shows "readU64 m' a = Inr v"
proof -
  from assms(3) obtain bs where "readBytes m a 8 = Inr bs"
    by (cases "readBytes m a 8") (auto simp: readU64_readBytes)
  with read_after_write [OF assms(1) _ assms(2) [unfolded writeU64_writeBytes]]
  have "readBytes m' a 8 = Inr (le_bytes 8 v)" by simp
  then show ?thesis by (simp add: readU64_readBytes)
qed

subsection \<open>Mapping regions and allocating\<close>

lemma add_ends:
  fixes base sz :: u64
  assumes "\<not> base > 0xFFFFFFFFFFFFFFFF - sz"
  shows "unat base + unat sz < 2 ^ 64" and "unat (base + sz) = unat base + unat sz"
proof -
  have "unat (0xFFFFFFFFFFFFFFFF - sz) = 18446744073709551615 - unat sz"
    by (subst unat_sub_le) (simp_all add: word_le_nat_alt less_Suc_eq_le [symmetric] unat_u64_less)
  then show a: "unat base + unat sz < 2 ^ 64"
    using assms unat_u64_less [of sz] by (simp add: word_less_nat_alt not_less)
  then show "unat (base + sz) = unat base + unat sz"
    by (intro unat_add_no_wrap) simp
qed

lemma overlaps_iff:
  assumes "region_ok r" and "\<not> base > 0xFFFFFFFFFFFFFFFF - sz"
  shows "overlaps r base sz \<longleftrightarrow> unat base < region_end r \<and> unat (rg_base r) < unat base + unat sz"
proof -
  have "unat (rg_base r + rg_size r) = region_end r"
    using assms(1) by (simp add: region_ok_def region_end_def unat_add_no_wrap)
  then show ?thesis
    using add_ends(2) [OF assms(2)] by (simp add: overlaps_def word_less_nat_alt)
qed

definition new_region :: "string \<Rightarrow> u64 \<Rightarrow> u64 \<Rightarrow> Permission \<Rightarrow> u8 list \<Rightarrow> Region" where
  "new_region name base sz permissions initial =
     \<lparr> rg_name = name, rg_base = base, rg_size = sz, rg_permissions = permissions,
       rg_data = (\<lambda>i. if i < min (length initial) (unat sz) then initial ! i else 0) \<rparr>"

lemma new_region_simps [simp]:
  "rg_name (new_region name base sz perms initial) = name"
  "rg_base (new_region name base sz perms initial) = base"
  "rg_size (new_region name base sz perms initial) = sz"
  "rg_permissions (new_region name base sz perms initial) = perms"
  "region_end (new_region name base sz perms initial) = unat base + unat sz"
  by (simp_all add: new_region_def region_end_def)

lemma addRegion_cases:
  "addRegion m name base sz perms initial =
     (if unat sz = 0 \<or> base > 0xFFFFFFFFFFFFFFFF - sz \<or> (\<exists>r \<in> set (regions m). overlaps r base sz)
      then (False, m)
      else (True, m\<lparr> heap_next := (if name = ''heap'' then base else heap_next m),
                     regions := regions m @ [new_region name base sz perms initial] \<rparr>))"
  by (auto simp: addRegion_def new_region_def Let_def unat_eq_0)

lemma regions_ok_snoc:
  "regions_ok (rs @ [r]) \<longleftrightarrow> regions_ok rs \<and> region_ok r \<and> (\<forall>s \<in> set rs. disjoint_regions s r)"
  by (auto simp: regions_ok_def sorted_wrt_append)

lemma region_index_snoc:
  "region_index (rs @ [r]) a =
     (case region_index rs a of
        Some i \<Rightarrow> Some i
      | None \<Rightarrow> if region_has r a then Some (length rs) else None)"
  by (induction rs) (auto split: option.splits)

lemma addRegion_ok:
  assumes "mem_ok m" and "addRegion m name base sz perms initial = (True, m')"
  shows "mem_ok m'" and "region_ok (new_region name base sz perms initial)"
    and "\<forall>r \<in> set (regions m). disjoint_regions r (new_region name base sz perms initial)"
proof -
  let ?r = "new_region name base sz perms initial"
  from assms(2) have c: "unat sz \<noteq> 0" "\<not> base > 0xFFFFFFFFFFFFFFFF - sz"
    "\<forall>r \<in> set (regions m). \<not> overlaps r base sz" and m': "regions m' = regions m @ [?r]"
    by (auto simp: addRegion_cases split: if_splits)
  show ok: "region_ok ?r"
    using c add_ends(1) [OF c(2)] by (simp add: region_ok_def)
  show dis: "\<forall>r \<in> set (regions m). disjoint_regions r ?r"
    using c assms(1) overlaps_iff [OF _ c(2)]
    by (auto simp: mem_ok_def regions_ok_def disjoint_regions_def not_less)
  show "mem_ok m'" using assms(1) ok dis by (simp add: mem_ok_def m' regions_ok_snoc)
qed

text \<open>
  Mapping a region keeps the address space well formed (sorted out of overlaps and wraps),
  leaves every other address as it was and puts the initial bytes, followed by zeros, at its own
  addresses.
\<close>

theorem addRegion_flat:
  assumes "mem_ok m" and "addRegion m name base sz perms initial = (True, m')"
  shows "mem_ok m' \<and>
    mem_at m' a =
      (if unat base \<le> unat a \<and> unat a < unat base + unat sz
       then Some (if unat (a - base) < length initial then initial ! unat (a - base) else 0)
       else mem_at m a)"
proof -
  let ?r = "new_region name base sz perms initial"
  have m': "regions m' = regions m @ [?r]"
    using assms(2) by (auto simp: addRegion_cases split: if_splits)
  note ok = addRegion_ok [OF assms]
  have has: "region_has ?r a \<longleftrightarrow> unat base \<le> unat a \<and> unat a < unat base + unat sz"
    using region_has_iff [OF ok(2)] by simp
  have excl: "regionAt m a = None" if "region_has ?r a"
    using ok(2,3) that assms(1) disjoint_has [of _ ?r a]
    by (auto simp: regionAt_def region_index_None_iff mem_ok_def regions_ok_def)
  have small: "unat (a - base) < unat sz" if "region_has ?r a"
    using that by (simp add: region_has_def new_region_def word_less_nat_alt)
  show ?thesis
  proof (cases "regionAt m a")
    case None
    then show ?thesis
      using has ok(1) small
      by (auto simp: mem_at_def regionAt_def m' region_index_snoc new_region_def)
  next
    case (Some i)
    then have "i < length (regions m)" by (auto simp: regionAt_def dest: region_index_SomeD)
    with Some show ?thesis
      using has ok(1) excl by (auto simp: mem_at_def regionAt_def m' region_index_snoc nth_append)
  qed
qed

lemma unat_align8: "unat ((x :: u64) AND NOT 7) = unat x div 8 * 8"
proof -
  have seven: "(7 :: u64) = mask 3" by (simp add: mask_eq_exp_minus_1)
  have "x AND NOT 7 = push_bit 3 (drop_bit 3 x)"
    unfolding seven by (rule bit_word_eqI) (auto simp: bit_simps)
  also have "unat \<dots> = take_bit 64 (push_bit 3 (unat x div 8))"
    unfolding unsigned_push_bit_eq unat_drop_bit_eq drop_bit_eq_div [where 'a = nat] by simp
  also have "\<dots> = unat x div 8 * 8"
    using unat_u64_less [of x] by (subst take_bit_nat_eq_self) (auto simp: push_bit_eq_mult)
  finally show ?thesis .
qed

definition round8 :: "nat \<Rightarrow> nat" where "round8 n = (n + 7) div 8 * 8"

lemma round8_props: "n \<le> round8 n" "round8 n < n + 8" "8 dvd round8 n"
proof -
  show "n \<le> round8 n" "round8 n < n + 8" unfolding round8_def by presburger+
qed (simp add: round8_def)

lemma rounded_cases:
  fixes sz :: u64
  defines "rounded \<equiv> (sz + 7) AND NOT 7"
  shows "round8 (unat sz) < 2 ^ 64 \<Longrightarrow> \<not> rounded < sz \<and> unat rounded = round8 (unat sz)"
    and "2 ^ 64 \<le> round8 (unat sz) \<Longrightarrow> rounded < sz"
proof -
  assume r: "round8 (unat sz) < 2 ^ 64"
  have "unat sz + 7 < 2 ^ 64"
  proof (rule ccontr)
    assume "\<not> unat sz + 7 < 2 ^ 64"
    then have "2 ^ 64 div 8 * 8 \<le> round8 (unat sz)"
      unfolding round8_def by (intro mult_le_mono1 div_le_mono) simp
    with r show False by simp
  qed
  then have "unat (sz + 7) = unat sz + 7" by (subst unat_add_no_wrap) simp_all
  then have "unat rounded = round8 (unat sz)" unfolding rounded_def unat_align8 round8_def by simp
  with round8_props(1) [of "unat sz"] show "\<not> rounded < sz \<and> unat rounded = round8 (unat sz)"
    by (simp add: word_less_nat_alt)
next
  assume r: "2 ^ 64 \<le> round8 (unat sz)"
  have "2 ^ 64 \<le> unat sz + 7" using r div_times_less_eq_dividend [of "unat sz + 7" 8]
    unfolding round8_def by linarith
  then have "unat (sz + 7) = unat sz + 7 - 2 ^ 64"
    using unat_u64_less [of sz] by (simp add: unat_word_ariths mod_if)
  then have "unat rounded \<le> unat sz + 7 - 2 ^ 64"
    unfolding rounded_def unat_align8 by (metis div_times_less_eq_dividend)
  with unat_u64_less [of sz] \<open>2 ^ 64 \<le> unat sz + 7\<close> show "rounded < sz"
    by (simp add: word_less_nat_alt)
qed

text \<open>
  As long as the rounded size does not exceed the end address of the heap, the allocator
  hands out the next 8-aligned block exactly when it fits below the end of the heap, and
  refuses otherwise without touching its state.
\<close>

theorem allocate_spec:
  assumes "mem_ok m" and "regionAt m (heap_next m) = Some i" and "rg_name (regions m ! i) = ''heap''"
    and "round8 (unat sz) \<le> region_end (regions m ! i)"
  shows "allocate m sz =
    (if unat (heap_next m) + round8 (unat sz) \<le> region_end (regions m ! i)
     then (Inr (heap_next m), m\<lparr> heap_next := heap_next m + of_nat (round8 (unat sz)) \<rparr>)
     else (Inl (mk_fault OutOfMemory (heap_next m) sz), m))"
proof -
  let ?r = "(sz + 7) AND NOT 7" and ?h = "regions m ! i"
  have ok: "region_ok ?h"
    using assms(1,2) by (auto simp: regionAt_def mem_ok_def regions_ok_def dest: region_index_SomeD)
  then have lt: "round8 (unat sz) < 2 ^ 64" using assms(4) by (simp add: region_ok_def)
  note r = rounded_cases(1) [OF lt]
  have e: "unat (rg_base ?h + rg_size ?h) = region_end ?h"
    using ok by (simp add: region_ok_def region_end_def unat_add_no_wrap)
  then have "?r \<le> rg_base ?h + rg_size ?h" using r assms(4) by (simp add: word_le_nat_alt)
  then have "unat (rg_base ?h + rg_size ?h - ?r) = region_end ?h - round8 (unat sz)"
    using r e by (simp add: unat_sub_le)
  then have fit: "heap_next m > rg_base ?h + rg_size ?h - ?r \<longleftrightarrow>
      \<not> unat (heap_next m) + round8 (unat sz) \<le> region_end ?h"
    using assms(4) by (auto simp: word_less_nat_alt)
  have "?r = of_nat (round8 (unat sz))" using r by (metis of_nat_unat ucast_id)
  with r fit assms(2,3) show ?thesis by (simp add: allocate_def Let_def)
qed

text \<open>
  C24: a write admitted by the permission check is what every later read sees, wherever the read
  starts and however it overlaps the written range; all other bytes are as before, and the read is
  admitted as it was.
\<close>

theorem reads_see_writes:
  assumes "mem_ok m" and "length bs < 2 ^ 64" and "writeBytes m a bs = Inr m'"
    and "readBytes m b n = Inr old" and "n < 2 ^ 64"
  shows "\<exists>new. readBytes m' b n = Inr new \<and> length new = n \<and>
    (\<forall>k < n. new ! k = (if unat (b + of_nat k - a) < length bs
                      then bs ! unat (b + of_nat k - a) else old ! k))"
proof -
  have "mem_layout m = mem_layout m'" using writeBytes_flat [OF assms(1-3)] by simp
  with assms(4) obtain new where new: "readBytes m' b n = Inr new"
    using readBytes_layout [of m m' b n] by auto
  have n: "map Some new = mem_span m' b n" and o: "map Some old = mem_span m b n"
    using readBytes_flat [OF writeBytes_ok [OF assms(1-3)] assms(5) new]
      readBytes_flat [OF assms(1,5,4)] by simp_all
  have len: "length new = n" "length old = n"
    using arg_cong [OF n, of length] arg_cong [OF o, of length] by simp_all
  have "Some (new ! k) = (if unat (b + of_nat k - a) < length bs
      then Some (bs ! unat (b + of_nat k - a)) else Some (old ! k))" if "k < n" for k
    using writeBytes_flat [OF assms(1-3), of "b + of_nat k"] arg_cong [OF n, of "\<lambda>xs. xs ! k"]
      arg_cong [OF o, of "\<lambda>xs. xs ! k"] that len by simp
  then have "\<forall>k < n. new ! k = (if unat (b + of_nat k - a) < length bs
      then bs ! unat (b + of_nat k - a) else old ! k)"
    by (metis option.inject)
  with new len show ?thesis by blast
qed

definition demo_heap :: VirtualMemory where
  "demo_heap = snd (addRegion empty_memory ''heap'' 0x10000000 0x100000 (Perm_Read OR Perm_Write) [])"

lemma demo_heap_ok: "mem_ok demo_heap"
  by (simp add: demo_heap_def addRegion_def empty_memory_def mem_ok_def regions_ok_def region_ok_def
      region_end_def Let_def)

lemma reads_see_writes_witness:
  "\<exists>m' new. writeBytes demo_heap 0x10000004 [7, 8] = Inr m' \<and> readBytes m' 0x10000005 2 = Inr new \<and>
     new ! 0 = 8 \<and> new ! 1 = 0"
proof -
  have c: "checkAccess demo_heap 0x10000004 2 Perm_Write = Inr 0" "checkAccess demo_heap 0x10000005 2 Perm_Read = Inr 0"
    by (simp_all add: demo_heap_def addRegion_def empty_memory_def checkAccess_def regionAt_def
        region_has_def Let_def hasPermission_def perm_consts)
  obtain m' where w: "writeBytes demo_heap 0x10000004 [7, 8] = Inr m'"
    using c(1) by (simp add: writeBytes_def)
  have r: "readBytes demo_heap 0x10000005 2 = Inr [0, 0]"
    using c(2) by (simp add: readBytes_def region_bytes_def demo_heap_def addRegion_def empty_memory_def Let_def upt_rec)
  from reads_see_writes [OF demo_heap_ok _ w r] show ?thesis
    using w by (force simp: nth_Cons')
qed

lemma addRegion_flat_witness:
  "mem_at (snd (addRegion demo_heap ''rodata'' 0x100 4 Perm_Read [5])) 0x100 = Some 5"
proof -
  obtain m' where a: "addRegion demo_heap ''rodata'' 0x100 4 Perm_Read [5] = (True, m')"
    by (simp add: demo_heap_def addRegion_def empty_memory_def overlaps_def Let_def)
  from addRegion_flat [OF demo_heap_ok a] show ?thesis by (simp add: a)
qed

lemma allocate_spec_witness:
  "fst (allocate demo_heap 24) = Inr 0x10000000"
proof -
  have "mem_ok demo_heap"
    by (simp add: demo_heap_def addRegion_def empty_memory_def mem_ok_def regions_ok_def region_ok_def
        region_end_def Let_def)
  from allocate_spec [OF this, of 0 24] show ?thesis
    by (simp add: demo_heap_def addRegion_def empty_memory_def regionAt_def region_has_def Let_def
        region_end_def round8_def)
qed

text \<open>
  Without that bound the subtraction in the fit test wraps, and a request far larger than the
  heap is granted.
\<close>

theorem allocate_accepts_oversized:
  "fst (allocate demo_heap 0x20000000) = Inr 0x10000000 \<and>
   (\<exists>i. regionAt demo_heap 0x10000000 = Some i \<and> unat (rg_size (regions demo_heap ! i)) < 0x20000000)"
  by (simp add: demo_heap_def addRegion_def empty_memory_def regionAt_def region_has_def Let_def
      allocate_def)

end
