(* ===== verification/Executable.thy ===== *)
theory Executable
  imports Memory
begin

text \<open>
  include/minitool/executable/executable.hpp and src/executable/executable.cpp: the linked image
  the virtual machine loads, its lookups and its validation.  The message of a rejected image is
  a value carrying the arguments the message is formatted from.
\<close>

definition kExeMagic :: "u8 list" where "kExeMagic = [0x4D, 0x45, 0x58, 0x45]"
definition kExeVersion :: u16 where "kExeVersion = 1"
definition kExeHeaderSize :: nat where "kExeHeaderSize = 64"

datatype SegmentType = Seg_Text | Seg_Rodata | Seg_Data | Seg_Bss

fun segment_type_num :: "SegmentType \<Rightarrow> u8" where
  "segment_type_num Seg_Text = 0"
| "segment_type_num Seg_Rodata = 1"
| "segment_type_num Seg_Data = 2"
| "segment_type_num Seg_Bss = 3"

fun segmentTypeName :: "SegmentType \<Rightarrow> string" where
  "segmentTypeName Seg_Text = ''text''"
| "segmentTypeName Seg_Rodata = ''rodata''"
| "segmentTypeName Seg_Data = ''data''"
| "segmentTypeName Seg_Bss = ''bss''"

definition isValidSegmentType :: "u8 \<Rightarrow> bool" where
  "isValidSegmentType v \<longleftrightarrow> v \<le> segment_type_num Seg_Bss"

type_synonym SegmentFlags = u8

definition SF_None :: SegmentFlags where "SF_None = 0"
definition SF_Read :: SegmentFlags where "SF_Read = 1"
definition SF_Write :: SegmentFlags where "SF_Write = 2"
definition SF_Exec :: SegmentFlags where "SF_Exec = 4"

lemmas segment_flag_consts = SF_None_def SF_Read_def SF_Write_def SF_Exec_def

definition hasFlag :: "SegmentFlags \<Rightarrow> SegmentFlags \<Rightarrow> bool" where
  "hasFlag flags flag \<longleftrightarrow> flags AND flag = flag"

definition flagsToString :: "SegmentFlags \<Rightarrow> string" where
  "flagsToString f =
     [if hasFlag f SF_Read then CHR ''r'' else CHR ''-'',
      if hasFlag f SF_Write then CHR ''w'' else CHR ''-'',
      if hasFlag f SF_Exec then CHR ''x'' else CHR ''-'']"

record Segment =
  sg_type :: SegmentType
  sg_flags :: SegmentFlags
  sg_name :: string
  sg_virtual_address :: u64
  sg_virtual_size :: u64
  sg_data :: "u8 list"

datatype SymbolKind = SK_None | SK_Function | SK_Object

fun symbol_kind_num :: "SymbolKind \<Rightarrow> u8" where
  "symbol_kind_num SK_None = 0"
| "symbol_kind_num SK_Function = 1"
| "symbol_kind_num SK_Object = 2"

record SymbolEntry =
  se_name :: string
  se_address :: u64
  se_size :: u64
  se_kind :: SymbolKind

record DebugEntry =
  de_address :: u64
  de_file :: u32
  de_line :: u32
  de_column :: u32

record Executable =
  ex_version :: u16
  ex_entry_point :: u64
  ex_segments :: "Segment list"
  ex_symbols :: "SymbolEntry list"
  ex_debug_info :: "DebugEntry list"
  ex_source_files :: "string list"

definition findSegment :: "Executable \<Rightarrow> u64 \<Rightarrow> Segment option" where
  "findSegment e address =
     find (\<lambda>segment. address \<ge> sg_virtual_address segment \<and>
                     address - sg_virtual_address segment < sg_virtual_size segment) (ex_segments e)"

definition findSymbol :: "Executable \<Rightarrow> string \<Rightarrow> SymbolEntry option" where
  "findSymbol e name = find (\<lambda>symbol. se_name symbol = name) (ex_symbols e)"

definition symbol_step :: "u64 \<Rightarrow> SymbolEntry \<Rightarrow> SymbolEntry option \<Rightarrow> SymbolEntry option" where
  "symbol_step address symbol best =
     (if se_address symbol > address then best
      else if se_size symbol \<noteq> 0 \<and> address - se_address symbol \<ge> se_size symbol then best
      else case best of
             None \<Rightarrow> Some symbol
           | Some b \<Rightarrow> if se_address symbol > se_address b then Some symbol else best)"

definition symbolContaining :: "Executable \<Rightarrow> u64 \<Rightarrow> SymbolEntry option" where
  "symbolContaining e address = fold (symbol_step address) (ex_symbols e) None"

definition debugEntryFor :: "Executable \<Rightarrow> u64 \<Rightarrow> DebugEntry option" where
  "debugEntryFor e address = find (\<lambda>entry. de_address entry = address) (ex_debug_info e)"

datatype ExecutableError =
    UnsupportedVersion u16
  | NoSegments
  | EmptySegment string
  | OversizedData string nat u64
  | WrappingSegment string
  | BssWithData string nat
  | WritableAndExecutable string
  | OverlappingSegments string string
  | MisalignedEntry u64
  | EntryNotMapped u64
  | EntryNotExecutable u64 string
  | BadDebugFile u32 nat

definition check_segment :: "Segment \<Rightarrow> ExecutableError option" where
  "check_segment segment =
     (if sg_virtual_size segment = 0 then Some (EmptySegment (sg_name segment))
      else if unat (sg_virtual_size segment) < length (sg_data segment) then
        Some (OversizedData (sg_name segment) (length (sg_data segment)) (sg_virtual_size segment))
      else if sg_virtual_address segment > 0xFFFFFFFFFFFFFFFF - sg_virtual_size segment then
        Some (WrappingSegment (sg_name segment))
      else if sg_type segment = Seg_Bss \<and> sg_data segment \<noteq> [] then
        Some (BssWithData (sg_name segment) (length (sg_data segment)))
      else if hasFlag (sg_flags segment) SF_Write \<and> hasFlag (sg_flags segment) SF_Exec then
        Some (WritableAndExecutable (sg_name segment))
      else None)"

fun first_error :: "('a \<Rightarrow> 'e option) \<Rightarrow> 'a list \<Rightarrow> 'e option" where
  "first_error check [] = None"
| "first_error check (x # xs) =
     (case check x of Some e \<Rightarrow> Some e | None \<Rightarrow> first_error check xs)"

definition check_pair :: "Segment \<Rightarrow> Segment \<Rightarrow> ExecutableError option" where
  "check_pair a b =
     (if sg_virtual_address a < sg_virtual_address b + sg_virtual_size b \<and>
         sg_virtual_address b < sg_virtual_address a + sg_virtual_size a
      then Some (OverlappingSegments (sg_name a) (sg_name b)) else None)"

fun check_pairs :: "Segment list \<Rightarrow> ExecutableError option" where
  "check_pairs [] = None"
| "check_pairs (a # rest) =
     (case first_error (check_pair a) rest of Some e \<Rightarrow> Some e | None \<Rightarrow> check_pairs rest)"

definition check_entry :: "Executable \<Rightarrow> ExecutableError option" where
  "check_entry e =
     (if ex_entry_point e mod of_nat kInstructionSize \<noteq> 0 then Some (MisalignedEntry (ex_entry_point e))
      else case findSegment e (ex_entry_point e) of
             None \<Rightarrow> Some (EntryNotMapped (ex_entry_point e))
           | Some entry_segment \<Rightarrow>
               if \<not> hasFlag (sg_flags entry_segment) SF_Exec
               then Some (EntryNotExecutable (ex_entry_point e) (sg_name entry_segment))
               else None)"

definition check_debug :: "Executable \<Rightarrow> DebugEntry \<Rightarrow> ExecutableError option" where
  "check_debug e entry =
     (if unat (de_file entry) \<ge> length (ex_source_files e)
      then Some (BadDebugFile (de_file entry) (length (ex_source_files e))) else None)"

definition validate :: "Executable \<Rightarrow> (ExecutableError, unit) expected" where
  "validate e =
     (if ex_version e \<noteq> kExeVersion then Inl (UnsupportedVersion (ex_version e))
      else if ex_segments e = [] then Inl NoSegments
      else case first_error check_segment (ex_segments e) of
        Some x \<Rightarrow> Inl x
      | None \<Rightarrow>
      case check_pairs (ex_segments e) of
        Some x \<Rightarrow> Inl x
      | None \<Rightarrow>
      case check_entry e of
        Some x \<Rightarrow> Inl x
      | None \<Rightarrow>
      case first_error (check_debug e) (ex_debug_info e) of
        Some x \<Rightarrow> Inl x
      | None \<Rightarrow> Inr ())"

subsection \<open>What a valid image satisfies\<close>

lemma first_error_None: "first_error check xs = None \<longleftrightarrow> (\<forall>x \<in> set xs. check x = None)"
  by (induction xs) (auto split: option.splits)

definition segment_end :: "Segment \<Rightarrow> nat" where
  "segment_end s = unat (sg_virtual_address s) + unat (sg_virtual_size s)"

definition segment_ok :: "Segment \<Rightarrow> bool" where
  "segment_ok s \<longleftrightarrow>
     0 < unat (sg_virtual_size s) \<and> length (sg_data s) \<le> unat (sg_virtual_size s) \<and>
     segment_end s < 2 ^ 64 \<and> (sg_type s = Seg_Bss \<longrightarrow> sg_data s = []) \<and>
     \<not> (hasFlag (sg_flags s) SF_Write \<and> hasFlag (sg_flags s) SF_Exec)"

definition disjoint_segments :: "Segment \<Rightarrow> Segment \<Rightarrow> bool" where
  "disjoint_segments a b \<longleftrightarrow>
     segment_end a \<le> unat (sg_virtual_address b) \<or> segment_end b \<le> unat (sg_virtual_address a)"

definition executable_ok :: "Executable \<Rightarrow> bool" where
  "executable_ok e \<longleftrightarrow>
     ex_version e = kExeVersion \<and> ex_segments e \<noteq> [] \<and>
     (\<forall>s \<in> set (ex_segments e). segment_ok s) \<and>
     sorted_wrt disjoint_segments (ex_segments e) \<and>
     8 dvd unat (ex_entry_point e) \<and>
     (\<exists>s \<in> set (ex_segments e). unat (sg_virtual_address s) \<le> unat (ex_entry_point e) \<and>
        unat (ex_entry_point e) < segment_end s \<and> hasFlag (sg_flags s) SF_Exec) \<and>
     (\<forall>d \<in> set (ex_debug_info e). unat (de_file d) < length (ex_source_files e))"

lemma no_wrap_iff:
  fixes base sz :: u64
  shows "base > 0xFFFFFFFFFFFFFFFF - sz \<longleftrightarrow> 2 ^ 64 \<le> unat base + unat sz"
proof
  assume w: "2 ^ 64 \<le> unat base + unat sz"
  show "base > 0xFFFFFFFFFFFFFFFF - sz"
    using w add_ends(1) [where base = base and sz = sz] by force
next
  assume b: "base > 0xFFFFFFFFFFFFFFFF - sz"
  have "unat (0xFFFFFFFFFFFFFFFF - sz) = 18446744073709551615 - unat sz"
    by (subst unat_sub_le) (simp_all add: word_le_nat_alt less_Suc_eq_le [symmetric] unat_u64_less)
  with b show "2 ^ 64 \<le> unat base + unat sz" by (simp add: word_less_nat_alt)
qed

lemma check_segment_None: "check_segment s = None \<longleftrightarrow> segment_ok s"
  by (auto simp: check_segment_def segment_ok_def no_wrap_iff segment_end_def unat_eq_0 not_le not_less
      simp flip: unat_eq_0 neq0_conv)

lemma segment_end_no_wrap:
  "segment_ok s \<Longrightarrow> unat (sg_virtual_address s + sg_virtual_size s) = segment_end s"
  by (simp add: segment_ok_def segment_end_def unat_add_no_wrap)

lemma check_pair_None:
  "segment_ok a \<Longrightarrow> segment_ok b \<Longrightarrow> check_pair a b = None \<longleftrightarrow> disjoint_segments a b"
  by (auto simp: check_pair_def disjoint_segments_def word_less_nat_alt segment_end_no_wrap)

lemma check_pairs_None:
  "\<forall>s \<in> set ss. segment_ok s \<Longrightarrow> check_pairs ss = None \<longleftrightarrow> sorted_wrt disjoint_segments ss"
proof (induction ss)
  case (Cons a ss)
  then have "first_error (check_pair a) ss = None \<longleftrightarrow> (\<forall>b \<in> set ss. disjoint_segments a b)"
    by (simp add: first_error_None check_pair_None)
  with Cons show ?case by (auto split: option.splits)
qed simp

lemma segment_has_iff:
  "segment_ok s \<Longrightarrow>
   address \<ge> sg_virtual_address s \<and> address - sg_virtual_address s < sg_virtual_size s \<longleftrightarrow>
   unat (sg_virtual_address s) \<le> unat address \<and> unat address < segment_end s"
  by (auto simp: segment_end_def segment_ok_def word_le_nat_alt word_less_nat_alt unat_sub_le)

lemma segment_unique:
  assumes "sorted_wrt disjoint_segments ss" and "a \<in> set ss" and "b \<in> set ss"
    and "unat (sg_virtual_address a) \<le> x" "x < segment_end a"
    and "unat (sg_virtual_address b) \<le> x" "x < segment_end b"
  shows "a = b"
  using assms by (induction ss) (auto simp: disjoint_segments_def)

lemma findSegment_Some:
  assumes "\<forall>s \<in> set (ex_segments e). segment_ok s" and "sorted_wrt disjoint_segments (ex_segments e)"
  shows "findSegment e a = Some s \<longleftrightarrow>
    s \<in> set (ex_segments e) \<and> unat (sg_virtual_address s) \<le> unat a \<and> unat a < segment_end s"
proof
  assume "findSegment e a = Some s"
  then have "s \<in> set (ex_segments e) \<and> a \<ge> sg_virtual_address s \<and> a - sg_virtual_address s < sg_virtual_size s"
    unfolding findSegment_def by (rule find_SomeD)
  then show "s \<in> set (ex_segments e) \<and> unat (sg_virtual_address s) \<le> unat a \<and> unat a < segment_end s"
    using assms(1) segment_has_iff by blast
next
  assume s: "s \<in> set (ex_segments e) \<and> unat (sg_virtual_address s) \<le> unat a \<and> unat a < segment_end s"
  show "findSegment e a = Some s"
  proof (cases "findSegment e a")
    case None
    then show ?thesis using s assms(1) segment_has_iff [of s a]
      by (auto simp: findSegment_def find_None_conv)
  next
    case (Some t)
    then have "t \<in> set (ex_segments e) \<and> a \<ge> sg_virtual_address t \<and> a - sg_virtual_address t < sg_virtual_size t"
      unfolding findSegment_def by (rule find_SomeD)
    then have "t \<in> set (ex_segments e) \<and> unat (sg_virtual_address t) \<le> unat a \<and> unat a < segment_end t"
      using assms(1) segment_has_iff by blast
    with s segment_unique [OF assms(2)] Some show ?thesis by blast
  qed
qed

lemma validate_stages:
  "validate e = Inr () \<longleftrightarrow>
     ex_version e = kExeVersion \<and> ex_segments e \<noteq> [] \<and>
     first_error check_segment (ex_segments e) = None \<and> check_pairs (ex_segments e) = None \<and>
     check_entry e = None \<and> first_error (check_debug e) (ex_debug_info e) = None"
  by (simp add: validate_def split: option.splits)

lemma check_debug_None:
  "check_debug e d = None \<longleftrightarrow> unat (de_file d) < length (ex_source_files e)"
  by (auto simp: check_debug_def)

lemma validate_iff: "validate e = Inr () \<longleftrightarrow> executable_ok e"
proof (cases "(\<forall>s \<in> set (ex_segments e). segment_ok s) \<and> sorted_wrt disjoint_segments (ex_segments e)")
  case True
  note fs = findSegment_Some [OF conjunct1 [OF True] conjunct2 [OF True], of "ex_entry_point e"]
  have dvd: "ex_entry_point e mod 8 = 0 \<longleftrightarrow> 8 dvd unat (ex_entry_point e)"
    by (simp add: word_unat_eq_iff unat_mod dvd_eq_mod_eq_0)
  have entry: "check_entry e = None \<longleftrightarrow> 8 dvd unat (ex_entry_point e) \<and>
     (\<exists>s \<in> set (ex_segments e). unat (sg_virtual_address s) \<le> unat (ex_entry_point e) \<and>
        unat (ex_entry_point e) < segment_end s \<and> hasFlag (sg_flags s) SF_Exec)"
  proof (cases "findSegment e (ex_entry_point e)")
    case None
    then show ?thesis using fs by (auto simp: check_entry_def)
  next
    case (Some t)
    then have t: "\<And>s. s \<in> set (ex_segments e) \<and> unat (sg_virtual_address s) \<le> unat (ex_entry_point e) \<and>
        unat (ex_entry_point e) < segment_end s \<longleftrightarrow> s = t"
      unfolding fs [symmetric] Some by auto
    have "ex_entry_point e mod of_nat kInstructionSize = 0 \<longleftrightarrow> 8 dvd unat (ex_entry_point e)"
      using dvd by (simp add: kInstructionSize_def)
    moreover have "(\<exists>s \<in> set (ex_segments e). unat (sg_virtual_address s) \<le> unat (ex_entry_point e) \<and>
        unat (ex_entry_point e) < segment_end s \<and> hasFlag (sg_flags s) SF_Exec)
        \<longleftrightarrow> hasFlag (sg_flags t) SF_Exec"
      using t by metis
    ultimately show ?thesis by (simp add: check_entry_def Some)
  qed
  show ?thesis
    using True entry check_pairs_None [OF conjunct1 [OF True]]
    by (simp add: validate_stages executable_ok_def first_error_None check_segment_None check_debug_None)
next
  case False
  then show ?thesis
    using check_pairs_None [of "ex_segments e"]
    by (auto simp: validate_stages executable_ok_def first_error_None check_segment_None)
qed

text \<open>
  C20: an image passes validation exactly when it satisfies the written-out invariant: the current
  version, at least one segment, every segment well formed, no two overlapping, an aligned entry
  point inside an executable segment, and line records that name existing files.
\<close>

theorem validation_is_exact: "validate e = Inr () \<longleftrightarrow> executable_ok e"
  by (rule validate_iff)

lemma findSegment_valid:
  "validate e = Inr () \<Longrightarrow> findSegment e a = Some s \<longleftrightarrow>
    s \<in> set (ex_segments e) \<and> unat (sg_virtual_address s) \<le> unat a \<and> unat a < segment_end s"
  unfolding validate_iff by (rule findSegment_Some) (auto simp: executable_ok_def)

definition symbol_covers :: "u64 \<Rightarrow> SymbolEntry \<Rightarrow> bool" where
  "symbol_covers a s \<longleftrightarrow> se_address s \<le> a \<and> (se_size s = 0 \<or> a - se_address s < se_size s)"

lemma symbol_step_eq:
  "symbol_step a s best =
     (if symbol_covers a s \<and> (\<forall>b. best = Some b \<longrightarrow> se_address b < se_address s)
      then Some s else best)"
  by (auto simp: symbol_step_def symbol_covers_def not_less not_le split: option.splits)

lemma symbolContaining_fold:
  assumes "\<forall>b. best = Some b \<longrightarrow> symbol_covers a b"
  shows "case fold (symbol_step a) ss best of
      None \<Rightarrow> best = None \<and> (\<forall>s \<in> set ss. \<not> symbol_covers a s)
    | Some b \<Rightarrow> symbol_covers a b \<and> (b \<in> set ss \<or> best = Some b) \<and>
        (\<forall>s \<in> set ss. symbol_covers a s \<longrightarrow> se_address s \<le> se_address b) \<and>
        (\<forall>c. best = Some c \<longrightarrow> se_address c \<le> se_address b)"
  using assms
proof (induction ss arbitrary: best)
  case Nil
  then show ?case by (auto split: option.splits)
next
  case (Cons s ss)
  have "\<forall>b. symbol_step a s best = Some b \<longrightarrow> symbol_covers a b"
    using Cons.prems unfolding symbol_step_eq by (auto split: if_splits)
  note IH = Cons.IH [OF this]
  show ?case
  proof (cases "symbol_covers a s \<and> (\<forall>b. best = Some b \<longrightarrow> se_address b < se_address s)")
    case True
    then have "symbol_step a s best = Some s" by (simp add: symbol_step_eq)
    with IH True show ?thesis by (auto split: option.splits dest: less_imp_le order.strict_trans2)
  next
    case False
    have "symbol_step a s best = best" unfolding symbol_step_eq by (rule if_not_P [OF False])
    with IH False show ?thesis
      by (auto split: option.splits simp: not_less intro: order.trans)
  qed
qed

text \<open>
  The symbol reported for an address precedes it, covers it when it is sized, and no other
  such symbol lies closer.
\<close>

theorem symbolContaining_nearest:
  "case symbolContaining e a of
     None \<Rightarrow> (\<forall>s \<in> set (ex_symbols e). \<not> symbol_covers a s)
   | Some b \<Rightarrow> b \<in> set (ex_symbols e) \<and> symbol_covers a b \<and>
       (\<forall>s \<in> set (ex_symbols e). symbol_covers a s \<longrightarrow> se_address s \<le> se_address b)"
  using symbolContaining_fold [of None a "ex_symbols e"]
  by (auto simp: symbolContaining_def split: option.splits)

definition demo_symbols :: Executable where
  "demo_symbols = \<lparr> ex_version = 1, ex_entry_point = 0, ex_segments = [],
     ex_symbols = [\<lparr> se_name = ''f'', se_address = 8, se_size = 16, se_kind = SK_Function \<rparr>,
                   \<lparr> se_name = ''g'', se_address = 16, se_size = 0, se_kind = SK_Function \<rparr>],
     ex_debug_info = [], ex_source_files = [] \<rparr>"

lemma symbolContaining_nearest_witness:
  "\<exists>b. symbolContaining demo_symbols 20 = Some b \<and> se_address b = 16"
proof -
  have "\<exists>b. symbolContaining demo_symbols 20 = Some b"
    by (simp add: symbolContaining_def demo_symbols_def symbol_step_def)
  then obtain b where b: "symbolContaining demo_symbols 20 = Some b" ..
  have "se_address b \<le> 16" "16 \<le> se_address b"
    using symbolContaining_nearest [of demo_symbols 20, unfolded b option.case]
    by (auto simp: demo_symbols_def symbol_covers_def)
  then show ?thesis using b by (simp add: order_antisym)
qed

end
