(* ===== verification/Syscall.thy ===== *)
theory Syscall
  imports Memory
begin

text \<open>
  include/minitool/vm/syscall.hpp and src/vm/syscall.cpp: the system calls.  The virtual machine
  knows a provider only through its \<open>invoke\<close> method, so the contract the machine relies on is
  the locale \<open>syscall_provider\<close>; the default provider, with its capture buffers and with the
  host's streams as byte lists, is shown to meet it.  \<open>fread\<close> and \<open>fwrite\<close> are the C library's:
  a read takes the next bytes of stdin, at most as many as it was asked for, and a write appends.
\<close>

definition kArg1 :: nat where "kArg1 = 1"
definition kArg2 :: nat where "kArg2 = 2"
definition kArg3 :: nat where "kArg3 = 3"
definition kRetReg :: nat where "kRetReg = 14"
definition kMaxTransfer :: u64 where "kMaxTransfer = push_bit 20 1"

lemmas arg_consts = kArg1_def kArg2_def kArg3_def kRetReg_def

definition syscallName :: "u64 \<Rightarrow> string" where
  "syscallName number =
     (if number = 0 then ''exit'' else if number = 1 then ''write''
      else if number = 2 then ''read'' else if number = 3 then ''allocate'' else ''unknown'')"

record SyscallContext =
  sc_registers :: "u64 list"
  sc_memory :: VirtualMemory
  sc_halt :: bool
  sc_exit_code :: u64

datatype SyscallMessage =
    UnknownSyscall u64
  | WriteBadDescriptor u64
  | WriteTooLong u64
  | WriteFault MemoryFault
  | ReadBadDescriptor u64
  | ReadTooLong u64
  | ReadFault MemoryFault

record DefaultProvider =
  dp_capture :: bool
  dp_output :: "u8 list"
  dp_error_output :: "u8 list"
  dp_input :: "u8 list"
  host_stdout :: "u8 list"
  host_stderr :: "u8 list"
  host_stdin :: "u8 list"

type_synonym ('e, 'p) provider =
  "u64 \<Rightarrow> SyscallContext \<Rightarrow> 'p \<Rightarrow> ('e, unit) expected \<times> SyscallContext \<times> 'p"

definition set_return :: "u64 \<Rightarrow> SyscallContext \<Rightarrow> SyscallContext" where
  "set_return v c = c\<lparr> sc_registers := (sc_registers c)[kRetReg := v] \<rparr>"

definition emit_output :: "u64 \<Rightarrow> u8 list \<Rightarrow> DefaultProvider \<Rightarrow> DefaultProvider" where
  "emit_output fd bytes p =
     (if dp_capture p then
        (if fd = 1 then p\<lparr> dp_output := dp_output p @ bytes \<rparr>
         else p\<lparr> dp_error_output := dp_error_output p @ bytes \<rparr>)
      else
        (if fd = 1 then p\<lparr> host_stdout := host_stdout p @ bytes \<rparr>
         else p\<lparr> host_stderr := host_stderr p @ bytes \<rparr>))"

definition doWrite ::
  "SyscallContext \<Rightarrow> DefaultProvider \<Rightarrow> (SyscallMessage, unit) expected \<times> SyscallContext \<times> DefaultProvider"
where
  "doWrite c p =
     (let fd = sc_registers c ! kArg1; address = sc_registers c ! kArg2; len = sc_registers c ! kArg3 in
      if fd \<noteq> 1 \<and> fd \<noteq> 2 then (Inl (WriteBadDescriptor fd), c, p)
      else if len > kMaxTransfer then (Inl (WriteTooLong len), c, p)
      else case readBytes (sc_memory c) address (unat len) of
             Inl e \<Rightarrow> (Inl (WriteFault e), c, p)
           | Inr bytes \<Rightarrow> (Inr (), set_return len c, emit_output fd bytes p))"

definition take_input :: "nat \<Rightarrow> DefaultProvider \<Rightarrow> u8 list \<times> DefaultProvider" where
  "take_input n p =
     (if dp_capture p then
        let count = min n (length (dp_input p))
        in (take count (dp_input p), p\<lparr> dp_input := drop count (dp_input p) \<rparr>)
      else (take n (host_stdin p), p\<lparr> host_stdin := drop n (host_stdin p) \<rparr>))"

definition doRead ::
  "SyscallContext \<Rightarrow> DefaultProvider \<Rightarrow> (SyscallMessage, unit) expected \<times> SyscallContext \<times> DefaultProvider"
where
  "doRead c p =
     (let fd = sc_registers c ! kArg1; address = sc_registers c ! kArg2; len = sc_registers c ! kArg3 in
      if fd \<noteq> 0 then (Inl (ReadBadDescriptor fd), c, p)
      else if len > kMaxTransfer then (Inl (ReadTooLong len), c, p)
      else
        let (bytes, p) = take_input (unat len) p in
        if bytes = [] then (Inr (), set_return (of_nat (length bytes)) c, p)
        else case writeBytes (sc_memory c) address bytes of
               Inl e \<Rightarrow> (Inl (ReadFault e), c, p)
             | Inr m \<Rightarrow> (Inr (), set_return (of_nat (length bytes)) (c\<lparr> sc_memory := m \<rparr>), p))"

definition doAllocate ::
  "SyscallContext \<Rightarrow> DefaultProvider \<Rightarrow> (SyscallMessage, unit) expected \<times> SyscallContext \<times> DefaultProvider"
where
  "doAllocate c p =
     (case allocate (sc_memory c) (sc_registers c ! kArg1) of
        (Inl e, m) \<Rightarrow> (Inr (), set_return 0 (c\<lparr> sc_memory := m \<rparr>), p)
      | (Inr block, m) \<Rightarrow> (Inr (), set_return block (c\<lparr> sc_memory := m \<rparr>), p))"

definition default_invoke :: "(SyscallMessage, DefaultProvider) provider" where
  "default_invoke number c p =
     (if number = 0 then
        (Inr (), c\<lparr> sc_halt := True, sc_exit_code := sc_registers c ! kArg1 \<rparr>, p)
      else if number = 1 then doWrite c p
      else if number = 2 then doRead c p
      else if number = 3 then doAllocate c p
      else (Inl (UnknownSyscall number), c, p))"

subsection \<open>The contract of a provider\<close>

text \<open>
  \<open>quiet m m'\<close>: the second memory has the regions and permissions of the first, and every byte a
  program cannot write is the same in both.
\<close>

definition unwritable :: "VirtualMemory \<Rightarrow> u64 \<Rightarrow> bool" where
  "unwritable m a \<longleftrightarrow> (\<forall>p. perm_at m a = Some p \<longrightarrow> \<not> hasPermission p Perm_Write)"

definition quiet :: "VirtualMemory \<Rightarrow> VirtualMemory \<Rightarrow> bool" where
  "quiet m m' \<longleftrightarrow> mem_layout m' = mem_layout m \<and> (\<forall>a. unwritable m a \<longrightarrow> mem_at m' a = mem_at m a)"

lemma quiet_refl [simp]: "quiet m m"
  by (simp add: quiet_def)

lemma quiet_trans: "quiet m m' \<Longrightarrow> quiet m' m'' \<Longrightarrow> quiet m m''"
  by (auto simp: quiet_def unwritable_def perm_at_layout [of m m'])

lemma quiet_ok: "quiet m m' \<Longrightarrow> mem_ok m' = mem_ok m"
  by (auto simp: quiet_def dest: mem_ok_layout)

lemma write_is_quiet:
  assumes "mem_ok m" and "length bs < 2 ^ 64" and "writeBytes m a bs = Inr m'"
  shows "quiet m m'"
proof -
  have "mem_at m' b = mem_at m b" if "unwritable m b" for b
  proof (cases "unat (b - a) < length bs")
    case True
    then have "bs \<noteq> []" by auto
    with assms(3) obtain i where acc: "checkAccess m a (of_nat (length bs)) Perm_Write = Inr i"
      by (auto simp: writeBytes_def split: sum.splits)
    have "regionAt m b = Some i"
      using access_offset(2) [OF assms(1) acc, of "unat (b - a)"] True assms(2)
      by (simp add: unat_of_nat_u64)
    with checkAccess_InrD(6) [OF acc assms(1)] that show ?thesis
      by (simp add: unwritable_def perm_at_def)
  next
    case False
    then show ?thesis using writeBytes_flat [OF assms] by simp
  qed
  then show ?thesis using writeBytes_flat [OF assms] by (simp add: quiet_def)
qed

locale syscall_provider =
  fixes invoke :: "('e, 'p) provider"
  assumes keeps_registers:
    "invoke n c p = (r, c', p') \<Longrightarrow> length (sc_registers c') = length (sc_registers c)"
    and keeps_memory:
    "invoke n c p = (r, c', p') \<Longrightarrow> mem_ok (sc_memory c) \<Longrightarrow> quiet (sc_memory c) (sc_memory c')"
begin

lemma keeps_ok:
  "invoke n c p = (r, c', p') \<Longrightarrow> mem_ok (sc_memory c) \<Longrightarrow> mem_ok (sc_memory c')"
  using keeps_memory quiet_ok by blast

end

lemma set_return_simps [simp]:
  "length (sc_registers (set_return v c)) = length (sc_registers c)"
  "sc_memory (set_return v c) = sc_memory c"
  "sc_halt (set_return v c) = sc_halt c"
  "sc_exit_code (set_return v c) = sc_exit_code c"
  by (simp_all add: set_return_def)

lemma allocate_quiet: "allocate m sz = (r, m') \<Longrightarrow> quiet m m'"
  by (auto simp: allocate_def Let_def quiet_def mem_layout_def mem_at_def regionAt_def
      split: option.splits if_splits)

lemma take_input_length:
  "take_input n p = (bs, p') \<Longrightarrow> length bs \<le> n"
  by (auto simp: take_input_def Let_def split: if_splits)

lemma default_keeps_registers:
  "default_invoke n c p = (r, c', p') \<Longrightarrow> length (sc_registers c') = length (sc_registers c)"
  by (auto simp: default_invoke_def doWrite_def doRead_def doAllocate_def Let_def
      split: if_splits sum.splits prod.splits)

lemma default_keeps_memory:
  assumes inv: "default_invoke n c p = (r, c', p')" and ok: "mem_ok (sc_memory c)"
  shows "quiet (sc_memory c) (sc_memory c')"
proof -
  consider "n = 2" | "n = 3" | "n \<noteq> 2 \<and> n \<noteq> 3" by blast
  then show ?thesis
  proof cases
    case 1
    define len where "len = sc_registers c ! kArg3"
    obtain bs q where t: "take_input (unat len) p = (bs, q)" by (cases "take_input (unat len) p")
    have small: "length bs < 2 ^ 64"
      using take_input_length [OF t] unat_u64_less [of len] by simp
    from inv 1 t show ?thesis
      using write_is_quiet [OF ok small]
      by (auto simp: default_invoke_def doRead_def Let_def len_def [symmetric] split: if_splits sum.splits)
  next
    case 2
    with inv show ?thesis
      by (auto simp: default_invoke_def doAllocate_def dest: allocate_quiet split: prod.splits sum.splits)
  next
    case 3
    with inv show ?thesis
      by (auto simp: default_invoke_def doWrite_def Let_def split: if_splits sum.splits)
  qed
qed

interpretation default_provider: syscall_provider default_invoke
  by unfold_locales (fact default_keeps_registers default_keeps_memory)+

subsection \<open>What the calls do\<close>

text \<open>a write call delivers exactly the bytes of the buffer, in order, to the chosen stream.\<close>

theorem write_delivers:
  assumes "mem_ok (sc_memory c)" and "dp_capture p"
    and "default_invoke 1 c p = (Inr (), c', p')"
  defines "fd \<equiv> sc_registers c ! 1" and "addr \<equiv> sc_registers c ! 2" and "len \<equiv> sc_registers c ! 3"
  shows "\<exists>bs. mem_span (sc_memory c) addr (unat len) = map Some bs \<and>
    (if fd = 1 then p' = p\<lparr> dp_output := dp_output p @ bs \<rparr>
     else fd = 2 \<and> p' = p\<lparr> dp_error_output := dp_error_output p @ bs \<rparr>) \<and>
    c' = c\<lparr> sc_registers := (sc_registers c)[14 := len] \<rparr>"
proof -
  from assms(3) obtain bs where "readBytes (sc_memory c) addr (unat len) = Inr bs"
    and "fd = 1 \<or> fd = 2" and "p' = emit_output fd bs p" and "c' = set_return len c"
    by (auto simp: default_invoke_def doWrite_def Let_def arg_consts fd_def addr_def len_def
        split: if_splits sum.splits)
  with readBytes_flat [OF assms(1), of "unat len" addr bs] unat_u64_less [of len] assms(2)
  show ?thesis
    by (auto simp: emit_output_def set_return_def kRetReg_def)
qed

definition demo_call :: SyscallContext where
  "demo_call = \<lparr> sc_registers = [0, 1, 0x10000000, 2, 0, 0, 0, 0, 0, 0, 0, 0, 0, 0, 0, 0],
     sc_memory = demo_heap, sc_halt = False, sc_exit_code = 0 \<rparr>"

definition demo_provider :: DefaultProvider where
  "demo_provider = \<lparr> dp_capture = True, dp_output = [9], dp_error_output = [], dp_input = [],
     host_stdout = [], host_stderr = [], host_stdin = [] \<rparr>"

lemma write_delivers_witness:
  "\<exists>c' p' bs. default_invoke 1 demo_call demo_provider = (Inr (), c', p') \<and>
     mem_span demo_heap 0x10000000 2 = map Some bs \<and> dp_output p' = [9] @ bs"
proof -
  have c: "checkAccess demo_heap 0x10000000 2 Perm_Read = Inr 0"
    by (simp add: demo_heap_def addRegion_def empty_memory_def checkAccess_def regionAt_def
        region_has_def Let_def hasPermission_def perm_consts)
  obtain c' p' where i: "default_invoke 1 demo_call demo_provider = (Inr (), c', p')"
    using c by (simp add: default_invoke_def doWrite_def demo_call_def readBytes_def arg_consts
        kMaxTransfer_def Let_def demo_provider_def)
  show ?thesis
    using write_delivers [OF _ _ i] demo_heap_ok i
    by (force simp: demo_call_def demo_provider_def)
qed

end
