(* ===== verification/Machine.thy ===== *)
theory Machine
  imports Semantics Executable Syscall
begin

text \<open>
  include/minitool/vm/vm.hpp and src/vm/vm.cpp: the virtual CPU.  Every operation takes the
  machine and returns it changed next to its result, because the code keeps the state changes an
  instruction made before it faulted.  A trace sink is \<open>Some\<close> list of what it was called with.
  The operations take the provider's \<open>invoke\<close> as an argument; the lemmas about them are proved
  once in the locale \<open>syscall_provider\<close> and instantiated with the default provider.
\<close>

definition kStackTop :: u64 where "kStackTop = 0x7FFF0000"
definition kStackSize :: u64 where "kStackSize = push_bit 20 1"
definition kHeapBase :: u64 where "kHeapBase = 0x10000000"
definition kHeapSize :: u64 where "kHeapSize = push_bit 20 1"
definition kDefaultBudget :: u64 where "kDefaultBudget = 100000000"

lemmas vm_consts = kStackTop_def kStackSize_def kHeapBase_def kHeapSize_def

record CPUState =
  registers :: "u64 list"
  pc :: u64
  sp :: u64
  flags :: u64
  halted :: bool
  instruction_count :: u64
  exit_code :: u64

definition initial_cpu :: CPUState where
  "initial_cpu = \<lparr> registers = replicate kRegisterCount 0, pc = 0, sp = 0, flags = 0, halted = False,
                   instruction_count = 0, exit_code = 0 \<rparr>"

datatype VMError = VM_None | InvalidMemoryAccess | PermissionViolation | IllegalInstruction
  | VM_DivisionByZero | StackOverflow | StackUnderflow | SyscallError | BudgetExhausted | NotLoaded

fun vmErrorName :: "VMError \<Rightarrow> string" where
  "vmErrorName VM_None = ''none''"
| "vmErrorName InvalidMemoryAccess = ''invalid memory access''"
| "vmErrorName PermissionViolation = ''permission violation''"
| "vmErrorName IllegalInstruction = ''illegal instruction''"
| "vmErrorName VM_DivisionByZero = ''division by zero''"
| "vmErrorName StackOverflow = ''stack overflow''"
| "vmErrorName StackUnderflow = ''stack underflow''"
| "vmErrorName SyscallError = ''syscall error''"
| "vmErrorName BudgetExhausted = ''instruction budget exhausted''"
| "vmErrorName NotLoaded = ''no program loaded''"

datatype 'e VMMessage =
    MsgNone
  | MsgMemory string MemoryFault
  | MsgStackOverflow u64 u64
  | MsgStackUnderflow u64 u64
  | MsgNotLoaded
  | MsgMisalignedPC u64
  | MsgCannotDecode u64 DecodeError
  | MsgRegisterIndex nat nat
  | MsgSyscall 'e
  | MsgByZero string
  | MsgNotExecutable string
  | MsgBudget u64

record 'e VMFault =
  vf_error :: VMError
  vf_message :: "'e VMMessage"
  vf_pc :: u64

definition vm_fault :: "VMError \<Rightarrow> 'e VMMessage \<Rightarrow> u64 \<Rightarrow> 'e VMFault" where
  "vm_fault e msg addr = \<lparr> vf_error = e, vf_message = msg, vf_pc = addr \<rparr>"

record 'e RunResult =
  rr_error :: VMError
  rr_message :: "'e VMMessage"
  rr_exit_code :: u64
  rr_instructions :: u64
  rr_pc :: u64

record 'p VM =
  cpu :: CPUState
  memory :: VirtualMemory
  provider :: 'p
  trace :: "(u64 \<times> Instruction) list option"
  loaded :: bool
  stack_top :: u64
  stack_limit :: u64

definition new_machine :: "'p \<Rightarrow> 'p VM" where
  "new_machine p = \<lparr> cpu = initial_cpu, memory = empty_memory, provider = p, trace = None,
     loaded = False, stack_top = kStackTop, stack_limit = kStackTop - kStackSize \<rparr>"

definition permissionsOf :: "SegmentFlags \<Rightarrow> Permission" where
  "permissionsOf fl =
     (let permissions = Perm_None;
          permissions = (if hasFlag fl SF_Read then permissions OR Perm_Read else permissions);
          permissions = (if hasFlag fl SF_Write then permissions OR Perm_Write else permissions)
      in if hasFlag fl SF_Exec then permissions OR Perm_Read OR Perm_Exec else permissions)"

datatype LoadError = InvalidImage ExecutableError | CannotMapSegment string u64
  | StackOverlap | HeapOverlap

fun map_segments :: "VirtualMemory \<Rightarrow> Segment list \<Rightarrow> (LoadError, unit) expected \<times> VirtualMemory" where
  "map_segments m [] = (Inr (), m)"
| "map_segments m (segment # rest) =
     (case addRegion m (sg_name segment) (sg_virtual_address segment) (sg_virtual_size segment)
             (permissionsOf (sg_flags segment)) (sg_data segment) of
        (False, m) \<Rightarrow> (Inl (CannotMapSegment (sg_name segment) (sg_virtual_address segment)), m)
      | (True, m) \<Rightarrow> map_segments m rest)"

definition load :: "Executable \<Rightarrow> 'p VM \<Rightarrow> (LoadError, unit) expected \<times> 'p VM" where
  "load executable vm =
     (case validate executable of
        Inl e \<Rightarrow> (Inl (InvalidImage e), vm)
      | Inr _ \<Rightarrow>
      case map_segments (mem_reset (memory vm)) (ex_segments executable) of
        (Inl e, m) \<Rightarrow> (Inl e, vm\<lparr> memory := m \<rparr>)
      | (Inr _, m) \<Rightarrow>
      case addRegion m ''stack'' (kStackTop - kStackSize) kStackSize (Perm_Read OR Perm_Write) [] of
        (False, m) \<Rightarrow> (Inl StackOverlap, vm\<lparr> memory := m \<rparr>)
      | (True, m) \<Rightarrow>
      case addRegion m ''heap'' kHeapBase kHeapSize (Perm_Read OR Perm_Write) [] of
        (False, m) \<Rightarrow> (Inl HeapOverlap, vm\<lparr> memory := m \<rparr>)
      | (True, m) \<Rightarrow>
          (Inr (), vm\<lparr> memory := m, stack_top := kStackTop, stack_limit := kStackTop - kStackSize,
                       cpu := initial_cpu\<lparr> pc := ex_entry_point executable, sp := kStackTop \<rparr>,
                       loaded := True \<rparr>))"

definition faultFromMemory :: "'p VM \<Rightarrow> MemoryFault \<Rightarrow> u64 \<Rightarrow> string \<Rightarrow> 'e VMFault" where
  "faultFromMemory vm fault addr what =
     (let error =
        (case mf_kind fault of
           ReadDenied \<Rightarrow> PermissionViolation
         | WriteDenied \<Rightarrow> PermissionViolation
         | ExecuteDenied \<Rightarrow> PermissionViolation
         | OutOfMemory \<Rightarrow> InvalidMemoryAccess
         | _ \<Rightarrow> if mf_address fault < stack_limit vm \<and>
                   stack_limit vm - mf_address fault \<le> kStackSize
                then StackOverflow else InvalidMemoryAccess)
      in vm_fault error (MsgMemory what fault) addr)"

definition push :: "u64 \<Rightarrow> u64 \<Rightarrow> 'p VM \<Rightarrow> ('e VMFault, unit) expected \<times> 'p VM" where
  "push v addr vm =
     (if sp (cpu vm) < stack_limit vm + 8 then
        (Inl (vm_fault StackOverflow (MsgStackOverflow (sp (cpu vm)) (stack_limit vm)) addr), vm)
      else
        let target = sp (cpu vm) - 8 in
        case writeU64 (memory vm) target v of
          Inl e \<Rightarrow> (Inl (faultFromMemory vm e addr ''push''), vm)
        | Inr m \<Rightarrow> (Inr (), vm\<lparr> memory := m, cpu := (cpu vm)\<lparr> sp := target \<rparr> \<rparr>))"

definition pop :: "u64 \<Rightarrow> 'p VM \<Rightarrow> ('e VMFault, u64) expected \<times> 'p VM" where
  "pop addr vm =
     (if sp (cpu vm) \<ge> stack_top vm then
        (Inl (vm_fault StackUnderflow (MsgStackUnderflow (sp (cpu vm)) (stack_top vm)) addr), vm)
      else case readU64 (memory vm) (sp (cpu vm)) of
             Inl e \<Rightarrow> (Inl (faultFromMemory vm e addr ''pop''), vm)
           | Inr v \<Rightarrow> (Inr v, vm\<lparr> cpu := (cpu vm)\<lparr> sp := sp (cpu vm) + 8 \<rparr> \<rparr>))"

definition set_register :: "nat \<Rightarrow> u64 \<Rightarrow> 'p VM \<Rightarrow> 'p VM" where
  "set_register i v vm = vm\<lparr> cpu := (cpu vm)\<lparr> registers := (registers (cpu vm))[i := v] \<rparr> \<rparr>"

definition set_pc :: "u64 \<Rightarrow> 'p VM \<Rightarrow> 'p VM" where
  "set_pc v vm = vm\<lparr> cpu := (cpu vm)\<lparr> pc := v \<rparr> \<rparr>"

definition exec_syscall ::
  "('e, 'p) provider \<Rightarrow> i64 \<Rightarrow> u64 \<Rightarrow> 'p VM \<Rightarrow> ('e VMFault, unit) expected \<times> 'p VM" where
  "exec_syscall invoke imm addr vm =
     (let context = \<lparr> sc_registers = registers (cpu vm), sc_memory = memory vm, sc_halt = False,
                      sc_exit_code = 0 \<rparr>
      in case invoke imm context (provider vm) of
           (result, context, p) \<Rightarrow>
             let vm = vm\<lparr> cpu := (cpu vm)\<lparr> registers := sc_registers context \<rparr>,
                          memory := sc_memory context, provider := p \<rparr>
             in case result of
                  Inl e \<Rightarrow> (Inl (vm_fault SyscallError (MsgSyscall e) addr), vm)
                | Inr _ \<Rightarrow>
                    if sc_halt context
                    then (Inr (), vm\<lparr> cpu := (cpu vm)\<lparr> halted := True,
                                                     exit_code := sc_exit_code context \<rparr> \<rparr>)
                    else (Inr (), vm))"

definition exec_alu ::
  "Opcode \<Rightarrow> nat \<Rightarrow> nat \<Rightarrow> u64 \<Rightarrow> 'p VM \<Rightarrow> ('e VMFault, unit) expected \<times> 'p VM" where
  "exec_alu opcode d s addr vm =
     (let result = (if isBinaryAlu opcode
                    then evaluateBinary opcode (registers (cpu vm) ! d) (registers (cpu vm) ! s)
                    else evaluateUnary opcode (registers (cpu vm) ! d))
      in case result of
           Inl DivisionByZero \<Rightarrow>
             (Inl (vm_fault VM_DivisionByZero (MsgByZero (opcodeName opcode)) addr), vm)
         | Inl NotArithmetic \<Rightarrow>
             (Inl (vm_fault IllegalInstruction (MsgNotExecutable (opcodeName opcode)) addr), vm)
         | Inr r \<Rightarrow>
             let vm = (if alu_writes_value r then set_register d (alu_value r) vm else vm);
                 vm = (if alu_writes_flags r
                       then vm\<lparr> cpu := (cpu vm)\<lparr> flags := alu_flags r AND kFlagsMask \<rparr> \<rparr> else vm)
             in (Inr (), vm))"

definition exec_rest ::
  "Opcode \<Rightarrow> nat \<Rightarrow> nat \<Rightarrow> i64 \<Rightarrow> u64 \<Rightarrow> 'p VM \<Rightarrow> ('e VMFault, unit) expected \<times> 'p VM" where
  "exec_rest opcode d s imm addr vm =
     (if (case findOpcode opcode of Some info \<Rightarrow> oi_is_branch info | None \<Rightarrow> False) then
        (if branchTaken opcode (flags (cpu vm))
         then (Inr (), set_pc (branchTarget addr imm) vm) else (Inr (), vm))
      else exec_alu opcode d s addr vm)"

definition execute ::
  "('e, 'p) provider \<Rightarrow> Instruction \<Rightarrow> u64 \<Rightarrow> 'p VM \<Rightarrow> ('e VMFault, unit) expected \<times> 'p VM" where
  "execute invoke instruction addr vm =
     (let d = registerIndex (i_dst instruction); s = registerIndex (i_src instruction);
          imm = i_imm instruction; regs = registers (cpu vm) in
      if d \<ge> kRegisterCount \<or> s \<ge> kRegisterCount then
        (Inl (vm_fault IllegalInstruction (MsgRegisterIndex d s) addr), vm)
      else case i_opcode instruction of
        OP_NOP \<Rightarrow> (Inr (), vm)
      | OP_HALT \<Rightarrow> (Inr (), vm\<lparr> cpu := (cpu vm)\<lparr> halted := True \<rparr> \<rparr>)
      | OP_SYSCALL \<Rightarrow> exec_syscall invoke imm addr vm
      | OP_MOV \<Rightarrow> (Inr (), set_register d (regs ! s) vm)
      | OP_MOVI \<Rightarrow> (Inr (), set_register d imm vm)
      | OP_LEA \<Rightarrow> (Inr (), set_register d imm vm)
      | OP_LOAD \<Rightarrow>
          (case readU64 (memory vm) (regs ! s + imm) of
             Inl e \<Rightarrow> (Inl (faultFromMemory vm e addr ''LOAD''), vm)
           | Inr v \<Rightarrow> (Inr (), set_register d v vm))
      | OP_STORE \<Rightarrow>
          (case writeU64 (memory vm) (regs ! d + imm) (regs ! s) of
             Inl e \<Rightarrow> (Inl (faultFromMemory vm e addr ''STORE''), vm)
           | Inr m \<Rightarrow> (Inr (), vm\<lparr> memory := m \<rparr>))
      | OP_PUSH \<Rightarrow> push (regs ! d) addr vm
      | OP_POP \<Rightarrow>
          (case pop addr vm of
             (Inl e, vm) \<Rightarrow> (Inl e, vm)
           | (Inr v, vm) \<Rightarrow> (Inr (), set_register d v vm))
      | OP_CALL \<Rightarrow>
          (case push (pc (cpu vm)) addr vm of
             (Inl e, vm) \<Rightarrow> (Inl e, vm)
           | (Inr _, vm) \<Rightarrow> (Inr (), set_pc (branchTarget addr imm) vm))
      | OP_RET \<Rightarrow>
          (case pop addr vm of
             (Inl e, vm) \<Rightarrow> (Inl e, vm)
           | (Inr v, vm) \<Rightarrow> (Inr (), set_pc v vm))
      | opcode \<Rightarrow> exec_rest opcode d s imm addr vm)"

definition advance :: "Instruction \<Rightarrow> 'p VM \<Rightarrow> 'p VM" where
  "advance decoded vm =
     vm\<lparr> trace := map_option (\<lambda>log. log @ [(pc (cpu vm), decoded)]) (trace vm),
         cpu := (cpu vm)\<lparr> pc := pc (cpu vm) + of_nat kInstructionSize,
                           instruction_count := instruction_count (cpu vm) + 1 \<rparr> \<rparr>"

definition step :: "('e, 'p) provider \<Rightarrow> 'p VM \<Rightarrow> ('e VMFault, unit) expected \<times> 'p VM" where
  "step invoke vm =
     (if \<not> loaded vm then (Inl (vm_fault NotLoaded MsgNotLoaded (pc (cpu vm))), vm)
      else if halted (cpu vm) then (Inr (), vm)
      else
        let addr = pc (cpu vm) in
        if addr mod of_nat kInstructionSize \<noteq> 0 then
          (Inl (vm_fault IllegalInstruction (MsgMisalignedPC addr) addr), vm)
        else case fetchInstruction (memory vm) addr of
          Inl e \<Rightarrow> (Inl (faultFromMemory vm e addr ''instruction fetch''), vm)
        | Inr word \<Rightarrow>
        case decode word of
          Inl e \<Rightarrow> (Inl (vm_fault IllegalInstruction (MsgCannotDecode word e) addr), vm)
        | Inr decoded \<Rightarrow> execute invoke decoded addr (advance decoded vm))"

definition stopped :: "VMError \<Rightarrow> 'e VMMessage \<Rightarrow> u64 \<Rightarrow> 'p VM \<Rightarrow> 'e RunResult" where
  "stopped e msg at vm =
     \<lparr> rr_error = e, rr_message = msg, rr_exit_code = 0,
       rr_instructions = instruction_count (cpu vm), rr_pc = at \<rparr>"

function run_loop ::
  "('e, 'p) provider \<Rightarrow> u64 \<Rightarrow> u64 \<Rightarrow> 'p VM \<Rightarrow> 'e RunResult \<times> 'p VM" where
  "run_loop invoke budget executed vm =
     (if halted (cpu vm) then
        (\<lparr> rr_error = VM_None, rr_message = MsgNone, rr_exit_code = exit_code (cpu vm),
           rr_instructions = instruction_count (cpu vm), rr_pc = pc (cpu vm) \<rparr>, vm)
      else if executed \<ge> budget then
        (stopped BudgetExhausted (MsgBudget executed) (pc (cpu vm)) vm, vm)
      else case step invoke vm of
             (Inl e, vm) \<Rightarrow> (stopped (vf_error e) (vf_message e) (vf_pc e) vm, vm)
           | (Inr _, vm) \<Rightarrow> run_loop invoke budget (executed + 1) vm)"
  by pat_completeness auto

lemma word_increment_measure:
  fixes a b :: u64
  assumes "\<not> b \<le> a"
  shows "unat b - unat (a + 1) < unat b - unat a" and "unat (a + 1) = unat a + 1"
proof -
  have lt: "unat a < unat b" using assms by (simp add: word_le_nat_alt)
  then show e: "unat (a + 1) = unat a + 1"
    using unat_u64_less [of b] by (subst unat_add_no_wrap) simp_all
  show "unat b - unat (a + 1) < unat b - unat a" using lt e by simp
qed

termination run_loop
  by (relation "measure (\<lambda>(invoke, budget, executed, vm). unat budget - unat executed)")
    (simp, simp only: in_measure split_conv, rule word_increment_measure(1), simp)

declare run_loop.simps [simp del]

definition run :: "('e, 'p) provider \<Rightarrow> u64 \<Rightarrow> 'p VM \<Rightarrow> 'e RunResult \<times> 'p VM" where
  "run invoke budget vm =
     (if \<not> loaded vm then
        (\<lparr> rr_error = NotLoaded, rr_message = MsgNotLoaded, rr_exit_code = 0, rr_instructions = 0,
           rr_pc = 0 \<rparr>, vm)
      else run_loop invoke budget 0 vm)"

subsection \<open>The invariant\<close>

text \<open>
  A loaded machine keeps a well-formed address space with the stack mapped readable and writable
  between its two bounds, sixteen registers, an 8-aligned stack pointer between the bounds, and
  FLAGS within the architectural mask.
\<close>

definition stack_mapped :: "'p VM \<Rightarrow> bool" where
  "stack_mapped vm \<longleftrightarrow>
     (\<exists>r \<in> set (regions (memory vm)). rg_base r = stack_limit vm \<and>
        region_end r = unat (stack_top vm) \<and>
        hasPermission (rg_permissions r) Perm_Read \<and> hasPermission (rg_permissions r) Perm_Write)"

definition stack_bounds :: "'p VM \<Rightarrow> bool" where
  "stack_bounds vm \<longleftrightarrow>
     8 dvd unat (stack_limit vm) \<and> 8 dvd unat (stack_top vm) \<and> unat (stack_limit vm) < 2 ^ 63"

definition sp_ok :: "'p VM \<Rightarrow> bool" where
  "sp_ok vm \<longleftrightarrow>
     unat (stack_limit vm) \<le> unat (sp (cpu vm)) \<and> unat (sp (cpu vm)) \<le> unat (stack_top vm) \<and>
     8 dvd unat (sp (cpu vm))"

definition vm_ok :: "'p VM \<Rightarrow> bool" where
  "vm_ok vm \<longleftrightarrow>
     mem_ok (memory vm) \<and> stack_mapped vm \<and> stack_bounds vm \<and> sp_ok vm \<and>
     length (registers (cpu vm)) = kRegisterCount \<and> flags (cpu vm) AND NOT kFlagsMask = 0"

text \<open>What an operation may change: nothing outside the CPU, the memory, the provider and the log.\<close>

definition vm_frame :: "'p VM \<Rightarrow> 'p VM \<Rightarrow> bool" where
  "vm_frame vm vm' \<longleftrightarrow>
     quiet (memory vm) (memory vm') \<and> stack_top vm' = stack_top vm \<and>
     stack_limit vm' = stack_limit vm \<and> loaded vm' = loaded vm"

lemma vm_frame_refl [simp]: "vm_frame vm vm"
  by (simp add: vm_frame_def)

lemma vm_frame_trans: "vm_frame a b \<Longrightarrow> vm_frame b c \<Longrightarrow> vm_frame a c"
  by (auto simp: vm_frame_def dest: quiet_trans)

lemma stack_mapped_iff:
  "stack_mapped vm \<longleftrightarrow>
     (\<exists>(nm, b, sz, pm) \<in> set (mem_layout (memory vm)). b = stack_limit vm \<and>
        unat b + unat sz = unat (stack_top vm) \<and>
        hasPermission pm Perm_Read \<and> hasPermission pm Perm_Write)"
  by (auto simp: stack_mapped_def mem_layout_def region_layout_def region_end_def)

lemma frame_keeps:
  assumes "vm_frame vm vm'"
  shows "stack_mapped vm' = stack_mapped vm" and "stack_bounds vm' = stack_bounds vm"
    and "mem_ok (memory vm') = mem_ok (memory vm)"
  using assms by (auto simp: vm_frame_def stack_mapped_iff stack_bounds_def quiet_def
      dest: mem_ok_layout)

lemma vm_ok_frame:
  "vm_ok vm \<Longrightarrow> vm_frame vm vm' \<Longrightarrow> sp_ok vm' \<Longrightarrow>
   length (registers (cpu vm')) = kRegisterCount \<Longrightarrow> flags (cpu vm') AND NOT kFlagsMask = 0 \<Longrightarrow>
   vm_ok vm'"
  by (simp add: vm_ok_def frame_keeps)

subsection \<open>The stack\<close>

lemma stack_access:
  assumes "vm_ok vm" and "unat (stack_limit vm) \<le> unat a" and "unat a + 8 \<le> unat (stack_top vm)"
    and "p = Perm_Read \<or> p = Perm_Write"
  shows "\<exists>i. checkAccess (memory vm) a 8 p = Inr i"
proof -
  from assms(1) obtain r where r: "r \<in> set (regions (memory vm))" "rg_base r = stack_limit vm"
    "region_end r = unat (stack_top vm)" "hasPermission (rg_permissions r) Perm_Read"
    "hasPermission (rg_permissions r) Perm_Write"
    by (auto simp: vm_ok_def stack_mapped_def)
  then obtain i where i: "i < length (regions (memory vm))" "regions (memory vm) ! i = r"
    by (metis in_set_conv_nth)
  have ok: "mem_ok (memory vm)" using assms(1) by (simp add: vm_ok_def)
  have at: "regionAt (memory vm) a = Some i"
    using assms(2,3) r i by (intro regionAt_in_access ok) simp_all
  have off: "unat (rg_size r - (a - rg_base r)) = region_end r - unat a"
    using assms(2,3) r by (simp add: unat_sub_le word_le_nat_alt region_end_def)
  have "\<not> 8 > rg_size r - (a - rg_base r)"
    using off assms(3) r by (simp add: word_less_nat_alt)
  then show ?thesis using at i r assms(4) by (auto simp: checkAccess_def)
qed

lemma push_cases:
  assumes "vm_ok vm"
  shows "(push v addr vm :: ('e VMFault, unit) expected \<times> 'p VM) =
    (if unat (sp (cpu vm)) < unat (stack_limit vm) + 8
     then (Inl (vm_fault StackOverflow (MsgStackOverflow (sp (cpu vm)) (stack_limit vm)) addr), vm)
     else (Inr (), vm\<lparr> memory := projr (writeU64 (memory vm) (sp (cpu vm) - 8) v),
                       cpu := (cpu vm)\<lparr> sp := sp (cpu vm) - 8 \<rparr> \<rparr>)) \<and>
    (unat (stack_limit vm) + 8 \<le> unat (sp (cpu vm)) \<longrightarrow>
       (\<exists>m. writeU64 (memory vm) (sp (cpu vm) - 8) v = Inr m))"
proof -
  have sp: "unat (sp (cpu vm)) \<le> unat (stack_top vm)" and lim: "unat (stack_limit vm) < 2 ^ 63"
    using assms by (simp_all add: vm_ok_def sp_ok_def stack_bounds_def)
  have cmp: "sp (cpu vm) < stack_limit vm + 8 \<longleftrightarrow> unat (sp (cpu vm)) < unat (stack_limit vm) + 8"
    using lim by (simp add: word_less_nat_alt unat_add_no_wrap)
  show ?thesis
  proof (cases "unat (sp (cpu vm)) < unat (stack_limit vm) + 8")
    case False
    then have "unat (sp (cpu vm) - 8) = unat (sp (cpu vm)) - 8"
      by (simp add: unat_sub_le word_le_nat_alt)
    with False sp have "\<exists>i. checkAccess (memory vm) (sp (cpu vm) - 8) 8 Perm_Write = Inr i"
      by (intro stack_access assms) simp_all
    then have "\<exists>m. writeU64 (memory vm) (sp (cpu vm) - 8) v = Inr m"
      by (auto simp: writeU64_def)
    with False cmp show ?thesis by (auto simp: push_def Let_def)
  qed (simp add: push_def cmp)
qed

lemma pop_cases:
  assumes "vm_ok vm"
  shows "(pop addr vm :: ('e VMFault, u64) expected \<times> 'p VM) =
    (if sp (cpu vm) = stack_top vm
     then (Inl (vm_fault StackUnderflow (MsgStackUnderflow (sp (cpu vm)) (stack_top vm)) addr), vm)
     else (Inr (projr (readU64 (memory vm) (sp (cpu vm)))),
           vm\<lparr> cpu := (cpu vm)\<lparr> sp := sp (cpu vm) + 8 \<rparr> \<rparr>)) \<and>
    (sp (cpu vm) \<noteq> stack_top vm \<longrightarrow> (\<exists>v. readU64 (memory vm) (sp (cpu vm)) = Inr v))"
proof -
  have sp: "unat (sp (cpu vm)) \<le> unat (stack_top vm)" "8 dvd unat (sp (cpu vm))"
    "8 dvd unat (stack_top vm)" "unat (stack_limit vm) \<le> unat (sp (cpu vm))"
    using assms by (simp_all add: vm_ok_def sp_ok_def stack_bounds_def)
  have cmp: "sp (cpu vm) \<ge> stack_top vm \<longleftrightarrow> sp (cpu vm) = stack_top vm"
    using sp(1) by (auto simp: word_le_nat_alt word_unat_eq_iff)
  show ?thesis
  proof (cases "sp (cpu vm) = stack_top vm")
    case False
    then have "unat (sp (cpu vm)) < unat (stack_top vm)" using sp(1) by (simp add: word_unat_eq_iff)
    then have "unat (sp (cpu vm)) + 8 \<le> unat (stack_top vm)" using sp(2,3) by (auto elim!: dvdE)
    then have "\<exists>i. checkAccess (memory vm) (sp (cpu vm)) 8 Perm_Read = Inr i"
      using sp(4) by (intro stack_access assms) simp_all
    then have "\<exists>v. readU64 (memory vm) (sp (cpu vm)) = Inr v"
      by (auto simp: readU64_def Let_def)
    with False cmp show ?thesis by (auto simp: pop_def)
  qed (simp add: pop_def)
qed

lemma writeU64_quiet: "mem_ok m \<Longrightarrow> writeU64 m a v = Inr m' \<Longrightarrow> quiet m m'"
  unfolding writeU64_writeBytes by (rule write_is_quiet) simp_all

lemma push_keeps:
  fixes r :: "('e VMFault, unit) expected"
  assumes "vm_ok vm" and "push v addr vm = (r, vm')"
  shows "vm_ok vm' \<and> vm_frame vm vm' \<and> registers (cpu vm') = registers (cpu vm)"
proof (cases "unat (sp (cpu vm)) < unat (stack_limit vm) + 8")
  case True
  with push_cases [where 'e = 'e, OF assms(1), of v addr] assms show ?thesis by auto
next
  case False
  with push_cases [where 'e = 'e, OF assms(1), of v addr] assms(2) obtain m
    where m: "writeU64 (memory vm) (sp (cpu vm) - 8) v = Inr m"
      and vm': "vm' = vm\<lparr> memory := m, cpu := (cpu vm)\<lparr> sp := sp (cpu vm) - 8 \<rparr> \<rparr>"
    by (metis Pair_inject not_less projr_def sum.sel(2))
  have frame: "vm_frame vm vm'"
    using writeU64_quiet [OF _ m] assms(1) by (simp add: vm_frame_def vm' vm_ok_def)
  have "unat (sp (cpu vm) - 8) = unat (sp (cpu vm)) - 8"
    using False by (simp add: unat_sub_le word_le_nat_alt)
  then have "sp_ok vm'"
    using False assms(1) unfolding vm_ok_def sp_ok_def vm' by simp linarith
  with vm_ok_frame [OF assms(1) frame] frame assms(1) show ?thesis by (simp add: vm_ok_def vm')
qed

lemma pop_keeps:
  fixes r :: "('e VMFault, u64) expected"
  assumes "vm_ok vm" and "pop addr vm = (r, vm')"
  shows "vm_ok vm' \<and> vm_frame vm vm' \<and> registers (cpu vm') = registers (cpu vm)"
proof (cases "sp (cpu vm) = stack_top vm")
  case True
  with pop_cases [where 'e = 'e, OF assms(1), of addr] assms show ?thesis by auto
next
  case False
  with pop_cases [where 'e = 'e, OF assms(1), of addr] assms(2)
  have vm': "vm' = vm\<lparr> cpu := (cpu vm)\<lparr> sp := sp (cpu vm) + 8 \<rparr> \<rparr>" by auto
  have "unat (sp (cpu vm)) < unat (stack_top vm)" "8 dvd unat (sp (cpu vm))" "8 dvd unat (stack_top vm)"
    using False assms(1) by (auto simp: vm_ok_def sp_ok_def stack_bounds_def word_unat_eq_iff)
  then have le: "unat (sp (cpu vm)) + 8 \<le> unat (stack_top vm)" by (auto elim!: dvdE)
  then have "unat (sp (cpu vm) + 8) = unat (sp (cpu vm)) + 8"
    using unat_u64_less [of "stack_top vm"] by (subst unat_add_no_wrap) simp_all
  then have "sp_ok vm'"
    using le assms(1) by (simp add: vm_ok_def sp_ok_def vm')
  with vm_ok_frame [OF assms(1), of vm'] assms(1) show ?thesis by (simp add: vm_ok_def vm' vm_frame_def)
qed

lemma set_register_keeps:
  "vm_ok vm \<Longrightarrow> vm_ok (set_register i v vm) \<and> vm_frame vm (set_register i v vm)"
  by (simp add: set_register_def vm_ok_def vm_frame_def stack_mapped_def stack_bounds_def sp_ok_def)

lemma set_pc_keeps: "vm_ok vm \<Longrightarrow> vm_ok (set_pc v vm) \<and> vm_frame vm (set_pc v vm)"
  by (simp add: set_pc_def vm_ok_def vm_frame_def stack_mapped_def stack_bounds_def sp_ok_def)

lemma set_flags_keeps:
  "vm_ok vm \<Longrightarrow>
   vm_ok (vm\<lparr> cpu := (cpu vm)\<lparr> flags := f AND kFlagsMask \<rparr> \<rparr>) \<and>
   vm_frame vm (vm\<lparr> cpu := (cpu vm)\<lparr> flags := f AND kFlagsMask \<rparr> \<rparr>)"
  by (simp add: vm_ok_def vm_frame_def stack_mapped_def stack_bounds_def sp_ok_def and.assoc)

lemma exec_alu_keeps:
  assumes "vm_ok vm" and "exec_alu opcode d s addr vm = (r, vm')"
  shows "vm_ok vm' \<and> vm_frame vm vm'"
proof -
  have "vm_ok (set_register d v vm) \<and> vm_frame vm (set_register d v vm)" for v
    by (rule set_register_keeps [OF assms(1)])
  then show ?thesis
    using assms set_flags_keeps vm_frame_trans
    by (auto simp: exec_alu_def Let_def split: sum.splits AluError.splits if_splits) blast+
qed

lemma exec_rest_keeps:
  assumes "vm_ok vm" and "exec_rest opcode d s imm addr vm = (r, vm')"
  shows "vm_ok vm' \<and> vm_frame vm vm'"
  using assms set_pc_keeps [OF assms(1)]
  by (auto simp: exec_rest_def split: if_splits dest: exec_alu_keeps)

lemma halt_keeps:
  "vm_ok vm \<Longrightarrow>
   vm_ok (vm\<lparr> cpu := (cpu vm)\<lparr> halted := b \<rparr> \<rparr>) \<and> vm_frame vm (vm\<lparr> cpu := (cpu vm)\<lparr> halted := b \<rparr> \<rparr>)"
  by (simp add: vm_ok_def vm_frame_def stack_mapped_def stack_bounds_def sp_ok_def)

text \<open>One equation per kind of instruction, for instructions with architectural registers.\<close>

definition regs_valid :: "Instruction \<Rightarrow> bool" where
  "regs_valid i \<longleftrightarrow> registerIndex (i_dst i) < kRegisterCount \<and> registerIndex (i_src i) < kRegisterCount"

definition special_opcodes :: "Opcode set" where
  "special_opcodes = {OP_NOP, OP_HALT, OP_SYSCALL, OP_MOV, OP_MOVI, OP_LEA, OP_LOAD, OP_STORE,
     OP_PUSH, OP_POP, OP_CALL, OP_RET}"

lemma regs_valid_not:
  "regs_valid i \<Longrightarrow>
   \<not> (registerIndex (i_dst i) \<ge> kRegisterCount \<or> registerIndex (i_src i) \<ge> kRegisterCount)"
  by (simp add: regs_valid_def)

lemma execute_simps:
  assumes "regs_valid i"
  defines "d \<equiv> registerIndex (i_dst i)" and "s \<equiv> registerIndex (i_src i)"
  shows
  "i_opcode i = OP_NOP \<Longrightarrow> execute invoke i addr vm = (Inr (), vm)"
  "i_opcode i = OP_HALT \<Longrightarrow> execute invoke i addr vm = (Inr (), vm\<lparr> cpu := (cpu vm)\<lparr> halted := True \<rparr> \<rparr>)"
  "i_opcode i = OP_SYSCALL \<Longrightarrow> execute invoke i addr vm = exec_syscall invoke (i_imm i) addr vm"
  "i_opcode i = OP_MOV \<Longrightarrow> execute invoke i addr vm = (Inr (), set_register d (registers (cpu vm) ! s) vm)"
  "i_opcode i = OP_MOVI \<Longrightarrow> execute invoke i addr vm = (Inr (), set_register d (i_imm i) vm)"
  "i_opcode i = OP_LEA \<Longrightarrow> execute invoke i addr vm = (Inr (), set_register d (i_imm i) vm)"
  "i_opcode i = OP_LOAD \<Longrightarrow> execute invoke i addr vm =
     (case readU64 (memory vm) (registers (cpu vm) ! s + i_imm i) of
        Inl e \<Rightarrow> (Inl (faultFromMemory vm e addr ''LOAD''), vm)
      | Inr v \<Rightarrow> (Inr (), set_register d v vm))"
  "i_opcode i = OP_STORE \<Longrightarrow> execute invoke i addr vm =
     (case writeU64 (memory vm) (registers (cpu vm) ! d + i_imm i) (registers (cpu vm) ! s) of
        Inl e \<Rightarrow> (Inl (faultFromMemory vm e addr ''STORE''), vm)
      | Inr m \<Rightarrow> (Inr (), vm\<lparr> memory := m \<rparr>))"
  "i_opcode i = OP_PUSH \<Longrightarrow> execute invoke i addr vm = push (registers (cpu vm) ! d) addr vm"
  "i_opcode i = OP_POP \<Longrightarrow> execute invoke i addr vm =
     (case pop addr vm of (Inl e, vm) \<Rightarrow> (Inl e, vm) | (Inr v, vm) \<Rightarrow> (Inr (), set_register d v vm))"
  "i_opcode i = OP_CALL \<Longrightarrow> execute invoke i addr vm =
     (case push (pc (cpu vm)) addr vm of
        (Inl e, vm) \<Rightarrow> (Inl e, vm) | (Inr _, vm) \<Rightarrow> (Inr (), set_pc (branchTarget addr (i_imm i)) vm))"
  "i_opcode i = OP_RET \<Longrightarrow> execute invoke i addr vm =
     (case pop addr vm of (Inl e, vm) \<Rightarrow> (Inl e, vm) | (Inr v, vm) \<Rightarrow> (Inr (), set_pc v vm))"
  "i_opcode i \<notin> special_opcodes \<Longrightarrow>
     execute invoke i addr vm = exec_rest (i_opcode i) d s (i_imm i) addr vm"
  unfolding execute_def Let_def d_def s_def if_not_P [OF regs_valid_not [OF assms(1)]]
  by (simp_all only: Opcode.case) (cases "i_opcode i"; simp add: special_opcodes_def)

lemma execute_bad_register:
  "\<not> regs_valid i \<Longrightarrow> execute invoke i addr vm =
     (Inl (vm_fault IllegalInstruction
             (MsgRegisterIndex (registerIndex (i_dst i)) (registerIndex (i_src i))) addr), vm)"
  by (auto simp: execute_def Let_def regs_valid_def not_less)

lemma step_cases:
  obtains res where "step invoke vm = (res, vm)"
  | word decoded where "loaded vm" "\<not> halted (cpu vm)" "8 dvd unat (pc (cpu vm))"
      "fetchInstruction (memory vm) (pc (cpu vm)) = Inr word" "decode word = Inr decoded"
      "step invoke vm = execute invoke decoded (pc (cpu vm)) (advance decoded vm)"
proof (cases "loaded vm \<and> \<not> halted (cpu vm) \<and> pc (cpu vm) mod of_nat kInstructionSize = 0")
  case True
  have dvd: "8 dvd unat (pc (cpu vm))"
    using True by (simp add: kInstructionSize_def word_unat_eq_iff unat_mod dvd_eq_mod_eq_0)
  show ?thesis
  proof (cases "fetchInstruction (memory vm) (pc (cpu vm))")
    case (Inl e)
    with True show ?thesis by (intro that(1)) (simp add: step_def Let_def)
  next
    case f: (Inr word)
    show ?thesis
    proof (cases "decode word")
      case (Inl e)
      with True f show ?thesis by (intro that(1)) (simp add: step_def Let_def)
    next
      case (Inr decoded)
      with True f dvd show ?thesis by (intro that(2)) (simp_all add: step_def Let_def)
    qed
  qed
next
  case False
  then have "\<exists>res. step invoke vm = (res, vm)"
    unfolding step_def Let_def
    by (cases "loaded vm"; cases "halted (cpu vm)") (simp_all only: if_True if_False simp_thms, blast+)
  with that(1) show ?thesis by blast
qed

lemma advance_keeps: "vm_ok vm \<Longrightarrow> vm_ok (advance decoded vm) \<and> vm_frame vm (advance decoded vm)"
  by (simp add: advance_def vm_ok_def vm_frame_def stack_mapped_def stack_bounds_def sp_ok_def)

text \<open>
  The abstract account of a run: at most \<open>n\<close> steps, stopping early when the machine has halted or
  a step faulted.  \<open>report\<close> is how \<open>run\<close> describes where such a drive ended.
\<close>

primrec drive ::
  "('e, 'p) provider \<Rightarrow> nat \<Rightarrow> 'p VM \<Rightarrow> 'e VMFault option \<times> 'p VM" where
  "drive invoke 0 vm = (None, vm)"
| "drive invoke (Suc n) vm =
     (if halted (cpu vm) then (None, vm)
      else case step invoke vm of
             (Inl e, vm) \<Rightarrow> (Some e, vm)
           | (Inr _, vm) \<Rightarrow> drive invoke n vm)"

definition report :: "u64 \<Rightarrow> 'e VMFault option \<times> 'p VM \<Rightarrow> 'e RunResult \<times> 'p VM" where
  "report budget out =
     (case out of
        (Some e, vm) \<Rightarrow> (stopped (vf_error e) (vf_message e) (vf_pc e) vm, vm)
      | (None, vm) \<Rightarrow>
          if halted (cpu vm) then
            (\<lparr> rr_error = VM_None, rr_message = MsgNone, rr_exit_code = exit_code (cpu vm),
               rr_instructions = instruction_count (cpu vm), rr_pc = pc (cpu vm) \<rparr>, vm)
          else (stopped BudgetExhausted (MsgBudget budget) (pc (cpu vm)) vm, vm))"

lemma run_loop_drive:
  "executed \<le> budget \<Longrightarrow>
   run_loop invoke budget executed vm
     = report budget (drive invoke (unat budget - unat executed) vm)"
proof (induction invoke budget executed vm rule: run_loop.induct)
  case (1 invoke budget executed vm)
  show ?case
  proof (cases "halted (cpu vm)")
    case True
    then show ?thesis
      by (cases "unat budget - unat executed") (simp_all add: run_loop.simps report_def)
  next
    case live: False
    show ?thesis
    proof (cases "executed \<ge> budget")
      case True
      with 1(2) live show ?thesis by (simp add: run_loop.simps report_def)
    next
      case False
      have "unat executed < unat budget" using False by (simp add: word_le_nat_alt)
      moreover note word_increment_measure(2) [OF False]
      ultimately have n: "unat budget - unat executed = Suc (unat budget - unat (executed + 1))"
        and le: "executed + 1 \<le> budget" by (simp_all add: word_le_nat_alt)
      obtain r w where st: "step invoke vm = (r, w)" by fastforce
      show ?thesis
      proof (cases r)
        case (Inl e)
        with st live False show ?thesis by (simp add: run_loop.simps [of _ _ _ vm] report_def n)
      next
        case (Inr u)
        have "run_loop invoke budget (executed + 1) w
            = report budget (drive invoke (unat budget - unat (executed + 1)) w)"
          using 1(1) [OF live False st [symmetric] Inr le] by simp
        with st live False Inr show ?thesis by (simp add: run_loop.simps [of _ _ _ vm] n)
      qed
    qed
  qed
qed

lemma snd_report [simp]: "snd (report budget out) = snd out"
  by (auto simp: report_def split: prod.splits option.splits)

lemma run_is_drive:
  "loaded vm \<Longrightarrow> run invoke budget vm = report budget (drive invoke (unat budget) vm)"
  by (simp add: run_def run_loop_drive)

lemma drive_add:
  "drive invoke (m + n) vm =
     (case drive invoke m vm of
        (Some e, vm) \<Rightarrow> (Some e, vm)
      | (None, vm) \<Rightarrow> drive invoke n vm)"
proof (induction m arbitrary: vm)
  case (Suc m)
  have "drive invoke n vm = (None, vm)" if "halted (cpu vm)" using that by (cases n) simp_all
  with Suc show ?case by (auto split: prod.splits sum.splits)
qed simp

context syscall_provider
begin

lemma exec_syscall_keeps:
  assumes "vm_ok vm" and "exec_syscall invoke imm addr vm = (r, vm')"
  shows "vm_ok vm' \<and> vm_frame vm vm'"
proof -
  let ?c = "\<lparr> sc_registers = registers (cpu vm), sc_memory = memory vm, sc_halt = False, sc_exit_code = 0 \<rparr>"
  obtain res c p where inv: "invoke imm ?c (provider vm) = (res, c, p)"
    by (metis prod_cases3)
  have q: "quiet (memory vm) (sc_memory c)"
    using keeps_memory [OF inv] assms(1) by (simp add: vm_ok_def)
  have l: "length (sc_registers c) = length (registers (cpu vm))"
    using keeps_registers [OF inv] by simp
  have "memory vm' = sc_memory c" "registers (cpu vm') = sc_registers c"
    "stack_top vm' = stack_top vm" "stack_limit vm' = stack_limit vm" "loaded vm' = loaded vm"
    "sp (cpu vm') = sp (cpu vm)" "flags (cpu vm') = flags (cpu vm)"
    using assms(2) by (auto simp: exec_syscall_def inv Let_def split: sum.splits if_splits)
  then show ?thesis
    using q l assms(1) vm_ok_frame [OF assms(1), of vm'] by (simp add: vm_frame_def vm_ok_def sp_ok_def)
qed

lemma execute_keeps:
  assumes "vm_ok vm" and "execute invoke i addr vm = (r, vm')"
  shows "vm_ok vm' \<and> vm_frame vm vm'"
proof -
  have ok: "mem_ok (memory vm)" using assms(1) by (simp add: vm_ok_def)
  have store: "vm_ok (vm\<lparr> memory := m \<rparr>) \<and> vm_frame vm (vm\<lparr> memory := m \<rparr>)"
    if "writeU64 (memory vm) a v = Inr m" for a v m
  proof -
    have f: "vm_frame vm (vm\<lparr> memory := m \<rparr>)"
      using writeU64_quiet [OF ok that] by (simp add: vm_frame_def)
    with vm_ok_frame [OF assms(1) f] assms(1) show ?thesis by (simp add: vm_ok_def sp_ok_def)
  qed
  have then_register: "vm_ok (set_register d v w) \<and> vm_frame vm (set_register d v w)"
    if "vm_ok w \<and> vm_frame vm w" for d v w
    using that set_register_keeps vm_frame_trans by blast
  have then_pc: "vm_ok (set_pc v w) \<and> vm_frame vm (set_pc v w)"
    if "vm_ok w \<and> vm_frame vm w" for v w
    using that set_pc_keeps vm_frame_trans by blast
  have same: "vm_ok vm \<and> vm_frame vm vm" using assms(1) by simp
  show ?thesis
  proof (cases "regs_valid i")
    case False
    then show ?thesis using assms same by (simp add: execute_bad_register)
  next
    case True
    note eqs = execute_simps [OF True]
    show ?thesis
    proof (cases "i_opcode i \<in> special_opcodes")
      case False
      with assms(2) eqs(13) exec_rest_keeps [OF assms(1)] show ?thesis by metis
    next
      case True
      then show ?thesis
        using assms(2) same store then_register then_pc
        unfolding special_opcodes_def
        by (elim insertE emptyE)
          (auto simp: eqs split: prod.splits sum.splits
            dest!: push_keeps [OF assms(1)] pop_keeps [OF assms(1)] exec_syscall_keeps [OF assms(1)]
            intro: halt_keeps [OF assms(1), THEN conjunct1] halt_keeps [OF assms(1), THEN conjunct2])
    qed
  qed
qed

lemma step_keeps:
  assumes "vm_ok vm" and "step invoke vm = (r, vm')"
  shows "vm_ok vm' \<and> vm_frame vm vm'"
proof (cases rule: step_cases [of invoke vm])
  case (1 res)
  with assms show ?thesis by simp
next
  case (2 word decoded)
  have "vm_ok (advance decoded vm) \<and> vm_frame vm (advance decoded vm)"
    using assms(1) by (rule advance_keeps)
  with execute_keeps [of "advance decoded vm"] assms(2) 2 show ?thesis by (metis vm_frame_trans)
qed

lemma drive_keeps:
  "vm_ok vm \<Longrightarrow> drive invoke n vm = (f, vm') \<Longrightarrow> vm_ok vm' \<and> vm_frame vm vm'"
proof (induction n arbitrary: vm)
  case (Suc n)
  show ?case
  proof (cases "halted (cpu vm)")
    case False
    obtain r w where st: "step invoke vm = (r, w)" by fastforce
    from step_keeps [OF Suc.prems(1) st] Suc.IH [of w] Suc.prems(2) False st vm_frame_trans
    show ?thesis by (auto split: sum.splits)
  qed (use Suc.prems in simp)
qed simp

lemma run_keeps:
  assumes "vm_ok vm" and "run invoke budget vm = (rr, vm')"
  shows "vm_ok vm' \<and> vm_frame vm vm'"
proof (cases "loaded vm")
  case True
  have "snd (run invoke budget vm) = snd (drive invoke (unat budget) vm)"
    by (simp add: run_is_drive [OF True])
  with drive_keeps [OF assms(1), of "unat budget"] assms(2) show ?thesis by (metis prod.collapse snd_conv)
qed (use assms in \<open>auto simp: run_def\<close>)

end

end
