(* ===== verification/Machine_Safety.thy ===== *)
theory Machine_Safety
  imports Machine
begin

text \<open>
  What holds of every loaded program: the loader establishes the machine's invariant, a run keeps
  it, and no run changes a byte of an executable segment.
\<close>

subsection \<open>Mapping the segments of an image\<close>

definition segment_region :: "Segment \<Rightarrow> Region" where
  "segment_region s = new_region (sg_name s) (sg_virtual_address s) (sg_virtual_size s)
     (permissionsOf (sg_flags s)) (sg_data s)"

lemma segment_region_simps [simp]:
  "rg_base (segment_region s) = sg_virtual_address s"
  "rg_size (segment_region s) = sg_virtual_size s"
  "rg_permissions (segment_region s) = permissionsOf (sg_flags s)"
  "region_end (segment_region s) = segment_end s"
  by (simp_all add: segment_region_def segment_end_def)

lemma segment_region_ok: "segment_ok s \<Longrightarrow> region_ok (segment_region s)"
  by (simp add: segment_ok_def region_ok_def)

lemma addRegion_iff:
  assumes "mem_ok m"
  shows "fst (addRegion m name base sz perms initial) \<longleftrightarrow>
    0 < unat sz \<and> unat base + unat sz < 2 ^ 64 \<and>
    (\<forall>r \<in> set (regions m). region_end r \<le> unat base \<or> unat base + unat sz \<le> unat (rg_base r))"
proof -
  have "overlaps r base sz \<longleftrightarrow> unat base < region_end r \<and> unat (rg_base r) < unat base + unat sz"
    if "r \<in> set (regions m)" "\<not> base > 0xFFFFFFFFFFFFFFFF - sz" for r
    using that assms by (intro overlaps_iff) (simp_all add: mem_ok_def regions_ok_def)
  then show ?thesis
    unfolding addRegion_cases no_wrap_iff by (auto simp: not_less not_le)
qed

lemma addRegion_regions:
  "addRegion m name base sz perms initial = (True, m') \<Longrightarrow>
   regions m' = regions m @ [new_region name base sz perms initial]"
  by (auto simp: addRegion_cases split: if_splits)

lemma map_segments_regions:
  "map_segments m ss = (Inr (), m') \<Longrightarrow> regions m' = regions m @ map segment_region ss"
  by (induction ss arbitrary: m)
    (auto simp: segment_region_def dest: addRegion_regions split: prod.splits bool.splits)

lemma map_segments_succeeds:
  assumes "mem_ok m" and "\<forall>s \<in> set ss. segment_ok s" and "sorted_wrt disjoint_segments ss"
    and "\<forall>r \<in> set (regions m). \<forall>s \<in> set ss. disjoint_regions r (segment_region s)"
  shows "\<exists>m'. map_segments m ss = (Inr (), m') \<and> mem_ok m'"
  using assms
proof (induction ss arbitrary: m)
  case (Cons s ss)
  let ?add = "addRegion m (sg_name s) (sg_virtual_address s) (sg_virtual_size s)
    (permissionsOf (sg_flags s)) (sg_data s)"
  have "fst ?add"
    using Cons.prems by (simp add: addRegion_iff segment_ok_def segment_end_def disjoint_regions_def)
  then obtain m1 where m1: "?add = (True, m1)" by (metis prod.collapse)
  have ok1: "mem_ok m1" by (rule addRegion_ok(1) [OF Cons.prems(1) m1])
  have "\<forall>r \<in> set (regions m1). \<forall>t \<in> set ss. disjoint_regions r (segment_region t)"
    using Cons.prems(3,4) addRegion_regions [OF m1]
    by (auto simp: disjoint_regions_def disjoint_segments_def segment_region_def [symmetric])
  with Cons.IH [OF ok1] Cons.prems m1 show ?case by simp
qed simp

definition clear_of :: "Segment list \<Rightarrow> nat \<Rightarrow> nat \<Rightarrow> bool" where
  "clear_of ss lo hi \<longleftrightarrow> (\<forall>s \<in> set ss. segment_end s \<le> lo \<or> hi \<le> unat (sg_virtual_address s))"

lemma mem_ok_reset [simp]: "mem_ok (mem_reset m)"
  by (simp add: mem_reset_def mem_ok_def regions_ok_def)

lemma regions_reset [simp]: "regions (mem_reset m) = []"
  by (simp add: mem_reset_def)

lemma load_cases:
  assumes "validate e = Inr ()"
  shows "\<exists>m1. map_segments (mem_reset (memory vm)) (ex_segments e) = (Inr (), m1) \<and> mem_ok m1 \<and>
    regions m1 = map segment_region (ex_segments e)"
proof -
  have "\<forall>s \<in> set (ex_segments e). segment_ok s" "sorted_wrt disjoint_segments (ex_segments e)"
    using assms by (simp_all add: validate_iff executable_ok_def)
  then have "\<exists>m'. map_segments (mem_reset (memory vm)) (ex_segments e) = (Inr (), m') \<and> mem_ok m'"
    by (intro map_segments_succeeds) simp_all
  then show ?thesis using map_segments_regions by fastforce
qed

definition stack_region :: Region where
  "stack_region = new_region ''stack'' (kStackTop - kStackSize) kStackSize (Perm_Read OR Perm_Write) []"

definition heap_region :: Region where
  "heap_region = new_region ''heap'' kHeapBase kHeapSize (Perm_Read OR Perm_Write) []"

lemma layout_numbers:
  "unat (kStackTop - kStackSize) = 0x7FEF0000" "unat kStackSize = 0x100000"
  "unat kStackTop = 0x7FFF0000" "unat kHeapBase = 0x10000000" "unat kHeapSize = 0x100000"
  by (simp_all add: vm_consts push_bit_eq_mult)

lemma load_spec:
  "(\<exists>vm'. load e vm = (Inr (), vm')) \<longleftrightarrow>
     executable_ok e \<and> clear_of (ex_segments e) 0x7FEF0000 0x7FFF0000 \<and>
     clear_of (ex_segments e) 0x10000000 0x10100000"
proof (cases "validate e")
  case (Inl x)
  then show ?thesis using validate_iff [of e] by (auto simp: load_def)
next
  case (Inr u)
  then have v: "validate e = Inr ()" by simp
  from load_cases [OF v] obtain m1 where
    m1: "map_segments (mem_reset (memory vm)) (ex_segments e) = (Inr (), m1)" "mem_ok m1"
      "regions m1 = map segment_region (ex_segments e)" by blast
  obtain ok2 m2 where m2: "addRegion m1 ''stack'' (kStackTop - kStackSize) kStackSize
      (Perm_Read OR Perm_Write) [] = (ok2, m2)" by fastforce
  have s: "ok2 \<longleftrightarrow> clear_of (ex_segments e) 0x7FEF0000 0x7FFF0000"
    using addRegion_iff [OF m1(2), of "''stack''" "kStackTop - kStackSize" kStackSize "Perm_Read OR Perm_Write" "[]"]
    by (simp add: m2 layout_numbers m1(3) clear_of_def)
  show ?thesis
  proof (cases ok2)
    case False
    with s v m1(1) m2 show ?thesis by (auto simp: load_def)
  next
    case True
    obtain ok3 m3 where m3: "addRegion m2 ''heap'' kHeapBase kHeapSize
        (Perm_Read OR Perm_Write) [] = (ok3, m3)" by fastforce
    have r2: "regions m2 = regions m1 @ [stack_region]"
      using addRegion_regions m2 True by (simp add: stack_region_def)
    have h: "ok3 \<longleftrightarrow> clear_of (ex_segments e) 0x10000000 0x10100000"
      using addRegion_iff [OF addRegion_ok(1) [OF m1(2)], of "''stack''" "kStackTop - kStackSize" kStackSize
          "Perm_Read OR Perm_Write" "[]" m2 "''heap''" kHeapBase kHeapSize "Perm_Read OR Perm_Write" "[]"]
      by (simp add: m2 m3 True r2 layout_numbers m1(3) clear_of_def stack_region_def)
    show ?thesis
      using True s h v validate_iff [of e] m1(1) m2 m3 by (cases ok3) (auto simp: load_def)
  qed
qed

lemma load_result:
  assumes "load e vm = (Inr (), vm')"
  shows "executable_ok e" and "mem_ok (memory vm')"
    and "regions (memory vm') = map segment_region (ex_segments e) @ [stack_region, heap_region]"
    and "cpu vm' = initial_cpu\<lparr> pc := ex_entry_point e, sp := kStackTop \<rparr>" and "loaded vm'"
    and "stack_top vm' = kStackTop" and "stack_limit vm' = kStackTop - kStackSize"
    and "provider vm' = provider vm" and "trace vm' = trace vm"
proof -
  from assms have v: "validate e = Inr ()"
    by (auto simp: load_def split: sum.splits)
  then show "executable_ok e" by (simp add: validate_iff)
  from load_cases [OF v] obtain m1 where
    m1: "map_segments (mem_reset (memory vm)) (ex_segments e) = (Inr (), m1)" "mem_ok m1"
      "regions m1 = map segment_region (ex_segments e)" by blast
  from assms v m1(1) obtain m2 m3 where
    m2: "addRegion m1 ''stack'' (kStackTop - kStackSize) kStackSize (Perm_Read OR Perm_Write) [] = (True, m2)"
    and m3: "addRegion m2 ''heap'' kHeapBase kHeapSize (Perm_Read OR Perm_Write) [] = (True, m3)"
    and vm': "vm' = vm\<lparr> memory := m3, stack_top := kStackTop, stack_limit := kStackTop - kStackSize,
                       cpu := initial_cpu\<lparr> pc := ex_entry_point e, sp := kStackTop \<rparr>, loaded := True \<rparr>"
    by (auto simp: load_def split: prod.splits bool.splits)
  show "mem_ok (memory vm')"
    using addRegion_ok(1) [OF addRegion_ok(1) [OF m1(2) m2] m3] by (simp add: vm')
  show "regions (memory vm') = map segment_region (ex_segments e) @ [stack_region, heap_region]"
    using addRegion_regions [OF m2] addRegion_regions [OF m3]
    by (simp add: vm' m1(3) stack_region_def heap_region_def)
  show "cpu vm' = initial_cpu\<lparr> pc := ex_entry_point e, sp := kStackTop \<rparr>" "loaded vm'"
    "stack_top vm' = kStackTop" "stack_limit vm' = kStackTop - kStackSize"
    "provider vm' = provider vm" "trace vm' = trace vm" by (simp_all add: vm')
qed

lemma load_establishes: "load e vm = (Inr (), vm') \<Longrightarrow> vm_ok vm'"
proof -
  assume l: "load e vm = (Inr (), vm')"
  note r = load_result [OF l]
  have "stack_mapped vm'"
    unfolding stack_mapped_def r(3)
    by (rule bexI [of _ stack_region])
      (simp_all add: stack_region_def r layout_numbers hasPermission_def perm_consts)
  then show ?thesis
    using r(2) by (simp add: vm_ok_def stack_bounds_def sp_ok_def r layout_numbers initial_cpu_def)
qed

subsection \<open>Code never changes\<close>

lemma exec_not_writable:
  assumes "\<not> (hasFlag f SF_Write \<and> hasFlag f SF_Exec)" and "hasFlag f SF_Exec"
  shows "\<not> hasPermission (permissionsOf f) Perm_Write"
  using assms
  by (simp add: permissionsOf_def hasPermission_def perm_consts hasFlag_def segment_flag_consts Let_def)

text \<open>The byte the loader puts at offset \<open>k\<close> of a segment.\<close>

definition segment_byte :: "Segment \<Rightarrow> nat \<Rightarrow> u8" where
  "segment_byte s k = (if k < length (sg_data s) then sg_data s ! k else 0)"

lemma load_segment_at:
  assumes "load e vm = (Inr (), vm')" and "s \<in> set (ex_segments e)" and "k < unat (sg_virtual_size s)"
  shows "mem_at (memory vm') (sg_virtual_address s + of_nat k) = Some (segment_byte s k)"
    and "perm_at (memory vm') (sg_virtual_address s + of_nat k) = Some (permissionsOf (sg_flags s))"
proof -
  note r = load_result [OF assms(1)]
  let ?a = "sg_virtual_address s + of_nat k"
  have ok: "segment_ok s" using r(1) assms(2) by (simp add: executable_ok_def)
  then have a: "unat ?a = unat (sg_virtual_address s) + k"
    using assms(3) by (subst unat_add_no_wrap) (simp_all add: segment_ok_def segment_end_def unat_of_nat_u64)
  obtain i where i: "i < length (ex_segments e)" "ex_segments e ! i = s"
    using assms(2) by (metis in_set_conv_nth)
  then have ri: "regions (memory vm') ! i = segment_region s" "i < length (regions (memory vm'))"
    by (simp_all add: r(3) nth_append)
  have at: "regionAt (memory vm') ?a = Some i"
    using assms(3) a ri by (intro regionAt_in_access r(2)) (simp_all add: segment_end_def)
  have off: "unat (?a - sg_virtual_address s) = k"
    using assms(3) unat_u64_less [of "sg_virtual_size s"] by (simp add: unat_of_nat_u64)
  show "mem_at (memory vm') ?a = Some (segment_byte s k)"
    using at ri off assms(3)
    by (simp add: mem_at_def segment_byte_def) (simp add: segment_region_def new_region_def)
  show "perm_at (memory vm') ?a = Some (permissionsOf (sg_flags s))"
    using at ri by (simp add: perm_at_def)
qed

text \<open>
  C1: whatever a program does, and however long it runs, every byte of every executable segment of
  the loaded image still has the value the image gave it.
\<close>

theorem code_is_immutable:
  assumes "load e vm0 = (Inr (), vm)" and "run default_invoke budget vm = (rr, vm')"
    and "s \<in> set (ex_segments e)" and "hasFlag (sg_flags s) SF_Exec" and "k < unat (sg_virtual_size s)"
  shows "mem_at (memory vm') (sg_virtual_address s + of_nat k) = Some (segment_byte s k) \<and>
    perm_at (memory vm') (sg_virtual_address s + of_nat k) = Some (permissionsOf (sg_flags s)) \<and>
    \<not> hasPermission (permissionsOf (sg_flags s)) Perm_Write"
proof -
  let ?a = "sg_virtual_address s + of_nat k"
  have "vm_frame vm vm'"
    using default_provider.run_keeps [OF load_establishes [OF assms(1)] assms(2)] by simp
  then have q: "quiet (memory vm) (memory vm')" by (simp add: vm_frame_def)
  have "segment_ok s" using load_result(1) [OF assms(1)] assms(3) by (simp add: executable_ok_def)
  then have nw: "\<not> hasPermission (permissionsOf (sg_flags s)) Perm_Write"
    using assms(4) by (intro exec_not_writable) (auto simp: segment_ok_def)
  note at = load_segment_at [OF assms(1,3,5)]
  have "mem_at (memory vm') ?a = mem_at (memory vm) ?a"
    using q nw at(2) by (simp add: quiet_def unwritable_def)
  moreover have "perm_at (memory vm') ?a = perm_at (memory vm) ?a"
    using q by (intro perm_at_layout) (simp add: quiet_def)
  ultimately show ?thesis using at nw by simp
qed

definition demo_code :: "u8 list" where
  "demo_code = le_bytes 8 0x1110000000000005 @ le_bytes 8 0x1510000000000000 @
     le_bytes 8 0x1620000000000000 @ le_bytes 8 0x0100000000000000"

definition demo_text :: Segment where
  "demo_text = \<lparr> sg_type = Seg_Text, sg_flags = SF_Read OR SF_Exec, sg_name = ''.text'',
     sg_virtual_address = 0x400000, sg_virtual_size = 32, sg_data = demo_code \<rparr>"

definition demo_image :: Executable where
  "demo_image = \<lparr> ex_version = 1, ex_entry_point = 0x400000, ex_segments = [demo_text],
     ex_symbols = [], ex_debug_info = [], ex_source_files = [] \<rparr>"

definition quiet_provider :: DefaultProvider where
  "quiet_provider = \<lparr> dp_capture = True, dp_output = [], dp_error_output = [], dp_input = [],
     host_stdout = [], host_stderr = [], host_stdin = [] \<rparr>"

definition demo_machine :: "DefaultProvider VM" where
  "demo_machine = snd (load demo_image (new_machine quiet_provider))"

lemma demo_image_ok: "executable_ok demo_image"
  by (simp add: executable_ok_def demo_image_def demo_text_def kExeVersion_def segment_ok_def
      segment_end_def hasFlag_def segment_flag_consts demo_code_def)

lemma demo_load: "load demo_image (new_machine quiet_provider) = (Inr (), demo_machine)"
proof -
  have "\<exists>vm'. load demo_image (new_machine quiet_provider) = (Inr (), vm')"
    unfolding load_spec using demo_image_ok
    by (simp add: clear_of_def demo_image_def demo_text_def segment_end_def)
  then show ?thesis by (auto simp: demo_machine_def)
qed

lemma code_is_immutable_witness:
  "mem_at (memory (snd (run default_invoke 100 demo_machine))) (0x400000 + of_nat 7) = Some 0x11"
proof -
  obtain rr vm' where r: "run default_invoke 100 demo_machine = (rr, vm')" by fastforce
  have "segment_byte demo_text 7 = 0x11"
    by (simp add: segment_byte_def demo_text_def demo_code_def nth_append le_byte_def)
  with code_is_immutable [OF demo_load r, of demo_text 7] show ?thesis
    by (simp add: demo_image_def hasFlag_def r) (simp add: demo_text_def segment_flag_consts)
qed

subsection \<open>The stack\<close>

lemma stack_faults:
  assumes "vm_ok vm"
  shows "(\<forall>e vm'. (push v a vm :: ('e VMFault, unit) expected \<times> 'p VM) = (Inl e, vm') \<longrightarrow>
            vf_error e = StackOverflow \<and> vm' = vm) \<and>
         (\<forall>e vm'. (pop a vm :: ('e VMFault, u64) expected \<times> 'p VM) = (Inl e, vm') \<longrightarrow>
            vf_error e = StackUnderflow \<and> vm' = vm \<and> sp (cpu vm) = stack_top vm)"
  using push_cases [where 'e = 'e, OF assms, of v a] pop_cases [where 'e = 'e, OF assms, of a]
  by (auto simp: vm_fault_def split: if_splits)

text \<open>
  In a machine satisfying the invariant a push can only fail with a stack overflow and a pop
  only with a stack underflow, both leave the machine as it was, and a value pushed is the value
  popped, with the stack pointer back where it was.
\<close>

theorem push_pop:
  assumes "vm_ok vm"
  shows "case (push v a vm :: (SyscallMessage VMFault, unit) expected \<times> 'p VM) of
      (Inl e, vm') \<Rightarrow> vf_error e = StackOverflow \<and> vm' = vm \<and>
        unat (sp (cpu vm)) < unat (stack_limit vm) + 8
    | (Inr _, vm1) \<Rightarrow>
        \<exists>vm2. (pop b vm1 :: (SyscallMessage VMFault, u64) expected \<times> 'p VM) = (Inr v, vm2) \<and>
          cpu vm2 = cpu vm"
proof (cases "unat (sp (cpu vm)) < unat (stack_limit vm) + 8")
  case True
  with push_cases [where 'e = SyscallMessage, OF assms, of v a] show ?thesis
    by (simp add: vm_fault_def)
next
  case False
  with push_cases [where 'e = SyscallMessage, OF assms, of v a] obtain m
    where m: "writeU64 (memory vm) (sp (cpu vm) - 8) v = Inr m"
      and p: "(push v a vm :: (SyscallMessage VMFault, unit) expected \<times> 'p VM)
        = (Inr (), vm\<lparr> memory := m, cpu := (cpu vm)\<lparr> sp := sp (cpu vm) - 8 \<rparr> \<rparr>)"
    by (metis not_less projr_def sum.sel(2))
  let ?vm1 = "vm\<lparr> memory := m, cpu := (cpu vm)\<lparr> sp := sp (cpu vm) - 8 \<rparr> \<rparr>"
  have ok1: "vm_ok ?vm1" using push_keeps [OF assms p] by simp
  have "unat (sp (cpu vm) - 8) = unat (sp (cpu vm)) - 8"
    using False by (simp add: unat_sub_le word_le_nat_alt)
  moreover have "unat (sp (cpu vm)) \<le> unat (stack_top vm)"
    using assms by (simp add: vm_ok_def sp_ok_def)
  ultimately have below: "sp (cpu vm) - 8 \<noteq> stack_top vm"
    using False by (auto simp: word_unat_eq_iff)
  have "\<exists>i. checkAccess (memory vm) (sp (cpu vm) - 8) 8 Perm_Read = Inr i"
    using False \<open>unat (sp (cpu vm) - 8) = unat (sp (cpu vm)) - 8\<close>
      \<open>unat (sp (cpu vm)) \<le> unat (stack_top vm)\<close>
    by (intro stack_access assms) simp_all
  then have old: "\<exists>old. readU64 (memory vm) (sp (cpu vm) - 8) = Inr old"
    by (auto simp: readU64_def Let_def)
  have "readU64 m (sp (cpu vm) - 8) = Inr v"
    using old readU64_writeU64 [OF _ m] assms by (auto simp: vm_ok_def)
  with pop_cases [where 'e = SyscallMessage, OF ok1, of b] below p show ?thesis by simp
qed

lemma push_pop_witness:
  "\<exists>vm1 vm2. (push 7 0 demo_machine :: (SyscallMessage VMFault, unit) expected \<times> DefaultProvider VM)
      = (Inr (), vm1) \<and>
    (pop 0 vm1 :: (SyscallMessage VMFault, u64) expected \<times> DefaultProvider VM) = (Inr 7, vm2) \<and>
    cpu vm2 = cpu demo_machine"
proof -
  note r = load_result [OF demo_load]
  have "\<not> unat (sp (cpu demo_machine)) < unat (stack_limit demo_machine) + 8"
    by (simp add: r layout_numbers)
  with push_pop [OF load_establishes [OF demo_load], where v = 7 and a = 0 and b = 0] show ?thesis
    by (auto split: prod.splits sum.splits)
qed

subsection \<open>How a run can end\<close>

lemma fault_kinds [simp]:
  "vf_error (vm_fault e msg a) = e"
  "vf_error (faultFromMemory vm f a what :: 'e VMFault) \<noteq> VM_None"
  "vf_error (faultFromMemory vm f a what :: 'e VMFault) \<noteq> BudgetExhausted"
  by (auto simp: faultFromMemory_def vm_fault_def Let_def split: MemoryErrorKind.splits)

lemma push_fault:
  "push v a vm = (Inl e, vm') \<Longrightarrow> vf_error e \<notin> {VM_None, BudgetExhausted} \<and> halted (cpu vm') = halted (cpu vm)"
  by (auto simp: push_def Let_def split: if_splits sum.splits)

lemma pop_fault:
  "pop a vm = (Inl e, vm') \<Longrightarrow> vf_error e \<notin> {VM_None, BudgetExhausted} \<and> halted (cpu vm') = halted (cpu vm)"
  by (auto simp: pop_def split: if_splits sum.splits)

lemma exec_syscall_fault:
  "exec_syscall invoke imm a vm = (Inl e, vm') \<Longrightarrow>
   vf_error e \<notin> {VM_None, BudgetExhausted} \<and> halted (cpu vm') = halted (cpu vm)"
  by (auto simp: exec_syscall_def Let_def split: prod.splits sum.splits if_splits)

lemma exec_rest_fault:
  "exec_rest opcode d s imm a vm = (Inl e, vm') \<Longrightarrow>
   vf_error e \<notin> {VM_None, BudgetExhausted} \<and> halted (cpu vm') = halted (cpu vm)"
  by (auto simp: exec_rest_def exec_alu_def Let_def split: if_splits sum.splits AluError.splits)

lemma execute_fault:
  assumes "execute invoke i a vm = (Inl e, vm')"
  shows "vf_error e \<notin> {VM_None, BudgetExhausted} \<and> halted (cpu vm') = halted (cpu vm)"
proof (cases "regs_valid i")
  case False
  with assms show ?thesis by (auto simp: execute_bad_register)
next
  case True
  note eqs = execute_simps [OF True]
  show ?thesis
  proof (cases "i_opcode i \<in> special_opcodes")
    case False
    with assms eqs(13) exec_rest_fault show ?thesis by metis
  next
    case True
    then show ?thesis
      using assms unfolding special_opcodes_def
      by (elim insertE emptyE)
        (auto simp: eqs split: prod.splits sum.splits
          dest!: push_fault pop_fault exec_syscall_fault)
  qed
qed

lemma step_fault:
  assumes "step invoke vm = (Inl e, vm')"
  shows "vf_error e \<notin> {VM_None, BudgetExhausted}" and "loaded vm \<Longrightarrow> \<not> halted (cpu vm')"
proof -
  have stay: "vf_error e \<notin> {VM_None, BudgetExhausted} \<and> (loaded vm \<longrightarrow> \<not> halted (cpu vm'))"
    if "vm' = vm"
    using assms that
    by (auto simp: step_def Let_def split: if_splits sum.splits dest!: execute_fault)
  have "vf_error e \<notin> {VM_None, BudgetExhausted} \<and> (loaded vm \<longrightarrow> \<not> halted (cpu vm'))"
  proof (cases rule: step_cases [of invoke vm])
    case (1 res)
    with assms stay show ?thesis by simp
  next
    case (2 word decoded)
    with assms execute_fault show ?thesis by (fastforce simp: advance_def)
  qed
  then show "vf_error e \<notin> {VM_None, BudgetExhausted}" "loaded vm \<Longrightarrow> \<not> halted (cpu vm')" by auto
qed

lemma step_loaded_frame:
  "vm_ok vm \<Longrightarrow> step default_invoke vm = (r, vm') \<Longrightarrow> loaded vm' = loaded vm"
  by (drule (1) default_provider.step_keeps) (simp add: vm_frame_def)

lemma drive_ends:
  assumes "vm_ok vm" and "loaded vm" and "drive default_invoke n vm = (f, vm')"
  shows "case f of Some e \<Rightarrow> vf_error e \<notin> {VM_None, BudgetExhausted} \<and> \<not> halted (cpu vm') | None \<Rightarrow> True"
  using assms
proof (induction n arbitrary: vm)
  case (Suc n)
  obtain r w where st: "step default_invoke vm = (r, w)" by fastforce
  note k = default_provider.step_keeps [OF Suc.prems(1) st] step_loaded_frame [OF Suc.prems(1) st]
  show ?case
  proof (cases r)
    case (Inl e)
    with st Suc.prems step_fault [of default_invoke vm e w] show ?thesis by (auto split: if_splits)
  next
    case (Inr u)
    with st k Suc show ?thesis by (auto split: if_splits)
  qed
qed simp

text \<open>
  A run of a loaded machine reports success exactly when the machine halted, and reports an
  exhausted budget exactly when it stopped, not halted, after executing its whole budget.
\<close>

theorem run_outcome:
  assumes "vm_ok vm" and "loaded vm" and "run default_invoke budget vm = (rr, vm')"
  shows "(rr_error rr = VM_None \<longleftrightarrow> halted (cpu vm')) \<and>
    (rr_error rr = BudgetExhausted \<longleftrightarrow>
       \<not> halted (cpu vm') \<and> drive default_invoke (unat budget) vm = (None, vm')) \<and>
    rr_instructions rr = instruction_count (cpu vm')"
proof -
  obtain f w where d: "drive default_invoke (unat budget) vm = (f, w)" by fastforce
  note e = drive_ends [OF assms(1,2) d]
  from assms(3) have "(rr, vm') = report budget (f, w)"
    by (simp add: run_is_drive [OF assms(2)] d)
  with e d show ?thesis
    by (auto simp: report_def stopped_def split: option.splits if_splits)
qed

lemma run_outcome_witness:
  "let (rr, vm') = run default_invoke 1 demo_machine in rr_error rr = VM_None \<longleftrightarrow> halted (cpu vm')"
  using run_outcome [OF load_establishes [OF demo_load] load_result(5) [OF demo_load], of 1]
  by (auto simp: Let_def split: prod.splits)

text \<open>
  A run that exhausted its budget can be resumed, and two runs in a row take the machine where
  one run with the joint budget takes it.
\<close>

theorem run_resumes:
  assumes "vm_ok vm" and "loaded vm" and "run default_invoke b1 vm = (r1, vm1)"
    and "rr_error r1 = BudgetExhausted" and "unat b1 + unat b2 < 2 ^ 64"
  shows "snd (run default_invoke (b1 + b2) vm) = snd (run default_invoke b2 vm1) \<and>
    rr_error (fst (run default_invoke (b1 + b2) vm)) = rr_error (fst (run default_invoke b2 vm1))"
proof -
  have n: "unat (b1 + b2) = unat b1 + unat b2"
    using assms(5) by (intro unat_add_no_wrap) simp
  obtain f w where d0: "drive default_invoke (unat b1) vm = (f, w)" by fastforce
  have r: "(r1, vm1) = report b1 (f, w)"
    using assms(3) by (simp add: run_is_drive [OF assms(2)] d0)
  have d: "drive default_invoke (unat b1) vm = (None, vm1)"
    using r d0 assms(4) drive_ends [OF assms(1,2) d0]
    by (auto simp: report_def stopped_def split: option.splits if_splits)
  have l: "loaded vm1"
    using default_provider.drive_keeps [OF assms(1) d] assms(2) by (simp add: vm_frame_def)
  show ?thesis
    unfolding run_is_drive [OF assms(2)] run_is_drive [OF l] n drive_add d
    by (auto simp: report_def stopped_def split: prod.splits option.splits)
qed

text \<open>the loader accepts exactly the valid images that leave the stack and heap ranges free.\<close>

theorem load_accepts:
  "(\<exists>vm'. load e vm = (Inr (), vm')) \<longleftrightarrow>
     executable_ok e \<and> clear_of (ex_segments e) 0x7FEF0000 0x7FFF0000 \<and>
     clear_of (ex_segments e) 0x10000000 0x10100000"
  by (rule load_spec)

text \<open>C2: loading establishes the machine invariant, and every run of the loaded program keeps it.\<close>

theorem invariant_of_runs:
  assumes "load e vm0 = (Inr (), vm)" and "run default_invoke budget vm = (rr, vm')"
  shows "vm_ok vm \<and> vm_ok vm' \<and> mem_layout (memory vm') = mem_layout (memory vm)"
  using load_establishes [OF assms(1)] default_provider.run_keeps [OF load_establishes [OF assms(1)] assms(2)]
  by (simp add: vm_frame_def quiet_def)

lemma invariant_of_runs_witness:
  "vm_ok (snd (run default_invoke 100 demo_machine))"
  using invariant_of_runs [OF demo_load, of 100] by (metis prod.collapse)

definition clash_text :: Segment where
  "clash_text = demo_text\<lparr> sg_virtual_address := 0x7FEF0000 \<rparr>"

definition clash_image :: Executable where
  "clash_image = demo_image\<lparr> ex_entry_point := 0x7FEF0000, ex_segments := [clash_text] \<rparr>"

text \<open>
  An image that overlaps the stack is refused only after the machine's memory has been replaced:
  a machine that was loaded stays loaded, with its old registers and program counter, but without
  a stack.
\<close>

theorem failed_load_is_not_atomic:
  "\<exists>vm'. load clash_image demo_machine = (Inl StackOverlap, vm') \<and> loaded vm' \<and>
     cpu vm' = cpu demo_machine \<and> memory vm' \<noteq> memory demo_machine \<and>
     regions (memory vm') = [segment_region clash_text]"
proof -
  note r = load_result [OF demo_load]
  have v: "validate clash_image = Inr ()"
    unfolding validate_iff
    by (simp add: executable_ok_def clash_image_def clash_text_def demo_image_def demo_text_def
        kExeVersion_def segment_ok_def segment_end_def hasFlag_def segment_flag_consts demo_code_def)
  from load_cases [OF v, of demo_machine] obtain m1 where
    m1: "map_segments (mem_reset (memory demo_machine)) (ex_segments clash_image) = (Inr (), m1)" "mem_ok m1"
    and regs: "regions m1 = [segment_region clash_text]"
    by (auto simp: clash_image_def)
  have "\<not> fst (addRegion m1 ''stack'' (kStackTop - kStackSize) kStackSize (Perm_Read OR Perm_Write) [])"
    unfolding addRegion_iff [OF m1(2)]
    by (simp add: regs layout_numbers clash_text_def demo_text_def segment_end_def)
  then have s: "addRegion m1 ''stack'' (kStackTop - kStackSize) kStackSize (Perm_Read OR Perm_Write) [] = (False, m1)"
    by (auto simp: addRegion_cases split: if_splits)
  have "m1 \<noteq> memory demo_machine" using regs r(3) by auto
  then show ?thesis
    using v m1(1) s regs r(5) by (simp add: load_def)
qed

lemma demo_fetch: "fetchInstruction (memory demo_machine) 0x400000 = Inr 0x1110000000000005"
proof -
  note r = load_result [OF demo_load]
  have reg: "regionAt (memory demo_machine) 0x400000 = Some 0"
    by (simp add: regionAt_def r(3) demo_image_def demo_text_def region_has_def)
  have "region_bytes (segment_region demo_text) 0 8 = le_bytes 8 0x1110000000000005"
    by (rule nth_equalityI)
      (simp_all add: segment_region_def new_region_def demo_text_def demo_code_def nth_append)
  then show ?thesis
    using reg by (simp add: fetchInstruction_def checkAccess_def r(3) demo_image_def)
     (simp add: demo_text_def hasPermission_def permissionsOf_def hasFlag_def segment_flag_consts perm_consts)
qed

lemma demo_decode: "decode 0x1110000000000005 = Inr (mk_instr OP_MOVI 1 0 5)"
  by (rule decode_encode) 
   (simp add: encode_def mk_instr_def opcode_row_def isValidRegister_def registerIndex_def kRegisterCount_def field_use_def
     fitsSigned_def encoding_consts push_bit_eq_mult)

lemma demo_step: "step default_invoke demo_machine = (Inr (), set_register 1 5 (advance (mk_instr OP_MOVI 1 0 5) demo_machine))"
proof -
  note r = load_result [OF demo_load]
  have "pc (cpu demo_machine) = 0x400000" by (simp add: r demo_image_def)
  moreover have "regs_valid (mk_instr OP_MOVI 1 0 5)"
    by (simp add: regs_valid_def mk_instr_def registerIndex_def kRegisterCount_def)
  ultimately show ?thesis
    using execute_simps(5) [of "mk_instr OP_MOVI 1 0 5" default_invoke "0x400000"]
    by (simp add: step_def r demo_fetch demo_decode kInstructionSize_def initial_cpu_def Let_def)
     (simp add: mk_instr_def registerIndex_def)
qed

lemma run_resumes_witness:
  "snd (run default_invoke (1 + 3) demo_machine)
    = snd (run default_invoke 3 (set_register 1 5 (advance (mk_instr OP_MOVI 1 0 5) demo_machine)))"
proof -
  note r = load_result [OF demo_load]
  let ?w = "set_register 1 5 (advance (mk_instr OP_MOVI 1 0 5) demo_machine)"
  have live: "\<not> halted (cpu demo_machine)" "\<not> halted (cpu ?w)"
    by (simp_all add: r initial_cpu_def set_register_def advance_def)
  have "run default_invoke 1 demo_machine
      = (stopped BudgetExhausted (MsgBudget 1) (pc (cpu ?w)) ?w, ?w)"
    using live by (simp add: run_is_drive [OF r(5)] demo_step report_def)
  from run_resumes [OF load_establishes [OF demo_load] r(5) this, of 3] show ?thesis
    by (simp add: stopped_def)
qed

end
