(* ===== verification/Diagnostics.thy ===== *)
theory Diagnostics
  imports Encoding
begin

text \<open>
  include/minitool/common/source_manager.hpp, src/common/source_manager.cpp,
  include/minitool/diagnostics and src/diagnostics: source files and locations, and the engine that
  collects the messages of every stage and renders them.  A source file is the list of its bytes as
  characters.  A message is the text \<open>std::format\<close> produces.
\<close>

subsection \<open>Source files\<close>

definition kInvalidFileId :: u32 where "kInvalidFileId = 0xFFFFFFFF"

record SourceLocation =
  loc_file :: u32
  loc_line :: u32
  loc_column :: u32
  loc_length :: u32

definition no_location :: SourceLocation where
  "no_location = \<lparr> loc_file = kInvalidFileId, loc_line = 0, loc_column = 0, loc_length = 0 \<rparr>"

definition loc_valid :: "SourceLocation \<Rightarrow> bool" where
  "loc_valid location \<longleftrightarrow> loc_file location \<noteq> kInvalidFileId"

abbreviation newline :: char where "newline \<equiv> CHR 0x0A"
abbreviation carriage_return :: char where "carriage_return \<equiv> CHR 0x0D"

record SourceEntry =
  en_name :: string
  en_text :: string
  en_line_starts :: "nat list"

type_synonym SourceManager = "SourceEntry list"

fun starts_after :: "nat \<Rightarrow> string \<Rightarrow> nat list" where
  "starts_after i [] = []"
| "starts_after i (c # cs) = (if c = newline then (i + 1) # starts_after (i + 1) cs else starts_after (i + 1) cs)"

definition addFile :: "string \<Rightarrow> string \<Rightarrow> SourceManager \<Rightarrow> u32 \<times> SourceManager" where
  "addFile name source files =
     (let files' = files @ [\<lparr> en_name = name, en_text = source, en_line_starts = 0 # starts_after 0 source \<rparr>]
      in (of_nat (length files' - 1), files'))"

definition sources_contains :: "SourceManager \<Rightarrow> u32 \<Rightarrow> bool" where
  "sources_contains files file \<longleftrightarrow> unat file < length files"

definition source_name :: "SourceManager \<Rightarrow> u32 \<Rightarrow> string" where
  "source_name files file = (if \<not> sources_contains files file then [] else en_name (files ! unat file))"

definition source_text :: "SourceManager \<Rightarrow> u32 \<Rightarrow> string" where
  "source_text files file = (if \<not> sources_contains files file then [] else en_text (files ! unat file))"

fun line_end :: "string \<Rightarrow> nat \<Rightarrow> nat \<Rightarrow> nat" where
  "line_end source begin stop =
     (if begin < stop \<and> (source ! (stop - 1) = newline \<or> source ! (stop - 1) = carriage_return)
      then line_end source begin (stop - 1) else stop)"

declare line_end.simps [simp del]

definition source_line :: "SourceManager \<Rightarrow> u32 \<Rightarrow> u32 \<Rightarrow> string" where
  "source_line files file line =
     (if \<not> sources_contains files file \<or> line = 0 then []
      else let entry = files ! unat file; index = unat (line - 1) in
        if length (en_line_starts entry) \<le> index then []
        else let begin = en_line_starts entry ! index;
                 stop = line_end (en_text entry) begin
                   (if index + 1 < length (en_line_starts entry) then en_line_starts entry ! (index + 1)
                    else length (en_text entry))
             in take (stop - begin) (drop begin (en_text entry)))"

subsection \<open>Diagnostics\<close>

datatype Severity = Sev_Note | Sev_Warning | Sev_Error | Sev_Fatal

fun severityName :: "Severity \<Rightarrow> string" where
  "severityName Sev_Note = ''note''"
| "severityName Sev_Warning = ''warning''"
| "severityName Sev_Error = ''error''"
| "severityName Sev_Fatal = ''fatal error''"

datatype ErrorCode = EC_None
  | EC_LexicalError | EC_ParseError | EC_InvalidRegister | EC_InvalidOpcode | EC_InvalidOperand
  | EC_IntegerOverflow | EC_InvalidDirective
  | EC_UndefinedSymbol | EC_DuplicateSymbol | EC_RelocationOverflow | EC_InvalidRelocation
  | EC_InvalidSectionReference | EC_SymbolVisibilityConflict
  | EC_InvalidObject | EC_InvalidExecutable | EC_UnsupportedVersion | EC_TruncatedFile
  | EC_InvalidMemoryAccess | EC_IllegalInstruction | EC_DivisionByZero | EC_StackOverflow
  | EC_StackUnderflow | EC_PermissionViolation | EC_SyscallError
  | EC_IoError | EC_InternalError

fun errorCodeName :: "ErrorCode \<Rightarrow> string" where
  "errorCodeName EC_None = ''none''"
| "errorCodeName EC_LexicalError = ''LEXICAL_ERROR''"
| "errorCodeName EC_ParseError = ''PARSE_ERROR''"
| "errorCodeName EC_InvalidRegister = ''INVALID_REGISTER''"
| "errorCodeName EC_InvalidOpcode = ''INVALID_OPCODE''"
| "errorCodeName EC_InvalidOperand = ''INVALID_OPERAND''"
| "errorCodeName EC_IntegerOverflow = ''INTEGER_OVERFLOW''"
| "errorCodeName EC_InvalidDirective = ''INVALID_DIRECTIVE''"
| "errorCodeName EC_UndefinedSymbol = ''UNDEFINED_SYMBOL''"
| "errorCodeName EC_DuplicateSymbol = ''DUPLICATE_SYMBOL''"
| "errorCodeName EC_RelocationOverflow = ''RELOCATION_OVERFLOW''"
| "errorCodeName EC_InvalidRelocation = ''INVALID_RELOCATION''"
| "errorCodeName EC_InvalidSectionReference = ''INVALID_SECTION_REFERENCE''"
| "errorCodeName EC_SymbolVisibilityConflict = ''SYMBOL_VISIBILITY_CONFLICT''"
| "errorCodeName EC_InvalidObject = ''INVALID_OBJECT''"
| "errorCodeName EC_InvalidExecutable = ''INVALID_EXECUTABLE''"
| "errorCodeName EC_UnsupportedVersion = ''UNSUPPORTED_VERSION''"
| "errorCodeName EC_TruncatedFile = ''TRUNCATED_FILE''"
| "errorCodeName EC_InvalidMemoryAccess = ''INVALID_MEMORY_ACCESS''"
| "errorCodeName EC_IllegalInstruction = ''ILLEGAL_INSTRUCTION''"
| "errorCodeName EC_DivisionByZero = ''DIVISION_BY_ZERO''"
| "errorCodeName EC_StackOverflow = ''STACK_OVERFLOW''"
| "errorCodeName EC_StackUnderflow = ''STACK_UNDERFLOW''"
| "errorCodeName EC_PermissionViolation = ''PERMISSION_VIOLATION''"
| "errorCodeName EC_SyscallError = ''SYSCALL_ERROR''"
| "errorCodeName EC_IoError = ''IO_ERROR''"
| "errorCodeName EC_InternalError = ''INTERNAL_ERROR''"

datatype Diagnostic = Diagnostic
  (dg_severity: Severity) (dg_code: ErrorCode) (dg_location: SourceLocation) (dg_message: string)
  (dg_notes: "Diagnostic list") (dg_suggestion: "string option")

record DiagnosticEngine =
  de_diagnostics :: "Diagnostic list"
  de_error_count :: nat
  de_warning_count :: nat

definition empty_engine :: DiagnosticEngine where
  "empty_engine = \<lparr> de_diagnostics = [], de_error_count = 0, de_warning_count = 0 \<rparr>"

definition report :: "Diagnostic \<Rightarrow> DiagnosticEngine \<Rightarrow> DiagnosticEngine" where
  "report d e =
     (let e' = (case dg_severity d of
          Sev_Error \<Rightarrow> e\<lparr> de_error_count := de_error_count e + 1 \<rparr>
        | Sev_Fatal \<Rightarrow> e\<lparr> de_error_count := de_error_count e + 1 \<rparr>
        | Sev_Warning \<Rightarrow> e\<lparr> de_warning_count := de_warning_count e + 1 \<rparr>
        | Sev_Note \<Rightarrow> e)
      in e'\<lparr> de_diagnostics := de_diagnostics e' @ [d] \<rparr>)"

definition error_diagnostic :: "ErrorCode \<Rightarrow> SourceLocation \<Rightarrow> string \<Rightarrow> Diagnostic" where
  "error_diagnostic code location message = Diagnostic Sev_Error code location message [] None"

definition report_error :: "ErrorCode \<Rightarrow> SourceLocation \<Rightarrow> string \<Rightarrow> DiagnosticEngine \<Rightarrow> DiagnosticEngine" where
  "report_error code location message = report (error_diagnostic code location message)"

definition report_warning :: "ErrorCode \<Rightarrow> SourceLocation \<Rightarrow> string \<Rightarrow> DiagnosticEngine \<Rightarrow> DiagnosticEngine" where
  "report_warning code location message = report (Diagnostic Sev_Warning code location message [] None)"

definition report_note :: "SourceLocation \<Rightarrow> string \<Rightarrow> DiagnosticEngine \<Rightarrow> DiagnosticEngine" where
  "report_note location message = report (Diagnostic Sev_Note EC_None location message [] None)"

definition hasErrors :: "DiagnosticEngine \<Rightarrow> bool" where
  "hasErrors e \<longleftrightarrow> de_error_count e > 0"

definition clear_engine :: "DiagnosticEngine \<Rightarrow> DiagnosticEngine" where
  "clear_engine e = e\<lparr> de_diagnostics := [], de_error_count := 0, de_warning_count := 0 \<rparr>"

definition detab :: "string \<Rightarrow> string" where
  "detab = map (\<lambda>c. if c = CHR 0x09 then CHR '' '' else c)"

definition header_line :: "SourceManager \<Rightarrow> Severity \<Rightarrow> SourceLocation \<Rightarrow> string \<Rightarrow> string" where
  "header_line files severity location message =
     (if loc_valid location \<and> sources_contains files (loc_file location)
      then source_name files (loc_file location) @ '':'' @ nat_str (unat (loc_line location)) @ '':''
        @ nat_str (unat (loc_column location)) @ '': '' @ severityName severity @ '': '' @ message @ [newline]
      else severityName severity @ '': '' @ message @ [newline])"

definition caret_line :: "string \<Rightarrow> SourceLocation \<Rightarrow> string" where
  "caret_line line location =
     (let col = min (unat (loc_column location - 1)) (length line);
          remaining = length line - col;
          span = min (unat (max (loc_length location) 1)) (max remaining 1)
      in replicate col (CHR '' '') @ ''^'' @ (if span > 1 then replicate (span - 1) (CHR ''~'') else []))"

definition source_excerpt :: "SourceManager \<Rightarrow> SourceLocation \<Rightarrow> string" where
  "source_excerpt files location =
     (let raw_line = (if loc_valid location then source_line files (loc_file location) (loc_line location) else [])
      in if raw_line \<noteq> [] \<and> loc_column location > 0
         then let line = detab raw_line;
                  number = nat_str (unat (loc_line location));
                  gutter = replicate (5 - length number) (CHR '' '') @ number
              in gutter @ '' | '' @ line @ [newline]
                 @ replicate (length gutter) (CHR '' '') @ '' | '' @ caret_line line location @ [newline]
         else [])"

fun render :: "SourceManager \<Rightarrow> Diagnostic \<Rightarrow> string" where
  "render files (Diagnostic severity code location message notes suggestion) =
     header_line files severity location message
     @ source_excerpt files location
     @ (case suggestion of Some s \<Rightarrow> ''  suggestion: '' @ s @ [newline] | None \<Rightarrow> [])
     @ concat (map (render files) notes)"

definition renderAll :: "SourceManager \<Rightarrow> DiagnosticEngine \<Rightarrow> string" where
  "renderAll files e = concat (map (render files) (de_diagnostics e))"

text \<open>Quoting as in the messages of the code.\<close>

definition quoted :: "string \<Rightarrow> string" where
  "quoted s = [CHR 0x27] @ s @ [CHR 0x27]"

end
