(* ===== verification/Ir.thy ===== *)
theory Ir
  imports Isa Diagnostics
begin

text \<open>
  include/minitool/ir/ir.hpp and src/ir/ir.cpp: the intermediate representation of one assembly
  file.  A section is a list of items; an item carries no offset, and a branch names a label.
\<close>

datatype SectionKind = Kind_Text | Kind_Rodata | Kind_Data | Kind_Bss

fun sectionName :: "SectionKind \<Rightarrow> string" where
  "sectionName Kind_Text = ''.text''"
| "sectionName Kind_Rodata = ''.rodata''"
| "sectionName Kind_Data = ''.data''"
| "sectionName Kind_Bss = ''.bss''"

definition sectionKindFromName :: "string \<Rightarrow> SectionKind option" where
  "sectionKindFromName name =
     (if name = ''.text'' then Some Kind_Text
      else if name = ''.rodata'' then Some Kind_Rodata
      else if name = ''.data'' then Some Kind_Data
      else if name = ''.bss'' then Some Kind_Bss
      else None)"

definition sectionHasData :: "SectionKind \<Rightarrow> bool" where
  "sectionHasData kind \<longleftrightarrow> kind \<noteq> Kind_Bss"

record SymbolRef =
  ref_name :: string
  ref_addend :: i64

record IrInstruction =
  ii_machine :: Instruction
  ii_symbol :: "SymbolRef option"
  ii_location :: SourceLocation

definition isSymbolic :: "IrInstruction \<Rightarrow> bool" where
  "isSymbolic instruction \<longleftrightarrow> ii_symbol instruction \<noteq> None"

datatype Item =
    It_Instruction IrInstruction
  | It_Label string bool SourceLocation
  | It_Bytes "u8 list" SourceLocation
  | It_SymbolValue u32 SymbolRef SourceLocation
  | It_Space u64 u8 SourceLocation
  | It_Align u64 SourceLocation

fun itemLocation :: "Item \<Rightarrow> SourceLocation" where
  "itemLocation (It_Instruction instruction) = ii_location instruction"
| "itemLocation (It_Label name local location) = location"
| "itemLocation (It_Bytes data location) = location"
| "itemLocation (It_SymbolValue width symbol location) = location"
| "itemLocation (It_Space sz fill location) = location"
| "itemLocation (It_Align alignment location) = location"

record IrSection =
  is_kind :: SectionKind
  is_name :: string
  is_alignment :: u64
  is_items :: "Item list"

record Module =
  mo_source_name :: string
  mo_sections :: "IrSection list"
  mo_globals :: "string list"
  mo_externs :: "string list"
  mo_weaks :: "string list"

definition empty_module :: "string \<Rightarrow> Module" where
  "empty_module name = \<lparr> mo_source_name = name, mo_sections = [], mo_globals = [], mo_externs = [],
     mo_weaks = [] \<rparr>"

definition new_section :: "SectionKind \<Rightarrow> IrSection" where
  "new_section kind = \<lparr> is_kind = kind, is_name = sectionName kind, is_alignment = 8, is_items = [] \<rparr>"

text \<open>
  \<open>sectionFor\<close> returns a reference in the code; here it returns the index of the section, and the
  module with the section created when this is its first use.
\<close>

fun section_index :: "SectionKind \<Rightarrow> IrSection list \<Rightarrow> nat option" where
  "section_index kind [] = None"
| "section_index kind (s # ss) =
     (if is_kind s = kind then Some 0 else map_option Suc (section_index kind ss))"

definition sectionFor :: "SectionKind \<Rightarrow> Module \<Rightarrow> nat \<times> Module" where
  "sectionFor kind m =
     (case section_index kind (mo_sections m) of
        Some i \<Rightarrow> (i, m)
      | None \<Rightarrow> (length (mo_sections m), m\<lparr> mo_sections := mo_sections m @ [new_section kind] \<rparr>))"

definition findIrSection :: "SectionKind \<Rightarrow> Module \<Rightarrow> IrSection option" where
  "findIrSection kind m = find (\<lambda>s. is_kind s = kind) (mo_sections m)"

fun isInstruction :: "Item \<Rightarrow> bool" where
  "isInstruction (It_Instruction _) = True"
| "isInstruction _ = False"

fun isLabel :: "Item \<Rightarrow> bool" where
  "isLabel (It_Label _ _ _) = True"
| "isLabel _ = False"

definition instructionCount :: "Module \<Rightarrow> nat" where
  "instructionCount m =
     sum_list (map (\<lambda>s. length (filter isInstruction (is_items s))) (mo_sections m))"

lemma sectionKind_round_trip: "sectionKindFromName name = Some kind \<longleftrightarrow> name = sectionName kind"
  by (cases kind) (auto simp: sectionKindFromName_def)

lemma section_index_Some:
  "section_index kind ss = Some i \<Longrightarrow> i < length ss \<and> is_kind (ss ! i) = kind"
  by (induction ss arbitrary: i) (auto split: if_splits)

lemma section_index_None: "section_index kind ss = None \<longleftrightarrow> (\<forall>s \<in> set ss. is_kind s \<noteq> kind)"
  by (induction ss) auto

end
