(* ===== verification/Optimizer.thy ===== *)
theory Optimizer
  imports Ir Semantics Byte_Order Encoding "HOL-Library.While_Combinator"
begin

text \<open>
  include/minitool/optimizer/optimizer.hpp and src/optimizer/optimizer.cpp.  A pass reads and
  writes the items, the marks for removal, the statistics and the changed flag of one section by
  index, as the code does; each \<open>for\<close> loop is a fold over the indices.  \<open>None\<close> stands for what the
  code leaves undefined, an index outside the vector of live-in bits, and for a liveness loop that
  does not end.  A register number indexes an array of sixteen entries in the code; here it
  indexes a total map.
\<close>

datatype OptLevel = O0 | O1

fun optLevelName :: "OptLevel \<Rightarrow> string" where
  "optLevelName O0 = ''O0''"
| "optLevelName O1 = ''O1''"

record OptStats =
  os_constants_folded :: u32
  os_identities_eliminated :: u32
  os_dead_stores_removed :: u32
  os_unreachable_removed :: u32
  os_peepholes_applied :: u32
  os_instructions_before :: nat
  os_instructions_after :: nat

definition no_stats :: OptStats where
  "no_stats = \<lparr> os_constants_folded = 0, os_identities_eliminated = 0, os_dead_stores_removed = 0,
     os_unreachable_removed = 0, os_peepholes_applied = 0, os_instructions_before = 0,
     os_instructions_after = 0 \<rparr>"

definition stats_total :: "OptStats \<Rightarrow> u32" where
  "stats_total s = os_constants_folded s + os_identities_eliminated s + os_dead_stores_removed s +
     os_unreachable_removed s + os_peepholes_applied s"

subsection \<open>What an instruction reads and writes\<close>

definition endsBlock :: "Opcode \<Rightarrow> bool" where
  "endsBlock opcode =
     (case findOpcode opcode of
        None \<Rightarrow> True
      | Some info \<Rightarrow> oi_is_branch info \<or> oi_is_terminator info \<or> opcode = OP_SYSCALL)"

definition sourceRegister :: "Instruction \<Rightarrow> Reg option" where
  "sourceRegister machine =
     (case findOpcode (i_opcode machine) of
        None \<Rightarrow> None
      | Some info \<Rightarrow>
          if oi_format info = Fmt_Reg2 \<or> oi_format info = Fmt_Mem then Some (i_src machine) else None)"

definition readsRegister :: "Instruction \<Rightarrow> Reg \<Rightarrow> bool" where
  "readsRegister machine reg =
     (case findOpcode (i_opcode machine) of
        None \<Rightarrow> True
      | Some info \<Rightarrow>
          (oi_reads_dst info \<and> i_dst machine = reg) \<or> sourceRegister machine = Some reg)"

definition writesRegister :: "Instruction \<Rightarrow> Reg \<Rightarrow> bool" where
  "writesRegister machine reg =
     (case findOpcode (i_opcode machine) of
        None \<Rightarrow> False
      | Some info \<Rightarrow> oi_writes_dst info \<and> i_dst machine = reg)"

definition writesFlags :: "Opcode \<Rightarrow> bool" where
  "writesFlags opcode = (case findOpcode opcode of None \<Rightarrow> False | Some info \<Rightarrow> oi_writes_flags info)"

subsection \<open>The control-flow graph\<close>

record Block =
  bl_begin :: nat
  bl_end :: nat
  bl_successors :: "nat list"
  bl_unknown_successor :: bool
  bl_flags_live_out :: bool

definition new_block :: "nat \<Rightarrow> nat \<Rightarrow> Block" where
  "new_block b e = \<lparr> bl_begin = b, bl_end = e, bl_successors = [], bl_unknown_successor = False,
     bl_flags_live_out = True \<rparr>"

type_synonym Labels = "string \<Rightarrow> nat option"

definition emplace :: "string \<Rightarrow> nat \<Rightarrow> Labels \<Rightarrow> Labels" where
  "emplace name n labels = (case labels name of None \<Rightarrow> labels(name \<mapsto> n) | Some _ \<Rightarrow> labels)"

definition split_item ::
  "Item list \<Rightarrow> nat \<Rightarrow> nat \<times> Block list \<times> Labels \<Rightarrow> nat \<times> Block list \<times> Labels" where
  "split_item items i st =
     (case st of (b, blocks, labels) \<Rightarrow>
        case items ! i of
          It_Label name local location \<Rightarrow>
            let blocks = (if i > b then blocks @ [new_block b i] else blocks)
            in (i + 1, blocks, emplace name (length blocks) labels)
        | It_Instruction instruction \<Rightarrow>
            if endsBlock (i_opcode (ii_machine instruction))
            then (i + 1, blocks @ [new_block b (i + 1)], labels) else st
        | _ \<Rightarrow> st)"

definition splitBlocks :: "Item list \<Rightarrow> Block list \<times> Labels" where
  "splitBlocks items =
     (case fold (split_item items) [0..<length items] (0, [], \<lambda>_. None) of
        (b, blocks, labels) \<Rightarrow>
          if b < length items \<or> blocks = [] then (blocks @ [new_block b (length items)], labels)
          else (blocks, labels))"

fun last_instruction :: "Item list \<Rightarrow> IrInstruction option" where
  "last_instruction [] = None"
| "last_instruction (item # rest) =
     (case last_instruction rest of
        Some i \<Rightarrow> Some i
      | None \<Rightarrow> (case item of It_Instruction i \<Rightarrow> Some i | _ \<Rightarrow> None))"

definition block_items :: "Item list \<Rightarrow> Block \<Rightarrow> Item list" where
  "block_items items block = take (bl_end block - bl_begin block) (drop (bl_begin block) items)"

definition block_terminator :: "Item list \<Rightarrow> Block \<Rightarrow> IrInstruction option" where
  "block_terminator items block = last_instruction (block_items items block)"

definition link_block :: "Item list \<Rightarrow> Labels \<Rightarrow> nat \<Rightarrow> nat \<Rightarrow> Block \<Rightarrow> Block" where
  "link_block items labels count i block =
     (let last = block_terminator items block;
          info = (case last of None \<Rightarrow> None | Some l \<Rightarrow> findOpcode (i_opcode (ii_machine l)));
          ends_with_branch = (case info of None \<Rightarrow> False | Some x \<Rightarrow> oi_is_branch x);
          falls_through = (case info of None \<Rightarrow> True | Some x \<Rightarrow> \<not> oi_is_terminator x);
          block = (if falls_through \<and> i + 1 < count
                   then block\<lparr> bl_successors := bl_successors block @ [i + 1] \<rparr> else block)
      in if \<not> ends_with_branch then block
         else case last of
           None \<Rightarrow> block
         | Some l \<Rightarrow>
             if i_opcode (ii_machine l) = OP_CALL then block\<lparr> bl_unknown_successor := True \<rparr>
             else case ii_symbol l of
               None \<Rightarrow> block\<lparr> bl_unknown_successor := True \<rparr>
             | Some symbol \<Rightarrow>
                 (case labels (ref_name symbol) of
                    None \<Rightarrow> block\<lparr> bl_unknown_successor := True \<rparr>
                  | Some target \<Rightarrow>
                      block\<lparr> bl_successors := bl_successors block @ [target] \<rparr>))"

definition linkSuccessors :: "Item list \<Rightarrow> Labels \<Rightarrow> Block list \<Rightarrow> Block list" where
  "linkSuccessors items labels blocks =
     map (\<lambda>(i, block). link_block items labels (length blocks) i block) (enumerate 0 blocks)"

fun reads_before_writing :: "Item list \<Rightarrow> bool" where
  "reads_before_writing [] \<longleftrightarrow> False"
| "reads_before_writing (It_Instruction i # rest) \<longleftrightarrow>
     (if readsFlags (i_opcode (ii_machine i)) then True
      else if writesFlags (i_opcode (ii_machine i)) then False
      else reads_before_writing rest)"
| "reads_before_writing (_ # rest) \<longleftrightarrow> reads_before_writing rest"

definition blockReadsFlagsBeforeWriting :: "Item list \<Rightarrow> Block \<Rightarrow> bool" where
  "blockReadsFlagsBeforeWriting items block \<longleftrightarrow> reads_before_writing (block_items items block)"

fun writes_flags_item :: "Item \<Rightarrow> bool" where
  "writes_flags_item (It_Instruction i) \<longleftrightarrow> writesFlags (i_opcode (ii_machine i))"
| "writes_flags_item _ \<longleftrightarrow> False"

definition blockWritesFlags :: "Item list \<Rightarrow> Block \<Rightarrow> bool" where
  "blockWritesFlags items block \<longleftrightarrow> list_ex writes_flags_item (block_items items block)"

text \<open>The backward sweeps over the live-in bits, until one changes nothing.\<close>

type_synonym Sweep = "bool \<times> bool list \<times> Block list"

fun any_live :: "bool list \<Rightarrow> nat list \<Rightarrow> bool \<Rightarrow> bool option" where
  "any_live live_in [] live_out = Some live_out"
| "any_live live_in (s # ss) live_out =
     (if live_out then any_live live_in ss live_out
      else if s < length live_in then any_live live_in ss (live_in ! s)
      else None)"

definition sweep_block :: "Item list \<Rightarrow> nat \<Rightarrow> Sweep \<Rightarrow> Sweep option" where
  "sweep_block items i st =
     (case st of (changed, live_in, blocks) \<Rightarrow>
        let block = blocks ! i in
        case any_live live_in (bl_successors block) (bl_unknown_successor block) of
          None \<Rightarrow> None
        | Some live_out \<Rightarrow>
            let changed = (changed \<or> live_out \<noteq> bl_flags_live_out block);
                live = (blockReadsFlagsBeforeWriting items block \<or>
                        (live_out \<and> \<not> blockWritesFlags items block));
                changed = (changed \<or> live \<noteq> live_in ! i)
            in Some (changed, live_in[i := live], blocks[i := block\<lparr> bl_flags_live_out := live_out \<rparr>]))"

fun sweep_from :: "Item list \<Rightarrow> nat list \<Rightarrow> Sweep \<Rightarrow> Sweep option" where
  "sweep_from items [] st = Some st"
| "sweep_from items (i # is) st =
     (case sweep_block items i st of None \<Rightarrow> None | Some st \<Rightarrow> sweep_from items is st)"

fun sweep :: "Item list \<Rightarrow> Sweep option \<Rightarrow> Sweep option" where
  "sweep items None = None"
| "sweep items (Some (changed, live_in, blocks)) =
     sweep_from items (rev [0..<length blocks]) (False, live_in, blocks)"

fun sweep_again :: "Sweep option \<Rightarrow> bool" where
  "sweep_again None = False"
| "sweep_again (Some (changed, live_in, blocks)) = changed"

definition start_sweep :: "Item list \<Rightarrow> Block list \<Rightarrow> Sweep" where
  "start_sweep items blocks = (True, map (blockReadsFlagsBeforeWriting items) blocks, blocks)"

definition computeFlagLiveness :: "Item list \<Rightarrow> Block list \<Rightarrow> Block list option" where
  "computeFlagLiveness items blocks =
     (case while_option sweep_again (sweep items) (Some (start_sweep items blocks)) of
        Some (Some (changed, live_in, blocks)) \<Rightarrow> Some blocks
      | _ \<Rightarrow> None)"

definition controlFlow :: "Item list \<Rightarrow> Block list option" where
  "controlFlow items =
     (case splitBlocks items of
        (blocks, labels) \<Rightarrow> computeFlagLiveness items (linkSuccessors items labels blocks))"

fun flags_dead :: "Item list \<Rightarrow> bool \<Rightarrow> bool" where
  "flags_dead [] live_out \<longleftrightarrow> \<not> live_out"
| "flags_dead (It_Instruction i # rest) live_out \<longleftrightarrow>
     (if readsFlags (i_opcode (ii_machine i)) then False
      else if writesFlags (i_opcode (ii_machine i)) then True
      else flags_dead rest live_out)"
| "flags_dead (_ # rest) live_out \<longleftrightarrow> flags_dead rest live_out"

definition flagsDeadAfter :: "Item list \<Rightarrow> Block \<Rightarrow> nat \<Rightarrow> bool" where
  "flagsDeadAfter items block index \<longleftrightarrow>
     flags_dead (take (bl_end block - (index + 1)) (drop (index + 1) items)) (bl_flags_live_out block)"

subsection \<open>The passes over one section\<close>

record Passes =
  pa_items :: "Item list"
  pa_remove :: "bool list"
  pa_stats :: OptStats
  pa_changed :: bool

definition drop_item :: "nat \<Rightarrow> Passes \<Rightarrow> Passes" where
  "drop_item i st = st\<lparr> pa_remove := (pa_remove st)[i := True], pa_changed := True \<rparr>"

definition put_machine :: "nat \<Rightarrow> IrInstruction \<Rightarrow> Instruction \<Rightarrow> Passes \<Rightarrow> Passes" where
  "put_machine i instruction machine st =
     st\<lparr> pa_items := (pa_items st)[i := It_Instruction (instruction\<lparr> ii_machine := machine \<rparr>)],
         pa_changed := True \<rparr>"

definition count_up :: "(OptStats \<Rightarrow> OptStats) \<Rightarrow> Passes \<Rightarrow> Passes" where
  "count_up f st = st\<lparr> pa_stats := f (pa_stats st) \<rparr>"

text \<open>Unreachable code: everything between a terminator and the next label.\<close>

definition unreachable_step :: "nat \<Rightarrow> bool \<times> Passes \<Rightarrow> bool \<times> Passes" where
  "unreachable_step i rs =
     (case rs of (reachable, st) \<Rightarrow>
        case pa_items st ! i of
          It_Label _ _ _ \<Rightarrow> (True, st)
        | It_Instruction instruction \<Rightarrow>
            if \<not> reachable then
              (reachable, count_up (os_unreachable_removed_update (\<lambda>n. n + 1)) (drop_item i st))
            else
              (case findOpcode (i_opcode (ii_machine instruction)) of
                 None \<Rightarrow> (reachable, st)
               | Some info \<Rightarrow> (if oi_is_terminator info then False else reachable, st))
        | _ \<Rightarrow> (reachable, st))"

definition pass_unreachable :: "Passes \<Rightarrow> Passes" where
  "pass_unreachable st = snd (fold unreachable_step [0..<length (pa_items st)] (True, st))"

text \<open>
  PUSH rX / POP rY.  \<open>resume\<close> is the first index the loop still examines: the code's \<open>++i\<close> skips
  the instruction just consumed.
\<close>

definition peephole_step :: "nat \<Rightarrow> nat \<times> Passes \<Rightarrow> nat \<times> Passes" where
  "peephole_step i rs =
     (case rs of (resume, st) \<Rightarrow>
        if i < resume \<or> pa_remove st ! i \<or> pa_remove st ! (i + 1) then (resume, st)
        else case (pa_items st ! i, pa_items st ! (i + 1)) of
          (It_Instruction first, It_Instruction second) \<Rightarrow>
            if i_opcode (ii_machine first) = OP_PUSH \<and> i_opcode (ii_machine second) = OP_POP then
              if i_dst (ii_machine first) = i_dst (ii_machine second) then
                (i + 2, count_up (os_peepholes_applied_update (\<lambda>n. n + 2))
                          (drop_item (i + 1) (drop_item i st)))
              else
                let pushed = i_dst (ii_machine first);
                    machine = (ii_machine first)\<lparr> i_opcode := OP_MOV,
                                i_dst := i_dst (ii_machine second), i_src := pushed \<rparr>
                in (i + 2, count_up (os_peepholes_applied_update (\<lambda>n. n + 1))
                             (drop_item (i + 1) (put_machine i first machine st)))
            else (resume, st)
        | _ \<Rightarrow> (resume, st))"

definition pass_peephole :: "Passes \<Rightarrow> Passes" where
  "pass_peephole st = snd (fold peephole_step [0..<length (pa_items st) - 1] (0, st))"

text \<open>A jump to the label that immediately follows it.\<close>

fun jumps_to_next :: "Passes \<Rightarrow> string \<Rightarrow> nat list \<Rightarrow> bool" where
  "jumps_to_next st name [] \<longleftrightarrow> False"
| "jumps_to_next st name (j # js) \<longleftrightarrow>
     (if pa_remove st ! j then jumps_to_next st name js
      else case pa_items st ! j of
        It_Label label _ _ \<Rightarrow> if label = name then True else jumps_to_next st name js
      | _ \<Rightarrow> False)"

definition jump_step :: "nat \<Rightarrow> Passes \<Rightarrow> Passes" where
  "jump_step i st =
     (if pa_remove st ! i then st
      else case pa_items st ! i of
        It_Instruction instruction \<Rightarrow>
          (case ii_symbol instruction of
             Some symbol \<Rightarrow>
               if i_opcode (ii_machine instruction) = OP_JMP \<and> ref_addend symbol = 0 \<and>
                  jumps_to_next st (ref_name symbol) [i + 1..<length (pa_items st)]
               then count_up (os_peepholes_applied_update (\<lambda>n. n + 1)) (drop_item i st)
               else st
           | None \<Rightarrow> st)
      | _ \<Rightarrow> st)"

definition pass_jumps :: "Passes \<Rightarrow> Passes" where
  "pass_jumps st = fold jump_step [0..<length (pa_items st)] st"

text \<open>Constant folding.\<close>

type_synonym ConstantMap = "Reg \<Rightarrow> u64 option"

definition fold_machine ::
  "ConstantMap \<Rightarrow> Instruction \<Rightarrow> bool \<Rightarrow> ConstantMap \<times> Instruction option" where
  "fold_machine constants machine flags_dead_here =
     (let opcode = i_opcode machine; dst = i_dst machine;
          to_movi = (\<lambda>v. machine\<lparr> i_opcode := OP_MOVI, i_imm := v, i_src := 0 \<rparr>);
          clobber = (if writesRegister machine dst then constants(dst := None) else constants)
      in if opcode = OP_MOVI \<or> opcode = OP_LEA then (constants(dst \<mapsto> i_imm machine), None)
         else if opcode = OP_MOV then
           (case constants (i_src machine) of
              None \<Rightarrow> (constants(dst := None), None)
            | Some v \<Rightarrow> (constants(dst \<mapsto> v), if fitsSigned v kImmediateBits then Some (to_movi v) else None))
         else if \<not> isBinaryAlu opcode \<and> \<not> isUnaryAlu opcode then (clobber, None)
         else case (constants dst, if isBinaryAlu opcode then constants (i_src machine) else Some 0) of
           (Some lhs, Some rhs) \<Rightarrow>
             (case (if isBinaryAlu opcode then evaluateBinary opcode lhs rhs
                    else evaluateUnary opcode lhs) of
                Inl _ \<Rightarrow> (constants(dst := None), None)
              | Inr evaluated \<Rightarrow>
                  if \<not> alu_writes_value evaluated then (constants, None)
                  else (constants(dst \<mapsto> alu_value evaluated),
                        if (\<not> alu_writes_flags evaluated \<or> flags_dead_here) \<and>
                           fitsSigned (alu_value evaluated) kImmediateBits
                        then Some (to_movi (alu_value evaluated)) else None))
         | _ \<Rightarrow> (clobber, None))"

definition fold_step :: "Block \<Rightarrow> nat \<Rightarrow> ConstantMap \<times> Passes \<Rightarrow> ConstantMap \<times> Passes" where
  "fold_step block i cs =
     (case cs of (constants, st) \<Rightarrow>
        if pa_remove st ! i then (constants, st)
        else case pa_items st ! i of
          It_Instruction instruction \<Rightarrow>
            if isSymbolic instruction
            then (constants(i_dst (ii_machine instruction) := None), st)
            else (case fold_machine constants (ii_machine instruction)
                         (flagsDeadAfter (pa_items st) block i) of
                    (constants, None) \<Rightarrow> (constants, st)
                  | (constants, Some machine) \<Rightarrow>
                      (constants, count_up (os_constants_folded_update (\<lambda>n. n + 1))
                                    (put_machine i instruction machine st)))
        | _ \<Rightarrow> (constants, st))"

definition fold_block :: "Block \<Rightarrow> Passes \<Rightarrow> Passes" where
  "fold_block block st = snd (fold (fold_step block) [bl_begin block..<bl_end block] (\<lambda>_. None, st))"

text \<open>Identities.\<close>

definition is_identity :: "IrInstruction \<Rightarrow> bool" where
  "is_identity instruction \<longleftrightarrow> \<not> isSymbolic instruction \<and>
     (i_opcode (ii_machine instruction) = OP_MOV \<and>
        i_dst (ii_machine instruction) = i_src (ii_machine instruction) \<or>
      i_opcode (ii_machine instruction) = OP_NOP)"

definition identity_step :: "nat \<Rightarrow> Passes \<Rightarrow> Passes" where
  "identity_step i st =
     (if pa_remove st ! i then st
      else case pa_items st ! i of
        It_Instruction instruction \<Rightarrow>
          if is_identity instruction
          then count_up (os_identities_eliminated_update (\<lambda>n. n + 1)) (drop_item i st) else st
      | _ \<Rightarrow> st)"

definition identity_block :: "Block \<Rightarrow> Passes \<Rightarrow> Passes" where
  "identity_block block st = fold identity_step [bl_begin block..<bl_end block] st"

text \<open>Dead stores.\<close>

definition pure_define :: "Instruction \<Rightarrow> bool" where
  "pure_define machine =
     (case findOpcode (i_opcode machine) of
        None \<Rightarrow> False
      | Some info \<Rightarrow> oi_writes_dst info \<and> \<not> oi_reads_dst info \<and> \<not> oi_writes_flags info \<and>
          i_opcode machine \<in> {OP_MOVI, OP_MOV, OP_LEA})"

fun overwritten :: "Passes \<Rightarrow> Reg \<Rightarrow> nat list \<Rightarrow> bool" where
  "overwritten st reg [] \<longleftrightarrow> False"
| "overwritten st reg (j # js) \<longleftrightarrow>
     (if pa_remove st ! j then overwritten st reg js
      else case pa_items st ! j of
        It_Instruction later \<Rightarrow>
          if readsRegister (ii_machine later) reg then False
          else if writesRegister (ii_machine later) reg then True
          else overwritten st reg js
      | _ \<Rightarrow> overwritten st reg js)"

definition dead_store_step :: "Block \<Rightarrow> nat \<Rightarrow> Passes \<Rightarrow> Passes" where
  "dead_store_step block i st =
     (if pa_remove st ! i then st
      else case pa_items st ! i of
        It_Instruction instruction \<Rightarrow>
          if pure_define (ii_machine instruction) \<and>
             overwritten st (i_dst (ii_machine instruction)) [i + 1..<bl_end block]
          then count_up (os_dead_stores_removed_update (\<lambda>n. n + 1)) (drop_item i st) else st
      | _ \<Rightarrow> st)"

definition dead_store_block :: "Block \<Rightarrow> Passes \<Rightarrow> Passes" where
  "dead_store_block block st = fold (dead_store_step block) [bl_begin block..<bl_end block] st"

text \<open>One round of all passes: the items that are left, the statistics, and whether it changed anything.\<close>

definition kept_items :: "bool list \<Rightarrow> Item list \<Rightarrow> Item list" where
  "kept_items remove items = map snd (filter (\<lambda>x. \<not> fst x) (zip remove items))"

definition start_passes :: "Item list \<Rightarrow> OptStats \<Rightarrow> Passes" where
  "start_passes items stats = \<lparr> pa_items = items, pa_remove = replicate (length items) False,
     pa_stats = stats, pa_changed = False \<rparr>"

definition early_passes :: "Item list \<Rightarrow> OptStats \<Rightarrow> Passes" where
  "early_passes items stats = pass_jumps (pass_peephole (pass_unreachable (start_passes items stats)))"

definition block_passes :: "Block list \<Rightarrow> Passes \<Rightarrow> Passes" where
  "block_passes blocks st =
     fold dead_store_block blocks (fold identity_block blocks (fold fold_block blocks st))"

definition runPasses :: "Item list \<Rightarrow> OptStats \<Rightarrow> (Item list \<times> OptStats \<times> bool) option" where
  "runPasses items stats =
     (let st = early_passes items stats in
      case controlFlow (pa_items st) of
        None \<Rightarrow> None
      | Some blocks \<Rightarrow>
          let st = block_passes blocks st
          in Some (if pa_changed st then kept_items (pa_remove st) (pa_items st) else pa_items st,
                   pa_stats st, pa_changed st))"

definition kMaxIterations :: nat where "kMaxIterations = 8"

fun iterate_passes :: "nat \<Rightarrow> Item list \<Rightarrow> OptStats \<Rightarrow> (Item list \<times> OptStats) option" where
  "iterate_passes 0 items stats = Some (items, stats)"
| "iterate_passes (Suc n) items stats =
     (case runPasses items stats of
        None \<Rightarrow> None
      | Some (items, stats, changed) \<Rightarrow>
          if \<not> changed then Some (items, stats) else iterate_passes n items stats)"

definition optimizeSection :: "IrSection \<Rightarrow> OptStats \<Rightarrow> (IrSection \<times> OptStats) option" where
  "optimizeSection section stats =
     (case iterate_passes kMaxIterations (is_items section) stats of
        None \<Rightarrow> None
      | Some (items, stats) \<Rightarrow> Some (section\<lparr> is_items := items \<rparr>, stats))"

fun optimize_sections :: "IrSection list \<Rightarrow> OptStats \<Rightarrow> (IrSection list \<times> OptStats) option" where
  "optimize_sections [] stats = Some ([], stats)"
| "optimize_sections (s # ss) stats =
     (case (if is_kind s = Kind_Text then optimizeSection s stats else Some (s, stats)) of
        None \<Rightarrow> None
      | Some (s, stats) \<Rightarrow>
          (case optimize_sections ss stats of
             None \<Rightarrow> None
           | Some (ss, stats) \<Rightarrow> Some (s # ss, stats)))"

definition run_optimizer :: "OptLevel \<Rightarrow> Module \<Rightarrow> (Module \<times> OptStats) option" where
  "run_optimizer level m =
     (let stats = no_stats\<lparr> os_instructions_before := instructionCount m \<rparr> in
      case (if level \<noteq> O0 then optimize_sections (mo_sections m) stats
            else Some (mo_sections m, stats)) of
        None \<Rightarrow> None
      | Some (sections, stats) \<Rightarrow>
          let m = m\<lparr> mo_sections := sections \<rparr>
          in Some (m, stats\<lparr> os_instructions_after := instructionCount m \<rparr>))"

end
