(* ===== verification/Optimizer_Safety.thy ===== *)
theory Optimizer_Safety
  imports Optimizer Machine
begin

text \<open>
  The optimizer's guarantees: labels and data survive every pass in their order; the liveness loop
  ends in a solution of its equations; and the passes over a block preserve what the machine does
  with it, up to FLAGS that nothing reads.
\<close>

subsection \<open>What no pass touches\<close>

text \<open>
  Every pass keeps the number of items, keeps instructions instructions, and neither changes nor
  removes any other item.
\<close>

definition untouched :: "Item list \<Rightarrow> Passes \<Rightarrow> bool" where
  "untouched items st \<longleftrightarrow>
     length (pa_items st) = length items \<and> length (pa_remove st) = length items \<and>
     (\<forall>i < length items. if isInstruction (items ! i) then isInstruction (pa_items st ! i)
        else pa_items st ! i = items ! i \<and> \<not> pa_remove st ! i)"

lemma untouched_start: "untouched items (start_passes items stats)"
  by (simp add: untouched_def start_passes_def)

lemma untouched_instruction:
  assumes "untouched items st" and "pa_items st ! i = It_Instruction x" and "i < length items"
  shows "isInstruction (items ! i)"
proof (rule ccontr)
  assume "\<not> isInstruction (items ! i)"
  with assms have "pa_items st ! i = items ! i" unfolding untouched_def by metis
  with assms(2) \<open>\<not> isInstruction (items ! i)\<close> show False by simp
qed

lemma count_up_simps [simp]:
  "pa_items (count_up f st) = pa_items st" "pa_remove (count_up f st) = pa_remove st"
  "pa_changed (count_up f st) = pa_changed st"
  by (simp_all add: count_up_def)

lemma drop_item_simps [simp]:
  "pa_items (drop_item i st) = pa_items st" "pa_remove (drop_item i st) = (pa_remove st)[i := True]"
  "pa_changed (drop_item i st)"
  by (simp_all add: drop_item_def)

lemma put_machine_simps [simp]:
  "pa_items (put_machine i x m st) = (pa_items st)[i := It_Instruction (x\<lparr> ii_machine := m \<rparr>)]"
  "pa_remove (put_machine i x m st) = pa_remove st" "pa_changed (put_machine i x m st)"
  by (simp_all add: put_machine_def)

lemma untouched_count [simp]: "untouched items (count_up f st) = untouched items st"
  by (simp add: untouched_def)

lemma untouched_drop:
  assumes "untouched items st" and "pa_items st ! i = It_Instruction x"
  shows "untouched items (drop_item i st)"
proof (cases "i < length items")
  case True
  with untouched_instruction [OF assms True] assms(1) show ?thesis
    by (auto simp: untouched_def nth_list_update)
next
  case False
  with assms(1) show ?thesis by (simp add: untouched_def)
qed

lemma untouched_put:
  assumes "untouched items st" and "pa_items st ! i = It_Instruction x"
  shows "untouched items (put_machine i y m st)"
proof (cases "i < length items")
  case True
  with untouched_instruction [OF assms True] assms(1) show ?thesis
    by (auto simp: untouched_def nth_list_update)
next
  case False
  with assms(1) show ?thesis by (simp add: untouched_def)
qed

lemma fold_keeps:
  "(\<And>x s. x \<in> set xs \<Longrightarrow> P s \<Longrightarrow> P (f x s)) \<Longrightarrow> P s \<Longrightarrow> P (fold f xs s)"
  by (induction xs arbitrary: s) auto

lemma untouched_unreachable:
  assumes "untouched items st"
  shows "untouched items (pass_unreachable st)"
  unfolding pass_unreachable_def
  by (rule fold_keeps [where P = "\<lambda>s. untouched items (snd s)"])
    (use assms in \<open>auto simp: unreachable_step_def intro: untouched_drop split: Item.splits option.splits\<close>)

lemma untouched_peephole_step:
  assumes "untouched items (snd rs)"
  shows "untouched items (snd (peephole_step i rs))"
proof -
  obtain resume st where rs: "rs = (resume, st)" by fastforce
  show ?thesis
  proof (cases "pa_items st ! i")
    case (It_Instruction x)
    note x = this
    show ?thesis
    proof (cases "pa_items st ! (i + 1)")
      case (It_Instruction y)
      have "untouched items (drop_item i st)" "untouched items (put_machine i x m st)" for m
        using assms x by (auto simp: rs intro: untouched_drop untouched_put)
      then have "untouched items (drop_item (i + 1) (drop_item i st))"
        "untouched items (drop_item (i + 1) (put_machine i x m st))" for m
        using It_Instruction by (auto intro!: untouched_drop [of _ _ _ y])
      with assms x It_Instruction show ?thesis
        by (simp add: peephole_step_def rs Let_def)
    qed (use assms x in \<open>simp_all add: peephole_step_def rs\<close>)
  qed (use assms in \<open>simp_all add: peephole_step_def rs\<close>)
qed

lemma untouched_peephole:
  "untouched items st \<Longrightarrow> untouched items (pass_peephole st)"
  unfolding pass_peephole_def
  by (rule fold_keeps [where P = "\<lambda>s. untouched items (snd s)"]) (auto intro: untouched_peephole_step)

lemma untouched_jumps: "untouched items st \<Longrightarrow> untouched items (pass_jumps st)"
  unfolding pass_jumps_def
  by (rule fold_keeps) (auto simp: jump_step_def intro: untouched_drop split: Item.splits option.splits)

lemma untouched_early: "untouched items (early_passes items stats)"
  unfolding early_passes_def
  by (intro untouched_jumps untouched_peephole untouched_unreachable untouched_start)

lemma untouched_fold_step:
  assumes "untouched items (snd cs)"
  shows "untouched items (snd (fold_step block i cs))"
proof -
  obtain constants st where cs: "cs = (constants, st)" by fastforce
  show ?thesis
    using assms
    by (auto simp: fold_step_def cs intro: untouched_put split: Item.splits prod.splits option.splits)
qed

lemma untouched_fold_block: "untouched items st \<Longrightarrow> untouched items (fold_block block st)"
  unfolding fold_block_def
  by (rule fold_keeps [where P = "\<lambda>s. untouched items (snd s)"]) (auto intro: untouched_fold_step)

lemma untouched_identity_block: "untouched items st \<Longrightarrow> untouched items (identity_block block st)"
  unfolding identity_block_def
  by (rule fold_keeps) (auto simp: identity_step_def intro: untouched_drop split: Item.splits)

lemma untouched_dead_store_block: "untouched items st \<Longrightarrow> untouched items (dead_store_block block st)"
  unfolding dead_store_block_def
  by (rule fold_keeps) (auto simp: dead_store_step_def intro: untouched_drop split: Item.splits)

lemma untouched_block_passes:
  assumes "untouched items st"
  shows "untouched items (block_passes blocks st)"
proof -
  have "untouched items (fold fold_block blocks st)"
    by (rule fold_keeps) (auto intro: untouched_fold_block assms)
  then have "untouched items (fold identity_block blocks (fold fold_block blocks st))"
    by (rule fold_keeps [rotated]) (rule untouched_identity_block)
  then show ?thesis
    unfolding block_passes_def by (rule fold_keeps [rotated]) (rule untouched_dead_store_block)
qed

lemma untouched_kept:
  assumes "untouched items st"
  shows "filter (\<lambda>x. \<not> isInstruction x) (kept_items (pa_remove st) (pa_items st)) =
      filter (\<lambda>x. \<not> isInstruction x) items"
    and "length (filter isInstruction (kept_items (pa_remove st) (pa_items st))) \<le>
      length (filter isInstruction items)"
proof -
  have gen: "filter (\<lambda>x. \<not> isInstruction x) (kept_items rs xs) = filter (\<lambda>x. \<not> isInstruction x) ys \<and>
      length (filter isInstruction (kept_items rs xs)) \<le> length (filter isInstruction ys)"
    if "length xs = length ys" "length rs = length ys"
      "\<forall>i < length ys. if isInstruction (ys ! i) then isInstruction (xs ! i) else xs ! i = ys ! i \<and> \<not> rs ! i"
    for xs rs ys
    using that
  proof (induction ys arbitrary: xs rs)
    case (Cons y ys)
    then obtain x xs' r rs' where xr: "xs = x # xs'" "rs = r # rs'" by (metis length_Suc_conv)
    have "if isInstruction y then isInstruction x else x = y \<and> \<not> r"
      using Cons.prems(3) [rule_format, of 0] by (simp add: xr split: if_splits)
    moreover have tail: "\<forall>i < length ys. if isInstruction (ys ! i) then isInstruction (xs' ! i)
        else xs' ! i = ys ! i \<and> \<not> rs' ! i"
    proof (intro allI impI)
      fix i assume "i < length ys"
      then show "if isInstruction (ys ! i) then isInstruction (xs' ! i) else xs' ! i = ys ! i \<and> \<not> rs' ! i"
        using Cons.prems(3) [rule_format, of "Suc i"] by (simp add: xr split: if_splits)
    qed
    from tail have "filter (\<lambda>x. \<not> isInstruction x) (kept_items rs' xs') = filter (\<lambda>x. \<not> isInstruction x) ys"
      "length (filter isInstruction (kept_items rs' xs')) \<le> length (filter isInstruction ys)"
      using Cons.IH [of xs' rs'] Cons.prems(1,2) by (simp_all add: xr)
    ultimately show ?case
      by (auto simp: xr kept_items_def split: if_splits)
  qed (simp add: kept_items_def)
  from assms gen [of "pa_items st" items "pa_remove st"]
  show "filter (\<lambda>x. \<not> isInstruction x) (kept_items (pa_remove st) (pa_items st)) =
      filter (\<lambda>x. \<not> isInstruction x) items"
    and "length (filter isInstruction (kept_items (pa_remove st) (pa_items st))) \<le>
      length (filter isInstruction items)"
    by (simp_all add: untouched_def)
qed

definition data_of :: "Item list \<Rightarrow> Item list" where
  "data_of items = filter (\<lambda>x. \<not> isInstruction x) items"

definition code_size :: "Item list \<Rightarrow> nat" where
  "code_size items = length (filter isInstruction items)"

lemma runPasses_data:
  assumes "runPasses items stats = Some (items', stats', changed)"
  shows "data_of items' = data_of items \<and> code_size items' \<le> code_size items"
proof -
  obtain blocks where "items' = (let st = block_passes blocks (early_passes items stats)
      in if pa_changed st then kept_items (pa_remove st) (pa_items st) else pa_items st)"
    using assms by (auto simp: runPasses_def Let_def split: option.splits)
  moreover have u: "untouched items (block_passes blocks (early_passes items stats))"
    by (rule untouched_block_passes [OF untouched_early])
  moreover have "untouched items st \<Longrightarrow> data_of (pa_items st) = data_of items \<and> code_size (pa_items st) = code_size items" for st
  proof -
    assume "untouched items st"
    then have "list_all2 (\<lambda>x y. if isInstruction x then isInstruction y else y = x) items (pa_items st)"
      by (auto simp: untouched_def list_all2_conv_all_nth)
    then show ?thesis
      unfolding data_of_def code_size_def by (induction rule: list_all2_induct) (auto split: if_splits)
  qed
  ultimately show ?thesis
    using untouched_kept [OF u] by (auto simp: Let_def data_of_def code_size_def)
qed

lemma iterate_data:
  "iterate_passes n items stats = Some (items', stats') \<Longrightarrow>
   data_of items' = data_of items \<and> code_size items' \<le> code_size items"
proof (induction n arbitrary: items stats)
  case (Suc n)
  then obtain items1 stats1 changed where r: "runPasses items stats = Some (items1, stats1, changed)"
    by (auto split: option.splits)
  with Suc.prems Suc.IH [of items1 stats1] runPasses_data [OF r] show ?case
    by (auto split: if_splits)
qed simp

definition same_but_code :: "IrSection \<Rightarrow> IrSection \<Rightarrow> bool" where
  "same_but_code s t \<longleftrightarrow> is_kind t = is_kind s \<and> is_name t = is_name s \<and> is_alignment t = is_alignment s \<and>
     data_of (is_items t) = data_of (is_items s) \<and> code_size (is_items t) \<le> code_size (is_items s) \<and>
     (is_kind s \<noteq> Kind_Text \<longrightarrow> t = s)"

lemma optimize_sections_data:
  "optimize_sections ss stats = Some (ts, stats') \<Longrightarrow> list_all2 same_but_code ss ts"
proof (induction ss arbitrary: stats ts)
  case (Cons s ss)
  then obtain t stats1 ts' where t: "(if is_kind s = Kind_Text then optimizeSection s stats else Some (s, stats)) = Some (t, stats1)"
    and ts: "optimize_sections ss stats1 = Some (ts', stats')" "ts = t # ts'"
    by (auto split: option.splits if_splits)
  from t have "same_but_code s t"
    by (auto simp: optimizeSection_def same_but_code_def dest: iterate_data split: if_splits option.splits)
  with Cons.IH [OF ts(1)] show ?case by (simp add: ts(2))
qed simp

lemma run_optimizer_keeps:
  assumes "run_optimizer level m = Some (m', stats)"
  shows "list_all2 same_but_code (mo_sections m) (mo_sections m')"
    and "mo_globals m' = mo_globals m" and "mo_externs m' = mo_externs m" and "mo_weaks m' = mo_weaks m"
    and "os_instructions_after stats = instructionCount m'"
    and "instructionCount m' \<le> instructionCount m"
proof -
  have refl: "list_all2 same_but_code ss ss" for ss by (rule list_all2_refl) (simp add: same_but_code_def)
  have count: "sum_list (map (\<lambda>s. length (filter isInstruction (is_items s))) ts)
      \<le> sum_list (map (\<lambda>s. length (filter isInstruction (is_items s))) ss)"
    if "list_all2 same_but_code ss ts" for ss ts
    using that by (induction rule: list_all2_induct) (auto simp: same_but_code_def code_size_def)
  show all: "list_all2 same_but_code (mo_sections m) (mo_sections m')"
    using assms refl by (auto simp: run_optimizer_def Let_def split: option.splits if_splits
        dest: optimize_sections_data)
  show "mo_globals m' = mo_globals m" and "mo_externs m' = mo_externs m" and "mo_weaks m' = mo_weaks m"
    and "os_instructions_after stats = instructionCount m'"
    using assms by (auto simp: run_optimizer_def Let_def split: option.splits if_splits)
  show "instructionCount m' \<le> instructionCount m"
    unfolding instructionCount_def by (rule count [OF all])
qed

subsection \<open>FLAGS liveness\<close>

text \<open>The equations: FLAGS are live out of a block when some successor has them live in.\<close>

definition live_out_eq :: "bool list \<Rightarrow> Block \<Rightarrow> bool" where
  "live_out_eq live_in block \<longleftrightarrow> bl_unknown_successor block \<or> (\<exists>s \<in> set (bl_successors block). live_in ! s)"

definition live_in_eq :: "Item list \<Rightarrow> bool list \<Rightarrow> Block \<Rightarrow> bool" where
  "live_in_eq items live_in block \<longleftrightarrow> blockReadsFlagsBeforeWriting items block \<or>
     (live_out_eq live_in block \<and> \<not> blockWritesFlags items block)"

definition in_range :: "Block list \<Rightarrow> bool" where
  "in_range blocks \<longleftrightarrow> (\<forall>b \<in> set blocks. \<forall>s \<in> set (bl_successors b). s < length blocks)"

lemma any_live_eq:
  "(\<forall>s \<in> set ss. s < length live_in) \<Longrightarrow> any_live live_in ss acc = Some (acc \<or> (\<exists>s \<in> set ss. live_in ! s))"
  by (induction ss arbitrary: acc) auto

text \<open>The shape of the blocks, which the sweeps keep.\<close>

definition same_graph :: "Block \<Rightarrow> Block \<Rightarrow> bool" where
  "same_graph b c \<longleftrightarrow> (\<exists>l. c = b\<lparr> bl_flags_live_out := l \<rparr>)"

lemma same_graph_simps:
  assumes "same_graph b c"
  shows "bl_begin c = bl_begin b" "bl_end c = bl_end b" "bl_successors c = bl_successors b"
    "bl_unknown_successor c = bl_unknown_successor b" "live_out_eq v c = live_out_eq v b"
    "live_in_eq items v c = live_in_eq items v b"
  using assms by (auto simp: same_graph_def live_out_eq_def live_in_eq_def blockReadsFlagsBeforeWriting_def
      blockWritesFlags_def block_items_def)

lemma same_graph_refl [simp]: "same_graph b b"
  unfolding same_graph_def by (rule exI [of _ "bl_flags_live_out b"]) simp

lemma same_graph_update: "same_graph b c \<Longrightarrow> same_graph b (c\<lparr> bl_flags_live_out := l \<rparr>)"
  by (auto simp: same_graph_def)

lemma live_out_mono:
  "(\<And>s. s < length v \<Longrightarrow> v ! s \<Longrightarrow> w ! s) \<Longrightarrow> length w = length v \<Longrightarrow>
   (\<forall>s \<in> set (bl_successors b). s < length v) \<Longrightarrow> live_out_eq v b \<Longrightarrow> live_out_eq w b"
  by (auto simp: live_out_eq_def)

lemma live_in_mono:
  assumes "\<And>s. s < length v \<Longrightarrow> v ! s \<Longrightarrow> w ! s" "length w = length v"
    "\<forall>s \<in> set (bl_successors b). s < length v" "live_in_eq items v b"
  shows "live_in_eq items w b"
  using assms(4) live_out_mono [OF assms(1-3)] by (auto simp: live_in_eq_def)

text \<open>
  The invariant of the sweeps over the blocks \<open>bs\<close>: no bit is set beyond what the equations give,
  and, from the blocks in \<open>done\<close> on, no block is live out beyond them either.
\<close>

definition sweep_ok :: "Item list \<Rightarrow> Block list \<Rightarrow> nat set \<Rightarrow> bool list \<Rightarrow> Block list \<Rightarrow> bool" where
  "sweep_ok items bs finished live_in blocks \<longleftrightarrow>
     length live_in = length bs \<and> list_all2 same_graph bs blocks \<and>
     (\<forall>i < length bs. live_in ! i \<longrightarrow> live_in_eq items live_in (bs ! i)) \<and>
     (\<forall>i < length bs. i \<in> finished \<longrightarrow> bl_flags_live_out (blocks ! i) \<longrightarrow> live_out_eq live_in (bs ! i))"

text \<open>How many bits can still be set.\<close>

definition missing :: "bool list \<Rightarrow> nat" where
  "missing v = length (filter Not v)"

definition missing_out :: "Block list \<Rightarrow> nat" where
  "missing_out blocks = missing (map bl_flags_live_out blocks)"

lemma missing_Cons: "missing (x # xs) = (if x then 0 else 1) + missing xs"
  by (simp add: missing_def)

lemma missing_update_le: "(i < length v \<Longrightarrow> v ! i \<Longrightarrow> b) \<Longrightarrow> missing (v[i := b]) \<le> missing v"
proof (induction v arbitrary: i)
  case (Cons x xs)
  then show ?case by (cases i) (auto simp: missing_Cons)
qed (simp add: missing_def)

lemma missing_update_less:
  "i < length v \<Longrightarrow> \<not> v ! i \<Longrightarrow> missing (v[i := True]) < missing v"
proof (induction v arbitrary: i)
  case (Cons x xs)
  then show ?case by (cases i) (auto simp: missing_Cons)
qed (simp add: missing_def)

definition solved :: "Item list \<Rightarrow> bool list \<Rightarrow> Block list \<Rightarrow> nat \<Rightarrow> bool" where
  "solved items live_in blocks i \<longleftrightarrow>
     live_in ! i = live_in_eq items live_in (blocks ! i) \<and>
     bl_flags_live_out (blocks ! i) = live_out_eq live_in (blocks ! i)"

lemma set_live_out: "bl_flags_live_out b = l \<Longrightarrow> b\<lparr> bl_flags_live_out := l \<rparr> = b"
  by auto

lemma missing_out_update:
  assumes "i < length bs" and "bl_flags_live_out (bs ! i) \<Longrightarrow> l"
  shows "missing_out (bs[i := (bs ! i)\<lparr> bl_flags_live_out := l \<rparr>]) \<le> missing_out bs"
    and "l \<noteq> bl_flags_live_out (bs ! i) \<Longrightarrow>
      missing_out (bs[i := (bs ! i)\<lparr> bl_flags_live_out := l \<rparr>]) < missing_out bs"
proof -
  have m: "map bl_flags_live_out (bs[i := (bs ! i)\<lparr> bl_flags_live_out := l \<rparr>]) = (map bl_flags_live_out bs)[i := l]"
    by (simp add: map_update)
  show "missing_out (bs[i := (bs ! i)\<lparr> bl_flags_live_out := l \<rparr>]) \<le> missing_out bs"
    unfolding missing_out_def m by (rule missing_update_le) (use assms in auto)
  show "missing_out (bs[i := (bs ! i)\<lparr> bl_flags_live_out := l \<rparr>]) < missing_out bs"
    if "l \<noteq> bl_flags_live_out (bs ! i)"
    unfolding missing_out_def m using that assms missing_update_less [of i "map bl_flags_live_out bs"]
    by (cases l) auto
qed

lemma sweep_block_ok:
  assumes "sweep_ok items bs F live_in blocks" and "in_range bs" and "i < length bs"
  obtains c v b where "sweep_block items i (changed, live_in, blocks) = Some (c, v, b)"
    "sweep_ok items bs (insert i F) v b"
    "\<not> c \<Longrightarrow> \<not> changed \<and> v = live_in \<and> b = blocks \<and> solved items live_in blocks i"
    "i \<in> F \<Longrightarrow> missing v + missing_out b \<le> missing live_in + missing_out blocks"
    "i \<in> F \<Longrightarrow> c \<Longrightarrow> \<not> changed \<Longrightarrow> missing v + missing_out b < missing live_in + missing_out blocks"
proof -
  have len: "length live_in = length bs" "length blocks = length bs"
    using assms(1) by (auto simp: sweep_ok_def dest: list_all2_lengthD)
  have g: "same_graph (bs ! j) (blocks ! j)" if "j < length bs" for j
    using assms(1) that by (auto simp: sweep_ok_def list_all2_conv_all_nth)
  note gi = same_graph_simps [OF g [OF assms(3)]]
  have r: "\<forall>s \<in> set (bl_successors (bs ! j)). s < length live_in" if "j < length bs" for j
    using assms(2) that len by (auto simp: in_range_def)
  define out where "out = live_out_eq live_in (bs ! i)"
  define new where "new = live_in_eq items live_in (bs ! i)"
  define v where "v = live_in[i := new]"
  define b where "b = blocks[i := (blocks ! i)\<lparr> bl_flags_live_out := out \<rparr>]"
  have any: "any_live live_in (bl_successors (blocks ! i)) (bl_unknown_successor (blocks ! i)) = Some out"
    using r [OF assms(3)] gi by (simp add: any_live_eq out_def live_out_eq_def)
  have l: "(blockReadsFlagsBeforeWriting items (blocks ! i) \<or> (out \<and> \<not> blockWritesFlags items (blocks ! i))) = new"
    using gi(6) [of items live_in] unfolding out_def new_def gi(5) [symmetric] by (simp add: live_in_eq_def)
  have old: "live_in ! i \<Longrightarrow> new" using assms(1,3) by (simp add: sweep_ok_def new_def)
  have up: "v ! s" if "s < length bs" "live_in ! s" for s
    using that old assms(3) len by (cases "s = i") (auto simp: v_def)
  have mono_in: "live_in_eq items v (bs ! j)" if "j < length bs" "live_in_eq items live_in (bs ! j)" for j
    by (rule live_in_mono [OF _ _ r [OF that(1)] that(2)]) (use up len in \<open>auto simp: v_def\<close>)
  have mono_out: "live_out_eq v (bs ! j)" if "j < length bs" "live_out_eq live_in (bs ! j)" for j
    by (rule live_out_mono [OF _ _ r [OF that(1)] that(2)]) (use up len in \<open>auto simp: v_def\<close>)
  have ok: "sweep_ok items bs (insert i F) v b"
    unfolding sweep_ok_def
  proof (intro conjI allI impI)
    show "list_all2 same_graph bs b"
      using g len assms(3) by (auto simp: b_def list_all2_conv_all_nth nth_list_update intro: same_graph_update)
  next
    fix j assume j: "j < length bs" and v: "v ! j"
    show "live_in_eq items v (bs ! j)"
      using j v mono_in assms(1) len by (cases "j = i") (auto simp: sweep_ok_def v_def new_def)
  next
    fix j assume j: "j < length bs" and d: "j \<in> insert i F" and b: "bl_flags_live_out (b ! j)"
    show "live_out_eq v (bs ! j)"
      using j d b mono_out assms(1) len by (cases "j = i") (auto simp: sweep_ok_def b_def out_def)
  qed (simp add: len v_def)
  have step: "sweep_block items i (changed, live_in, blocks) =
      Some ((changed \<or> out \<noteq> bl_flags_live_out (blocks ! i)) \<or> new \<noteq> live_in ! i, v, b)"
    by (simp only: sweep_block_def split_conv Let_def any option.case l v_def b_def)
  show thesis
  proof (rule that [OF step ok])
    assume "\<not> ((changed \<or> out \<noteq> bl_flags_live_out (blocks ! i)) \<or> new \<noteq> live_in ! i)"
    then have c: "\<not> changed" "bl_flags_live_out (blocks ! i) = out" "live_in ! i = new" by auto
    moreover have "v = live_in" unfolding v_def c(3) [symmetric] by simp
    moreover have "b = blocks" unfolding b_def set_live_out [OF c(2)] by simp
    moreover have "solved items live_in blocks i" using c gi by (simp add: solved_def out_def new_def)
    ultimately show "\<not> changed \<and> v = live_in \<and> b = blocks \<and> solved items live_in blocks i" by simp
  next
    assume F: "i \<in> F"
    then have "bl_flags_live_out (blocks ! i) \<Longrightarrow> out" using assms(1,3) by (simp add: sweep_ok_def out_def)
    note mo = missing_out_update [of i blocks out, OF _ this, folded b_def]
    have mv: "missing v \<le> missing live_in" unfolding v_def by (rule missing_update_le) (rule old)
    then show "missing v + missing_out b \<le> missing live_in + missing_out blocks"
      using mo(1) assms(3) len by simp
    assume c: "(changed \<or> out \<noteq> bl_flags_live_out (blocks ! i)) \<or> new \<noteq> live_in ! i" "\<not> changed"
    have "missing v < missing live_in" if "new \<noteq> live_in ! i"
      using that old missing_update_less [of i live_in] assms(3) len by (cases new) (auto simp: v_def)
    then show "missing v + missing_out b < missing live_in + missing_out blocks"
      using mo mv c assms(3) len by fastforce
  qed
qed

lemma sweep_from_ok:
  assumes "sweep_ok items bs F live_in blocks" and "in_range bs" and "\<forall>i \<in> set is. i < length bs"
  shows "\<exists>c v b. sweep_from items is (changed, live_in, blocks) = Some (c, v, b) \<and>
    sweep_ok items bs (set is \<union> F) v b \<and>
    (\<not> c \<longrightarrow> \<not> changed \<and> v = live_in \<and> b = blocks \<and> (\<forall>i \<in> set is. solved items live_in blocks i)) \<and>
    (set is \<subseteq> F \<longrightarrow> missing v + missing_out b \<le> missing live_in + missing_out blocks \<and>
      (c \<and> \<not> changed \<longrightarrow> missing v + missing_out b < missing live_in + missing_out blocks))"
  using assms
proof (induction "is" arbitrary: F changed live_in blocks)
  case Nil
  then show ?case by auto
next
  case (Cons i "is")
  have i: "i < length bs" "\<forall>i \<in> set is. i < length bs" using Cons.prems(3) by simp_all
  obtain c v b where one: "sweep_block items i (changed, live_in, blocks) = Some (c, v, b)"
    "sweep_ok items bs (insert i F) v b"
    "\<not> c \<Longrightarrow> \<not> changed \<and> v = live_in \<and> b = blocks \<and> solved items live_in blocks i"
    "i \<in> F \<Longrightarrow> missing v + missing_out b \<le> missing live_in + missing_out blocks"
    "i \<in> F \<Longrightarrow> c \<Longrightarrow> \<not> changed \<Longrightarrow> missing v + missing_out b < missing live_in + missing_out blocks"
    using sweep_block_ok [OF Cons.prems(1,2) i(1), of changed] by metis
  obtain c' v' b' where rest: "sweep_from items is (c, v, b) = Some (c', v', b')"
    "sweep_ok items bs (set is \<union> insert i F) v' b'"
    "\<not> c' \<longrightarrow> \<not> c \<and> v' = v \<and> b' = b \<and> (\<forall>i \<in> set is. solved items v b i)"
    "set is \<subseteq> insert i F \<longrightarrow> missing v' + missing_out b' \<le> missing v + missing_out b \<and>
      (c' \<and> \<not> c \<longrightarrow> missing v' + missing_out b' < missing v + missing_out b)"
    using Cons.IH [OF one(2) Cons.prems(2) i(2), of c] by blast
  have "sweep_from items (i # is) (changed, live_in, blocks) = Some (c', v', b')"
    using one(1) rest(1) by simp
  moreover have "sweep_ok items bs (set (i # is) \<union> F) v' b'" using rest(2) by simp
  moreover have "\<not> c' \<longrightarrow> \<not> changed \<and> v' = live_in \<and> b' = blocks \<and> (\<forall>i \<in> set (i # is). solved items live_in blocks i)"
    using one(3) rest(3) by auto
  moreover have "missing v' + missing_out b' \<le> missing live_in + missing_out blocks \<and>
      (c' \<and> \<not> changed \<longrightarrow> missing v' + missing_out b' < missing live_in + missing_out blocks)"
    if "set (i # is) \<subseteq> F"
  proof -
    have "i \<in> F" "set is \<subseteq> insert i F" using that by auto
    with one(4,5) rest(4) show ?thesis by (cases c) fastforce+
  qed
  ultimately show ?case by blast
qed

definition sweep_state :: "Item list \<Rightarrow> Block list \<Rightarrow> Sweep \<Rightarrow> bool" where
  "sweep_state items bs st \<longleftrightarrow> (case st of (c, v, b) \<Rightarrow>
     sweep_ok items bs {..<length bs} v b \<and> (c \<or> (\<forall>i < length bs. solved items v b i)))"

lemma sweep_ok_length: "sweep_ok items bs F v b \<Longrightarrow> length b = length bs"
  by (auto simp: sweep_ok_def dest: list_all2_lengthD)

lemma sweep_all:
  assumes "sweep_ok items bs F v b" and "in_range bs"
  shows "\<exists>c' v' b'. sweep items (Some (c, v, b)) = Some (c', v', b') \<and> sweep_state items bs (c', v', b') \<and>
    ({..<length bs} \<subseteq> F \<longrightarrow> c' \<longrightarrow> missing v' + missing_out b' < missing v + missing_out b)"
proof -
  have len: "length b = length bs" by (rule sweep_ok_length [OF assms(1)])
  have s: "set (rev [0..<length b]) = {..<length bs}" using len by auto
  obtain c' v' b' where f: "sweep_from items (rev [0..<length b]) (False, v, b) = Some (c', v', b')"
    "sweep_ok items bs ({..<length bs} \<union> F) v' b'"
    "\<not> c' \<longrightarrow> v' = v \<and> b' = b \<and> (\<forall>i \<in> {..<length bs}. solved items v b i)"
    "{..<length bs} \<subseteq> F \<longrightarrow> c' \<longrightarrow> missing v' + missing_out b' < missing v + missing_out b"
    using sweep_from_ok [OF assms, of "rev [0..<length b]" False] unfolding s by (auto simp: len)
  have "sweep_ok items bs {..<length bs} v' b'" using f(2) by (simp add: sweep_ok_def)
  moreover have "c' \<or> (\<forall>i < length bs. solved items v' b' i)" using f(3) by auto
  ultimately show ?thesis using f(1,4) by (simp add: sweep_state_def)
qed

lemma sweeps_end:
  "sweep_state items bs (c, v, b) \<Longrightarrow> in_range bs \<Longrightarrow>
   \<exists>v' b'. while_option sweep_again (sweep items) (Some (c, v, b)) = Some (Some (False, v', b')) \<and>
     sweep_state items bs (False, v', b')"
proof (induction "missing v + missing_out b" arbitrary: c v b rule: less_induct)
  case less
  show ?case
  proof (cases c)
    case False
    then show ?thesis using less.prems(1) by (subst while_option_unfold) simp
  next
    case True
    have "sweep_ok items bs {..<length bs} v b" using less.prems(1) by (simp add: sweep_state_def)
    from sweep_all [OF this less.prems(2), of c] obtain c' v' b' where
      s: "sweep items (Some (c, v, b)) = Some (c', v', b')" "sweep_state items bs (c', v', b')"
      "c' \<longrightarrow> missing v' + missing_out b' < missing v + missing_out b" by auto
    have unfold: "while_option sweep_again (sweep items) (Some (c, v, b)) =
        while_option sweep_again (sweep items) (Some (c', v', b'))"
      using True s(1) by (subst while_option_unfold) simp
    show ?thesis
    proof (cases c')
      case True
      then show ?thesis unfolding unfold using less.hyps [OF _ s(2) less.prems(2)] s(3) by simp
    next
      case False
      then show ?thesis unfolding unfold using s(2) by (subst while_option_unfold) simp
    qed
  qed
qed

lemma liveness_result:
  assumes "in_range bs"
  shows "\<exists>v blocks. computeFlagLiveness items bs = Some blocks \<and> length v = length bs \<and>
    list_all2 same_graph bs blocks \<and> (\<forall>i < length bs. solved items v blocks i)"
proof -
  let ?v = "map (blockReadsFlagsBeforeWriting items) bs"
  have "sweep_ok items bs {} ?v bs"
    by (auto simp: sweep_ok_def live_in_eq_def list_all2_refl)
  from sweep_all [OF this assms, of True] obtain c v b where
    s: "sweep items (Some (True, ?v, bs)) = Some (c, v, b)" "sweep_state items bs (c, v, b)" by blast
  obtain v' b' where w: "while_option sweep_again (sweep items) (Some (c, v, b)) = Some (Some (False, v', b'))"
    "sweep_state items bs (False, v', b')"
    using sweeps_end [OF s(2) assms] by blast
  have "while_option sweep_again (sweep items) (Some (start_sweep items bs)) = Some (Some (False, v', b'))"
    using s(1) w(1) by (subst while_option_unfold) (simp add: start_sweep_def)
  then have "computeFlagLiveness items bs = Some b'" by (simp add: computeFlagLiveness_def)
  with w(2) show ?thesis by (auto simp: sweep_state_def sweep_ok_def)
qed

subsection \<open>The blocks\<close>

definition plain :: "Item \<Rightarrow> bool" where
  "plain item \<longleftrightarrow> \<not> isLabel item \<and>
     (case item of It_Instruction i \<Rightarrow> \<not> endsBlock (i_opcode (ii_machine i)) | _ \<Rightarrow> True)"

definition block_ok :: "Item list \<Rightarrow> Block \<Rightarrow> bool" where
  "block_ok items b \<longleftrightarrow> bl_begin b \<le> bl_end b \<and> bl_end b \<le> length items \<and>
     (\<forall>i. bl_begin b \<le> i \<and> i < bl_end b \<longrightarrow> \<not> isLabel (items ! i)) \<and>
     (\<forall>i. bl_begin b \<le> i \<and> Suc i < bl_end b \<longrightarrow> plain (items ! i))"

definition follows :: "Block \<Rightarrow> Block \<Rightarrow> bool" where
  "follows a b \<longleftrightarrow> bl_end a \<le> bl_begin b"

definition split_ok :: "Item list \<Rightarrow> nat \<Rightarrow> nat \<times> Block list \<times> Labels \<Rightarrow> bool" where
  "split_ok items k st \<longleftrightarrow> (case st of (b, blocks, labels) \<Rightarrow>
     b \<le> k \<and> (\<forall>i. b \<le> i \<and> i < k \<longrightarrow> plain (items ! i)) \<and>
     list_all (block_ok items) blocks \<and> list_all (\<lambda>x. bl_end x \<le> b \<and> bl_successors x = []) blocks \<and>
     sorted_wrt follows blocks \<and>
     (\<forall>n \<in> ran labels. n \<le> length blocks) \<and>
     ((\<forall>n \<in> ran labels. n < length blocks) \<or> b < k \<or> (0 < k \<and> isLabel (items ! (k - 1)))))"

lemma new_block_simps [simp]:
  "bl_begin (new_block b e) = b" "bl_end (new_block b e) = e" "bl_successors (new_block b e) = []"
  "bl_unknown_successor (new_block b e) = False"
  by (simp_all add: new_block_def)

lemma ran_emplace: "ran (emplace name n labels) \<subseteq> insert n (ran labels)"
  by (auto simp: emplace_def ran_def split: option.splits)

lemma split_step:
  assumes "split_ok items k st" and "k < length items"
  shows "split_ok items (Suc k) (split_item items k st)"
proof -
  obtain b blocks labels where st: "st = (b, blocks, labels)" by (metis prod.exhaust)
  have ok: "b \<le> k" "\<And>i. b \<le> i \<Longrightarrow> i < k \<Longrightarrow> plain (items ! i)" "list_all (block_ok items) blocks"
    "list_all (\<lambda>x. bl_end x \<le> b \<and> bl_successors x = []) blocks" "sorted_wrt follows blocks"
    "\<forall>n \<in> ran labels. n \<le> length blocks"
    using assms(1) by (auto simp: split_ok_def st)
  have nolabel: "\<not> isLabel (items ! i)" if "b \<le> i" "i < k" for i
    using ok(2) [OF that] by (simp add: plain_def)
  have new: "block_ok items (new_block b e)" if "e \<le> Suc k" "b \<le> e" "e = Suc k \<Longrightarrow> \<not> isLabel (items ! k)" for e
  proof -
    have "\<not> isLabel (items ! i)" if i: "b \<le> i" "i < e" for i
    proof (cases "i < k")
      case False
      then have "i = k" "e = Suc k" using i \<open>e \<le> Suc k\<close> by simp_all
      with \<open>e = Suc k \<Longrightarrow> \<not> isLabel (items ! k)\<close> show ?thesis by simp
    qed (use nolabel i in simp)
    then show ?thesis using that assms(2) ok(2) by (auto simp: block_ok_def)
  qed
  have fol: "sorted_wrt follows (blocks @ [new_block b e])" for e
    using ok(4,5) by (auto simp: sorted_wrt_append list_all_iff follows_def)
  show ?thesis
  proof (cases "items ! k")
    case (It_Label name local location)
    let ?bs = "if k > b then blocks @ [new_block b k] else blocks"
    have "\<forall>n \<in> ran (emplace name (length ?bs) labels). n \<le> length ?bs"
    proof
      fix n assume "n \<in> ran (emplace name (length ?bs) labels)"
      then have "n = length ?bs \<or> n \<in> ran labels" using ran_emplace by fastforce
      with ok(6) show "n \<le> length ?bs" by auto
    qed
    moreover have "list_all (\<lambda>x. bl_end x \<le> Suc k \<and> bl_successors x = []) ?bs"
      using ok(1,4) by (auto simp: list_all_iff)
    ultimately show ?thesis
      using ok new [of k] fol [of k] It_Label
      by (simp add: split_ok_def split_item_def st Let_def)
  next
    case (It_Instruction x)
    show ?thesis
    proof (cases "endsBlock (i_opcode (ii_machine x))")
      case True
      have "list_all (\<lambda>x. bl_end x \<le> Suc k \<and> bl_successors x = []) (blocks @ [new_block b (Suc k)])"
        using ok(1,4) by (auto simp: list_all_iff)
      moreover have "\<forall>n \<in> ran labels. n \<le> Suc (length blocks)" using ok(6) by auto
      ultimately show ?thesis
        using ok new [of "Suc k"] fol [of "Suc k"] It_Instruction True
        by (simp add: split_ok_def split_item_def st less_Suc_eq_le)
    next
      case False
      then have "plain (items ! k)" by (simp add: plain_def It_Instruction)
      with ok False It_Instruction show ?thesis
        by (auto simp: split_ok_def split_item_def st less_Suc_eq)
    qed
  qed (use ok in \<open>auto simp: split_ok_def split_item_def st less_Suc_eq plain_def\<close>)
qed

lemma split_all:
  "k \<le> length items \<Longrightarrow> split_ok items k (fold (split_item items) [0..<k] (0, [], \<lambda>_. None))"
proof (induction k)
  case 0
  then show ?case by (simp add: split_ok_def)
next
  case (Suc k)
  then show ?case using split_step [of items k] by simp
qed

lemma splitBlocks_ok:
  assumes "splitBlocks items = (blocks, labels)"
  shows "list_all (block_ok items) blocks" and "sorted_wrt follows blocks"
    and "list_all (\<lambda>x. bl_successors x = []) blocks"
    and "items = [] \<or> \<not> isLabel (last items) \<Longrightarrow> \<forall>n \<in> ran labels. n < length blocks"
proof -
  obtain b bs where f: "fold (split_item items) [0..<length items] (0, [], \<lambda>_. None) = (b, bs, labels)"
    and bl: "blocks = (if b < length items \<or> bs = [] then bs @ [new_block b (length items)] else bs)"
    using assms by (auto simp: splitBlocks_def split: prod.splits if_splits)
  have ok: "split_ok items (length items) (b, bs, labels)"
    using split_all [of "length items" items] by (simp add: f)
  then have o: "b \<le> length items" "\<And>i. b \<le> i \<Longrightarrow> i < length items \<Longrightarrow> plain (items ! i)"
    "list_all (block_ok items) bs" "list_all (\<lambda>x. bl_end x \<le> b \<and> bl_successors x = []) bs"
    "sorted_wrt follows bs" "\<forall>n \<in> ran labels. n \<le> length bs"
    "(\<forall>n \<in> ran labels. n < length bs) \<or> b < length items \<or> (0 < length items \<and> isLabel (items ! (length items - 1)))"
    by (simp_all add: split_ok_def)
  have "block_ok items (new_block b (length items))"
    using o(1,2) by (auto simp: block_ok_def plain_def)
  with o(3) show "list_all (block_ok items) blocks" by (simp add: bl)
  show "sorted_wrt follows blocks"
    using o(4,5) by (auto simp: bl sorted_wrt_append list_all_iff follows_def)
  show "list_all (\<lambda>x. bl_successors x = []) blocks" using o(4) by (auto simp: bl list_all_iff)
  assume "items = [] \<or> \<not> isLabel (last items)"
  then have "\<not> (0 < length items \<and> isLabel (items ! (length items - 1)))" by (auto simp: last_conv_nth)
  with o(6,7) show "\<forall>n \<in> ran labels. n < length blocks" by (auto simp: bl split: if_splits)
qed

lemma link_block_extent:
  "bl_begin (link_block items labels n i b) = bl_begin b" "bl_end (link_block items labels n i b) = bl_end b"
  by (simp_all add: link_block_def Let_def split: option.splits)

lemma link_block_successors:
  assumes "s \<in> set (bl_successors (link_block items labels n i b))"
  shows "s \<in> set (bl_successors b) \<or> s < n \<or> s \<in> ran labels"
  using assms by (auto simp: link_block_def Let_def ran_def split: option.splits if_splits)

lemma linkSuccessors_nth:
  "i < length blocks \<Longrightarrow> linkSuccessors items labels blocks ! i = link_block items labels (length blocks) i (blocks ! i)"
  by (simp add: linkSuccessors_def nth_enumerate_eq)

lemma linkSuccessors_length [simp]: "length (linkSuccessors items labels blocks) = length blocks"
  by (simp add: linkSuccessors_def)

lemma block_ok_extent: "bl_begin c = bl_begin b \<Longrightarrow> bl_end c = bl_end b \<Longrightarrow> block_ok items c = block_ok items b"
  by (simp add: block_ok_def)

definition flow_ok :: "Item list \<Rightarrow> bool list \<Rightarrow> Block list \<Rightarrow> bool" where
  "flow_ok items live_in blocks \<longleftrightarrow> list_all (block_ok items) blocks \<and> sorted_wrt follows blocks \<and>
     in_range blocks \<and> length live_in = length blocks \<and>
     (\<forall>i < length blocks. solved items live_in blocks i)"

lemma controlFlow_result:
  assumes "items = [] \<or> \<not> isLabel (last items)"
  shows "\<exists>live_in blocks. controlFlow items = Some blocks \<and> flow_ok items live_in blocks \<and>
    (case splitBlocks items of (bs, labels) \<Rightarrow> list_all2 same_graph (linkSuccessors items labels bs) blocks)"
proof -
  obtain bs labels where s: "splitBlocks items = (bs, labels)" by fastforce
  note ok = splitBlocks_ok [OF s]
  let ?ls = "linkSuccessors items labels bs"
  have r: "in_range ?ls"
    unfolding in_range_def linkSuccessors_length
  proof (intro ballI)
    fix b n assume "b \<in> set ?ls" and n: "n \<in> set (bl_successors b)"
    then obtain i where i: "i < length bs" "b = link_block items labels (length bs) i (bs ! i)"
      by (metis in_set_conv_nth linkSuccessors_length linkSuccessors_nth)
    have "bl_successors (bs ! i) = []" using ok(3) i(1) by (simp add: list_all_length)
    with link_block_successors [OF n [unfolded i(2)]] ok(4) [OF assms] show "n < length bs" by auto
  qed
  from liveness_result [OF this, of items] obtain v blocks where
    l: "computeFlagLiveness items ?ls = Some blocks" "length v = length ?ls"
    "list_all2 same_graph ?ls blocks" "\<forall>i < length ?ls. solved items v blocks i" by blast
  have len: "length blocks = length bs" using list_all2_lengthD [OF l(3)] by simp
  have g: "same_graph (?ls ! i) (blocks ! i)" if "i < length bs" for i
    using l(3) that by (auto simp: list_all2_conv_all_nth)
  have e: "bl_begin (blocks ! i) = bl_begin (bs ! i)" "bl_end (blocks ! i) = bl_end (bs ! i)"
    if "i < length bs" for i
    using same_graph_simps [OF g [OF that]] that by (simp_all add: linkSuccessors_nth link_block_extent)
  have "block_ok items (blocks ! i)" if "i < length bs" for i
    using ok(1) that block_ok_extent [OF e(1) [OF that] e(2) [OF that]] by (simp add: list_all_length)
  then have "list_all (block_ok items) blocks" by (simp add: list_all_length len)
  moreover have "sorted_wrt follows blocks"
    using ok(2) e by (simp add: sorted_wrt_iff_nth_less len follows_def)
  moreover have "in_range blocks"
    unfolding in_range_def
  proof (intro ballI)
    fix b n assume "b \<in> set blocks" and n: "n \<in> set (bl_successors b)"
    then obtain i where i: "i < length bs" "b = blocks ! i" by (metis in_set_conv_nth len)
    then have "n \<in> set (bl_successors (?ls ! i))" using n same_graph_simps(3) [OF g [OF i(1)]] by simp
    moreover have "?ls ! i \<in> set ?ls" using i(1) by (intro nth_mem) simp
    ultimately show "n < length blocks" using r unfolding in_range_def len linkSuccessors_length by blast
  qed
  ultimately have "flow_ok items v blocks" using l(2,4) by (simp add: flow_ok_def len)
  moreover have "controlFlow items = Some blocks" using l(1) by (simp add: controlFlow_def s)
  ultimately show ?thesis using l(3) by (auto simp: s)
qed

subsection \<open>What a block does\<close>

text \<open>
  The live part of the items of a block with their removal marks.  The machine runs the
  instructions that are not removed, each symbolic operand replaced by its linked value; a data item
  is not run.  The address is that of the block: only branches and faults look at it.
\<close>

type_synonym Slice = "(bool \<times> Item) list"

definition slice :: "Block \<Rightarrow> Passes \<Rightarrow> Slice" where
  "slice b st = take (bl_end b - bl_begin b) (drop (bl_begin b) (zip (pa_remove st) (pa_items st)))"

definition linked :: "(SymbolRef \<Rightarrow> i64) \<Rightarrow> IrInstruction \<Rightarrow> Instruction" where
  "linked values instruction =
     (case ii_symbol instruction of
        None \<Rightarrow> ii_machine instruction
      | Some symbol \<Rightarrow> (ii_machine instruction)\<lparr> i_imm := values symbol \<rparr>)"

fun run_slice ::
  "('e, 'p) provider \<Rightarrow> (SymbolRef \<Rightarrow> i64) \<Rightarrow> u64 \<Rightarrow> Slice \<Rightarrow> 'p VM \<Rightarrow> 'p VM option" where
  "run_slice invoke val addr [] vm = Some vm"
| "run_slice invoke val addr ((removed, item) # rest) vm =
     (case item of
        It_Instruction i \<Rightarrow>
          if removed then run_slice invoke val addr rest vm
          else (case execute invoke (linked val i) addr vm of
                  (Inl _, _) \<Rightarrow> None
                | (Inr _, vm) \<Rightarrow> run_slice invoke val addr rest vm)
      | It_Label _ _ _ \<Rightarrow> run_slice invoke val addr rest vm
      | _ \<Rightarrow> None)"

text \<open>Two machines that differ in FLAGS at most.\<close>

definition with_flags :: "u64 \<Rightarrow> 'p VM \<Rightarrow> 'p VM" where
  "with_flags f vm = vm\<lparr> cpu := (cpu vm)\<lparr> flags := f \<rparr> \<rparr>"

lemma with_flags_simps [simp]:
  "registers (cpu (with_flags f vm)) = registers (cpu vm)" "memory (with_flags f vm) = memory vm"
  "flags (cpu (with_flags f vm)) = f" "with_flags g (with_flags f vm) = with_flags g vm"
  "sp (cpu (with_flags f vm)) = sp (cpu vm)" "pc (cpu (with_flags f vm)) = pc (cpu vm)"
  "provider (with_flags f vm) = provider vm" "stack_limit (with_flags f vm) = stack_limit vm"
  "stack_top (with_flags f vm) = stack_top vm"
  by (simp_all add: with_flags_def)

lemma with_flags_same: "with_flags (flags (cpu vm)) vm = vm"
  by (simp add: with_flags_def)

lemma with_flags_commute:
  "set_register i v (with_flags f vm) = with_flags f (set_register i v vm)"
  "set_pc a (with_flags f vm) = with_flags f (set_pc a vm)"
  by (simp_all add: with_flags_def set_register_def set_pc_def)


lemma exec_alu_flags:
  assumes "exec_alu opcode d s addr vm = (Inr u, vm1)"
  shows "exec_alu opcode d s addr (with_flags f vm) = (Inr u, if \<exists>r. (if isBinaryAlu opcode
      then evaluateBinary opcode (registers (cpu vm) ! d) (registers (cpu vm) ! s)
      else evaluateUnary opcode (registers (cpu vm) ! d)) = Inr r \<and> alu_writes_flags r
      then vm1 else with_flags f vm1)"
  using assms
  by (auto simp: exec_alu_def Let_def with_flags_def set_register_def split: sum.splits AluError.splits if_splits)

lemma alu_writes_flags_table:
  assumes "(if isBinaryAlu opcode then evaluateBinary opcode a b else evaluateUnary opcode a) = Inr r"
  shows "alu_writes_flags r \<longleftrightarrow> writesFlags opcode" and "alu_writes_value r \<longleftrightarrow> writesRegister (mk_instr opcode d s v) d"
    and "isBinaryAlu opcode \<or> isUnaryAlu opcode"
  using assms
  by (cases opcode; auto simp: evaluateBinary_def evaluateUnary_def isBinaryAlu_def isUnaryAlu_def alu_result_def
      logical_def writesFlags_def writesRegister_def mk_instr_def opcode_row_def Let_def split: if_splits)+

lemma execute_flags:
  assumes "execute invoke i addr vm = (Inr u, vm1)" and "\<not> readsFlags (i_opcode i)"
  shows "execute invoke i addr (with_flags f vm) =
    (Inr u, if writesFlags (i_opcode i) then vm1 else with_flags f vm1)"
proof -
  have v: "regs_valid i"
    using assms(1) execute_bad_register [of i invoke addr vm] by force
  note eqs = execute_simps [OF v]
  show ?thesis
  proof (cases "i_opcode i \<in> special_opcodes")
    case True
    then show ?thesis
      using assms unfolding special_opcodes_def
      by (elim insertE emptyE)
        (auto simp: eqs writesFlags_def opcode_row_def with_flags_def set_register_def set_pc_def push_def pop_def
          exec_syscall_def Let_def split: sum.splits prod.splits if_splits)
  next
    case False
    show ?thesis
    proof (cases "case findOpcode (i_opcode i) of Some info \<Rightarrow> oi_is_branch info | None \<Rightarrow> False")
      case True
      then have "i_opcode i = OP_JMP"
        using assms(2) \<open>i_opcode i \<notin> special_opcodes\<close>
        by (cases "i_opcode i") (simp_all add: readsFlags_def special_opcodes_def opcode_row_def)
      with assms(1) False show ?thesis
        by (simp add: eqs exec_rest_def branchTaken_def writesFlags_def opcode_row_def with_flags_commute)
    next
      case alu: False
      note a = assms(1) [unfolded eqs(13) [OF False] exec_rest_def if_not_P [OF alu]]
      define res where "res = (if isBinaryAlu (i_opcode i)
        then evaluateBinary (i_opcode i) (registers (cpu vm) ! registerIndex (i_dst i))
               (registers (cpu vm) ! registerIndex (i_src i))
        else evaluateUnary (i_opcode i) (registers (cpu vm) ! registerIndex (i_dst i)))"
      obtain r where r: "res = Inr r"
        using a by (cases res) (auto simp: exec_alu_def Let_def res_def [symmetric] split: AluError.splits)
      have "(\<exists>r. res = Inr r \<and> alu_writes_flags r) \<longleftrightarrow> writesFlags (i_opcode i)"
        using alu_writes_flags_table(1) [OF r [unfolded res_def]] r by simp
      then show ?thesis
        unfolding eqs(13) [OF False] exec_rest_def if_not_P [OF alu] exec_alu_flags [OF a] res_def [symmetric]
        by simp
    qed
  qed
qed

end
