(* ===== verification/Optimizer_Sim.thy ===== *)
theory Optimizer_Sim
  imports Optimizer_Safety
begin

text \<open>
  The passes over a block preserve what the machine does with it: constant folding up to FLAGS that
  nothing reads, identities and dead stores exactly.
\<close>

lemma execute_regs_valid: "execute invoke i addr vm = (Inr u, vm') \<Longrightarrow> regs_valid i"
  using execute_bad_register [of i invoke addr vm] by force

lemma exec_alu_Inr:
  assumes "exec_alu opcode d s addr vm = (Inr u, vm')"
  obtains r where "(if isBinaryAlu opcode
      then evaluateBinary opcode (registers (cpu vm) ! d) (registers (cpu vm) ! s)
      else evaluateUnary opcode (registers (cpu vm) ! d)) = Inr r"
    "vm' = (let vm = (if alu_writes_value r then set_register d (alu_value r) vm else vm)
       in if alu_writes_flags r then with_flags (alu_flags r AND kFlagsMask) vm else vm)"
  using assms that by (auto simp: exec_alu_def Let_def with_flags_def split: sum.splits AluError.splits)

lemma not_branch_alu:
  "\<not> endsBlock opcode \<Longrightarrow> opcode \<notin> special_opcodes \<Longrightarrow>
   \<not> (case findOpcode opcode of Some info \<Rightarrow> oi_is_branch info | None \<Rightarrow> False) \<and>
   (isBinaryAlu opcode \<or> isUnaryAlu opcode)"
  by (cases opcode) (simp_all add: endsBlock_def special_opcodes_def isBinaryAlu_def isUnaryAlu_def opcode_row_def)

text \<open>An instruction inside a block changes no register but its destination.\<close>

lemma plain_registers:
  assumes "execute invoke i addr vm = (Inr u, vm')" and "\<not> endsBlock (i_opcode i)"
  shows "\<exists>v. registers (cpu vm') = (if writesRegister i (i_dst i)
    then (registers (cpu vm))[registerIndex (i_dst i) := v] else registers (cpu vm))"
proof -
  note eqs = execute_simps [OF execute_regs_valid [OF assms(1)]]
  show ?thesis
  proof (cases "i_opcode i \<in> special_opcodes")
    case True
    then show ?thesis
      using assms unfolding special_opcodes_def
      by (elim insertE emptyE)
        (auto simp: eqs writesRegister_def opcode_row_def set_register_def push_def pop_def endsBlock_def
          Let_def split: sum.splits prod.splits if_splits)
  next
    case False
    note alu = not_branch_alu [OF assms(2) False]
    note a = assms(1) [unfolded eqs(13) [OF False] exec_rest_def if_not_P [OF conjunct1 [OF alu]]]
    obtain r where r: "(if isBinaryAlu (i_opcode i)
        then evaluateBinary (i_opcode i) (registers (cpu vm) ! registerIndex (i_dst i)) (registers (cpu vm) ! registerIndex (i_src i))
        else evaluateUnary (i_opcode i) (registers (cpu vm) ! registerIndex (i_dst i))) = Inr r"
      and vm': "vm' = (let vm = (if alu_writes_value r then set_register (registerIndex (i_dst i)) (alu_value r) vm else vm)
       in if alu_writes_flags r then with_flags (alu_flags r AND kFlagsMask) vm else vm)"
      using exec_alu_Inr [OF a] by blast
    have "writesRegister i (i_dst i) \<longleftrightarrow> alu_writes_value r"
      using alu_writes_flags_table(2) [OF r, of "i_dst i" 0 0] by (simp add: writesRegister_def mk_instr_def split: option.splits)
    then show ?thesis by (auto simp: vm' Let_def set_register_def)
  qed
qed

subsection \<open>Constant folding\<close>

definition knows :: "ConstantMap \<Rightarrow> 'p VM \<Rightarrow> bool" where
  "knows c vm \<longleftrightarrow> length (registers (cpu vm)) = kRegisterCount \<and>
     (\<forall>r v. c r = Some v \<longrightarrow> registers (cpu vm) ! registerIndex r = v)"

lemma knows_flags [simp]: "knows c (with_flags f vm) = knows c vm"
  by (simp add: knows_def)

lemma registerIndex_inj: "registerIndex r = registerIndex s \<longleftrightarrow> r = s"
  by (simp add: registerIndex_def word_unat_eq_iff)

lemma knows_update:
  assumes "knows c vm" and "registers (cpu vm') = (registers (cpu vm))[registerIndex d := v]"
    and "registerIndex d < kRegisterCount"
  shows "knows (c(d := None)) vm'" and "knows (c(d \<mapsto> v)) vm'"
  using assms by (auto simp: knows_def registerIndex_inj nth_list_update)

lemma knows_same: "knows c vm \<Longrightarrow> registers (cpu vm') = registers (cpu vm) \<Longrightarrow> knows c vm'"
  by (simp add: knows_def)

lemma knows_less: "knows c vm \<Longrightarrow> knows (c(d := None)) vm"
  by (simp add: knows_def)

lemma execute_movi:
  "regs_valid i \<Longrightarrow> execute invoke (i\<lparr> i_opcode := OP_MOVI, i_imm := v, i_src := 0 \<rparr>) addr vm =
     (Inr (), set_register (registerIndex (i_dst i)) v vm)"
  by (subst execute_simps(5)) (auto simp: regs_valid_def registerIndex_def kRegisterCount_def)

lemma fold_machine_sound:
  assumes "knows c vm" and "execute invoke i addr vm = (Inr u, vm')" and "\<not> endsBlock (i_opcode i)"
    and "fold_machine c i dead = (c', changed)"
  shows "knows c' vm'"
    and "changed = Some i' \<Longrightarrow> execute invoke i' addr (with_flags f vm) = (Inr (), with_flags f vm') \<and>
      \<not> readsFlags (i_opcode i) \<and> (writesFlags (i_opcode i) \<longrightarrow> dead)"
proof -
  have v: "regs_valid i" by (rule execute_regs_valid [OF assms(2)])
  note eqs = execute_simps [OF v]
  have d: "registerIndex (i_dst i) < kRegisterCount" using v by (simp add: regs_valid_def)
  obtain w where w: "registers (cpu vm') = (if writesRegister i (i_dst i)
    then (registers (cpu vm))[registerIndex (i_dst i) := w] else registers (cpu vm))"
    using plain_registers [OF assms(2,3)] by blast
  have clobber: "knows (if writesRegister i (i_dst i) then c(i_dst i := None) else c) vm'"
    using w knows_update(1) [OF assms(1) _ d] knows_same [OF assms(1)] by auto
  have clear: "knows (c(i_dst i := None)) vm'"
    using clobber by (auto intro: knows_less split: if_splits)
  have "knows c' vm' \<and> (changed = Some i' \<longrightarrow> execute invoke i' addr (with_flags f vm) = (Inr (), with_flags f vm') \<and>
      \<not> readsFlags (i_opcode i) \<and> (writesFlags (i_opcode i) \<longrightarrow> dead))"
  proof (cases "i_opcode i = OP_MOVI \<or> i_opcode i = OP_LEA")
    case True
    then have "registers (cpu vm') = (registers (cpu vm))[registerIndex (i_dst i) := i_imm i]"
      using assms(2) by (auto simp: eqs set_register_def)
    with True assms(4) show ?thesis
      by (auto simp: fold_machine_def Let_def intro: knows_update(2) [OF assms(1) _ d])
  next
    case not_imm: False
    show ?thesis
    proof (cases "i_opcode i = OP_MOV")
      case True
      then have vm': "vm' = set_register (registerIndex (i_dst i)) (registers (cpu vm) ! registerIndex (i_src i)) vm"
        using assms(2) by (auto simp: eqs)
      show ?thesis
      proof (cases "c (i_src i)")
        case None
        with True assms(4) clear show ?thesis by (auto simp: fold_machine_def Let_def)
      next
        case (Some x)
        then have x: "registers (cpu vm) ! registerIndex (i_src i) = x" using assms(1) by (simp add: knows_def)
        have "knows (c(i_dst i \<mapsto> x)) vm'"
          by (rule knows_update(2) [OF assms(1) _ d]) (simp add: vm' x set_register_def)
        moreover have "execute invoke (i\<lparr> i_opcode := OP_MOVI, i_imm := x, i_src := 0 \<rparr>) addr (with_flags f vm)
            = (Inr (), with_flags f vm')"
          unfolding execute_movi [OF v] vm' x by (simp add: with_flags_commute)
        ultimately show ?thesis
          using True Some assms(4)
          by (auto simp: fold_machine_def Let_def readsFlags_def writesFlags_def opcode_row_def split: if_splits)
      qed
    next
      case not_mov: False
      show ?thesis
      proof (cases "isBinaryAlu (i_opcode i) \<or> isUnaryAlu (i_opcode i)")
        case False
        with not_imm not_mov assms(4) clobber show ?thesis by (auto simp: fold_machine_def Let_def)
      next
        case True
        then have spec: "i_opcode i \<notin> special_opcodes"
          by (auto simp: isBinaryAlu_def isUnaryAlu_def special_opcodes_def)
        note alu = not_branch_alu [OF assms(3) spec]
        note a = assms(2) [unfolded eqs(13) [OF spec] exec_rest_def if_not_P [OF conjunct1 [OF alu]]]
        have is_alu: "(\<not> isBinaryAlu (i_opcode i) \<and> \<not> isUnaryAlu (i_opcode i)) = False" using True by simp
        have nr: "\<not> readsFlags (i_opcode i)"
          using True by (auto simp: isBinaryAlu_def isUnaryAlu_def readsFlags_def)
        obtain r where r: "(if isBinaryAlu (i_opcode i)
            then evaluateBinary (i_opcode i) (registers (cpu vm) ! registerIndex (i_dst i)) (registers (cpu vm) ! registerIndex (i_src i))
            else evaluateUnary (i_opcode i) (registers (cpu vm) ! registerIndex (i_dst i))) = Inr r"
          and vm': "vm' = (let vm = (if alu_writes_value r then set_register (registerIndex (i_dst i)) (alu_value r) vm else vm)
           in if alu_writes_flags r then with_flags (alu_flags r AND kFlagsMask) vm else vm)"
          using exec_alu_Inr [OF a] by blast
        have wf: "alu_writes_flags r \<longleftrightarrow> writesFlags (i_opcode i)" by (rule alu_writes_flags_table(1) [OF r])
        show ?thesis
        proof (cases "\<exists>x y. c (i_dst i) = Some x \<and> (if isBinaryAlu (i_opcode i) then c (i_src i) else Some 0) = Some y")
          case False
          then have "fold_machine c i dead = (if writesRegister i (i_dst i) then c(i_dst i := None) else c, None)"
            using True not_imm not_mov by (auto simp: fold_machine_def Let_def split: option.splits)
          with assms(4) clobber show ?thesis by simp
        next
          case True
          then obtain x y where xy: "c (i_dst i) = Some x" "(if isBinaryAlu (i_opcode i) then c (i_src i) else Some 0) = Some y"
            by blast
          have ev: "(if isBinaryAlu (i_opcode i) then evaluateBinary (i_opcode i) x y else evaluateUnary (i_opcode i) x) = Inr r"
            using r xy assms(1) by (auto simp: knows_def split: if_splits)
          have fm: "fold_machine c i dead = (if \<not> alu_writes_value r then (c, None)
              else (c(i_dst i \<mapsto> alu_value r),
                if (\<not> alu_writes_flags r \<or> dead) \<and> fitsSigned (alu_value r) kImmediateBits
                then Some (i\<lparr> i_opcode := OP_MOVI, i_imm := alu_value r, i_src := 0 \<rparr>) else None))"
            using xy ev not_imm not_mov unfolding fold_machine_def Let_def is_alu by simp
          show ?thesis
          proof (cases "alu_writes_value r")
            case False
            with fm assms(1,4) vm' show ?thesis by (auto simp: Let_def intro: knows_same)
          next
            case True
            have k: "knows (c(i_dst i \<mapsto> alu_value r)) vm'"
              by (rule knows_update(2) [OF assms(1) _ d]) (simp add: vm' True Let_def set_register_def)
            have "execute invoke (i\<lparr> i_opcode := OP_MOVI, i_imm := alu_value r, i_src := 0 \<rparr>) addr (with_flags f vm)
                = (Inr (), with_flags f vm')"
              unfolding execute_movi [OF v] vm' using True by (simp add: with_flags_commute Let_def)
            with k True fm assms(4) nr wf show ?thesis by (auto split: if_splits)
          qed
        qed
      qed
    qed
  qed
  then show "knows c' vm'"
    and "changed = Some i' \<Longrightarrow> execute invoke i' addr (with_flags f vm) = (Inr (), with_flags f vm') \<and>
      \<not> readsFlags (i_opcode i) \<and> (writesFlags (i_opcode i) \<longrightarrow> dead)" by auto
qed

text \<open>The three passes as functions of a block's slice.\<close>

fun fold_slice :: "bool \<Rightarrow> ConstantMap \<Rightarrow> Slice \<Rightarrow> Slice" where
  "fold_slice live c [] = []"
| "fold_slice live c ((removed, item) # rest) =
     (case item of
        It_Instruction i \<Rightarrow>
          if removed then (removed, item) # fold_slice live c rest
          else if isSymbolic i then (removed, item) # fold_slice live (c(i_dst (ii_machine i) := None)) rest
          else (case fold_machine c (ii_machine i) (flags_dead (map snd rest) live) of
                  (c, None) \<Rightarrow> (removed, item) # fold_slice live c rest
                | (c, Some m) \<Rightarrow> (removed, It_Instruction (i\<lparr> ii_machine := m \<rparr>)) # fold_slice live c rest)
      | _ \<Rightarrow> (removed, item) # fold_slice live c rest)"

fun identity_slice :: "Slice \<Rightarrow> Slice" where
  "identity_slice [] = []"
| "identity_slice ((removed, item) # rest) =
     (case item of It_Instruction i \<Rightarrow> (removed \<or> is_identity i, item) | _ \<Rightarrow> (removed, item)) # identity_slice rest"

fun overwritten_slice :: "Reg \<Rightarrow> Slice \<Rightarrow> bool" where
  "overwritten_slice reg [] \<longleftrightarrow> False"
| "overwritten_slice reg ((removed, item) # rest) \<longleftrightarrow>
     (if removed then overwritten_slice reg rest
      else case item of
        It_Instruction later \<Rightarrow>
          if readsRegister (ii_machine later) reg then False
          else if writesRegister (ii_machine later) reg then True
          else overwritten_slice reg rest
      | _ \<Rightarrow> overwritten_slice reg rest)"

fun dead_store_slice :: "Slice \<Rightarrow> Slice" where
  "dead_store_slice [] = []"
| "dead_store_slice ((removed, item) # rest) =
     (case item of
        It_Instruction i \<Rightarrow>
          (removed \<or> (pure_define (ii_machine i) \<and> overwritten_slice (i_dst (ii_machine i)) rest), item)
      | _ \<Rightarrow> (removed, item)) # dead_store_slice rest"

text \<open>A block is straight-line code up to its last instruction, and what was removed from it before
  touches no FLAGS.\<close>

definition straight :: "Slice \<Rightarrow> bool" where
  "straight xs \<longleftrightarrow> (\<forall>x \<in> set xs. \<not> isLabel (snd x)) \<and> (\<forall>x \<in> set (butlast xs). plain (snd x))"

lemma straight_Cons: "straight (x # xs) \<longleftrightarrow> \<not> isLabel (snd x) \<and> (xs \<noteq> [] \<longrightarrow> plain (snd x)) \<and> straight xs"
  by (cases xs) (auto simp: straight_def)

definition no_flags :: "Item \<Rightarrow> bool" where
  "no_flags item = (case item of
     It_Instruction i \<Rightarrow> \<not> readsFlags (i_opcode (ii_machine i)) \<and> \<not> writesFlags (i_opcode (ii_machine i))
   | _ \<Rightarrow> True)"

definition clean :: "Slice \<Rightarrow> bool" where
  "clean xs \<longleftrightarrow> (\<forall>x \<in> set xs. fst x \<longrightarrow> no_flags (snd x))"

lemma flags_dead_skip: "no_flags item \<Longrightarrow> flags_dead (item # rest) live = flags_dead rest live"
  by (cases item) (auto simp: no_flags_def)

lemma linked_simps [simp]:
  "i_opcode (linked values i) = i_opcode (ii_machine i)" "i_dst (linked values i) = i_dst (ii_machine i)"
  "i_src (linked values i) = i_src (ii_machine i)"
  by (simp_all add: linked_def split: option.splits)

lemma linked_literal: "\<not> isSymbolic i \<Longrightarrow> linked values i = ii_machine i"
  by (simp add: isSymbolic_def linked_def)

lemma linked_put: "\<not> isSymbolic i \<Longrightarrow> linked values (i\<lparr> ii_machine := m \<rparr>) = m"
  by (simp add: isSymbolic_def linked_def)

lemma writesRegister_linked [simp]:
  "writesRegister (linked values i) r = writesRegister (ii_machine i) r"
  "readsRegister (linked values i) r = readsRegister (ii_machine i) r"
  by (simp_all add: writesRegister_def readsRegister_def sourceRegister_def split: option.splits)

lemma fold_machine_ends:
  "endsBlock (i_opcode m) \<Longrightarrow> snd (fold_machine c m dead) = None"
  by (cases "i_opcode m")
    (simp_all add: endsBlock_def fold_machine_def Let_def isBinaryAlu_def isUnaryAlu_def opcode_row_def)

text \<open>
  Folding simulates: from states that agree, up to FLAGS that are dead, the folded block ends in a
  state that agrees, with the same FLAGS when they are live at its end.
\<close>

lemma fold_slice_sim:
  "run_slice invoke values addr xs vm = Some vm1 \<Longrightarrow> straight xs \<Longrightarrow> clean xs \<Longrightarrow> knows c vm \<Longrightarrow>
   f = flags (cpu vm) \<or> flags_dead (map snd xs) live \<Longrightarrow>
   \<exists>g. run_slice invoke values addr (fold_slice live c xs) (with_flags f vm) = Some (with_flags g vm1) \<and>
     (live \<longrightarrow> g = flags (cpu vm1))"
proof (induction xs arbitrary: c vm f)
  case Nil
  then show ?case by auto
next
  case (Cons x xs)
  obtain removed item where x: "x = (removed, item)" by fastforce
  have st: "straight xs" "clean xs" and pl: "xs \<noteq> [] \<Longrightarrow> plain item"
    using Cons.prems(2,3) by (auto simp: straight_Cons clean_def x)
  show ?case
  proof (cases item)
    case (It_Instruction i)
    show ?thesis
    proof (cases removed)
      case True
      then have "no_flags item" using Cons.prems(3) by (auto simp: clean_def x)
      from flags_dead_skip [OF this] have "f = flags (cpu vm) \<or> flags_dead (map snd xs) live"
        using Cons.prems(5) by (simp add: x)
      from Cons.IH [OF _ st Cons.prems(4) this] Cons.prems(1) True It_Instruction show ?thesis
        by (simp add: x)
    next
      case live_item: False
      obtain u vm' where ex: "execute invoke (linked values i) addr vm = (Inr u, vm')"
        and rest: "run_slice invoke values addr xs vm' = Some vm1"
        using Cons.prems(1) live_item It_Instruction by (auto simp: x split: prod.splits sum.splits)
      have fl: "f = flags (cpu vm)" if "readsFlags (i_opcode (ii_machine i))"
        using Cons.prems(5) that by (simp add: x It_Instruction)
      have same: "\<exists>f'. execute invoke (linked values i) addr (with_flags f vm) = (Inr u, with_flags f' vm') \<and>
          (f' = flags (cpu vm') \<or> flags_dead (map snd xs) live)"
      proof (cases "readsFlags (i_opcode (ii_machine i))")
        case True
        with ex fl show ?thesis by (metis with_flags_same)
      next
        case False
        then have "execute invoke (linked values i) addr (with_flags f vm) =
            (Inr u, if writesFlags (i_opcode (ii_machine i)) then vm' else with_flags f vm')"
          using execute_flags [OF ex] by simp
        moreover have "flags (cpu vm') = flags (cpu vm)" if "\<not> writesFlags (i_opcode (ii_machine i))"
        proof -
          from ex that False execute_flags [OF ex, of "flags (cpu vm)"] have "vm' = with_flags (flags (cpu vm)) vm'"
            by (simp add: with_flags_same)
          then show ?thesis by (metis with_flags_simps(3))
        qed
        ultimately show ?thesis
          using Cons.prems(5) False
          by (cases "writesFlags (i_opcode (ii_machine i))")
            (auto simp: x It_Instruction with_flags_same intro: exI [of _ "flags (cpu vm')"])
      qed
      have go: ?thesis
        if "fold_slice live c (x # xs) = (False, It_Instruction j) # fold_slice live c' xs"
          and "execute invoke (linked values j) addr (with_flags f vm) = (Inr w, with_flags f' vm')"
          and "f' = flags (cpu vm') \<or> flags_dead (map snd xs) live" and "xs \<noteq> [] \<Longrightarrow> knows c' vm'" for j c' f' w
      proof (cases "xs = []")
        case True
        with that rest show ?thesis by auto
      next
        case False
        from Cons.IH [OF rest st that(4) [OF False] that(3)] that(1,2) show ?thesis by simp
      qed
      have ends: "\<not> endsBlock (i_opcode (ii_machine i))" if "xs \<noteq> []"
        using pl [OF that] by (simp add: plain_def It_Instruction)
      obtain f' where f': "execute invoke (linked values i) addr (with_flags f vm) = (Inr u, with_flags f' vm')"
        "f' = flags (cpu vm') \<or> flags_dead (map snd xs) live" using same by blast
      show ?thesis
      proof (cases "isSymbolic i")
        case True
        have "knows (c(i_dst (ii_machine i) := None)) vm'" if ne: "xs \<noteq> []"
        proof -
          obtain w where "registers (cpu vm') = (if writesRegister (linked values i) (i_dst (linked values i))
              then (registers (cpu vm))[registerIndex (i_dst (linked values i)) := w] else registers (cpu vm))"
            using plain_registers [OF ex] ends [OF ne] by auto
          moreover have "registerIndex (i_dst (ii_machine i)) < kRegisterCount"
            using execute_regs_valid [OF ex] by (simp add: regs_valid_def)
          ultimately show ?thesis
            using knows_update(1) [OF Cons.prems(4)] knows_same [OF knows_less [OF Cons.prems(4)]]
            by (auto split: if_splits)
        qed
        then show ?thesis
          using True live_item It_Instruction f' by (intro go [of i _ u f']) (simp_all add: x)
      next
        case lit: False
        obtain c' ch where fm: "fold_machine c (ii_machine i) (flags_dead (map snd xs) live) = (c', ch)" by fastforce
        note exm = ex [unfolded linked_literal [OF lit]]
        show ?thesis
        proof (cases ch)
          case None
          then show ?thesis
            using lit live_item It_Instruction f' fm fold_machine_sound(1) [OF Cons.prems(4) exm ends fm]
            by (intro go [of i c' u f']) (simp_all add: x)
        next
          case (Some m)
          then have ne: "\<not> endsBlock (i_opcode (ii_machine i))"
            using fold_machine_ends [of "ii_machine i" c "flags_dead (map snd xs) live"] fm by auto
          note sound = fold_machine_sound [OF Cons.prems(4) exm ne fm]
          note s2 = sound(2) [OF Some, of f]
          have w: "writesFlags (i_opcode (ii_machine i)) \<Longrightarrow> flags_dead (map snd xs) live" using s2 by simp
          have "f = flags (cpu vm') \<or> flags_dead (map snd xs) live"
          proof (cases "writesFlags (i_opcode (ii_machine i))")
            case False
            have "flags (cpu vm') = flags (cpu vm)"
              using execute_flags [OF exm, of "flags (cpu vm)"] s2 False exm
              by (simp add: with_flags_same) (metis with_flags_simps(3))
            with Cons.prems(5) False s2 show ?thesis by (simp add: x It_Instruction)
          qed (use w in simp)
          moreover have "execute invoke (linked values (i\<lparr> ii_machine := m \<rparr>)) addr (with_flags f vm)
              = (Inr (), with_flags f vm')"
            unfolding linked_put [OF lit] using s2 by simp
          ultimately show ?thesis
            using Some lit live_item It_Instruction fm sound(1)
            by (intro go [of "i\<lparr> ii_machine := m \<rparr>" c' "()" f]) (simp_all add: x)
        qed
      qed
    qed
  qed (use Cons.prems(1,2) in \<open>simp_all add: x straight_Cons\<close>)
qed

subsection \<open>Identities\<close>

lemma execute_identity:
  assumes "is_identity i" and "execute invoke (linked val i) addr vm = (Inr u, vm')"
  shows "vm' = vm"
proof -
  have lit: "\<not> isSymbolic i" using assms(1) by (simp add: is_identity_def)
  note ex = assms(2) [unfolded linked_literal [OF lit]]
  note eqs = execute_simps [OF execute_regs_valid [OF ex]]
  from assms(1) consider
      "i_opcode (ii_machine i) = OP_MOV" "i_dst (ii_machine i) = i_src (ii_machine i)"
    | "i_opcode (ii_machine i) = OP_NOP"
    by (auto simp: is_identity_def)
  then show ?thesis
    by cases (use ex in \<open>auto simp: eqs set_register_def\<close>)
qed

lemma identity_slice_sim:
  "run_slice invoke val addr xs vm = Some vm1 \<Longrightarrow> run_slice invoke val addr (identity_slice xs) vm = Some vm1"
proof (induction xs arbitrary: vm)
  case (Cons x xs)
  obtain removed item where x: "x = (removed, item)" by fastforce
  show ?case
  proof (cases item)
    case (It_Instruction i)
    show ?thesis
    proof (cases "removed")
      case True
      with Cons It_Instruction show ?thesis by (simp add: x)
    next
      case False
      then obtain u vm' where ex: "execute invoke (linked val i) addr vm = (Inr u, vm')"
        and rest: "run_slice invoke val addr xs vm' = Some vm1"
        using Cons.prems It_Instruction by (auto simp: x split: prod.splits sum.splits)
      show ?thesis
      proof (cases "is_identity i")
        case True
        from execute_identity [OF True ex] Cons.IH [OF rest] show ?thesis
          using True It_Instruction by (simp add: x)
      next
        case no: False
        with Cons.IH [OF rest] ex False It_Instruction show ?thesis by (simp add: x)
      qed
    qed
  qed (use Cons in \<open>simp_all add: x\<close>)
qed simp

subsection \<open>Dead stores\<close>

lemma set_register_simps [simp]:
  "registers (cpu (set_register r v vm)) = (registers (cpu vm))[r := v]"
  "memory (set_register r v vm) = memory vm" "sp (cpu (set_register r v vm)) = sp (cpu vm)"
  "pc (cpu (set_register r v vm)) = pc (cpu vm)" "flags (cpu (set_register r v vm)) = flags (cpu vm)"
  "stack_limit (set_register r v vm) = stack_limit vm" "stack_top (set_register r v vm) = stack_top vm"
  by (simp_all add: set_register_def)

lemma set_register_twice: "set_register r v (set_register r w vm) = set_register r v vm"
  by (simp add: set_register_def)

lemma set_register_other:
  "r \<noteq> s \<Longrightarrow> set_register r v (set_register s w vm) = set_register s w (set_register r v vm)"
  by (simp add: set_register_def list_update_swap)

lemma set_register_id: "set_register r (registers (cpu vm) ! r) vm = vm"
  by (simp add: set_register_def)

lemma exec_alu_register:
  assumes "exec_alu opcode d s addr vm = (Inr u, vm')"
    and "d \<noteq> k \<and> (isBinaryAlu opcode \<longrightarrow> s \<noteq> k)"
  shows "exec_alu opcode d s addr (set_register k w vm) = (Inr u, set_register k w vm')"
  using assms
  by (auto simp: exec_alu_def Let_def set_register_def list_update_swap split: sum.splits AluError.splits if_splits)

lemma plain_register:
  assumes "execute invoke i addr vm = (Inr u, vm')" and "\<not> endsBlock (i_opcode i)"
    and "\<not> readsRegister i reg"
  shows "execute invoke i addr (set_register (registerIndex reg) w vm) =
    (Inr u, if writesRegister i reg then vm' else set_register (registerIndex reg) w vm')"
proof -
  note eqs = execute_simps [OF execute_regs_valid [OF assms(1)]]
  let ?k = "registerIndex reg"
  show ?thesis
  proof (cases "i_opcode i \<in> special_opcodes")
    case True
    then show ?thesis
      using assms unfolding special_opcodes_def
      by (elim insertE emptyE)
        (auto simp: eqs readsRegister_def sourceRegister_def writesRegister_def opcode_row_def endsBlock_def
          registerIndex_inj set_register_twice nth_list_update
          set_register_def list_update_swap push_def pop_def Let_def split: sum.splits prod.splits if_splits)
  next
    case False
    note alu = not_branch_alu [OF assms(2) False]
    note a = assms(1) [unfolded eqs(13) [OF False] exec_rest_def if_not_P [OF conjunct1 [OF alu]]]
    have n: "registerIndex (i_dst i) \<noteq> ?k \<and> (isBinaryAlu (i_opcode i) \<longrightarrow> registerIndex (i_src i) \<noteq> ?k)"
      and w: "\<not> writesRegister i reg"
      using assms(3) alu
      by (cases "i_opcode i"; simp add: readsRegister_def sourceRegister_def writesRegister_def opcode_row_def
          registerIndex_inj isBinaryAlu_def isUnaryAlu_def; blast)+
    show ?thesis
      unfolding eqs(13) [OF False] exec_rest_def if_not_P [OF conjunct1 [OF alu]]
      using exec_alu_register [OF a n] w by simp
  qed
qed

lemma overwritten_forgets:
  "run_slice invoke val addr xs vm = Some vm1 \<Longrightarrow> straight xs \<Longrightarrow> overwritten_slice reg xs \<Longrightarrow>
   run_slice invoke val addr xs (set_register (registerIndex reg) w vm) = Some vm1"
proof (induction xs arbitrary: vm)
  case (Cons x xs)
  obtain removed item where x: "x = (removed, item)" by fastforce
  have st: "straight xs" and pl: "xs \<noteq> [] \<Longrightarrow> plain item" using Cons.prems(2) by (auto simp: straight_Cons x)
  show ?case
  proof (cases item)
    case (It_Instruction i)
    show ?thesis
    proof (cases removed)
      case True
      with Cons st It_Instruction show ?thesis by (simp add: x)
    next
      case False
      then obtain u vm' where ex: "execute invoke (linked val i) addr vm = (Inr u, vm')"
        and rest: "run_slice invoke val addr xs vm' = Some vm1"
        using Cons.prems(1) It_Instruction by (auto simp: x split: prod.splits sum.splits)
      have nr: "\<not> readsRegister (ii_machine i) reg" and
        ov: "writesRegister (ii_machine i) reg \<or> overwritten_slice reg xs"
        using Cons.prems(3) False It_Instruction by (auto simp: x split: if_splits)
      have ne: "\<not> endsBlock (i_opcode (ii_machine i))"
      proof (cases "xs = []")
        case True
        then have "writesRegister (ii_machine i) reg" using ov by simp
        then show ?thesis
          by (cases "i_opcode (ii_machine i)") (simp_all add: writesRegister_def endsBlock_def opcode_row_def)
      next
        case False
        from pl [OF this] show ?thesis by (simp add: plain_def It_Instruction)
      qed
      have "execute invoke (linked val i) addr (set_register (registerIndex reg) w vm) =
          (Inr u, if writesRegister (ii_machine i) reg then vm' else set_register (registerIndex reg) w vm')"
        using plain_register [OF ex, of reg w] ne nr by simp
      with rest ov Cons.IH [OF rest st] False It_Instruction show ?thesis by (auto simp: x)
    qed
  qed (use Cons.prems st Cons.IH in \<open>simp_all add: x split: if_splits\<close>)
qed simp

lemma execute_pure_define:
  assumes "pure_define (ii_machine i)" and "execute invoke (linked val i) addr vm = (Inr u, vm')"
  shows "\<exists>v. vm' = set_register (registerIndex (i_dst (ii_machine i))) v vm"
proof -
  note eqs = execute_simps [OF execute_regs_valid [OF assms(2)]]
  from assms(1) have "i_opcode (ii_machine i) \<in> {OP_MOVI, OP_MOV, OP_LEA}"
    by (auto simp: pure_define_def split: option.splits)
  then show ?thesis using assms(2) by (auto simp: eqs)
qed

lemma dead_store_slice_sim:
  "run_slice invoke val addr xs vm = Some vm1 \<Longrightarrow> straight xs \<Longrightarrow>
   run_slice invoke val addr (dead_store_slice xs) vm = Some vm1"
proof (induction xs arbitrary: vm)
  case (Cons x xs)
  obtain removed item where x: "x = (removed, item)" by fastforce
  have st: "straight xs" using Cons.prems(2) by (auto simp: straight_Cons x)
  show ?case
  proof (cases item)
    case (It_Instruction i)
    show ?thesis
    proof (cases "removed")
      case True
      with Cons st It_Instruction show ?thesis by (simp add: x)
    next
      case False
      then obtain u vm' where ex: "execute invoke (linked val i) addr vm = (Inr u, vm')"
        and rest: "run_slice invoke val addr xs vm' = Some vm1"
        using Cons.prems(1) It_Instruction by (auto simp: x split: prod.splits sum.splits)
      show ?thesis
      proof (cases "pure_define (ii_machine i) \<and> overwritten_slice (i_dst (ii_machine i)) xs")
        case True
        let ?k = "registerIndex (i_dst (ii_machine i))"
        obtain v where v: "vm' = set_register ?k v vm" using execute_pure_define [OF conjunct1 [OF True] ex] by blast
        have "run_slice invoke val addr xs (set_register ?k (registers (cpu vm) ! ?k) vm') = Some vm1"
          by (rule overwritten_forgets [OF rest st conjunct2 [OF True]])
        then have "run_slice invoke val addr xs vm = Some vm1"
          by (simp add: v set_register_twice set_register_id)
        from Cons.IH [OF this st] True It_Instruction show ?thesis by (simp add: x)
      next
        case no: False
        with Cons.IH [OF rest st] ex False It_Instruction show ?thesis by (auto simp: x)
      qed
    qed
  qed (use Cons st in \<open>simp_all add: x\<close>)
qed simp

subsection \<open>From indices to slices\<close>

definition slice_of :: "nat \<Rightarrow> nat \<Rightarrow> Passes \<Rightarrow> Slice" where
  "slice_of i e st = take (e - i) (drop i (zip (pa_remove st) (pa_items st)))"

lemma slice_slice_of: "slice b st = slice_of (bl_begin b) (bl_end b) st"
  by (simp add: slice_def slice_of_def)

definition sized :: "nat \<Rightarrow> Passes \<Rightarrow> bool" where
  "sized n st \<longleftrightarrow> length (pa_items st) = n \<and> length (pa_remove st) = n"

text \<open>Nothing outside the indices from \<open>i\<close> to below \<open>e\<close> has changed.\<close>

definition frame :: "nat \<Rightarrow> nat \<Rightarrow> Passes \<Rightarrow> Passes \<Rightarrow> bool" where
  "frame i e st st' \<longleftrightarrow> length (pa_items st') = length (pa_items st) \<and>
     length (pa_remove st') = length (pa_remove st) \<and>
     (\<forall>j. j < i \<or> e \<le> j \<longrightarrow> pa_items st' ! j = pa_items st ! j \<and> pa_remove st' ! j = pa_remove st ! j)"

lemma frame_refl [simp]: "frame i e st st" by (simp add: frame_def)

lemma frame_trans: "frame i e a b \<Longrightarrow> frame i e b c \<Longrightarrow> frame i e a c"
  by (simp add: frame_def)

lemma frame_wider: "frame i e a b \<Longrightarrow> i' \<le> i \<Longrightarrow> e \<le> e' \<Longrightarrow> frame i' e' a b"
  by (auto simp: frame_def)

lemma frame_sized: "frame i e a b \<Longrightarrow> sized n b = sized n a"
  by (simp add: frame_def sized_def)

lemma slice_of_Nil [simp]: "e \<le> i \<Longrightarrow> slice_of i e st = []"
  by (simp add: slice_of_def)

lemma slice_of_Cons:
  "sized n st \<Longrightarrow> i < e \<Longrightarrow> e \<le> n \<Longrightarrow>
   slice_of i e st = (pa_remove st ! i, pa_items st ! i) # slice_of (Suc i) e st"
proof -
  assume "sized n st" "i < e" "e \<le> n"
  then have "drop i (zip (pa_remove st) (pa_items st)) =
      (pa_remove st ! i, pa_items st ! i) # drop (Suc i) (zip (pa_remove st) (pa_items st))"
    by (simp add: sized_def Cons_nth_drop_Suc [symmetric])
  moreover have "e - i = Suc (e - Suc i)" using \<open>i < e\<close> by simp
  ultimately show ?thesis by (simp add: slice_of_def)
qed

lemma slice_of_frame:
  assumes "frame i e a b" and "sized n a" and "j \<le> k" and "k \<le> n" and "k \<le> i \<or> e \<le> j"
  shows "slice_of j k b = slice_of j k a"
proof (rule nth_equalityI)
  show "length (slice_of j k b) = length (slice_of j k a)"
    using assms(1) by (simp add: slice_of_def frame_def)
  fix m assume m: "m < length (slice_of j k b)"
  then have "j + m < k" by (simp add: slice_of_def less_diff_conv add.commute)
  with m assms show "slice_of j k b ! m = slice_of j k a ! m"
    by (auto simp: slice_of_def frame_def sized_def)
qed

lemma frame_count [simp]: "frame i e st (count_up f st') = frame i e st st'"
  by (simp add: frame_def)

lemma frame_drop: "frame i (Suc i) st (drop_item i st)"
  by (auto simp: frame_def nth_list_update)

lemma frame_put: "frame i (Suc i) st (put_machine i x m st)"
  by (auto simp: frame_def nth_list_update)

lemma map_snd_slice:
  assumes "sized n st" and "e \<le> n"
  shows "map snd (slice_of i e st) = take (e - i) (drop i (pa_items st))"
  using assms by (simp add: slice_of_def sized_def take_map [symmetric] drop_map [symmetric])

lemma fold_step_frame: "fold_step block i (c, st) = (c', st') \<Longrightarrow> frame i (Suc i) st st'"
  by (auto simp: fold_step_def frame_put split: if_splits Item.splits prod.splits option.splits)

lemma fold_step_slice:
  assumes "fold_step block i (c, st) = (c', st')" and "sized n st" and "i < e" and "e \<le> n" and "e = bl_end block"
  shows "fold_slice (bl_flags_live_out block) c (slice_of i e st) =
    (pa_remove st' ! i, pa_items st' ! i) # fold_slice (bl_flags_live_out block) c' (slice_of (Suc i) e st)"
proof -
  have d: "flagsDeadAfter (pa_items st) block i =
      flags_dead (map snd (slice_of (Suc i) e st)) (bl_flags_live_out block)"
    using map_snd_slice [OF assms(2,4), of "Suc i"] assms(5) by (simp add: flagsDeadAfter_def)
  have i: "i < length (pa_items st)" using assms(2-4) by (simp add: sized_def)
  show ?thesis
    unfolding slice_of_Cons [OF assms(2-4)]
    using assms(1) i
    by (auto simp: fold_step_def d split: if_splits Item.splits prod.splits option.splits)
qed

lemma fold_steps:
  assumes "sized n st" and "i \<le> e" and "e \<le> n" and "e = bl_end block"
    and "fold (fold_step block) [i..<e] (c, st) = (c', st')"
  shows "frame i e st st' \<and> slice_of i e st' = fold_slice (bl_flags_live_out block) c (slice_of i e st)"
  using assms
proof (induction "e - i" arbitrary: i c st)
  case 0
  then show ?case by simp
next
  case (Suc k)
  then have ie: "i < e" by simp
  obtain c1 st1 where one: "fold_step block i (c, st) = (c1, st1)" by fastforce
  note fr = fold_step_frame [OF one]
  have s1: "sized n st1" using Suc.prems(1) frame_sized [OF fr] by simp
  have rest: "fold (fold_step block) [Suc i..<e] (c1, st1) = (c', st')"
    using Suc.prems(5) ie one by (simp add: upt_conv_Cons)
  have IH: "frame (Suc i) e st1 st'" "slice_of (Suc i) e st' = fold_slice (bl_flags_live_out block) c1 (slice_of (Suc i) e st1)"
    using Suc.hyps(1) [of "Suc i" st1 c1] Suc.hyps(2) s1 ie Suc.prems(3,4) rest by auto
  have f1: "frame i e st st'"
    using frame_trans [OF frame_wider [OF fr, of i e] frame_wider [OF IH(1), of i e]] ie by simp
  have same: "slice_of (Suc i) e st1 = slice_of (Suc i) e st"
    by (rule slice_of_frame [OF fr Suc.prems(1)]) (use ie Suc.prems(3) in auto)
  have "sized n st'" using frame_sized [OF IH(1)] s1 by simp
  from slice_of_Cons [OF this ie Suc.prems(3)]
  have "slice_of i e st' = (pa_remove st1 ! i, pa_items st1 ! i) # slice_of (Suc i) e st'"
    using IH(1) by (simp add: frame_def)
  with fold_step_slice [OF one Suc.prems(1) ie Suc.prems(3,4)] IH(2) same f1 show ?case by simp
qed

lemma fold_block_slice:
  assumes "sized n st" and "bl_begin b \<le> bl_end b" and "bl_end b \<le> n"
  shows "frame (bl_begin b) (bl_end b) st (fold_block b st)"
    and "slice b (fold_block b st) = fold_slice (bl_flags_live_out b) (\<lambda>_. None) (slice b st)"
proof -
  obtain c' st' where f: "fold (fold_step b) [bl_begin b..<bl_end b] (\<lambda>_. None, st) = (c', st')" by fastforce
  from fold_steps [OF assms refl f]
  show "frame (bl_begin b) (bl_end b) st (fold_block b st)"
    and "slice b (fold_block b st) = fold_slice (bl_flags_live_out b) (\<lambda>_. None) (slice b st)"
    by (simp_all add: fold_block_def f slice_slice_of)
qed

text \<open>The two passes that only mark items.\<close>

lemma mark_steps:
  assumes fr: "\<And>i st. frame i (Suc i) st (visit i st)"
    and sl: "\<And>i st. sized n st \<Longrightarrow> i < e \<Longrightarrow>
      g (slice_of i e st) = (pa_remove (visit i st) ! i, pa_items (visit i st) ! i) # g (slice_of (Suc i) e st)"
    and nil: "g [] = []"
    and "sized n st" and "i \<le> e" and "e \<le> n"
  shows "frame i e st (fold visit [i..<e] st) \<and> slice_of i e (fold visit [i..<e] st) = g (slice_of i e st)"
  using assms(4-6)
proof (induction "e - i" arbitrary: i st)
  case 0
  then show ?case by (simp add: nil)
next
  case (Suc k)
  then have ie: "i < e" by simp
  let ?st1 = "visit i st" and ?st' = "fold visit [Suc i..<e] (visit i st)"
  have s1: "sized n ?st1" using Suc.prems(1) frame_sized [OF fr] by simp
  have rest: "fold visit [i..<e] st = ?st'" using ie by (simp add: upt_conv_Cons)
  have IH: "frame (Suc i) e ?st1 ?st'" "slice_of (Suc i) e ?st' = g (slice_of (Suc i) e ?st1)"
    using Suc.hyps(1) [of "Suc i" ?st1] Suc.hyps(2) s1 ie Suc.prems(3) by auto
  have f1: "frame i e st ?st'"
    using frame_trans [OF frame_wider [OF fr, of i i e] frame_wider [OF IH(1), of i e]] ie by simp
  have same: "slice_of (Suc i) e ?st1 = slice_of (Suc i) e st"
    by (rule slice_of_frame [OF fr Suc.prems(1)]) (use ie Suc.prems(3) in auto)
  have "sized n ?st'" using frame_sized [OF IH(1)] s1 by simp
  from slice_of_Cons [OF this ie Suc.prems(3)]
  have "slice_of i e ?st' = (pa_remove ?st1 ! i, pa_items ?st1 ! i) # slice_of (Suc i) e ?st'"
    using IH(1) by (simp add: frame_def)
  with sl [OF Suc.prems(1) ie] IH(2) same f1 rest show ?case by simp
qed

lemma identity_block_slice:
  assumes "sized n st" and "bl_begin b \<le> bl_end b" and "bl_end b \<le> n"
  shows "frame (bl_begin b) (bl_end b) st (identity_block b st)"
    and "slice b (identity_block b st) = identity_slice (slice b st)"
proof -
  have "frame (bl_begin b) (bl_end b) st (fold identity_step [bl_begin b..<bl_end b] st) \<and>
      slice_of (bl_begin b) (bl_end b) (fold identity_step [bl_begin b..<bl_end b] st) =
        identity_slice (slice_of (bl_begin b) (bl_end b) st)"
  proof (rule mark_steps [OF _ _ _ assms])
    fix i and st :: Passes
    show "frame i (Suc i) st (identity_step i st)"
      by (auto simp: identity_step_def frame_drop split: Item.splits)
    assume s: "sized n st" and i: "i < bl_end b"
    then have "i < length (pa_remove st)" using assms(3) by (simp add: sized_def)
    then show "identity_slice (slice_of i (bl_end b) st) =
        (pa_remove (identity_step i st) ! i, pa_items (identity_step i st) ! i) # identity_slice (slice_of (Suc i) (bl_end b) st)"
      unfolding slice_of_Cons [OF s i assms(3)]
      by (auto simp: identity_step_def split: Item.splits)
  qed simp
  then show "frame (bl_begin b) (bl_end b) st (identity_block b st)"
    and "slice b (identity_block b st) = identity_slice (slice b st)"
    by (simp_all add: identity_block_def slice_slice_of)
qed

lemma overwritten_slice_of:
  assumes "sized n st" and "e \<le> n"
  shows "overwritten st reg [i..<e] = overwritten_slice reg (slice_of i e st)"
proof (induction "e - i" arbitrary: i)
  case (Suc k)
  then have "i < e" by simp
  with Suc.hyps(1) [of "Suc i"] Suc.hyps(2) show ?case
    by (simp add: upt_conv_Cons slice_of_Cons [OF assms(1) _ assms(2)] split: Item.splits)
qed simp

lemma dead_store_block_slice:
  assumes "sized n st" and "bl_begin b \<le> bl_end b" and "bl_end b \<le> n"
  shows "frame (bl_begin b) (bl_end b) st (dead_store_block b st)"
    and "slice b (dead_store_block b st) = dead_store_slice (slice b st)"
proof -
  have "frame (bl_begin b) (bl_end b) st (fold (dead_store_step b) [bl_begin b..<bl_end b] st) \<and>
      slice_of (bl_begin b) (bl_end b) (fold (dead_store_step b) [bl_begin b..<bl_end b] st) =
        dead_store_slice (slice_of (bl_begin b) (bl_end b) st)"
  proof (rule mark_steps [OF _ _ _ assms])
    fix i and st :: Passes
    show "frame i (Suc i) st (dead_store_step b i st)"
      by (auto simp: dead_store_step_def frame_drop split: Item.splits)
    assume s: "sized n st" and i: "i < bl_end b"
    then have "i < length (pa_remove st)" using assms(3) by (simp add: sized_def)
    then show "dead_store_slice (slice_of i (bl_end b) st) =
        (pa_remove (dead_store_step b i st) ! i, pa_items (dead_store_step b i st) ! i) #
          dead_store_slice (slice_of (Suc i) (bl_end b) st)"
      unfolding slice_of_Cons [OF s i assms(3)]
      by (auto simp: dead_store_step_def overwritten_slice_of [OF s assms(3)] split: Item.splits)
  qed simp
  then show "frame (bl_begin b) (bl_end b) st (dead_store_block b st)"
    and "slice b (dead_store_block b st) = dead_store_slice (slice b st)"
    by (simp_all add: dead_store_block_def slice_slice_of)
qed

subsection \<open>All blocks of a section\<close>

definition in_items :: "nat \<Rightarrow> Block \<Rightarrow> bool" where
  "in_items n b \<longleftrightarrow> bl_begin b \<le> bl_end b \<and> bl_end b \<le> n"

lemma fold_blocks:
  assumes op: "\<And>b st. sized n st \<Longrightarrow> in_items n b \<Longrightarrow>
      frame (bl_begin b) (bl_end b) st (op b st) \<and> slice b (op b st) = g b (slice b st)"
  shows "sized n st \<Longrightarrow> list_all (in_items n) bs \<Longrightarrow> sorted_wrt follows bs \<Longrightarrow>
    sized n (fold op bs st) \<and> (\<forall>b \<in> set bs. slice b (fold op bs st) = g b (slice b st)) \<and>
    (\<forall>b. in_items n b \<longrightarrow> list_all (follows b) bs \<longrightarrow> slice b (fold op bs st) = slice b st)"
proof (induction bs arbitrary: st)
  case (Cons b bs)
  have b: "in_items n b" and bs: "list_all (in_items n) bs" "list_all (follows b) bs" "sorted_wrt follows bs"
    using Cons.prems(2,3) by (auto simp: list_all_iff)
  note o = op [OF Cons.prems(1) b]
  have s: "sized n (op b st)" using Cons.prems(1) frame_sized o by blast
  note IH = Cons.IH [OF s bs(1,3)]
  have "slice c (fold op bs (op b st)) = g c (slice c st)" if c: "c \<in> set bs" for c
  proof -
    have "in_items n c" "follows b c" using bs c by (auto simp: list_all_iff)
    then have "slice c (op b st) = slice c st"
      unfolding slice_slice_of
      by (intro slice_of_frame [OF conjunct1 [OF o] Cons.prems(1)]) (auto simp: in_items_def follows_def)
    with IH c show ?thesis by simp
  qed
  moreover have "slice b (fold op bs (op b st)) = g b (slice b st)" using IH b bs(2) o by simp
  moreover have "slice c (fold op bs (op b st)) = slice c st" if c: "in_items n c" "list_all (follows c) (b # bs)" for c
  proof -
    have "slice c (op b st) = slice c st"
      unfolding slice_slice_of
      using c by (intro slice_of_frame [OF conjunct1 [OF o] Cons.prems(1)]) (auto simp: in_items_def follows_def)
    with IH c show ?thesis by simp
  qed
  ultimately show ?case using IH by auto
qed simp

definition block_slice :: "Block \<Rightarrow> Slice \<Rightarrow> Slice" where
  "block_slice b xs = dead_store_slice (identity_slice (fold_slice (bl_flags_live_out b) (\<lambda>_. None) xs))"

lemma block_passes_slices:
  assumes "sized n st" and "list_all (in_items n) bs" and "sorted_wrt follows bs" and "b \<in> set bs"
  shows "slice b (block_passes bs st) = block_slice b (slice b st)"
proof -
  have f: "sized n (fold fold_block bs st) \<and>
      (\<forall>b \<in> set bs. slice b (fold fold_block bs st) = fold_slice (bl_flags_live_out b) (\<lambda>_. None) (slice b st))"
    using fold_blocks [where op = fold_block and g = "\<lambda>b. fold_slice (bl_flags_live_out b) (\<lambda>_. None)",
      OF _ assms(1-3)] fold_block_slice by (simp add: in_items_def)
  have i: "sized n (fold identity_block bs (fold fold_block bs st)) \<and>
      (\<forall>b \<in> set bs. slice b (fold identity_block bs (fold fold_block bs st)) = identity_slice (slice b (fold fold_block bs st)))"
    using fold_blocks [where op = identity_block and g = "\<lambda>_. identity_slice", OF _ conjunct1 [OF f] assms(2,3)]
      identity_block_slice by (simp add: in_items_def)
  have "\<forall>b \<in> set bs. slice b (fold dead_store_block bs (fold identity_block bs (fold fold_block bs st))) =
      dead_store_slice (slice b (fold identity_block bs (fold fold_block bs st)))"
    using fold_blocks [where op = dead_store_block and g = "\<lambda>_. dead_store_slice", OF _ conjunct1 [OF i] assms(2,3)]
      dead_store_block_slice by (simp add: in_items_def)
  with f i assms(4) show ?thesis by (simp add: block_passes_def block_slice_def)
qed

lemma straight_map:
  assumes "list_all2 (\<lambda>x y. isLabel (snd x) = isLabel (snd y) \<and> plain (snd x) = plain (snd y)) xs ys" and "straight xs"
  shows "straight ys"
proof -
  have nil: "straight []" by (simp add: straight_def)
  from assms show ?thesis
    by (induction rule: list_all2_induct) (auto simp: straight_Cons nil)
qed

lemma plain_movi: "i_opcode (ii_machine i) = OP_MOVI \<Longrightarrow> plain (It_Instruction i)"
  by (simp add: plain_def endsBlock_def opcode_row_def)

lemma fold_machine_movi: "fold_machine c m dead = (c', Some m') \<Longrightarrow> i_opcode m' = OP_MOVI"
  by (auto simp: fold_machine_def Let_def split: if_splits option.splits sum.splits)

lemma fold_slice_shape:
  "list_all2 (\<lambda>x y. isLabel (snd x) = isLabel (snd y) \<and> plain (snd x) = plain (snd y)) xs (fold_slice live c xs)"
proof (induction xs arbitrary: c)
  case (Cons x xs)
  obtain removed item where x: "x = (removed, item)" by fastforce
  show ?case
  proof (cases item)
    case (It_Instruction i)
    obtain c' ch where fm: "fold_machine c (ii_machine i) (flags_dead (map snd xs) live) = (c', ch)" by fastforce
    have "plain item = plain (It_Instruction (i\<lparr> ii_machine := m \<rparr>))" if "ch = Some m" for m
    proof -
      have "\<not> endsBlock (i_opcode (ii_machine i))"
        using fold_machine_ends [of "ii_machine i" c "flags_dead (map snd xs) live"] fm that by auto
      then show ?thesis
        using plain_movi [of "i\<lparr> ii_machine := m \<rparr>"] fold_machine_movi [of c] fm that
        by (simp add: It_Instruction plain_def)
    qed
    with Cons.IH fm show ?thesis by (cases ch) (auto simp: x It_Instruction)
  qed (use Cons.IH in \<open>simp_all add: x\<close>)
qed simp

lemma identity_slice_shape: "map snd (identity_slice xs) = map snd xs"
  by (induction xs rule: identity_slice.induct) (auto split: Item.splits)

lemma straight_items:
  "straight xs \<longleftrightarrow> (\<forall>y \<in> set (map snd xs). \<not> isLabel y) \<and> (\<forall>y \<in> set (butlast (map snd xs)). plain y)"
  by (auto simp: straight_def simp flip: map_butlast)

lemma straight_snd: "map snd ys = map snd xs \<Longrightarrow> straight xs \<Longrightarrow> straight ys"
  by (simp only: straight_items)

lemma block_slice_sim:
  assumes "run_slice invoke val addr xs vm = Some vm1" and "straight xs" and "clean xs"
    and "length (registers (cpu vm)) = kRegisterCount"
    and "f = flags (cpu vm) \<or> flags_dead (map snd xs) (bl_flags_live_out b)"
  shows "\<exists>g. run_slice invoke val addr (block_slice b xs) (with_flags f vm) = Some (with_flags g vm1) \<and>
    (bl_flags_live_out b \<longrightarrow> g = flags (cpu vm1))"
proof -
  let ?ys = "fold_slice (bl_flags_live_out b) (\<lambda>_. None) xs"
  have "knows (\<lambda>_. None) vm" using assms(4) by (simp add: knows_def)
  from fold_slice_sim [OF assms(1-3) this assms(5)] obtain g where
    g: "run_slice invoke val addr ?ys (with_flags f vm) = Some (with_flags g vm1)"
      "bl_flags_live_out b \<longrightarrow> g = flags (cpu vm1)" by blast
  have "straight ?ys" by (rule straight_map [OF fold_slice_shape assms(2)])
  then have "straight (identity_slice ?ys)" by (rule straight_snd [OF identity_slice_shape])
  from dead_store_slice_sim [OF identity_slice_sim [OF g(1)] this] g(2) show ?thesis
    unfolding block_slice_def by blast
qed

end
