(* ===== verification/Optimizer_Flow.thy ===== *)
theory Optimizer_Flow
  imports Optimizer_Sim Machine_Safety
begin

text \<open>
  Which blocks control flow can enter, and the theorem over its paths: however control moves from
  block to block, the optimized blocks leave the machine in the state of the original ones.
\<close>

subsection \<open>Reachable code\<close>

fun terminates :: "Item \<Rightarrow> bool" where
  "terminates (It_Instruction i) \<longleftrightarrow>
     (case findOpcode (i_opcode (ii_machine i)) of Some info \<Rightarrow> oi_is_terminator info | None \<Rightarrow> False)"
| "terminates _ \<longleftrightarrow> False"

definition reach_after :: "Item \<Rightarrow> bool \<Rightarrow> bool" where
  "reach_after item reachable \<longleftrightarrow> isLabel item \<or> (reachable \<and> \<not> terminates item)"

definition reach :: "Item list \<Rightarrow> nat \<Rightarrow> bool" where
  "reach items i = fold reach_after (take i items) True"

lemma reach_0 [simp]: "reach items 0" by (simp add: reach_def)

lemma reach_Suc: "i < length items \<Longrightarrow> reach items (Suc i) = reach_after (items ! i) (reach items i)"
  by (simp add: reach_def take_Suc_conv_app_nth)

lemma plain_terminates: "plain item \<Longrightarrow> \<not> terminates item"
  by (cases item) (auto simp: plain_def endsBlock_def split: option.splits)

text \<open>The classes of items that decide the flow, which the early passes keep.\<close>

definition same_class :: "Item \<Rightarrow> Item \<Rightarrow> bool" where
  "same_class x y \<longleftrightarrow> isInstruction x = isInstruction y \<and> isLabel x = isLabel y \<and> terminates x = terminates y"

lemma reach_class:
  assumes "list_all2 same_class xs ys"
  shows "reach ys i = reach xs i"
proof -
  have "fold reach_after ys r = fold reach_after xs r" if "list_all2 same_class xs ys" for xs ys r
    using that by (induction arbitrary: r rule: list_all2_induct) (auto simp: same_class_def reach_after_def)
  from this [OF list_all2_takeI [OF assms]] show ?thesis by (simp add: reach_def)
qed

definition marked :: "Item list \<Rightarrow> Passes \<Rightarrow> bool" where
  "marked items st \<longleftrightarrow> list_all2 same_class items (pa_items st) \<and> length (pa_remove st) = length items \<and>
     (\<forall>i < length items.
        (isInstruction (items ! i) \<and> \<not> reach items i \<longrightarrow> pa_remove st ! i) \<and>
        (pa_remove st ! i \<longrightarrow> (isInstruction (items ! i) \<and> \<not> reach items i) \<or> no_flags (pa_items st ! i)))"

lemma unreachable_marks:
  assumes "k \<le> length items"
  shows "\<exists>st. fold unreachable_step [0..<k] (True, start_passes items stats) = (reach items k, st) \<and>
    pa_items st = items \<and> length (pa_remove st) = length items \<and>
    (\<forall>i < length items. pa_remove st ! i \<longleftrightarrow> i < k \<and> isInstruction (items ! i) \<and> \<not> reach items i)"
  using assms
proof (induction k)
  case 0
  then show ?case by (simp add: start_passes_def)
next
  case (Suc k)
  then obtain st where st: "fold unreachable_step [0..<k] (True, start_passes items stats) = (reach items k, st)"
    "pa_items st = items" "length (pa_remove st) = length items"
    "\<forall>i < length items. pa_remove st ! i \<longleftrightarrow> i < k \<and> isInstruction (items ! i) \<and> \<not> reach items i" by auto
  have k: "k < length items" using Suc.prems by simp
  have all: "fold unreachable_step [0..<Suc k] (True, start_passes items stats) = unreachable_step k (reach items k, st)"
    using st(1) by simp
  have "\<exists>st'. unreachable_step k (reach items k, st) = (reach items (Suc k), st') \<and>
    pa_items st' = items \<and> length (pa_remove st') = length items \<and>
    (\<forall>i < length items. pa_remove st' ! i \<longleftrightarrow> i < Suc k \<and> isInstruction (items ! i) \<and> \<not> reach items i)"
  proof (cases "items ! k")
    case (It_Instruction i)
    show ?thesis
    proof (cases "reach items k")
      case True
      then have "unreachable_step k (reach items k, st) = (reach items (Suc k), st)"
        using It_Instruction k st(2)
        by (auto simp: unreachable_step_def reach_Suc reach_after_def split: option.splits)
      with st It_Instruction True show ?thesis by (auto simp: less_Suc_eq)
    next
      case False
      then have "unreachable_step k (reach items k, st) =
          (reach items (Suc k), count_up (os_unreachable_removed_update (\<lambda>n. n + 1)) (drop_item k st))"
        using It_Instruction k st(2) by (simp add: unreachable_step_def reach_Suc reach_after_def)
      with st It_Instruction False k show ?thesis by (auto simp: less_Suc_eq nth_list_update)
    qed
  qed (use st k in \<open>auto simp: unreachable_step_def reach_Suc reach_after_def less_Suc_eq\<close>)
  then show ?case unfolding all .
qed

lemma marked_unreachable: "marked items (pass_unreachable (start_passes items stats))"
proof -
  obtain st where "fold unreachable_step [0..<length items] (True, start_passes items stats) = (reach items (length items), st)"
    "pa_items st = items" "length (pa_remove st) = length items"
    "\<forall>i < length items. pa_remove st ! i \<longleftrightarrow> i < length items \<and> isInstruction (items ! i) \<and> \<not> reach items i"
    using unreachable_marks [of "length items" items stats] by auto
  moreover have "pa_items (start_passes items stats) = items" by (simp add: start_passes_def)
  ultimately show ?thesis
    by (auto simp: pass_unreachable_def marked_def list_all2_refl same_class_def)
qed

lemma marked_count [simp]: "marked items (count_up f st) = marked items st"
  by (simp add: marked_def)

lemma marked_drop:
  assumes "marked items st" and "no_flags (pa_items st ! i)"
  shows "marked items (drop_item i st)"
proof -
  have "(pa_remove st)[i := True] ! j \<longleftrightarrow> j = i \<or> pa_remove st ! j" if "j < length (pa_remove st)" for j
    using that by (cases "j = i") simp_all
  with assms show ?thesis by (auto simp: marked_def)
qed

lemma marked_put:
  assumes "marked items st" and "pa_items st ! i = It_Instruction x" and "i < length items"
    and "\<not> terminates (pa_items st ! i)" and "i_opcode m = OP_MOV"
  shows "marked items (put_machine i x m st)"
proof -
  let ?y = "It_Instruction (x\<lparr> ii_machine := m \<rparr>)"
  have len: "length (pa_items st) = length items" using assms(1) by (auto simp: marked_def dest: list_all2_lengthD)
  have y: "same_class (pa_items st ! i) ?y" "no_flags ?y"
    using assms(2,4,5) by (simp_all add: same_class_def no_flags_def readsFlags_def writesFlags_def opcode_row_def)
  have sc: "same_class (items ! j) (pa_items st ! j)" if "j < length items" for j
    using assms(1) that by (auto simp: marked_def list_all2_conv_all_nth)
  have "same_class (items ! i) ?y" using sc [OF assms(3)] y(1) by (auto simp: same_class_def)
  then have "same_class (items ! j) ((pa_items st)[i := ?y] ! j)" if "j < length items" for j
    using sc [OF that] len that by (cases "j = i") simp_all
  then have "list_all2 same_class items ((pa_items st)[i := ?y])"
    using len by (simp add: list_all2_conv_all_nth)
  moreover have "no_flags ((pa_items st)[i := ?y] ! j)" if "no_flags (pa_items st ! j)" "j < length items" for j
    using y(2) len that by (cases "j = i") simp_all
  ultimately show ?thesis
    using assms(1) unfolding marked_def put_machine_simps by blast
qed

lemma push_pop_no_flags:
  "i_opcode (ii_machine x) \<in> {OP_PUSH, OP_POP, OP_JMP} \<Longrightarrow> no_flags (It_Instruction x)"
  by (auto simp: no_flags_def readsFlags_def writesFlags_def opcode_row_def)

lemma marked_peephole_step:
  assumes "marked items (snd rs)" and "i + 1 < length items"
  shows "marked items (snd (peephole_step i rs))"
proof -
  obtain resume st where rs: "rs = (resume, st)" by fastforce
  have m: "marked items st" using assms(1) by (simp add: rs)
  show ?thesis
  proof (cases "pa_items st ! i")
    case (It_Instruction x)
    note x = this
    show ?thesis
    proof (cases "pa_items st ! (i + 1)")
      case (It_Instruction y)
      show ?thesis
      proof (cases "i_opcode (ii_machine x) = OP_PUSH \<and> i_opcode (ii_machine y) = OP_POP")
        case True
        have nx: "no_flags (pa_items st ! i)" "no_flags (pa_items st ! (i + 1))"
          using True x It_Instruction push_pop_no_flags by simp_all
        have d: "marked items (drop_item (i + 1) (drop_item i st))"
          using marked_drop [OF marked_drop [OF m nx(1)], of "i + 1"] nx(2) by simp
        let ?m = "(ii_machine x)\<lparr> i_opcode := OP_MOV, i_dst := i_dst (ii_machine y), i_src := i_dst (ii_machine x) \<rparr>"
        have "marked items (put_machine i x ?m st)"
          by (rule marked_put [OF m x]) (use assms(2) True x in \<open>simp_all add: opcode_row_def\<close>)
        then have p: "marked items (drop_item (i + 1) (put_machine i x ?m st))"
          by (rule marked_drop) (use nx(2) in simp)
        show ?thesis
          using d p m x It_Instruction True by (simp add: peephole_step_def rs Let_def)
      qed (use m x It_Instruction in \<open>auto simp: peephole_step_def rs\<close>)
    qed (use m x in \<open>simp_all add: peephole_step_def rs\<close>)
  qed (use m in \<open>simp_all add: peephole_step_def rs\<close>)
qed

lemma marked_early: "marked items (early_passes items stats)"
proof -
  have len: "length (pa_items (pass_unreachable (start_passes items stats))) = length items"
    using marked_unreachable [of items stats] by (auto simp: marked_def dest: list_all2_lengthD)
  have p: "marked items (pass_peephole (pass_unreachable (start_passes items stats)))"
    unfolding pass_peephole_def len
    by (rule fold_keeps [where P = "\<lambda>s. marked items (snd s)"])
      (auto intro!: marked_peephole_step marked_unreachable)
  show ?thesis
    unfolding early_passes_def pass_jumps_def
    by (rule fold_keeps [where P = "marked items"])
      (auto simp: p jump_step_def intro!: marked_drop push_pop_no_flags split: Item.splits option.splits)
qed

text \<open>Inside a block nothing changes reachability, so an entered block is clean.\<close>

lemma reach_in_block:
  assumes "block_ok items b" and "bl_begin b \<le> i" and "i < bl_end b"
  shows "reach items i = reach items (bl_begin b)"
  using assms(2,3)
proof (induction i rule: dec_induct)
  case (step i)
  have p: "plain (items ! i)" using assms(1) step by (simp add: block_ok_def)
  then have "\<not> isLabel (items ! i)" "\<not> terminates (items ! i)" by (simp_all add: plain_terminates) (simp add: plain_def)
  moreover have "i < length items" using assms(1) step by (simp add: block_ok_def)
  ultimately show ?case using step by (simp add: reach_Suc reach_after_def)
qed simp

lemma entered_clean:
  assumes "marked items st" and "block_ok (pa_items st) b" and "reach items (bl_begin b)"
  shows "clean (slice b st)"
proof -
  have len: "length (pa_items st) = length items" "length (pa_remove st) = length items"
    using assms(1) by (auto simp: marked_def dest: list_all2_lengthD)
  have rc: "reach (pa_items st) i = reach items i" for i
    using assms(1) reach_class by (auto simp: marked_def)
  show ?thesis
    unfolding clean_def
  proof (intro ballI impI)
    fix x assume "x \<in> set (slice b st)" and rem: "fst x"
    then obtain m where m: "m < length (slice b st)" "slice b st ! m = x" by (metis in_set_conv_nth)
    then have i: "bl_begin b + m < bl_end b" "bl_begin b + m < length items"
      by (simp_all add: slice_def len less_diff_conv add.commute)
    have x: "x = (pa_remove st ! (bl_begin b + m), pa_items st ! (bl_begin b + m))"
      using m i by (simp add: slice_def len)
    have "reach items (bl_begin b + m)"
      using reach_in_block [OF assms(2) _ i(1)] assms(3) rc by simp
    with assms(1) i(2) rem show "no_flags (snd x)" by (auto simp: marked_def x)
  qed
qed

lemma block_straight:
  assumes "block_ok (pa_items st) b" and "length (pa_remove st) = length (pa_items st)"
  shows "straight (slice b st)"
proof -
  have "snd x = pa_items st ! (bl_begin b + m)"
    if "m < length (slice b st)" "slice b st ! m = x" for m x
    using that assms(2) by (auto simp: slice_def)
  then have nth: "snd (slice b st ! m) = pa_items st ! (bl_begin b + m) \<and> bl_begin b + m < bl_end b"
    if "m < length (slice b st)" for m
    using that by (auto simp: slice_def less_diff_conv add.commute)
  have "\<not> isLabel (snd x)" if "x \<in> set (slice b st)" for x
    using that nth assms(1) by (auto simp: in_set_conv_nth block_ok_def)
  moreover have "plain (snd x)" if x: "x \<in> set (butlast (slice b st))" for x
  proof -
    obtain m where m: "m < length (slice b st) - 1" "x = slice b st ! m"
      using x by (auto simp: in_set_conv_nth nth_butlast)
    have "bl_begin b + Suc m < bl_end b" using nth [of "Suc m"] m(1) by simp
    with nth [of m] m assms(1) show ?thesis by (simp add: block_ok_def)
  qed
  ultimately show ?thesis by (simp add: straight_def)
qed

text \<open>What the split records about reachability: labels start entered blocks, and a block whose end is
  reachable is followed by one whose beginning is.\<close>

definition split_reach :: "Item list \<Rightarrow> nat \<times> Block list \<times> Labels \<Rightarrow> bool" where
  "split_reach items st \<longleftrightarrow> (case st of (b, blocks, labels) \<Rightarrow>
     (\<forall>n \<in> ran labels. n < length blocks \<longrightarrow> reach items (bl_begin (blocks ! n))) \<and>
     (length blocks \<in> ran labels \<longrightarrow> reach items b) \<and>
     (\<forall>i. Suc i < length blocks \<longrightarrow> reach items (bl_end (blocks ! i)) \<longrightarrow> reach items (bl_begin (blocks ! Suc i))) \<and>
     (blocks \<noteq> [] \<longrightarrow> reach items (bl_end (last blocks)) \<longrightarrow> reach items b))"

lemma split_reach_push:
  assumes "split_reach items (b, blocks, labels)" and "\<forall>n \<in> ran labels. n \<le> length blocks"
    and "reach items e \<Longrightarrow> reach items b'"
  shows "split_reach items (b', blocks @ [new_block b e], labels)"
proof -
  have "Suc (length blocks) \<notin> ran labels" using assms(2) by auto
  moreover have "last blocks = blocks ! i \<and> blocks \<noteq> []" if "Suc i = length blocks" for i
    using that by (cases blocks rule: rev_cases) auto
  ultimately show ?thesis
    using assms by (auto simp: split_reach_def nth_append less_Suc_eq)
qed

lemma split_reach_step:
  assumes "split_reach items st" and "split_ok items k st" and "k < length items"
  shows "split_reach items (split_item items k st)"
proof -
  obtain b blocks labels where st: "st = (b, blocks, labels)" by (metis prod.exhaust)
  have le: "\<forall>n \<in> ran labels. n \<le> length blocks" using assms(2) by (simp add: split_ok_def st)
  show ?thesis
  proof (cases "items ! k")
    case (It_Label name local location)
    have r: "reach items (Suc k)" using It_Label assms(3) by (simp add: reach_Suc reach_after_def)
    let ?bs = "if k > b then blocks @ [new_block b k] else blocks"
    have "split_reach items (Suc k, ?bs, labels)"
    proof (cases "k > b")
      case True
      then show ?thesis using split_reach_push [OF assms(1) [unfolded st] le, of k "Suc k"] r by simp
    next
      case False
      then show ?thesis using assms(1) r by (simp add: split_reach_def st)
    qed
    then have "split_reach items (Suc k, ?bs, emplace name (length ?bs) labels)"
      using r ran_emplace [of name "length ?bs" labels] unfolding split_reach_def split_conv by blast
    then show ?thesis by (simp add: split_item_def st It_Label Let_def)
  next
    case (It_Instruction x)
    then show ?thesis
      using assms(1) split_reach_push [OF assms(1) [unfolded st] le, of "Suc k" "Suc k"]
      by (simp add: split_item_def st)
  qed (use assms(1) in \<open>simp_all add: split_item_def st\<close>)
qed

lemma split_reach_all:
  "k \<le> length items \<Longrightarrow> split_reach items (fold (split_item items) [0..<k] (0, [], \<lambda>_. None))"
proof (induction k)
  case 0
  then show ?case by (simp add: split_reach_def)
next
  case (Suc k)
  then show ?case using split_reach_step [of items _ k] split_all [of k items] by simp
qed

lemma splitBlocks_reach:
  assumes "splitBlocks items = (blocks, labels)"
  shows "\<forall>n \<in> ran labels. n < length blocks \<longrightarrow> reach items (bl_begin (blocks ! n))"
    and "\<forall>i. Suc i < length blocks \<longrightarrow> reach items (bl_end (blocks ! i)) \<longrightarrow> reach items (bl_begin (blocks ! Suc i))"
proof -
  obtain b bs where f: "fold (split_item items) [0..<length items] (0, [], \<lambda>_. None) = (b, bs, labels)"
    and bl: "blocks = (if b < length items \<or> bs = [] then bs @ [new_block b (length items)] else bs)"
    using assms by (auto simp: splitBlocks_def split: prod.splits if_splits)
  have r: "split_reach items (b, bs, labels)" using split_reach_all [of "length items" items] by (simp add: f)
  have le: "\<forall>n \<in> ran labels. n \<le> length bs"
    using split_all [of "length items" items] by (simp add: f split_ok_def)
  have "\<exists>b'. split_reach items (b', blocks, labels)"
    using r split_reach_push [OF r le, of "length items" "length items"] by (auto simp: bl)
  then show "\<forall>n \<in> ran labels. n < length blocks \<longrightarrow> reach items (bl_begin (blocks ! n))"
    and "\<forall>i. Suc i < length blocks \<longrightarrow> reach items (bl_end (blocks ! i)) \<longrightarrow> reach items (bl_begin (blocks ! Suc i))"
    by (auto simp: split_reach_def)
qed

lemma last_instruction_append:
  "last_instruction (xs @ [It_Instruction i]) = Some i"
  by (induction xs) auto

lemma reach_block_end:
  assumes "block_ok items b" and "reach items (bl_begin b)"
    and "case block_terminator items b of None \<Rightarrow> True
      | Some l \<Rightarrow> (case findOpcode (i_opcode (ii_machine l)) of None \<Rightarrow> True | Some x \<Rightarrow> \<not> oi_is_terminator x)"
  shows "reach items (bl_end b)"
proof (cases "bl_begin b = bl_end b")
  case True
  with assms(2) show ?thesis by simp
next
  case False
  then obtain e where e: "bl_end b = Suc e" "bl_begin b \<le> e" "e < length items"
    using assms(1) by (cases "bl_end b") (auto simp: block_ok_def)
  have "reach items e" using reach_in_block [OF assms(1) e(2)] e(1) assms(2) by simp
  moreover have "\<not> terminates (items ! e)"
  proof (cases "items ! e")
    case (It_Instruction i)
    have "block_items items b = take (e - bl_begin b) (drop (bl_begin b) items) @ [items ! e]"
      using e by (simp add: block_items_def Suc_diff_le take_Suc_conv_app_nth)
    then have "block_terminator items b = Some i"
      by (simp add: block_terminator_def It_Instruction last_instruction_append)
    with assms(3) show ?thesis by (simp add: It_Instruction split: option.splits)
  qed simp_all
  ultimately show ?thesis using e by (simp add: reach_Suc reach_after_def)
qed

lemma link_block_successor_kind:
  assumes "s \<in> set (bl_successors (link_block items labels n i b))" and "bl_successors b = []"
  shows "s \<in> ran labels \<or> (s = Suc i \<and> Suc i < n \<and>
    (case block_terminator items b of None \<Rightarrow> True
      | Some l \<Rightarrow> (case findOpcode (i_opcode (ii_machine l)) of None \<Rightarrow> True | Some x \<Rightarrow> \<not> oi_is_terminator x)))"
  using assms by (auto simp: link_block_def Let_def ran_def split: option.splits if_splits)

lemma successors_entered:
  assumes "items = [] \<or> \<not> isLabel (last items)" and "controlFlow items = Some blocks"
    and "i < length blocks" and "j \<in> set (bl_successors (blocks ! i))" and "reach items (bl_begin (blocks ! i))"
  shows "j < length blocks" and "reach items (bl_begin (blocks ! j))"
proof -
  obtain bs labels where s: "splitBlocks items = (bs, labels)" by fastforce
  obtain live_in where ok: "flow_ok items live_in blocks"
    and g: "list_all2 same_graph (linkSuccessors items labels bs) blocks"
    using controlFlow_result [OF assms(1)] assms(2) by (auto simp: s)
  have len: "length blocks = length bs" using list_all2_lengthD [OF g] by simp
  have gr: "same_graph (link_block items labels (length bs) k (bs ! k)) (blocks ! k)" if "k < length bs" for k
    using g that by (auto simp: list_all2_conv_all_nth linkSuccessors_nth)
  have be: "bl_begin (blocks ! k) = bl_begin (bs ! k)" "bl_end (blocks ! k) = bl_end (bs ! k)"
    if "k < length bs" for k
    using same_graph_simps [OF gr [OF that]] by (simp_all add: link_block_extent)
  have i: "i < length bs" using assms(3) len by simp
  note split = splitBlocks_ok [OF s]
  show j: "j < length blocks"
    using ok assms(3,4) by (auto simp: flow_ok_def in_range_def)
  have "j \<in> set (bl_successors (link_block items labels (length bs) i (bs ! i)))"
    using assms(4) same_graph_simps(3) [OF gr [OF i]] by simp
  moreover have "bl_successors (bs ! i) = []" using split(3) i by (simp add: list_all_length)
  ultimately consider "j \<in> ran labels" | "j = Suc i" "Suc i < length bs"
    "case block_terminator items (bs ! i) of None \<Rightarrow> True
      | Some l \<Rightarrow> (case findOpcode (i_opcode (ii_machine l)) of None \<Rightarrow> True | Some x \<Rightarrow> \<not> oi_is_terminator x)"
    using link_block_successor_kind by blast
  then have "reach items (bl_begin (bs ! j))"
  proof cases
    case 1
    then show ?thesis using splitBlocks_reach(1) [OF s] j len by simp
  next
    case 2
    have "block_ok items (bs ! i)" using split(1) i by (simp add: list_all_length)
    from reach_block_end [OF this _ 2(3)] assms(5) be [OF i] have "reach items (bl_end (bs ! i))" by simp
    with splitBlocks_reach(2) [OF s] 2 show ?thesis by simp
  qed
  then show "reach items (bl_begin (blocks ! j))" using be j len by simp
qed

subsection \<open>Paths through the blocks\<close>

text \<open>
  A path names the blocks control moves through, each with its address.  It follows the edges of the
  graph; after a block with an unknown successor (a call, a return, a jump out of the section) it
  may go on in any block that can be entered.
\<close>

fun run_path ::
  "('e, 'p) provider \<Rightarrow> (SymbolRef \<Rightarrow> i64) \<Rightarrow> Block list \<Rightarrow> Passes \<Rightarrow> (nat \<times> u64) list \<Rightarrow> 'p VM \<Rightarrow> 'p VM option"
where
  "run_path invoke val blocks st [] vm = Some vm"
| "run_path invoke val blocks st ((i, addr) # rest) vm =
     (case run_slice invoke val addr (slice (blocks ! i) st) vm of
        None \<Rightarrow> None
      | Some vm \<Rightarrow> run_path invoke val blocks st rest vm)"

definition goes_to :: "Item list \<Rightarrow> Block list \<Rightarrow> nat \<Rightarrow> nat \<Rightarrow> bool" where
  "goes_to items blocks i j \<longleftrightarrow> j \<in> set (bl_successors (blocks ! i)) \<or>
     (bl_unknown_successor (blocks ! i) \<and> j < length blocks \<and> reach items (bl_begin (blocks ! j)))"

fun flow_path :: "Item list \<Rightarrow> Block list \<Rightarrow> nat list \<Rightarrow> bool" where
  "flow_path items blocks [] \<longleftrightarrow> True"
| "flow_path items blocks [i] \<longleftrightarrow> True"
| "flow_path items blocks (i # j # rest) \<longleftrightarrow> goes_to items blocks i j \<and> flow_path items blocks (j # rest)"

definition enters :: "Item list \<Rightarrow> Block list \<Rightarrow> nat \<Rightarrow> bool" where
  "enters items blocks i \<longleftrightarrow> i < length blocks \<and> reach items (bl_begin (blocks ! i))"

lemma flags_dead_iff:
  "flags_dead xs live \<longleftrightarrow> \<not> reads_before_writing xs \<and> (live \<longrightarrow> list_ex writes_flags_item xs)"
  by (induction xs live rule: flags_dead.induct) auto

lemma slice_items:
  "length (pa_remove st) = length (pa_items st) \<Longrightarrow> map snd (slice b st) = block_items (pa_items st) b"
  by (simp add: slice_def block_items_def take_map [symmetric] drop_map [symmetric])

lemma reads_or_writes_dead:
  assumes "solved items v blocks i" and "\<not> v ! i"
  shows "flags_dead (block_items items (blocks ! i)) (bl_flags_live_out (blocks ! i))"
  using assms
  by (auto simp: solved_def live_in_eq_def flags_dead_iff blockReadsFlagsBeforeWriting_def blockWritesFlags_def)

context syscall_provider
begin

lemma run_slice_keeps:
  "vm_ok vm \<Longrightarrow> run_slice invoke val addr xs vm = Some vm1 \<Longrightarrow> vm_ok vm1"
proof (induction xs arbitrary: vm)
  case (Cons x xs)
  obtain removed item where x: "x = (removed, item)" by fastforce
  show ?case
  proof (cases item)
    case (It_Instruction i)
    show ?thesis
    proof (cases removed)
      case False
      then obtain u vm' where ex: "execute invoke (linked val i) addr vm = (Inr u, vm')"
        and rest: "run_slice invoke val addr xs vm' = Some vm1"
        using Cons.prems(2) It_Instruction by (auto simp: x split: prod.splits sum.splits)
      have "vm_ok vm'" using execute_keeps [OF Cons.prems(1) ex] by simp
      from Cons.IH [OF this rest] show ?thesis .
    qed (use Cons It_Instruction in \<open>simp add: x\<close>)
  qed (use Cons in \<open>simp_all add: x\<close>)
qed simp

lemma path_sim:
  fixes items stats
  defines "st \<equiv> early_passes items stats"
  defines "xs \<equiv> pa_items st"
  assumes last: "xs = [] \<or> \<not> isLabel (last xs)" and flow: "controlFlow xs = Some blocks"
    and ok: "flow_ok xs live_in blocks"
  shows "run_path invoke val blocks st path vm = Some vm1 \<Longrightarrow> flow_path xs blocks (map fst path) \<Longrightarrow>
    vm_ok vm \<Longrightarrow> (\<forall>i p. path = (i, p) # tl path \<longrightarrow> enters xs blocks i \<and> (f = flags (cpu vm) \<or> \<not> live_in ! i)) \<Longrightarrow>
    (path = [] \<Longrightarrow> f = flags (cpu vm)) \<Longrightarrow>
    \<exists>g. run_path invoke val blocks (block_passes blocks st) path (with_flags f vm) = Some (with_flags g vm1)"
proof (induction path arbitrary: vm f)
  case Nil
  then show ?case by auto
next
  case (Cons ia path)
  obtain i addr where ia: "ia = (i, addr)" by fastforce
  have enter: "i < length blocks" "reach xs (bl_begin (blocks ! i))" and fl: "f = flags (cpu vm) \<or> \<not> live_in ! i"
    using Cons.prems(4) by (auto simp: ia enters_def)
  have m: "marked items st" unfolding st_def by (rule marked_early)
  have len: "length xs = length items" "length (pa_remove st) = length xs"
    using m by (auto simp: marked_def xs_def dest: list_all2_lengthD)
  have size: "sized (length xs) st" using len by (simp add: sized_def xs_def)
  have b: "block_ok xs (blocks ! i)" "solved xs live_in blocks i" and ss: "sorted_wrt follows blocks"
    "list_all (block_ok xs) blocks"
    using ok enter(1) by (auto simp: flow_ok_def list_all_length)
  have ins: "list_all (in_items (length xs)) blocks"
    using ss(2) by (auto simp: list_all_iff block_ok_def in_items_def)
  let ?b = "blocks ! i"
  obtain vm' where run: "run_slice invoke val addr (slice ?b st) vm = Some vm'"
    and rest: "run_path invoke val blocks st path vm' = Some vm1"
    using Cons.prems(1) by (auto simp: ia split: option.splits)
  have "reach items (bl_begin ?b)"
    using enter(2) m reach_class by (auto simp: marked_def xs_def)
  then have clean: "clean (slice ?b st)" using entered_clean [OF m] b(1) by (simp add: xs_def)
  have straight: "straight (slice ?b st)" using block_straight [of st ?b] b(1) len by (simp add: xs_def)
  have "map snd (slice ?b st) = block_items xs ?b" using slice_items [of st ?b] len by (simp add: xs_def)
  then have dead: "f = flags (cpu vm) \<or> flags_dead (map snd (slice ?b st)) (bl_flags_live_out ?b)"
    using fl reads_or_writes_dead [OF b(2)] by auto
  have regs: "length (registers (cpu vm)) = kRegisterCount" using Cons.prems(3) by (simp add: vm_ok_def)
  obtain g where g: "run_slice invoke val addr (block_slice ?b (slice ?b st)) (with_flags f vm) = Some (with_flags g vm')"
    "bl_flags_live_out ?b \<longrightarrow> g = flags (cpu vm')"
    using block_slice_sim [OF run straight clean regs dead] by blast
  have sl: "slice ?b (block_passes blocks st) = block_slice ?b (slice ?b st)"
    using block_passes_slices [OF size ins ss(1)] enter(1) by simp
  have ok': "vm_ok vm'" by (rule run_slice_keeps [OF Cons.prems(3) run])
  show ?case
  proof (cases path)
    case Nil
    with g(1) sl rest show ?thesis by (auto simp: ia)
  next
    case (Cons jb path')
    obtain j bddr where jb: "jb = (j, bddr)" by fastforce
    have go: "goes_to xs blocks i j" and path: "flow_path xs blocks (map fst path)"
      using Cons.prems(2) Cons by (simp_all add: ia jb)
    have ej: "enters xs blocks j"
      using go enter successors_entered [OF last flow, of i j] by (auto simp: goes_to_def enters_def)
    have "g = flags (cpu vm') \<or> \<not> live_in ! j"
    proof (rule ccontr)
      assume "\<not> (g = flags (cpu vm') \<or> \<not> live_in ! j)"
      moreover from this go b(2) have "bl_flags_live_out ?b"
        by (auto simp: goes_to_def solved_def live_out_eq_def)
      ultimately show False using g(2) by simp
    qed
    with ej have "\<forall>k p. path = (k, p) # tl path \<longrightarrow> enters xs blocks k \<and> (g = flags (cpu vm') \<or> \<not> live_in ! k)"
      by (simp add: Cons jb)
    from Cons.IH [OF rest path ok' this] Cons g(1) sl show ?thesis by (simp add: ia)
  qed
qed

lemma optimized_path:
  assumes "items = [] \<or> \<not> isLabel (last items)"
    and "controlFlow (pa_items (early_passes items stats)) = Some blocks"
    and "flow_path (pa_items (early_passes items stats)) blocks (map fst path)"
    and "path \<noteq> [] \<Longrightarrow> enters (pa_items (early_passes items stats)) blocks (fst (hd path))"
    and "vm_ok vm" and "run_path invoke val blocks (early_passes items stats) path vm = Some vm1"
  shows "\<exists>f. run_path invoke val blocks (block_passes blocks (early_passes items stats)) path vm = Some (with_flags f vm1)"
proof -
  let ?xs = "pa_items (early_passes items stats)"
  have "list_all2 same_class items ?xs" using marked_early [of items stats] by (simp add: marked_def)
  then have last: "?xs = [] \<or> \<not> isLabel (last ?xs)"
    using assms(1) by (cases items rule: rev_cases; cases ?xs rule: rev_cases)
      (auto simp: same_class_def list_all2_append1 list_all2_Cons1 list_all2_Cons2)
  obtain live_in where ok: "flow_ok ?xs live_in blocks"
    using controlFlow_result [OF last] assms(2) by auto
  have e: "\<forall>i p. path = (i, p) # tl path \<longrightarrow> enters ?xs blocks i \<and> (flags (cpu vm) = flags (cpu vm) \<or> \<not> live_in ! i)"
    using assms(4) by (cases path) auto
  from path_sim [OF last assms(2) ok assms(6,3,5) e] show ?thesis
    by (simp add: with_flags_same)
qed

end

subsection \<open>The properties\<close>

definition literal :: "Opcode \<Rightarrow> Reg \<Rightarrow> Reg \<Rightarrow> i64 \<Rightarrow> Item" where
  "literal opcode dst src v = It_Instruction
     \<lparr> ii_machine = mk_instr opcode dst src v, ii_symbol = None, ii_location = no_location \<rparr>"

definition jump_to :: "Opcode \<Rightarrow> string \<Rightarrow> Item" where
  "jump_to opcode name = It_Instruction
     \<lparr> ii_machine = mk_instr opcode 0 0 0, ii_symbol = Some \<lparr> ref_name = name, ref_addend = 0 \<rparr>,
       ii_location = no_location \<rparr>"

definition adding :: "Item list" where
  "adding = [literal OP_MOVI 1 0 5, literal OP_MOVI 2 0 7, literal OP_ADD 1 2 0, literal OP_HALT 0 0 0]"

definition adding_module :: Module where
  "adding_module = (empty_module ''a.mtc'')\<lparr> mo_sections := [(new_section Kind_Text)\<lparr> is_items := adding \<rparr>] \<rparr>"

text \<open>
  C19: optimizing a module changes nothing but the instructions of its text sections: every label and
  every data item stays, in its order, the symbol declarations and the other sections are as
  before, and the number of instructions never grows.
\<close>

theorem optimizer_keeps_labels:
  assumes "run_optimizer level m = Some (m', stats)"
  shows "list_all2 same_but_code (mo_sections m) (mo_sections m') \<and>
    mo_globals m' = mo_globals m \<and> mo_externs m' = mo_externs m \<and> mo_weaks m' = mo_weaks m \<and>
    instructionCount m' \<le> instructionCount m \<and> os_instructions_after stats = instructionCount m'"
  using run_optimizer_keeps [OF assms] by blast

lemma adding_runs: "\<exists>m' stats. run_optimizer O1 adding_module = Some (m', stats)"
proof -
  have "(case run_optimizer O1 adding_module of None \<Rightarrow> False | Some _ \<Rightarrow> True)" by code_simp
  then show ?thesis by (auto split: option.splits)
qed

lemma optimizer_keeps_labels_witness:
  "\<exists>m' stats. run_optimizer O1 adding_module = Some (m', stats) \<and>
     list_all2 same_but_code (mo_sections adding_module) (mo_sections m')"
  using adding_runs optimizer_keeps_labels by blast

text \<open>
  Unless the section ends in a label, the liveness loop ends, and what it leaves is a solution of
  the liveness equations over a graph whose blocks are disjoint, in order and free of labels.
\<close>

theorem liveness_ends:
  assumes "items = [] \<or> \<not> isLabel (last items)"
  shows "\<exists>live_in blocks. controlFlow items = Some blocks \<and> flow_ok items live_in blocks"
  using controlFlow_result [OF assms] by blast

lemma liveness_ends_witness: "\<exists>live_in blocks. controlFlow adding = Some blocks \<and> flow_ok adding live_in blocks"
  by (rule liveness_ends) (simp add: adding_def literal_def)

text \<open>
  C14: the passes over the blocks preserve what a program does.  Take any path of control through the
  blocks of a section, from a state of the machine in which its run succeeds, whatever the linker
  puts for the symbols and whatever the addresses of the blocks: the optimized blocks run too, and
  end in the same state, registers, memory, stack, program counter and output, up to FLAGS at
  the very end.
\<close>

theorem optimized_paths_agree:
  assumes "items = [] \<or> \<not> isLabel (last items)"
    and "controlFlow (pa_items (early_passes items stats)) = Some blocks"
    and "flow_path (pa_items (early_passes items stats)) blocks (map fst path)"
    and "path \<noteq> [] \<Longrightarrow> enters (pa_items (early_passes items stats)) blocks (fst (hd path))"
    and "vm_ok vm"
    and "run_path default_invoke val blocks (early_passes items stats) path vm = Some vm1"
  shows "\<exists>f. run_path default_invoke val blocks (block_passes blocks (early_passes items stats)) path vm =
    Some (with_flags f vm1)"
  using assms by (rule default_provider.optimized_path)

definition adding_blocks :: "Block list" where
  "adding_blocks = [(new_block 0 4)\<lparr> bl_flags_live_out := False \<rparr>]"

lemma adding_flow: "controlFlow (pa_items (early_passes adding no_stats)) = Some adding_blocks"
  by code_simp

lemma adding_slice: "slice (adding_blocks ! 0) (early_passes adding no_stats) = map (Pair False) adding"
  by code_simp

lemma adding_optimized:
  "slice (adding_blocks ! 0) (block_passes adding_blocks (early_passes adding no_stats)) =
     [(True, literal OP_MOVI 1 0 5), (False, literal OP_MOVI 2 0 7), (False, literal OP_MOVI 1 0 12),
      (False, literal OP_HALT 0 0 0)]"
  by code_simp

lemma optimized_paths_agree_witness:
  "\<exists>vm1 f. run_path default_invoke (\<lambda>_. 0) adding_blocks (early_passes adding no_stats) [(0, 0)] demo_machine = Some vm1 \<and>
     run_path default_invoke (\<lambda>_. 0) adding_blocks (block_passes adding_blocks (early_passes adding no_stats)) [(0, 0)]
       demo_machine = Some (with_flags f vm1)"
proof -
  have l: "linked (\<lambda>_. 0) \<lparr> ii_machine = m, ii_symbol = None, ii_location = no_location \<rparr> = m" for m
    by (simp add: linked_def)
  have v: "regs_valid (mk_instr opcode d s x)" if "unat d < 16" "unat s < 16" for opcode d s x
    using that by (simp add: regs_valid_def mk_instr_def registerIndex_def kRegisterCount_def)
  have "run_slice default_invoke (\<lambda>_. 0) 0 (map (Pair False) adding) demo_machine \<noteq> None"
    by (simp add: adding_def literal_def l execute_simps v mk_instr_def exec_rest_def special_opcodes_def
        exec_alu_def isBinaryAlu_def evaluateBinary_def alu_result_def Let_def opcode_row_def
        v [unfolded mk_instr_def])
  then obtain vm1 where r: "run_path default_invoke (\<lambda>_. 0) adding_blocks (early_passes adding no_stats) [(0, 0)]
      demo_machine = Some vm1"
    by (auto simp: adding_slice)
  have "pa_items (early_passes adding no_stats) = adding" by code_simp
  then have "enters (pa_items (early_passes adding no_stats)) adding_blocks 0"
    by (simp add: enters_def adding_blocks_def)
  with optimized_paths_agree [OF _ adding_flow _ _ load_establishes [OF demo_load] r] r show ?thesis
    by (auto simp: adding_def literal_def)
qed

definition jump_to_end :: "Item list" where
  "jump_to_end = [jump_to OP_JE ''done'', literal OP_MOVI 1 0 5, It_Label ''done'' False no_location,
     literal OP_NOP 0 0 0]"

text \<open>
  A label at the end of a section makes the optimizer read outside its vector of live-in bits, and
  removing the last instruction is enough to get there: the jump to the NOP behind the last label is
  fine in the first round, which removes the NOP, and undefined in the second.
\<close>

theorem label_at_end_is_undefined:
  "(\<exists>stats. runPasses jump_to_end no_stats = Some (take 3 jump_to_end, stats, True)) \<and>
   (case splitBlocks (take 3 jump_to_end) of (blocks, labels) \<Rightarrow>
      while_option sweep_again (sweep (take 3 jump_to_end))
        (Some (start_sweep (take 3 jump_to_end) (linkSuccessors (take 3 jump_to_end) labels blocks))) = Some None) \<and>
   iterate_passes kMaxIterations jump_to_end no_stats = None"
proof -
  have a: "runPasses jump_to_end no_stats = Some (take 3 jump_to_end, no_stats\<lparr> os_identities_eliminated := 1 \<rparr>, True)"
    by code_simp
  have b: "case splitBlocks (take 3 jump_to_end) of (blocks, labels) \<Rightarrow>
      while_option sweep_again (sweep (take 3 jump_to_end))
        (Some (start_sweep (take 3 jump_to_end) (linkSuccessors (take 3 jump_to_end) labels blocks))) = Some None"
    by code_simp
  have "iterate_passes kMaxIterations jump_to_end no_stats = None" by code_simp
  with a b show ?thesis by blast
qed

text \<open>
  A jump with a literal displacement is not seen as an entry to the code it jumps to: the
  instruction such a jump reaches is deleted as unreachable.
\<close>

theorem literal_jump_target_deleted:
  "branchTarget 0 8 = 16 \<and>
   (\<exists>stats. runPasses [literal OP_JMP 0 0 8, literal OP_NOP 0 0 0, literal OP_MOVI 1 0 5, literal OP_HALT 0 0 0] no_stats
      = Some ([literal OP_JMP 0 0 8], stats, True))"
proof -
  have "runPasses [literal OP_JMP 0 0 8, literal OP_NOP 0 0 0, literal OP_MOVI 1 0 5, literal OP_HALT 0 0 0] no_stats
      = Some ([literal OP_JMP 0 0 8], no_stats\<lparr> os_unreachable_removed := 3 \<rparr>, True)"
    by code_simp
  moreover have "branchTarget 0 8 = 16" by code_simp
  ultimately show ?thesis by blast
qed

subsection \<open>PUSH and POP\<close>

lemma execute_push:
  "regs_valid (mk_instr OP_PUSH x p v) \<Longrightarrow>
     execute invoke (mk_instr OP_PUSH x p v) addr vm = push (registers (cpu vm) ! registerIndex x) addr vm"
  by (subst execute_simps(9)) (simp_all add: mk_instr_def)

lemma execute_pop:
  "regs_valid (mk_instr OP_POP x p v) \<Longrightarrow>
     execute invoke (mk_instr OP_POP x p v) addr vm =
       (case pop addr vm of (Inl e, vm) \<Rightarrow> (Inl e, vm) | (Inr w, vm) \<Rightarrow> (Inr (), set_register (registerIndex x) w vm))"
  by (subst execute_simps(10)) (simp_all add: mk_instr_def cong: prod.case_cong sum.case_cong)

lemma execute_mov:
  "regs_valid (mk_instr OP_MOV x p v) \<Longrightarrow>
     execute invoke (mk_instr OP_MOV x p v) addr vm =
       (Inr (), set_register (registerIndex x) (registers (cpu vm) ! registerIndex p) vm)"
  by (subst execute_simps(4)) (simp_all add: mk_instr_def)

lemmas execute_stack = execute_push execute_pop execute_mov

lemma push_then_pop:
  assumes "vm_ok vm" and "execute invoke (mk_instr OP_PUSH x p v) addr vm = (Inr u, vm1)"
    and "execute invoke (mk_instr OP_POP y q w) addr vm1 = (Inr u', vm2)"
  shows "\<exists>m. writeU64 (memory vm) (sp (cpu vm) - 8) (registers (cpu vm) ! registerIndex x) = Inr m \<and>
    vm2 = (set_register (registerIndex y) (registers (cpu vm) ! registerIndex x) vm)\<lparr> memory := m \<rparr>"
proof -
  let ?v = "registers (cpu vm) ! registerIndex x" and ?a = "sp (cpu vm) - 8"
  note p = assms(2) [unfolded execute_stack(1) [OF execute_regs_valid [OF assms(2)]]]
  note q = assms(3) [unfolded execute_stack(2) [OF execute_regs_valid [OF assms(3)]]]
  from p obtain m where m: "writeU64 (memory vm) ?a ?v = Inr m"
    and vm1: "vm1 = vm\<lparr> memory := m, cpu := (cpu vm)\<lparr> sp := ?a \<rparr> \<rparr>"
    by (auto simp: push_def Let_def split: if_splits sum.splits)
  have room: "unat (stack_limit vm) + 8 \<le> unat (sp (cpu vm))"
  proof -
    have "\<not> sp (cpu vm) < stack_limit vm + 8" using p by (auto simp: push_def split: if_splits)
    moreover have "unat (stack_limit vm + 8) = unat (stack_limit vm) + 8"
      using assms(1) by (simp add: vm_ok_def stack_bounds_def unat_add_no_wrap)
    ultimately show ?thesis by (simp add: word_less_nat_alt)
  qed
  then have "unat ?a = unat (sp (cpu vm)) - 8" by (simp add: unat_sub_le word_le_nat_alt)
  moreover have "unat (sp (cpu vm)) \<le> unat (stack_top vm)" using assms(1) by (simp add: vm_ok_def sp_ok_def)
  ultimately have "\<exists>i. checkAccess (memory vm) ?a 8 Perm_Read = Inr i"
    using room by (intro stack_access assms(1)) simp_all
  then obtain old where "readU64 (memory vm) ?a = Inr old" by (auto simp: readU64_def Let_def)
  with readU64_writeU64 [OF _ m] assms(1) have "readU64 m ?a = Inr ?v" by (simp add: vm_ok_def)
  then show ?thesis
    using q m by (auto simp: pop_def vm1 set_register_def split: if_splits prod.splits sum.splits)
qed

text \<open>
  What the peephole pass puts for PUSH rX / POP rY agrees with the pair: wherever the two
  instructions run without a fault, the machine ends as after MOV rY, rX, except for the eight
  bytes below the stack pointer, which the pair overwrites with the register.
\<close>

theorem push_pop_is_move:
  assumes "vm_ok vm" and "execute invoke (mk_instr OP_PUSH x p v) addr vm = (Inr u, vm1)"
    and "execute invoke (mk_instr OP_POP y q w) addr vm1 = (Inr u', vm2)"
    and "execute invoke (mk_instr OP_MOV y x k) addr vm = (Inr u'', vm3)"
  shows "\<exists>m. writeU64 (memory vm) (sp (cpu vm) - 8) (registers (cpu vm) ! registerIndex x) = Inr m \<and>
    vm2 = vm3\<lparr> memory := m \<rparr>"
proof -
  have "vm3 = set_register (registerIndex y) (registers (cpu vm) ! registerIndex x) vm"
    using assms(4) [unfolded execute_stack(3) [OF execute_regs_valid [OF assms(4)]]] by simp
  with push_then_pop [OF assms(1-3)] show ?thesis by simp
qed

lemma push_pop_is_move_witness:
  "\<exists>vm1 vm2 vm3 m. execute default_invoke (mk_instr OP_PUSH 1 0 0) 0 demo_machine = (Inr (), vm1) \<and>
     execute default_invoke (mk_instr OP_POP 2 0 0) 0 vm1 = (Inr (), vm2) \<and>
     execute default_invoke (mk_instr OP_MOV 2 1 0) 0 demo_machine = (Inr (), vm3) \<and> vm2 = vm3\<lparr> memory := m \<rparr>"
proof -
  note ok = load_establishes [OF demo_load] and r = load_result [OF demo_load]
  have v: "regs_valid (mk_instr opcode 1 0 0)" "regs_valid (mk_instr opcode 2 0 0)" "regs_valid (mk_instr opcode 2 1 0)" for opcode
    by (simp_all add: regs_valid_def mk_instr_def registerIndex_def kRegisterCount_def)
  let ?v = "registers (cpu demo_machine) ! 1"
  have "\<not> unat (sp (cpu demo_machine)) < unat (stack_limit demo_machine) + 8"
    by (simp add: r layout_numbers)
  then obtain vm1 vm where p: "push ?v 0 demo_machine = (Inr () :: (SyscallMessage VMFault, unit) expected, vm1)"
    and q: "(pop 0 vm1 :: (SyscallMessage VMFault, u64) expected \<times> _) = (Inr ?v, vm)"
    using push_pop [OF ok, where v = ?v and a = 0 and b = 0] by (auto split: prod.splits sum.splits)
  have e1: "execute default_invoke (mk_instr OP_PUSH 1 0 0) 0 demo_machine = (Inr (), vm1)"
    unfolding execute_stack(1) [OF v(1)] using p by (simp add: registerIndex_def)
  have e2: "execute default_invoke (mk_instr OP_POP 2 0 0) 0 vm1 = (Inr (), set_register 2 ?v vm)"
    unfolding execute_stack(2) [OF v(2)] using q by (simp add: registerIndex_def)
  have e3: "execute default_invoke (mk_instr OP_MOV 2 1 0) 0 demo_machine = (Inr (), set_register 2 ?v demo_machine)"
    unfolding execute_stack(3) [OF v(3)] by (simp add: registerIndex_def)
  from push_pop_is_move [OF ok e1 e2 e3] e1 e2 e3 show ?thesis by blast
qed

end
