(* ===== verification/Lexer.thy ===== *)
theory Lexer
  imports Diagnostics
begin

text \<open>
  src/lexer/lexer.cpp and include/minitool/lexer: the scanner over one source file.  A pointer into
  the source is its offset; \<open>end_\<close> is the length of the source.  A character is a byte.
\<close>

subsection \<open>Tokens\<close>

datatype TokenType = TT_Identifier | TT_Register | TT_Integer | TT_String | TT_Character | TT_Colon | TT_Comma
  | TT_Plus | TT_Minus | TT_Dot | TT_Hash | TT_LBracket | TT_RBracket | TT_Newline | TT_Eof | TT_Error

fun tokenTypeName :: "TokenType \<Rightarrow> string" where
  "tokenTypeName TT_Identifier = ''identifier''"
| "tokenTypeName TT_Register = ''register''"
| "tokenTypeName TT_Integer = ''integer''"
| "tokenTypeName TT_String = ''string''"
| "tokenTypeName TT_Character = ''character''"
| "tokenTypeName TT_Colon = quoted '':''"
| "tokenTypeName TT_Comma = quoted '',''"
| "tokenTypeName TT_Plus = quoted ''+''"
| "tokenTypeName TT_Minus = quoted ''-''"
| "tokenTypeName TT_Dot = quoted ''.''"
| "tokenTypeName TT_Hash = quoted ''#''"
| "tokenTypeName TT_LBracket = quoted ''[''"
| "tokenTypeName TT_RBracket = quoted '']''"
| "tokenTypeName TT_Newline = ''end of line''"
| "tokenTypeName TT_Eof = ''end of file''"
| "tokenTypeName TT_Error = ''invalid token''"

record Token =
  tk_type :: TokenType
  tk_text :: string
  tk_location :: SourceLocation
  tk_int :: i64
  tk_str :: string

definition blank_token :: Token where
  "blank_token = \<lparr> tk_type = TT_Eof, tk_text = [], tk_location = no_location, tk_int = 0, tk_str = [] \<rparr>"

subsection \<open>Characters\<close>

definition char_code :: "char \<Rightarrow> nat" where
  "char_code c = of_char c"

definition isDigit :: "char \<Rightarrow> bool" where
  "isDigit c \<longleftrightarrow> 48 \<le> char_code c \<and> char_code c \<le> 57"

definition isIdentifierStart :: "char \<Rightarrow> bool" where
  "isIdentifierStart c \<longleftrightarrow> (97 \<le> char_code c \<and> char_code c \<le> 122) \<or> (65 \<le> char_code c \<and> char_code c \<le> 90) \<or> c = CHR ''_''"

definition isIdentifierContinue :: "char \<Rightarrow> bool" where
  "isIdentifierContinue c \<longleftrightarrow> isIdentifierStart c \<or> isDigit c"

definition lowercase :: "char \<Rightarrow> char" where
  "lowercase c = (if 65 \<le> char_code c \<and> char_code c \<le> 90 then char_of (char_code c - 65 + 97) else c)"

definition isDigitOfBase :: "nat \<Rightarrow> char \<Rightarrow> bool" where
  "isDigitOfBase base c =
     (let c = lowercase c in
      if base = 2 then c = CHR ''0'' \<or> c = CHR ''1''
      else if base = 8 then 48 \<le> char_code c \<and> char_code c \<le> 55
      else if base = 16 then isDigit c \<or> (97 \<le> char_code c \<and> char_code c \<le> 102)
      else isDigit c)"

subsection \<open>The scanner\<close>

record Lexer =
  lx_source :: string
  lx_file :: u32
  lx_ptr :: nat
  lx_line :: u32
  lx_line_start :: nat
  lx_peeked :: bool
  lx_peeked_token :: Token

definition start_lexer :: "string \<Rightarrow> u32 \<Rightarrow> Lexer" where
  "start_lexer source file = \<lparr> lx_source = source, lx_file = file, lx_ptr = 0, lx_line = 1, lx_line_start = 0,
     lx_peeked = False, lx_peeked_token = blank_token \<rparr>"

definition atEnd :: "Lexer \<Rightarrow> bool" where
  "atEnd l \<longleftrightarrow> length (lx_source l) \<le> lx_ptr l"

definition peekCharAt :: "nat \<Rightarrow> Lexer \<Rightarrow> char" where
  "peekCharAt ahead l = (if lx_ptr l + ahead < length (lx_source l) then lx_source l ! (lx_ptr l + ahead) else CHR 0x00)"

definition peekChar :: "Lexer \<Rightarrow> char" where
  "peekChar l = (if atEnd l then CHR 0x00 else lx_source l ! lx_ptr l)"

definition forward :: "nat \<Rightarrow> Lexer \<Rightarrow> Lexer" where
  "forward n l = l\<lparr> lx_ptr := lx_ptr l + n \<rparr>"

definition lx_advance :: "Lexer \<Rightarrow> char \<times> Lexer" where
  "lx_advance l = (if atEnd l then (CHR 0x00, l) else (lx_source l ! lx_ptr l, forward 1 l))"

text \<open>\<open>while (!atEnd() && P(*ptr_)) ++ptr_;\<close>\<close>

definition skip_while :: "(char \<Rightarrow> bool) \<Rightarrow> Lexer \<Rightarrow> Lexer" where
  "skip_while P l = forward (length (takeWhile P (drop (lx_ptr l) (lx_source l)))) l"

text \<open>The characters from \<open>start\<close> to the cursor.\<close>

definition spelling :: "nat \<Rightarrow> Lexer \<Rightarrow> string" where
  "spelling start l = take (lx_ptr l - start) (drop start (lx_source l))"

definition makeToken :: "TokenType \<Rightarrow> nat \<Rightarrow> Lexer \<Rightarrow> Token" where
  "makeToken type start l =
     blank_token\<lparr> tk_type := type, tk_text := spelling start l,
       tk_location := \<lparr> loc_file = lx_file l, loc_line = lx_line l,
         loc_column = of_nat (start - lx_line_start l) + 1, loc_length = of_nat (lx_ptr l - start) \<rparr> \<rparr>"

definition makeError :: "nat \<Rightarrow> string \<Rightarrow> Lexer \<Rightarrow> Token" where
  "makeError start message l = (makeToken TT_Error start l)\<lparr> tk_str := message \<rparr>"

definition is_blank :: "char \<Rightarrow> bool" where
  "is_blank c \<longleftrightarrow> c \<in> {CHR '' '', CHR 0x09, CHR 0x0D, CHR 0x0C, CHR 0x0B}"

function skipHorizontalWhitespaceAndComments :: "Lexer \<Rightarrow> Lexer" where
  "skipHorizontalWhitespaceAndComments l =
     (if atEnd l then l
      else if is_blank (peekChar l) then skipHorizontalWhitespaceAndComments (forward 1 l)
      else if peekChar l = CHR '';'' then skipHorizontalWhitespaceAndComments (skip_while (\<lambda>c. c \<noteq> newline) l)
      else l)"
  by auto

lemma takeWhile_progress: "n < length xs \<Longrightarrow> P (xs ! n) \<Longrightarrow> 0 < length (takeWhile P (drop n xs))"
  by (simp flip: Cons_nth_drop_Suc)

termination skipHorizontalWhitespaceAndComments
proof (relation "measure (\<lambda>l. length (lx_source l) - lx_ptr l)")
  fix l
  assume "\<not> atEnd l" "\<not> is_blank (peekChar l)" "peekChar l = CHR '';''"
  then show "(skip_while (\<lambda>c. c \<noteq> newline) l, l) \<in> measure (\<lambda>l. length (lx_source l) - lx_ptr l)"
    using takeWhile_progress [of "lx_ptr l" "lx_source l" "\<lambda>c. c \<noteq> newline"]
    by (simp add: atEnd_def peekChar_def skip_while_def forward_def del: length_greater_0_conv)
qed (auto simp: atEnd_def forward_def)

declare skipHorizontalWhitespaceAndComments.simps [simp del]

definition lexIdentifierOrRegister :: "nat \<Rightarrow> Lexer \<Rightarrow> Token \<times> Lexer" where
  "lexIdentifierOrRegister start l =
     (let l = skip_while isIdentifierContinue l; token = makeToken TT_Identifier start l
      in (case parseRegister (tk_text token) of None \<Rightarrow> token | Some _ \<Rightarrow> token\<lparr> tk_type := TT_Register \<rparr>, l))"

text \<open>\<open>std::from_chars\<close> on digits of the base: the value, which may exceed 64 bits.\<close>

definition digit_value :: "char \<Rightarrow> nat" where
  "digit_value c = (let c = lowercase c in if isDigit c then char_code c - 48 else char_code c - 97 + 10)"

definition digits_value :: "nat \<Rightarrow> string \<Rightarrow> int" where
  "digits_value base digits = foldl (\<lambda>value c. value * int base + int (digit_value c)) 0 digits"

definition integer_base :: "char \<Rightarrow> nat" where
  "integer_base prefix =
     (let c = lowercase prefix in
      if c = CHR ''x'' then 16 else if c = CHR ''b'' then 2 else if c = CHR ''o'' then 8 else 10)"

definition lexInteger :: "nat \<Rightarrow> bool \<Rightarrow> Lexer \<Rightarrow> Token \<times> Lexer" where
  "lexInteger start negative l =
     (let begin = (if negative then start + 1 else start);
          base = (if lx_source l ! begin = CHR ''0''
            then integer_base (if negative then peekCharAt 1 l else peekChar l) else 10);
          l = (if base \<noteq> 10 then forward (if negative then 2 else 1) l else l);
          begin = (if base \<noteq> 10 then lx_ptr l else begin);
          l = skip_while (isDigitOfBase base) l
      in if begin = lx_ptr l
         then let l = skip_while isIdentifierContinue l in (makeError start ''malformed integer literal'' l, l)
         else if \<not> atEnd l \<and> isIdentifierContinue (peekChar l)
         then let l = skip_while isIdentifierContinue l
              in (makeError start (''invalid digit in base-'' @ nat_str base @ '' integer literal'') l, l)
         else
           let magnitude = digits_value base (spelling begin l) in
           if 2 ^ 64 \<le> magnitude \<or> (if negative then 2 ^ 63 < magnitude else 2 ^ 63 - 1 < magnitude)
           then (makeError start ''integer literal does not fit in 64 bits'' l, l)
           else ((makeToken TT_Integer start l)\<lparr> tk_int :=
                   (if negative then NOT (of_int magnitude) + 1 else of_int magnitude) \<rparr>, l))"

text \<open>One escape sequence after the backslash: its value, or the message.\<close>

definition decode_hex :: "Lexer \<Rightarrow> (string + i64) \<times> Lexer" where
  "decode_hex l =
     (let digits = takeWhile (isDigitOfBase 16) (take 2 (drop (lx_ptr l) (lx_source l)))
      in (if digits = [] then Inl ([CHR 0x5C] @ ''x needs at least one hexadecimal digit'')
          else Inr (of_int (digits_value 16 digits)), forward (length digits) l))"

definition decodeEscape :: "Lexer \<Rightarrow> (string + i64) \<times> Lexer" where
  "decodeEscape l =
     (if atEnd l then (Inl ''unterminated escape sequence'', l)
      else let (c, l) = lx_advance l in
        if c = CHR ''n'' then (Inr 10, l)
        else if c = CHR ''t'' then (Inr 9, l)
        else if c = CHR ''r'' then (Inr 13, l)
        else if c = CHR ''0'' then (Inr 0, l)
        else if c = CHR 0x5C then (Inr 0x5C, l)
        else if c = CHR 0x27 then (Inr 0x27, l)
        else if c = CHR 0x22 then (Inr 0x22, l)
        else if c = CHR ''x'' then decode_hex l
        else (Inl (''unknown escape sequence '' @ quoted [CHR 0x5C, c]), l))"

text \<open>The body of a string literal: its bytes, or the message.\<close>

lemma decodeEscape_source [simp]: "lx_source (snd (decodeEscape l)) = lx_source l"
  by (simp add: decodeEscape_def decode_hex_def lx_advance_def forward_def Let_def split: prod.split)

lemma decodeEscape_ptr: "lx_ptr l \<le> lx_ptr (snd (decodeEscape l))"
  by (simp add: decodeEscape_def decode_hex_def lx_advance_def forward_def Let_def split: prod.split)

function string_body :: "string \<Rightarrow> Lexer \<Rightarrow> (string + string) \<times> Lexer" where
  "string_body decoded l =
     (if atEnd l \<or> peekChar l = newline then (Inl ''unterminated string literal'', l)
      else let (c, l1) = lx_advance l in
        if c = CHR 0x22 then (Inr decoded, l1)
        else if c = CHR 0x5C
        then case decodeEscape l1 of
               (Inl message, l2) \<Rightarrow> (Inl message, l2)
             | (Inr value, l2) \<Rightarrow> string_body (decoded @ [char_of (unat (ucast value :: u8))]) l2
        else string_body (decoded @ [c]) l1)"
  by auto

termination string_body
proof (relation "measure (\<lambda>(_, l). length (lx_source l) - lx_ptr l)")
  fix decoded l p c l1 r l2 and val :: i64
  assume l: "\<not> (atEnd l \<or> peekChar l = newline)" "p = lx_advance l" "(c, l1) = p" and e: "(r, l2) = decodeEscape l1"
  have "lx_source l1 = lx_source l" "lx_ptr l1 = lx_ptr l + 1"
    using l by (simp_all add: lx_advance_def forward_def split: if_splits)
  moreover have "lx_source l2 = lx_source l1" "lx_ptr l1 \<le> lx_ptr l2"
    using decodeEscape_source [of l1] decodeEscape_ptr [of l1] by (simp_all flip: e)
  ultimately show "((decoded @ [char_of (unat (ucast val :: u8))], l2), decoded, l)
      \<in> measure (\<lambda>(_, l). length (lx_source l) - lx_ptr l)" using l(1) by (simp add: atEnd_def) linarith
qed (auto simp: lx_advance_def atEnd_def forward_def)

declare string_body.simps [simp del]

definition lexString :: "nat \<Rightarrow> Lexer \<Rightarrow> Token \<times> Lexer" where
  "lexString start l =
     (case string_body [] l of
        (Inl message, l) \<Rightarrow> (makeError start message l, l)
      | (Inr decoded, l) \<Rightarrow> ((makeToken TT_String start l)\<lparr> tk_str := decoded \<rparr>, l))"

definition lexCharacter :: "nat \<Rightarrow> Lexer \<Rightarrow> Token \<times> Lexer" where
  "lexCharacter start l =
     (if atEnd l \<or> peekChar l = newline then (makeError start ''unterminated character literal'' l, l)
      else let (c, l) = lx_advance l;
               (r, l) = (if c = CHR 0x5C then decodeEscape l
                 else if c = CHR 0x27 then (Inl ''empty character literal'', l)
                 else (Inr (of_nat (char_code c)), l))
        in case r of
             Inl message \<Rightarrow> (makeError start message l, l)
           | Inr value \<Rightarrow>
               if atEnd l \<or> peekChar l \<noteq> CHR 0x27 then (makeError start ''unterminated character literal'' l, l)
               else let l = forward 1 l in ((makeToken TT_Character start l)\<lparr> tk_int := value \<rparr>, l))"

definition lexNext :: "Lexer \<Rightarrow> Token \<times> Lexer" where
  "lexNext l =
     (let l = skipHorizontalWhitespaceAndComments l in
      if atEnd l then (makeToken TT_Eof (lx_ptr l) l, l)
      else let start = lx_ptr l; (c, l) = lx_advance l in
        if c = CHR '':'' then (makeToken TT_Colon start l, l)
        else if c = CHR '','' then (makeToken TT_Comma start l, l)
        else if c = CHR ''+'' then (makeToken TT_Plus start l, l)
        else if c = CHR ''.'' then (makeToken TT_Dot start l, l)
        else if c = CHR ''#'' then (makeToken TT_Hash start l, l)
        else if c = CHR ''['' then (makeToken TT_LBracket start l, l)
        else if c = CHR '']'' then (makeToken TT_RBracket start l, l)
        else if c = newline then (makeToken TT_Newline start l, l\<lparr> lx_line := lx_line l + 1, lx_line_start := lx_ptr l \<rparr>)
        else if c = CHR ''-'' then
          (if isDigit (peekChar l) then lexInteger start True l else (makeToken TT_Minus start l, l))
        else if c = CHR 0x22 then lexString start l
        else if c = CHR 0x27 then lexCharacter start l
        else if isIdentifierStart c then lexIdentifierOrRegister start l
        else if isDigit c then lexInteger start False l
        else (makeError start (''unexpected character '' @ quoted [c]) l, l))"

definition lx_next :: "Lexer \<Rightarrow> Token \<times> Lexer" where
  "lx_next l = (if lx_peeked l then (lx_peeked_token l, l\<lparr> lx_peeked := False \<rparr>) else lexNext l)"

definition lx_peek :: "Lexer \<Rightarrow> Token \<times> Lexer" where
  "lx_peek l =
     (let l = (if lx_peeked l then l
        else let (token, l) = lexNext l in l\<lparr> lx_peeked_token := token, lx_peeked := True \<rparr>)
      in (lx_peeked_token l, l))"

end
