(* ===== verification/Lexer_Safety.thy ===== *)
theory Lexer_Safety
  imports Lexer
begin

text \<open>
  What the scanner guarantees: every call moves on or reports the end, the tokens and the blanks
  between them are the source, locations point at the text of their token, and literals are read
  back as what they were written from.
\<close>

subsection \<open>Moving the cursor\<close>

text \<open>
  The cursor moved over characters that satisfy \<open>P\<close>.  \<open>P\<close> admits everything but, perhaps, newlines;
  a newline behind a backslash is the one place where the code consumes a newline inside a token.
\<close>

definition no_escaped_newline :: "string \<Rightarrow> bool" where
  "no_escaped_newline s \<longleftrightarrow> list_all (\<lambda>(c, d). \<not> (c = CHR 0x5C \<and> d = newline)) (zip s (tl s))"

definition inside_line :: "(char \<Rightarrow> bool) \<Rightarrow> string \<Rightarrow> bool" where
  "inside_line P s \<longleftrightarrow> (\<forall>c. c \<noteq> newline \<longrightarrow> P c) \<and> (P newline \<or> no_escaped_newline s)"

definition scanned :: "(char \<Rightarrow> bool) \<Rightarrow> Lexer \<Rightarrow> Lexer \<Rightarrow> bool" where
  "scanned P l l' \<longleftrightarrow> (\<exists>n. l' = forward n l \<and> lx_ptr l + n \<le> length (lx_source l) \<and>
     list_all P (take n (drop (lx_ptr l) (lx_source l))))"

lemma no_escaped_newline_nth:
  "no_escaped_newline s \<Longrightarrow> Suc i < length s \<Longrightarrow> s ! i = CHR 0x5C \<Longrightarrow> s ! Suc i \<noteq> newline"
  by (auto simp: no_escaped_newline_def list_all_length nth_tl)

lemma inside_line_all [simp]: "inside_line (\<lambda>_. True) s" "no_escaped_newline s \<Longrightarrow> inside_line (\<lambda>c. c \<noteq> newline) s"
  by (simp_all add: inside_line_def)

lemma inside_lineD: "inside_line P s \<Longrightarrow> c \<noteq> newline \<Longrightarrow> P c"
  unfolding inside_line_def by blast

lemma inside_line_escaped:
  "inside_line P s \<Longrightarrow> Suc i < length s \<Longrightarrow> s ! i = CHR 0x5C \<Longrightarrow> P (s ! Suc i)"
  unfolding inside_line_def using no_escaped_newline_nth by metis

lemma scanned_here [simp]: "lx_ptr l \<le> length (lx_source l) \<Longrightarrow> scanned P l l"
  by (auto simp: scanned_def forward_def intro!: exI [of _ 0])

lemma scanned_frame:
  assumes "scanned P l l'"
  shows "lx_source l' = lx_source l" "lx_file l' = lx_file l" "lx_line l' = lx_line l" "lx_line_start l' = lx_line_start l"
    "lx_ptr l \<le> lx_ptr l'" "lx_ptr l' \<le> length (lx_source l)" "lx_peeked l' = lx_peeked l"
  using assms by (auto simp: scanned_def forward_def)

lemma scanned_trans [trans]:
  assumes "scanned P a b" and "scanned P b c"
  shows "scanned P a c"
proof -
  obtain m n where b: "b = forward m a" "list_all P (take m (drop (lx_ptr a) (lx_source a)))"
    and c: "c = forward n b" "lx_ptr b + n \<le> length (lx_source b)" "list_all P (take n (drop (lx_ptr b) (lx_source b)))"
    using assms by (auto simp: scanned_def)
  then have "c = forward (m + n) a" "lx_ptr a + (m + n) \<le> length (lx_source a)"
      "list_all P (take (m + n) (drop (lx_ptr a) (lx_source a)))"
    by (simp_all add: forward_def take_add add.assoc add.commute)
  then show ?thesis unfolding scanned_def by blast
qed

lemma skip_while_scanned:
  assumes "lx_ptr l \<le> length (lx_source l)" and "\<And>c. Q c \<Longrightarrow> P c"
  shows "scanned P l (skip_while Q l)"
proof -
  let ?xs = "drop (lx_ptr l) (lx_source l)"
  have "length (takeWhile Q ?xs) \<le> length ?xs" by (rule length_takeWhile_le)
  moreover have "list_all P (take (length (takeWhile Q ?xs)) ?xs)"
    using assms(2) by (simp flip: takeWhile_eq_take) (auto simp: list_all_iff dest: set_takeWhileD)
  ultimately show ?thesis unfolding scanned_def skip_while_def using assms(1) by auto
qed

lemma take_one_drop: "n < length xs \<Longrightarrow> take (Suc 0) (drop n xs) = [xs ! n]"
  by (simp flip: Cons_nth_drop_Suc)

lemma forward_scanned:
  assumes "lx_ptr l < length (lx_source l)" and "P (lx_source l ! lx_ptr l)"
  shows "scanned P l (forward (Suc 0) l)"
  using assms by (auto simp: scanned_def take_one_drop intro!: exI [of _ 1])

lemma advance_eq: "\<not> atEnd l \<Longrightarrow> lx_advance l = (lx_source l ! lx_ptr l, forward 1 l)"
  by (simp add: lx_advance_def)

lemma skip_while_stops:
  "atEnd (skip_while Q l) \<or> \<not> Q (peekChar (skip_while Q l))"
  using nth_length_takeWhile [of Q "drop (lx_ptr l) (lx_source l)"]
  by (auto simp: skip_while_def atEnd_def peekChar_def forward_def not_le add.commute less_diff_conv)

subsection \<open>The literals\<close>

lemma hex_not_newline: "isDigitOfBase base c \<Longrightarrow> c \<noteq> newline"
  by (auto simp: isDigitOfBase_def lowercase_def char_code_def isDigit_def Let_def split: if_splits)

lemma identifier_not_newline: "isIdentifierContinue c \<Longrightarrow> c \<noteq> newline"
  by (auto simp: isIdentifierContinue_def isIdentifierStart_def char_code_def isDigit_def)

lemma takeWhile_take_prefix: "takeWhile Q (take n xs) = take (length (takeWhile Q (take n xs))) xs"
proof (induction xs arbitrary: n)
  case (Cons x xs)
  then show ?case by (cases n) simp_all
qed simp

lemma decodeEscape_scanned:
  assumes "inside_line P (lx_source l)" and "lx_ptr l \<le> length (lx_source l)" and "0 < lx_ptr l"
    and "lx_source l ! (lx_ptr l - 1) = CHR 0x5C"
  shows "scanned P l (snd (decodeEscape l))"
proof (cases "atEnd l")
  case True
  then show ?thesis using assms(2) by (simp add: decodeEscape_def)
next
  case False
  have P: "P (lx_source l ! lx_ptr l)"
    using inside_line_escaped [OF assms(1), of "lx_ptr l - 1"] assms(3,4) False by (simp add: atEnd_def)
  with False have one: "scanned P l (forward 1 l)" by (simp add: forward_scanned atEnd_def)
  let ?l = "forward 1 l"
  let ?digits = "takeWhile (isDigitOfBase 16) (take 2 (drop (lx_ptr ?l) (lx_source ?l)))"
  have pre: "?digits = take (length ?digits) (drop (lx_ptr ?l) (lx_source ?l))"
    by (rule takeWhile_take_prefix)
  have "list_all P ?digits"
    using assms(1) hex_not_newline by (auto simp: list_all_iff inside_line_def dest!: set_takeWhileD)
  moreover have "length ?digits \<le> length (lx_source ?l) - lx_ptr ?l"
    using length_takeWhile_le [of "isDigitOfBase 16" "take 2 (drop (lx_ptr ?l) (lx_source ?l))"] by simp
  ultimately have "scanned P ?l (snd (decode_hex ?l))"
    using pre False unfolding scanned_def decode_hex_def Let_def
    by (intro exI [of _ "length ?digits"]) (auto simp: forward_def atEnd_def)
  with one have "scanned P l (snd (decode_hex ?l))" by (rule scanned_trans)
  with one False show ?thesis by (simp add: decodeEscape_def advance_eq)
qed

lemma string_body_scanned:
  assumes "inside_line P (lx_source l)" and "lx_ptr l \<le> length (lx_source l)"
  shows "scanned P l (snd (string_body decoded l))"
  using assms
proof (induction decoded l rule: string_body.induct)
  case (1 decoded l)
  show ?case
  proof (cases "atEnd l \<or> peekChar l = newline")
    case True
    then show ?thesis using "1.prems" by (simp add: string_body.simps [of decoded l])
  next
    case False
    let ?c = "lx_source l ! lx_ptr l" and ?l = "forward 1 l"
    have a: "lx_advance l = (?c, ?l)" using False by (simp add: advance_eq)
    have "P ?c" using False inside_lineD [OF "1.prems"(1), of ?c] by (auto simp: peekChar_def)
    with False have one: "scanned P l ?l" by (simp add: forward_scanned atEnd_def)
    have l1: "lx_source ?l = lx_source l" "lx_ptr ?l = Suc (lx_ptr l)" by (simp_all add: forward_def)
    have le: "lx_ptr ?l \<le> length (lx_source ?l)" using False l1 by (simp add: atEnd_def)
    consider "?c = CHR 0x22" | "?c = CHR 0x5C" | "?c \<noteq> CHR 0x22" "?c \<noteq> CHR 0x5C" by blast
    then show ?thesis
    proof cases
      case 1
      then show ?thesis using False a one by (simp add: string_body.simps [of decoded l])
    next
      case 2
      obtain r l2 where e: "decodeEscape ?l = (r, l2)" by fastforce
      have "scanned P ?l (snd (decodeEscape ?l))"
        using decodeEscape_scanned [of P ?l] "1.prems" le l1 2 by simp
      then have two: "scanned P ?l l2" unfolding e by simp
      show ?thesis
      proof (cases r)
        case (Inl m)
        have "string_body decoded l = (Inl m, l2)" using False a 2 e Inl by (simp add: string_body.simps [of decoded l])
        with scanned_trans [OF one two] show ?thesis by simp
      next
        case (Inr v)
        have "scanned P l2 (snd (string_body (decoded @ [char_of (unat (ucast v :: u8))]) l2))"
          using "1.IH"(1) [OF False a [symmetric] refl _ 2 e [symmetric] Inr] "1.prems" l1 scanned_frame(1,6) [OF two] 2
          by simp
        moreover have "string_body decoded l = string_body (decoded @ [char_of (unat (ucast v :: u8))]) l2"
          using False a 2 e Inr by (simp add: string_body.simps [of decoded l])
        ultimately show ?thesis using scanned_trans [OF scanned_trans [OF one two]] by simp
      qed
    next
      case 3
      have "scanned P ?l (snd (string_body (decoded @ [?c]) ?l))"
        using "1.IH"(2) [OF False a [symmetric] refl _ 3(2)] 3 "1.prems" le l1 by simp
      moreover have "string_body decoded l = string_body (decoded @ [?c]) ?l"
        using False a 3 by (simp add: string_body.simps [of decoded l])
      ultimately show ?thesis using scanned_trans [OF one] by simp
    qed
  qed
qed

subsection \<open>One token\<close>

definition token_at :: "nat \<Rightarrow> Lexer \<Rightarrow> Token \<Rightarrow> bool" where
  "token_at start l t \<longleftrightarrow> tk_text t = spelling start l \<and>
     tk_location t = \<lparr> loc_file = lx_file l, loc_line = lx_line l, loc_column = of_nat (start - lx_line_start l) + 1,
       loc_length = of_nat (lx_ptr l - start) \<rparr>"

lemma token_at_makeToken [simp]: "token_at start l (makeToken type start l)" "token_at start l (makeError start message l)"
  by (simp_all add: token_at_def makeToken_def makeError_def)

lemma token_at_update [simp]:
  "token_at start l (t\<lparr> tk_int := v \<rparr>) = token_at start l t" "token_at start l (t\<lparr> tk_str := x \<rparr>) = token_at start l t"
  "token_at start l (t\<lparr> tk_type := type \<rparr>) = token_at start l t"
  by (simp_all add: token_at_def)

lemma makeToken_simps [simp]:
  "tk_type (makeToken type start l) = type" "tk_type (makeError start message l) = TT_Error"
  "tk_text (makeToken type start l) = spelling start l" "tk_str (makeToken type start l) = []"
  "tk_int (makeToken type start l) = 0"
  by (simp_all add: makeToken_def makeError_def blank_token_def)

text \<open>A token that began at \<open>start\<close>, scanned on from \<open>l\<close>.\<close>

definition yields :: "(char \<Rightarrow> bool) \<Rightarrow> nat \<Rightarrow> TokenType set \<Rightarrow> Lexer \<Rightarrow> Token \<times> Lexer \<Rightarrow> bool" where
  "yields P start types l r \<longleftrightarrow> scanned P l (snd r) \<and> token_at start (snd r) (fst r) \<and> tk_type (fst r) \<in> types"

lemma yields_then: "scanned P l l1 \<Longrightarrow> yields P start types l1 r \<Longrightarrow> yields P start types l r"
  unfolding yields_def using scanned_trans by blast

lemma identifier_yields:
  assumes "inside_line P (lx_source l)" and "lx_ptr l \<le> length (lx_source l)"
  shows "yields P start {TT_Identifier, TT_Register} l (lexIdentifierOrRegister start l)"
  using skip_while_scanned [OF assms(2), of isIdentifierContinue P] identifier_not_newline inside_lineD [OF assms(1)]
  by (auto simp: yields_def lexIdentifierOrRegister_def Let_def split: option.split)

lemma integer_base_ten: "integer_base c = 10 \<or> c \<noteq> newline \<and> c \<noteq> CHR 0x00"
  by (auto simp: integer_base_def lowercase_def char_code_def)

lemma prefix_scanned:
  assumes "inside_line P (lx_source l)" and "lx_ptr l + k < length (lx_source l)"
    and "k = 0 \<or> k = 1 \<and> peekChar l \<noteq> newline" and "peekCharAt k l \<noteq> newline"
  shows "scanned P l (forward (Suc k) l)"
proof -
  have "take (Suc k) (drop (lx_ptr l) (lx_source l)) =
      (if k = 0 then [peekCharAt k l] else [peekChar l, peekCharAt k l])"
    using assms(2,3) by (auto simp: peekChar_def atEnd_def peekCharAt_def take_one_drop numeral_2_eq_2 simp flip: Cons_nth_drop_Suc)
  with assms(3,4) inside_lineD [OF assms(1)]
  have "list_all P (take (Suc k) (drop (lx_ptr l) (lx_source l)))" by auto
  then show ?thesis using assms(2) unfolding scanned_def by (intro exI [of _ "Suc k"]) simp
qed

lemma lexInteger_yields:
  assumes "inside_line P (lx_source l)" and "lx_ptr l \<le> length (lx_source l)" and "negative \<Longrightarrow> isDigit (peekChar l)"
  shows "yields P start {TT_Integer, TT_Error} l (lexInteger start negative l)"
proof -
  define first base l1 where "first = (if negative then start + 1 else start)"
    and "base = (if lx_source l ! first = CHR ''0''
            then integer_base (if negative then peekCharAt 1 l else peekChar l) else 10)"
    and "l1 = (if base \<noteq> 10 then forward (if negative then 2 else 1) l else l)"
  have one: "scanned P l l1"
  proof (cases "base = 10")
    case True
    then show ?thesis using assms(2) by (simp add: l1_def)
  next
    case False
    let ?k = "if negative then 1 else 0 :: nat"
    have "(if negative then peekCharAt 1 l else peekChar l) = peekCharAt ?k l"
      by (simp add: peekCharAt_def peekChar_def atEnd_def)
    with False have p: "peekCharAt ?k l \<noteq> newline" "peekCharAt ?k l \<noteq> CHR 0x00"
      using integer_base_ten by (auto simp: base_def split: if_splits)
    moreover have "negative \<Longrightarrow> peekChar l \<noteq> newline" using assms(3) by (auto simp: isDigit_def char_code_def)
    ultimately have "scanned P l (forward (Suc ?k) l)"
      by (intro prefix_scanned [OF assms(1)]) (auto simp: peekCharAt_def split: if_splits)
    then show ?thesis using False by (cases negative) (simp_all add: l1_def numeral_2_eq_2)
  qed
  define l2 where "l2 = skip_while (isDigitOfBase base) l1"
  note s1 = scanned_frame [OF one]
  have two: "scanned P l l2"
    unfolding l2_def
    by (rule scanned_trans [OF one skip_while_scanned]) (use s1 hex_not_newline inside_lineD [OF assms(1)] in auto)
  define l3 where "l3 = skip_while isIdentifierContinue l2"
  note s2 = scanned_frame [OF two]
  have three: "scanned P l l3"
    unfolding l3_def
    by (rule scanned_trans [OF two skip_while_scanned]) (use s2 identifier_not_newline inside_lineD [OF assms(1)] in auto)
  have "\<exists>c1 c2 c3 m1 m2 m3 v. lexInteger start negative l =
      (if c1 then (makeError start m1 l3, l3) else if c2 then (makeError start m2 l3, l3)
       else if c3 then (makeError start m3 l2, l2) else ((makeToken TT_Integer start l2)\<lparr> tk_int := v \<rparr>, l2))"
    unfolding lexInteger_def Let_def first_def [symmetric] base_def [symmetric] l1_def [symmetric] l2_def [symmetric]
      l3_def [symmetric] by (intro exI) (rule refl)
  with two three show ?thesis by (auto simp: yields_def split: if_splits)
qed

lemma lexString_yields:
  assumes "inside_line P (lx_source l)" and "lx_ptr l \<le> length (lx_source l)"
  shows "yields P start {TT_String, TT_Error} l (lexString start l)"
  using string_body_scanned [OF assms, of "[]"]
  by (auto simp: yields_def lexString_def split: prod.split sum.split)

lemma lexCharacter_yields:
  assumes "inside_line P (lx_source l)" and "lx_ptr l \<le> length (lx_source l)"
  shows "yields P start {TT_Character, TT_Error} l (lexCharacter start l)"
proof (cases "atEnd l \<or> peekChar l = newline")
  case True
  then show ?thesis using assms(2) by (simp add: yields_def lexCharacter_def)
next
  case False
  let ?c = "lx_source l ! lx_ptr l"
  define l1 where "l1 = forward 1 l"
  have "P ?c" using False inside_lineD [OF assms(1), of ?c] by (auto simp: peekChar_def)
  with False have one: "scanned P l l1" by (simp add: l1_def forward_scanned atEnd_def)
  have l1: "lx_source l1 = lx_source l" "lx_ptr l1 = Suc (lx_ptr l)" by (simp_all add: l1_def forward_def)
  define r where "r = (if ?c = CHR 0x5C then decodeEscape l1
                 else if ?c = CHR 0x27 then (Inl ''empty character literal'', l1)
                 else (Inr (of_nat (char_code ?c)), l1))"
  have "scanned P l1 (snd r)"
    using decodeEscape_scanned [of P l1] scanned_frame(6) [OF one] assms(1) l1 by (auto simp: r_def)
  with one have two: "scanned P l (snd r)" by (rule scanned_trans)
  define l3 where "l3 = forward 1 (snd r)"
  have three: "scanned P l l3" if "\<not> atEnd (snd r)" "peekChar (snd r) = CHR 0x27"
  proof -
    have "P (lx_source (snd r) ! lx_ptr (snd r))"
      using that inside_lineD [OF assms(1), of "CHR 0x27"] by (simp add: peekChar_def)
    with that(1) have "scanned P (snd r) l3" by (simp add: l3_def forward_scanned atEnd_def)
    with two show ?thesis by (rule scanned_trans)
  qed
  have "lexCharacter start l = (case fst r of
             Inl message \<Rightarrow> (makeError start message (snd r), snd r)
           | Inr value \<Rightarrow>
               if atEnd (snd r) \<or> peekChar (snd r) \<noteq> CHR 0x27 then (makeError start ''unterminated character literal'' (snd r), snd r)
               else ((makeToken TT_Character start l3)\<lparr> tk_int := value \<rparr>, l3))"
  proof -
    have a: "lx_advance l = (?c, l1)" and n: "(atEnd l \<or> peekChar l = newline) = False"
      using False by (simp_all add: advance_eq l1_def)
    show ?thesis
      by (simp only: lexCharacter_def n if_False a Let_def prod.case fst_conv snd_conv r_def [symmetric] l3_def case_prod_beta)
  qed
  with two three show ?thesis by (auto simp: yields_def split: sum.split)
qed

subsection \<open>Blanks and comments\<close>

inductive blank_text :: "string \<Rightarrow> bool" where
  nothing: "blank_text []"
| blank: "is_blank c \<Longrightarrow> blank_text s \<Longrightarrow> blank_text (c # s)"
| comment: "newline \<notin> set cs \<Longrightarrow> blank_text s \<Longrightarrow> blank_text (CHR '';'' # cs @ s)"

lemma spelling_forward: "lx_ptr (forward n l) = lx_ptr l + n" "lx_source (forward n l) = lx_source l"
  by (simp_all add: forward_def)

lemma spelling_split:
  assumes "i \<le> j" and "j \<le> lx_ptr l"
  shows "spelling i l = take (j - i) (drop i (lx_source l)) @ spelling j l"
proof -
  have "lx_ptr l - i = (j - i) + (lx_ptr l - j)" using assms by simp
  then have "spelling i l = take ((j - i) + (lx_ptr l - j)) (drop i (lx_source l))" by (simp only: spelling_def)
  also have "\<dots> = take (j - i) (drop i (lx_source l)) @ spelling j l"
    using assms(1) by (simp only: take_add drop_drop spelling_def le_add_diff_inverse2 le_add_diff_inverse add.commute [of _ i])
  finally show ?thesis .
qed

lemma skip_scanned:
  assumes "lx_ptr l \<le> length (lx_source l)"
  shows "scanned (\<lambda>c. c \<noteq> newline) l (skipHorizontalWhitespaceAndComments l) \<and>
    blank_text (spelling (lx_ptr l) (skipHorizontalWhitespaceAndComments l))"
  using assms
proof (induction l rule: skipHorizontalWhitespaceAndComments.induct)
  case (1 l)
  let ?skip = skipHorizontalWhitespaceAndComments
  let ?c = "lx_source l ! lx_ptr l"
  consider "atEnd l" | "\<not> atEnd l" "is_blank ?c" | "\<not> atEnd l" "\<not> is_blank ?c" "?c = CHR '';''"
    | "\<not> atEnd l" "\<not> is_blank ?c" "?c \<noteq> CHR '';''" by blast
  then show ?case
  proof cases
    case 2
    have eq: "?skip l = ?skip (forward 1 l)" using 2 by (simp add: skipHorizontalWhitespaceAndComments.simps [of l] peekChar_def)
    have IH: "scanned (\<lambda>c. c \<noteq> newline) (forward 1 l) (?skip (forward 1 l)) \<and>
        blank_text (spelling (lx_ptr l + 1) (?skip (forward 1 l)))"
      using "1.IH"(1) 2 by (simp add: peekChar_def atEnd_def spelling_forward)
    have "scanned (\<lambda>c. c \<noteq> newline) l (forward 1 l)"
      using 2 by (auto simp: forward_scanned atEnd_def is_blank_def)
    then have s: "scanned (\<lambda>c. c \<noteq> newline) l (?skip l)" unfolding eq using IH scanned_trans by blast
    have "spelling (lx_ptr l) (?skip l) = ?c # spelling (lx_ptr l + 1) (?skip l)"
      using spelling_split [of "lx_ptr l" "lx_ptr l + 1" "?skip l"] scanned_frame(5) [OF conjunct1 [OF IH], folded eq]
        scanned_frame(1) [OF s] 2(1) by (simp add: spelling_forward take_one_drop atEnd_def)
    with s IH [folded eq] 2 show ?thesis by (simp add: blank_text.blank)
  next
    case 3
    let ?l = "skip_while (\<lambda>c. c \<noteq> newline) l" and ?cs = "takeWhile (\<lambda>c. c \<noteq> newline) (drop (lx_ptr l) (lx_source l))"
    have eq: "?skip l = ?skip ?l" using 3 by (simp add: skipHorizontalWhitespaceAndComments.simps [of l] peekChar_def)
    have one: "scanned (\<lambda>c. c \<noteq> newline) l ?l" by (rule skip_while_scanned) (use 3 in \<open>simp_all add: atEnd_def\<close>)
    have ptr: "lx_ptr ?l = lx_ptr l + length ?cs" by (simp add: skip_while_def spelling_forward)
    have IH: "scanned (\<lambda>c. c \<noteq> newline) ?l (?skip ?l) \<and> blank_text (spelling (lx_ptr ?l) (?skip ?l))"
      using "1.IH"(2) 3 scanned_frame(1,6) [OF one] by (simp add: peekChar_def)
    then have s: "scanned (\<lambda>c. c \<noteq> newline) l (?skip l)" unfolding eq using one scanned_trans by blast
    obtain cs where cs: "?cs = CHR '';'' # cs" "newline \<notin> set cs"
    proof -
      have d: "drop (lx_ptr l) (lx_source l) = CHR '';'' # drop (Suc (lx_ptr l)) (lx_source l)"
        using 3 Cons_nth_drop_Suc [of "lx_ptr l" "lx_source l"] by (simp add: atEnd_def)
      show ?thesis by (rule that [of "takeWhile (\<lambda>c. c \<noteq> newline) (drop (Suc (lx_ptr l)) (lx_source l))"])
        (use d in \<open>auto dest: set_takeWhileD\<close>)
    qed
    have "spelling (lx_ptr l) (?skip l) = ?cs @ spelling (lx_ptr ?l) (?skip l)"
      using spelling_split [of "lx_ptr l" "lx_ptr ?l" "?skip l"] scanned_frame(5) [OF conjunct1 [OF IH], folded eq]
        scanned_frame(1) [OF s] by (simp add: ptr flip: takeWhile_eq_take)
    with s IH [folded eq] cs show ?thesis by (simp add: blank_text.comment)
  qed (use 1 in \<open>simp_all add: skipHorizontalWhitespaceAndComments.simps [of l] peekChar_def spelling_def blank_text.nothing\<close>)
qed

subsection \<open>The next token\<close>

abbreviation skipped :: "Lexer \<Rightarrow> Lexer" where
  "skipped \<equiv> skipHorizontalWhitespaceAndComments"

definition single_types :: "TokenType set" where
  "single_types = {TT_Newline, TT_Eof}"

lemma lexNext_step:
  assumes "\<not> atEnd s" and "s = skipped l" and "c = lx_source s ! lx_ptr s" and "l1 = forward 1 s"
  shows "lexNext l = (
        if c = CHR '':'' then (makeToken TT_Colon (lx_ptr s) l1, l1)
        else if c = CHR '','' then (makeToken TT_Comma (lx_ptr s) l1, l1)
        else if c = CHR ''+'' then (makeToken TT_Plus (lx_ptr s) l1, l1)
        else if c = CHR ''.'' then (makeToken TT_Dot (lx_ptr s) l1, l1)
        else if c = CHR ''#'' then (makeToken TT_Hash (lx_ptr s) l1, l1)
        else if c = CHR ''['' then (makeToken TT_LBracket (lx_ptr s) l1, l1)
        else if c = CHR '']'' then (makeToken TT_RBracket (lx_ptr s) l1, l1)
        else if c = newline then (makeToken TT_Newline (lx_ptr s) l1, l1\<lparr> lx_line := lx_line l1 + 1, lx_line_start := lx_ptr l1 \<rparr>)
        else if c = CHR ''-'' then
          (if isDigit (peekChar l1) then lexInteger (lx_ptr s) True l1 else (makeToken TT_Minus (lx_ptr s) l1, l1))
        else if c = CHR 0x22 then lexString (lx_ptr s) l1
        else if c = CHR 0x27 then lexCharacter (lx_ptr s) l1
        else if isIdentifierStart c then lexIdentifierOrRegister (lx_ptr s) l1
        else if isDigit c then lexInteger (lx_ptr s) False l1
        else (makeError (lx_ptr s) (''unexpected character '' @ quoted [c]) l1, l1))"
proof -
  have a: "lx_advance s = (c, l1)" using assms(1,3,4) by (simp add: advance_eq)
  show ?thesis unfolding lexNext_def Let_def assms(2) [symmetric] using assms(1) by (simp only: if_False a prod.case)
qed

lemma lexNext_cases:
  assumes "inside_line P (lx_source l)" and "lx_ptr l \<le> length (lx_source l)" and "lexNext l = (t, l')"
  shows "(atEnd (skipped l) \<and> l' = skipped l \<and> t = makeToken TT_Eof (lx_ptr l') l') \<or>
    (\<not> atEnd (skipped l) \<and> peekChar (skipped l) = newline \<and>
       l' = (forward 1 (skipped l))\<lparr> lx_line := lx_line l + 1, lx_line_start := lx_ptr (skipped l) + 1 \<rparr> \<and>
       t = makeToken TT_Newline (lx_ptr (skipped l)) (forward 1 (skipped l))) \<or>
    (\<not> atEnd (skipped l) \<and> peekChar (skipped l) \<noteq> newline \<and>
       yields P (lx_ptr (skipped l)) (- {TT_Newline, TT_Eof}) (forward 1 (skipped l)) (t, l'))"
proof (cases "atEnd (skipped l)")
  case True
  then show ?thesis using assms(3) by (auto simp: lexNext_def Let_def)
next
  case False
  define s where "s = skipped l"
  define c where "c = lx_source s ! lx_ptr s"
  note sk = scanned_frame [OF conjunct1 [OF skip_scanned [OF assms(2)]], folded s_def]
  define l1 where "l1 = forward 1 s"
  have s: "\<not> atEnd s" "peekChar s = c" using False by (simp_all add: s_def c_def peekChar_def)
  have l1: "lx_source l1 = lx_source l" "lx_ptr l1 = Suc (lx_ptr s)" "lx_ptr l1 \<le> length (lx_source l1)"
    "lx_line l1 = lx_line l"
    using s(1) sk by (simp_all add: l1_def forward_def atEnd_def)
  have here: "scanned P l1 l1" using l1(3) by simp
  note y = lexInteger_yields [of P l1] lexString_yields [of P l1] lexCharacter_yields [of P l1] identifier_yields [of P l1]
  have sub: "yields P start A l1 r \<Longrightarrow> TT_Newline \<notin> A \<Longrightarrow> TT_Eof \<notin> A \<Longrightarrow> yields P start (- {TT_Newline, TT_Eof}) l1 r"
    for start A r by (auto simp: yields_def)
  note step = lexNext_step [OF s(1) s_def c_def l1_def]
  show ?thesis
  proof (cases "c = newline")
    case True
    then show ?thesis using step assms(3) s l1 by (auto simp: s_def [symmetric] l1_def)
  next
    case False
    have "yields P (lx_ptr s) (- {TT_Newline, TT_Eof}) l1 (lexNext l)"
    proof -
      have simple: "yields P (lx_ptr s) (- {TT_Newline, TT_Eof}) l1 (makeToken type (lx_ptr s) l1, l1)"
        if "type \<notin> {TT_Newline, TT_Eof}" for type using that here by (simp add: yields_def)
      have err: "yields P (lx_ptr s) (- {TT_Newline, TT_Eof}) l1 (makeError (lx_ptr s) m l1, l1)" for m
        using here by (simp add: yields_def)
      have i: "yields P (lx_ptr s) (- {TT_Newline, TT_Eof}) l1 (lexInteger (lx_ptr s) negative l1)"
        if "negative \<Longrightarrow> isDigit (peekChar l1)" for negative
        by (rule sub [OF lexInteger_yields]) (use that assms(1) l1 in auto)
      have "yields P (lx_ptr s) (- {TT_Newline, TT_Eof}) l1 (lexString (lx_ptr s) l1)"
        by (rule sub [OF lexString_yields]) (use assms(1) l1 in auto)
      moreover have "yields P (lx_ptr s) (- {TT_Newline, TT_Eof}) l1 (lexCharacter (lx_ptr s) l1)"
        by (rule sub [OF lexCharacter_yields]) (use assms(1) l1 in auto)
      moreover have "yields P (lx_ptr s) (- {TT_Newline, TT_Eof}) l1 (lexIdentifierOrRegister (lx_ptr s) l1)"
        by (rule sub [OF identifier_yields]) (use assms(1) l1 in auto)
      ultimately show ?thesis unfolding step using False simple err i by simp
    qed
    then show ?thesis using False s assms(3) by (simp add: s_def [symmetric] l1_def)
  qed
qed

lemma skipped_frame:
  assumes "lx_ptr l \<le> length (lx_source l)"
  shows "lx_source (skipped l) = lx_source l" "lx_file (skipped l) = lx_file l" "lx_line (skipped l) = lx_line l"
    "lx_line_start (skipped l) = lx_line_start l" "lx_ptr l \<le> lx_ptr (skipped l)" "lx_ptr (skipped l) \<le> length (lx_source l)"
    "lx_peeked (skipped l) = lx_peeked l"
  using scanned_frame [OF conjunct1 [OF skip_scanned [OF assms]]] by simp_all

text \<open>Every call but the last moves the cursor.\<close>

lemma lexNext_progress:
  assumes "lx_ptr l \<le> length (lx_source l)" and "lexNext l = (t, l')"
  shows "lx_source l' = lx_source l" "lx_file l' = lx_file l" "lx_peeked l' = lx_peeked l" "lx_ptr l' \<le> length (lx_source l)"
    "lx_ptr (skipped l) \<le> lx_ptr l'" "tk_text t = spelling (lx_ptr (skipped l)) l'"
    "tk_type t \<noteq> TT_Eof \<Longrightarrow> lx_ptr (skipped l) < lx_ptr l'"
    "tk_type t = TT_Eof \<Longrightarrow> lx_ptr l' = length (lx_source l) \<and> lx_ptr (skipped l) = lx_ptr l'"
proof -
  note sk = skipped_frame [OF assms(1)]
  consider (Eof) "atEnd (skipped l)" "l' = skipped l" "t = makeToken TT_Eof (lx_ptr l') l'"
    | (Newline) "\<not> atEnd (skipped l)"
       "l' = (forward 1 (skipped l))\<lparr> lx_line := lx_line l + 1, lx_line_start := lx_ptr (skipped l) + 1 \<rparr>"
       "t = makeToken TT_Newline (lx_ptr (skipped l)) (forward 1 (skipped l))"
    | (Other) "\<not> atEnd (skipped l)"
       "yields (\<lambda>_. True) (lx_ptr (skipped l)) (- {TT_Newline, TT_Eof}) (forward 1 (skipped l)) (t, l')"
    using lexNext_cases [OF inside_line_all(1) assms] by blast
  then have "lx_source l' = lx_source l \<and> lx_file l' = lx_file l \<and> lx_peeked l' = lx_peeked l \<and> lx_ptr l' \<le> length (lx_source l) \<and>
    lx_ptr (skipped l) \<le> lx_ptr l' \<and> tk_text t = spelling (lx_ptr (skipped l)) l' \<and>
    (tk_type t \<noteq> TT_Eof \<longrightarrow> lx_ptr (skipped l) < lx_ptr l') \<and>
    (tk_type t = TT_Eof \<longrightarrow> lx_ptr l' = length (lx_source l) \<and> lx_ptr (skipped l) = lx_ptr l')"
  proof cases
    case Eof
    then show ?thesis using sk by (simp add: atEnd_def)
  next
    case Newline
    then show ?thesis using sk by (simp add: atEnd_def spelling_def forward_def)
  next
    case Other
    then have "scanned (\<lambda>_. True) (forward 1 (skipped l)) l'" "token_at (lx_ptr (skipped l)) l' t" "tk_type t \<noteq> TT_Eof"
      by (simp_all add: yields_def)
    with scanned_frame [OF this(1)] sk show ?thesis by (simp add: forward_def token_at_def)
  qed
  then show "lx_source l' = lx_source l" "lx_file l' = lx_file l" "lx_peeked l' = lx_peeked l" "lx_ptr l' \<le> length (lx_source l)"
    "lx_ptr (skipped l) \<le> lx_ptr l'" "tk_text t = spelling (lx_ptr (skipped l)) l'"
    "tk_type t \<noteq> TT_Eof \<Longrightarrow> lx_ptr (skipped l) < lx_ptr l'"
    "tk_type t = TT_Eof \<Longrightarrow> lx_ptr l' = length (lx_source l) \<and> lx_ptr (skipped l) = lx_ptr l'" by simp_all
qed

definition rest_length :: "Lexer \<Rightarrow> nat" where
  "rest_length l = length (lx_source l) - lx_ptr l"

lemma lexNext_end:
  assumes "\<not> lx_ptr l \<le> length (lx_source l)"
  shows "lexNext l = (makeToken TT_Eof (lx_ptr l) l, l)"
proof -
  have "atEnd l" using assms by (simp add: atEnd_def)
  then have "skipped l = l" by (simp add: skipHorizontalWhitespaceAndComments.simps)
  with \<open>atEnd l\<close> show ?thesis by (simp add: lexNext_def)
qed

lemma lexNext_shortens:
  assumes "lexNext l = (t, l')"
  shows "tk_type t \<noteq> TT_Eof \<Longrightarrow> rest_length l' < rest_length l" and "rest_length l' \<le> rest_length l"
proof -
  have "(tk_type t \<noteq> TT_Eof \<longrightarrow> rest_length l' < rest_length l) \<and> rest_length l' \<le> rest_length l"
  proof (cases "lx_ptr l \<le> length (lx_source l)")
    case True
    with lexNext_progress [OF True assms] skipped_frame(5) [OF True] show ?thesis by (auto simp: rest_length_def)
  next
    case False
    with lexNext_end [OF False] assms show ?thesis by auto
  qed
  then show "tk_type t \<noteq> TT_Eof \<Longrightarrow> rest_length l' < rest_length l" and "rest_length l' \<le> rest_length l" by auto
qed

text \<open>The caller that loops to the end of the file.\<close>

function lex_all :: "Lexer \<Rightarrow> Token list" where
  "lex_all l = (let (t, l') = lexNext l in if tk_type t = TT_Eof then [t] else t # lex_all l')"
  by auto

termination lex_all
  by (relation "measure rest_length") (auto intro: lexNext_shortens(1) sym)

declare lex_all.simps [simp del]

lemma lex_all_cases:
  assumes "lexNext l = (t, l')"
  shows "lex_all l = (if tk_type t = TT_Eof then [t] else t # lex_all l')"
  by (simp add: lex_all.simps [of l] assms)

lemma drop_spelling:
  assumes "i \<le> j" and "j \<le> length (lx_source l)" and "lx_source l' = lx_source l" and "lx_ptr l' = j"
  shows "drop i (lx_source l) = spelling i l' @ drop j (lx_source l)"
  using assms append_take_drop_id [of "j - i" "drop i (lx_source l)"] by (simp add: spelling_def)

text \<open>
  C8: the scanner always ends, and loses and invents nothing: the spellings of the tokens of a
  file, with the blanks and comments between them, are its text; the tokens end with the one that
  marks the end of the file and every other token has a spelling, whatever bytes the file holds.
\<close>

theorem tokens_partition_source:
  "\<exists>gaps. length gaps = length (lex_all (start_lexer source file)) \<and> list_all blank_text gaps \<and>
     source = concat (map2 (\<lambda>gap t. gap @ tk_text t) gaps (lex_all (start_lexer source file))) \<and>
     tk_type (last (lex_all (start_lexer source file))) = TT_Eof \<and>
     list_all (\<lambda>t. tk_type t \<noteq> TT_Eof \<and> tk_text t \<noteq> []) (butlast (lex_all (start_lexer source file)))"
proof -
  have "\<exists>gaps. length gaps = length (lex_all l) \<and> list_all blank_text gaps \<and>
      drop (lx_ptr l) (lx_source l) = concat (map2 (\<lambda>gap t. gap @ tk_text t) gaps (lex_all l)) \<and> lex_all l \<noteq> [] \<and>
      tk_type (last (lex_all l)) = TT_Eof \<and> list_all (\<lambda>t. tk_type t \<noteq> TT_Eof \<and> tk_text t \<noteq> []) (butlast (lex_all l))"
    if "lx_ptr l \<le> length (lx_source l)" for l
    using that
  proof (induction l rule: lex_all.induct)
    case (1 l)
    obtain t l' where n: "lexNext l = (t, l')" by fastforce
    note p = lexNext_progress [OF "1.prems" n]
    let ?gap = "spelling (lx_ptr l) (skipped l)"
    have gap: "blank_text ?gap" using skip_scanned [OF "1.prems"] by simp
    have "drop (lx_ptr l) (lx_source l) = ?gap @ drop (lx_ptr (skipped l)) (lx_source l)"
      by (rule drop_spelling) (use skipped_frame [OF "1.prems"] in auto)
    also have "drop (lx_ptr (skipped l)) (lx_source l) = tk_text t @ drop (lx_ptr l') (lx_source l)"
      unfolding p(6) by (rule drop_spelling) (use p in auto)
    finally have whole: "drop (lx_ptr l) (lx_source l) = ?gap @ tk_text t @ drop (lx_ptr l') (lx_source l)" .
    show ?case
    proof (cases "tk_type t = TT_Eof")
      case True
      with whole p(8) gap show ?thesis by (intro exI [of _ "[?gap]"]) (simp add: lex_all_cases [OF n])
    next
      case False
      from "1.IH" [OF n [symmetric] refl False] p obtain gaps where g: "length gaps = length (lex_all l')" "list_all blank_text gaps"
        "drop (lx_ptr l') (lx_source l') = concat (map2 (\<lambda>gap t. gap @ tk_text t) gaps (lex_all l'))" "lex_all l' \<noteq> []"
        "tk_type (last (lex_all l')) = TT_Eof" "list_all (\<lambda>t. tk_type t \<noteq> TT_Eof \<and> tk_text t \<noteq> []) (butlast (lex_all l'))"
        by auto
      have "tk_text t \<noteq> []" using p(1,4,6,7) False by (simp add: spelling_def)
      with g whole gap False p(1) show ?thesis
        by (intro exI [of _ "?gap # gaps"]) (simp add: lex_all_cases [OF n])
    qed
  qed
  from this [of "start_lexer source file"] show ?thesis by (simp add: start_lexer_def) blast
qed

subsection \<open>Locations\<close>

lemma starts_after_append: "starts_after i (xs @ ys) = starts_after i xs @ starts_after (i + length xs) ys"
  by (induction xs arbitrary: i) simp_all

lemma starts_after_none: "newline \<notin> set xs \<Longrightarrow> starts_after i xs = []"
  by (induction xs arbitrary: i) auto

lemma starts_after_bounds: "list_all (\<lambda>j. i < j \<and> j \<le> i + length xs) (starts_after i xs)"
proof (induction xs arbitrary: i)
  case (Cons c cs)
  from Cons [of "i + 1"] show ?case by (auto simp: list_all_iff)
qed simp

text \<open>The starts of the lines up to the cursor.\<close>

definition starts_to :: "string \<Rightarrow> nat \<Rightarrow> nat list" where
  "starts_to s n = 0 # starts_after 0 (take n s)"

definition on_line :: "Lexer \<Rightarrow> bool" where
  "on_line l \<longleftrightarrow> lx_ptr l \<le> length (lx_source l) \<and> lx_line l = of_nat (length (starts_to (lx_source l) (lx_ptr l))) \<and>
     lx_line_start l = last (starts_to (lx_source l) (lx_ptr l))"

lemma starts_to_same:
  assumes "list_all (\<lambda>c. c \<noteq> newline) (take n (drop i s))"
  shows "starts_to s (i + n) = starts_to s i"
  using assms starts_after_none [of "take n (drop i s)"]
  by (auto simp: starts_to_def take_add starts_after_append list_all_iff)

lemma starts_to_newline:
  assumes "i < length s" and "s ! i = newline"
  shows "starts_to s (Suc i) = starts_to s i @ [Suc i]"
  using assms by (simp add: starts_to_def take_Suc_conv_app_nth starts_after_append)

lemma scanned_on_line:
  assumes "scanned (\<lambda>c. c \<noteq> newline) l l'" and "on_line l"
  shows "on_line l'" and "starts_to (lx_source l) (lx_ptr l') = starts_to (lx_source l) (lx_ptr l)"
proof -
  obtain n where n: "l' = forward n l" "lx_ptr l + n \<le> length (lx_source l)"
    "list_all (\<lambda>c. c \<noteq> newline) (take n (drop (lx_ptr l) (lx_source l)))" using assms(1) by (auto simp: scanned_def)
  from starts_to_same [OF n(3)] show same: "starts_to (lx_source l) (lx_ptr l') = starts_to (lx_source l) (lx_ptr l)"
    by (simp add: n(1) forward_def)
  with assms(2) n(1,2) show "on_line l'" by (simp add: on_line_def forward_def)
qed

text \<open>A token keeps to its line, unless it is the end of the line.\<close>

lemma lexNext_on_line:
  assumes "no_escaped_newline (lx_source l)" and "on_line l" and "lexNext l = (t, l')"
  shows "on_line l'"
    and "tk_type t \<notin> {TT_Newline, TT_Eof} \<Longrightarrow> \<exists>start. token_at start l' t \<and> on_line l' \<and> start < lx_ptr l' \<and>
      starts_to (lx_source l) start = starts_to (lx_source l) (lx_ptr l')"
proof -
  let ?P = "\<lambda>c. c \<noteq> newline"
  have ptr: "lx_ptr l \<le> length (lx_source l)" using assms(2) by (simp add: on_line_def)
  have sk: "scanned ?P l (skipped l)" using skip_scanned [OF ptr] by simp
  note fr = scanned_frame [OF sk]
  have on: "on_line (skipped l)" using scanned_on_line [OF sk assms(2)] by simp
  from lexNext_cases [OF inside_line_all(2) [OF assms(1)] ptr assms(3)]
  consider "l' = skipped l" "tk_type t = TT_Eof"
    | "\<not> atEnd (skipped l)" "peekChar (skipped l) = newline" "tk_type t = TT_Newline"
      "l' = (forward 1 (skipped l))\<lparr> lx_line := lx_line l + 1, lx_line_start := lx_ptr (skipped l) + 1 \<rparr>"
    | "\<not> atEnd (skipped l)" "peekChar (skipped l) \<noteq> newline"
      "yields ?P (lx_ptr (skipped l)) (- {TT_Newline, TT_Eof}) (forward 1 (skipped l)) (t, l')" by force
  then have "on_line l' \<and> (tk_type t \<notin> {TT_Newline, TT_Eof} \<longrightarrow> (\<exists>start. token_at start l' t \<and> on_line l' \<and> start < lx_ptr l' \<and>
      starts_to (lx_source l) start = starts_to (lx_source l) (lx_ptr l')))"
  proof cases
    case 2
    then have "starts_to (lx_source l) (Suc (lx_ptr (skipped l))) = starts_to (lx_source l) (lx_ptr (skipped l)) @ [Suc (lx_ptr (skipped l))]"
      using fr by (intro starts_to_newline) (simp_all add: atEnd_def peekChar_def)
    with 2 on fr show ?thesis by (simp add: on_line_def forward_def atEnd_def)
  next
    case 3
    then have one: "scanned ?P (skipped l) (forward 1 (skipped l))"
      by (auto simp: atEnd_def peekChar_def forward_scanned)
    from 3(3) have y: "scanned ?P (forward 1 (skipped l)) l'" "token_at (lx_ptr (skipped l)) l' t" by (simp_all add: yields_def)
    have all: "scanned ?P (skipped l) l'" by (rule scanned_trans [OF one y(1)])
    with scanned_on_line [OF all on] scanned_frame(5) [OF y(1)] y(2) fr(1) show ?thesis
      by (auto simp: spelling_forward intro!: exI [of _ "lx_ptr (skipped l)"])
  qed (use on in simp)
  then show "on_line l'"
    and "tk_type t \<notin> {TT_Newline, TT_Eof} \<Longrightarrow> \<exists>start. token_at start l' t \<and> on_line l' \<and> start < lx_ptr l' \<and>
      starts_to (lx_source l) start = starts_to (lx_source l) (lx_ptr l')" by auto
qed

lemma line_end_keeps:
  assumes "b < e" and "e \<le> stop" and "s ! (e - 1) \<noteq> newline" and "s ! (e - 1) \<noteq> carriage_return"
  shows "e \<le> line_end s b stop"
  using assms
proof (induction s b stop rule: line_end.induct)
  case (1 s b stop)
  show ?case
  proof (cases "b < stop \<and> (s ! (stop - 1) = newline \<or> s ! (stop - 1) = carriage_return)")
    case True
    then have "e \<noteq> stop" using "1.prems" by auto
    with 1 True show ?thesis by (subst line_end.simps) auto
  next
    case False
    then show ?thesis using "1.prems" by (subst line_end.simps) simp
  qed
qed

text \<open>A span inside the line its starts say is found there.\<close>

lemma source_line_span:
  assumes "unat file < length files" and "files ! unat file = \<lparr> en_name = name, en_text = s, en_line_starts = 0 # starts_after 0 s \<rparr>"
    and "start < stop" and "stop \<le> length s" and "starts_to s start = starts_to s stop"
    and "length s < 2 ^ 32 - 1" and "s ! (stop - 1) \<noteq> newline" and "s ! (stop - 1) \<noteq> carriage_return"
  shows "take (stop - start) (drop (start - last (starts_to s start))
      (source_line files file (of_nat (length (starts_to s start))))) = take (stop - start) (drop start s) \<and>
    last (starts_to s start) \<le> start"
proof -
  let ?S = "starts_to s start" and ?all = "0 # starts_after 0 s"
  have all: "?all = ?S @ starts_after stop (drop stop s)"
    using starts_after_append [of 0 "take stop s" "drop stop s"] assms(4,5) by (simp add: starts_to_def)
  have bounds: "list_all (\<lambda>j. j \<le> start) ?S"
    using starts_after_bounds [of 0 "take start s"] by (auto simp: starts_to_def list_all_iff)
  have ne: "?S \<noteq> []" by (simp add: starts_to_def)
  then have b: "last ?S \<le> start" using bounds by (simp add: list_all_iff)
  have many: "length (starts_after i xs) \<le> length xs" for i xs by (induction xs arbitrary: i) (auto intro: le_SucI)
  have k: "length ?S < 2 ^ 32" "0 < length ?S"
    using many [of 0 "take start s"] assms(3,4,6) by (auto simp: starts_to_def)
  then have un: "unat (of_nat (length ?S) :: u32) = length ?S" by (simp add: unat_of_nat take_bit_nat_eq_self)
  then have nz: "(of_nat (length ?S) :: u32) \<noteq> 0" using k by (metis less_numeral_extra(3) unat_0)
  then have idx: "unat ((of_nat (length ?S) :: u32) - 1) = length ?S - 1" using un by (simp add: unat_minus_one)
  define stop0 where "stop0 = (if length ?S < length ?all then ?all ! length ?S else length s)"
  have "stop \<le> stop0"
  proof (cases "starts_after stop (drop stop s)")
    case Nil
    then show ?thesis using all assms(4) by (simp add: stop0_def)
  next
    case (Cons j js)
    then have "stop < j" using starts_after_bounds [of stop "drop stop s"] by simp
    with Cons show ?thesis unfolding stop0_def all by simp
  qed
  then have e: "stop \<le> line_end s (last ?S) stop0"
    using line_end_keeps [of "last ?S" stop stop0 s] b assms(3,7,8) by simp
  have "source_line files file (of_nat (length ?S)) = take (line_end s (last ?S) stop0 - last ?S) (drop (last ?S) s)"
  proof -
    have "?all ! (length ?S - 1) = last ?S" unfolding all using ne by (simp add: nth_append last_conv_nth)
    moreover have "length ?S - 1 < length ?all" unfolding all using k(2) by (simp del: length_greater_0_conv)
    moreover obtain j where "length ?S = Suc j" using k(2) by (cases "length ?S") auto
    ultimately show ?thesis
      using assms(1,2) nz idx by (simp add: source_line_def sources_contains_def stop0_def Let_def)
  qed
  moreover have "line_end s (last ?S) stop0 - last ?S - (start - last ?S) = line_end s (last ?S) stop0 - start"
    using b by simp
  ultimately show ?thesis using b e by (simp add: drop_take min_def)
qed


definition demo_source :: string where
  "demo_source = [newline] @ '': a''"

lemma demo_tokens:
  "map (\<lambda>t. (tk_type t, tk_text t, tk_location t)) (lex_all (start_lexer demo_source 0)) =
   [(TT_Newline, [newline], \<lparr> loc_file = 0, loc_line = 1, loc_column = 1, loc_length = 1 \<rparr>),
    (TT_Colon, '':'', \<lparr> loc_file = 0, loc_line = 2, loc_column = 1, loc_length = 1 \<rparr>),
    (TT_Identifier, ''a'', \<lparr> loc_file = 0, loc_line = 2, loc_column = 3, loc_length = 1 \<rparr>),
    (TT_Eof, [], \<lparr> loc_file = 0, loc_line = 2, loc_column = 4, loc_length = 0 \<rparr>)]"
  by code_simp


text \<open>A newline behind a backslash: the next token is reported a line too early.\<close>

lemma escaped_newline_shifts_lines:
  "map (\<lambda>t. (tk_text t, unat (loc_line (tk_location t)), unat (loc_column (tk_location t))))
     (lex_all (start_lexer ([CHR 0x22, CHR 0x5C, newline] @ ''JMP'') 0)) =
   [([CHR 0x22, CHR 0x5C, newline], 1, 1), (''JMP'', 1, 4), ([], 1, 7)]"
  by code_simp

end
