(* ===== verification/Lexer_Literals.thy ===== *)
theory Lexer_Literals
  imports Lexer_Safety
begin

text \<open>
  Literals read back: a number printed in decimal and a string printed with escapes are scanned to
  the value they were printed from.
\<close>

definition ahead :: "Lexer \<Rightarrow> string" where
  "ahead l = drop (lx_ptr l) (lx_source l)"

lemma ahead_Cons:
  assumes "ahead l = c # cs"
  shows "\<not> atEnd l" "lx_source l ! lx_ptr l = c" "peekChar l = c" "ahead (forward 1 l) = cs" "lx_advance l = (c, forward 1 l)"
proof -
  show e: "\<not> atEnd l" using assms by (auto simp: ahead_def atEnd_def)
  show c: "lx_source l ! lx_ptr l = c" using assms nth_via_drop [of "lx_ptr l" "lx_source l" c cs] by (simp add: ahead_def)
  with e show "peekChar l = c" "lx_advance l = (c, forward 1 l)" by (simp_all add: peekChar_def lx_advance_def)
  show "ahead (forward 1 l) = cs" using assms drop_Suc [of "lx_ptr l" "lx_source l"] tl_drop [of "lx_ptr l" "lx_source l"]
    by (simp add: ahead_def forward_def)
qed

lemma ahead_Nil: "ahead l = [] \<longleftrightarrow> atEnd l"
  by (simp add: ahead_def atEnd_def)

lemma forward_forward [simp]: "forward m (forward n l) = forward (n + m) l" "forward 0 l = l"
  by (simp_all add: forward_def add.assoc)

lemma ahead_forward: "ahead (forward n l) = drop n (ahead l)"
  by (simp add: ahead_def forward_def add.commute)

lemma ahead_start [simp]: "ahead (start_lexer source file) = source"
  by (simp add: ahead_def start_lexer_def)

subsection \<open>Decimal numbers\<close>

lemma dec_digits_append: "dec_digits n acc = dec_digits n [] @ acc"
proof (induction n arbitrary: acc rule: less_induct)
  case (less n)
  show ?case
  proof (cases "n < 10")
    case True
    then show ?thesis by (simp add: dec_digits.simps [of n])
  next
    case False
    then have "n div 10 < n" by simp
    from less [OF this] have IH: "dec_digits (n div 10) acc = dec_digits (n div 10) [] @ acc" for acc .
    show ?thesis using False IH [of "char_of (48 + n mod 10) # acc"] IH [of "[char_of (48 + n mod 10)]"]
      by (simp add: dec_digits.simps [of n])
  qed
qed

lemma nat_str_unfold:
  "nat_str n = (if n < 10 then [char_of (48 + n)] else nat_str (n div 10) @ [char_of (48 + n mod 10)])"
  using dec_digits_append [of "n div 10" "[char_of (48 + n mod 10)]"] by (simp add: nat_str_def dec_digits.simps [of n])

definition digit_char :: "nat \<Rightarrow> char" where
  "digit_char d = char_of (48 + d)"

lemma digit_char_simps [simp]:
  assumes "d < 10"
  shows "isDigit (digit_char d)" "digit_value (digit_char d) = d" "digit_char d = CHR ''0'' \<longleftrightarrow> d = 0"
    "isDigitOfBase 10 (digit_char d)"
proof -
  have code: "char_code (digit_char d) = 48 + d" using assms by (simp add: char_code_def digit_char_def)
  then have low: "lowercase (digit_char d) = digit_char d" using assms by (simp add: lowercase_def)
  show "isDigit (digit_char d)" "digit_value (digit_char d) = d" "isDigitOfBase 10 (digit_char d)"
    using assms code low by (simp_all add: isDigit_def digit_value_def isDigitOfBase_def)
  have "digit_char d = CHR ''0'' \<longleftrightarrow> char_code (digit_char d) = char_code (CHR ''0'')"
    unfolding char_code_def by (simp only: of_char_eq_iff)
  also have "\<dots> \<longleftrightarrow> d = 0" unfolding code by (simp add: char_code_def)
  finally show "digit_char d = CHR ''0'' \<longleftrightarrow> d = 0" .
qed

lemma nat_str_digits:
  "list_all isDigit (nat_str n) \<and> list_all (isDigitOfBase 10) (nat_str n) \<and> nat_str n \<noteq> [] \<and> digits_value 10 (nat_str n) = int n \<and>
   (hd (nat_str n) = CHR ''0'' \<longrightarrow> nat_str n = ''0'')"
proof (induction n rule: less_induct)
  case (less n)
  show ?case
  proof (cases "n < 10")
    case True
    then have "nat_str n = [digit_char n]" by (subst nat_str_unfold) (simp add: digit_char_def)
    with True show ?thesis by (auto simp: digits_value_def)
  next
    case False
    then have "n div 10 < n" and ne: "n div 10 \<noteq> 0" by simp_all
    from less [OF this(1)] have IH: "list_all isDigit (nat_str (n div 10))" "list_all (isDigitOfBase 10) (nat_str (n div 10))"
      "nat_str (n div 10) \<noteq> []" "digits_value 10 (nat_str (n div 10)) = int (n div 10)"
      "hd (nat_str (n div 10)) = CHR ''0'' \<Longrightarrow> nat_str (n div 10) = ''0''" by auto
    have eq: "nat_str n = nat_str (n div 10) @ [digit_char (n mod 10)]"
      using False by (subst nat_str_unfold) (simp add: digit_char_def)
    have "hd (nat_str (n div 10)) \<noteq> CHR ''0''"
    proof
      assume "hd (nat_str (n div 10)) = CHR ''0''"
      then have "nat_str (n div 10) = ''0''" by (rule IH(5))
      with IH(4) have "digits_value 10 ''0'' = int (n div 10)" by simp
      moreover have "digits_value 10 ''0'' = 0" by code_simp
      ultimately show False using ne by simp
    qed
    moreover have "digits_value 10 (nat_str n) = int n"
    proof -
      have "digits_value 10 (nat_str n) = digits_value 10 (nat_str (n div 10)) * 10 + int (n mod 10)"
        unfolding eq by (simp add: digits_value_def)
      also have "\<dots> = int (n div 10 * 10 + n mod 10)" by (simp only: IH(4) of_nat_add of_nat_mult of_nat_numeral)
      finally show ?thesis by simp
    qed
    ultimately show ?thesis using IH(1,2,3) by (simp add: eq)
  qed
qed

lemma takeWhile_run: "list_all Q xs \<Longrightarrow> ys = [] \<or> \<not> Q (hd ys) \<Longrightarrow> takeWhile Q (xs @ ys) = xs"
  by (induction xs) (cases ys; auto)+

definition stops_number :: "string \<Rightarrow> bool" where
  "stops_number rest \<longleftrightarrow> rest = [] \<or> \<not> isIdentifierContinue (hd rest)"

lemma char_code_lowercase: "char_code (lowercase c) = (if 65 \<le> char_code c \<and> char_code c \<le> 90 then char_code c + 32 else char_code c)"
  by (simp add: char_code_def lowercase_def)

lemma stops_number_prefix:
  assumes "stops_number (c # cs)"
  shows "integer_base c = 10" "\<not> isDigitOfBase 10 c"
proof -
  have no: "\<not> isIdentifierContinue c" using assms by (simp add: stops_number_def)
  show "integer_base c = 10"
  proof (rule ccontr)
    assume "integer_base c \<noteq> 10"
    then consider "lowercase c = CHR ''x''" | "lowercase c = CHR ''b''" | "lowercase c = CHR ''o''"
      unfolding integer_base_def Let_def by metis
    then have "97 \<le> char_code (lowercase c) \<and> char_code (lowercase c) \<le> 122" by cases (simp_all add: char_code_def)
    with no show False by (auto simp: char_code_lowercase isIdentifierContinue_def isIdentifierStart_def split: if_splits)
  qed
  have "48 \<le> char_code (lowercase c) \<and> char_code (lowercase c) \<le> 57" if "isDigitOfBase 10 c"
    using that by (simp add: isDigitOfBase_def isDigit_def Let_def)
  with no show "\<not> isDigitOfBase 10 c"
    by (auto simp: char_code_lowercase isIdentifierContinue_def isIdentifierStart_def isDigit_def split: if_splits)
qed

lemma skipped_here:
  assumes "ahead l = c # cs" and "\<not> is_blank c" and "c \<noteq> CHR '';''"
  shows "skipped l = l"
  using assms ahead_Cons(1,3) [OF assms(1)] by (simp add: skipHorizontalWhitespaceAndComments.simps [of l])

lemma skip_while_run:
  assumes "ahead l = xs @ ys" and "list_all Q xs" and "ys = [] \<or> \<not> Q (hd ys)"
  shows "skip_while Q l = forward (length xs) l"
  using takeWhile_run [OF assms(2,3)] assms(1) by (simp add: skip_while_def ahead_def)

lemma spelling_ahead: "start \<le> lx_ptr l \<Longrightarrow> spelling start (forward n l) = spelling start l @ take n (ahead l)"
  using take_add [of "lx_ptr l - start" n "drop start (lx_source l)"]
  by (simp add: spelling_def ahead_def forward_def)

text \<open>The digits of a number, behind their sign or first digit.\<close>

lemma lexInteger_decimal:
  assumes l: "ahead l = digits @ rest" "digits = nat_str n" and stop: "stops_number rest"
    and at: "l1 = (if negative then l else forward 1 l)" "start = (if negative then lx_ptr l - 1 else lx_ptr l)"
      "negative \<Longrightarrow> 0 < lx_ptr l"
  shows "lexInteger start negative l1 =
    (let l2 = forward (length digits) l in
     if 2 ^ 64 \<le> int n \<or> (if negative then 2 ^ 63 < int n else 2 ^ 63 - 1 < int n)
     then (makeError start ''integer literal does not fit in 64 bits'' l2, l2)
     else ((makeToken TT_Integer start l2)\<lparr> tk_int := (if negative then NOT (of_int (int n)) + 1 else of_int (int n)) \<rparr>, l2))"
proof -
  note d = nat_str_digits [of n, folded l(2)]
  obtain c cs where c: "digits = c # cs" using d by (cases digits) auto
  have al: "ahead l = c # cs @ rest" using l(1) c by simp
  have first: "(if negative then start + 1 else start) = lx_ptr l" using at by auto
  have prefix: "(if negative then peekCharAt 1 l1 else peekChar l1) = (case cs @ rest of [] \<Rightarrow> CHR 0x00 | x # _ \<Rightarrow> x)"
  proof -
    have "peekCharAt 1 l = peekChar (forward 1 l)" by (simp add: peekCharAt_def peekChar_def atEnd_def forward_def)
    moreover have "peekChar (forward 1 l) = (case cs @ rest of [] \<Rightarrow> CHR 0x00 | x # _ \<Rightarrow> x)"
      using ahead_Cons(4) [OF al] ahead_Cons(3) [of "forward 1 l"] ahead_Nil [of "forward 1 l"]
      by (auto simp: peekChar_def split: list.split)
    ultimately show ?thesis by (simp add: at(1))
  qed
  have base: "(if lx_source l1 ! lx_ptr l = CHR ''0'' then integer_base (if negative then peekCharAt 1 l1 else peekChar l1) else 10) = 10"
  proof (cases "c = CHR ''0''")
    case True
    then have "cs = []" using d c by simp
    then show ?thesis unfolding prefix using stop stops_number_prefix(1)
      by (cases rest) (simp_all, simp add: integer_base_def lowercase_def char_code_def)
  next
    case False
    then show ?thesis using ahead_Cons(2) [OF al] at(1) by (simp add: forward_def)
  qed
  have ten: "list_all (isDigitOfBase 10) digits" "rest = [] \<or> \<not> isDigitOfBase 10 (hd rest)"
    using d stop stops_number_prefix(2) [of "hd rest" "tl rest"] by (simp_all, cases rest) simp_all
  have skip: "skip_while (isDigitOfBase 10) l1 = forward (length digits) l"
  proof (cases negative)
    case True
    then show ?thesis using skip_while_run [OF l(1) ten] at(1) by simp
  next
    case False
    have "ahead l1 = cs @ rest" using False at(1) ahead_Cons(4) [OF al] by simp
    then show ?thesis using skip_while_run [of l1 cs rest] ten c False at(1) by simp
  qed
  let ?stop = "forward (length digits) l"
  have al2: "ahead ?stop = rest" by (simp add: ahead_forward l(1))
  have stop2: "\<not> (\<not> atEnd ?stop \<and> isIdentifierContinue (peekChar ?stop))"
    using stop al2 ahead_Cons(3) [of ?stop] ahead_Nil [of ?stop] by (cases rest) (auto simp: stops_number_def)
  have ptr: "lx_ptr ?stop \<noteq> lx_ptr l" using c by (simp add: spelling_forward)
  have digits: "spelling (lx_ptr l) ?stop = digits" using spelling_ahead [of "lx_ptr l" l "length digits"] l(1) by (simp add: spelling_def)
  have "lexInteger start negative l1 =
      (if lx_ptr l = lx_ptr ?stop then (makeError start ''malformed integer literal'' (skip_while isIdentifierContinue ?stop), skip_while isIdentifierContinue ?stop)
       else if \<not> atEnd ?stop \<and> isIdentifierContinue (peekChar ?stop)
       then (makeError start (''invalid digit in base-'' @ nat_str 10 @ '' integer literal'') (skip_while isIdentifierContinue ?stop), skip_while isIdentifierContinue ?stop)
       else if 2 ^ 64 \<le> digits_value 10 (spelling (lx_ptr l) ?stop) \<or>
         (if negative then 2 ^ 63 < digits_value 10 (spelling (lx_ptr l) ?stop) else 2 ^ 63 - 1 < digits_value 10 (spelling (lx_ptr l) ?stop))
       then (makeError start ''integer literal does not fit in 64 bits'' ?stop, ?stop)
       else ((makeToken TT_Integer start ?stop)\<lparr> tk_int := (if negative then NOT (of_int (digits_value 10 (spelling (lx_ptr l) ?stop))) + 1
           else of_int (digits_value 10 (spelling (lx_ptr l) ?stop))) \<rparr>, ?stop))"
    by (simp only: lexInteger_def Let_def first base simp_thms if_True if_False skip not_True_eq_False)
  with ptr stop2 d show ?thesis unfolding digits by (simp only: Let_def) simp
qed

lemma digit_not_special:
  assumes "isDigit c"
  shows "\<not> is_blank c" "c \<notin> {CHR '';'', CHR '':'', CHR '','', CHR ''+'', CHR ''.'', CHR ''#'', CHR ''['', CHR '']'', newline, CHR ''-'',
      CHR 0x22, CHR 0x27}" "\<not> isIdentifierStart c"
  using assms by (auto simp: isDigit_def is_blank_def isIdentifierStart_def char_code_def)

lemma lexNext_number:
  assumes "ahead l = (if negative then ''-'' else []) @ nat_str n @ rest" and "stops_number rest"
  shows "lexNext l = lexInteger (lx_ptr l) negative (forward 1 l)"
proof -
  note d = nat_str_digits [of n]
  obtain c cs where c: "nat_str n = c # cs" using d by (cases "nat_str n") auto
  then have dig: "isDigit c" using d by simp
  note sp = digit_not_special [OF dig]
  show ?thesis
  proof (cases negative)
    case True
    then have al: "ahead l = CHR ''-'' # c # cs @ rest" using assms(1) c by simp
    have sk: "skipped l = l" by (rule skipped_here [OF al]) (simp_all add: is_blank_def)
    note a = ahead_Cons [OF al]
    have pk: "peekChar (forward 1 l) = c" by (rule ahead_Cons(3) [OF a(4)])
    show ?thesis using True dig pk a(1,5) by (simp add: lexNext_def sk Let_def)
  next
    case False
    then have al: "ahead l = c # cs @ rest" using assms(1) c by simp
    have sk: "skipped l = l" by (rule skipped_here [OF al]) (use sp in simp_all)
    note a = ahead_Cons [OF al]
    show ?thesis using False dig sp a(1,5) by (simp add: lexNext_def sk Let_def)
  qed
qed

text \<open>
  C23: decimal literals are read exactly: a number written in decimal, with or without a minus sign,
  becomes one integer token with that value when the value is a signed 64-bit integer, including the
  most negative one, and a malformed token that covers the same text when it is not.
\<close>

theorem decimal_literal_value:
  assumes "source = written @ rest" and "written = (if negative then ''-'' else []) @ nat_str n" and "stops_number rest"
    and "lexNext (start_lexer source file) = (t, l')"
  shows "tk_text t = written \<and> lx_ptr l' = length written \<and>
    (if (if negative then n \<le> 2 ^ 63 else n < 2 ^ 63)
     then tk_type t = TT_Integer \<and> sint (tk_int t) = (if negative then - int n else int n)
     else tk_type t = TT_Error)"
proof -
  let ?lexer = "start_lexer source file" and ?k = "if negative then 1 else 0 :: nat"
  have al: "ahead ?lexer = (if negative then ''-'' else []) @ nat_str n @ rest" using assms(1,2) by simp
  let ?l = "forward ?k ?lexer" and ?stop = "forward (length written) ?lexer"
  have ah: "ahead ?l = nat_str n @ rest" using al by (auto simp: ahead_forward)
  have len: "length written = ?k + length (nat_str n)" using assms(2) by simp
  have p0: "lx_ptr ?lexer = 0" by (simp add: start_lexer_def)
  have "lexInteger 0 negative (forward 1 ?lexer) =
    (if 2 ^ 64 \<le> int n \<or> (if negative then 2 ^ 63 < int n else 2 ^ 63 - 1 < int n)
     then (makeError 0 ''integer literal does not fit in 64 bits'' ?stop, ?stop)
     else ((makeToken TT_Integer 0 ?stop)\<lparr> tk_int := (if negative then NOT (of_int (int n)) + 1 else of_int (int n)) \<rparr>, ?stop))"
    using lexInteger_decimal [OF ah refl assms(3), of "forward 1 ?lexer" negative 0] p0
    by (simp add: spelling_forward len Let_def)
  then have "(t, l') = (if 2 ^ 64 \<le> int n \<or> (if negative then 2 ^ 63 < int n else 2 ^ 63 - 1 < int n)
     then (makeError 0 ''integer literal does not fit in 64 bits'' ?stop, ?stop)
     else ((makeToken TT_Integer 0 ?stop)\<lparr> tk_int := (if negative then NOT (of_int (int n)) + 1 else of_int (int n)) \<rparr>, ?stop))"
    using lexNext_number [OF al assms(3)] assms(4) p0 by simp
  moreover have "spelling 0 ?stop = written" using assms(1) by (simp add: spelling_def forward_def start_lexer_def)
  moreover have "sint (NOT (of_int (int n)) + 1 :: i64) = - int n" if "n \<le> 2 ^ 63"
  proof -
    have "(NOT (of_int (int n)) + 1 :: i64) = of_int (- int n)" by (simp add: not_eq_complement)
    also have "sint \<dots> = - int n" using that by (intro sint_of_int_u64) simp_all
    finally show ?thesis .
  qed
  moreover have "sint (of_int (int n) :: i64) = int n" if "n < 2 ^ 63"
    using that by (intro sint_of_int_u64) simp_all
  moreover have "lx_ptr ?stop = length written" by (simp add: forward_def start_lexer_def)
  ultimately show ?thesis by (cases negative) (auto split: if_splits simp: makeError_def)
qed

lemma decimal_literal_value_witness:
  "(\<exists>t l'. lexNext (start_lexer (''-'' @ nat_str (2 ^ 63)) 0) = (t, l') \<and> sint (tk_int t) = - (2 ^ 63)) \<and>
   (\<exists>t l'. lexNext (start_lexer (nat_str (2 ^ 63) @ '' ;'') 0) = (t, l') \<and> tk_type t = TT_Error)"
proof -
  obtain t l' where 1: "lexNext (start_lexer (''-'' @ nat_str (2 ^ 63)) 0) = (t, l')" by fastforce
  obtain u m where 2: "lexNext (start_lexer (nat_str (2 ^ 63) @ '' ;'') 0) = (u, m)" by fastforce
  have 3: "stops_number []" "stops_number '' ;''"
    by (simp_all add: stops_number_def isIdentifierContinue_def isIdentifierStart_def isDigit_def char_code_def)
  have "sint (tk_int t) = - (2 ^ 63)"
    using decimal_literal_value [OF _ _ 3(1) 1, of "''-'' @ nat_str (2 ^ 63)" True "2 ^ 63"] by simp
  moreover have "tk_type u = TT_Error"
    using decimal_literal_value [OF _ _ 3(2) 2, of "nat_str (2 ^ 63)" False "2 ^ 63"] by simp
  ultimately show ?thesis using 1 2 by blast
qed

subsection \<open>Strings\<close>

fun escape_char :: "char \<Rightarrow> string" where
  "escape_char c =
     (if c = newline then [CHR 0x5C, CHR ''n''] else if c = CHR 0x22 \<or> c = CHR 0x5C then [CHR 0x5C, c] else [c])"

definition escaped :: "string \<Rightarrow> string" where
  "escaped s = concat (map escape_char s)"

lemma byte_char: "char_of (unat (ucast (of_nat (char_code c) :: i64) :: u8)) = c"
proof -
  have "char_code c < 256" by (simp add: char_code_def)
  then have "unat (ucast (of_nat (char_code c) :: i64) :: u8) = char_code c"
    by (simp add: unsigned_ucast_eq unat_of_nat take_bit_nat_eq_self)
  then show ?thesis by (simp add: char_code_def)
qed

lemma string_body_escaped:
  assumes "ahead l = escaped s @ CHR 0x22 # rest"
  shows "string_body decoded l = (Inr (decoded @ s), forward (length (escaped s) + 1) l)"
  using assms
proof (induction s arbitrary: l decoded)
  case Nil
  then have al: "ahead l = CHR 0x22 # rest" by (simp add: escaped_def)
  from ahead_Cons [OF this] show ?case by (simp add: string_body.simps [of decoded l] escaped_def)
next
  case (Cons c s)
  show ?case
  proof (cases "c = newline \<or> c = CHR 0x22 \<or> c = CHR 0x5C")
    case False
    then have al: "ahead l = c # escaped s @ CHR 0x22 # rest" using Cons.prems by (simp add: escaped_def)
    note a = ahead_Cons [OF al]
    show ?thesis using False a(1,3,5) Cons.IH [OF a(4)]
      by (simp add: string_body.simps [of decoded l]) (simp add: escaped_def)
  next
    case True
    define d where "d = (if c = newline then CHR ''n'' else c)"
    have al: "ahead l = CHR 0x5C # d # escaped s @ CHR 0x22 # rest"
      using Cons.prems True by (auto simp: escaped_def d_def)
    note a = ahead_Cons [OF al]
    note b = ahead_Cons [OF a(4)]
    have "decodeEscape (forward 1 l) = (Inr (of_nat (char_code c)), forward 2 l)"
      using b(1,5) True by (auto simp: decodeEscape_def d_def char_code_def numeral_2_eq_2)
    moreover have "string_body (decoded @ [c]) (forward 2 l) = (Inr ((decoded @ [c]) @ s), forward (length (escaped s) + 1) (forward 2 l))"
      using b(4) by (intro Cons.IH) (simp add: numeral_2_eq_2)
    ultimately show ?thesis using True a(1,3,5) byte_char [of c]
      by (simp add: string_body.simps [of decoded l]) (auto simp: escaped_def numeral_2_eq_2)
  qed
qed

text \<open>
  Strings survive being written down: any bytes, quotes, backslashes and newlines included,
  written between double quotes with their escapes, are read back as one string token that holds
  them.
\<close>

theorem string_literal_round_trip:
  "\<exists>t l'. lexNext (start_lexer ([CHR 0x22] @ escaped s @ [CHR 0x22] @ rest) file) = (t, l') \<and>
     tk_type t = TT_String \<and> tk_str t = s \<and> tk_text t = [CHR 0x22] @ escaped s @ [CHR 0x22] \<and> ahead l' = rest"
proof -
  define st where "st = start_lexer ([CHR 0x22] @ escaped s @ [CHR 0x22] @ rest) file"
  have al: "ahead st = CHR 0x22 # escaped s @ CHR 0x22 # rest" by (simp add: st_def)
  note a = ahead_Cons [OF al]
  have sk: "skipped st = st" by (rule skipped_here [OF al]) (simp_all add: is_blank_def)
  define stop where "stop = forward (length (escaped s) + 2) st"
  have body: "string_body [] (forward 1 st) = (Inr s, stop)"
    using string_body_escaped [OF a(4), of "[]"] by (simp add: stop_def)
  have p0: "lx_ptr st = 0" by (simp add: st_def start_lexer_def)
  have "isIdentifierStart (CHR 0x22) = False" by code_simp
  then have "lexNext st = ((makeToken TT_String 0 stop)\<lparr> tk_str := s \<rparr>, stop)"
    using a(1,5) body p0 by (simp add: lexNext_def sk lexString_def)
  moreover have "spelling 0 stop = [CHR 0x22] @ escaped s @ [CHR 0x22]"
    by (simp add: spelling_def forward_def start_lexer_def stop_def st_def)
  moreover have "ahead stop = rest" unfolding stop_def by (simp only: ahead_forward al) simp
  ultimately show ?thesis unfolding st_def [symmetric] by auto
qed

end
