(* ===== verification/Ast.thy ===== *)
theory Ast
  imports Diagnostics
begin

text \<open>
  include/minitool/ast/ast.hpp and src/ast/ast.cpp: the syntax tree of one assembly file, a flat
  list of statements that records what was written.
\<close>

datatype OperandType = OT_Register | OT_Immediate | OT_Symbol | OT_Memory | OT_String

fun operandTypeName :: "OperandType \<Rightarrow> string" where
  "operandTypeName OT_Register = ''register''"
| "operandTypeName OT_Immediate = ''immediate''"
| "operandTypeName OT_Symbol = ''symbol''"
| "operandTypeName OT_Memory = ''memory operand''"
| "operandTypeName OT_String = ''string''"

record Operand =
  op_type :: OperandType
  op_reg :: Reg
  op_immediate :: i64
  op_symbol :: string
  op_text :: string
  op_location :: SourceLocation

definition blank_operand :: Operand where
  "blank_operand = \<lparr> op_type = OT_Immediate, op_reg = 0, op_immediate = 0, op_symbol = [], op_text = [],
     op_location = no_location \<rparr>"

record InstructionNode =
  in_mnemonic :: string
  in_operands :: "Operand list"
  in_location :: SourceLocation

record LabelNode =
  ln_name :: string
  ln_local :: bool
  ln_location :: SourceLocation

datatype DirectiveType = Dir_Section | Dir_Global | Dir_Extern | Dir_Weak | Dir_Byte | Dir_Word
  | Dir_Dword | Dir_Qword | Dir_Asciz | Dir_Align | Dir_Space

fun directiveName :: "DirectiveType \<Rightarrow> string" where
  "directiveName Dir_Section = ''.section''"
| "directiveName Dir_Global = ''.global''"
| "directiveName Dir_Extern = ''.extern''"
| "directiveName Dir_Weak = ''.weak''"
| "directiveName Dir_Byte = ''.byte''"
| "directiveName Dir_Word = ''.word''"
| "directiveName Dir_Dword = ''.dword''"
| "directiveName Dir_Qword = ''.qword''"
| "directiveName Dir_Asciz = ''.asciz''"
| "directiveName Dir_Align = ''.align''"
| "directiveName Dir_Space = ''.space''"

fun dataDirectiveWidth :: "DirectiveType \<Rightarrow> u32" where
  "dataDirectiveWidth Dir_Byte = 1"
| "dataDirectiveWidth Dir_Word = 2"
| "dataDirectiveWidth Dir_Dword = 4"
| "dataDirectiveWidth Dir_Qword = 8"
| "dataDirectiveWidth _ = 0"

record DirectiveNode =
  dn_type :: DirectiveType
  dn_operands :: "Operand list"
  dn_location :: SourceLocation

datatype Statement = St_Instruction InstructionNode | St_Label LabelNode | St_Directive DirectiveNode

type_synonym Program = "Statement list"

fun statementLocation :: "Statement \<Rightarrow> SourceLocation" where
  "statementLocation (St_Instruction node) = in_location node"
| "statementLocation (St_Label node) = ln_location node"
| "statementLocation (St_Directive node) = dn_location node"

end
