(* ===== verification/Parser.thy ===== *)
theory Parser
  imports Lexer_Safety Ast
begin

text \<open>
  src/parser/parser.cpp: recursive descent with three tokens of lookahead.  The buffer is the list of
  the tokens fetched and not consumed; peeking fills it, so it changes the state.  A parse function
  returns its result and the parser; no result is the \<open>std::nullopt\<close> of the code.
\<close>

record Parser =
  pa_lexer :: Lexer
  pa_engine :: DiagnosticEngine
  pa_buffer :: "Token list"
  pa_failed :: bool

definition start_parser :: "Lexer \<Rightarrow> DiagnosticEngine \<Rightarrow> Parser" where
  "start_parser l d = \<lparr> pa_lexer = l, pa_engine = d, pa_buffer = [], pa_failed = False \<rparr>"

record DirectiveSpelling =
  ds_name :: string
  ds_type :: DirectiveType
  ds_implicit_section :: string

definition spell :: "string \<Rightarrow> DirectiveType \<Rightarrow> string \<Rightarrow> DirectiveSpelling" where
  "spell name type implicit = \<lparr> ds_name = name, ds_type = type, ds_implicit_section = implicit \<rparr>"

definition kDirectives :: "DirectiveSpelling list" where
  "kDirectives =
     [spell ''section'' Dir_Section [], spell ''text'' Dir_Section ''.text'', spell ''data'' Dir_Section ''.data'',
      spell ''rodata'' Dir_Section ''.rodata'', spell ''bss'' Dir_Section ''.bss'', spell ''global'' Dir_Global [],
      spell ''globl'' Dir_Global [], spell ''extern'' Dir_Extern [], spell ''weak'' Dir_Weak [],
      spell ''byte'' Dir_Byte [], spell ''word'' Dir_Word [], spell ''dword'' Dir_Dword [], spell ''qword'' Dir_Qword [],
      spell ''asciz'' Dir_Asciz [], spell ''align'' Dir_Align [], spell ''space'' Dir_Space []]"

definition findDirective :: "string \<Rightarrow> DirectiveSpelling option" where
  "findDirective name = find (\<lambda>entry. ds_name entry = name) kDirectives"

subsection \<open>Tokens\<close>

text \<open>What is left to read; every consumed token makes it smaller.\<close>

definition lexer_size :: "Lexer \<Rightarrow> nat" where
  "lexer_size l = rest_length l + (if lx_peeked l then 1 else 0)"

lemma lx_next_shortens:
  assumes "lx_next l = (t, l')"
  shows "tk_type t \<noteq> TT_Eof \<Longrightarrow> lexer_size l' < lexer_size l" and "lexer_size l' \<le> lexer_size l"
proof -
  have "(tk_type t \<noteq> TT_Eof \<longrightarrow> lexer_size l' < lexer_size l) \<and> lexer_size l' \<le> lexer_size l"
  proof (cases "lx_peeked l")
    case True
    then show ?thesis using assms by (auto simp: lx_next_def lexer_size_def rest_length_def)
  next
    case False
    then have n: "lexNext l = (t, l')" using assms by (simp add: lx_next_def)
    have "lx_peeked l' = lx_peeked l"
    proof (cases "lx_ptr l \<le> length (lx_source l)")
      case True
      then show ?thesis using lexNext_progress(3) [OF True n] by simp
    next
      case False
      then show ?thesis using lexNext_end [OF False] n by simp
    qed
    with lexNext_shortens [OF n] show ?thesis by (auto simp: lexer_size_def)
  qed
  then show "tk_type t \<noteq> TT_Eof \<Longrightarrow> lexer_size l' < lexer_size l" and "lexer_size l' \<le> lexer_size l" by auto
qed

function fetch :: "Parser \<Rightarrow> Token \<times> Parser" where
  "fetch p =
     (let (token, l) = lx_next (pa_lexer p); p = p\<lparr> pa_lexer := l \<rparr> in
      if tk_type token = TT_Error
      then fetch (p\<lparr> pa_engine := report_error EC_LexicalError (tk_location token) (tk_str token) (pa_engine p),
             pa_failed := True \<rparr>)
      else (token, p))"
  by auto

termination fetch
  by (relation "measure (\<lambda>p. lexer_size (pa_lexer p))") (auto dest: lx_next_shortens(1) [OF sym])

declare fetch.simps [simp del]

fun fill :: "nat \<Rightarrow> Parser \<Rightarrow> Parser" where
  "fill 0 p = p"
| "fill (Suc n) p = (let (token, p) = fetch p in fill n (p\<lparr> pa_buffer := pa_buffer p @ [token] \<rparr>))"

definition peek_at :: "nat \<Rightarrow> Parser \<Rightarrow> Token \<times> Parser" where
  "peek_at ahead p = (let p = fill (ahead + 1 - length (pa_buffer p)) p in (pa_buffer p ! ahead, p))"

abbreviation peek :: "Parser \<Rightarrow> Token \<times> Parser" where
  "peek \<equiv> peek_at 0"

definition take_token :: "Parser \<Rightarrow> Token \<times> Parser" where
  "take_token p = (let (token, p) = peek p in (token, p\<lparr> pa_buffer := tl (pa_buffer p) \<rparr>))"

definition match :: "TokenType \<Rightarrow> Parser \<Rightarrow> bool \<times> Parser" where
  "match type p =
     (let (token, p) = peek p in if tk_type token = type then (True, snd (take_token p)) else (False, p))"

definition parser_error :: "Token \<Rightarrow> ErrorCode \<Rightarrow> string \<Rightarrow> Parser \<Rightarrow> Parser" where
  "parser_error token code message p =
     p\<lparr> pa_engine := report_error code (tk_location token) message (pa_engine p), pa_failed := True \<rparr>"

definition expect :: "TokenType \<Rightarrow> string \<Rightarrow> Parser \<Rightarrow> Token option \<times> Parser" where
  "expect type what p =
     (let (token, p) = peek p in
      if tk_type token = type then (let (token, p) = take_token p in (Some token, p))
      else (None, parser_error token EC_ParseError
              (''expected '' @ what @ '', found '' @ tokenTypeName (tk_type token)) p))"

definition ends_line :: "Token \<Rightarrow> bool" where
  "ends_line token \<longleftrightarrow> tk_type token = TT_Newline \<or> tk_type token = TT_Eof"

text \<open>The tokens left, as a measure.\<close>

definition parser_size :: "Parser \<Rightarrow> nat" where
  "parser_size p = lexer_size (pa_lexer p) + length (filter (\<lambda>t. tk_type t \<noteq> TT_Eof) (pa_buffer p))"

lemma fetch_size:
  assumes "fetch p = (t, p')"
  shows "lexer_size (pa_lexer p') + (if tk_type t = TT_Eof then 0 else 1) \<le> lexer_size (pa_lexer p) \<and>
    pa_buffer p' = pa_buffer p"
  using assms
proof (induction p arbitrary: t p' rule: fetch.induct)
  case (1 p)
  obtain u l where n: "lx_next (pa_lexer p) = (u, l)" by fastforce
  note sh = lx_next_shortens [OF n]
  show ?case
  proof (cases "tk_type u = TT_Error")
    case True
    with "1.IH" [OF n [symmetric] refl refl True] "1.prems" sh n show ?thesis
      by (fastforce simp: fetch.simps [of p] Let_def)
  next
    case False
    with "1.prems" sh n show ?thesis by (auto simp: fetch.simps [of p] Let_def)
  qed
qed

lemma fill_size: "parser_size (fill n p) \<le> parser_size p \<and> length (pa_buffer (fill n p)) = length (pa_buffer p) + n"
proof (induction n arbitrary: p)
  case (Suc n)
  obtain t p' where f: "fetch p = (t, p')" by fastforce
  from fetch_size [OF f] Suc.IH [of "p'\<lparr> pa_buffer := pa_buffer p' @ [t] \<rparr>"] show ?case
    by (simp add: f parser_size_def split: if_splits)
qed simp

lemma peek_size:
  assumes "peek_at ahead p = (t, p')"
  shows "parser_size p' \<le> parser_size p \<and> ahead < length (pa_buffer p') \<and> t = pa_buffer p' ! ahead"
  using assms fill_size [of "ahead + 1 - length (pa_buffer p)" p] by (auto simp: peek_at_def Let_def)

lemma take_token_size:
  assumes "take_token p = (t, p')"
  shows "parser_size p' + (if tk_type t = TT_Eof then 0 else 1) \<le> parser_size p"
proof -
  obtain u q where q: "peek p = (u, q)" by fastforce
  with assms have "t = u" "p' = q\<lparr> pa_buffer := tl (pa_buffer q) \<rparr>" by (auto simp: take_token_def)
  with peek_size [OF q] show ?thesis by (cases "pa_buffer q") (auto simp: parser_size_def)
qed

text \<open>A filled buffer answers again.\<close>

lemma peek_again: "peek_at ahead p = (t, p') \<Longrightarrow> peek_at ahead p' = (t, p')"
  using peek_size [of ahead p t p'] by (auto simp: peek_at_def Let_def)

lemma take_token_peeked: "peek p = (t, p') \<Longrightarrow> take_token p' = (t, p'\<lparr> pa_buffer := tl (pa_buffer p') \<rparr>)"
  using peek_again [of 0 p t p'] by (simp add: take_token_def)

lemma peeked_take_size:
  assumes "peek p = (t, p')" and "tk_type t \<noteq> TT_Eof"
  shows "parser_size (snd (take_token p')) < parser_size p"
  using take_token_size [OF take_token_peeked [OF assms(1)]] peek_size [OF assms(1)] assms take_token_peeked [OF assms(1)] by auto

function skip_line :: "Parser \<Rightarrow> Parser" where
  "skip_line p = (let (token, p) = peek p in if ends_line token then p else skip_line (snd (take_token p)))"
  by auto

termination skip_line
  by (relation "measure parser_size") (auto simp: ends_line_def intro: peeked_take_size sym)

declare skip_line.simps [simp del]

definition skipToEndOfLine :: "Parser \<Rightarrow> Parser" where
  "skipToEndOfLine p = snd (match TT_Newline (skip_line p))"

subsection \<open>Operands\<close>

definition span_length :: "SourceLocation \<Rightarrow> SourceLocation \<Rightarrow> u32" where
  "span_length opening closing = (loc_column closing + loc_length closing) - loc_column opening"

definition join_lengths :: "SourceLocation \<Rightarrow> SourceLocation \<Rightarrow> SourceLocation" where
  "join_lengths dot name = dot\<lparr> loc_length := loc_length dot + loc_length name \<rparr>"

definition negated :: "bool \<Rightarrow> i64 \<Rightarrow> i64" where
  "negated negate v = (if negate then NOT v + 1 else v)"

definition parseSymbolExpression :: "string \<Rightarrow> SourceLocation \<Rightarrow> Parser \<Rightarrow> Operand option \<times> Parser" where
  "parseSymbolExpression name location p =
     (let operand = blank_operand\<lparr> op_type := OT_Symbol, op_symbol := name, op_location := location \<rparr>;
          (token, p) = peek p in
      if tk_type token = TT_Plus \<or> tk_type token = TT_Minus
      then let p = snd (take_token p); (addend, p) = expect TT_Integer ''an integer addend'' p in
        case addend of
          None \<Rightarrow> (None, p)
        | Some addend \<Rightarrow> (Some (operand\<lparr> op_immediate := negated (tk_type token = TT_Minus) (tk_int addend),
            op_location := location\<lparr> loc_length := span_length location (tk_location addend) \<rparr> \<rparr>), p)
      else (Some operand, p))"

definition register_of :: "string \<Rightarrow> Reg" where
  "register_of name = (case parseRegister name of None \<Rightarrow> 0 | Some r \<Rightarrow> r)"

definition parseMemoryOperand :: "Parser \<Rightarrow> Operand option \<times> Parser" where
  "parseMemoryOperand p =
     (let (bracket, p) = take_token p; operand = blank_operand\<lparr> op_type := OT_Memory, op_location := tk_location bracket \<rparr>;
          (base, p) = expect TT_Register (''a base register inside '' @ quoted ''[...]'') p in
      case base of
        None \<Rightarrow> (None, p)
      | Some base \<Rightarrow>
          let operand = operand\<lparr> op_reg := register_of (tk_text base) \<rparr>;
              (token, p) = peek p;
              (displacement, p) =
                (if tk_type token = TT_Plus \<or> tk_type token = TT_Minus
                 then let p = snd (take_token p); (value, p) = expect TT_Integer ''an integer displacement'' p in
                   (map_option (\<lambda>v. negated (tk_type token = TT_Minus) (tk_int v)) value, p)
                 else if tk_type token = TT_Integer
                 then (None, parser_error token EC_InvalidOperand
                        (''expected '' @ quoted ''+'' @ '' or '' @ quoted ''-'' @ '' before the displacement'') p)
                 else (Some 0, p))
          in case displacement of
               None \<Rightarrow> (None, p)
             | Some v \<Rightarrow>
                 let (close, p) = expect TT_RBracket (quoted '']'' @ '' to close the memory operand'') p in
                 case close of
                   None \<Rightarrow> (None, p)
                 | Some close \<Rightarrow> (Some (operand\<lparr> op_immediate := v,
                     op_location := (tk_location bracket)\<lparr> loc_length := span_length (tk_location bracket) (tk_location close) \<rparr> \<rparr>), p))"

definition parseOperand :: "Parser \<Rightarrow> Operand option \<times> Parser" where
  "parseOperand p =
     (let (token, p) = peek p; operand = blank_operand\<lparr> op_location := tk_location token \<rparr> in
      case tk_type token of
        TT_Register \<Rightarrow>
          (let (reg, p) = take_token p
           in (Some (operand\<lparr> op_type := OT_Register, op_reg := register_of (tk_text reg) \<rparr>), p))
      | TT_Integer \<Rightarrow>
          (let (value, p) = take_token p in (Some (operand\<lparr> op_type := OT_Immediate, op_immediate := tk_int value \<rparr>), p))
      | TT_Character \<Rightarrow>
          (let (value, p) = take_token p in (Some (operand\<lparr> op_type := OT_Immediate, op_immediate := tk_int value \<rparr>), p))
      | TT_String \<Rightarrow>
          (let (value, p) = take_token p in (Some (operand\<lparr> op_type := OT_String, op_text := tk_str value \<rparr>), p))
      | TT_Hash \<Rightarrow>
          (let p = snd (take_token p); (value, p) = expect TT_Integer (''an integer after '' @ quoted ''#'') p in
           (map_option (\<lambda>v. operand\<lparr> op_type := OT_Immediate, op_immediate := tk_int v \<rparr>) value, p))
      | TT_Identifier \<Rightarrow>
          (let (name, p) = take_token p in parseSymbolExpression (tk_text name) (tk_location name) p)
      | TT_Dot \<Rightarrow>
          (let (dot, p) = take_token p; (name, p) = expect TT_Identifier (''a name after '' @ quoted ''.'') p in
           case name of
             None \<Rightarrow> (None, p)
           | Some name \<Rightarrow>
               parseSymbolExpression (''.'' @ tk_text name) (join_lengths (tk_location dot) (tk_location name)) p)
      | TT_LBracket \<Rightarrow> parseMemoryOperand p
      | _ \<Rightarrow> (None, parser_error token EC_InvalidOperand
               (''expected an operand, found '' @ tokenTypeName (tk_type token)) p))"

subsection \<open>No parse function gives tokens back\<close>

named_theorems parser_sizes

lemma parser_error_size [parser_sizes]: "parser_size (parser_error token code message p) = parser_size p"
  by (simp add: parser_size_def parser_error_def)

lemma peek_le [parser_sizes]: "parser_size (snd (peek_at ahead p)) \<le> parser_size p"
  using peek_size [of ahead p] by (cases "peek_at ahead p") auto

lemma take_token_le [parser_sizes]: "parser_size (snd (take_token p)) \<le> parser_size p"
  using take_token_size [of p] by (cases "take_token p") auto

lemma match_le [parser_sizes]: "parser_size (snd (match type p)) \<le> parser_size p"
  using peek_le [of 0 p] take_token_le order_trans
  by (cases "peek p") (fastforce simp: match_def)

lemma expect_le [parser_sizes]: "parser_size (snd (expect type what p)) \<le> parser_size p"
proof -
  obtain t q where q: "peek p = (t, q)" by fastforce
  then have "parser_size q \<le> parser_size p" using peek_le [of 0 p] by simp
  then show ?thesis using take_token_le [of q]
    by (cases "take_token q") (simp add: expect_def q parser_error_size)
qed

lemma parseSymbolExpression_le [parser_sizes]: "parser_size (snd (parseSymbolExpression name location p)) \<le> parser_size p"
proof -
  obtain t q where q: "peek p = (t, q)" by fastforce
  obtain a r where r: "expect TT_Integer ''an integer addend'' (snd (take_token q)) = (a, r)" by fastforce
  have "parser_size q \<le> parser_size p" "parser_size r \<le> parser_size q"
    using peek_le [of 0 p] q take_token_le [of q] expect_le [of TT_Integer "''an integer addend''" "snd (take_token q)"] r by simp_all
  then show ?thesis by (auto simp: parseSymbolExpression_def q r Let_def split: option.split)
qed

lemma displacement_le:
  "parser_size (snd (if tk_type token = TT_Plus \<or> tk_type token = TT_Minus
     then let p = snd (take_token p); (value, p) = expect TT_Integer what p in (map_option f value, p)
     else if b then (None, parser_error token code message p) else (Some x, p))) \<le> parser_size p"
  using take_token_le [of p] expect_le [of TT_Integer what "snd (take_token p)"]
  by (auto simp: Let_def parser_error_size split: prod.split)

lemma parseMemoryOperand_le [parser_sizes]: "parser_size (snd (parseMemoryOperand p)) \<le> parser_size p"
proof -
  obtain o1 p1 where 1: "take_token p = (o1, p1)" by fastforce
  obtain b p2 where 2: "expect TT_Register (''a base register inside '' @ quoted ''[...]'') p1 = (b, p2)" by fastforce
  obtain t p3 where 3: "peek p2 = (t, p3)" by fastforce
  define r where "r = (if tk_type t = TT_Plus \<or> tk_type t = TT_Minus
     then let p = snd (take_token p3); (value, p) = expect TT_Integer ''an integer displacement'' p in
       (map_option (\<lambda>v. negated (tk_type t = TT_Minus) (tk_int v)) value, p)
     else if tk_type t = TT_Integer
     then (None, parser_error t EC_InvalidOperand
            (''expected '' @ quoted ''+'' @ '' or '' @ quoted ''-'' @ '' before the displacement'') p3)
     else (Some 0, p3))"
  obtain d p4 where 4: "r = (d, p4)" by fastforce
  obtain c p5 where 5: "expect TT_RBracket (quoted '']'' @ '' to close the memory operand'') p4 = (c, p5)" by fastforce
  have "parser_size (snd r) \<le> parser_size p3" unfolding r_def by (rule displacement_le)
  then have le: "parser_size p1 \<le> parser_size p" "parser_size p2 \<le> parser_size p1" "parser_size p3 \<le> parser_size p2"
    "parser_size p4 \<le> parser_size p3"
    using take_token_le [of p] expect_le [of TT_Register "''a base register inside '' @ quoted ''[...]''" p1] peek_le [of 0 p2]
    unfolding 1 2 3 4 by simp_all
  have le5: "parser_size p5 \<le> parser_size p4"
    using expect_le [of TT_RBracket "quoted '']'' @ '' to close the memory operand''" p4] unfolding 5 by simp
  have "snd (parseMemoryOperand p) \<in> {p2, p4, p5}"
    unfolding parseMemoryOperand_def Let_def 1 prod.case 2 3 r_def [unfolded Let_def, symmetric] 4 5
    by (auto split: option.split)
  with le le5 show ?thesis by auto
qed

lemma parseOperand_le [parser_sizes]: "parser_size (snd (parseOperand p)) \<le> parser_size p"
proof -
  obtain t p1 where 1: "peek p = (t, p1)" by fastforce
  obtain u p2 where 2: "take_token p1 = (u, p2)" by fastforce
  have le: "parser_size p1 \<le> parser_size p" "parser_size p2 \<le> parser_size p1"
    using peek_le [of 0 p] take_token_le [of p1] 1 2 by simp_all
  obtain v p3 where 3: "expect TT_Integer (''an integer after '' @ quoted ''#'') p2 = (v, p3)" by fastforce
  obtain n p4 where 4: "expect TT_Identifier (''a name after '' @ quoted ''.'') p2 = (n, p4)" by fastforce
  have le3: "parser_size p3 \<le> parser_size p2"
    using expect_le [of TT_Integer "''an integer after '' @ quoted ''#''" p2] unfolding 3 by simp
  have le4: "parser_size p4 \<le> parser_size p2"
    using expect_le [of TT_Identifier "''a name after '' @ quoted ''.''" p2] unfolding 4 by simp
  have "snd (parseOperand p) \<in> {p2, p3, p4, snd (parseMemoryOperand p1)} \<union>
      {snd (parseSymbolExpression name location q) | name location q. q = p2 \<or> q = p4} \<union>
      {parser_error t code message p1 | code message. True}"
    unfolding parseOperand_def Let_def 1 prod.case 2 snd_conv 3 4
    by (cases "tk_type t") (auto split: option.split)
  then show ?thesis using le le3 le4 parseMemoryOperand_le [of p1] parseSymbolExpression_le [of _ _ p2]
      parseSymbolExpression_le [of _ _ p4] parser_error_size by (fastforce intro: order_trans)
qed

subsection \<open>Lines\<close>

lemma match_shrinks:
  assumes "match type p = (True, q)" and "type \<noteq> TT_Eof"
  shows "parser_size q < parser_size p"
proof -
  obtain t r where r: "peek p = (t, r)" by fastforce
  with assms have "tk_type t \<noteq> TT_Eof" "q = snd (take_token r)" by (auto simp: match_def split: if_splits)
  with peeked_take_size [OF r] show ?thesis by simp
qed

function parse_operands :: "Operand list \<Rightarrow> Parser \<Rightarrow> Operand list option \<times> Parser" where
  "parse_operands operands p =
     (let (token, p) = peek p in
      if ends_line token then (Some operands, p)
      else let (operand, p) = parseOperand p in
        case operand of
          None \<Rightarrow> (None, p)
        | Some operand \<Rightarrow>
            let operands = operands @ [operand]; (comma, p) = match TT_Comma p in
            if \<not> comma then (Some operands, p)
            else let (token, p) = peek p in
              if ends_line token
              then (None, parser_error token EC_InvalidOperand (''expected an operand after '' @ quoted '','') p)
              else parse_operands operands p)"
  by auto

termination parse_operands
proof (relation "measure (\<lambda>(_, p). parser_size p)")
  fix operands operands' :: "Operand list" and p x t q y opd r opnd z comma u w v a
  assume "x = peek p" "(t, q) = x" "y = parseOperand q" "(opd, r) = y" "z = match TT_Comma r" "(comma, u) = z" "\<not> \<not> comma"
    "w = peek u" "(v, a) = w"
  then have "peek p = (t, q)" "parseOperand q = (opd, r)" "match TT_Comma r = (True, u)" "peek u = (v, a)" by simp_all
  then have "parser_size q \<le> parser_size p" "parser_size r \<le> parser_size q" "parser_size u < parser_size r" "parser_size a \<le> parser_size u"
    using peek_le [of 0 p] parseOperand_le [of q] match_shrinks [of TT_Comma r u] peek_le [of 0 u] by simp_all
  then show "((operands', a), operands, p) \<in> measure (\<lambda>(_, p). parser_size p)" by simp
qed simp

declare parse_operands.simps [simp del]

definition parseInstruction :: "Parser \<Rightarrow> InstructionNode option \<times> Parser" where
  "parseInstruction p =
     (let (mnemonic, p) = take_token p; (operands, p) = parse_operands [] p in
      (map_option (\<lambda>operands. \<lparr> in_mnemonic = tk_text mnemonic, in_operands = operands,
         in_location = tk_location mnemonic \<rparr>) operands, p))"

definition parseDirective :: "Parser \<Rightarrow> DirectiveNode option \<times> Parser" where
  "parseDirective p =
     (let (dot, p) = take_token p; (name, p) = expect TT_Identifier ''a directive name'' p in
      case name of
        None \<Rightarrow> (None, p)
      | Some name \<Rightarrow>
          (case findDirective (tk_text name) of
             None \<Rightarrow> (None, parser_error name EC_InvalidDirective (''unknown directive '' @ quoted (''.'' @ tk_text name)) p)
           | Some entry \<Rightarrow>
               let location = join_lengths (tk_location dot) (tk_location name) in
               if ds_implicit_section entry \<noteq> []
               then (Some \<lparr> dn_type = ds_type entry, dn_operands = [blank_operand\<lparr> op_type := OT_Symbol,
                       op_symbol := ds_implicit_section entry, op_location := location \<rparr>], dn_location = location \<rparr>, p)
               else let (operands, p) = parse_operands [] p in
                 (map_option (\<lambda>operands. \<lparr> dn_type = ds_type entry, dn_operands = operands, dn_location = location \<rparr>)
                    operands, p)))"

definition is_plain_label :: "Parser \<Rightarrow> bool \<times> Parser" where
  "is_plain_label p =
     (let (token, p) = peek p in
      if tk_type token = TT_Identifier then let (token, p) = peek_at 1 p in (tk_type token = TT_Colon, p) else (False, p))"

definition is_local_label :: "Parser \<Rightarrow> bool \<times> Parser" where
  "is_local_label p =
     (let (token, p) = peek p in
      if tk_type token = TT_Dot
      then let (token, p) = peek_at 1 p in
        if tk_type token = TT_Identifier then let (token, p) = peek_at 2 p in (tk_type token = TT_Colon, p) else (False, p)
      else (False, p))"

text \<open>A parser whose first token is in the buffer.\<close>

definition headed :: "Token \<Rightarrow> Parser \<Rightarrow> bool" where
  "headed t p \<longleftrightarrow> pa_buffer p \<noteq> [] \<and> hd (pa_buffer p) = t"

lemma headed_peek: "headed t p \<Longrightarrow> peek p = (t, p)"
  by (cases "pa_buffer p") (auto simp: headed_def peek_at_def)

lemma peek_headed: "peek p = (t, q) \<Longrightarrow> headed t q"
  using peek_size [of 0 p t q] by (cases "pa_buffer q") (auto simp: headed_def)

lemma fetch_buffer [simp]: "pa_buffer (snd (fetch p)) = pa_buffer p"
  using fetch_size [of p] by (cases "fetch p") auto

lemma fill_prefix: "\<exists>more. pa_buffer (fill n p) = pa_buffer p @ more"
proof (induction n arbitrary: p)
  case (Suc n)
  obtain t q where f: "fetch p = (t, q)" by fastforce
  with fetch_buffer [of p] have "pa_buffer q = pa_buffer p" by simp
  with Suc.IH [of "q\<lparr> pa_buffer := pa_buffer q @ [t] \<rparr>"] f show ?case by auto
qed simp

lemma headed_peek_at: "headed t p \<Longrightarrow> headed t (snd (peek_at k p))"
  using fill_prefix [of "k + 1 - length (pa_buffer p)" p] by (auto simp: headed_def peek_at_def Let_def)

lemma headed_take_size: "headed t p \<Longrightarrow> tk_type t \<noteq> TT_Eof \<Longrightarrow> parser_size (snd (take_token p)) < parser_size p"
  using peeked_take_size [OF headed_peek] by blast

lemma is_plain_label_size: "parser_size (snd (is_plain_label p)) \<le> parser_size p"
  using peek_le [of 0 p] peek_le [of 1 "snd (peek p)"]
  by (auto simp: is_plain_label_def split: prod.split)

lemma is_local_label_size: "parser_size (snd (is_local_label p)) \<le> parser_size p"
proof -
  obtain t q where q: "peek p = (t, q)" by fastforce
  obtain u r where r: "peek_at (Suc 0) q = (u, r)" by fastforce
  obtain v s where s: "peek_at 2 r = (v, s)" by fastforce
  show ?thesis using peek_le [of 0 p] peek_le [of "Suc 0" q] peek_le [of 2 r]
    by (auto simp: is_local_label_def q r s)
qed

lemma is_plain_label_headed:
  shows "headed t p \<Longrightarrow> headed t (snd (is_plain_label p))"
    and "is_plain_label p = (True, q) \<Longrightarrow> \<exists>t. headed t q \<and> tk_type t = TT_Identifier"
proof -
  show "headed t (snd (is_plain_label p))" if "headed t p"
    using headed_peek [OF that] headed_peek_at [OF that, of "Suc 0"] by (auto simp: is_plain_label_def Let_def that split: prod.split)
  assume p: "is_plain_label p = (True, q)"
  obtain t r where r: "peek p = (t, r)" by fastforce
  with p have "tk_type t = TT_Identifier" "q = snd (peek_at 1 r)"
    by (auto simp: is_plain_label_def split: if_splits prod.splits)
  with headed_peek_at [OF peek_headed [OF r]] show "\<exists>t. headed t q \<and> tk_type t = TT_Identifier" by blast
qed

lemma is_local_label_headed:
  shows "headed t p \<Longrightarrow> headed t (snd (is_local_label p))"
    and "is_local_label p = (True, q) \<Longrightarrow> \<exists>t. headed t q \<and> tk_type t = TT_Dot"
proof -
  obtain t0 r where r: "peek p = (t0, r)" by fastforce
  obtain u s where s: "peek_at (Suc 0) r = (u, s)" by fastforce
  obtain v w where w: "peek_at 2 s = (v, w)" by fastforce
  have h: "headed t0 r" "headed t0 s" "headed t0 w"
    using peek_headed [OF r] headed_peek_at [of t0 r "Suc 0"] headed_peek_at [of t0 s 2] s w by auto
  show "headed t (snd (is_local_label p))" if "headed t p"
  proof -
    have "t0 = t" using headed_peek [OF that] r by simp
    with h show ?thesis by (simp add: is_local_label_def r s w)
  qed
  show "is_local_label p = (True, q) \<Longrightarrow> \<exists>t. headed t q \<and> tk_type t = TT_Dot"
    using h by (auto simp: is_local_label_def r s w split: if_splits)
qed

function parse_labels :: "Parser \<Rightarrow> Program \<Rightarrow> Program \<times> Parser" where
  "parse_labels p out =
     (let (plain_label, p) = is_plain_label p; (local_label, p) = is_local_label p in
      if \<not> plain_label \<and> \<not> local_label then (out, p)
      else if local_label
      then let (dot, p) = take_token p; (name, p) = take_token p;
               label = \<lparr> ln_name = ''.'' @ tk_text name, ln_local = True,
                 ln_location = join_lengths (tk_location dot) (tk_location name) \<rparr>
        in parse_labels (snd (take_token p)) (out @ [St_Label label])
      else let (name, p) = take_token p;
               label = \<lparr> ln_name = tk_text name, ln_local = False, ln_location = tk_location name \<rparr>
        in parse_labels (snd (take_token p)) (out @ [St_Label label]))"
  by auto

text \<open>The colon goes too, so a label shortens the input even when the rest does not.\<close>

lemma label_sizes:
  assumes "is_plain_label p = (plain_label, q)" and "is_local_label q = (local_label, r)"
    and "plain_label \<or> local_label" and "take_token r = (t, s)"
  shows "parser_size s < parser_size p"
proof -
  have "parser_size q \<le> parser_size p" "parser_size r \<le> parser_size q"
    using is_plain_label_size [of p] is_local_label_size [of q] assms(1,2) by simp_all
  moreover have "\<exists>u. headed u r \<and> tk_type u \<noteq> TT_Eof"
  proof (cases local_label)
    case True
    then show ?thesis using is_local_label_headed(2) [of q r] assms(2) by auto
  next
    case False
    then obtain u where "headed u q" "tk_type u = TT_Identifier"
      using is_plain_label_headed(2) [of p q] assms(1,3) by auto
    with is_local_label_headed(1) [of u q] assms(2) show ?thesis by auto
  qed
  then have "parser_size s < parser_size r" using headed_take_size [of _ r] assms(4) by auto
  ultimately show ?thesis by simp
qed

termination parse_labels
proof (relation "measure (\<lambda>(p, _). parser_size p)")
  fix p out x a q y b r z t s w u v label
  assume "x = is_plain_label p" "(a, q) = x" "y = is_local_label q" "(b, r) = y" "\<not> (\<not> a \<and> \<not> b)" "z = take_token r" "(t, s) = z"
    "w = take_token s" "(u, v) = w"
  then have "is_plain_label p = (a, q)" "is_local_label q = (b, r)" "a \<or> b" "take_token r = (t, s)" "take_token s = (u, v)" by auto
  with label_sizes [of p a q b r t s] take_token_le [of s] take_token_le [of v]
  show "((snd (take_token v), out @ [St_Label label]), p, out) \<in> measure (\<lambda>(p, _). parser_size p)" by simp
next
  fix p out x a q y b r z t s label
  assume "x = is_plain_label p" "(a, q) = x" "y = is_local_label q" "(b, r) = y" "\<not> (\<not> a \<and> \<not> b)" "z = take_token r" "(t, s) = z"
  then have "is_plain_label p = (a, q)" "is_local_label q = (b, r)" "a \<or> b" "take_token r = (t, s)" by auto
  with label_sizes [of p a q b r t s] take_token_le [of s]
  show "((snd (take_token s), out @ [St_Label label]), p, out) \<in> measure (\<lambda>(p, _). parser_size p)" by simp
qed simp

declare parse_labels.simps [simp del]

definition finish_line :: "Parser \<Rightarrow> bool \<times> Parser" where
  "finish_line p =
     (let (token, p) = peek p in
      if \<not> ends_line token
      then (False, parser_error token EC_ParseError
              (''unexpected '' @ tokenTypeName (tk_type token) @ '' after end of statement'') p)
      else (True, snd (match TT_Newline p)))"

definition parseLine :: "Parser \<Rightarrow> Program \<Rightarrow> bool \<times> Program \<times> Parser" where
  "parseLine p out =
     (let (out, p) = parse_labels p out; (token, p) = peek p in
      if ends_line token then (True, out, snd (match TT_Newline p))
      else if tk_type token = TT_Dot
      then let (directive, p) = parseDirective p in
        case directive of
          None \<Rightarrow> (False, out, p)
        | Some directive \<Rightarrow> let (ok, p) = finish_line p in (ok, out @ [St_Directive directive], p)
      else if tk_type token = TT_Identifier
      then let (instruction, p) = parseInstruction p in
        case instruction of
          None \<Rightarrow> (False, out, p)
        | Some instruction \<Rightarrow> let (ok, p) = finish_line p in (ok, out @ [St_Instruction instruction], p)
      else (False, out, parser_error token EC_ParseError
              (''expected a label, instruction or directive, found '' @ tokenTypeName (tk_type token)) p))"

subsection \<open>Every line consumes input\<close>

lemma parse_operands_le [parser_sizes]: "parser_size (snd (parse_operands operands p)) \<le> parser_size p"
proof (induction operands p rule: parse_operands.induct)
  case (1 operands p)
  obtain t q where q: "peek p = (t, q)" by fastforce
  have le: "parser_size q \<le> parser_size p" using peek_le [of 0 p] q by simp
  show ?case
  proof (cases "ends_line t")
    case True
    then show ?thesis using le q by (simp add: parse_operands.simps [of operands p])
  next
    case False
    obtain opd r where r: "parseOperand q = (opd, r)" by fastforce
    have le1: "parser_size r \<le> parser_size q" using parseOperand_le [of q] r by simp
    show ?thesis
    proof (cases opd)
      case None
      then show ?thesis using le le1 q r False by (simp add: parse_operands.simps [of operands p])
    next
      case (Some opnd)
      obtain comma u where u: "match TT_Comma r = (comma, u)" by fastforce
      obtain v a where v: "peek u = (v, a)" by fastforce
      have le2: "parser_size u \<le> parser_size r" "parser_size a \<le> parser_size u"
        using match_le [of TT_Comma r] u peek_le [of 0 u] v by simp_all
      show ?thesis
      proof (cases "comma \<and> \<not> ends_line v")
        case True
        have "parser_size (snd (parse_operands (operands @ [opnd]) a)) \<le> parser_size a"
          by (rule "1.IH" [OF refl q [symmetric] False refl r [symmetric] Some refl refl u [symmetric] _ refl v [symmetric]])
            (use True in auto)
        with le le1 le2 True show ?thesis by (simp add: parse_operands.simps [of operands p] q False r Some u v)
      next
        case no: False
        then show ?thesis using le le1 le2
          by (auto simp: parse_operands.simps [of operands p] q False r Some u v parser_error_size Let_def)
      qed
    qed
  qed
qed

lemma parseInstruction_size:
  "parser_size (snd (parseInstruction p)) \<le> parser_size (snd (take_token p))"
proof -
  obtain t q where q: "take_token p = (t, q)" by fastforce
  then show ?thesis using parse_operands_le [of "[]" q]
    by (cases "parse_operands [] q") (simp add: parseInstruction_def)
qed

lemma parseDirective_size:
  "parser_size (snd (parseDirective p)) \<le> parser_size (snd (take_token p))"
proof -
  obtain t q where q: "take_token p = (t, q)" by fastforce
  obtain n r where r: "expect TT_Identifier ''a directive name'' q = (n, r)" by fastforce
  have "parser_size r \<le> parser_size q" using expect_le [of TT_Identifier "''a directive name''" q] r by simp
  then show ?thesis using parse_operands_le [of "[]" r]
    by (auto simp: parseDirective_def q r Let_def parser_error_size split: option.split prod.split intro: order_trans)
qed

lemma finish_line_le [parser_sizes]: "parser_size (snd (finish_line p)) \<le> parser_size p"
  using peek_le [of 0 p] match_le [of TT_Newline "snd (peek p)"]
  by (auto simp: finish_line_def parser_error_size split: prod.split)

lemma skip_line_le: "parser_size (skip_line p) \<le> parser_size p"
proof (induction p rule: skip_line.induct)
  case (1 p)
  obtain t q where q: "peek p = (t, q)" by fastforce
  with "1.IH" [OF refl q [symmetric]] peek_le [of 0 p] take_token_le [of q] show ?case
    by (auto simp: skip_line.simps [of p])
qed

lemma skipToEndOfLine_le [parser_sizes]: "parser_size (skipToEndOfLine p) \<le> parser_size p"
  using match_le [of TT_Newline "skip_line p"] skip_line_le [of p] by (simp add: skipToEndOfLine_def)

lemma skipToEndOfLine_shrinks:
  assumes "headed t p" and "\<not> ends_line t"
  shows "parser_size (skipToEndOfLine p) < parser_size p"
proof -
  have "skip_line p = skip_line (snd (take_token p))" using assms(2) headed_peek [OF assms(1)] by (simp add: skip_line.simps [of p])
  then have "parser_size (skip_line p) < parser_size p"
    using skip_line_le [of "snd (take_token p)"] headed_take_size [OF assms(1)] assms(2) by (simp add: ends_line_def)
  then show ?thesis using match_le [of TT_Newline "skip_line p"] by (simp add: skipToEndOfLine_def)
qed

text \<open>The labels leave the first token in the buffer, or consume.\<close>

lemma parse_labels_shrinks:
  assumes "headed t p"
  shows "headed t (snd (parse_labels p out)) \<and> parser_size (snd (parse_labels p out)) \<le> parser_size p \<or>
    parser_size (snd (parse_labels p out)) < parser_size p"
proof -
  have le: "parser_size (snd (parse_labels p out)) \<le> parser_size p" for p out
  proof (induction p out rule: parse_labels.induct)
    case (1 p out)
    obtain a q where q: "is_plain_label p = (a, q)" by fastforce
    obtain b r where r: "is_local_label q = (b, r)" by fastforce
    obtain t s where s: "take_token r = (t, s)" by fastforce
    obtain u v where v: "take_token s = (u, v)" by fastforce
    have le: "parser_size q \<le> parser_size p" "parser_size r \<le> parser_size q" "parser_size s \<le> parser_size r"
      "parser_size v \<le> parser_size s" "parser_size (snd (take_token s)) \<le> parser_size s" "parser_size (snd (take_token v)) \<le> parser_size v"
      using is_plain_label_size [of p] is_local_label_size [of q] take_token_le [of r] take_token_le [of s] take_token_le [of v] q r s v
      by simp_all
    show ?case
    proof (cases "a \<or> b")
      case False
      then show ?thesis using le by (simp add: parse_labels.simps [of p out] q r)
    next
      case True
      then have c: "\<not> (\<not> a \<and> \<not> b)" by blast
      note IH = "1.IH"(1) [OF q [symmetric] refl r [symmetric] refl c _ s [symmetric] refl v [symmetric] refl refl]
        "1.IH"(2) [OF q [symmetric] refl r [symmetric] refl c _ s [symmetric] refl refl]
      show ?thesis
      proof (cases b)
        case True
        with IH(1) le q r s v show ?thesis by (simp add: parse_labels.simps [of p out] Let_def)
      next
        case False
        with IH(2) \<open>a \<or> b\<close> le q r s v show ?thesis by (simp add: parse_labels.simps [of p out] Let_def)
      qed
    qed
  qed
  obtain a q where q: "is_plain_label p = (a, q)" by fastforce
  obtain b r where r: "is_local_label q = (b, r)" by fastforce
  have h: "headed t r" using is_plain_label_headed(1) [OF assms] is_local_label_headed(1) [of t q] q r by simp
  have ler: "parser_size r \<le> parser_size p" using is_plain_label_size [of p] is_local_label_size [of q] q r by simp
  show ?thesis
  proof (cases "a \<or> b")
    case False
    with h ler show ?thesis by (simp add: parse_labels.simps [of p out] q r)
  next
    case True
    obtain u s where s: "take_token r = (u, s)" by fastforce
    obtain w v where v: "take_token s = (w, v)" by fastforce
    have lt: "parser_size s < parser_size p" by (rule label_sizes [OF q r True s])
    have "parser_size v \<le> parser_size s" "parser_size (snd (take_token s)) \<le> parser_size s" "parser_size (snd (take_token v)) \<le> parser_size v"
      using take_token_le [of s] take_token_le [of v] v by simp_all
    moreover have "\<exists>x out'. (x = snd (take_token v) \<or> x = snd (take_token s)) \<and> parse_labels p out = parse_labels x out'"
      using True by (cases b) (auto simp: parse_labels.simps [of p out] q r s v Let_def)
    ultimately show ?thesis using lt le by (metis le_less_trans order_trans)
  qed
qed

lemma parseLine_shrinks:
  assumes "headed t p" and "\<not> ends_line t" and "parseLine p out = (ok, out', q)"
  shows "parser_size (if ok then q else skipToEndOfLine q) < parser_size p"
proof -
  obtain out1 p1 where l: "parse_labels p out = (out1, p1)" by fastforce
  obtain u p2 where u: "peek p1 = (u, p2)" by fastforce
  have le: "parser_size p2 \<le> parser_size p1" "headed u p2" using peek_le [of 0 p1] peek_headed [OF u] u by simp_all
  have lab: "headed t p1 \<and> parser_size p1 \<le> parser_size p \<or> parser_size p1 < parser_size p"
    using parse_labels_shrinks [OF assms(1), of out] l by simp
  have same: "headed t p1 \<Longrightarrow> u = t" using headed_peek u by fastforce
  have skip: "parser_size (if ok then x else skipToEndOfLine x) \<le> parser_size x" for x
    using skipToEndOfLine_le [of x] by simp
  have adv: "tk_type u \<noteq> TT_Eof \<Longrightarrow> parser_size (snd (take_token p2)) < parser_size p2" by (rule headed_take_size [OF le(2)])
  consider (ends) "ends_line u" | (dot) "\<not> ends_line u" "tk_type u = TT_Dot" | (ident) "\<not> ends_line u" "tk_type u = TT_Identifier"
    | (other) "\<not> ends_line u" "tk_type u \<noteq> TT_Dot" "tk_type u \<noteq> TT_Identifier" by blast
  then have "parser_size (if ok then q else skipToEndOfLine q) \<le> parser_size p2 \<and>
      (\<not> ends_line u \<longrightarrow> parser_size (if ok then q else skipToEndOfLine q) < parser_size p2)"
  proof cases
    case ends
    then have "q = snd (match TT_Newline p2)" using assms(3) by (simp add: parseLine_def l u)
    with ends match_le [of TT_Newline p2] skip [of q] show ?thesis by simp
  next
    case dot
    obtain d r where d: "parseDirective p2 = (d, r)" by fastforce
    have "parser_size r < parser_size p2" using parseDirective_size [of p2] d adv dot by simp
    moreover have "q = r \<or> q = snd (finish_line r)"
      using assms(3) dot by (auto simp: parseLine_def l u d split: option.splits prod.splits)
    ultimately show ?thesis using finish_line_le [of r] skip [of q] by auto
  next
    case ident
    obtain d r where d: "parseInstruction p2 = (d, r)" by fastforce
    have "parser_size r < parser_size p2" using parseInstruction_size [of p2] d adv ident by simp
    moreover have "q = r \<or> q = snd (finish_line r)"
      using assms(3) ident by (auto simp: parseLine_def l u d split: option.splits prod.splits)
    ultimately show ?thesis using finish_line_le [of r] skip [of q] by auto
  next
    case other
    then have "\<not> ok" "\<exists>code message. q = parser_error u code message p2"
      using assms(3) by (auto simp: parseLine_def l u)
    then have "headed u q" "parser_size q = parser_size p2" using le(2) by (auto simp: headed_def parser_error_size) (simp_all add: parser_error_def)
    with skipToEndOfLine_shrinks [of u q] other \<open>\<not> ok\<close> show ?thesis by simp
  qed
  with lab same le assms(2) show ?thesis by auto
qed

function parse_lines :: "Program \<Rightarrow> Parser \<Rightarrow> Program \<times> Parser" where
  "parse_lines out p =
     (let (token, p) = peek p in
      if tk_type token = TT_Eof then (out, p)
      else let (newline, p) = match TT_Newline p in
        if newline then parse_lines out p
        else let (ok, out, p) = parseLine p out in parse_lines out (if ok then p else skipToEndOfLine p))"
  by auto

termination parse_lines
proof (relation "measure (\<lambda>(_, p). parser_size p)")
  fix out p x t q y m r
  assume "x = peek p" "(t, q) = x" "tk_type t \<noteq> TT_Eof" "y = match TT_Newline q" "(m, r) = y" "m"
  then have "peek p = (t, q)" "match TT_Newline q = (True, r)" by simp_all
  with match_shrinks [of TT_Newline q r] peek_le [of 0 p]
  show "((out, r), out, p) \<in> measure (\<lambda>(_, p). parser_size p)" by simp
next
  fix out p x t q y m r z ok w out' s
  assume a: "x = peek p" "(t, q) = x" "tk_type t \<noteq> TT_Eof" "y = match TT_Newline q" "(m, r) = y" "\<not> m"
    "z = parseLine r out" "(ok, w) = z" "(out', s) = w"
  then have p: "peek p = (t, q)" "match TT_Newline q = (False, r)" "parseLine r out = (ok, out', s)" by simp_all
  then have h: "headed t q" using peek_headed by blast
  then have "r = q" "tk_type t \<noteq> TT_Newline" using p(2) by (auto simp: match_def headed_peek split: if_splits)
  with parseLine_shrinks [of t q out ok out' s] h p a(3) peek_le [of 0 p]
  show "((out', if ok then s else skipToEndOfLine s), out, p) \<in> measure (\<lambda>(_, p). parser_size p)"
    by (simp add: ends_line_def split: if_splits)
qed simp

declare parse_lines.simps [simp del]

definition parse :: "Parser \<Rightarrow> (string, Program) expected \<times> Parser" where
  "parse p =
     (let (out, p) = parse_lines [] p in
      (if pa_failed p \<or> hasErrors (pa_engine p)
       then Inl (nat_str (de_error_count (pa_engine p)) @ '' parse error(s)'') else Inr out, p))"

end
