(* ===== verification/Checksum.thy ===== *)
theory Checksum
  imports Byte_Order
begin

text \<open>
  src/common/checksum.cpp: the table driven CRC-32 of the .mobj and .mexe headers.  Below the
  definitions the table is compared with the bit-serial shift register it abbreviates, and the
  register is shown to be injective, which is what makes the header check detect every
  corruption confined to four consecutive bytes.
\<close>

definition crc_bit :: "u32 \<Rightarrow> u32" where
  "crc_bit value = (if value AND 1 \<noteq> 0 then 0xEDB88320 XOR drop_bit 1 value else drop_bit 1 value)"

definition makeTable :: "u32 list" where
  "makeTable = map (\<lambda>i. (crc_bit ^^ 8) (of_nat i)) [0..<256]"

definition crc_step :: "u32 \<Rightarrow> u8 \<Rightarrow> u32" where
  "crc_step state byte = makeTable ! unat ((state XOR ucast byte) AND 0xFF) XOR drop_bit 8 state"

definition crc32 :: "u8 list \<Rightarrow> u32" where
  "crc32 data = fold (\<lambda>byte state. crc_step state byte) data 0xFFFFFFFF XOR 0xFFFFFFFF"

subsection \<open>The shift register\<close>

definition crc_step_ref :: "u32 \<Rightarrow> u8 \<Rightarrow> u32" where
  "crc_step_ref state byte = (crc_bit ^^ 8) (state XOR ucast byte)"

definition crc32_ref :: "u8 list \<Rightarrow> u32" where
  "crc32_ref data = NOT (fold (\<lambda>byte state. crc_step_ref state byte) data (NOT 0))"

lemma crc_bit_alt: "crc_bit v = (if bit v 0 then 0xEDB88320 else 0) XOR drop_bit 1 v"
  by (simp add: crc_bit_def and_one_eq bit_0 odd_iff_mod_2_eq_one)

lemma crc_bit_xor: "crc_bit (a XOR b) = crc_bit a XOR crc_bit b"
  by (auto simp: crc_bit_alt drop_bit_xor bit_xor_iff ac_simps)

lemma crc_bits_xor: "(crc_bit ^^ n) (a XOR b) = (crc_bit ^^ n) a XOR (crc_bit ^^ n) b"
  by (induction n) (simp_all add: crc_bit_xor)

lemma crc_bits_clear:
  "take_bit n v = 0 \<Longrightarrow> n \<le> 32 \<Longrightarrow> (crc_bit ^^ n) v = drop_bit n v"
proof (induction n arbitrary: v)
  case 0
  then show ?case by simp
next
  case (Suc n)
  have b: "\<not> bit v k" if "k \<le> n" for k
    using arg_cong [OF Suc.prems(1), of "\<lambda>x. bit x k"] that
    by (simp only: bit_take_bit_iff) simp
  have one: "crc_bit v = drop_bit 1 v"
    using b [of 0] by (simp add: crc_bit_alt)
  have "take_bit n (drop_bit 1 v) = 0"
    by (rule bit_word_eqI) (use b in \<open>auto simp: bit_simps\<close>)
  then have "(crc_bit ^^ n) (drop_bit 1 v) = drop_bit n (drop_bit 1 v)"
    using Suc by simp
  then show ?case by (simp add: funpow_swap1 one)
qed

lemma crc_bit_inj: "crc_bit a = crc_bit b \<Longrightarrow> a = b"
proof -
  assume eq: "crc_bit a = crc_bit b"
  have top: "bit (crc_bit v) 31 \<longleftrightarrow> bit v 0" for v
    by (simp add: crc_bit_alt bit_simps impossible_bit)
  have zero: "bit a 0 = bit b 0" using top [of a] top [of b] eq by simp
  have "drop_bit 1 a = drop_bit 1 b"
    using eq zero xor_cancel_left by (auto simp: crc_bit_alt split: if_splits)
  then have "bit (drop_bit 1 a) n = bit (drop_bit 1 b) n" for n by (rule arg_cong)
  then have rest: "bit a (Suc n) = bit b (Suc n)" for n by (simp add: bit_drop_bit_eq)
  show "a = b"
    by (rule bit_word_eqI) (use zero rest in \<open>metis not0_implies_Suc\<close>)
qed

lemma crc_bits_inj: "(crc_bit ^^ n) a = (crc_bit ^^ n) b \<Longrightarrow> a = b"
  by (induction n) (auto dest: crc_bit_inj)

subsection \<open>The table is the register run eight times\<close>

lemma makeTable_nth: "i < 256 \<Longrightarrow> makeTable ! i = (crc_bit ^^ 8) (of_nat i)"
  unfolding makeTable_def by (subst nth_map) auto

lemma crc_step_eq: "crc_step s b = crc_step_ref s b"
proof -
  let ?x = "s XOR ucast b"
  let ?lo = "take_bit 8 ?x"
  have ff: "(0xFF :: u32) = mask 8" by (simp add: mask_eq_exp_minus_1)
  have lo: "?x AND 0xFF = ?lo" by (simp only: ff take_bit_eq_mask)
  have small: "unat ?lo < 256"
    by (simp only: unsigned_take_bit_eq) (simp add: take_bit_nat_less_exp [of 8, simplified])
  have tab: "makeTable ! unat (?x AND 0xFF) = (crc_bit ^^ 8) ?lo"
    using makeTable_nth [OF small] by (simp add: lo)
  have split: "?x = ?lo XOR (?x AND NOT (mask 8))"
    by (rule bit_word_eqI) (auto simp: bit_simps)
  have hi: "drop_bit 8 s = (crc_bit ^^ 8) (?x AND NOT (mask 8))"
  proof -
    have z: "take_bit 8 (?x AND NOT (mask 8)) = 0"
      by (rule bit_word_eqI) (auto simp: bit_simps)
    have "drop_bit 8 (?x AND NOT (mask 8)) = drop_bit 8 s"
      by (rule bit_word_eqI) (auto simp: bit_simps dest: bit_imp_le_length)
    then show ?thesis using crc_bits_clear [OF z] by simp
  qed
  have "crc_step_ref s b = (crc_bit ^^ 8) (?lo XOR (?x AND NOT (mask 8)))"
    unfolding crc_step_ref_def by (subst split) (rule refl)
  also have "\<dots> = crc_step s b"
    unfolding crc_step_def crc_bits_xor tab hi [symmetric] by (rule refl)
  finally show ?thesis by simp
qed


lemma crc32_eq_ref: "crc32 data = crc32_ref data"
proof -
  have neg: "(0xFFFFFFFF :: u32) = NOT 0" by simp
  have "crc32 data = fold (\<lambda>byte state. crc_step_ref state byte) data (NOT 0) XOR NOT 0"
    by (simp only: crc32_def neg crc_step_eq)
  then show ?thesis by (simp add: crc32_ref_def)
qed

subsection \<open>Four bytes at a time\<close>

text \<open>Four steps of the register absorb the little-endian word made of the four bytes.\<close>

lemma crc_step_ref_shift:
  "crc_step_ref ((crc_bit ^^ n) s) b = (crc_bit ^^ (n + 8)) (s XOR push_bit n (ucast b))"
  if "n + 8 \<le> 32"
proof -
  have "take_bit n (push_bit n (ucast b :: u32)) = 0"
    by (rule bit_word_eqI) (simp add: bit_simps)
  then have "(crc_bit ^^ n) (push_bit n (ucast b)) = drop_bit n (push_bit n (ucast b :: u32))"
    using that by (intro crc_bits_clear) auto
  also have "\<dots> = ucast b"
    by (rule bit_word_eqI) (use that in \<open>auto simp: bit_simps dest: bit_imp_le_length\<close>)
  finally have "(crc_bit ^^ n) (push_bit n (ucast b)) = ucast b" .
  then have "(crc_bit ^^ n) s XOR ucast b = (crc_bit ^^ n) (s XOR push_bit n (ucast b))"
    by (simp add: crc_bits_xor)
  then show ?thesis
    by (simp add: crc_step_ref_def add.commute [of n] funpow_add)
qed

definition burst :: "u8 list \<Rightarrow> u32" where
  "burst bs = ucast (load_le 4 bs)"

lemma burst_eq:
  "burst [a, b, c, d] = ucast a XOR push_bit 8 (ucast b) XOR push_bit 16 (ucast c) XOR push_bit 24 (ucast d)"
  (is "_ = ?r")
proof (rule bit_word_eqI)
  fix k assume k: "k < LENGTH(32)"
  consider "k < 8" | "8 \<le> k \<and> k < 16" | "16 \<le> k \<and> k < 24" | "24 \<le> k \<and> k < 32"
    using k by fastforce
  then show "bit (burst [a, b, c, d]) k = bit ?r k"
  proof cases
    case 1
    then show ?thesis using k by (simp add: burst_def bit_load_le bit_simps impossible_bit)
  next
    case 2
    then obtain j where "k = 8 + j" "j < 8" by (metis le_add_diff_inverse nat_add_left_cancel_less numeral_Bit0)
    then show ?thesis by (simp add: burst_def bit_load_le bit_simps impossible_bit)
  next
    case 3
    then obtain j where "k = 16 + j" "j < 8"
      by (auto simp: le_iff_add)
    moreover from this have "(16 + j) mod 8 = j" "(16 + j) div 8 = 2" by presburger+
    ultimately show ?thesis by (simp add: burst_def bit_load_le bit_simps impossible_bit)
  next
    case 4
    then obtain j where "k = 24 + j" "j < 8"
      by (auto simp: le_iff_add)
    moreover from this have "(24 + j) mod 8 = j" "(24 + j) div 8 = 3" by presburger+
    ultimately show ?thesis by (simp add: burst_def bit_load_le bit_simps impossible_bit)
  qed
qed


lemma burst_inj:
  assumes "length xs = 4" and "length ys = 4" and "burst xs = burst ys"
  shows "xs = ys"
proof (rule nth_equalityI)
  show "length xs = length ys" using assms by simp
next
  fix i assume i: "i < length xs"
  show "xs ! i = ys ! i"
  proof (rule bit_word_eqI)
    fix k assume k: "k < LENGTH(8)"
    have *: "bit (burst zs) (8 * i + k) = bit (zs ! i) k" for zs
      using i k assms(1) by (simp add: burst_def bit_load_le bit_simps)
    show "bit (xs ! i) k = bit (ys ! i) k"
      using * [of xs] * [of ys] assms(3) by simp
  qed
qed

lemma crc_four:
  assumes "length xs = 4"
  shows "fold (\<lambda>byte state. crc_step_ref state byte) xs s = (crc_bit ^^ 32) (s XOR burst xs)"
proof -
  obtain a b c d where xs: "xs = [a, b, c, d]"
    using assms by (auto simp: length_Suc_conv eval_nat_numeral)
  let ?a = "s XOR ucast a" and ?b = "push_bit 8 (ucast b) :: u32"
    and ?c = "push_bit 16 (ucast c) :: u32" and ?d = "push_bit 24 (ucast d) :: u32"
  have 1: "crc_step_ref s a = (crc_bit ^^ 8) ?a" by (simp only: crc_step_ref_def)
  have 2: "crc_step_ref ((crc_bit ^^ 8) ?a) b = (crc_bit ^^ 16) (?a XOR ?b)"
    using crc_step_ref_shift [of 8 ?a b] by simp
  have 3: "crc_step_ref ((crc_bit ^^ 16) (?a XOR ?b)) c = (crc_bit ^^ 24) ((?a XOR ?b) XOR ?c)"
    using crc_step_ref_shift [of 16 "?a XOR ?b" c] by simp
  have 4: "crc_step_ref ((crc_bit ^^ 24) ((?a XOR ?b) XOR ?c)) d
      = (crc_bit ^^ 32) (((?a XOR ?b) XOR ?c) XOR ?d)"
    using crc_step_ref_shift [of 24 "(?a XOR ?b) XOR ?c" d] by simp
  show ?thesis
    by (simp only: xs fold_simps 1 2 3 4) (simp only: burst_eq xor.assoc)
qed

lemma crc_step_ref_inj: "crc_step_ref s b = crc_step_ref t b \<Longrightarrow> s = t"
proof -
  assume "crc_step_ref s b = crc_step_ref t b"
  then have "ucast b XOR s = ucast b XOR t"
    by (auto simp: crc_step_ref_def xor.commute dest: crc_bits_inj)
  then show "s = t" by (rule xor_cancel_left)
qed

lemma crc_fold_inj:
  "fold (\<lambda>byte state. crc_step_ref state byte) bs s = fold (\<lambda>byte state. crc_step_ref state byte) bs t
   \<Longrightarrow> s = t"
  by (induction bs arbitrary: s t) (auto dest: crc_step_ref_inj)

lemma crc32_burst:
  assumes "length xs = 4" and "length ys = 4" and "xs \<noteq> ys"
  shows "crc32 (pre @ xs @ suf) \<noteq> crc32 (pre @ ys @ suf)"
proof
  let ?run = "\<lambda>bs s. fold (\<lambda>byte state. crc_step_ref state byte) bs s"
  let ?s = "?run pre (NOT 0)"
  assume "crc32 (pre @ xs @ suf) = crc32 (pre @ ys @ suf)"
  then have "NOT (NOT (?run suf (?run xs ?s))) = NOT (NOT (?run suf (?run ys ?s)))"
    by (simp only: crc32_eq_ref crc32_ref_def fold_append o_apply)
  then have "?run xs ?s = ?run ys ?s" 
    by (simp only: bit.double_compl) (rule crc_fold_inj)
  then have "?s XOR burst xs = ?s XOR burst ys"
    unfolding crc_four [OF assms(1)] crc_four [OF assms(2)] by (rule crc_bits_inj)
  then have "burst xs = burst ys" by (rule xor_cancel_left)
  with burst_inj assms show False by blast
qed

text \<open>
  Changing four consecutive bytes of the data in any way changes its CRC-32, wherever they
  stand and whatever surrounds them.
\<close>

theorem crc32_detects_burst:
  assumes "length xs = 4" and "length ys = 4" and "xs \<noteq> ys"
  shows "crc32 (pre @ xs @ suf) \<noteq> crc32 (pre @ ys @ suf)"
  by (rule crc32_burst [OF assms])

lemma crc32_detects_burst_witness:
  "crc32 ([7] @ [1, 2, 3, 4] @ [9, 9]) \<noteq> crc32 ([7] @ [1, 2, 3, 5] @ [9, 9])"
  by (rule crc32_detects_burst) simp_all

end
