(* ===== verification/Binary.thy ===== *)
theory Binary
  imports Checksum
begin

text \<open>
  include/minitool/common/binary.hpp: the append-and-patch writer, the bounds-checked reader and
  the string table that both file formats share.  A run of writer or reader calls on consecutive
  fields is a list of \<open>Field\<close>s or \<open>Kind\<close>s, in the order of the calls.  The second part proves
  once, in the locale \<open>table_codec\<close>, that a table of fixed-size records is read back as it was
  written.
\<close>

subsection \<open>Characters and bytes\<close>

definition bytes_of :: "string \<Rightarrow> u8 list" where
  "bytes_of s = map (\<lambda>c. of_nat (of_char c)) s"

definition string_of :: "u8 list \<Rightarrow> string" where
  "string_of bs = map (\<lambda>b. char_of (unat b)) bs"

lemma string_of_bytes_of [simp]: "string_of (bytes_of s) = s"
proof -
  have "char_of (unat (of_nat (of_char c) :: u8)) = c" for c
  proof -
    have "of_char c < (256 :: nat)" by simp
    then have "unat (of_nat (of_char c) :: u8) = of_char c"
      by (simp add: unat_of_nat take_bit_nat_eq_self)
    then show ?thesis by simp
  qed
  then show ?thesis by (simp add: string_of_def bytes_of_def comp_def)
qed

lemma bytes_of_inj: "bytes_of s = bytes_of t \<Longrightarrow> s = t"
  by (metis string_of_bytes_of)

lemma length_bytes_of [simp]: "length (bytes_of s) = length s"
  by (simp add: bytes_of_def)

subsection \<open>Writer\<close>

type_synonym Writer = "u8 list"

definition u8v :: "u8 \<Rightarrow> Writer \<Rightarrow> Writer" where "u8v v w = w @ [v]"
definition u16v :: "u16 \<Rightarrow> Writer \<Rightarrow> Writer" where "u16v v w = w @ le_bytes 2 (ucast v)"
definition u32v :: "u32 \<Rightarrow> Writer \<Rightarrow> Writer" where "u32v v w = w @ le_bytes 4 (ucast v)"
definition u64v :: "u64 \<Rightarrow> Writer \<Rightarrow> Writer" where "u64v v w = w @ le_bytes 8 v"
definition raw :: "u8 list \<Rightarrow> Writer \<Rightarrow> Writer" where "raw bs w = w @ bs"
definition pad :: "nat \<Rightarrow> Writer \<Rightarrow> Writer" where "pad n w = w @ replicate n 0"

definition patchU32 :: "nat \<Rightarrow> u32 \<Rightarrow> Writer \<Rightarrow> Writer" where
  "patchU32 off v w = splice_at off (le_bytes 4 (ucast v)) w"

definition patchU64 :: "nat \<Rightarrow> u64 \<Rightarrow> Writer \<Rightarrow> Writer" where
  "patchU64 off v w = splice_at off (le_bytes 8 v) w"

datatype Field = F8 u8 | F16 u16 | F32 u32 | F64 u64 | FPad nat

fun write_field :: "Field \<Rightarrow> Writer \<Rightarrow> Writer" where
  "write_field (F8 v) w = u8v v w"
| "write_field (F16 v) w = u16v v w"
| "write_field (F32 v) w = u32v v w"
| "write_field (F64 v) w = u64v v w"
| "write_field (FPad n) w = pad n w"

definition write_fields :: "Field list \<Rightarrow> Writer \<Rightarrow> Writer" where
  "write_fields fs w = fold write_field fs w"

subsection \<open>String table\<close>

record StringTable =
  str_bytes :: "u8 list"
  str_offsets :: "string \<Rightarrow> u32 option"

definition new_strings :: StringTable where
  "new_strings = \<lparr> str_bytes = [0], str_offsets = (\<lambda>_. None) \<rparr>"

definition intern :: "string \<Rightarrow> StringTable \<Rightarrow> u32 \<times> StringTable" where
  "intern text t =
     (case str_offsets t text of
        Some off \<Rightarrow> (off, t)
      | None \<Rightarrow>
          let off = of_nat (length (str_bytes t))
          in (off, \<lparr> str_bytes = str_bytes t @ bytes_of text @ [0],
                     str_offsets = (str_offsets t)(text \<mapsto> off) \<rparr>))"

datatype StringError = StringOffset u32 nat | Unterminated u32

fun until_nul :: "u8 list \<Rightarrow> u8 list option" where
  "until_nul [] = None"
| "until_nul (b # bs) = (if b = 0 then Some [] else map_option ((#) b) (until_nul bs))"

definition readString :: "u8 list \<Rightarrow> u32 \<Rightarrow> (StringError, string) expected" where
  "readString table off =
     (if unat off \<ge> length table then Inl (StringOffset off (length table))
      else case until_nul (drop (unat off) table) of
             Some bs \<Rightarrow> Inr (string_of bs)
           | None \<Rightarrow> Inl (Unterminated off))"

subsection \<open>Reader\<close>

record Reader =
  rd_data :: "u8 list"
  rd_position :: nat

definition has :: "nat \<Rightarrow> Reader \<Rightarrow> bool" where
  "has count r \<longleftrightarrow> count \<le> length (rd_data r) - min (rd_position r) (length (rd_data r))"

definition seek :: "nat \<Rightarrow> Reader \<Rightarrow> Reader" where
  "seek off r = r\<lparr> rd_position := off \<rparr>"

definition read_word :: "nat \<Rightarrow> Reader \<Rightarrow> u64 option \<times> Reader" where
  "read_word n r =
     (if \<not> has n r then (None, r)
      else (Some (load_le n (take n (drop (rd_position r) (rd_data r)))),
            r\<lparr> rd_position := rd_position r + n \<rparr>))"

definition read_skip :: "nat \<Rightarrow> Reader \<Rightarrow> u64 option \<times> Reader" where
  "read_skip count r =
     (if \<not> has count r then (None, r) else (Some 0, r\<lparr> rd_position := rd_position r + count \<rparr>))"

definition read_raw :: "nat \<Rightarrow> Reader \<Rightarrow> u8 list option \<times> Reader" where
  "read_raw count r =
     (if \<not> has count r then (None, r)
      else (Some (take count (drop (rd_position r) (rd_data r))),
            r\<lparr> rd_position := rd_position r + count \<rparr>))"

definition rawAt :: "nat \<Rightarrow> nat \<Rightarrow> Reader \<Rightarrow> u8 list option" where
  "rawAt off count r =
     (if off > length (rd_data r) \<or> count > length (rd_data r) - off then None
      else Some (take count (drop off (rd_data r))))"

datatype Kind = K8 | K16 | K32 | K64 | KPad nat

fun read_kind :: "Kind \<Rightarrow> Reader \<Rightarrow> u64 option \<times> Reader" where
  "read_kind K8 r = read_word 1 r"
| "read_kind K16 r = read_word 2 r"
| "read_kind K32 r = read_word 4 r"
| "read_kind K64 r = read_word 8 r"
| "read_kind (KPad n) r = read_skip n r"

fun read_kinds :: "Kind list \<Rightarrow> Reader \<Rightarrow> u64 option list \<times> Reader" where
  "read_kinds [] r = ([], r)"
| "read_kinds (k # ks) r =
     (let (v, r) = read_kind k r; (vs, r) = read_kinds ks r in (v # vs, r))"

text \<open>The check that every read of a record had a value, and the values.\<close>

fun all_present :: "u64 option list \<Rightarrow> u64 list option" where
  "all_present [] = Some []"
| "all_present (v # vs) =
     (case v of None \<Rightarrow> None | Some x \<Rightarrow> map_option ((#) x) (all_present vs))"

fun read_loop ::
  "(Reader \<Rightarrow> 's \<Rightarrow> ('e, 's) expected \<times> Reader) \<Rightarrow> nat \<Rightarrow> Reader \<Rightarrow> 's \<Rightarrow> ('e, 's) expected" where
  "read_loop body 0 r s = Inr s"
| "read_loop body (Suc n) r s =
     (case body r s of
        (Inl e, r) \<Rightarrow> Inl e
      | (Inr s, r) \<Rightarrow> read_loop body n r s)"

subsection \<open>Fields are read back as written\<close>

fun field_bytes :: "Field \<Rightarrow> u8 list" where
  "field_bytes (F8 v) = [v]"
| "field_bytes (F16 v) = le_bytes 2 (ucast v)"
| "field_bytes (F32 v) = le_bytes 4 (ucast v)"
| "field_bytes (F64 v) = le_bytes 8 v"
| "field_bytes (FPad n) = replicate n 0"

fun field_kind :: "Field \<Rightarrow> Kind" where
  "field_kind (F8 v) = K8"
| "field_kind (F16 v) = K16"
| "field_kind (F32 v) = K32"
| "field_kind (F64 v) = K64"
| "field_kind (FPad n) = KPad n"

fun field_value :: "Field \<Rightarrow> u64" where
  "field_value (F8 v) = ucast v"
| "field_value (F16 v) = ucast v"
| "field_value (F32 v) = ucast v"
| "field_value (F64 v) = v"
| "field_value (FPad n) = 0"

fun kind_size :: "Kind \<Rightarrow> nat" where
  "kind_size K8 = 1"
| "kind_size K16 = 2"
| "kind_size K32 = 4"
| "kind_size K64 = 8"
| "kind_size (KPad n) = n"

definition record_bytes :: "Field list \<Rightarrow> u8 list" where
  "record_bytes fs = concat (map field_bytes fs)"

lemma write_field_bytes: "write_field f w = w @ field_bytes f"
  by (cases f) (simp_all add: u8v_def u16v_def u32v_def u64v_def pad_def)

lemma write_fields_bytes [byte_simps]: "write_fields fs w = w @ record_bytes fs"
  unfolding write_fields_def record_bytes_def
  by (induction fs arbitrary: w) (simp_all add: write_field_bytes)

lemma field_bytes_length [simp]: "length (field_bytes f) = kind_size (field_kind f)"
  by (cases f) simp_all

lemma record_bytes_length: "length (record_bytes fs) = sum_list (map (kind_size \<circ> field_kind) fs)"
  by (induction fs) (simp_all add: record_bytes_def)

lemma load_le_ucast:
  "load_le 1 [b] = ucast b"
  "load_le 2 (le_bytes 2 (ucast (v :: u16))) = ucast v"
  "load_le 4 (le_bytes 4 (ucast (w :: u32))) = ucast w"
proof -
  show "load_le 1 [b] = ucast b" by (simp add: load_le_def)
  have "take_bit 16 (ucast v :: u64) = ucast v"
    by (rule bit_word_eqI) (auto simp: bit_simps dest: bit_imp_le_length)
  then show "load_le 2 (le_bytes 2 (ucast v)) = ucast v" by (simp add: load_le_bytes)
  have "take_bit 32 (ucast w :: u64) = ucast w"
    by (rule bit_word_eqI) (auto simp: bit_simps dest: bit_imp_le_length)
  then show "load_le 4 (le_bytes 4 (ucast w)) = ucast w" by (simp add: load_le_bytes)
qed

lemma has_iff: "rd_position r \<le> length (rd_data r) \<Longrightarrow> has n r \<longleftrightarrow> rd_position r + n \<le> length (rd_data r)"
  by (auto simp: has_def)

text \<open>The reader stands before the bytes \<open>bs\<close>.\<close>

definition at_bytes :: "Reader \<Rightarrow> u8 list \<Rightarrow> bool" where
  "at_bytes r bs \<longleftrightarrow>
     rd_position r + length bs \<le> length (rd_data r) \<and>
     take (length bs) (drop (rd_position r) (rd_data r)) = bs"

definition advance_reader :: "nat \<Rightarrow> Reader \<Rightarrow> Reader" where
  "advance_reader n r = r\<lparr> rd_position := rd_position r + n \<rparr>"

lemma advance_reader_simps [simp]:
  "rd_data (advance_reader n r) = rd_data r"
  "rd_position (advance_reader n r) = rd_position r + n"
  "advance_reader m (advance_reader n r) = advance_reader (n + m) r"
  "advance_reader 0 r = r"
  by (simp_all add: advance_reader_def ac_simps)

lemma at_bytes_append:
  "at_bytes r (xs @ ys) \<longleftrightarrow> at_bytes r xs \<and> at_bytes (advance_reader (length xs) r) ys"
proof -
  let ?d = "drop (rd_position r) (rd_data r)"
  have "take (length (xs @ ys)) ?d = take (length xs) ?d @ take (length ys) (drop (length xs) ?d)"
    by (simp add: take_add)
  moreover have "drop (length xs) ?d = drop (rd_position r + length xs) (rd_data r)"
    by (simp add: add.commute)
  ultimately show ?thesis
    by (auto simp: at_bytes_def append_eq_append_conv)
qed

lemma read_kind_field:
  assumes "at_bytes r (field_bytes f)"
  shows "read_kind (field_kind f) r = (Some (field_value f), advance_reader (length (field_bytes f)) r)"
proof -
  have "has (length (field_bytes f)) r"
    using assms unfolding at_bytes_def has_def by linarith
  moreover have "take (length (field_bytes f)) (drop (rd_position r) (rd_data r)) = field_bytes f"
    using assms by (simp add: at_bytes_def)
  ultimately show ?thesis
    using load_le_ucast
    by (cases f) (simp_all add: read_word_def read_skip_def advance_reader_def)
qed

lemma read_kinds_fields:
  "at_bytes r (record_bytes fs) \<Longrightarrow>
   read_kinds (map field_kind fs) r
     = (map (Some \<circ> field_value) fs, advance_reader (length (record_bytes fs)) r)"
proof (induction fs arbitrary: r)
  case (Cons f fs)
  have "at_bytes r (field_bytes f)" "at_bytes (advance_reader (length (field_bytes f)) r) (record_bytes fs)"
    using Cons.prems by (simp_all add: record_bytes_def at_bytes_append)
  with Cons.IH read_kind_field show ?case by (simp add: record_bytes_def)
qed (simp add: record_bytes_def)

lemma all_present_Some [simp]: "all_present (map (Some \<circ> g) xs) = Some (map g xs)"
  by (induction xs) simp_all

lemma read_kinds_present:
  "at_bytes r (record_bytes fs) \<Longrightarrow> ks = map field_kind fs \<Longrightarrow>
   read_kinds ks r = (vs, r') \<Longrightarrow>
   all_present vs = Some (map field_value fs) \<and> r' = advance_reader (length (record_bytes fs)) r"
  using read_kinds_fields [of r fs] all_present_Some [of field_value fs] by auto

text \<open>No read goes outside the buffer.\<close>

lemma read_word_bounds:
  "read_word n r = (Some v, r') \<Longrightarrow> rd_position r + n \<le> length (rd_data r) \<or> n = 0"
  by (auto simp: read_word_def has_def split: if_splits)

subsection \<open>Interned names resolve\<close>

definition printable :: "string \<Rightarrow> bool" where
  "printable s \<longleftrightarrow> CHR 0x00 \<notin> set s"

lemma byte_zero_iff: "(of_nat (of_char c) :: u8) = 0 \<longleftrightarrow> c = CHR 0x00"
proof -
  have "bytes_of [c] = bytes_of [CHR 0x00] \<longleftrightarrow> c = CHR 0x00"
    using bytes_of_inj by blast
  then show ?thesis by (simp add: bytes_of_def)
qed

lemma until_nul_bytes: "printable s \<Longrightarrow> until_nul (bytes_of s @ 0 # rest) = Some (bytes_of s)"
  by (induction s) (auto simp: printable_def bytes_of_def byte_zero_iff)

lemma until_nul_append: "until_nul bs = Some x \<Longrightarrow> until_nul (bs @ suffix) = Some x"
  by (induction bs arbitrary: x) (auto split: if_splits)

definition resolves :: "u8 list \<Rightarrow> u32 \<Rightarrow> string \<Rightarrow> bool" where
  "resolves table off text \<longleftrightarrow> readString table off = Inr text"

lemma resolves_append: "resolves table off text \<Longrightarrow> resolves (table @ suffix) off text"
  by (auto simp: resolves_def readString_def until_nul_append split: if_splits option.splits)

definition strings_ok :: "StringTable \<Rightarrow> bool" where
  "strings_ok t \<longleftrightarrow>
     (\<forall>text off. str_offsets t text = Some off \<longrightarrow> printable text \<longrightarrow> length (str_bytes t) < 2 ^ 32 \<longrightarrow>
        resolves (str_bytes t) off text)"

lemma new_strings_ok [simp]: "strings_ok new_strings"
  by (simp add: strings_ok_def new_strings_def)

lemma u32_of_nat: "n < 2 ^ 32 \<Longrightarrow> unat (of_nat n :: u32) = n"
  by (simp add: unat_of_nat take_bit_nat_eq_self)

lemma intern_spec:
  assumes "strings_ok t" and "intern text t = (off, t')"
  shows "\<exists>suffix. str_bytes t' = str_bytes t @ suffix" and "strings_ok t'"
    and "printable text \<Longrightarrow> length (str_bytes t') < 2 ^ 32 \<Longrightarrow> resolves (str_bytes t') off text"
proof -
  have new: "resolves (str_bytes t @ bytes_of text @ [0]) (of_nat (length (str_bytes t))) text"
    if "printable text" "length (str_bytes t) + length text + 1 < 2 ^ 32"
    using until_nul_bytes [OF that(1), of "[]"] that(2)
    by (simp add: resolves_def readString_def u32_of_nat)
  show "\<exists>suffix. str_bytes t' = str_bytes t @ suffix"
    using assms(2) by (auto simp: intern_def Let_def split: option.splits)
  show "strings_ok t'"
  proof (cases "str_offsets t text")
    case None
    then have t': "str_bytes t' = str_bytes t @ bytes_of text @ [0]"
      and o': "str_offsets t' = (str_offsets t)(text \<mapsto> of_nat (length (str_bytes t)))"
      using assms(2) by (auto simp: intern_def Let_def)
    show ?thesis
      unfolding strings_ok_def
    proof (intro allI impI)
      fix u o1
      assume u: "str_offsets t' u = Some o1" "printable u" "length (str_bytes t') < 2 ^ 32"
      show "resolves (str_bytes t') o1 u"
      proof (cases "u = text")
        case True
        with u new show ?thesis by (simp add: t' o')
      next
        case False
        with u have "resolves (str_bytes t) o1 u"
          using assms(1) by (simp add: t' o' strings_ok_def)
        then show ?thesis unfolding t' by (rule resolves_append)
      qed
    qed
  qed (use assms in \<open>simp add: intern_def\<close>)
  assume p: "printable text" and l: "length (str_bytes t') < 2 ^ 32"
  show "resolves (str_bytes t') off text"
  proof (cases "str_offsets t text")
    case None
    with assms(2) new p l show ?thesis by (auto simp: intern_def Let_def)
  next
    case (Some o1)
    with assms p l show ?thesis by (auto simp: intern_def strings_ok_def)
  qed
qed

fun intern_all :: "string list \<Rightarrow> StringTable \<Rightarrow> u32 list \<times> StringTable" where
  "intern_all [] t = ([], t)"
| "intern_all (x # xs) t =
     (let (off, t) = intern x t; (offs, t) = intern_all xs t in (off # offs, t))"

lemma intern_all_extends:
  "strings_ok t \<Longrightarrow> intern_all xs t = (offs, t') \<Longrightarrow>
   strings_ok t' \<and> (\<exists>suffix. str_bytes t' = str_bytes t @ suffix)"
proof (induction xs arbitrary: t offs t')
  case (Cons x xs)
  obtain o1 t1 where i: "intern x t = (o1, t1)" by fastforce
  obtain os t2 where a: "intern_all xs t1 = (os, t2)" by fastforce
  note s = intern_spec [OF Cons.prems(1) i]
  from Cons.IH [OF s(2) a] Cons.prems(2) i a s(1) show ?case by auto
qed simp

text \<open>
  A name given to the string table, read back from the finished table at the offset it was
  given, is that name, whatever was interned after it.
\<close>

theorem interned_names_resolve:
  "list_all2 (\<lambda>off x. printable x \<longrightarrow> readString (str_bytes t') off = Inr x) offs xs"
  if "intern_all xs new_strings = (offs, t')" and "length (str_bytes t') < 2 ^ 32"
proof -
  have "list_all2 (\<lambda>off x. printable x \<longrightarrow> resolves (str_bytes t') off x) offs xs"
    if "strings_ok t" "intern_all xs t = (offs, t')" "length (str_bytes t') < 2 ^ 32" for t
    using that
  proof (induction xs arbitrary: t offs)
    case (Cons x xs)
    obtain o1 t1 where i: "intern x t = (o1, t1)" by fastforce
    obtain os t2 where a: "intern_all xs t1 = (os, t2)" by fastforce
    note s = intern_spec [OF Cons.prems(1) i]
    have t2: "t2 = t'" "offs = o1 # os" using Cons.prems(2) i a by auto
    obtain suffix where m: "str_bytes t' = str_bytes t1 @ suffix"
      using intern_all_extends [OF s(2) a] t2 by auto
    have "printable x \<Longrightarrow> resolves (str_bytes t') o1 x"
      using s(3) Cons.prems(3) resolves_append unfolding m by fastforce
    with Cons.IH [OF s(2)] a t2 Cons.prems(3) show ?case by auto
  qed simp
  from this [OF new_strings_ok that] show ?thesis by (simp add: resolves_def)
qed

lemma interned_names_resolve_witness:
  "readString (str_bytes (snd (intern_all [''a'', ''bc'', ''a''] new_strings))) 3 = Inr ''bc''"
proof -
  have "intern_all [''a'', ''bc'', ''a''] new_strings =
      ([1, 3, 1], snd (intern_all [''a'', ''bc'', ''a''] new_strings))"
    by (simp add: intern_def new_strings_def bytes_of_def Let_def)
  moreover have "length (str_bytes (snd (intern_all [''a'', ''bc'', ''a''] new_strings))) < 2 ^ 32"
    by (simp add: intern_def new_strings_def bytes_of_def Let_def)
  ultimately show ?thesis
    using interned_names_resolve [of "[''a'', ''bc'', ''a'']"] by (force simp: printable_def)
qed

subsection \<open>Tables of records\<close>

text \<open>
  The contract of one record type: \<open>enc\<close> is its image, and the body of its reading loop, standing
  before that image, consumes it and adds the record to the state.
\<close>

locale table_codec =
  fixes enc :: "'a \<Rightarrow> u8 list"
    and body :: "Reader \<Rightarrow> 's \<Rightarrow> ('e, 's) expected \<times> Reader"
    and add :: "'a \<Rightarrow> 's \<Rightarrow> 's"
    and good :: "'a \<Rightarrow> 's \<Rightarrow> bool"
  assumes body_reads:
    "at_bytes r (enc a) \<Longrightarrow> good a s \<Longrightarrow> body r s = (Inr (add a s), advance_reader (length (enc a)) r)"
begin

fun all_good :: "'a list \<Rightarrow> 's \<Rightarrow> bool" where
  "all_good [] s \<longleftrightarrow> True"
| "all_good (a # rest) s \<longleftrightarrow> good a s \<and> all_good rest (add a s)"

lemma table_reads:
  "at_bytes r (concat (map enc xs)) \<Longrightarrow> all_good xs s \<Longrightarrow>
   read_loop body (length xs) r s = Inr (fold add xs s)"
proof (induction xs arbitrary: r s)
  case (Cons a xs)
  have "at_bytes r (enc a)" "at_bytes (advance_reader (length (enc a)) r) (concat (map enc xs))"
    using Cons.prems(1) by (simp_all add: at_bytes_append)
  with Cons body_reads [of r a s] show ?case by simp
qed simp

end

text \<open>
  The state of a serialiser between the header and the final assembly, and the contract of the
  step that writes one record: it appends the record's image to the tables, only ever extends
  the strings and the blob, and what the image points at is found there as long as the offsets
  fit their fields.
\<close>

record WriteState =
  ws_strings :: StringTable
  ws_tables :: Writer
  ws_blob :: Writer

definition start_write :: WriteState where
  "start_write = \<lparr> ws_strings = new_strings, ws_tables = [], ws_blob = [] \<rparr>"

definition extends :: "WriteState \<Rightarrow> WriteState \<Rightarrow> bool" where
  "extends st st' \<longleftrightarrow>
     (\<exists>suffix. str_bytes (ws_strings st') = str_bytes (ws_strings st) @ suffix) \<and>
     (\<exists>suffix. ws_blob st' = ws_blob st @ suffix)"

definition small :: "WriteState \<Rightarrow> bool" where
  "small st \<longleftrightarrow> length (str_bytes (ws_strings st)) < 2 ^ 32 \<and> length (ws_blob st) < 2 ^ 32"

lemma extends_refl [simp]: "extends st st"
  by (simp add: extends_def)

lemma extends_trans: "extends a b \<Longrightarrow> extends b c \<Longrightarrow> extends a c"
  by (auto simp: extends_def)

lemma small_extends: "extends st st' \<Longrightarrow> small st' \<Longrightarrow> small st"
  by (auto simp: extends_def small_def)

locale table_writer =
  fixes wr :: "'x \<Rightarrow> WriteState \<Rightarrow> WriteState"
    and enc :: "'l \<Rightarrow> u8 list"
    and proj :: "'l \<Rightarrow> 'x"
    and located :: "WriteState \<Rightarrow> 'l \<Rightarrow> bool"
  assumes writes: "strings_ok (ws_strings st) \<Longrightarrow>
      \<exists>l. proj l = x \<and> ws_tables (wr x st) = ws_tables st @ enc l \<and> extends st (wr x st) \<and>
          strings_ok (ws_strings (wr x st)) \<and> (small (wr x st) \<longrightarrow> located (wr x st) l)"
    and located_mono: "located st l \<Longrightarrow> extends st st' \<Longrightarrow> located st' l"
begin

lemma table_writes:
  "strings_ok (ws_strings st) \<Longrightarrow>
   \<exists>ls. map proj ls = xs \<and> ws_tables (fold wr xs st) = ws_tables st @ concat (map enc ls) \<and>
        extends st (fold wr xs st) \<and> strings_ok (ws_strings (fold wr xs st)) \<and>
        (small (fold wr xs st) \<longrightarrow> (\<forall>l \<in> set ls. located (fold wr xs st) l))"
proof (induction xs arbitrary: st)
  case Nil
  then show ?case by (intro exI [of _ "[]"]) simp
next
  case (Cons x xs)
  let ?st1 = "wr x st" and ?st2 = "fold wr xs (wr x st)"
  from writes [OF Cons.prems, of x] obtain l where l: "proj l = x"
    "ws_tables ?st1 = ws_tables st @ enc l" "extends st ?st1" "strings_ok (ws_strings ?st1)"
    "small ?st1 \<longrightarrow> located ?st1 l" by blast
  from Cons.IH [OF l(4)] obtain ls where ls: "map proj ls = xs"
    "ws_tables ?st2 = ws_tables ?st1 @ concat (map enc ls)" "extends ?st1 ?st2"
    "strings_ok (ws_strings ?st2)" "small ?st2 \<longrightarrow> (\<forall>l \<in> set ls. located ?st2 l)" by blast
  have "small ?st2 \<longrightarrow> located ?st2 l"
    using l(5) ls(3) small_extends located_mono by blast
  with l ls extends_trans [OF l(3) ls(3)] show ?case
    by (intro exI [of _ "l # ls"]) simp
qed

end

lemma intern_located:
  assumes "strings_ok t" and "intern text t = (off, t')" and "printable text"
    and "length (str_bytes t') < 2 ^ 32"
  shows "resolves (str_bytes t') off text"
  by (rule intern_spec(3) [OF assms])

lemma resolves_extends:
  "resolves (str_bytes (ws_strings st)) off text \<Longrightarrow> extends st st' \<Longrightarrow>
   resolves (str_bytes (ws_strings st')) off text"
  by (auto simp: extends_def intro: resolves_append)

text \<open>A slice of the blob, by an offset and a length kept in 64-bit fields.\<close>

definition blob_slice :: "u8 list \<Rightarrow> u64 \<Rightarrow> u64 \<Rightarrow> u8 list \<Rightarrow> bool" where
  "blob_slice blob off len bytes \<longleftrightarrow>
     unat off + unat len \<le> length blob \<and> take (unat len) (drop (unat off) blob) = bytes"

lemma blob_slice_append: "blob_slice blob off len bytes \<Longrightarrow> blob_slice (blob @ suffix) off len bytes"
  by (auto simp: blob_slice_def)

lemma blob_slice_extends:
  "blob_slice (ws_blob st) off len bytes \<Longrightarrow> extends st st' \<Longrightarrow> blob_slice (ws_blob st') off len bytes"
  by (auto simp: extends_def intro: blob_slice_append)

lemma blob_slice_new:
  "length (blob @ bytes) < 2 ^ 32 \<Longrightarrow>
   blob_slice (blob @ bytes) (of_nat (length blob)) (of_nat (length bytes)) bytes"
  by (simp add: blob_slice_def unat_of_nat_u64)

definition named :: "('a \<Rightarrow> string) \<Rightarrow> u8 list \<Rightarrow> 'a \<times> u32 \<Rightarrow> bool" where
  "named name strings l \<longleftrightarrow> (printable (name (fst l)) \<longrightarrow> resolves strings (snd l) (name (fst l)))"

lemma named_extends:
  "named name (str_bytes (ws_strings st)) l \<Longrightarrow> extends st st' \<Longrightarrow> named name (str_bytes (ws_strings st')) l"
  by (auto simp: named_def intro: resolves_extends)

text \<open>Invariants of a reading loop that count the records read.\<close>

lemma read_loop_indexed:
  assumes "\<And>k r s s' r'. P k s \<Longrightarrow> k < m + n \<Longrightarrow> body r s = (Inr s', r') \<Longrightarrow> P (Suc k) s'"
  shows "read_loop body n r s = Inr s' \<Longrightarrow> P m s \<Longrightarrow> P (m + n) s'"
  using assms
proof (induction n arbitrary: m r s)
  case (Suc n)
  then obtain s1 r1 where b: "body r s = (Inr s1, r1)" "read_loop body n r1 s1 = Inr s'"
    by (auto split: prod.splits sum.splits)
  have "P (Suc m) s1" using Suc.prems(3) [OF Suc.prems(2) _ b(1)] by simp
  then have "P (Suc m + n) s'"
    using Suc.IH [OF b(2), of "Suc m"] Suc.prems(3) by simp
  then show ?case by simp
qed simp

subsection \<open>Reading and writing at positions\<close>

lemma ucast_back [simp]:
  "ucast (ucast (x :: u32) :: u64) = x" "ucast (ucast (y :: u16) :: u64) = y"
  "ucast (ucast (z :: u8) :: u64) = z"
  by (rule bit_word_eqI; auto simp: bit_simps dest: bit_imp_le_length)+

lemma at_bytes_seek:
  "rd_data r = pre @ bs @ suf \<Longrightarrow> pos = length pre \<Longrightarrow> at_bytes (seek pos r) bs"
  by (simp add: at_bytes_def seek_def)

lemma length_concat_const: "(\<And>x. length (f x) = k) \<Longrightarrow> length (concat (map f xs)) = k * length xs"
  by (induction xs) simp_all

context table_codec
begin

lemma all_good_invariant:
  "P s \<Longrightarrow> (\<And>a s. a \<in> set xs \<Longrightarrow> P s \<Longrightarrow> good a s \<and> P (add a s)) \<Longrightarrow> all_good xs s"
  by (induction xs arbitrary: s) auto

lemma table_reads_at:
  assumes "rd_data r = pre @ concat (map enc xs) @ suf" and "pos = length pre"
    and "n = length xs" and "all_good xs s"
  shows "read_loop body n (seek pos r) s = Inr (fold add xs s)"
  using table_reads [OF at_bytes_seek [OF assms(1,2)] assms(4)] assms(3) by simp

end

lemma ucast_of_nat_u32: "n < 2 ^ 32 \<Longrightarrow> (ucast (of_nat n :: u32) :: u64) = of_nat n"
proof -
  assume n: "n < 2 ^ 32"
  have "unat (ucast (of_nat n :: u32) :: u64) = unat (of_nat n :: u32)"
    by (simp only: unsigned_ucast_eq u32_of_nat [OF n]) (use n in \<open>simp add: take_bit_nat_eq_self\<close>)
  with n show ?thesis by (simp add: word_unat_eq_iff u32_of_nat unat_of_nat_u64)
qed

lemma record_bytes_append: "record_bytes (xs @ ys) = record_bytes xs @ record_bytes ys"
  by (simp add: record_bytes_def)

lemma until_nul_no_zero: "until_nul bs = Some x \<Longrightarrow> 0 \<notin> set x"
  by (induction bs arbitrary: x) (auto split: if_splits)

lemma char_of_byte_zero: "char_of (unat (b :: u8)) = CHR 0x00 \<Longrightarrow> b = 0"
proof -
  assume "char_of (unat b) = CHR 0x00"
  then have "of_char (char_of (unat b) :: char) = (0 :: nat)" by simp
  then have "unat b mod 256 = 0" by simp
  then show "b = 0" using unat_u8_less [of b] by (simp add: unat_eq_zero)
qed

lemma readString_printable: "readString table off = Inr name \<Longrightarrow> printable name"
  by (auto simp: readString_def printable_def string_of_def split: if_splits option.splits
      dest!: until_nul_no_zero dest: char_of_byte_zero [OF sym] char_of_byte_zero)

text \<open>Reads inside a prefix do not depend on what follows it.\<close>

lemma read_kind_local:
  assumes "take n bs = take n cs" and "p + kind_size k \<le> n" and "n \<le> length bs" and "n \<le> length cs"
  shows "\<exists>v. read_kind k \<lparr> rd_data = bs, rd_position = p \<rparr> = (v, \<lparr> rd_data = bs, rd_position = p + kind_size k \<rparr>) \<and>
    read_kind k \<lparr> rd_data = cs, rd_position = p \<rparr> = (v, \<lparr> rd_data = cs, rd_position = p + kind_size k \<rparr>)"
proof -
  have "take (kind_size k) (drop p bs) = take (kind_size k) (drop p (take n bs))"
    "take (kind_size k) (drop p cs) = take (kind_size k) (drop p (take n cs))"
    using assms(2) by (simp_all add: drop_take)
  then have "take (kind_size k) (drop p bs) = take (kind_size k) (drop p cs)"
    using assms(1) by simp
  with assms(2-4) show ?thesis
    by (cases k) (auto simp: read_word_def read_skip_def has_def)
qed

lemma read_kinds_local:
  assumes "take n bs = take n cs" and "n \<le> length bs" and "n \<le> length cs"
  shows "p + sum_list (map kind_size ks) \<le> n \<Longrightarrow>
    fst (read_kinds ks \<lparr> rd_data = bs, rd_position = p \<rparr>) = fst (read_kinds ks \<lparr> rd_data = cs, rd_position = p \<rparr>)"
proof (induction ks arbitrary: p)
  case (Cons k ks)
  from read_kind_local [OF assms(1) _ assms(2,3), of p k] Cons.prems
  obtain v where "read_kind k \<lparr> rd_data = bs, rd_position = p \<rparr> = (v, \<lparr> rd_data = bs, rd_position = p + kind_size k \<rparr>)"
    "read_kind k \<lparr> rd_data = cs, rd_position = p \<rparr> = (v, \<lparr> rd_data = cs, rd_position = p + kind_size k \<rparr>)"
    by auto
  with Cons.IH [of "p + kind_size k"] Cons.prems show ?case by (auto split: prod.splits)
qed simp

end
