(* ===== verification/Lower.thy ===== *)
theory Lower
  imports Ast Ir Binary
begin

text \<open>
  src/ir/lower.cpp: from the syntax tree to the intermediate representation.  The state is the
  module, the current section and the failure flag.  \<open>operands.at(i)\<close> throws outside the vector;
  a statement whose lowering throws is \<open>None\<close>.
\<close>

record Lowerer =
  lw_engine :: DiagnosticEngine
  lw_module :: Module
  lw_current_kind :: SectionKind
  lw_failed :: bool

definition start_lowerer :: "string \<Rightarrow> DiagnosticEngine \<Rightarrow> Lowerer" where
  "start_lowerer name diagnostics =
     \<lparr> lw_engine = diagnostics, lw_module = snd (sectionFor Kind_Text (empty_module name)),
       lw_current_kind = Kind_Text, lw_failed = False \<rparr>"

definition lower_error :: "SourceLocation \<Rightarrow> ErrorCode \<Rightarrow> string \<Rightarrow> Lowerer \<Rightarrow> Lowerer" where
  "lower_error location code message l =
     l\<lparr> lw_engine := report_error code location message (lw_engine l), lw_failed := True \<rparr>"

definition emit_ir :: "Item \<Rightarrow> Lowerer \<Rightarrow> Lowerer" where
  "emit_ir item l =
     (let (i, m) = sectionFor (lw_current_kind l) (lw_module l)
      in l\<lparr> lw_module := m\<lparr> mo_sections := (mo_sections m)[i := (mo_sections m ! i)
             \<lparr> is_items := is_items (mo_sections m ! i) @ [item] \<rparr>] \<rparr> \<rparr>)"

definition requireInitialisableSection :: "SourceLocation \<Rightarrow> string \<Rightarrow> Lowerer \<Rightarrow> bool \<times> Lowerer" where
  "requireInitialisableSection location what l =
     (if lw_current_kind l = Kind_Bss
      then (False, lower_error location EC_InvalidSectionReference
             (what @ '' cannot appear in .bss, which holds no data'') l)
      else (True, l))"

text \<open>\<open>operands.at(i)\<close>\<close>

definition operand_at :: "Operand list \<Rightarrow> nat \<Rightarrow> Operand option" where
  "operand_at operands i = (if i < length operands then Some (operands ! i) else None)"

text \<open>The literal bytes that wait for the next flush, and the state.\<close>

definition flush :: "SourceLocation \<Rightarrow> u8 list \<times> Lowerer \<Rightarrow> u8 list \<times> Lowerer" where
  "flush location p =
     (case p of (pending, l) \<Rightarrow>
        if pending \<noteq> [] then ([], emit_ir (It_Bytes pending location) l) else (pending, l))"

definition lower_value :: "u32 \<Rightarrow> SourceLocation \<Rightarrow> Operand \<Rightarrow> u8 list \<times> Lowerer \<Rightarrow> u8 list \<times> Lowerer" where
  "lower_value width location operand p =
     (if op_type operand = OT_Symbol
      then let (pending, l) = flush location p
           in (pending, emit_ir (It_SymbolValue width
                  \<lparr> ref_name = op_symbol operand, ref_addend = op_immediate operand \<rparr> (op_location operand)) l)
      else (fst p @ le_bytes (unat width) (op_immediate operand), snd p))"

definition lowerData :: "DirectiveNode \<Rightarrow> Lowerer \<Rightarrow> Lowerer" where
  "lowerData directive l =
     (let (ok, l) = requireInitialisableSection (dn_location directive) (directiveName (dn_type directive)) l in
      if \<not> ok then l
      else snd (flush (dn_location directive)
             (fold (lower_value (dataDirectiveWidth (dn_type directive)) (dn_location directive))
                (dn_operands directive) ([], l))))"

definition add_names :: "((string list \<Rightarrow> string list) \<Rightarrow> Module \<Rightarrow> Module) \<Rightarrow> DirectiveNode \<Rightarrow> Lowerer \<Rightarrow> Lowerer" where
  "add_names update directive l =
     l\<lparr> lw_module := update (\<lambda>names. names @ map op_symbol (dn_operands directive)) (lw_module l) \<rparr>"

definition lowerDirective :: "DirectiveNode \<Rightarrow> Lowerer \<Rightarrow> Lowerer option" where
  "lowerDirective directive l =
     (let operands = dn_operands directive; location = dn_location directive in
      case dn_type directive of
        Dir_Section \<Rightarrow>
          (case operand_at operands 0 of
             None \<Rightarrow> None
           | Some operand \<Rightarrow>
               (case sectionKindFromName (op_symbol operand) of
                  None \<Rightarrow> Some (lower_error location EC_InvalidSectionReference
                    (''unknown section '' @ quoted (op_symbol operand)) l)
                | Some kind \<Rightarrow> Some (l\<lparr> lw_current_kind := kind, lw_module := snd (sectionFor kind (lw_module l)) \<rparr>)))
      | Dir_Global \<Rightarrow> Some (add_names mo_globals_update directive l)
      | Dir_Extern \<Rightarrow> Some (add_names mo_externs_update directive l)
      | Dir_Weak \<Rightarrow> Some (add_names mo_weaks_update directive l)
      | Dir_Byte \<Rightarrow> Some (lowerData directive l)
      | Dir_Word \<Rightarrow> Some (lowerData directive l)
      | Dir_Dword \<Rightarrow> Some (lowerData directive l)
      | Dir_Qword \<Rightarrow> Some (lowerData directive l)
      | Dir_Asciz \<Rightarrow>
          (let (ok, l) = requireInitialisableSection location ''.asciz'' l in
           if \<not> ok then Some l
           else case operand_at operands 0 of
                  None \<Rightarrow> None
                | Some operand \<Rightarrow> Some (emit_ir (It_Bytes (bytes_of (op_text operand) @ [0]) location) l))
      | Dir_Align \<Rightarrow>
          (case operand_at operands 0 of
             None \<Rightarrow> None
           | Some operand \<Rightarrow> Some (emit_ir (It_Align (op_immediate operand) location) l))
      | Dir_Space \<Rightarrow>
          (case operand_at operands 0 of
             None \<Rightarrow> None
           | Some operand \<Rightarrow>
               let sz = op_immediate operand;
                   fill = (if length operands > 1 then ucast (op_immediate (operands ! 1) AND 0xFF) else 0);
                   (ok, l) = (if fill \<noteq> 0
                     then requireInitialisableSection location ''.space with a non-zero fill'' l else (True, l))
               in if \<not> ok then Some l else Some (emit_ir (It_Space sz fill location) l)))"

definition setValue :: "IrInstruction \<Rightarrow> Operand \<Rightarrow> IrInstruction" where
  "setValue instruction operand =
     (if op_type operand = OT_Symbol
      then instruction\<lparr> ii_symbol := Some \<lparr> ref_name = op_symbol operand, ref_addend = op_immediate operand \<rparr>,
             ii_machine := (ii_machine instruction)\<lparr> i_imm := 0 \<rparr> \<rparr>
      else instruction\<lparr> ii_machine := (ii_machine instruction)\<lparr> i_imm := op_immediate operand \<rparr> \<rparr>)"

definition lower_operands :: "OpcodeInfo \<Rightarrow> Operand list \<Rightarrow> SourceLocation \<Rightarrow> IrInstruction option" where
  "lower_operands info operands location =
     (let machine = mk_instr (oi_opcode info) 0 0 0;
          with_machine = (\<lambda>m. \<lparr> ii_machine = m, ii_symbol = None, ii_location = location \<rparr>)
      in case oi_format info of
        Fmt_None \<Rightarrow> Some (with_machine machine)
      | Fmt_Reg1 \<Rightarrow>
          (case operand_at operands 0 of
             None \<Rightarrow> None | Some a \<Rightarrow> Some (with_machine (machine\<lparr> i_dst := op_reg a \<rparr>)))
      | Fmt_Reg2 \<Rightarrow>
          (case (operand_at operands 0, operand_at operands 1) of
             (Some a, Some b) \<Rightarrow> Some (with_machine (machine\<lparr> i_dst := op_reg a, i_src := op_reg b \<rparr>))
           | _ \<Rightarrow> None)
      | Fmt_RegImm \<Rightarrow>
          (case (operand_at operands 0, operand_at operands 1) of
             (Some a, Some b) \<Rightarrow> Some (setValue (with_machine (machine\<lparr> i_dst := op_reg a \<rparr>)) b)
           | _ \<Rightarrow> None)
      | Fmt_Mem \<Rightarrow>
          (case (operand_at operands 0, operand_at operands 1) of
             (Some a, Some b) \<Rightarrow>
               let store = (oi_opcode info = OP_STORE);
                   mem = (if store then a else b); reg = (if store then b else a)
               in Some (with_machine (machine\<lparr> i_dst := (if store then op_reg mem else op_reg reg),
                    i_src := (if store then op_reg reg else op_reg mem), i_imm := op_immediate mem \<rparr>))
           | _ \<Rightarrow> None)
      | Fmt_Jump \<Rightarrow>
          (case operand_at operands 0 of None \<Rightarrow> None | Some a \<Rightarrow> Some (setValue (with_machine machine) a))
      | Fmt_SysImm \<Rightarrow>
          (case operand_at operands 0 of
             None \<Rightarrow> None | Some a \<Rightarrow> Some (with_machine (machine\<lparr> i_imm := op_immediate a \<rparr>))))"

definition lowerInstruction :: "InstructionNode \<Rightarrow> Lowerer \<Rightarrow> Lowerer option" where
  "lowerInstruction node l =
     (case findMnemonic (in_mnemonic node) of
        None \<Rightarrow> Some (lower_error (in_location node) EC_InvalidOpcode
          (''unknown instruction '' @ quoted (in_mnemonic node)) l)
      | Some info \<Rightarrow>
          if lw_current_kind l \<noteq> Kind_Text
          then Some (lower_error (in_location node) EC_InvalidSectionReference
                 (''instructions may only appear in .text, not in '' @ sectionName (lw_current_kind l)) l)
          else case lower_operands info (in_operands node) (in_location node) of
                 None \<Rightarrow> None
               | Some instruction \<Rightarrow> Some (emit_ir (It_Instruction instruction) l))"

fun lowerStatement :: "Statement \<Rightarrow> Lowerer \<Rightarrow> Lowerer option" where
  "lowerStatement (St_Label label) l = Some (emit_ir (It_Label (ln_name label) (ln_local label) (ln_location label)) l)"
| "lowerStatement (St_Directive directive) l = lowerDirective directive l"
| "lowerStatement (St_Instruction node) l = lowerInstruction node l"

fun lower_statements :: "Program \<Rightarrow> Lowerer \<Rightarrow> Lowerer option" where
  "lower_statements [] l = Some l"
| "lower_statements (s # ss) l = (case lowerStatement s l of None \<Rightarrow> None | Some l \<Rightarrow> lower_statements ss l)"

definition lower_program ::
  "Program \<Rightarrow> string \<Rightarrow> DiagnosticEngine \<Rightarrow> ((string, Module) expected \<times> DiagnosticEngine) option" where
  "lower_program program name diagnostics =
     (case lower_statements program (start_lowerer name diagnostics) of
        None \<Rightarrow> None
      | Some l \<Rightarrow>
          Some (if lw_failed l
                then Inl (nat_str (de_error_count (lw_engine l)) @ '' error(s) lowering to IR'')
                else Inr (lw_module l), lw_engine l))"

end
