(* ===== verification/Sema.thy ===== *)
theory Sema
  imports Ast Encoding
begin

text \<open>
  src/assembler/sema.cpp: the checks on one parsed file.  The analyzer keeps the diagnostics, the
  labels with their locations and the verdict.  \<open>labels_\<close> is a hash map; the model is a map.  The
  indexing of \<open>operands\<close> is behind the check of their number.
\<close>

definition kSectionNames :: "string list" where
  "kSectionNames = [''.text'', ''.rodata'', ''.data'', ''.bss'']"

definition isKnownSection :: "string \<Rightarrow> bool" where
  "isKnownSection name \<longleftrightarrow> name \<in> set kSectionNames"

definition fitsInWidth :: "i64 \<Rightarrow> nat \<Rightarrow> bool" where
  "fitsInWidth v bytes =
     (let bits = bytes * 8 in if bits \<ge> 64 then True else fitsSigned v bits \<or> fitsUnsigned v bits)"

record Analyzer =
  an_engine :: DiagnosticEngine
  an_labels :: "string \<Rightarrow> SourceLocation option"
  an_valid :: bool

definition sema_error :: "ErrorCode \<Rightarrow> SourceLocation \<Rightarrow> string \<Rightarrow> Analyzer \<Rightarrow> Analyzer" where
  "sema_error code location message a =
     a\<lparr> an_engine := report_error code location message (an_engine a), an_valid := False \<rparr>"

definition errorWithNote ::
  "ErrorCode \<Rightarrow> SourceLocation \<Rightarrow> string \<Rightarrow> SourceLocation \<Rightarrow> string \<Rightarrow> Analyzer \<Rightarrow> Analyzer" where
  "errorWithNote code location message note_location note_text a =
     a\<lparr> an_engine := report (Diagnostic Sev_Error code location message
            [Diagnostic Sev_Note EC_None note_location note_text [] None] None) (an_engine a),
        an_valid := False \<rparr>"

definition isValueOperand :: "Operand \<Rightarrow> bool" where
  "isValueOperand operand \<longleftrightarrow> op_type operand = OT_Immediate \<or> op_type operand = OT_Symbol"

definition checkSignedRange :: "Operand \<Rightarrow> nat \<Rightarrow> string \<Rightarrow> Analyzer \<Rightarrow> bool \<times> Analyzer" where
  "checkSignedRange operand bits what a =
     (if op_type operand \<noteq> OT_Immediate then (True, a)
      else if fitsSigned (op_immediate operand) bits then (True, a)
      else (False, sema_error EC_IntegerOverflow (op_location operand)
             (what @ '' '' @ int_str (sint (op_immediate operand)) @ '' does not fit in '' @ nat_str bits @
              '' signed bits'') a))"

definition checkLabel :: "LabelNode \<Rightarrow> Analyzer \<Rightarrow> Analyzer" where
  "checkLabel label a =
     (case an_labels a (ln_name label) of
        None \<Rightarrow> a\<lparr> an_labels := (an_labels a)(ln_name label \<mapsto> ln_location label) \<rparr>
      | Some first \<Rightarrow> errorWithNote EC_DuplicateSymbol (ln_location label)
          (''duplicate label '' @ quoted (ln_name label)) first ''previously defined here'' a)"

definition requireKind :: "OpcodeInfo \<Rightarrow> Operand \<Rightarrow> OperandType \<Rightarrow> string \<Rightarrow> Analyzer \<Rightarrow> bool \<times> Analyzer" where
  "requireKind info operand wanted described a =
     (if op_type operand \<noteq> wanted
      then (False, sema_error EC_InvalidOperand (op_location operand)
             (oi_mnemonic info @ '' expects '' @ described @ '' here, found '' @
              operandTypeName (op_type operand)) a)
      else (True, a))"

definition checkOperands :: "OpcodeInfo \<Rightarrow> Operand list \<Rightarrow> Analyzer \<Rightarrow> Analyzer" where
  "checkOperands info operands a =
     (case oi_format info of
        Fmt_None \<Rightarrow> a
      | Fmt_Reg1 \<Rightarrow> snd (requireKind info (operands ! 0) OT_Register ''a register'' a)
      | Fmt_Reg2 \<Rightarrow>
          (let a = snd (requireKind info (operands ! 0) OT_Register ''a register'' a)
           in snd (requireKind info (operands ! 1) OT_Register ''a register'' a))
      | Fmt_RegImm \<Rightarrow>
          (let (ok, a) = requireKind info (operands ! 0) OT_Register ''a register'' a in
           if ok \<and> \<not> isValueOperand (operands ! 1)
           then sema_error EC_InvalidOperand (op_location (operands ! 1))
                  (oi_mnemonic info @ '' expects an immediate or a symbol here, found '' @
                   operandTypeName (op_type (operands ! 1))) a
           else snd (checkSignedRange (operands ! 1) kImmediateBits ''immediate'' a))
      | Fmt_Mem \<Rightarrow>
          (let store = (oi_opcode info = OP_STORE);
               mem = (if store then operands ! 0 else operands ! 1);
               reg = (if store then operands ! 1 else operands ! 0);
               a = snd (requireKind info reg OT_Register ''a register'' a);
               (ok, a) = requireKind info mem OT_Memory (''a '' @ quoted ''[base + disp]'' @ '' memory operand'') a
           in if ok then snd (checkSignedRange mem kImmediateBits ''displacement'' a) else a)
      | Fmt_Jump \<Rightarrow>
          (if \<not> isValueOperand (operands ! 0)
           then sema_error EC_InvalidOperand (op_location (operands ! 0))
                  (oi_mnemonic info @ '' expects a label or a displacement, found '' @
                   operandTypeName (op_type (operands ! 0))) a
           else
             let (ok, a) = checkSignedRange (operands ! 0) kImmediateBits ''displacement'' a in
             if ok \<and> op_type (operands ! 0) = OT_Immediate \<and>
                op_immediate (operands ! 0) mod of_nat kInstructionSize \<noteq> 0
             then sema_error EC_InvalidOperand (op_location (operands ! 0))
                    (''branch displacement '' @ int_str (sint (op_immediate (operands ! 0))) @
                     '' is not a multiple of '' @ nat_str kInstructionSize) a
             else a)
      | Fmt_SysImm \<Rightarrow>
          (if op_type (operands ! 0) \<noteq> OT_Immediate
           then sema_error EC_InvalidOperand (op_location (operands ! 0))
                  ''SYSCALL expects a literal service number'' a
           else if sint (op_immediate (operands ! 0)) < 0 \<or>
                \<not> fitsUnsigned (op_immediate (operands ! 0)) kImmediateBits
           then sema_error EC_IntegerOverflow (op_location (operands ! 0))
                  (''syscall number '' @ int_str (sint (op_immediate (operands ! 0))) @ '' is out of range'') a
           else a))"

definition checkInstruction :: "InstructionNode \<Rightarrow> Analyzer \<Rightarrow> Analyzer" where
  "checkInstruction instruction a =
     (case findMnemonic (in_mnemonic instruction) of
        None \<Rightarrow> sema_error EC_InvalidOpcode (in_location instruction)
          (''unknown instruction '' @ quoted (in_mnemonic instruction)) a
      | Some info \<Rightarrow>
          let operands = in_operands instruction; expected = operandCount (oi_format info) in
          if length operands \<noteq> expected
          then sema_error EC_InvalidOperand (in_location instruction)
                 (oi_mnemonic info @ '' takes '' @ nat_str expected @ '' operand'' @
                  (if expected = 1 then [] else ''s'') @ '', but '' @ nat_str (length operands) @ '' '' @
                  (if length operands = 1 then ''was'' else ''were'') @ '' given'') a
          else checkOperands info operands a)"

subsection \<open>Directives\<close>

definition requireOperandCount :: "DirectiveNode \<Rightarrow> nat \<Rightarrow> nat \<Rightarrow> Analyzer \<Rightarrow> bool \<times> Analyzer" where
  "requireOperandCount directive least most a =
     (let count = length (dn_operands directive); name = directiveName (dn_type directive) in
      if count < least \<or> count > most
      then (False, sema_error EC_InvalidDirective (dn_location directive)
             (if least = most
              then name @ '' takes exactly '' @ nat_str least @ '' operand(s), '' @ nat_str count @ '' given''
              else name @ '' takes between '' @ nat_str least @ '' and '' @ nat_str most @ '' operands, '' @
                   nat_str count @ '' given'') a)
      else (True, a))"

definition checkName :: "DirectiveType \<Rightarrow> Operand \<Rightarrow> Analyzer \<Rightarrow> Analyzer" where
  "checkName type operand a =
     (if op_type operand \<noteq> OT_Symbol \<or> op_immediate operand \<noteq> 0
      then sema_error EC_InvalidDirective (op_location operand)
             (directiveName type @ '' expects plain symbol names'') a
      else a)"

definition checkValue :: "DirectiveType \<Rightarrow> Operand \<Rightarrow> Analyzer \<Rightarrow> Analyzer" where
  "checkValue type operand a =
     (let width = dataDirectiveWidth type; name = directiveName type in
      if \<not> isValueOperand operand
      then sema_error EC_InvalidDirective (op_location operand)
             (name @ '' expects integers or symbol references, found '' @ operandTypeName (op_type operand)) a
      else if op_type operand = OT_Symbol \<and> width \<noteq> 8 \<and> width \<noteq> 4
      then sema_error EC_InvalidRelocation (op_location operand)
             (''a symbol address needs .dword or .qword, not '' @ name) a
      else if op_type operand = OT_Immediate \<and> \<not> fitsInWidth (op_immediate operand) (unat width)
      then sema_error EC_IntegerOverflow (op_location operand)
             (int_str (sint (op_immediate operand)) @ '' does not fit in the '' @ nat_str (unat width) @
              '' byte(s) of '' @ name) a
      else a)"

definition checkSpace :: "Operand list \<Rightarrow> Analyzer \<Rightarrow> Analyzer" where
  "checkSpace operands a =
     (let a = (if op_type (operands ! 0) \<noteq> OT_Immediate \<or> sint (op_immediate (operands ! 0)) < 0
               then sema_error EC_InvalidDirective (op_location (operands ! 0))
                      ''.space expects a non-negative size'' a
               else a)
      in if length operands = 2 \<and> (op_type (operands ! 1) \<noteq> OT_Immediate \<or>
             \<not> fitsInWidth (op_immediate (operands ! 1)) 1)
         then sema_error EC_InvalidDirective (op_location (operands ! 1))
                ''.space fill value must be a single byte'' a
         else a)"

definition checkAlign :: "Operand \<Rightarrow> Analyzer \<Rightarrow> Analyzer" where
  "checkAlign operand a =
     (if op_type operand \<noteq> OT_Immediate \<or> sint (op_immediate operand) \<le> 0
      then sema_error EC_InvalidDirective (op_location operand) ''.align expects a positive integer'' a
      else if op_immediate operand AND (op_immediate operand - 1) \<noteq> 0
      then sema_error EC_InvalidDirective (op_location operand)
             (''.align expects a power of two, found '' @ nat_str (unat (op_immediate operand))) a
      else a)"

definition checkDirective :: "DirectiveNode \<Rightarrow> Analyzer \<Rightarrow> Analyzer" where
  "checkDirective directive a =
     (let operands = dn_operands directive; type = dn_type directive; name = directiveName type;
          names = (if operands = []
            then sema_error EC_InvalidDirective (dn_location directive)
                   (name @ '' needs at least one symbol name'') a
            else fold (checkName type) operands a);
          data = (if operands = []
            then sema_error EC_InvalidDirective (dn_location directive) (name @ '' needs at least one value'') a
            else fold (checkValue type) operands a)
      in case type of
        Dir_Section \<Rightarrow>
          (let (ok, a) = requireOperandCount directive 1 1 a in
           if \<not> ok then a
           else if op_type (operands ! 0) \<noteq> OT_Symbol
           then sema_error EC_InvalidDirective (op_location (operands ! 0)) ''.section expects a section name'' a
           else if \<not> isKnownSection (op_symbol (operands ! 0))
           then sema_error EC_InvalidSectionReference (op_location (operands ! 0))
                  (''unknown section '' @ quoted (op_symbol (operands ! 0)) @
                   ''; expected .text, .rodata, .data or .bss'') a
           else a)
      | Dir_Global \<Rightarrow> names | Dir_Extern \<Rightarrow> names | Dir_Weak \<Rightarrow> names
      | Dir_Byte \<Rightarrow> data | Dir_Word \<Rightarrow> data | Dir_Dword \<Rightarrow> data | Dir_Qword \<Rightarrow> data
      | Dir_Asciz \<Rightarrow>
          (let (ok, a) = requireOperandCount directive 1 1 a in
           if \<not> ok then a
           else if op_type (operands ! 0) \<noteq> OT_String
           then sema_error EC_InvalidDirective (op_location (operands ! 0)) ''.asciz expects a string literal'' a
           else a)
      | Dir_Align \<Rightarrow>
          (let (ok, a) = requireOperandCount directive 1 1 a in if \<not> ok then a else checkAlign (operands ! 0) a)
      | Dir_Space \<Rightarrow>
          (let (ok, a) = requireOperandCount directive 1 2 a in if \<not> ok then a else checkSpace operands a))"

fun checkStatement :: "Statement \<Rightarrow> Analyzer \<Rightarrow> Analyzer" where
  "checkStatement (St_Instruction node) a = checkInstruction node a"
| "checkStatement (St_Directive node) a = checkDirective node a"
| "checkStatement (St_Label node) a = checkLabel node a"

definition analyze :: "Program \<Rightarrow> DiagnosticEngine \<Rightarrow> bool \<times> DiagnosticEngine" where
  "analyze program diagnostics =
     (let a = fold checkStatement program \<lparr> an_engine = diagnostics, an_labels = (\<lambda>_. None), an_valid = True \<rparr>
      in (an_valid a, an_engine a))"

end
