(* ===== verification/Sema_Safety.thy ===== *)
theory Sema_Safety
  imports Sema
begin

text \<open>
  What the analyzer accepts, as a predicate on the syntax tree: every statement has the shape its
  mnemonic or directive asks for, and no label is defined twice.  The analyzer decides this
  predicate and reports an error for every statement that breaks it.
\<close>

subsection \<open>Statements\<close>

definition is_register :: "Operand \<Rightarrow> bool" where
  "is_register opd \<longleftrightarrow> op_type opd = OT_Register"

definition is_literal :: "(i64 \<Rightarrow> bool) \<Rightarrow> Operand \<Rightarrow> bool" where
  "is_literal P opd \<longleftrightarrow> op_type opd = OT_Immediate \<and> P (op_immediate opd)"

definition literal_or_symbol :: "(i64 \<Rightarrow> bool) \<Rightarrow> Operand \<Rightarrow> bool" where
  "literal_or_symbol P opd \<longleftrightarrow> is_literal P opd \<or> op_type opd = OT_Symbol"

definition fits_field :: "i64 \<Rightarrow> bool" where
  "fits_field v \<longleftrightarrow> fitsSigned v kImmediateBits"

definition operands_ok :: "OpcodeInfo \<Rightarrow> Operand list \<Rightarrow> bool" where
  "operands_ok info operands =
     (case (oi_format info, operands) of
        (Fmt_None, []) \<Rightarrow> True
      | (Fmt_Reg1, [a]) \<Rightarrow> is_register a
      | (Fmt_Reg2, [a, b]) \<Rightarrow> is_register a \<and> is_register b
      | (Fmt_RegImm, [a, b]) \<Rightarrow> is_register a \<and> literal_or_symbol fits_field b
      | (Fmt_Mem, [a, b]) \<Rightarrow>
          if oi_opcode info = OP_STORE then op_type a = OT_Memory \<and> is_register b
          else is_register a \<and> op_type b = OT_Memory
      | (Fmt_Jump, [a]) \<Rightarrow> literal_or_symbol (\<lambda>v. fits_field v \<and> v mod 8 = 0) a
      | (Fmt_SysImm, [a]) \<Rightarrow> is_literal (\<lambda>v. 0 \<le> sint v \<and> fitsUnsigned v kImmediateBits) a
      | _ \<Rightarrow> False)"

definition instruction_ok :: "InstructionNode \<Rightarrow> bool" where
  "instruction_ok node \<longleftrightarrow>
     (case findMnemonic (in_mnemonic node) of None \<Rightarrow> False | Some info \<Rightarrow> operands_ok info (in_operands node))"

definition plain_name :: "Operand \<Rightarrow> bool" where
  "plain_name opd \<longleftrightarrow> op_type opd = OT_Symbol \<and> op_immediate opd = 0"

definition value_ok :: "nat \<Rightarrow> Operand \<Rightarrow> bool" where
  "value_ok width opd \<longleftrightarrow> is_literal (\<lambda>v. fitsInWidth v width) opd \<or> op_type opd = OT_Symbol \<and> (width = 4 \<or> width = 8)"

definition one_operand :: "(Operand \<Rightarrow> bool) \<Rightarrow> Operand list \<Rightarrow> bool" where
  "one_operand P opds = (case opds of [a] \<Rightarrow> P a | _ \<Rightarrow> False)"

definition one_or_two :: "(Operand \<Rightarrow> bool) \<Rightarrow> (Operand \<Rightarrow> bool) \<Rightarrow> Operand list \<Rightarrow> bool" where
  "one_or_two P Q opds = (case opds of [a] \<Rightarrow> P a | [a, b] \<Rightarrow> P a \<and> Q b | _ \<Rightarrow> False)"

definition directive_ok :: "DirectiveNode \<Rightarrow> bool" where
  "directive_ok node \<longleftrightarrow>
     (let operands = dn_operands node; width = unat (dataDirectiveWidth (dn_type node)) in
      if dn_type node = Dir_Section
      then one_operand (\<lambda>a. op_type a = OT_Symbol \<and> isKnownSection (op_symbol a)) operands
      else if dn_type node \<in> {Dir_Global, Dir_Extern, Dir_Weak}
      then operands \<noteq> [] \<and> list_all plain_name operands
      else if width \<noteq> 0 then operands \<noteq> [] \<and> list_all (value_ok width) operands
      else if dn_type node = Dir_Asciz then one_operand (\<lambda>a. op_type a = OT_String) operands
      else if dn_type node = Dir_Align
      then one_operand (is_literal (\<lambda>v. 0 < sint v \<and> v AND (v - 1) = 0)) operands
      else one_or_two (is_literal (\<lambda>v. 0 \<le> sint v)) (is_literal (\<lambda>v. fitsInWidth v 1)) operands)"

fun statement_ok :: "Statement \<Rightarrow> bool" where
  "statement_ok (St_Instruction node) = instruction_ok node"
| "statement_ok (St_Directive node) = directive_ok node"
| "statement_ok (St_Label _) = True"

fun label_names :: "Program \<Rightarrow> string list" where
  "label_names [] = []"
| "label_names (St_Label node # ss) = ln_name node # label_names ss"
| "label_names (_ # ss) = label_names ss"

definition program_ok :: "Program \<Rightarrow> bool" where
  "program_ok program \<longleftrightarrow> list_all statement_ok program \<and> distinct (label_names program)"

subsection \<open>One check\<close>

text \<open>
  A check either finds nothing and leaves the analyzer alone, or reports at least one error and
  rejects; the labels are untouched.
\<close>

definition judges :: "bool \<Rightarrow> Analyzer \<Rightarrow> Analyzer \<Rightarrow> bool" where
  "judges ok a a' \<longleftrightarrow> an_labels a' = an_labels a \<and>
     (if ok then a' = a
      else \<not> an_valid a' \<and> de_error_count (an_engine a) < de_error_count (an_engine a'))"

lemma judges_same [simp]: "judges True a a' \<longleftrightarrow> a' = a"
  by (auto simp: judges_def)

lemma sema_error_judges [simp, intro]: "judges False a (sema_error code location message a)"
  by (simp add: judges_def sema_error_def report_error_def error_diagnostic_def report_def)

lemma judges_more:
  assumes "judges p a b" and "judges q b c"
  shows "judges (p \<and> q) a c"
  using assms by (auto simp: judges_def split: if_splits)

lemma requireKind_judges:
  "fst (requireKind info opd wanted described a) \<longleftrightarrow> op_type opd = wanted"
  "judges (op_type opd = wanted) a (snd (requireKind info opd wanted described a))"
  by (simp_all add: requireKind_def)

lemma checkSignedRange_judges:
  "fst (checkSignedRange opd bits what a) \<longleftrightarrow> op_type opd \<noteq> OT_Immediate \<or> fitsSigned (op_immediate opd) bits"
  "judges (op_type opd \<noteq> OT_Immediate \<or> fitsSigned (op_immediate opd) bits) a (snd (checkSignedRange opd bits what a))"
  by (simp_all add: checkSignedRange_def)

lemma list_cases1: "length xs = 1 \<Longrightarrow> \<exists>x. xs = [x]" by (cases xs) auto
lemma list_cases2: "length xs = 2 \<Longrightarrow> \<exists>x y. xs = [x, y]" by (cases xs; cases "tl xs") auto

lemma multiple_of_8: "8 dvd (v :: i64) \<longleftrightarrow> v mod 8 = 0"
  using take_bit_eq_0_iff [of 3 v] by (simp add: take_bit_eq_mod)

lemma checkOperands_judges:
  assumes "length operands = operandCount (oi_format info)"
  shows "judges (operands_ok info operands) a (checkOperands info operands a)"
proof (cases "oi_format info")
  case Fmt_None
  then show ?thesis using assms by (simp add: checkOperands_def operands_ok_def)
next
  case Fmt_Reg1
  then obtain x where "operands = [x]" using assms list_cases1 by fastforce
  with Fmt_Reg1 show ?thesis by (simp add: checkOperands_def requireKind_judges is_register_def operands_ok_def)
next
  case Fmt_Reg2
  then obtain x y where "operands = [x, y]" using assms list_cases2 by fastforce
  with Fmt_Reg2 show ?thesis
    by (auto simp: checkOperands_def is_register_def operands_ok_def Let_def intro: judges_more requireKind_judges)
next
  case Fmt_RegImm
  then obtain x y where o: "operands = [x, y]" using assms list_cases2 by fastforce
  obtain ok a1 where r: "requireKind info x OT_Register ''a register'' a = (ok, a1)" by fastforce
  have 1: "ok \<longleftrightarrow> op_type x = OT_Register" "judges ok a a1"
    using requireKind_judges [where info = info and opd = x and wanted = OT_Register and described = "''a register''" and a = a] r by simp_all
  show ?thesis
  proof (cases "ok \<and> \<not> isValueOperand y")
    case True
    then have "\<not> operands_ok info operands"
      using Fmt_RegImm by (auto simp: o operands_ok_def literal_or_symbol_def is_literal_def isValueOperand_def)
    moreover have "a1 = a" using 1 True by simp
    ultimately show ?thesis using True Fmt_RegImm by (simp add: checkOperands_def o r)
  next
    case False
    then have "operands_ok info operands \<longleftrightarrow> ok \<and>
        (op_type y \<noteq> OT_Immediate \<or> fitsSigned (op_immediate y) kImmediateBits)"
      using Fmt_RegImm 1(1)
      by (auto simp: o is_register_def operands_ok_def literal_or_symbol_def is_literal_def isValueOperand_def fits_field_def)
    moreover have "judges (ok \<and> (op_type y \<noteq> OT_Immediate \<or> fitsSigned (op_immediate y) kImmediateBits))
        a (snd (checkSignedRange y kImmediateBits ''immediate'' a1))"
      by (rule judges_more [OF 1(2) checkSignedRange_judges(2)])
    moreover have "checkOperands info operands a = snd (checkSignedRange y kImmediateBits ''immediate'' a1)"
      using False Fmt_RegImm by (auto simp: checkOperands_def o r)
    ultimately show ?thesis by simp
  qed
next
  case Fmt_Mem
  then obtain x y where o: "operands = [x, y]" using assms list_cases2 by fastforce
  define mem reg where "mem = (if oi_opcode info = OP_STORE then x else y)"
    and "reg = (if oi_opcode info = OP_STORE then y else x)"
  define what where "what = ''a '' @ quoted ''[base + disp]'' @ '' memory operand''"
  obtain ok1 a1 where r1: "requireKind info reg OT_Register ''a register'' a = (ok1, a1)" by fastforce
  obtain ok2 a2 where r2: "requireKind info mem OT_Memory what a1 = (ok2, a2)" by fastforce
  have 1: "judges (op_type reg = OT_Register) a a1"
    using requireKind_judges [where info = info and opd = reg and wanted = OT_Register and described = "''a register''" and a = a] r1 by simp
  have 2: "ok2 \<longleftrightarrow> op_type mem = OT_Memory" "judges (op_type mem = OT_Memory) a1 a2"
    using requireKind_judges [where info = info and opd = mem and wanted = OT_Memory and described = what and a = a1] r2 by simp_all
  have "judges (op_type reg = OT_Register \<and> op_type mem = OT_Memory) a a2" by (rule judges_more [OF 1 2(2)])
  moreover have "checkOperands info operands a =
      (let (ok, a) = requireKind info mem OT_Memory what (snd (requireKind info reg OT_Register ''a register'' a))
       in if ok then snd (checkSignedRange mem kImmediateBits ''displacement'' a) else a)"
    by (cases "oi_opcode info = OP_STORE") (simp_all add: checkOperands_def Fmt_Mem o mem_def reg_def what_def split: prod.split)
  then have "checkOperands info operands a =
      (if ok2 then snd (checkSignedRange mem kImmediateBits ''displacement'' a2) else a2)"
    by (simp add: r1 r2)
  then have "checkOperands info operands a = a2" using 2(1) by (simp add: checkSignedRange_def)
  moreover have "operands_ok info operands \<longleftrightarrow> op_type reg = OT_Register \<and> op_type mem = OT_Memory"
    using Fmt_Mem by (auto simp: o mem_def reg_def is_register_def operands_ok_def)
  ultimately show ?thesis by simp
next
  case Fmt_Jump
  then obtain x where o: "operands = [x]" using assms list_cases1 by fastforce
  obtain ok a1 where r: "checkSignedRange x kImmediateBits ''displacement'' a = (ok, a1)" by fastforce
  define whole where "whole = (op_immediate x mod 8 = 0)"
  from r checkSignedRange_judges [where opd = x and bits = kImmediateBits and what = "''displacement''" and a = a]
  have 1: "ok \<longleftrightarrow> op_type x \<noteq> OT_Immediate \<or> fits_field (op_immediate x)" "judges ok a a1"
    by (simp_all add: fits_field_def)
  have "operands_ok info operands \<longleftrightarrow> isValueOperand x \<and> ok \<and> (op_type x = OT_Immediate \<longrightarrow> whole)"
    using Fmt_Jump 1(1) by (auto simp: o operands_ok_def isValueOperand_def literal_or_symbol_def is_literal_def whole_def multiple_of_8)
  moreover have "\<exists>message. checkOperands info operands a = (if isValueOperand x
      then if ok \<and> op_type x = OT_Immediate \<and> \<not> whole
        then sema_error EC_InvalidOperand (op_location x) message a1 else a1
      else sema_error EC_InvalidOperand (op_location x) message a)"
    unfolding whole_def by (cases "isValueOperand x") (force simp add: checkOperands_def Fmt_Jump o r kInstructionSize_def)+
  ultimately show ?thesis using 1 by (cases ok; cases whole; cases "isValueOperand x"; cases "op_type x = OT_Immediate") auto
next
  case Fmt_SysImm
  then obtain x where "operands = [x]" using assms list_cases1 by fastforce
  with Fmt_SysImm show ?thesis by (auto simp: checkOperands_def operands_ok_def is_literal_def not_less)
qed

lemma checkInstruction_judges: "judges (instruction_ok node) a (checkInstruction node a)"
proof (cases "findMnemonic (in_mnemonic node)")
  case None
  then show ?thesis by (simp add: checkInstruction_def instruction_ok_def)
next
  case (Some info)
  show ?thesis
  proof (cases "length (in_operands node) = operandCount (oi_format info)")
    case True
    then show ?thesis using Some checkOperands_judges [OF True] by (simp add: checkInstruction_def instruction_ok_def)
  next
    case False
    then have "\<not> operands_ok info (in_operands node)"
      by (cases "oi_format info") (auto simp: operands_ok_def split: list.splits)
    then show ?thesis using Some False by (simp add: checkInstruction_def instruction_ok_def Let_def)
  qed
qed

lemma fold_judges:
  assumes "\<And>x a. judges (P x) a (f x a)"
  shows "judges (list_all P xs) a (fold f xs a)"
proof (induction xs arbitrary: a)
  case (Cons x xs)
  from judges_more [OF assms [of x a] Cons.IH [of "f x a"]] show ?case by simp
qed simp

lemma requireOperandCount_judges:
  "fst (requireOperandCount d least most a) \<longleftrightarrow> least \<le> length (dn_operands d) \<and> length (dn_operands d) \<le> most"
  "judges (least \<le> length (dn_operands d) \<and> length (dn_operands d) \<le> most) a (snd (requireOperandCount d least most a))"
  by (auto simp: requireOperandCount_def Let_def not_le not_less)

lemma checkName_judges: "judges (plain_name opd) a (checkName type opd a)"
  by (auto simp: checkName_def plain_name_def)

lemma checkValue_judges: "judges (value_ok (unat (dataDirectiveWidth type)) opd) a (checkValue type opd a)"
  by (cases type) (auto simp: checkValue_def Let_def value_ok_def is_literal_def isValueOperand_def)

lemma checkAlign_judges:
  "judges (is_literal (\<lambda>v. 0 < sint v \<and> v AND (v - 1) = 0) opd) a (checkAlign opd a)"
  by (auto simp: checkAlign_def is_literal_def not_less)

lemma checkSpace_judges:
  "judges ((length operands = 2 \<longrightarrow> is_literal (\<lambda>v. fitsInWidth v 1) (operands ! 1)) \<and>
      is_literal (\<lambda>v. 0 \<le> sint v) (operands ! 0)) a (checkSpace operands a)"
proof -
  define a1 where "a1 = (if op_type (operands ! 0) \<noteq> OT_Immediate \<or> sint (op_immediate (operands ! 0)) < 0
    then sema_error EC_InvalidDirective (op_location (operands ! 0)) ''.space expects a non-negative size'' a else a)"
  define a2 where "a2 = (if length operands = 2 \<and> (op_type (operands ! 1) \<noteq> OT_Immediate \<or>
             \<not> fitsInWidth (op_immediate (operands ! 1)) 1)
         then sema_error EC_InvalidDirective (op_location (operands ! 1))
                ''.space fill value must be a single byte'' a1 else a1)"
  have "judges (is_literal (\<lambda>v. 0 \<le> sint v) (operands ! 0)) a a1"
    by (auto simp: a1_def is_literal_def not_less)
  moreover have "judges (length operands = 2 \<longrightarrow> is_literal (\<lambda>v. fitsInWidth v 1) (operands ! 1)) a1 a2"
    by (auto simp: a2_def is_literal_def)
  ultimately have "judges (is_literal (\<lambda>v. 0 \<le> sint v) (operands ! 0) \<and>
      (length operands = 2 \<longrightarrow> is_literal (\<lambda>v. fitsInWidth v 1) (operands ! 1))) a a2" by (rule judges_more)
  moreover have "checkSpace operands a = a2" unfolding checkSpace_def a1_def a2_def Let_def by (rule refl)
  ultimately show ?thesis by (simp only: conj_commute)
qed

text \<open>The directives with a fixed number of operands.\<close>

lemma counted_judges:
  assumes "least \<le> length (dn_operands d) \<and> length (dn_operands d) \<le> most \<Longrightarrow> judges P a (f a)"
  shows "judges ((least \<le> length (dn_operands d) \<and> length (dn_operands d) \<le> most) \<and> P) a
    (let (ok, a) = requireOperandCount d least most a in if \<not> ok then a else f a)"
proof -
  obtain ok a1 where r: "requireOperandCount d least most a = (ok, a1)" by fastforce
  with requireOperandCount_judges [where d = d and least = least and most = most and a = a]
  have "ok \<longleftrightarrow> least \<le> length (dn_operands d) \<and> length (dn_operands d) \<le> most" "judges ok a a1" by simp_all
  with assms show ?thesis by (cases ok) (auto simp: r)
qed

lemma operand_count_one: "(1 \<le> length xs \<and> length xs \<le> 1) \<and> P (xs ! 0) \<longleftrightarrow> one_operand P xs"
  by (cases xs) (auto simp: one_operand_def split: list.split)

lemma operand_count_two:
  "(1 \<le> length xs \<and> length xs \<le> 2) \<and> ((length xs = 2 \<longrightarrow> Q (xs ! 1)) \<and> P (xs ! 0)) \<longleftrightarrow> one_or_two P Q xs"
  by (cases xs; cases "tl xs") (auto simp: one_or_two_def split: list.split)

lemma checkDirective_judges: "judges (directive_ok d) a (checkDirective d a)"
proof -
  have names: "judges (dn_operands d \<noteq> [] \<and> list_all plain_name (dn_operands d)) a
      (if dn_operands d = [] then sema_error EC_InvalidDirective (dn_location d) message a
       else fold (checkName type) (dn_operands d) a)" for type message
    using fold_judges [of plain_name "checkName type", OF checkName_judges] by auto
  have data: "judges (dn_operands d \<noteq> [] \<and> list_all (value_ok (unat (dataDirectiveWidth type))) (dn_operands d)) a
      (if dn_operands d = [] then sema_error EC_InvalidDirective (dn_location d) message a
       else fold (checkValue type) (dn_operands d) a)" for type message
    using fold_judges [of "value_ok (unat (dataDirectiveWidth type))" "checkValue type", OF checkValue_judges] by auto
  show ?thesis
  proof (cases "dn_type d")
    case Dir_Section
    let ?x = "dn_operands d ! 0"
    let ?f = "\<lambda>a. if op_type ?x \<noteq> OT_Symbol
       then sema_error EC_InvalidDirective (op_location ?x) ''.section expects a section name'' a
       else if \<not> isKnownSection (op_symbol ?x)
       then sema_error EC_InvalidSectionReference (op_location ?x)
              (''unknown section '' @ quoted (op_symbol ?x) @ ''; expected .text, .rodata, .data or .bss'') a
       else a"
    have "judges (op_type ?x = OT_Symbol \<and> isKnownSection (op_symbol ?x)) a (?f a)" by auto
    from counted_judges [where least = 1 and most = 1 and d = d and f = ?f, OF this] show ?thesis
      unfolding operand_count_one [where P = "\<lambda>x. op_type x = OT_Symbol \<and> isKnownSection (op_symbol x)"]
      by (simp add: checkDirective_def directive_ok_def Let_def Dir_Section)
  next
    case Dir_Asciz
    let ?x = "dn_operands d ! 0"
    let ?f = "\<lambda>a. if op_type ?x \<noteq> OT_String
       then sema_error EC_InvalidDirective (op_location ?x) ''.asciz expects a string literal'' a else a"
    have "judges (op_type ?x = OT_String) a (?f a)" by auto
    from counted_judges [where least = 1 and most = 1 and d = d and f = ?f, OF this] show ?thesis
      unfolding operand_count_one [where P = "\<lambda>x. op_type x = OT_String"]
      by (simp add: checkDirective_def directive_ok_def Let_def Dir_Asciz)
  next
    case Dir_Align
    from counted_judges [where least = 1 and most = 1 and d = d and f = "checkAlign (dn_operands d ! 0)", OF checkAlign_judges] show ?thesis
      unfolding operand_count_one [where P = "is_literal (\<lambda>v. 0 < sint v \<and> v AND (v - 1) = 0)"]
      by (simp add: checkDirective_def directive_ok_def Let_def Dir_Align)
  next
    case Dir_Space
    from counted_judges [where least = 1 and most = 2 and d = d and f = "checkSpace (dn_operands d)", OF checkSpace_judges] show ?thesis
      unfolding operand_count_two [where P = "is_literal (\<lambda>v. 0 \<le> sint v)" and Q = "is_literal (\<lambda>v. fitsInWidth v 1)"]
      by (simp add: checkDirective_def directive_ok_def Let_def Dir_Space)
  qed (use names data [where type = Dir_Byte] data [where type = Dir_Word] data [where type = Dir_Dword]
       data [where type = Dir_Qword] in \<open>simp_all add: checkDirective_def directive_ok_def Let_def\<close>)
qed

subsection \<open>The whole program\<close>

lemma label_names_append: "label_names (ss @ ts) = label_names ss @ label_names ts"
  by (induction ss rule: label_names.induct) simp_all

lemma checkLabel_judges:
  "judges (an_labels a (ln_name node) = None)
     (if an_labels a (ln_name node) = None then checkLabel node a else a) (checkLabel node a)"
  by (auto simp: checkLabel_def judges_def errorWithNote_def report_def split: option.splits)

text \<open>
  The invariant of the analyzer after a prefix of the program: the labels of the prefix are known,
  the verdict is that of the prefix, and the errors were counted.
\<close>

definition analyzed :: "nat \<Rightarrow> Program \<Rightarrow> Analyzer \<Rightarrow> bool" where
  "analyzed n ss a \<longleftrightarrow> dom (an_labels a) = set (label_names ss) \<and> (an_valid a \<longleftrightarrow> program_ok ss) \<and>
     n \<le> de_error_count (an_engine a) \<and> (n = de_error_count (an_engine a) \<longleftrightarrow> program_ok ss)"

lemma judges_analyzed:
  assumes "judges ok a a'" and "analyzed n ss a" and "label_names [s] = []" and "ok \<longleftrightarrow> statement_ok s"
  shows "analyzed n (ss @ [s]) a'"
proof (cases ok)
  case True
  with assms show ?thesis by (auto simp: analyzed_def label_names_append program_ok_def)
next
  case False
  with assms show ?thesis by (auto simp: judges_def analyzed_def label_names_append program_ok_def)
qed

lemma checkStatement_analyzed:
  assumes "analyzed n ss a"
  shows "analyzed n (ss @ [s]) (checkStatement s a)"
proof (cases s)
  case (St_Instruction node)
  with judges_analyzed [OF checkInstruction_judges assms, of s] show ?thesis by simp
next
  case (St_Directive node)
  with judges_analyzed [OF checkDirective_judges assms, of s] show ?thesis by simp
next
  case (St_Label node)
  from assms have fresh: "an_labels a (ln_name node) = None \<longleftrightarrow> ln_name node \<notin> set (label_names ss)"
    by (metis analyzed_def domIff)
  show ?thesis
    using assms fresh
    by (cases "an_labels a (ln_name node)")
      (auto simp: St_Label analyzed_def checkLabel_def errorWithNote_def report_def label_names_append
        program_ok_def domI)
qed

lemma analyzed_all:
  assumes "analyzed n ss a"
  shows "analyzed n (ss @ ts) (fold checkStatement ts a)"
  using assms
proof (induction ts arbitrary: ss a)
  case (Cons t ts)
  from Cons.IH [OF checkStatement_analyzed [OF Cons.prems, of t]] show ?case by simp
qed simp

lemma analyze_analyzed:
  "analyzed (de_error_count diagnostics) program
     (fold checkStatement program \<lparr> an_engine = diagnostics, an_labels = (\<lambda>_. None), an_valid = True \<rparr>)"
  by (rule analyzed_all [where ss = "[]", simplified]) (simp add: analyzed_def program_ok_def)

lemma analyze_accepts: "fst (analyze program diagnostics) \<longleftrightarrow> program_ok program"
  using analyze_analyzed [of diagnostics program] by (simp add: analyze_def Let_def analyzed_def)

lemma one_operand_iff: "one_operand P xs \<longleftrightarrow> (\<exists>a. xs = [a] \<and> P a)"
  by (auto simp: one_operand_def split: list.splits)

lemma one_or_two_iff: "one_or_two P Q xs \<longleftrightarrow> (\<exists>a bs. xs = a # bs \<and> P a \<and> (bs = [] \<or> (\<exists>b. bs = [b] \<and> Q b)))"
  by (auto simp: one_or_two_def split: list.splits)

lemmas directive_ok_iff = directive_ok_def [unfolded Let_def one_operand_iff one_or_two_iff]


end
