(* ===== verification/Object_File.thy ===== *)
theory Object_File
  imports Encoding
begin

text \<open>
  include/minitool/object/object.hpp, src/object/object.cpp and
  include/minitool/assembler/symbol_table.hpp: the in-memory object file and its symbol table.
  \<open>st_index\<close> is the hash map from names to positions.  The contract the rest of the toolchain relies
  on, that indices are stable and lookups follow insertions, is the locale \<open>stable_table\<close>.
\<close>

definition kObjectMagic :: "u8 list" where "kObjectMagic = [0x4D, 0x4F, 0x42, 0x4A]"
definition kObjectVersion :: u16 where "kObjectVersion = 1"
definition kObjectHeaderSize :: nat where "kObjectHeaderSize = 64"

datatype SectionType = Sec_Null | Sec_Text | Sec_Rodata | Sec_Data | Sec_Bss

fun section_type_num :: "SectionType \<Rightarrow> u8" where
  "section_type_num Sec_Null = 0"
| "section_type_num Sec_Text = 1"
| "section_type_num Sec_Rodata = 2"
| "section_type_num Sec_Data = 3"
| "section_type_num Sec_Bss = 4"

fun sectionTypeName :: "SectionType \<Rightarrow> string" where
  "sectionTypeName Sec_Null = ''null''"
| "sectionTypeName Sec_Text = ''text''"
| "sectionTypeName Sec_Rodata = ''rodata''"
| "sectionTypeName Sec_Data = ''data''"
| "sectionTypeName Sec_Bss = ''bss''"

definition isValidSectionType :: "u8 \<Rightarrow> bool" where
  "isValidSectionType v \<longleftrightarrow> v \<le> section_type_num Sec_Bss"

definition to_section_type :: "u8 \<Rightarrow> SectionType" where
  "to_section_type v = (if v = 0 then Sec_Null else if v = 1 then Sec_Text else if v = 2 then Sec_Rodata
     else if v = 3 then Sec_Data else Sec_Bss)"

lemma section_type_round_trip [simp]:
  "to_section_type (section_type_num t) = t"
  "isValidSectionType v \<Longrightarrow> section_type_num (to_section_type v) = v"
  "isValidSectionType (section_type_num t)"
proof -
  show "to_section_type (section_type_num t) = t" by (cases t) (simp_all add: to_section_type_def)
  show "isValidSectionType (section_type_num t)" by (cases t) (simp_all add: isValidSectionType_def)
  assume "isValidSectionType v"
  then have "unat v \<le> 4" by (simp add: isValidSectionType_def word_le_nat_alt)
  then have "unat v = 0 \<or> unat v = 1 \<or> unat v = 2 \<or> unat v = 3 \<or> unat v = 4" by linarith
  then have "v = 0 \<or> v = 1 \<or> v = 2 \<or> v = 3 \<or> v = 4" by (simp add: word_unat_eq_iff)
  then show "section_type_num (to_section_type v) = v" by (auto simp: to_section_type_def)
qed

type_synonym SectionFlags = u8

definition ScF_Alloc :: SectionFlags where "ScF_Alloc = 1"
definition ScF_Write :: SectionFlags where "ScF_Write = 2"
definition ScF_Exec :: SectionFlags where "ScF_Exec = 4"

definition hasSectionFlag :: "SectionFlags \<Rightarrow> SectionFlags \<Rightarrow> bool" where
  "hasSectionFlag flags flag \<longleftrightarrow> flags AND flag = flag"

record Section =
  sec_name :: string
  sec_type :: SectionType
  sec_flags :: SectionFlags
  sec_alignment :: u64
  sec_data :: "u8 list"
  sec_size :: u64
  sec_index :: u32

datatype RelocationType = ABS32 | ABS64 | PCREL32 | IMM48 | PCREL48

fun relocation_type_num :: "RelocationType \<Rightarrow> u8" where
  "relocation_type_num ABS32 = 0"
| "relocation_type_num ABS64 = 1"
| "relocation_type_num PCREL32 = 2"
| "relocation_type_num IMM48 = 3"
| "relocation_type_num PCREL48 = 4"

fun relocationTypeName :: "RelocationType \<Rightarrow> string" where
  "relocationTypeName ABS32 = ''ABS32''"
| "relocationTypeName ABS64 = ''ABS64''"
| "relocationTypeName PCREL32 = ''PCREL32''"
| "relocationTypeName IMM48 = ''IMM48''"
| "relocationTypeName PCREL48 = ''PCREL48''"

definition isValidRelocationType :: "u8 \<Rightarrow> bool" where
  "isValidRelocationType v \<longleftrightarrow> v \<le> relocation_type_num PCREL48"

definition to_relocation_type :: "u8 \<Rightarrow> RelocationType" where
  "to_relocation_type v = (if v = 0 then ABS32 else if v = 1 then ABS64 else if v = 2 then PCREL32
     else if v = 3 then IMM48 else PCREL48)"

lemma relocation_type_round_trip [simp]:
  "to_relocation_type (relocation_type_num t) = t"
  "isValidRelocationType (relocation_type_num t)"
  by (cases t; simp add: to_relocation_type_def isValidRelocationType_def)+

fun relocationWidth :: "RelocationType \<Rightarrow> nat" where
  "relocationWidth ABS32 = 4"
| "relocationWidth PCREL32 = 4"
| "relocationWidth ABS64 = 8"
| "relocationWidth IMM48 = 8"
| "relocationWidth PCREL48 = 8"

record Relocation =
  rel_section :: u32
  rel_offset :: u64
  rel_type :: RelocationType
  rel_symbol :: u32
  rel_addend :: i64

record ObjDebugEntry =
  od_section :: u32
  od_file :: u32
  od_offset :: u64
  od_line :: u32
  od_column :: u32

subsection \<open>Symbols\<close>

definition kUndefinedSection :: u32 where "kUndefinedSection = 0xFFFFFFFF"

datatype SymbolBinding = Local | Global | Weak | Extern

fun binding_num :: "SymbolBinding \<Rightarrow> u8" where
  "binding_num Local = 0"
| "binding_num Global = 1"
| "binding_num Weak = 2"
| "binding_num Extern = 3"

definition to_binding :: "u8 \<Rightarrow> SymbolBinding" where
  "to_binding v = (if v = 0 then Local else if v = 1 then Global else if v = 2 then Weak else Extern)"

datatype SymbolType = Sym_NoType | Sym_Object | Sym_Function | Sym_Section

fun symbol_type_num :: "SymbolType \<Rightarrow> u8" where
  "symbol_type_num Sym_NoType = 0"
| "symbol_type_num Sym_Object = 1"
| "symbol_type_num Sym_Function = 2"
| "symbol_type_num Sym_Section = 3"

definition to_symbol_type :: "u8 \<Rightarrow> SymbolType" where
  "to_symbol_type v =
     (if v = 0 then Sym_NoType else if v = 1 then Sym_Object else if v = 2 then Sym_Function
      else Sym_Section)"

lemma symbol_enum_round_trip [simp]:
  "to_binding (binding_num b) = b" "to_symbol_type (symbol_type_num t) = t"
  by (cases b, simp_all add: to_binding_def) (cases t, simp_all add: to_symbol_type_def)

record Symbol =
  sy_name :: string
  sy_binding :: SymbolBinding
  sy_type :: SymbolType
  sy_section :: u32
  sy_value :: u64
  sy_size :: u64
  sy_defined :: bool

definition blank_symbol :: "string \<Rightarrow> Symbol" where
  "blank_symbol name = \<lparr> sy_name = name, sy_binding = Local, sy_type = Sym_NoType,
     sy_section = kUndefinedSection, sy_value = 0, sy_size = 0, sy_defined = False \<rparr>"

record SymbolTable =
  st_symbols :: "Symbol list"
  st_index :: "string \<Rightarrow> u32 option"

definition empty_table :: SymbolTable where
  "empty_table = \<lparr> st_symbols = [], st_index = (\<lambda>_. None) \<rparr>"

definition addSymbol :: "Symbol \<Rightarrow> SymbolTable \<Rightarrow> u32 \<times> SymbolTable" where
  "addSymbol symbol t =
     (case st_index t (sy_name symbol) of
        Some i \<Rightarrow> (i, t\<lparr> st_symbols := (st_symbols t)[unat i := symbol] \<rparr>)
      | None \<Rightarrow>
          let position = of_nat (length (st_symbols t))
          in (position, t\<lparr> st_index := (st_index t)(sy_name symbol \<mapsto> position),
                           st_symbols := st_symbols t @ [symbol] \<rparr>))"

definition findOrAdd :: "string \<Rightarrow> SymbolTable \<Rightarrow> u32 \<times> SymbolTable" where
  "findOrAdd name t =
     (case st_index t name of
        Some i \<Rightarrow> (i, t)
      | None \<Rightarrow> addSymbol (blank_symbol name) t)"

definition st_find :: "SymbolTable \<Rightarrow> string \<Rightarrow> Symbol option" where
  "st_find t name = map_option (\<lambda>i. st_symbols t ! unat i) (st_index t name)"

record ObjectFile =
  ob_version :: u16
  ob_sections :: "Section list"
  ob_symbols :: SymbolTable
  ob_relocations :: "Relocation list"
  ob_debug_info :: "ObjDebugEntry list"
  ob_source_files :: "string list"

definition findSection :: "ObjectFile \<Rightarrow> string \<Rightarrow> Section option" where
  "findSection ob name = find (\<lambda>section. sec_name section = name) (ob_sections ob)"

subsection \<open>The symbol table is a stable map\<close>

definition table_ok :: "SymbolTable \<Rightarrow> bool" where
  "table_ok t \<longleftrightarrow>
     length (st_symbols t) < 2 ^ 32 \<and>
     (\<forall>name i. st_index t name = Some i \<longrightarrow>
        unat i < length (st_symbols t) \<and> sy_name (st_symbols t ! unat i) = name) \<and>
     (\<forall>k < length (st_symbols t). st_index t (sy_name (st_symbols t ! k)) = Some (of_nat k))"

lemma unat_of_nat_u32: "n < 2 ^ 32 \<Longrightarrow> unat (of_nat n :: u32) = n"
  by (simp add: unat_of_nat take_bit_nat_eq_self)

lemma empty_table_ok [simp]: "table_ok empty_table"
  by (simp add: table_ok_def empty_table_def)

lemma table_ok_index:
  "table_ok t \<Longrightarrow> st_index t name = Some i \<longleftrightarrow>
     unat i < length (st_symbols t) \<and> sy_name (st_symbols t ! unat i) = name"
  unfolding table_ok_def by (metis of_nat_unat ucast_id)

text \<open>
  The contract of a table of named entries addressed by position: inserting answers the position
  at which the entry can be found from then on, and moves nothing else.
\<close>

locale stable_table =
  fixes ok :: "'t \<Rightarrow> bool"
    and add :: "'e \<Rightarrow> 't \<Rightarrow> u32 \<times> 't"
    and entry :: "'t \<Rightarrow> nat \<Rightarrow> 'e option"
    and name :: "'e \<Rightarrow> string"
    and position :: "'t \<Rightarrow> string \<Rightarrow> u32 option"
    and room :: "'t \<Rightarrow> nat"
  assumes add_ok: "ok t \<Longrightarrow> 0 < room t \<Longrightarrow> add e t = (i, t') \<Longrightarrow> ok t'"
    and add_room: "ok t \<Longrightarrow> 0 < room t \<Longrightarrow> add e t = (i, t') \<Longrightarrow> room t \<le> Suc (room t')"
    and add_entry: "ok t \<Longrightarrow> 0 < room t \<Longrightarrow> add e t = (i, t') \<Longrightarrow>
      entry t' k = (if k = unat i then Some e else entry t k)"
    and add_position: "ok t \<Longrightarrow> 0 < room t \<Longrightarrow> add e t = (i, t') \<Longrightarrow>
      position t' n = (if n = name e then Some i else position t n)"
    and position_stable: "ok t \<Longrightarrow> 0 < room t \<Longrightarrow> add e t = (i, t') \<Longrightarrow>
      position t (name e) = Some j \<Longrightarrow> i = j"
    and position_entry: "ok t \<Longrightarrow> position t n = Some i \<longleftrightarrow>
      (\<exists>e. entry t (unat i) = Some e \<and> name e = n)"
begin

fun add_all :: "'e list \<Rightarrow> 't \<Rightarrow> 't" where
  "add_all [] t = t"
| "add_all (e # es) t = add_all es (snd (add e t))"

lemma add_all_ok: "ok t \<Longrightarrow> length es \<le> room t \<Longrightarrow> ok (add_all es t)"
proof (induction es arbitrary: t)
  case (Cons e es)
  obtain i t' where a: "add e t = (i, t')" by fastforce
  have "0 < room t" using Cons.prems by simp
  with Cons.IH [of t'] add_ok add_room a Cons.prems show ?case by fastforce
qed simp

lemma position_never_moves:
  "ok t \<Longrightarrow> length es \<le> room t \<Longrightarrow> position t n = Some i \<Longrightarrow> position (add_all es t) n = Some i"
proof (induction es arbitrary: t)
  case (Cons e es)
  obtain j t' where a: "add e t = (j, t')" by fastforce
  have r: "0 < room t" using Cons.prems by simp
  have "position t' n = Some i"
    using add_position [OF _ r a, of n] position_stable [OF _ r a] Cons.prems by auto
  moreover have "ok t'" "length es \<le> room t'"
    using add_ok [OF _ r a] add_room [OF _ r a] Cons.prems by auto
  ultimately show ?case using Cons.IH [of t'] a by simp
qed simp

lemma entry_kept:
  "ok t \<Longrightarrow> length es \<le> room t \<Longrightarrow> entry t k = Some x \<Longrightarrow> \<forall>e \<in> set es. name e \<noteq> name x \<Longrightarrow>
   k < 2 ^ 32 \<Longrightarrow> entry (add_all es t) k = Some x"
proof (induction es arbitrary: t)
  case (Cons e es)
  obtain j t' where a: "add e t = (j, t')" by fastforce
  have r: "0 < room t" using Cons.prems by simp
  have k: "unat (of_nat k :: u32) = k" using Cons.prems(5) by (simp add: unat_of_nat_u32)
  have "unat j \<noteq> k"
  proof
    assume "unat j = k"
    then have jk: "j = of_nat k" by auto
    have "entry t' k = Some e" using add_entry [OF _ r a, of k] Cons.prems(1) \<open>unat j = k\<close> by simp
    have p1: "position t (name x) = Some (of_nat k)"
      using position_entry [of t "name x" "of_nat k"] Cons.prems(1,3) k by auto
    have "position t' (name x) = Some (of_nat k)"
      using add_position [OF _ r a, of "name x"] Cons.prems(1,4) p1 by auto
    then have "\<exists>y. entry t' k = Some y \<and> name y = name x"
      using position_entry [OF add_ok [OF Cons.prems(1) r a], of "name x" "of_nat k"] k by simp
    with \<open>entry t' k = Some e\<close> Cons.prems(4) show False by simp
  qed
  then have "entry t' k = Some x" using add_entry [OF _ r a, of k] Cons.prems by simp
  moreover have "ok t'" "length es \<le> room t'"
    using add_ok [OF _ r a] add_room [OF _ r a] Cons.prems by auto
  ultimately show ?case using Cons.IH [of t'] Cons.prems a by simp
qed simp

end

definition st_entry :: "SymbolTable \<Rightarrow> nat \<Rightarrow> Symbol option" where
  "st_entry t k = (if k < length (st_symbols t) then Some (st_symbols t ! k) else None)"

definition st_room :: "SymbolTable \<Rightarrow> nat" where
  "st_room t = 2 ^ 32 - 1 - length (st_symbols t)"

lemma addSymbol_new:
  assumes "table_ok t" and "0 < st_room t" and "st_index t (sy_name e) = None"
    and "addSymbol e t = (i, t')"
  shows "unat i = length (st_symbols t)" and "st_symbols t' = st_symbols t @ [e]"
    and "st_index t' = (st_index t)(sy_name e \<mapsto> i)" and "table_ok t'"
proof -
  have len: "Suc (length (st_symbols t)) < 2 ^ 32" using assms(2) by (simp add: st_room_def)
  from assms(3,4) have i: "i = of_nat (length (st_symbols t))"
    and t': "t' = t\<lparr> st_index := (st_index t)(sy_name e \<mapsto> i), st_symbols := st_symbols t @ [e] \<rparr>"
    by (auto simp: addSymbol_def Let_def)
  show u: "unat i = length (st_symbols t)" using len by (simp add: i unat_of_nat_u32)
  show "st_symbols t' = st_symbols t @ [e]" "st_index t' = (st_index t)(sy_name e \<mapsto> i)"
    by (simp_all add: t')
  have fresh: "sy_name (st_symbols t ! k) \<noteq> sy_name e" if "k < length (st_symbols t)" for k
    using assms(1,3) that by (auto simp: table_ok_def)
  show "table_ok t'"
    using assms(1) len u fresh
    by (auto simp: table_ok_def t' nth_append i [symmetric] less_Suc_eq split: if_splits)
qed

lemma addSymbol_replace:
  assumes "table_ok t" and "st_index t (sy_name e) = Some j" and "addSymbol e t = (i, t')"
  shows "i = j" and "unat i < length (st_symbols t)" and "st_symbols t' = (st_symbols t)[unat i := e]"
    and "st_index t' = st_index t" and "table_ok t'"
proof -
  from assms(2,3) show i: "i = j" and s: "st_symbols t' = (st_symbols t)[unat i := e]"
    and x: "st_index t' = st_index t" by (auto simp: addSymbol_def)
  have at: "unat j < length (st_symbols t) \<and> sy_name (st_symbols t ! unat j) = sy_name e"
    using assms(1,2) by (simp add: table_ok_def)
  then show "unat i < length (st_symbols t)" by (simp add: i)
  have "sy_name ((st_symbols t)[unat j := e] ! k) = sy_name (st_symbols t ! k)"
    if "k < length (st_symbols t)" for k
    using at that by (cases "k = unat j") simp_all
  then show "table_ok t'" using assms(1) by (simp add: table_ok_def s x i)
qed

interpretation symbols: stable_table table_ok addSymbol st_entry sy_name st_index st_room
proof
  fix t e i t' k n j
  assume ok: "table_ok t" and room: "0 < st_room t" and add: "addSymbol e t = (i, t')"
  show "table_ok t'"
    using addSymbol_new(4) [OF ok room _ add] addSymbol_replace(5) [OF ok _ add]
    by (cases "st_index t (sy_name e)") auto
  show "st_room t \<le> Suc (st_room t')"
    using addSymbol_new(2) [OF ok room _ add] addSymbol_replace(3) [OF ok _ add]
    by (cases "st_index t (sy_name e)") (auto simp: st_room_def)
  show "st_entry t' k = (if k = unat i then Some e else st_entry t k)"
    using addSymbol_new(1,2) [OF ok room _ add] addSymbol_replace(2,3) [OF ok _ add]
    by (cases "st_index t (sy_name e)") (auto simp: st_entry_def nth_append)
  show "st_index t' n = (if n = sy_name e then Some i else st_index t n)"
    using addSymbol_new(3) [OF ok room _ add] addSymbol_replace(1,4) [OF ok _ add]
    by (cases "st_index t (sy_name e)") auto
  assume "st_index t (sy_name e) = Some j"
  then show "i = j" using addSymbol_replace(1) [OF ok _ add] by simp
next
  fix t n i
  assume "table_ok t"
  then show "st_index t n = Some i \<longleftrightarrow> (\<exists>e. st_entry t (unat i) = Some e \<and> sy_name e = n)"
    by (auto simp: table_ok_index st_entry_def)
qed

lemma findOrAdd_ok:
  assumes "table_ok t" and "0 < st_room t" and "findOrAdd name t = (i, t')"
  shows "table_ok t' \<and> st_index t' name = Some i \<and> st_room t \<le> Suc (st_room t')"
proof (cases "st_index t name")
  case None
  with assms(3) have "addSymbol (blank_symbol name) t = (i, t')" by (simp add: findOrAdd_def)
  with symbols.add_ok symbols.add_position symbols.add_room assms(1,2) show ?thesis
    by (fastforce simp: blank_symbol_def)
qed (use assms in \<open>simp add: findOrAdd_def\<close>)

text \<open>
  An index handed out by the symbol table stays the index of its name, and finds the same
  symbol as long as no later insertion replaces that name.
\<close>

theorem symbol_indices_stable:
  assumes "table_ok t" and "length es \<le> st_room t"
    and "st_index t name = Some i"
  shows "st_index (symbols.add_all es t) name = Some i \<and>
    (name \<notin> sy_name ` set es \<longrightarrow> st_find (symbols.add_all es t) name = st_find t name)"
proof -
  let ?t' = "symbols.add_all es t"
  have p: "st_index ?t' name = Some i" by (rule symbols.position_never_moves [OF assms])
  have "st_find ?t' name = st_find t name" if "name \<notin> sy_name ` set es"
  proof -
    from assms(1,3) have at: "unat i < length (st_symbols t)" "sy_name (st_symbols t ! unat i) = name"
      by (auto simp: table_ok_def)
    have "unat i < 2 ^ 32" using unsigned_less [of i] by simp
    moreover have "\<forall>e \<in> set es. sy_name e \<noteq> sy_name (st_symbols t ! unat i)"
      using that at(2) by (metis image_eqI)
    ultimately have "st_entry ?t' (unat i) = Some (st_symbols t ! unat i)"
      using symbols.entry_kept [OF assms(1,2), of "unat i" "st_symbols t ! unat i"] at
      by (auto simp: st_entry_def)
    with p assms(3) show ?thesis by (simp add: st_find_def st_entry_def split: if_splits)
  qed
  with p show ?thesis by simp
qed

lemma symbol_indices_stable_witness:
  "st_index (symbols.add_all [blank_symbol ''b'', blank_symbol ''a'']
     (snd (addSymbol (blank_symbol ''a'') empty_table))) ''a'' = Some 0"
proof -
  let ?t = "snd (addSymbol (blank_symbol ''a'') empty_table)"
  have "0 < st_room empty_table" by (simp add: st_room_def empty_table_def)
  then have "table_ok ?t" using symbols.add_ok [OF empty_table_ok] by (metis prod.collapse)
  moreover have "st_index ?t ''a'' = Some 0" "2 \<le> st_room ?t"
    by (simp_all add: addSymbol_def empty_table_def blank_symbol_def st_room_def)
  ultimately show ?thesis
    using symbol_indices_stable [of ?t "[blank_symbol ''b'', blank_symbol ''a'']" "''a''" 0] by simp
qed

end
