(* ===== verification/Assembler.thy ===== *)
theory Assembler
  imports Ir Object_File
begin

text \<open>
  src/assembler/assembler.cpp: the two-pass assembler.  The state is the object under construction,
  the engine that collects diagnostics, and the tables of the assembly context; \<open>as_failed\<close> is its
  \<open>failed\_\<close>.  Pass 1 assigns offsets and defines labels, pass 2 emits bytes and relocations.
  Section lookups are by the position recorded in \<open>as_section_index\<close>; the two lookups that cannot
  fail for a collected section leave the state alone otherwise.  Memory is taken to suffice: the
  allocation failure of a giant \<open>.space\<close> is not modelled.
\<close>

definition sectionTypeOf :: "SectionKind \<Rightarrow> SectionType" where
  "sectionTypeOf kind =
     (case kind of Kind_Text \<Rightarrow> Sec_Text | Kind_Rodata \<Rightarrow> Sec_Rodata | Kind_Data \<Rightarrow> Sec_Data
      | Kind_Bss \<Rightarrow> Sec_Bss)"

definition sectionFlagsOf :: "SectionKind \<Rightarrow> SectionFlags" where
  "sectionFlagsOf kind =
     (case kind of Kind_Text \<Rightarrow> ScF_Alloc OR ScF_Exec | Kind_Rodata \<Rightarrow> ScF_Alloc
      | Kind_Data \<Rightarrow> ScF_Alloc OR ScF_Write | Kind_Bss \<Rightarrow> ScF_Alloc OR ScF_Write)"

definition kSectionOrder :: "SectionKind list" where
  "kSectionOrder = [Kind_Text, Kind_Rodata, Kind_Data, Kind_Bss]"

definition relocationForInstruction :: "Opcode \<Rightarrow> RelocationType" where
  "relocationForInstruction opcode =
     (case findOpcode opcode of
        Some info \<Rightarrow> if oi_format info = Fmt_Jump then PCREL48 else IMM48
      | None \<Rightarrow> IMM48)"

record Assembly =
  as_object :: ObjectFile
  as_engine :: DiagnosticEngine
  as_section_index :: "SectionKind \<Rightarrow> u32 option"
  as_ordered_kinds :: "SectionKind list"
  as_failed :: bool

definition empty_object :: ObjectFile where
  "empty_object = \<lparr> ob_version = kObjectVersion, ob_sections = [], ob_symbols = empty_table,
     ob_relocations = [], ob_debug_info = [], ob_source_files = [] \<rparr>"

definition start_assembly :: "DiagnosticEngine \<Rightarrow> Assembly" where
  "start_assembly diagnostics = \<lparr> as_object = empty_object, as_engine = diagnostics,
     as_section_index = (\<lambda>_. None), as_ordered_kinds = [], as_failed = False \<rparr>"

definition assembly_error :: "SourceLocation \<Rightarrow> ErrorCode \<Rightarrow> string \<Rightarrow> Assembly \<Rightarrow> Assembly" where
  "assembly_error location code message st =
     st\<lparr> as_engine := report_error code location message (as_engine st), as_failed := True \<rparr>"

subsection \<open>Sections\<close>

definition with_object :: "(ObjectFile \<Rightarrow> ObjectFile) \<Rightarrow> Assembly \<Rightarrow> Assembly" where
  "with_object f st = st\<lparr> as_object := f (as_object st) \<rparr>"

definition update_section :: "u32 \<Rightarrow> (Section \<Rightarrow> Section) \<Rightarrow> Assembly \<Rightarrow> Assembly" where
  "update_section index f = with_object (\<lambda>ob.
     ob\<lparr> ob_sections := (ob_sections ob)[unat index := f (ob_sections ob ! unat index)] \<rparr>)"

definition update_symbol :: "u32 \<Rightarrow> (Symbol \<Rightarrow> Symbol) \<Rightarrow> Assembly \<Rightarrow> Assembly" where
  "update_symbol index f = with_object (\<lambda>ob. ob\<lparr> ob_symbols := (ob_symbols ob)\<lparr> st_symbols :=
     (st_symbols (ob_symbols ob))[unat index := f (st_symbols (ob_symbols ob) ! unat index)] \<rparr> \<rparr>)"

definition add_name :: "string \<Rightarrow> Assembly \<Rightarrow> u32 \<times> Assembly" where
  "add_name name st =
     (let (index, table) = findOrAdd name (ob_symbols (as_object st))
      in (index, with_object (\<lambda>ob. ob\<lparr> ob_symbols := table \<rparr>) st))"

definition symbol_at :: "u32 \<Rightarrow> Assembly \<Rightarrow> Symbol" where
  "symbol_at index st = st_symbols (ob_symbols (as_object st)) ! unat index"

definition collect_section :: "Module \<Rightarrow> SectionKind \<Rightarrow> Assembly \<Rightarrow> Assembly" where
  "collect_section m kind st =
     (case findIrSection kind m of
        None \<Rightarrow> st
      | Some source \<Rightarrow>
          if is_items source = [] then st
          else
            let index = of_nat (length (ob_sections (as_object st)));
                section = \<lparr> sec_name = sectionName kind, sec_type = sectionTypeOf kind,
                  sec_flags = sectionFlagsOf kind, sec_alignment = is_alignment source,
                  sec_data = [], sec_size = 0, sec_index = index \<rparr>
            in (with_object (\<lambda>ob. ob\<lparr> ob_sections := ob_sections ob @ [section] \<rparr>) st)
                 \<lparr> as_section_index := (as_section_index st)(kind \<mapsto> index),
                   as_ordered_kinds := as_ordered_kinds st @ [kind] \<rparr>)"

definition collectSections :: "Module \<Rightarrow> Assembly \<Rightarrow> Assembly" where
  "collectSections m st =
     with_object (\<lambda>ob. ob\<lparr> ob_source_files := ob_source_files ob @ [mo_source_name m] \<rparr>)
       (fold (collect_section m) kSectionOrder st)"

subsection \<open>Pass 1\<close>

definition defineLabel :: "string \<Rightarrow> SourceLocation \<Rightarrow> u32 \<Rightarrow> u64 \<Rightarrow> Assembly \<Rightarrow> Assembly" where
  "defineLabel name location index offset st =
     (let (i, st) = add_name name st in
      if sy_defined (symbol_at i st)
      then assembly_error location EC_DuplicateSymbol
             (''symbol '' @ quoted name @ '' is defined more than once'') st
      else update_symbol i (\<lambda>symbol. symbol\<lparr> sy_defined := True, sy_section := index,
             sy_value := offset, sy_binding := Local,
             sy_type := (if sec_type (ob_sections (as_object st) ! unat index) = Sec_Text
                         then Sym_Function else Sym_Object) \<rparr>) st)"

text \<open>The offset behind an item that starts at \<open>offset\<close>.\<close>

fun next_offset :: "Item \<Rightarrow> u64 \<Rightarrow> u64" where
  "next_offset (It_Label _ _ _) offset = offset"
| "next_offset (It_Instruction _) offset = offset + of_nat kInstructionSize"
| "next_offset (It_Bytes data _) offset = offset + of_nat (length data)"
| "next_offset (It_SymbolValue width _ _) offset = offset + ucast width"
| "next_offset (It_Space sz _ _) offset = offset + sz"
| "next_offset (It_Align alignment _) offset = alignUp offset alignment"

fun next_alignment :: "Item \<Rightarrow> u64 \<Rightarrow> u64" where
  "next_alignment (It_Align alignment _) greatest = max greatest alignment"
| "next_alignment _ greatest = greatest"

fun layout_item :: "u32 \<Rightarrow> Item \<Rightarrow> u64 \<times> u64 \<times> Assembly \<Rightarrow> u64 \<times> u64 \<times> Assembly" where
  "layout_item index item (offset, greatest, st) =
     (next_offset item offset, next_alignment item greatest,
      case item of It_Label name _ location \<Rightarrow> defineLabel name location index offset st | _ \<Rightarrow> st)"

definition layout_section :: "Module \<Rightarrow> SectionKind \<Rightarrow> Assembly \<Rightarrow> Assembly" where
  "layout_section m kind st =
     (case (findIrSection kind m, as_section_index st kind) of
        (Some source, Some index) \<Rightarrow>
          let (offset, greatest, st) = fold (layout_item index) (is_items source)
                (0, sec_alignment (ob_sections (as_object st) ! unat index), st)
          in update_section index (\<lambda>s. s\<lparr> sec_size := offset, sec_alignment := greatest \<rparr>) st
      | _ \<Rightarrow> st)"

definition layoutAndDefineSymbols :: "Module \<Rightarrow> Assembly \<Rightarrow> Assembly" where
  "layoutAndDefineSymbols m st = fold (layout_section m) (as_ordered_kinds st) st"

subsection \<open>Bindings\<close>

definition bind_name :: "SymbolBinding \<Rightarrow> string \<Rightarrow> Assembly \<Rightarrow> Assembly" where
  "bind_name binding name st =
     (let (i, st) = add_name name st
      in update_symbol i (\<lambda>symbol. symbol\<lparr> sy_binding := binding \<rparr>) st)"

definition bind_extern :: "string \<Rightarrow> Assembly \<Rightarrow> Assembly" where
  "bind_extern name st =
     (let (i, st) = add_name name st in
      if sy_defined (symbol_at i st)
      then assembly_error no_location EC_SymbolVisibilityConflict
             (quoted name @ '' is declared .extern but also defined in this file'') st
      else update_symbol i (\<lambda>symbol. symbol\<lparr> sy_binding := Extern \<rparr>) st)"

definition applyBindings :: "Module \<Rightarrow> Assembly \<Rightarrow> Assembly" where
  "applyBindings m st =
     fold bind_extern (mo_externs m)
       (fold (bind_name Weak) (mo_weaks m) (fold (bind_name Global) (mo_globals m) st))"

subsection \<open>Pass 2\<close>

definition is_local_name :: "string \<Rightarrow> bool" where
  "is_local_name name \<longleftrightarrow> take 2 name = ''.L''"

definition referenceSymbol :: "SymbolRef \<Rightarrow> SourceLocation \<Rightarrow> Assembly \<Rightarrow> u32 \<times> Assembly" where
  "referenceSymbol reference location st =
     (let (i, st) = add_name (ref_name reference) st in
      if \<not> sy_defined (symbol_at i st) \<and> sy_binding (symbol_at i st) = Local
      then if is_local_name (ref_name reference)
           then (i, assembly_error location EC_UndefinedSymbol
                  (''local label '' @ quoted (ref_name reference) @ '' is used but never defined'') st)
           else (i, update_symbol i (\<lambda>symbol. symbol\<lparr> sy_binding := Extern \<rparr>) st)
      else (i, st))"

definition emit_relocation ::
  "u32 \<Rightarrow> nat \<Rightarrow> RelocationType \<Rightarrow> SymbolRef \<Rightarrow> SourceLocation \<Rightarrow> Assembly \<Rightarrow> Assembly" where
  "emit_relocation index offset type reference location st =
     (let (i, st) = referenceSymbol reference location st
      in with_object (\<lambda>ob. ob\<lparr> ob_relocations := ob_relocations ob @
           [\<lparr> rel_section = index, rel_offset = of_nat offset, rel_type = type, rel_symbol = i,
              rel_addend = ref_addend reference \<rparr>] \<rparr>) st)"

definition emitInstruction :: "u32 \<Rightarrow> IrInstruction \<Rightarrow> u8 list \<times> Assembly \<Rightarrow> u8 list \<times> Assembly" where
  "emitInstruction index instruction p =
     (case p of (bytes, st) \<Rightarrow>
        let offset = length bytes;
            machine = (if isSymbolic instruction then (ii_machine instruction)\<lparr> i_imm := 0 \<rparr>
                       else ii_machine instruction);
            st = (case ii_symbol instruction of
                    None \<Rightarrow> st
                  | Some reference \<Rightarrow>
                      emit_relocation index offset (relocationForInstruction (i_opcode machine)) reference
                        (ii_location instruction) st);
            bytes = resize (length bytes + kInstructionSize) bytes
        in case encodeInto (take kInstructionSize (drop offset bytes)) machine of
             Inl e \<Rightarrow>
               (bytes, assembly_error (ii_location instruction) EC_InvalidOperand
                  (''cannot encode '' @ opcodeName (i_opcode machine) @ '': '' @ encodeErrorName e) st)
           | Inr field \<Rightarrow>
               (splice_at offset field bytes,
                with_object (\<lambda>ob. ob\<lparr> ob_debug_info := ob_debug_info ob @
                  [\<lparr> od_section = index, od_file = 0, od_offset = of_nat offset,
                     od_line = loc_line (ii_location instruction),
                     od_column = loc_column (ii_location instruction) \<rparr>] \<rparr>) st))"

definition emitSymbolValue ::
  "u32 \<Rightarrow> u32 \<Rightarrow> SymbolRef \<Rightarrow> SourceLocation \<Rightarrow> u8 list \<times> Assembly \<Rightarrow> u8 list \<times> Assembly" where
  "emitSymbolValue index width reference location p =
     (case p of (bytes, st) \<Rightarrow>
        (bytes @ replicate (unat width) 0,
         emit_relocation index (length bytes) (if width = 4 then ABS32 else ABS64) reference location st))"

fun emit_item :: "u32 \<Rightarrow> Item \<Rightarrow> u8 list \<times> Assembly \<Rightarrow> u8 list \<times> Assembly" where
  "emit_item index (It_Label _ _ _) p = p"
| "emit_item index (It_Instruction instruction) p = emitInstruction index instruction p"
| "emit_item index (It_Bytes data _) p = (fst p @ data, snd p)"
| "emit_item index (It_SymbolValue width symbol location) p = emitSymbolValue index width symbol location p"
| "emit_item index (It_Space sz fill _) p = (fst p @ replicate (unat sz) fill, snd p)"
| "emit_item index (It_Align alignment _) p =
     (resize (unat (alignUp (of_nat (length (fst p))) alignment)) (fst p), snd p)"

definition emit_section :: "Module \<Rightarrow> SectionKind \<Rightarrow> Assembly \<Rightarrow> Assembly" where
  "emit_section m kind st =
     (case (findIrSection kind m, as_section_index st kind) of
        (Some source, Some index) \<Rightarrow>
          let section = ob_sections (as_object st) ! unat index;
              (bytes, st) = fold (emit_item index) (is_items source) (sec_data section, st);
              st = (if \<not> sectionHasData kind
                    then if \<exists>b \<in> set bytes. b \<noteq> 0
                         then assembly_error no_location EC_InternalError
                                ''non-zero bytes were emitted into .bss'' st
                         else st
                    else if of_nat (length bytes) \<noteq> sec_size section
                    then assembly_error no_location EC_InternalError
                           (''section '' @ quoted (sec_name section) @ '' sized '' @
                            nat_str (unat (sec_size section)) @ '' in pass 1 but emitted '' @
                            nat_str (length bytes) @ '' bytes'') st
                    else st)
          in update_section index (\<lambda>s. s\<lparr> sec_data := (if sectionHasData kind then bytes else []) \<rparr>) st
      | _ \<Rightarrow> st)"

definition emit_sections :: "Module \<Rightarrow> Assembly \<Rightarrow> Assembly" where
  "emit_sections m st = fold (emit_section m) (as_ordered_kinds st) st"

definition run_assembly :: "Module \<Rightarrow> DiagnosticEngine \<Rightarrow> Assembly" where
  "run_assembly m diagnostics =
     emit_sections m (applyBindings m (layoutAndDefineSymbols m (collectSections m (start_assembly diagnostics))))"

text \<open>The value and the engine after the call.\<close>

definition assemble :: "Module \<Rightarrow> DiagnosticEngine \<Rightarrow> (string, ObjectFile) expected \<times> DiagnosticEngine" where
  "assemble m diagnostics =
     (let st = run_assembly m diagnostics
      in (if as_failed st
          then Inl (nat_str (de_error_count (as_engine st)) @ '' error(s) while assembling'')
          else Inr (as_object st), as_engine st))"

end
