(* ===== verification/Relocating.thy ===== *)
theory Relocating
  imports Object_File
begin

text \<open>
  include/minitool/object/relocation.hpp and src/object/relocation.cpp: the value of a relocation
  and its application to the bytes of a section.
\<close>

datatype RelocationError = OutOfBounds | Overflow | UnalignedInstructionField | NotAnInstruction

fun relocationErrorName :: "RelocationError \<Rightarrow> string" where
  "relocationErrorName OutOfBounds = ''relocation offset is outside its section''"
| "relocationErrorName Overflow = ''relocated value does not fit the field''"
| "relocationErrorName UnalignedInstructionField = ''instruction-field relocation is not 8-byte aligned''"
| "relocationErrorName NotAnInstruction =
     ''instruction-field relocation does not point at an instruction''"

definition relocatedValue :: "RelocationType \<Rightarrow> u64 \<Rightarrow> i64 \<Rightarrow> u64 \<Rightarrow> i64" where
  "relocatedValue type symbol_address addend place =
     (let target = symbol_address + addend in
      case type of
        ABS32 \<Rightarrow> target
      | ABS64 \<Rightarrow> target
      | IMM48 \<Rightarrow> target
      | PCREL32 \<Rightarrow> target - place
      | PCREL48 \<Rightarrow> branchDisplacement place target)"

definition patch_instruction :: "u64 \<Rightarrow> u8 list \<Rightarrow> i64 \<Rightarrow> (RelocationError, u8 list) expected" where
  "patch_instruction off field v =
     (if off mod of_nat kInstructionSize \<noteq> 0 then Inl UnalignedInstructionField
      else if \<not> fitsSigned v kImmediateBits then Inl Overflow
      else case decodeFrom field of
             Inl _ \<Rightarrow> Inl NotAnInstruction
           | Inr decoded \<Rightarrow>
               case encodeInto field (decoded\<lparr> i_imm := v \<rparr>) of
                 Inl _ \<Rightarrow> Inl Overflow
               | Inr bytes \<Rightarrow> Inr bytes)"

definition applyRelocation ::
  "u8 list \<Rightarrow> u64 \<Rightarrow> Relocation \<Rightarrow> u64 \<Rightarrow> (RelocationError, unit) expected \<times> u8 list" where
  "applyRelocation section_data section_address relocation symbol_address =
     (let width = relocationWidth (rel_type relocation);
          off = unat (rel_offset relocation) in
      if off > length section_data \<or> width > length section_data - off
      then (Inl OutOfBounds, section_data)
      else
        let place = section_address + rel_offset relocation;
            v = relocatedValue (rel_type relocation) symbol_address (rel_addend relocation) place;
            field = take width (drop off section_data);
            put = (\<lambda>bytes. (Inr (), splice_at off bytes section_data))
        in case rel_type relocation of
             ABS32 \<Rightarrow>
               if \<not> fitsUnsigned v 32 then (Inl Overflow, section_data)
               else put (store_le 4 field (ucast (ucast v :: u32)))
           | ABS64 \<Rightarrow> put (store_le 8 field v)
           | PCREL32 \<Rightarrow>
               if \<not> fitsSigned v 32 then (Inl Overflow, section_data)
               else put (store_le 4 field (ucast (ucast (v AND 0xFFFFFFFF) :: u32)))
           | _ \<Rightarrow>
               (case patch_instruction (rel_offset relocation) field v of
                  Inl e \<Rightarrow> (Inl e, section_data)
                | Inr bytes \<Rightarrow> put bytes))"

subsection \<open>What a relocation does to the section\<close>

lemma patch_instruction_length:
  "patch_instruction off field v = Inr bytes \<Longrightarrow> length bytes = length field"
  by (auto simp: patch_instruction_def split: if_splits sum.splits dest: decodeFrom_encodeInto)

definition patched_or_kept ::
  "u8 list \<Rightarrow> nat \<Rightarrow> nat \<Rightarrow> (RelocationError, unit) expected \<times> u8 list \<Rightarrow> bool" where
  "patched_or_kept bs off w res \<longleftrightarrow>
     (\<exists>e. res = (Inl e, bs)) \<or>
     (\<exists>new. res = (Inr (), splice_at off new bs) \<and> length new = w \<and> off + w \<le> length bs)"

lemma patched_or_kept_intros:
  "patched_or_kept bs off w (Inl e, bs)"
  "length new = w \<Longrightarrow> off + w \<le> length bs \<Longrightarrow> patched_or_kept bs off w (Inr (), splice_at off new bs)"
  by (auto simp: patched_or_kept_def)

lemma applyRelocation_patches:
  "patched_or_kept bs (unat (rel_offset r)) (relocationWidth (rel_type r)) (applyRelocation bs a r s)"
proof (cases "unat (rel_offset r) > length bs \<or> relocationWidth (rel_type r) > length bs - unat (rel_offset r)")
  case True
  then show ?thesis by (simp add: applyRelocation_def patched_or_kept_intros)
next
  case False
  let ?field = "take (relocationWidth (rel_type r)) (drop (unat (rel_offset r)) bs)"
  have le: "unat (rel_offset r) + relocationWidth (rel_type r) \<le> length bs" using False by linarith
  then have len: "length ?field = relocationWidth (rel_type r)" by simp
  have put: "patched_or_kept bs (unat (rel_offset r)) (relocationWidth (rel_type r))
      (Inr (), splice_at (unat (rel_offset r)) new bs)" if "length new = length ?field" for new
    using le len that by (intro patched_or_kept_intros) simp_all
  note keep = patched_or_kept_intros(1) [of bs "unat (rel_offset r)" "relocationWidth (rel_type r)"]
  show ?thesis
  proof (cases "rel_type r")
    case ABS32
    with put keep len show ?thesis
      unfolding applyRelocation_def Let_def if_not_P [OF False] by simp
  next
    case ABS64
    with put keep len show ?thesis
      unfolding applyRelocation_def Let_def if_not_P [OF False] by simp
  next
    case PCREL32
    with put keep len show ?thesis
      unfolding applyRelocation_def Let_def if_not_P [OF False] by simp
  next
    case IMM48
    with put keep patch_instruction_length show ?thesis
      unfolding applyRelocation_def Let_def if_not_P [OF False]
      by (cases "patch_instruction (rel_offset r) ?field
            (relocatedValue (rel_type r) s (rel_addend r) (a + rel_offset r))")
        (simp_all only: RelocationType.case sum.case)
  next
    case PCREL48
    with put keep patch_instruction_length show ?thesis
      unfolding applyRelocation_def Let_def if_not_P [OF False]
      by (cases "patch_instruction (rel_offset r) ?field
            (relocatedValue (rel_type r) s (rel_addend r) (a + rel_offset r))")
        (simp_all only: RelocationType.case sum.case)
  qed
qed

text \<open>a relocation that fails changes nothing, one that succeeds changes only its own field.\<close>

theorem relocation_frame:
  "case applyRelocation bs a r s of
     (Inl e, bs') \<Rightarrow> bs' = bs
   | (Inr _, bs') \<Rightarrow>
       length bs' = length bs \<and> unat (rel_offset r) + relocationWidth (rel_type r) \<le> length bs \<and>
       take (unat (rel_offset r)) bs' = take (unat (rel_offset r)) bs \<and>
       drop (unat (rel_offset r) + relocationWidth (rel_type r)) bs'
         = drop (unat (rel_offset r) + relocationWidth (rel_type r)) bs"
  using applyRelocation_patches [of bs r a s]
  by (auto simp: patched_or_kept_def)

lemma applyRelocation_room:
  "applyRelocation bs a r s = (Inr (), bs') \<Longrightarrow>
   unat (rel_offset r) + relocationWidth (rel_type r) \<le> length bs"
  using applyRelocation_patches [of bs r a s] by (auto simp: patched_or_kept_def)

lemma decodeFrom_take: "8 \<le> n \<Longrightarrow> decodeFrom (take n bs) = decodeFrom bs"
  by (auto simp: decodeFrom_def kInstructionSize_def min_def intro!: arg_cong [of _ _ decode] load_le_cong)

lemma splice_field:
  "length new = w \<Longrightarrow> off + w \<le> length bs \<Longrightarrow> take w (drop off (splice_at off new bs)) = new"
  by (metis add_leD1 slice_splice_at)

lemma apply_instruction_field:
  assumes "applyRelocation bs a r s = (Inr (), bs')" and "rel_type r = IMM48 \<or> rel_type r = PCREL48"
  defines "v \<equiv> relocatedValue (rel_type r) s (rel_addend r) (a + rel_offset r)"
  shows "\<exists>i. decodeFrom (drop (unat (rel_offset r)) bs) = Inr i \<and>
    decodeFrom (drop (unat (rel_offset r)) bs') = Inr (i\<lparr> i_imm := v \<rparr>) \<and>
    8 dvd unat (rel_offset r)"
proof -
  let ?off = "unat (rel_offset r)"
  let ?field = "take 8 (drop ?off bs)"
  have w: "relocationWidth (rel_type r) = 8" using assms(2) by auto
  have room: "?off + 8 \<le> length bs"
    using applyRelocation_room [OF assms(1)] w by simp
  from assms(1,2) w obtain bytes where b: "patch_instruction (rel_offset r) ?field v = Inr bytes"
    and bs': "bs' = splice_at ?off bytes bs"
    by (auto simp: applyRelocation_def Let_def v_def split: if_splits sum.splits)
  have len: "length bytes = 8" using patch_instruction_length [OF b] room by simp
  from b obtain i where i: "decodeFrom ?field = Inr i" and e: "encodeInto ?field (i\<lparr> i_imm := v \<rparr>) = Inr bytes"
    and al: "rel_offset r mod of_nat kInstructionSize = 0"
    by (auto simp: patch_instruction_def split: if_splits sum.splits)
  have "decodeFrom bytes = Inr (i\<lparr> i_imm := v \<rparr>)" using decodeFrom_encodeInto [OF e] by simp
  moreover have "decodeFrom (drop ?off bs') = decodeFrom bytes"
    using decodeFrom_take [of 8 "drop ?off bs'"] splice_field [OF len, of ?off bs] room by (simp add: bs')
  moreover have "decodeFrom (drop ?off bs) = Inr i" using i by (simp add: decodeFrom_take)
  moreover have "8 dvd ?off"
  proof -
    have "unat (rel_offset r mod 8) = 0" using al by (simp only: kInstructionSize_def of_nat_numeral) simp
    then show ?thesis by (simp only: unat_mod) (simp add: dvd_eq_mod_eq_0)
  qed
  ultimately show ?thesis by simp
qed

text \<open>
  After a PCREL48 relocation the instruction at the patched place is the one that was there,
  with its registers and opcode, and its branch target is the relocated symbol.
\<close>

theorem branch_relocation_reaches:
  assumes "applyRelocation bs a r s = (Inr (), bs')" and "rel_type r = PCREL48"
  shows "\<exists>i d. decodeFrom (drop (unat (rel_offset r)) bs) = Inr i \<and>
    decodeFrom (drop (unat (rel_offset r)) bs') = Inr (i\<lparr> i_imm := d \<rparr>) \<and>
    branchTarget (a + rel_offset r) d = s + rel_addend r"
  using apply_instruction_field [OF assms(1)] assms(2)
  by (fastforce simp: relocatedValue_def Let_def)

lemma take_bit_32_small: "unat (v :: u64) < 2 ^ 32 \<Longrightarrow> take_bit 32 v = v"
  using take_bit_nat_eq_self [of "unat v" 32] by (simp add: word_unat_eq_iff unsigned_take_bit_eq)

lemma ucast_32: "(ucast (ucast (v :: u64) :: u32) :: u64) = take_bit 32 v"
  by (rule bit_word_eqI) (auto simp: bit_simps)

lemma and_mask_32: "(v :: u64) AND 0xFFFFFFFF = take_bit 32 v"
  by (simp add: take_bit_eq_mask mask_eq_exp_minus_1)

text \<open>what the data relocations store is the relocated value, exactly.\<close>

theorem data_relocation_value:
  assumes "applyRelocation bs a r s = (Inr (), bs')"
  defines "field \<equiv> drop (unat (rel_offset r)) bs'" and "target \<equiv> s + rel_addend r"
  shows "case rel_type r of
      ABS64 \<Rightarrow> load_le 8 field = target
    | ABS32 \<Rightarrow> load_le 4 field = target
    | PCREL32 \<Rightarrow> signExtend (load_le 4 field) 32 = target - (a + rel_offset r)
    | IMM48 \<Rightarrow> (\<exists>i. decodeFrom field = Inr i \<and> i_imm i = target)
    | PCREL48 \<Rightarrow> (\<exists>i. decodeFrom field = Inr i \<and> i_imm i = branchDisplacement (a + rel_offset r) target)"
proof -
  let ?off = "unat (rel_offset r)" and ?w = "relocationWidth (rel_type r)"
  have room: "?off + ?w \<le> length bs"
    by (rule applyRelocation_room [OF assms(1)])
  have load: "load_le ?w field = load_le ?w new" if "bs' = splice_at ?off new bs" "length new = ?w" for new
  proof -
    have "take ?w field = new" unfolding field_def that(1) by (rule splice_field [OF that(2) room])
    then show ?thesis
      by (metis load_le_append append_take_drop_id length_take min_def that(2) take_all_iff order_refl)
  qed
  note ex = assms(1) [unfolded applyRelocation_def Let_def]
  show ?thesis
  proof (cases "rel_type r")
    case ABS32
    with ex have "fitsUnsigned target 32"
      and "bs' = splice_at ?off (store_le 4 (take ?w (drop ?off bs)) (ucast (ucast target :: u32))) bs"
      by (auto simp: target_def relocatedValue_def split: if_splits)
    with load [of "store_le 4 (take ?w (drop ?off bs)) (ucast (ucast target :: u32))"] ABS32 room
    show ?thesis by (simp add: ucast_32 load_store_le take_bit_32_small fitsUnsigned_iff)
  next
    case ABS64
    with ex have "bs' = splice_at ?off (store_le 8 (take ?w (drop ?off bs)) target) bs"
      by (auto simp: target_def relocatedValue_def split: if_splits)
    with load [of "store_le 8 (take ?w (drop ?off bs)) target"] ABS64 room
    show ?thesis by (simp add: load_store_le take_bit_word_eq_self)
  next
    case PCREL32
    let ?v = "target - (a + rel_offset r)"
    from PCREL32 ex have "fitsSigned ?v 32"
      and "bs' = splice_at ?off (store_le 4 (take ?w (drop ?off bs)) (ucast (ucast (?v AND 0xFFFFFFFF) :: u32))) bs"
      by (auto simp: target_def relocatedValue_def split: if_splits)
    with load [of "store_le 4 (take ?w (drop ?off bs)) (ucast (ucast (?v AND 0xFFFFFFFF) :: u32))"] PCREL32 room
      signExtend_truncates [of 32 ?v]
    show ?thesis by (simp add: ucast_32 and_mask_32 load_store_le)
  next
    case IMM48
    with apply_instruction_field [OF assms(1)] show ?thesis
      by (auto simp: field_def target_def relocatedValue_def)
  next
    case PCREL48
    with apply_instruction_field [OF assms(1)] show ?thesis
      by (auto simp: field_def target_def relocatedValue_def)
  qed
qed

definition demo_branch :: "u8 list" where
  "demo_branch = le_bytes 8 0x5000000000000000"

definition demo_relocation :: "RelocationType \<Rightarrow> Relocation" where
  "demo_relocation t = \<lparr> rel_section = 0, rel_offset = 0, rel_type = t, rel_symbol = 0, rel_addend = 0 \<rparr>"

lemma demo_branch_decodes: "decodeFrom demo_branch = Inr (mk_instr OP_JMP 0 0 0)"
proof -
  have "encode (mk_instr OP_JMP 0 0 0) = Inr 0x5000000000000000"
    by (simp add: encode_def mk_instr_def opcode_row_def isValidRegister_def registerIndex_def
        kRegisterCount_def field_use_def fitsSigned_def encoding_consts push_bit_eq_mult)
  from decode_encode [OF this] show ?thesis
    by (simp add: decodeFrom_def demo_branch_def kInstructionSize_def)
qed

lemma demo_branch_patches:
  "\<exists>bs'. applyRelocation demo_branch 0x400000 (demo_relocation PCREL48) 0x400010 = (Inr (), bs')"
proof -
  have "encode (mk_instr OP_JMP 0 0 8) = Inr 0x5000000000000008"
    by (simp add: encode_def mk_instr_def opcode_row_def isValidRegister_def registerIndex_def
        kRegisterCount_def field_use_def fitsSigned_def encoding_consts push_bit_eq_mult)
  then have "\<exists>bytes. encodeInto demo_branch (mk_instr OP_JMP 0 0 0\<lparr> i_imm := 8 \<rparr>) = Inr bytes"
    by (simp add: encodeInto_def demo_branch_def kInstructionSize_def mk_instr_def)
  moreover have "take 8 demo_branch = demo_branch" by (simp add: demo_branch_def)
  moreover have "length demo_branch = 8" by (simp add: demo_branch_def)
  ultimately show ?thesis
    by (auto simp: applyRelocation_def demo_relocation_def patch_instruction_def demo_branch_decodes
        relocatedValue_def branchDisplacement_def kInstructionSize_def fitsSigned_def kImmediateBits_def Let_def)
qed

lemma branch_relocation_reaches_witness:
  "\<exists>d. branchTarget 0x400000 d = 0x400010"
proof -
  obtain bs' where "applyRelocation demo_branch 0x400000 (demo_relocation PCREL48) 0x400010 = (Inr (), bs')"
    using demo_branch_patches by blast
  from branch_relocation_reaches [OF this] show ?thesis by (auto simp: demo_relocation_def)
qed

lemma data_relocation_value_witness:
  "load_le 8 (snd (applyRelocation (replicate 8 0) 0x400000 (demo_relocation ABS64) 0x1234)) = 0x1234"
proof -
  have "\<exists>bs'. applyRelocation (replicate 8 0) 0x400000 (demo_relocation ABS64) 0x1234 = (Inr (), bs')"
    by (simp add: applyRelocation_def demo_relocation_def Let_def)
  then obtain bs' where r: "applyRelocation (replicate 8 0) 0x400000 (demo_relocation ABS64) 0x1234 = (Inr (), bs')"
    by blast
  from data_relocation_value [OF r] show ?thesis by (simp add: r) (simp add: demo_relocation_def)
qed

end
