(* ===== verification/Object_IO.thy ===== *)
theory Object_IO
  imports Binary Relocating
begin

text \<open>
  src/object/object_io.cpp: the .mobj format.  The writer and the reader are split into the header
  and one step per table, in the order of the code; messages are values with the arguments they
  are formatted from.  File system access (readFileBytes, writeFileBytes and their two callers) is
  not modelled.
\<close>

definition kSectionRecordSize :: u64 where "kSectionRecordSize = 48"
definition kSymbolRecordSize :: u64 where "kSymbolRecordSize = 32"
definition kRelocationRecordSize :: u64 where "kRelocationRecordSize = 32"
definition kDebugRecordSize :: u64 where "kDebugRecordSize = 24"
definition kSourceRecordSize :: u64 where "kSourceRecordSize = 4"

definition kStringOffsetField :: nat where "kStringOffsetField = 32"
definition kStringSizeField :: nat where "kStringSizeField = 40"
definition kBlobOffsetField :: nat where "kBlobOffsetField = 48"
definition kFileSizeField :: nat where "kFileSizeField = 56"
definition kChecksumField :: nat where "kChecksumField = 60"

lemmas object_sizes = kSectionRecordSize_def kSymbolRecordSize_def kRelocationRecordSize_def
  kDebugRecordSize_def kSourceRecordSize_def
lemmas object_fields = kStringOffsetField_def kStringSizeField_def kBlobOffsetField_def
  kFileSizeField_def kChecksumField_def

subsection \<open>Writing\<close>

datatype ObjectWriteError = TooManyRecords | ObjectTooLarge

definition section_fields :: "u32 \<Rightarrow> u64 \<Rightarrow> Section \<Rightarrow> Field list" where
  "section_fields name_offset data_offset section =
     [F32 name_offset, F8 (section_type_num (sec_type section)), F8 (sec_flags section), FPad 2,
      F64 (sec_alignment section), F64 data_offset, F64 (of_nat (length (sec_data section))),
      F64 (sec_size section), F32 (sec_index section), FPad 4]"

definition write_section :: "Section \<Rightarrow> WriteState \<Rightarrow> WriteState" where
  "write_section section st =
     (let data_offset = of_nat (length (ws_blob st));
          blob = raw (sec_data section) (ws_blob st);
          (name_offset, strings) = intern (sec_name section) (ws_strings st)
      in \<lparr> ws_strings = strings,
           ws_tables = write_fields (section_fields name_offset data_offset section) (ws_tables st),
           ws_blob = blob \<rparr>)"

definition symbol_fields :: "u32 \<Rightarrow> Symbol \<Rightarrow> Field list" where
  "symbol_fields name_offset symbol =
     [F32 name_offset, F8 (binding_num (sy_binding symbol)), F8 (symbol_type_num (sy_type symbol)),
      F8 (if sy_defined symbol then 1 else 0), FPad 1, F32 (sy_section symbol), FPad 4,
      F64 (sy_value symbol), F64 (sy_size symbol)]"

definition write_symbol :: "Symbol \<Rightarrow> WriteState \<Rightarrow> WriteState" where
  "write_symbol symbol st =
     (let (name_offset, strings) = intern (sy_name symbol) (ws_strings st)
      in st\<lparr> ws_strings := strings,
             ws_tables := write_fields (symbol_fields name_offset symbol) (ws_tables st) \<rparr>)"

definition relocation_fields :: "Relocation \<Rightarrow> Field list" where
  "relocation_fields relocation =
     [F32 (rel_section relocation), F32 (rel_symbol relocation), F64 (rel_offset relocation),
      F64 (rel_addend relocation), F8 (relocation_type_num (rel_type relocation)), FPad 7]"

definition write_relocation :: "Relocation \<Rightarrow> WriteState \<Rightarrow> WriteState" where
  "write_relocation relocation st =
     st\<lparr> ws_tables := write_fields (relocation_fields relocation) (ws_tables st) \<rparr>"

definition debug_fields :: "ObjDebugEntry \<Rightarrow> Field list" where
  "debug_fields entry =
     [F32 (od_section entry), F32 (od_file entry), F64 (od_offset entry), F32 (od_line entry),
      F32 (od_column entry)]"

definition write_debug :: "ObjDebugEntry \<Rightarrow> WriteState \<Rightarrow> WriteState" where
  "write_debug entry st = st\<lparr> ws_tables := write_fields (debug_fields entry) (ws_tables st) \<rparr>"

definition write_source :: "string \<Rightarrow> WriteState \<Rightarrow> WriteState" where
  "write_source file st =
     (let (name_offset, strings) = intern file (ws_strings st)
      in st\<lparr> ws_strings := strings, ws_tables := write_fields [F32 name_offset] (ws_tables st) \<rparr>)"

definition object_header :: "ObjectFile \<Rightarrow> Writer" where
  "object_header ob =
     write_fields
       [F16 kObjectVersion, F16 (of_nat kObjectHeaderSize), F32 0,
        F32 (of_nat (length (ob_sections ob))), F32 (of_nat (length (st_symbols (ob_symbols ob)))),
        F32 (of_nat (length (ob_relocations ob))), F32 (of_nat (length (ob_debug_info ob))),
        F32 (of_nat (length (ob_source_files ob))), F64 0, F64 0, F64 0, F32 0, F32 0]
       (raw kObjectMagic [])"

definition write_tables :: "ObjectFile \<Rightarrow> WriteState" where
  "write_tables ob =
     (let st = fold write_section (ob_sections ob) start_write;
          st = fold write_symbol (st_symbols (ob_symbols ob)) st;
          st = fold write_relocation (ob_relocations ob) st;
          st = fold write_debug (ob_debug_info ob) st
      in fold write_source (ob_source_files ob) st)"

text \<open>The header patching and the assembly of the file are the same in both formats.\<close>

definition assemble_file :: "nat \<Rightarrow> Writer \<Rightarrow> WriteState \<Rightarrow> u8 list option" where
  "assemble_file header_size header st =
     (let string_bytes = str_bytes (ws_strings st);
          string_offset = header_size + length (ws_tables st);
          blob_offset = string_offset + length string_bytes;
          file_size = blob_offset + length (ws_blob st)
      in if file_size > 0xFFFFFFFF then None
         else
           let header = patchU64 kStringOffsetField (of_nat string_offset) header;
               header = patchU64 kStringSizeField (of_nat (length string_bytes)) header;
               header = patchU64 kBlobOffsetField (of_nat blob_offset) header;
               header = patchU32 kFileSizeField (of_nat file_size) header;
               buffer = header @ ws_tables st @ string_bytes @ ws_blob st;
               checksum = crc32 (drop header_size buffer)
           in Some (splice_at kChecksumField (le_bytes 4 (ucast checksum)) buffer))"

definition writeObjectToBuffer :: "ObjectFile \<Rightarrow> (ObjectWriteError, u8 list) expected" where
  "writeObjectToBuffer ob =
     (if length (ob_sections ob) > 0xFFFFFFFF \<or> length (ob_relocations ob) > 0xFFFFFFFF \<or>
         length (ob_debug_info ob) > 0xFFFFFFFF \<or> length (ob_source_files ob) > 0xFFFFFFFF
      then Inl TooManyRecords
      else case assemble_file kObjectHeaderSize (object_header ob) (write_tables ob) of
             None \<Rightarrow> Inl ObjectTooLarge
           | Some buffer \<Rightarrow> Inr buffer)"

subsection \<open>Reading\<close>

datatype ObjectReadError =
    TooShort nat
  | ShortMagic nat
  | BadMagic
  | TruncatedHeader
  | BadVersion u16
  | BadHeaderSize u16
  | UnknownFlags u32
  | WrongFileSize u32 nat
  | ChecksumMismatch u32 u32
  | InconsistentLayout
  | StringTableOutside u64 u64 nat
  | TruncatedSections
  | InvalidSectionType u8
  | BadAlignment u64
  | SectionDataRange u64 nat
  | MemorySmallerThanData
  | BadName StringError
  | TruncatedSymbols
  | InvalidBinding u8
  | InvalidSymbolType u8
  | SymbolSectionIndex u32 u32
  | DuplicateSymbol string
  | TruncatedRelocations
  | InvalidRelocationType u8
  | RelocationSectionIndex u32 u32
  | RelocationSymbolIndex u32 u32
  | RelocationDoesNotFit u64 string nat
  | TruncatedDebug
  | DebugSectionIndex u32 u32
  | DebugFileIndex u32 u32
  | TruncatedSources

definition section_kinds :: "Kind list" where
  "section_kinds = [K32, K8, K8, KPad 2, K64, K64, K64, K64, K32, KPad 4]"

definition read_section ::
  "u8 list \<Rightarrow> u8 list \<Rightarrow> Reader \<Rightarrow> ObjectFile \<Rightarrow> (ObjectReadError, ObjectFile) expected \<times> Reader" where
  "read_section strings blob r ob =
     (let (vs, r) = read_kinds section_kinds r in
      case all_present vs of
        None \<Rightarrow> (Inl TruncatedSections, r)
      | Some v \<Rightarrow>
          let name_offset = ucast (v ! 0); type = ucast (v ! 1); section_flags = ucast (v ! 2);
              alignment = v ! 4; data_offset = v ! 5; data_size = v ! 6; memory_size = v ! 7;
              index = ucast (v ! 8)
          in if \<not> isValidSectionType type then (Inl (InvalidSectionType type), r)
             else if alignment = 0 \<or> alignment AND (alignment - 1) \<noteq> 0
             then (Inl (BadAlignment alignment), r)
             else if unat data_offset > length blob \<or> unat data_size > length blob - unat data_offset
             then (Inl (SectionDataRange (data_offset + data_size) (length blob)), r)
             else if memory_size < data_size then (Inl MemorySmallerThanData, r)
             else case readString strings name_offset of
                    Inl e \<Rightarrow> (Inl (BadName e), r)
                  | Inr name \<Rightarrow>
                      (Inr (ob\<lparr> ob_sections := ob_sections ob @
                         [\<lparr> sec_name = name, sec_type = to_section_type type,
                            sec_flags = section_flags, sec_alignment = alignment,
                            sec_data = take (unat data_size) (drop (unat data_offset) blob),
                            sec_size = memory_size, sec_index = index \<rparr>] \<rparr>), r))"

definition symbol_kinds :: "Kind list" where
  "symbol_kinds = [K32, K8, K8, K8, KPad 1, K32, KPad 4, K64, K64]"

definition read_symbol ::
  "u8 list \<Rightarrow> u32 \<Rightarrow> Reader \<Rightarrow> ObjectFile \<Rightarrow> (ObjectReadError, ObjectFile) expected \<times> Reader" where
  "read_symbol strings section_count r ob =
     (let (vs, r) = read_kinds symbol_kinds r in
      case all_present vs of
        None \<Rightarrow> (Inl TruncatedSymbols, r)
      | Some v \<Rightarrow>
          let name_offset = ucast (v ! 0); binding = (ucast (v ! 1) :: u8);
              type = (ucast (v ! 2) :: u8); defined = (ucast (v ! 3) :: u8);
              section_index = ucast (v ! 5); val = v ! 7; sz = v ! 8
          in if binding > binding_num Extern then (Inl (InvalidBinding binding), r)
             else if type > symbol_type_num Sym_Section then (Inl (InvalidSymbolType type), r)
             else if section_index \<noteq> kUndefinedSection \<and> section_index \<ge> section_count
             then (Inl (SymbolSectionIndex section_index section_count), r)
             else case readString strings name_offset of
                    Inl e \<Rightarrow> (Inl (BadName e), r)
                  | Inr name \<Rightarrow>
                      if st_find (ob_symbols ob) name \<noteq> None then (Inl (DuplicateSymbol name), r)
                      else
                        (Inr (ob\<lparr> ob_symbols := snd (addSymbol
                           \<lparr> sy_name = name, sy_binding = to_binding binding,
                             sy_type = to_symbol_type type, sy_section = section_index,
                             sy_value = val, sy_size = sz, sy_defined = (defined \<noteq> 0) \<rparr>
                           (ob_symbols ob)) \<rparr>), r))"

definition relocation_kinds :: "Kind list" where
  "relocation_kinds = [K32, K32, K64, K64, K8, KPad 7]"

definition read_relocation ::
  "u32 \<Rightarrow> u32 \<Rightarrow> Reader \<Rightarrow> ObjectFile \<Rightarrow> (ObjectReadError, ObjectFile) expected \<times> Reader" where
  "read_relocation section_count symbol_count r ob =
     (let (vs, r) = read_kinds relocation_kinds r in
      case all_present vs of
        None \<Rightarrow> (Inl TruncatedRelocations, r)
      | Some v \<Rightarrow>
          let section_index = ucast (v ! 0); symbol_index = ucast (v ! 1); off = v ! 2;
              addend = v ! 3; type = ucast (v ! 4)
          in if \<not> isValidRelocationType type then (Inl (InvalidRelocationType type), r)
             else if section_index \<ge> section_count
             then (Inl (RelocationSectionIndex section_index section_count), r)
             else if symbol_index \<ge> symbol_count
             then (Inl (RelocationSymbolIndex symbol_index symbol_count), r)
             else
               let target = ob_sections ob ! unat section_index;
                   width = relocationWidth (to_relocation_type type)
               in if unat off > length (sec_data target) \<or> width > length (sec_data target) - unat off
                  then (Inl (RelocationDoesNotFit off (sec_name target) (length (sec_data target))), r)
                  else (Inr (ob\<lparr> ob_relocations := ob_relocations ob @
                          [\<lparr> rel_section = section_index, rel_offset = off,
                             rel_type = to_relocation_type type, rel_symbol = symbol_index,
                             rel_addend = addend \<rparr>] \<rparr>), r))"

definition debug_kinds :: "Kind list" where
  "debug_kinds = [K32, K32, K64, K32, K32]"

definition read_debug ::
  "u32 \<Rightarrow> u32 \<Rightarrow> Reader \<Rightarrow> ObjectFile \<Rightarrow> (ObjectReadError, ObjectFile) expected \<times> Reader" where
  "read_debug section_count source_count r ob =
     (let (vs, r) = read_kinds debug_kinds r in
      case all_present vs of
        None \<Rightarrow> (Inl TruncatedDebug, r)
      | Some v \<Rightarrow>
          let section_index = ucast (v ! 0); file_index = ucast (v ! 1)
          in if section_index \<ge> section_count
             then (Inl (DebugSectionIndex section_index section_count), r)
             else if file_index \<ge> source_count
             then (Inl (DebugFileIndex file_index source_count), r)
             else (Inr (ob\<lparr> ob_debug_info := ob_debug_info ob @
                     [\<lparr> od_section = section_index, od_file = file_index, od_offset = v ! 2,
                        od_line = ucast (v ! 3), od_column = ucast (v ! 4) \<rparr>] \<rparr>), r))"

definition read_source ::
  "u8 list \<Rightarrow> Reader \<Rightarrow> ObjectFile \<Rightarrow> (ObjectReadError, ObjectFile) expected \<times> Reader" where
  "read_source strings r ob =
     (let (vs, r) = read_kinds [K32] r in
      case all_present vs of
        None \<Rightarrow> (Inl TruncatedSources, r)
      | Some v \<Rightarrow>
          case readString strings (ucast (v ! 0)) of
            Inl e \<Rightarrow> (Inl (BadName e), r)
          | Inr name \<Rightarrow> (Inr (ob\<lparr> ob_source_files := ob_source_files ob @ [name] \<rparr>), r))"

text \<open>
  The tables are read at the extents computed from the counts.  The sums are 64-bit sums of
  products of 32-bit counts and record sizes, as in the code.
\<close>

definition object_header_kinds :: "Kind list" where
  "object_header_kinds =
     [K16, K16, K32, K32, K32, K32, K32, K32, K64, K64, K64, K32, K32]"

definition read_object_tables ::
  "u16 \<Rightarrow> u32 \<Rightarrow> u32 \<Rightarrow> u32 \<Rightarrow> u32 \<Rightarrow> u32 \<Rightarrow> u8 list \<Rightarrow> u8 list \<Rightarrow> Reader \<Rightarrow>
    (ObjectReadError, ObjectFile) expected" where
  "read_object_tables version section_count symbol_count relocation_count debug_count source_count
     strings blob r =
     (let sections_at = of_nat kObjectHeaderSize :: u64;
          symbols_at = sections_at + ucast section_count * kSectionRecordSize;
          relocations_at = symbols_at + ucast symbol_count * kSymbolRecordSize;
          debug_at = relocations_at + ucast relocation_count * kRelocationRecordSize;
          sources_at = debug_at + ucast debug_count * kDebugRecordSize;
          ob = \<lparr> ob_version = version, ob_sections = [], ob_symbols = empty_table,
                 ob_relocations = [], ob_debug_info = [], ob_source_files = [] \<rparr>
      in and_then (read_loop (read_section strings blob) (unat section_count)
                     (seek (unat sections_at) r) ob) (\<lambda>ob.
         and_then (read_loop (read_symbol strings section_count) (unat symbol_count)
                     (seek (unat symbols_at) r) ob) (\<lambda>ob.
         and_then (read_loop (read_relocation section_count symbol_count) (unat relocation_count)
                     (seek (unat relocations_at) r) ob) (\<lambda>ob.
         and_then (read_loop (read_debug section_count source_count) (unat debug_count)
                     (seek (unat debug_at) r) ob) (\<lambda>ob.
         read_loop (read_source strings) (unat source_count) (seek (unat sources_at) r) ob)))))"

definition readObjectFromBuffer :: "u8 list \<Rightarrow> (ObjectReadError, ObjectFile) expected" where
  "readObjectFromBuffer buffer =
     (if length buffer < kObjectHeaderSize then Inl (TooShort (length buffer))
      else
        let (magic, r) = read_raw (length kObjectMagic) \<lparr> rd_data = buffer, rd_position = 0 \<rparr> in
        case magic of
          None \<Rightarrow> Inl (ShortMagic (length buffer))
        | Some m \<Rightarrow>
            if m \<noteq> kObjectMagic then Inl BadMagic
            else
              let (vs, r) = read_kinds object_header_kinds r in
              case all_present vs of
                None \<Rightarrow> Inl TruncatedHeader
              | Some v \<Rightarrow>
                  let version = (ucast (v ! 0) :: u16); header_size = (ucast (v ! 1) :: u16);
                      header_flags = (ucast (v ! 2) :: u32);
                      section_count = (ucast (v ! 3) :: u32); symbol_count = (ucast (v ! 4) :: u32);
                      relocation_count = (ucast (v ! 5) :: u32);
                      debug_count = (ucast (v ! 6) :: u32); source_count = (ucast (v ! 7) :: u32);
                      string_offset = v ! 8; string_size = v ! 9; blob_offset = v ! 10;
                      file_size = (ucast (v ! 11) :: u32); checksum = (ucast (v ! 12) :: u32);
                      actual = crc32 (drop kObjectHeaderSize buffer);
                      tables_end = of_nat kObjectHeaderSize +
                        ucast section_count * kSectionRecordSize +
                        ucast symbol_count * kSymbolRecordSize +
                        ucast relocation_count * kRelocationRecordSize +
                        ucast debug_count * kDebugRecordSize +
                        ucast source_count * kSourceRecordSize
                  in if version \<noteq> kObjectVersion then Inl (BadVersion version)
                     else if unat header_size \<noteq> kObjectHeaderSize then Inl (BadHeaderSize header_size)
                     else if header_flags \<noteq> 0 then Inl (UnknownFlags header_flags)
                     else if unat file_size \<noteq> length buffer
                     then Inl (WrongFileSize file_size (length buffer))
                     else if actual \<noteq> checksum then Inl (ChecksumMismatch checksum actual)
                     else if unat tables_end > length buffer \<or> string_offset \<noteq> tables_end \<or>
                             unat (string_offset + string_size) > length buffer \<or>
                             blob_offset \<noteq> string_offset + string_size \<or>
                             unat blob_offset > length buffer
                     then Inl InconsistentLayout
                     else case rawAt (unat string_offset) (unat string_size) r of
                            None \<Rightarrow> Inl (StringTableOutside string_offset (string_offset + string_size) (length buffer))
                          | Some strings \<Rightarrow>
                              read_object_tables version section_count symbol_count relocation_count
                                debug_count source_count strings (drop (unat blob_offset) buffer) r)"

end
