(* ===== verification/Object_Codec.thy ===== *)
theory Object_Codec
  imports Object_IO
begin

text \<open>
  The .mobj format is a bijection between well-formed object files and the images the reader
  accepts, as far as the names are free of NUL bytes.  Each table of the format is shown to meet
  the contracts \<open>table_codec\<close> and \<open>table_writer\<close> of Binary; the rest follows from their lemmas.
\<close>

subsection \<open>Sections\<close>

type_synonym located_section = "Section \<times> u32 \<times> u64"

definition section_image :: "located_section \<Rightarrow> u8 list" where
  "section_image l = (case l of (section, n, d) \<Rightarrow> record_bytes (section_fields n d section))"

definition section_shape :: "Section \<Rightarrow> bool" where
  "section_shape section \<longleftrightarrow>
     printable (sec_name section) \<and> sec_alignment section \<noteq> 0 \<and>
     sec_alignment section AND (sec_alignment section - 1) = 0 \<and>
     length (sec_data section) \<le> unat (sec_size section)"

definition section_located :: "u8 list \<Rightarrow> u8 list \<Rightarrow> located_section \<Rightarrow> bool" where
  "section_located strings blob l = (case l of (section, n, d) \<Rightarrow>
     (printable (sec_name section) \<longrightarrow> resolves strings n (sec_name section)) \<and>
     length (sec_data section) < 2 ^ 32 \<and>
     blob_slice blob d (of_nat (length (sec_data section))) (sec_data section))"

definition add_section :: "located_section \<Rightarrow> ObjectFile \<Rightarrow> ObjectFile" where
  "add_section l ob = ob\<lparr> ob_sections := ob_sections ob @ [fst l] \<rparr>"

lemma section_field_kinds: "section_kinds = map field_kind (section_fields n d section)"
  by (simp add: section_kinds_def section_fields_def)

interpretation section_codec:
  table_codec section_image "read_section strings blob" add_section
    "\<lambda>l _. section_located strings blob l \<and> section_shape (fst l)"
  for strings blob
proof
  fix r l and s :: ObjectFile
  assume at: "at_bytes r (section_image l)"
    and good: "section_located strings blob l \<and> section_shape (fst l)"
  obtain sec n d where l: "l = (sec, n, d)" by (cases l)
  obtain vs r' where k: "read_kinds section_kinds r = (vs, r')" by fastforce
  have p: "all_present vs = Some (map field_value (section_fields n d sec))"
    "r' = advance_reader (length (section_image l)) r"
    using read_kinds_present [OF _ section_field_kinds k] at by (auto simp: l section_image_def)
  have len: "unat (of_nat (length (sec_data sec)) :: u64) = length (sec_data sec)"
    using good by (simp add: section_located_def l unat_of_nat_u64)
  show "read_section strings blob r s = (Inr (add_section l s), advance_reader (length (section_image l)) r)"
    using good len
    by (auto simp: read_section_def k p section_fields_def Let_def l add_section_def
        section_located_def section_shape_def blob_slice_def resolves_def word_less_nat_alt)
qed

interpretation section_writer:
  table_writer write_section section_image fst
    "\<lambda>st. section_located (str_bytes (ws_strings st)) (ws_blob st)"
proof
  fix st :: WriteState and x :: Section
  assume ok: "strings_ok (ws_strings st)"
  obtain n t where i: "intern (sec_name x) (ws_strings st) = (n, t)" by fastforce
  note s = intern_spec [OF ok i]
  let ?l = "(x, n, of_nat (length (ws_blob st)) :: u64)"
  have w: "write_section x st = \<lparr> ws_strings = t, ws_tables = ws_tables st @ section_image ?l,
      ws_blob = ws_blob st @ sec_data x \<rparr>"
    by (simp add: write_section_def i Let_def byte_simps section_image_def raw_def)
  have "section_located (str_bytes t) (ws_blob st @ sec_data x) ?l"
    if "small (write_section x st)"
    using that s(3) blob_slice_new [of "ws_blob st" "sec_data x"]
    by (auto simp: w small_def section_located_def)
  with s(1,2) show "\<exists>l. fst l = x \<and> ws_tables (write_section x st) = ws_tables st @ section_image l \<and>
      extends st (write_section x st) \<and> strings_ok (ws_strings (write_section x st)) \<and>
      (small (write_section x st) \<longrightarrow>
        section_located (str_bytes (ws_strings (write_section x st))) (ws_blob (write_section x st)) l)"
    by (intro exI [of _ ?l]) (auto simp: w extends_def)
next
  fix st l st'
  assume "section_located (str_bytes (ws_strings st)) (ws_blob st) l" "extends st st'"
  then show "section_located (str_bytes (ws_strings st')) (ws_blob st') l"
    by (auto simp: section_located_def split: prod.splits intro: resolves_extends blob_slice_extends)
qed


subsection \<open>Symbols\<close>

definition symbol_image :: "Symbol \<times> u32 \<Rightarrow> u8 list" where
  "symbol_image l = record_bytes (symbol_fields (snd l) (fst l))"

definition symbol_shape :: "nat \<Rightarrow> Symbol \<Rightarrow> bool" where
  "symbol_shape section_count symbol \<longleftrightarrow> printable (sy_name symbol) \<and>
     (sy_section symbol = kUndefinedSection \<or> unat (sy_section symbol) < section_count)"

definition add_symbol :: "Symbol \<times> u32 \<Rightarrow> ObjectFile \<Rightarrow> ObjectFile" where
  "add_symbol l ob = ob\<lparr> ob_symbols := snd (addSymbol (fst l) (ob_symbols ob)) \<rparr>"

lemma symbol_field_kinds: "symbol_kinds = map field_kind (symbol_fields n symbol)"
  by (simp add: symbol_kinds_def symbol_fields_def)

lemma symbol_enums_valid [simp]:
  "\<not> binding_num Extern < binding_num b" "\<not> symbol_type_num Sym_Section < symbol_type_num t"
  by (cases b; simp) (cases t; simp)

interpretation symbol_codec:
  table_codec symbol_image "read_symbol strings section_count" add_symbol
    "\<lambda>l ob. named sy_name strings l \<and> symbol_shape (unat section_count) (fst l) \<and>
       st_find (ob_symbols ob) (sy_name (fst l)) = None"
  for strings section_count
proof
  fix r l and s :: ObjectFile
  assume at: "at_bytes r (symbol_image l)"
    and good: "named sy_name strings l \<and> symbol_shape (unat section_count) (fst l) \<and>
      st_find (ob_symbols s) (sy_name (fst l)) = None"
  obtain vs r' where k: "read_kinds symbol_kinds r = (vs, r')" by fastforce
  have p: "all_present vs = Some (map field_value (symbol_fields (snd l) (fst l)))"
    "r' = advance_reader (length (symbol_image l)) r"
    using read_kinds_present [OF _ symbol_field_kinds k] at by (auto simp: symbol_image_def)
  have shape: "\<not> (sy_section (fst l) \<noteq> kUndefinedSection \<and> section_count \<le> sy_section (fst l))"
    using good by (auto simp: symbol_shape_def not_le word_less_nat_alt)
  have name: "readString strings (snd l) = Inr (sy_name (fst l))"
    using good by (auto simp: named_def symbol_shape_def resolves_def)
  show "read_symbol strings section_count r s = (Inr (add_symbol l s), advance_reader (length (symbol_image l)) r)"
    using good shape name
    by (cases "fst l") (simp add: read_symbol_def k p symbol_fields_def Let_def add_symbol_def
        del: binding_num.simps symbol_type_num.simps)
qed

interpretation symbol_writer:
  table_writer write_symbol symbol_image fst "\<lambda>st. named sy_name (str_bytes (ws_strings st))"
proof
  fix st :: WriteState and x :: Symbol
  assume ok: "strings_ok (ws_strings st)"
  obtain n t where i: "intern (sy_name x) (ws_strings st) = (n, t)" by fastforce
  note s = intern_spec [OF ok i]
  have w: "write_symbol x st =
      st\<lparr> ws_strings := t, ws_tables := ws_tables st @ symbol_image (x, n) \<rparr>"
    by (simp add: write_symbol_def i Let_def byte_simps symbol_image_def)
  with s show "\<exists>l. fst l = x \<and> ws_tables (write_symbol x st) = ws_tables st @ symbol_image l \<and>
      extends st (write_symbol x st) \<and> strings_ok (ws_strings (write_symbol x st)) \<and>
      (small (write_symbol x st) \<longrightarrow> named sy_name (str_bytes (ws_strings (write_symbol x st))) l)"
    by (intro exI [of _ "(x, n)"]) (auto simp: extends_def named_def small_def)
qed (rule named_extends)

subsection \<open>Relocations, line records and source files\<close>

definition relocation_image :: "Relocation \<Rightarrow> u8 list" where
  "relocation_image relocation = record_bytes (relocation_fields relocation)"

definition relocation_shape :: "Section list \<Rightarrow> nat \<Rightarrow> Relocation \<Rightarrow> bool" where
  "relocation_shape sections symbol_count relocation \<longleftrightarrow>
     unat (rel_section relocation) < length sections \<and> unat (rel_symbol relocation) < symbol_count \<and>
     unat (rel_offset relocation) + relocationWidth (rel_type relocation)
       \<le> length (sec_data (sections ! unat (rel_section relocation)))"

definition add_relocation :: "Relocation \<Rightarrow> ObjectFile \<Rightarrow> ObjectFile" where
  "add_relocation relocation ob = ob\<lparr> ob_relocations := ob_relocations ob @ [relocation] \<rparr>"

lemma relocation_field_kinds: "relocation_kinds = map field_kind (relocation_fields relocation)"
  by (simp add: relocation_kinds_def relocation_fields_def)

interpretation relocation_codec:
  table_codec relocation_image "read_relocation section_count symbol_count" add_relocation
    "\<lambda>relocation ob. relocation_shape (ob_sections ob) (unat symbol_count) relocation \<and>
       length (ob_sections ob) = unat section_count"
  for section_count symbol_count
proof
  fix r x and s :: ObjectFile
  assume at: "at_bytes r (relocation_image x)"
    and good: "relocation_shape (ob_sections s) (unat symbol_count) x \<and>
      length (ob_sections s) = unat section_count"
  obtain vs r' where k: "read_kinds relocation_kinds r = (vs, r')" by fastforce
  have p: "all_present vs = Some (map field_value (relocation_fields x))"
    "r' = advance_reader (length (relocation_image x)) r"
    using read_kinds_present [OF _ relocation_field_kinds k] at by (auto simp: relocation_image_def)
  show "read_relocation section_count symbol_count r s
      = (Inr (add_relocation x s), advance_reader (length (relocation_image x)) r)"
    using good
    by (auto simp: read_relocation_def k p relocation_fields_def Let_def add_relocation_def
        relocation_shape_def not_less not_le word_less_nat_alt word_le_nat_alt)
qed

interpretation relocation_writer: table_writer write_relocation relocation_image "\<lambda>l. l" "\<lambda>_ _. True"
  by unfold_locales
    (auto simp: write_relocation_def byte_simps relocation_image_def extends_def)

definition debug_image :: "ObjDebugEntry \<Rightarrow> u8 list" where
  "debug_image entry = record_bytes (debug_fields entry)"

definition debug_shape :: "nat \<Rightarrow> nat \<Rightarrow> ObjDebugEntry \<Rightarrow> bool" where
  "debug_shape section_count source_count entry \<longleftrightarrow>
     unat (od_section entry) < section_count \<and> unat (od_file entry) < source_count"

definition add_debug :: "ObjDebugEntry \<Rightarrow> ObjectFile \<Rightarrow> ObjectFile" where
  "add_debug entry ob = ob\<lparr> ob_debug_info := ob_debug_info ob @ [entry] \<rparr>"

lemma debug_field_kinds: "debug_kinds = map field_kind (debug_fields entry)"
  by (simp add: debug_kinds_def debug_fields_def)

interpretation debug_codec:
  table_codec debug_image "read_debug section_count source_count" add_debug
    "\<lambda>entry _. debug_shape (unat section_count) (unat source_count) entry"
  for section_count source_count
proof
  fix r x and s :: ObjectFile
  assume at: "at_bytes r (debug_image x)" and good: "debug_shape (unat section_count) (unat source_count) x"
  obtain vs r' where k: "read_kinds debug_kinds r = (vs, r')" by fastforce
  have p: "all_present vs = Some (map field_value (debug_fields x))"
    "r' = advance_reader (length (debug_image x)) r"
    using read_kinds_present [OF _ debug_field_kinds k] at by (auto simp: debug_image_def)
  show "read_debug section_count source_count r s
      = (Inr (add_debug x s), advance_reader (length (debug_image x)) r)"
    using good
    by (auto simp: read_debug_def k p debug_fields_def Let_def add_debug_def debug_shape_def not_less not_le word_less_nat_alt word_le_nat_alt)
qed

interpretation debug_writer: table_writer write_debug debug_image "\<lambda>l. l" "\<lambda>_ _. True"
  by unfold_locales (auto simp: write_debug_def byte_simps debug_image_def extends_def)

definition source_image :: "string \<times> u32 \<Rightarrow> u8 list" where
  "source_image l = record_bytes [F32 (snd l)]"

definition add_source :: "string \<times> u32 \<Rightarrow> ObjectFile \<Rightarrow> ObjectFile" where
  "add_source l ob = ob\<lparr> ob_source_files := ob_source_files ob @ [fst l] \<rparr>"

interpretation source_codec:
  table_codec source_image "read_source strings" add_source
    "\<lambda>l _. named (\<lambda>name. name) strings l \<and> printable (fst l)"
  for strings
proof
  fix r l and s :: ObjectFile
  assume at: "at_bytes r (source_image l)"
    and good: "named (\<lambda>name. name) strings l \<and> printable (fst l)"
  obtain vs r' where k: "read_kinds [K32] r = (vs, r')" by fastforce
  have p: "all_present vs = Some (map field_value [F32 (snd l)])"
    "r' = advance_reader (length (source_image l)) r"
    using read_kinds_present [OF _ _ k, of "[F32 (snd l)]"] at by (auto simp: source_image_def)
  show "read_source strings r s = (Inr (add_source l s), advance_reader (length (source_image l)) r)"
    unfolding read_source_def k
    using good by (simp add: p add_source_def named_def resolves_def del: read_kinds.simps)
qed

interpretation source_writer:
  table_writer write_source source_image fst "\<lambda>st. named (\<lambda>name. name) (str_bytes (ws_strings st))"
proof
  fix st :: WriteState and x :: string
  assume ok: "strings_ok (ws_strings st)"
  obtain n t where i: "intern x (ws_strings st) = (n, t)" by fastforce
  note s = intern_spec [OF ok i]
  have w: "write_source x st =
      st\<lparr> ws_strings := t, ws_tables := ws_tables st @ source_image (x, n) \<rparr>"
    by (simp add: write_source_def i Let_def byte_simps source_image_def)
  with s show "\<exists>l. fst l = x \<and> ws_tables (write_source x st) = ws_tables st @ source_image l \<and>
      extends st (write_source x st) \<and> strings_ok (ws_strings (write_source x st)) \<and>
      (small (write_source x st) \<longrightarrow> named (\<lambda>name. name) (str_bytes (ws_strings (write_source x st))) l)"
    by (intro exI [of _ "(x, n)"]) (auto simp: extends_def named_def small_def)
qed (rule named_extends)

subsection \<open>The header\<close>

definition sizes_fields :: "nat \<Rightarrow> nat \<Rightarrow> nat \<Rightarrow> nat \<Rightarrow> u32 \<Rightarrow> Field list" where
  "sizes_fields string_offset string_size blob_offset file_size checksum =
     [F64 (of_nat string_offset), F64 (of_nat string_size), F64 (of_nat blob_offset),
      F32 (of_nat file_size), F32 checksum]"

lemma assemble_file_image:
  assumes "assemble_file 64 (pre @ record_bytes [F64 0, F64 0, F64 0, F32 0, F32 0]) st = Some buf"
    and "length pre = 32"
  defines "body \<equiv> ws_tables st @ str_bytes (ws_strings st) @ ws_blob st"
  shows "length buf = 64 + length body" and "64 + length body \<le> 0xFFFFFFFF"
    and "buf = pre @ record_bytes (sizes_fields (64 + length (ws_tables st))
        (length (str_bytes (ws_strings st)))
        (64 + length (ws_tables st) + length (str_bytes (ws_strings st))) (64 + length body)
        (crc32 body)) @ body"
proof -
  let ?so = "64 + length (ws_tables st)" and ?ss = "length (str_bytes (ws_strings st))"
  let ?bo = "?so + ?ss" and ?fs = "64 + length body"
  have fs: "?bo + length (ws_blob st) = ?fs" by (simp add: body_def)
  have small: "?fs \<le> 0xFFFFFFFF"
    using assms(1) by (simp add: assemble_file_def fs [symmetric] Let_def split: if_splits)
  define A where "A = le_bytes 8 (0 :: u64)"
  define z where "z = le_bytes 4 (0 :: u64)"
  define a where "a = le_bytes 8 (of_nat ?so)"
  define b where "b = le_bytes 8 (of_nat ?ss)"
  define c where "c = le_bytes 8 (of_nat ?bo)"
  define d where "d = le_bytes 4 (ucast (of_nat ?fs :: u32))"
  define e where "e = le_bytes 4 (ucast (crc32 body) :: u64)"
  have len: "length A = 8" "length z = 4" "length a = 8" "length b = 8" "length c = 8"
    "length d = 4" "length e = 4"
    by (simp_all add: A_def z_def a_def b_def c_def d_def e_def)
  have h0: "pre @ record_bytes [F64 0, F64 0, F64 0, F32 0, F32 0] = pre @ A @ A @ A @ z @ z"
    by (simp add: record_bytes_def A_def z_def)
  have "splice_at 32 a (pre @ A @ (A @ A @ z @ z)) = pre @ a @ (A @ A @ z @ z)"
    by (rule splice_at_mid) (simp_all add: len assms(2))
  moreover have "splice_at 40 b ((pre @ a) @ A @ (A @ z @ z)) = (pre @ a) @ b @ (A @ z @ z)"
    by (rule splice_at_mid) (simp_all add: len assms(2))
  moreover have "splice_at 48 c ((pre @ a @ b) @ A @ (z @ z)) = (pre @ a @ b) @ c @ (z @ z)"
    by (rule splice_at_mid) (simp_all add: len assms(2))
  moreover have "splice_at 56 d ((pre @ a @ b @ c) @ z @ z) = (pre @ a @ b @ c) @ d @ z"
    by (rule splice_at_mid) (simp_all add: len assms(2))
  ultimately have head: "patchU32 56 (of_nat ?fs) (patchU64 48 (of_nat ?bo) (patchU64 40 (of_nat ?ss)
      (patchU64 32 (of_nat ?so) (pre @ A @ A @ A @ z @ z)))) = pre @ a @ b @ c @ d @ z"
    by (simp add: patchU32_def patchU64_def a_def [symmetric] b_def [symmetric] c_def [symmetric]
        d_def [symmetric] del: of_nat_add of_nat_numeral)
  have drop: "drop 64 ((pre @ a @ b @ c @ d @ z) @ body) = body"
    by (simp add: len assms(2))
  have fin: "splice_at 60 e ((pre @ a @ b @ c @ d) @ z @ body) = (pre @ a @ b @ c @ d) @ e @ body"
    by (rule splice_at_mid) (simp_all add: len assms(2))
  have "Some buf = Some (splice_at 60 e ((pre @ a @ b @ c @ d @ z) @ body))"
    using assms(1) small drop
    unfolding assemble_file_def Let_def object_fields h0 fs head [symmetric]
    by (simp add: body_def [symmetric] head [symmetric] e_def del: of_nat_add of_nat_numeral)
  then have buf: "buf = pre @ (a @ b @ c @ d @ e) @ body"
    using fin by simp
  show "buf = pre @ record_bytes (sizes_fields ?so ?ss ?bo ?fs (crc32 body)) @ body"
    unfolding buf by (simp add: sizes_fields_def record_bytes_def a_def b_def c_def d_def e_def)
  show "length buf = 64 + length body" by (simp add: buf len assms(2))
  show "64 + length body \<le> 0xFFFFFFFF" by (rule small)
qed

subsection \<open>Whole files\<close>

text \<open>What an object file must satisfy to be written and read back.\<close>

definition object_ok :: "ObjectFile \<Rightarrow> bool" where
  "object_ok ob \<longleftrightarrow>
     ob_version ob = kObjectVersion \<and> list_all section_shape (ob_sections ob) \<and>
     table_ok (ob_symbols ob) \<and>
     list_all (symbol_shape (length (ob_sections ob))) (st_symbols (ob_symbols ob)) \<and>
     list_all (relocation_shape (ob_sections ob) (length (st_symbols (ob_symbols ob))))
       (ob_relocations ob) \<and>
     list_all (debug_shape (length (ob_sections ob)) (length (ob_source_files ob))) (ob_debug_info ob) \<and>
     list_all printable (ob_source_files ob)"

lemma write_tables_spec:
  fixes ob :: ObjectFile
  defines "st \<equiv> write_tables ob"
  obtains secs syms srcs where
    "map fst secs = ob_sections ob" "map fst syms = st_symbols (ob_symbols ob)"
    "map fst srcs = ob_source_files ob"
    "ws_tables st = concat (map section_image secs) @ concat (map symbol_image syms) @
       concat (map relocation_image (ob_relocations ob)) @ concat (map debug_image (ob_debug_info ob)) @
       concat (map source_image srcs)"
    "small st \<Longrightarrow> \<forall>l \<in> set secs. section_located (str_bytes (ws_strings st)) (ws_blob st) l"
    "small st \<Longrightarrow> \<forall>l \<in> set syms. named sy_name (str_bytes (ws_strings st)) l"
    "small st \<Longrightarrow> \<forall>l \<in> set srcs. named (\<lambda>name. name) (str_bytes (ws_strings st)) l"
proof -
  define s1 where "s1 = fold write_section (ob_sections ob) start_write"
  define s2 where "s2 = fold write_symbol (st_symbols (ob_symbols ob)) s1"
  define s3 where "s3 = fold write_relocation (ob_relocations ob) s2"
  define s4 where "s4 = fold write_debug (ob_debug_info ob) s3"
  have st: "st = fold write_source (ob_source_files ob) s4"
    by (simp add: st_def write_tables_def s4_def s3_def s2_def s1_def)
  have "strings_ok (ws_strings start_write)" by (simp add: start_write_def)
  from section_writer.table_writes [OF this, of "ob_sections ob"]
  obtain secs where 1: "map fst secs = ob_sections ob" "ws_tables s1 = concat (map section_image secs)"
    "strings_ok (ws_strings s1)"
    "small s1 \<longrightarrow> (\<forall>l \<in> set secs. section_located (str_bytes (ws_strings s1)) (ws_blob s1) l)"
    by (auto simp: s1_def start_write_def)
  from symbol_writer.table_writes [OF 1(3), of "st_symbols (ob_symbols ob)"]
  obtain syms where 2: "map fst syms = st_symbols (ob_symbols ob)"
    "ws_tables s2 = ws_tables s1 @ concat (map symbol_image syms)" "extends s1 s2"
    "strings_ok (ws_strings s2)"
    "small s2 \<longrightarrow> (\<forall>l \<in> set syms. named sy_name (str_bytes (ws_strings s2)) l)"
    by (auto simp: s2_def)
  from relocation_writer.table_writes [OF 2(4), of "ob_relocations ob"]
  have 3: "ws_tables s3 = ws_tables s2 @ concat (map relocation_image (ob_relocations ob))"
    "extends s2 s3" "strings_ok (ws_strings s3)" by (auto simp: s3_def)
  from debug_writer.table_writes [OF 3(3), of "ob_debug_info ob"]
  have 4: "ws_tables s4 = ws_tables s3 @ concat (map debug_image (ob_debug_info ob))"
    "extends s3 s4" "strings_ok (ws_strings s4)" by (auto simp: s4_def)
  from source_writer.table_writes [OF 4(3), of "ob_source_files ob"]
  obtain srcs where 5: "map fst srcs = ob_source_files ob"
    "ws_tables st = ws_tables s4 @ concat (map source_image srcs)" "extends s4 st"
    "small st \<longrightarrow> (\<forall>l \<in> set srcs. named (\<lambda>name. name) (str_bytes (ws_strings st)) l)"
    by (auto simp: st)
  have e2: "extends s2 st" using 3(2) 4(2) 5(3) extends_trans by blast
  have e1: "extends s1 st" using 2(3) e2 extends_trans by blast
  have "\<forall>l \<in> set secs. section_located (str_bytes (ws_strings st)) (ws_blob st) l" if "small st"
    using 1(4) small_extends [OF e1 that] section_writer.located_mono [OF _ e1] by blast
  moreover have "\<forall>l \<in> set syms. named sy_name (str_bytes (ws_strings st)) l" if "small st"
    using 2(5) small_extends [OF e2 that] named_extends [OF _ e2] by blast
  ultimately show ?thesis
    using that [of secs syms srcs] 1 2 3 4 5 by simp
qed

lemma image_lengths [layout_simps]:
  "length (section_image l) = 48" "length (symbol_image m) = 32" "length (relocation_image x) = 32"
  "length (debug_image y) = 24" "length (source_image z) = 4"
  by (simp_all add: section_image_def symbol_image_def relocation_image_def debug_image_def
      source_image_def record_bytes_length section_fields_def symbol_fields_def relocation_fields_def
      debug_fields_def split: prod.splits)

lemma table_lengths [layout_simps]:
  "length (concat (map section_image ls)) = 48 * length ls"
  "length (concat (map symbol_image ms)) = 32 * length ms"
  "length (concat (map relocation_image xs)) = 32 * length xs"
  "length (concat (map debug_image ys)) = 24 * length ys"
  "length (concat (map source_image zs)) = 4 * length zs"
  by (rule length_concat_const, simp add: layout_simps)+

text \<open>Adding the symbols of a table one by one rebuilds it.\<close>

lemma table_ok_names_distinct: "table_ok t \<Longrightarrow> distinct (map sy_name (st_symbols t))"
proof -
  assume ok: "table_ok t"
  have "i = j" if "i < length (st_symbols t)" "j < length (st_symbols t)"
    "sy_name (st_symbols t ! i) = sy_name (st_symbols t ! j)" for i j
  proof -
    have "(of_nat i :: u32) = of_nat j" using ok that by (metis table_ok_def option.inject)
    moreover have "i < 2 ^ 32" "j < 2 ^ 32" using ok that by (auto simp: table_ok_def)
    ultimately show ?thesis by (metis unat_of_nat_u32)
  qed
  then show ?thesis by (auto simp: distinct_conv_nth)
qed

lemma table_ok_eqI: "table_ok t \<Longrightarrow> table_ok u \<Longrightarrow> st_symbols t = st_symbols u \<Longrightarrow> t = (u :: SymbolTable)"
proof -
  assume a: "table_ok t" "table_ok u" "st_symbols t = st_symbols u"
  have "st_index t name = Some i \<longleftrightarrow> st_index u name = Some i" for name i
    using table_ok_index [OF a(1)] table_ok_index [OF a(2)] a(3) by simp
  then have "st_index t name = st_index u name" for name
    by (metis option.exhaust)
  then show "t = u" using a(3) by (cases t; cases u) auto
qed

lemma st_find_fresh:
  "table_ok t \<Longrightarrow> n \<notin> sy_name ` set (st_symbols t) \<Longrightarrow> st_index t n = None"
  using table_ok_index [of t n] by (cases "st_index t n") (force simp: image_iff in_set_conv_nth)+

lemma symbols_read:
  "table_ok (ob_symbols ob) \<Longrightarrow>
   distinct (map sy_name (st_symbols (ob_symbols ob) @ map fst ls)) \<Longrightarrow>
   length (st_symbols (ob_symbols ob)) + length ls < 2 ^ 32 \<Longrightarrow>
   \<forall>l \<in> set ls. named sy_name strings l \<and> symbol_shape (unat section_count) (fst l) \<Longrightarrow>
   symbol_codec.all_good strings section_count ls ob \<and>
   (\<exists>t. table_ok t \<and> st_symbols t = st_symbols (ob_symbols ob) @ map fst ls \<and>
        fold add_symbol ls ob = ob\<lparr> ob_symbols := t \<rparr>)"
proof (induction ls arbitrary: ob)
  case Nil
  then show ?case by (intro conjI exI [of _ "ob_symbols ob"]) simp_all
next
  case (Cons l ls)
  let ?t = "ob_symbols ob"
  have fresh: "st_index ?t (sy_name (fst l)) = None"
    using Cons.prems by (intro st_find_fresh) auto
  have room: "0 < st_room ?t" using Cons.prems(3) by (simp add: st_room_def)
  obtain i t' where a: "addSymbol (fst l) ?t = (i, t')" by fastforce
  note n = addSymbol_new [OF Cons.prems(1) room fresh a]
  have add: "add_symbol l ob = ob\<lparr> ob_symbols := t' \<rparr>" by (simp add: add_symbol_def a)
  have find: "st_find ?t (sy_name (fst l)) = None" by (simp add: st_find_def fresh)
  from Cons.IH [of "add_symbol l ob"] Cons.prems n
  show ?case by (auto simp: add find symbol_codec.all_good.simps)
qed

lemma fold_adds [simp]:
  "fold add_section secs ob = ob\<lparr> ob_sections := ob_sections ob @ map fst secs \<rparr>"
  "fold add_relocation rels ob = ob\<lparr> ob_relocations := ob_relocations ob @ rels \<rparr>"
  "fold add_debug dbg ob = ob\<lparr> ob_debug_info := ob_debug_info ob @ dbg \<rparr>"
  "fold add_source srcs ob = ob\<lparr> ob_source_files := ob_source_files ob @ map fst srcs \<rparr>"
proof -
  show "fold add_section secs ob = ob\<lparr> ob_sections := ob_sections ob @ map fst secs \<rparr>"
    by (induction secs arbitrary: ob) (simp_all add: add_section_def)
  show "fold add_relocation rels ob = ob\<lparr> ob_relocations := ob_relocations ob @ rels \<rparr>"
    by (induction rels arbitrary: ob) (simp_all add: add_relocation_def)
  show "fold add_debug dbg ob = ob\<lparr> ob_debug_info := ob_debug_info ob @ dbg \<rparr>"
    by (induction dbg arbitrary: ob) (simp_all add: add_debug_def)
  show "fold add_source srcs ob = ob\<lparr> ob_source_files := ob_source_files ob @ map fst srcs \<rparr>"
    by (induction srcs arbitrary: ob) (simp_all add: add_source_def)
qed

text \<open>The tables of an image are read back.\<close>

lemma read_object_tables_image:
  fixes ob :: ObjectFile
  assumes ok: "object_ok ob"
    and secs: "map fst secs = ob_sections ob" and syms: "map fst syms = st_symbols (ob_symbols ob)"
    and srcs: "map fst srcs = ob_source_files ob"
    and loc: "\<forall>l \<in> set secs. section_located strings blob l"
      "\<forall>l \<in> set syms. named sy_name strings l" "\<forall>l \<in> set srcs. named (\<lambda>name. name) strings l"
    and data: "rd_data r = header @ concat (map section_image secs) @ concat (map symbol_image syms) @
       concat (map relocation_image (ob_relocations ob)) @ concat (map debug_image (ob_debug_info ob)) @
       concat (map source_image srcs) @ rest"
    and header: "length header = 64" and small: "length (rd_data r) < 2 ^ 32"
  shows "read_object_tables kObjectVersion (of_nat (length secs)) (of_nat (length syms))
      (of_nat (length (ob_relocations ob))) (of_nat (length (ob_debug_info ob)))
      (of_nat (length srcs)) strings blob r = Inr ob"
proof -
  let ?rel = "ob_relocations ob" and ?dbg = "ob_debug_info ob"
  have bound: "64 + 48 * length secs + 32 * length syms + 32 * length ?rel + 24 * length ?dbg
      + 4 * length srcs < 2 ^ 32"
    using small by (simp add: data header layout_simps)
  then have n: "length secs < 2 ^ 32" "length syms < 2 ^ 32" "length ?rel < 2 ^ 32"
    "length ?dbg < 2 ^ 32" "length srcs < 2 ^ 32" by linarith+
  note nat = n [THEN u32_of_nat]
  have pos: "unat (of_nat m :: u64) = m" if "m < 2 ^ 32" for m
    using that by (simp add: unat_of_nat_u64)
  let ?at2 = "64 + 48 * length secs" let ?at3 = "?at2 + 32 * length syms"
  let ?at4 = "?at3 + 32 * length ?rel" let ?at5 = "?at4 + 24 * length ?dbg"
  have p: "unat (of_nat ?at2 :: u64) = ?at2" "unat (of_nat ?at3 :: u64) = ?at3"
    "unat (of_nat ?at4 :: u64) = ?at4" "unat (of_nat ?at5 :: u64) = ?at5"
    by (rule pos, use bound in linarith)+
  have w: "of_nat kObjectHeaderSize + ucast (of_nat (length secs) :: u32) * kSectionRecordSize
        = (of_nat ?at2 :: u64)"
    "(of_nat ?at2 :: u64) + ucast (of_nat (length syms) :: u32) * kSymbolRecordSize = of_nat ?at3"
    "(of_nat ?at3 :: u64) + ucast (of_nat (length ?rel) :: u32) * kRelocationRecordSize = of_nat ?at4"
    "(of_nat ?at4 :: u64) + ucast (of_nat (length ?dbg) :: u32) * kDebugRecordSize = of_nat ?at5"
    by (simp_all add: ucast_of_nat_u32 [OF n(1)] ucast_of_nat_u32 [OF n(2)]
        ucast_of_nat_u32 [OF n(3)] ucast_of_nat_u32 [OF n(4)] kObjectHeaderSize_def object_sizes)
  define o0 where "o0 = \<lparr> ob_version = kObjectVersion, ob_sections = [], ob_symbols = empty_table,
    ob_relocations = [], ob_debug_info = [], ob_source_files = [] \<rparr>"
  define o1 where "o1 = o0\<lparr> ob_sections := ob_sections ob \<rparr>"
  define o2 where "o2 = o1\<lparr> ob_symbols := ob_symbols ob \<rparr>"
  define o3 where "o3 = o2\<lparr> ob_relocations := ?rel \<rparr>"
  define o4 where "o4 = o3\<lparr> ob_debug_info := ?dbg \<rparr>"
  have lens: "length secs = length (ob_sections ob)" "length syms = length (st_symbols (ob_symbols ob))"
    "length srcs = length (ob_source_files ob)"
    using secs syms srcs by (metis length_map)+
  have shapes: "\<forall>l \<in> set secs. section_shape (fst l)"
    "\<forall>l \<in> set syms. symbol_shape (length secs) (fst l)" "\<forall>l \<in> set srcs. printable (fst l)"
    using ok unfolding object_ok_def list_all_iff lens
    by (metis image_eqI list.set_map secs syms srcs)+
  have 1: "read_loop (read_section strings blob) (length secs) (seek 64 r) o0 = Inr o1"
    using section_codec.table_reads_at [where r = r and pre = header and xs = secs and n = "length secs"
        and pos = 64 and s = o0 and strings = strings and blob = blob] loc(1) shapes(1)
      section_codec.all_good_invariant [where P = "\<lambda>_. True"]
    by (simp add: data header o1_def secs) (simp add: o0_def)
  have e: "ob_symbols o1 = empty_table" "st_symbols empty_table = []"
    by (simp_all add: o1_def o0_def empty_table_def)
  have d: "distinct (map sy_name (st_symbols (ob_symbols o1) @ map fst syms))"
    using table_ok_names_distinct ok by (auto simp: e syms object_ok_def)
  have s: "\<forall>l \<in> set syms. named sy_name strings l \<and>
      symbol_shape (unat (of_nat (length secs) :: u32)) (fst l)"
    using loc(2) shapes(2) by (simp add: nat(1))
  obtain t where t: "table_ok t" "st_symbols t = st_symbols (ob_symbols ob)"
    "fold add_symbol syms o1 = o1\<lparr> ob_symbols := t \<rparr>"
    and good: "symbol_codec.all_good strings (of_nat (length secs)) syms o1"
    using symbols_read [OF _ d _ s] n(2) by (auto simp: e syms)
  have "t = ob_symbols ob" using table_ok_eqI t(1,2) ok by (auto simp: object_ok_def)
  then have 2: "read_loop (read_symbol strings (of_nat (length secs))) (length syms) (seek ?at2 r) o1 = Inr o2"
    using symbol_codec.table_reads_at [OF _ _ refl good, of r "header @ concat (map section_image secs)" _ ?at2]
      t(3) by (simp add: data header layout_simps o2_def)
  have sec2: "length (ob_sections o2) = length secs" "ob_sections o2 = ob_sections ob"
    by (simp_all add: o2_def o1_def lens)
  have 3: "read_loop (read_relocation (of_nat (length secs)) (of_nat (length syms))) (length ?rel)
      (seek ?at3 r) o2 = Inr o3"
  proof -
    have "relocation_codec.all_good (of_nat (length syms)) (of_nat (length secs)) ?rel o2"
      by (rule relocation_codec.all_good_invariant [where P = "\<lambda>ob'. ob_sections ob' = ob_sections ob"])
        (use ok in \<open>auto simp: sec2 nat(1,2) [unfolded lens] lens object_ok_def list_all_iff add_relocation_def\<close>)
    from relocation_codec.table_reads_at [OF _ _ refl this,
        of r "header @ concat (map section_image secs) @ concat (map symbol_image syms)" _ ?at3]
    show ?thesis by (simp add: data header layout_simps o3_def) (simp add: o2_def o1_def o0_def)
  qed
  have 4: "read_loop (read_debug (of_nat (length secs)) (of_nat (length srcs))) (length ?dbg)
      (seek ?at4 r) o3 = Inr o4"
  proof -
    have "debug_codec.all_good (of_nat (length secs)) (of_nat (length srcs)) ?dbg o3"
      by (rule debug_codec.all_good_invariant [where P = "\<lambda>_. True"])
        (use ok in \<open>auto simp: nat(1,5) [unfolded lens] lens object_ok_def list_all_iff\<close>)
    from debug_codec.table_reads_at [OF _ _ refl this,
        of r "header @ concat (map section_image secs) @ concat (map symbol_image syms) @
          concat (map relocation_image ?rel)" _ ?at4]
    show ?thesis by (simp add: data header layout_simps o4_def) (simp add: o3_def o2_def o1_def o0_def)
  qed
  have 5: "read_loop (read_source strings) (length srcs) (seek ?at5 r) o4 = Inr ob"
  proof -
    have "source_codec.all_good strings srcs o4"
      by (rule source_codec.all_good_invariant [where P = "\<lambda>_. True"]) (use loc(3) shapes(3) in auto)
    from source_codec.table_reads_at [OF _ _ refl this,
        of r "header @ concat (map section_image secs) @ concat (map symbol_image syms) @
          concat (map relocation_image ?rel) @ concat (map debug_image ?dbg)" rest ?at5]
    have "read_loop (read_source strings) (length srcs) (seek ?at5 r) o4
        = Inr (o4\<lparr> ob_source_files := ob_source_files o4 @ ob_source_files ob \<rparr>)"
      by (simp add: data header layout_simps srcs)
    also have "o4\<lparr> ob_source_files := ob_source_files o4 @ ob_source_files ob \<rparr> = ob"
      using ok by (simp add: o4_def o3_def o2_def o1_def o0_def object_ok_def)
    finally show ?thesis .
  qed
  have at1: "unat (of_nat kObjectHeaderSize :: u64) = 64" by (simp add: kObjectHeaderSize_def)
  show ?thesis
    unfolding read_object_tables_def Let_def w p at1 o0_def [symmetric] nat
    by (simp only: 1 2 3 4 5 and_then_simps)
qed

definition object_counts :: "ObjectFile \<Rightarrow> Field list" where
  "object_counts ob =
     [F16 kObjectVersion, F16 (of_nat kObjectHeaderSize), F32 0,
      F32 (of_nat (length (ob_sections ob))), F32 (of_nat (length (st_symbols (ob_symbols ob)))),
      F32 (of_nat (length (ob_relocations ob))), F32 (of_nat (length (ob_debug_info ob))),
      F32 (of_nat (length (ob_source_files ob)))]"

lemma object_header_split:
  "object_header ob = (kObjectMagic @ record_bytes (object_counts ob)) @
     record_bytes [F64 0, F64 0, F64 0, F32 0, F32 0]"
  "length (kObjectMagic @ record_bytes (object_counts ob)) = 32"
  by (simp_all add: object_header_def object_counts_def byte_simps raw_def record_bytes_append [symmetric]
      record_bytes_length kObjectMagic_def)

lemma write_object_image:
  assumes "writeObjectToBuffer ob = Inr buf"
  defines "st \<equiv> write_tables ob"
  defines "body \<equiv> ws_tables st @ str_bytes (ws_strings st) @ ws_blob st"
  shows "buf = kObjectMagic @ record_bytes (object_counts ob @
        sizes_fields (64 + length (ws_tables st)) (length (str_bytes (ws_strings st)))
          (64 + length (ws_tables st) + length (str_bytes (ws_strings st))) (64 + length body)
          (crc32 body)) @ body"
    and "length buf = 64 + length body" and "length buf \<le> 0xFFFFFFFF"
proof -
  have a: "assemble_file 64 ((kObjectMagic @ record_bytes (object_counts ob)) @
      record_bytes [F64 0, F64 0, F64 0, F32 0, F32 0]) st = Some buf"
    using assms(1) unfolding object_header_split(1) [symmetric] st_def
    by (simp add: writeObjectToBuffer_def kObjectHeaderSize_def split: if_splits option.splits)
  note i = assemble_file_image [OF a object_header_split(2), folded body_def]
  show "buf = kObjectMagic @ record_bytes (object_counts ob @
        sizes_fields (64 + length (ws_tables st)) (length (str_bytes (ws_strings st)))
          (64 + length (ws_tables st) + length (str_bytes (ws_strings st))) (64 + length body)
          (crc32 body)) @ body"
    using i(3) by (simp add: record_bytes_append)
  show "length buf = 64 + length body" "length buf \<le> 0xFFFFFFFF" using i(1,2) by simp_all
qed

lemma object_round_trip_image:
  assumes ok: "object_ok ob" and w: "writeObjectToBuffer ob = Inr buf"
  shows "readObjectFromBuffer buf = Inr ob"
proof -
  define st where "st = write_tables ob"
  define strs where "strs = str_bytes (ws_strings st)"
  define body where "body = ws_tables st @ strs @ ws_blob st"
  define T where "T = length (ws_tables st)"
  define S where "S = length strs"
  define hf where "hf = object_counts ob @ sizes_fields (64 + T) S (64 + T + S) (64 + length body) (crc32 body)"
  have buf: "buf = kObjectMagic @ record_bytes hf @ body" and len: "length buf = 64 + length body"
    and cap: "length buf < 2 ^ 32"
    using write_object_image [OF w] by (simp_all add: st_def hf_def body_def strs_def T_def S_def)
  have hl: "length (record_bytes hf) = 60"
    by (simp add: hf_def object_counts_def sizes_fields_def record_bytes_length)
  have ml: "length kObjectMagic = 4" by (simp add: kObjectMagic_def)
  define r1 where "r1 = \<lparr> rd_data = buf, rd_position = 4 \<rparr>"
  have raw: "read_raw (length kObjectMagic) \<lparr> rd_data = buf, rd_position = 0 \<rparr> = (Some kObjectMagic, r1)"
    by (simp add: read_raw_def has_def ml r1_def buf)
  obtain vs r2 where k: "read_kinds object_header_kinds r1 = (vs, r2)" by fastforce
  have "at_bytes r1 (record_bytes hf)" by (simp add: at_bytes_def r1_def buf ml)
  from read_kinds_present [OF this _ k]
  have v: "all_present vs = Some (map field_value hf)" and r2: "r2 = advance_reader (length (record_bytes hf)) r1"
    by (simp_all add: hf_def object_counts_def sizes_fields_def object_header_kinds_def)
  have drop: "drop 64 buf = body" by (simp add: buf ml hl)
  obtain secs syms srcs where
    names: "map fst secs = ob_sections ob" "map fst syms = st_symbols (ob_symbols ob)"
      "map fst srcs = ob_source_files ob"
    and tabs: "ws_tables st = concat (map section_image secs) @ concat (map symbol_image syms) @
       concat (map relocation_image (ob_relocations ob)) @ concat (map debug_image (ob_debug_info ob)) @
       concat (map source_image srcs)"
    and loc: "small st \<Longrightarrow> \<forall>l \<in> set secs. section_located strs (ws_blob st) l"
      "small st \<Longrightarrow> \<forall>l \<in> set syms. named sy_name strs l"
      "small st \<Longrightarrow> \<forall>l \<in> set srcs. named (\<lambda>name. name) strs l"
    by (rule write_tables_spec [of ob, folded st_def, folded strs_def]) (rule that)
  have small: "small st" using len cap by (simp add: small_def body_def strs_def)
  have lens: "length (ob_sections ob) = length secs" "length (st_symbols (ob_symbols ob)) = length syms"
    "length (ob_source_files ob) = length srcs"
    using names by (metis length_map)+
  have T: "T = 48 * length secs + 32 * length syms + 32 * length (ob_relocations ob) +
      24 * length (ob_debug_info ob) + 4 * length srcs"
    by (simp add: T_def tabs layout_simps)
  have TS: "64 + T + S \<le> length buf" by (simp add: len body_def T_def S_def)
  have n: "length secs < 2 ^ 32" "length syms < 2 ^ 32" "length (ob_relocations ob) < 2 ^ 32"
    "length (ob_debug_info ob) < 2 ^ 32" "length srcs < 2 ^ 32"
    using TS cap unfolding T by linarith+
  have sums: "64 + T < 18446744073709551616" "S < 18446744073709551616"
    "64 + T + S < 18446744073709551616"
    using TS cap by simp_all
  note nat = sums [THEN unat_of_nat_u64]
  have nat32: "unat (of_nat (64 + length body) :: u32) = length buf"
    unfolding len [symmetric] by (rule u32_of_nat [OF cap])
  define pre where "pre = kObjectMagic @ record_bytes hf @ ws_tables st"
  have pre: "buf = pre @ strs @ ws_blob st" "length pre = 64 + T"
    by (simp_all add: pre_def buf body_def ml hl T_def)
  have strings: "rawAt (64 + T) S r2 = Some strs"
    by (simp add: rawAt_def r2 r1_def pre S_def)
  have blob: "drop (64 + T + S) buf = ws_blob st"
    by (simp add: pre S_def)
  have data: "rd_data r2 = (kObjectMagic @ record_bytes hf) @ concat (map section_image secs) @
      concat (map symbol_image syms) @ concat (map relocation_image (ob_relocations ob)) @
      concat (map debug_image (ob_debug_info ob)) @ concat (map source_image srcs) @ strs @ ws_blob st"
    by (simp add: r2 r1_def buf body_def tabs)
  have tables: "read_object_tables kObjectVersion (of_nat (length secs)) (of_nat (length syms))
      (of_nat (length (ob_relocations ob))) (of_nat (length (ob_debug_info ob))) (of_nat (length srcs))
      strs (ws_blob st) r2 = Inr ob"
    using read_object_tables_image [OF ok names loc [OF small] data] cap
    by (simp add: ml hl r2 r1_def)
  define c1 where "c1 = (of_nat (length secs) :: u32)"
  define c2 where "c2 = (of_nat (length syms) :: u32)"
  define c3 where "c3 = (of_nat (length (ob_relocations ob)) :: u32)"
  define c4 where "c4 = (of_nat (length (ob_debug_info ob)) :: u32)"
  define c5 where "c5 = (of_nat (length srcs) :: u32)"
  define so where "so = (of_nat (64 + T) :: u64)"
  define ss where "ss = (of_nat S :: u64)"
  define bo where "bo = (of_nat (64 + T + S) :: u64)"
  define fs where "fs = (of_nat (64 + length body) :: u32)"
  have vals: "map field_value hf = [ucast kObjectVersion, ucast (of_nat kObjectHeaderSize :: u16), 0,
      ucast c1, ucast c2, ucast c3, ucast c4, ucast c5, so, ss, bo, ucast fs, ucast (crc32 body)]"
    by (simp add: hf_def object_counts_def sizes_fields_def lens c1_def c2_def c3_def c4_def c5_def
        so_def ss_def bo_def fs_def)
  have tables_end: "of_nat kObjectHeaderSize + ucast c1 * kSectionRecordSize +
      ucast c2 * kSymbolRecordSize + ucast c3 * kRelocationRecordSize + ucast c4 * kDebugRecordSize +
      ucast c5 * kSourceRecordSize = so"
    unfolding c1_def c2_def c3_def c4_def c5_def so_def T n [THEN ucast_of_nat_u32]
    by (simp add: kObjectHeaderSize_def object_sizes)
  have bo: "so + ss = bo" by (simp add: so_def ss_def bo_def)
  have u: "unat so = 64 + T" "unat ss = S" "unat bo = 64 + T + S" "unat fs = length buf"
    using nat nat32 by (simp_all only: so_def ss_def bo_def fs_def)
  have hs: "unat (of_nat kObjectHeaderSize :: u16) = kObjectHeaderSize" "\<not> length buf < kObjectHeaderSize"
    using len by (simp_all add: kObjectHeaderSize_def)
  have drop': "drop kObjectHeaderSize buf = body" using drop by (simp add: kObjectHeaderSize_def)
  have fit: "\<not> length buf < 64 + T" "\<not> length buf < 64 + T + S" using TS by simp_all
  show ?thesis
    unfolding readObjectFromBuffer_def
    using tables [folded c1_def c2_def c3_def c4_def c5_def]
    by (simp add: hs raw k v vals Let_def tables_end bo u drop' fit strings blob nth_Cons' del: length_map)
qed

lemma read_section_step:
  assumes "read_section strings blob r ob = (Inr ob', r')"
  shows "\<exists>x. ob' = ob\<lparr> ob_sections := ob_sections ob @ [x] \<rparr> \<and> section_shape x"
  using assms
  by (auto simp: read_section_def Let_def section_shape_def word_less_nat_alt
      split: prod.splits option.splits if_splits sum.splits)
    (rule exI, rule conjI, rule refl, auto dest: readString_printable)

lemma read_symbol_step:
  assumes "read_symbol strings n r ob = (Inr ob', r')"
  shows "\<exists>x. ob' = ob\<lparr> ob_symbols := snd (addSymbol x (ob_symbols ob)) \<rparr> \<and>
    symbol_shape (unat n) x \<and> st_find (ob_symbols ob) (sy_name x) = None"
  using assms
  by (auto simp: read_symbol_def Let_def symbol_shape_def word_le_nat_alt
      split: prod.splits option.splits if_splits sum.splits)
    ((rule exI, rule conjI, rule refl, auto dest: readString_printable)+)

lemma read_relocation_step:
  assumes "read_relocation n m r ob = (Inr ob', r')" and "length (ob_sections ob) = unat n"
  shows "\<exists>x. ob' = ob\<lparr> ob_relocations := ob_relocations ob @ [x] \<rparr> \<and>
    relocation_shape (ob_sections ob) (unat m) x"
  using assms
  by (auto simp: read_relocation_def Let_def relocation_shape_def word_le_nat_alt
      split: prod.splits option.splits if_splits sum.splits)

lemma read_debug_step:
  assumes "read_debug n m r ob = (Inr ob', r')"
  shows "\<exists>x. ob' = ob\<lparr> ob_debug_info := ob_debug_info ob @ [x] \<rparr> \<and> debug_shape (unat n) (unat m) x"
  using assms
  by (auto simp: read_debug_def Let_def debug_shape_def word_le_nat_alt
      split: prod.splits option.splits if_splits sum.splits)

lemma read_source_step:
  assumes "read_source strings r ob = (Inr ob', r')"
  shows "\<exists>x. ob' = ob\<lparr> ob_source_files := ob_source_files ob @ [x] \<rparr> \<and> printable x"
  using assms
  by (auto simp: read_source_def Let_def
      split: prod.splits option.splits if_splits sum.splits dest: readString_printable)


lemma addSymbol_fresh_ok:
  assumes "table_ok t" and "length (st_symbols t) < 2 ^ 32 - 1" and "st_find t (sy_name x) = None"
  shows "table_ok (snd (addSymbol x t)) \<and> st_symbols (snd (addSymbol x t)) = st_symbols t @ [x]"
proof -
  obtain i t' where a: "addSymbol x t = (i, t')" by fastforce
  have "st_index t (sy_name x) = None" using assms(3) by (simp add: st_find_def)
  from addSymbol_new [OF assms(1) _ this a] assms(2) show ?thesis by (simp add: a st_room_def)
qed

lemma read_object_tables_ok:
  assumes "read_object_tables kObjectVersion n1 n2 n3 n4 n5 strings blob r = Inr ob"
  shows "object_ok ob"
proof -
  define o0 where "o0 = \<lparr> ob_version = kObjectVersion, ob_sections = [], ob_symbols = empty_table,
    ob_relocations = [], ob_debug_info = [], ob_source_files = [] \<rparr>"
  from assms obtain o1 o2 o3 o4 a1 a2 a3 a4 a5 where
    l1: "read_loop (read_section strings blob) (unat n1) a1 o0 = Inr o1" and
    l2: "read_loop (read_symbol strings n1) (unat n2) a2 o1 = Inr o2" and
    l3: "read_loop (read_relocation n1 n2) (unat n3) a3 o2 = Inr o3" and
    l4: "read_loop (read_debug n1 n5) (unat n4) a4 o3 = Inr o4" and
    l5: "read_loop (read_source strings) (unat n5) a5 o4 = Inr ob"
    unfolding read_object_tables_def Let_def o0_def [symmetric] and_then_Inr by blast
  define P1 where "P1 = (\<lambda>k (ob :: ObjectFile). ob_version ob = kObjectVersion \<and> length (ob_sections ob) = k \<and>
    list_all section_shape (ob_sections ob) \<and> ob_symbols ob = empty_table \<and>
    ob_relocations ob = [] \<and> ob_debug_info ob = [] \<and> ob_source_files ob = [])"
  have "P1 (0 + unat n1) o1"
    by (rule read_loop_indexed [OF _ l1]) (auto simp: P1_def o0_def dest!: read_section_step)
  then have 1: "P1 (unat n1) o1" by simp
  define P2 where "P2 = (\<lambda>k (ob :: ObjectFile). ob_version ob = kObjectVersion \<and> ob_sections ob = ob_sections o1 \<and>
    table_ok (ob_symbols ob) \<and> length (st_symbols (ob_symbols ob)) = k \<and>
    list_all (symbol_shape (unat n1)) (st_symbols (ob_symbols ob)) \<and>
    ob_relocations ob = [] \<and> ob_debug_info ob = [] \<and> ob_source_files ob = [])"
  have u2: "unat n2 < 2 ^ 32" using unsigned_less [of n2] by simp
  have "P2 (0 + unat n2) o2"
  proof (rule read_loop_indexed [OF _ l2])
    fix k r s s' r'
    assume P: "P2 k s" and k: "k < 0 + unat n2" and b: "read_symbol strings n1 r s = (Inr s', r')"
    from read_symbol_step [OF b] obtain x where x: "s' = s\<lparr> ob_symbols := snd (addSymbol x (ob_symbols s)) \<rparr>"
      "symbol_shape (unat n1) x" "st_find (ob_symbols s) (sy_name x) = None" by blast
    have "length (st_symbols (ob_symbols s)) < 2 ^ 32 - 1" using P k u2 by (simp add: P2_def)
    with addSymbol_fresh_ok [OF _ this x(3)] x P show "P2 (Suc k) s'" by (auto simp: P2_def)
  next
    have "st_symbols empty_table = []" by (simp add: empty_table_def)
    with 1 show "P2 0 o1" by (simp add: P2_def P1_def)
  qed
  then have 2: "P2 (unat n2) o2" by simp
  define P3 where "P3 = (\<lambda>(k :: nat) (ob :: ObjectFile). ob_version ob = kObjectVersion \<and>
    ob_sections ob = ob_sections o1 \<and> ob_symbols ob = ob_symbols o2 \<and>
    list_all (relocation_shape (ob_sections o1) (unat n2)) (ob_relocations ob) \<and>
    ob_debug_info ob = [] \<and> ob_source_files ob = [])"
  have n1: "length (ob_sections o1) = unat n1" using 1 by (simp add: P1_def)
  have "P3 (0 + unat n3) o3"
  proof (rule read_loop_indexed [OF _ l3])
    fix k r s s' r'
    assume P: "P3 k s" and b: "read_relocation n1 n2 r s = (Inr s', r')"
    have "length (ob_sections s) = unat n1" using P n1 by (simp add: P3_def)
    from read_relocation_step [OF b this] P show "P3 (Suc k) s'" by (auto simp: P3_def)
  qed (use 2 in \<open>simp add: P2_def P3_def\<close>)
  then have 3: "P3 (unat n3) o3" by simp
  define P4 where "P4 = (\<lambda>(k :: nat) (ob :: ObjectFile). ob_version ob = kObjectVersion \<and>
    ob_sections ob = ob_sections o1 \<and> ob_symbols ob = ob_symbols o2 \<and>
    ob_relocations ob = ob_relocations o3 \<and>
    list_all (debug_shape (unat n1) (unat n5)) (ob_debug_info ob) \<and> ob_source_files ob = [])"
  have "P4 (0 + unat n4) o4"
    by (rule read_loop_indexed [OF _ l4]) (use 3 in \<open>auto simp: P3_def P4_def dest!: read_debug_step\<close>)
  then have 4: "P4 (unat n4) o4" by simp
  define P5 where "P5 = (\<lambda>k (ob :: ObjectFile). ob_version ob = kObjectVersion \<and>
    ob_sections ob = ob_sections o1 \<and> ob_symbols ob = ob_symbols o2 \<and>
    ob_relocations ob = ob_relocations o3 \<and> ob_debug_info ob = ob_debug_info o4 \<and>
    length (ob_source_files ob) = k \<and> list_all printable (ob_source_files ob))"
  have "P5 (0 + unat n5) ob"
    by (rule read_loop_indexed [OF _ l5]) (use 4 in \<open>auto simp: P4_def P5_def dest!: read_source_step\<close>)
  then show ?thesis
    using 1 2 3 4 by (simp add: object_ok_def P1_def P2_def P3_def P4_def P5_def)
qed

lemma accepted_object_ok: "readObjectFromBuffer buf = Inr ob \<Longrightarrow> object_ok ob"
  unfolding readObjectFromBuffer_def Let_def
  by (simp split: if_splits prod.splits option.splits) (drule read_object_tables_ok, assumption)

text \<open>What the reader does once the header has been parsed.\<close>

lemma readObject_header:
  assumes "64 \<le> length buf" and "take 64 buf = take 64 buf'" and "length buf' = length buf"
    and "readObjectFromBuffer buf = Inr ob"
  shows "\<exists>checksum. checksum = crc32 (drop 64 buf) \<and>
    (crc32 (drop 64 buf') \<noteq> checksum \<longrightarrow>
      readObjectFromBuffer buf' = Inl (ChecksumMismatch checksum (crc32 (drop 64 buf'))))"
proof -
  have ml: "length kObjectMagic = 4" by (simp add: kObjectMagic_def)
  have "take 4 (take 64 buf) = take 4 (take 64 buf')" using assms(2) by simp
  then have t4: "take 4 buf' = take 4 buf" by simp
  define r where "r = \<lparr> rd_data = buf, rd_position = 4 \<rparr>"
  define r' where "r' = \<lparr> rd_data = buf', rd_position = 4 \<rparr>"
  have raw: "read_raw 4 \<lparr> rd_data = buf, rd_position = 0 \<rparr> = (Some (take 4 buf), r)"
    "read_raw 4 \<lparr> rd_data = buf', rd_position = 0 \<rparr> = (Some (take 4 buf), r')"
    using assms(1,3) t4 by (simp_all add: read_raw_def has_def r_def r'_def)
  obtain vs r2 where k: "read_kinds object_header_kinds r = (vs, r2)" by fastforce
  obtain vs' r2' where k': "read_kinds object_header_kinds r' = (vs', r2')" by fastforce
  have "fst (read_kinds object_header_kinds r) = fst (read_kinds object_header_kinds r')"
    unfolding r_def r'_def
    by (rule read_kinds_local [OF assms(2)]) (use assms(1,3) in \<open>simp_all add: object_header_kinds_def\<close>)
  then have vs: "vs' = vs" by (simp add: k k')
  show ?thesis
    using assms(1,3,4)
    by (auto simp: readObjectFromBuffer_def ml raw k k' vs Let_def kObjectHeaderSize_def
        split: if_splits option.splits)
qed

subsection \<open>The contract of the format\<close>

lemma write_object_fails:
  assumes "writeObjectToBuffer ob = Inl e"
  defines "st \<equiv> write_tables ob"
  shows "0xFFFFFFFF < 64 + length (ws_tables st) + length (str_bytes (ws_strings st)) + length (ws_blob st)"
proof (cases "assemble_file kObjectHeaderSize (object_header ob) st")
  case None
  then show ?thesis
    by (simp add: assemble_file_def Let_def kObjectHeaderSize_def split: if_splits)
next
  case (Some buf)
  obtain secs syms srcs where n: "map fst secs = ob_sections ob" "map fst srcs = ob_source_files ob"
    "ws_tables st = concat (map section_image secs) @ concat (map symbol_image syms) @
       concat (map relocation_image (ob_relocations ob)) @ concat (map debug_image (ob_debug_info ob)) @
       concat (map source_image srcs)"
    by (rule write_tables_spec [of ob, folded st_def]) (rule that)
  have l: "length (ob_sections ob) = length secs" "length (ob_source_files ob) = length srcs"
    using n(1,2) by (metis length_map)+
  have "0xFFFFFFFF < length secs \<or> 0xFFFFFFFF < length (ob_relocations ob) \<or>
      0xFFFFFFFF < length (ob_debug_info ob) \<or> 0xFFFFFFFF < length srcs"
    using assms(1) Some by (auto simp: writeObjectToBuffer_def st_def l split: if_splits)
  then show ?thesis by (auto simp: n(3) layout_simps)
qed

definition demo_object :: ObjectFile where
  "demo_object =
     \<lparr> ob_version = 1,
       ob_sections = [\<lparr> sec_name = ''.text'', sec_type = Sec_Text, sec_flags = 5, sec_alignment = 8,
                        sec_data = [1, 0, 0, 0, 0, 0, 0, 0], sec_size = 8, sec_index = 0 \<rparr>],
       ob_symbols = snd (addSymbol \<lparr> sy_name = ''main'', sy_binding = Global, sy_type = Sym_Function,
                        sy_section = 0, sy_value = 0, sy_size = 8, sy_defined = True \<rparr> empty_table),
       ob_relocations = [\<lparr> rel_section = 0, rel_offset = 0, rel_type = IMM48, rel_symbol = 0,
                           rel_addend = 4 \<rparr>],
       ob_debug_info = [\<lparr> od_section = 0, od_file = 0, od_offset = 0, od_line = 1, od_column = 1 \<rparr>],
       ob_source_files = [''a.mtc''] \<rparr>"

lemma demo_object_ok: "object_ok demo_object"
proof -
  have "table_ok (ob_symbols demo_object)"
    unfolding demo_object_def ObjectFile.select_convs
    using addSymbol_fresh_ok [OF empty_table_ok] by (simp add: st_find_def empty_table_def)
  then show ?thesis
    by (simp add: object_ok_def demo_object_def kObjectVersion_def addSymbol_def empty_table_def
        section_shape_def symbol_shape_def relocation_shape_def debug_shape_def printable_def)
qed

lemma demo_object_writes: "\<exists>buf. writeObjectToBuffer demo_object = Inr buf"
proof (cases "writeObjectToBuffer demo_object")
  case (Inl e)
  from write_object_fails [OF this] show ?thesis
    by (simp add: write_tables_def demo_object_def addSymbol_def empty_table_def write_section_def
        write_symbol_def write_relocation_def write_debug_def write_source_def byte_simps
        record_bytes_length section_fields_def symbol_fields_def relocation_fields_def debug_fields_def
        start_write_def new_strings_def intern_def raw_def Let_def)
qed auto

text \<open>
  C15: every well-formed object file is written unless its image would pass 4 GiB, and the image is
  read back as the very same object: sections with their data, symbols with their positions,
  relocations, line records and source files, in order.
\<close>

theorem object_round_trip:
  assumes "object_ok ob"
  shows "case writeObjectToBuffer ob of
      Inr buf \<Rightarrow> readObjectFromBuffer buf = Inr ob
    | Inl e \<Rightarrow> 0xFFFFFFFF < 64 + length (ws_tables (write_tables ob)) +
        length (str_bytes (ws_strings (write_tables ob))) + length (ws_blob (write_tables ob))"
  using object_round_trip_image [OF assms] write_object_fails [of ob]
  by (auto split: sum.splits)

lemma object_round_trip_witness:
  "\<exists>buf. writeObjectToBuffer demo_object = Inr buf \<and> readObjectFromBuffer buf = Inr demo_object"
  using object_round_trip [OF demo_object_ok] demo_object_writes by (auto split: sum.splits)

text \<open>
  An image that the reader accepts holds a well-formed object: the enumerations are in range,
  alignments are powers of two, no section has more data than memory, symbol names are unique,
  every index names an existing section, symbol or file, and every relocation lies inside the
  data of its section.
\<close>

theorem accepted_object_is_valid:
  "readObjectFromBuffer buf = Inr ob \<Longrightarrow> object_ok ob"
  by (rule accepted_object_ok)

lemma accepted_object_is_valid_witness:
  "\<exists>buf ob. readObjectFromBuffer buf = Inr ob \<and> object_ok ob"
  using accepted_object_is_valid demo_object_writes object_round_trip_image [OF demo_object_ok] by blast

text \<open>
  Changing any four consecutive bytes behind the header of an accepted object file, in any
  way, makes the reader reject it as corrupt.
\<close>

theorem object_corruption_detected:
  assumes "readObjectFromBuffer (pre @ xs @ suf) = Inr ob"
    and "64 \<le> length pre" and "length xs = 4" and "length ys = 4" and "ys \<noteq> xs"
  shows "\<exists>stored actual. readObjectFromBuffer (pre @ ys @ suf) = Inl (ChecksumMismatch stored actual)"
proof -
  have d: "drop 64 (pre @ zs @ suf) = drop 64 pre @ zs @ suf" for zs using assms(2) by simp
  have "crc32 (drop 64 pre @ ys @ suf) \<noteq> crc32 (drop 64 pre @ xs @ suf)"
    by (rule crc32_burst [OF assms(4,3,5)])
  then show ?thesis
    using readObject_header [of "pre @ xs @ suf" "pre @ ys @ suf"] assms by (auto simp: d)
qed

lemma object_corruption_detected_witness:
  "\<exists>pre xs suf stored actual. length xs = 4 \<and>
     readObjectFromBuffer (pre @ xs @ suf) = Inr demo_object \<and>
     readObjectFromBuffer (pre @ map (\<lambda>b. b + 1) xs @ suf) = Inl (ChecksumMismatch stored actual)"
proof -
  obtain buf where w: "writeObjectToBuffer demo_object = Inr buf" using demo_object_writes by blast
  have r: "readObjectFromBuffer buf = Inr demo_object"
    by (rule object_round_trip_image [OF demo_object_ok w])
  have "length buf = 64 + length (ws_tables (write_tables demo_object)) +
      (length (str_bytes (ws_strings (write_tables demo_object))) + length (ws_blob (write_tables demo_object)))"
    using write_object_image(2) [OF w] by simp
  moreover have "4 \<le> length (ws_tables (write_tables demo_object))"
    by (simp add: write_tables_def demo_object_def write_source_def byte_simps record_bytes_length
        intern_def Let_def split: option.splits)
  ultimately have len: "68 \<le> length buf" by simp
  let ?pre = "take 64 buf" and ?xs = "take 4 (drop 64 buf)" and ?suf = "drop 68 buf"
  have split: "?pre @ ?xs @ ?suf = buf"
    using append_take_drop_id [of 4 "drop 64 buf"] append_take_drop_id [of 64 buf] by simp
  have "map (\<lambda>b. b + 1) ?xs \<noteq> ?xs"
  proof
    assume "map (\<lambda>b. b + 1) ?xs = ?xs"
    then have "map (\<lambda>b. b + 1) ?xs ! 0 = ?xs ! 0" by simp
    with len show False by simp
  qed
  with object_corruption_detected [of ?pre ?xs ?suf demo_object "map (\<lambda>b. b + 1) ?xs"] len r split
  show ?thesis by (intro exI [of _ ?pre] exI [of _ ?xs] exI [of _ ?suf]) simp
qed

end
