(* ===== verification/Assembler_Safety.thy ===== *)
theory Assembler_Safety
  imports Assembler Object_Codec
begin

text \<open>
  The assembler computes a closed form of the module: \<open>spec_object\<close> lists the sections, symbols,
  relocations and line records an assembled object has, and \<open>assembly_fails\<close> is the disjunction of
  the reasons for which a module is refused.  The proof follows the passes; the symbol table is
  related to the names mentioned so far and a map from names to symbols.
\<close>

subsection \<open>The specification\<close>

definition placed_machine :: "IrInstruction \<Rightarrow> Instruction" where
  "placed_machine instruction =
     (if isSymbolic instruction then (ii_machine instruction)\<lparr> i_imm := 0 \<rparr> else ii_machine instruction)"

definition instruction_bytes :: "IrInstruction \<Rightarrow> u8 list" where
  "instruction_bytes instruction =
     (case encode (placed_machine instruction) of Inl _ \<Rightarrow> replicate 8 0 | Inr word \<Rightarrow> le_bytes 8 word)"

fun append_item :: "Item \<Rightarrow> u8 list \<Rightarrow> u8 list" where
  "append_item (It_Label _ _ _) bytes = bytes"
| "append_item (It_Instruction instruction) bytes = bytes @ instruction_bytes instruction"
| "append_item (It_Bytes data _) bytes = bytes @ data"
| "append_item (It_SymbolValue width _ _) bytes = bytes @ replicate (unat width) 0"
| "append_item (It_Space sz fill _) bytes = bytes @ replicate (unat sz) fill"
| "append_item (It_Align alignment _) bytes =
     resize (unat (alignUp (of_nat (length bytes)) alignment)) bytes"

definition items_bytes :: "Item list \<Rightarrow> u8 list" where
  "items_bytes items = fold append_item items []"

definition items_of :: "Module \<Rightarrow> SectionKind \<Rightarrow> Item list" where
  "items_of m kind = (case findIrSection kind m of None \<Rightarrow> [] | Some source \<Rightarrow> is_items source)"

definition alignment_of :: "Module \<Rightarrow> SectionKind \<Rightarrow> u64" where
  "alignment_of m kind = fold next_alignment (items_of m kind)
     (case findIrSection kind m of None \<Rightarrow> 0 | Some source \<Rightarrow> is_alignment source)"

definition module_kinds :: "Module \<Rightarrow> SectionKind list" where
  "module_kinds m = filter (\<lambda>kind. items_of m kind \<noteq> []) kSectionOrder"

definition spec_section :: "Module \<Rightarrow> nat \<times> SectionKind \<Rightarrow> Section" where
  "spec_section m p = (case p of (i, kind) \<Rightarrow>
     \<lparr> sec_name = sectionName kind, sec_type = sectionTypeOf kind, sec_flags = sectionFlagsOf kind,
       sec_alignment = alignment_of m kind,
       sec_data = (if sectionHasData kind then items_bytes (items_of m kind) else []),
       sec_size = of_nat (length (items_bytes (items_of m kind))), sec_index = of_nat i \<rparr>)"

fun section_labels :: "u32 \<Rightarrow> SymbolType \<Rightarrow> Item list \<Rightarrow> u64 \<Rightarrow> (string \<times> u32 \<times> u64 \<times> SymbolType) list" where
  "section_labels index type [] offset = []"
| "section_labels index type (item # items) offset =
     (case item of It_Label name _ _ \<Rightarrow> [(name, index, offset, type)] | _ \<Rightarrow> [])
     @ section_labels index type items (next_offset item offset)"

definition kind_symbol_type :: "SectionKind \<Rightarrow> SymbolType" where
  "kind_symbol_type kind = (if kind = Kind_Text then Sym_Function else Sym_Object)"

definition module_labels :: "Module \<Rightarrow> (string \<times> u32 \<times> u64 \<times> SymbolType) list" where
  "module_labels m = concat (map (\<lambda>(i, kind). section_labels (of_nat i) (kind_symbol_type kind) (items_of m kind) 0)
     (enumerate 0 (module_kinds m)))"

fun item_reference :: "Item \<Rightarrow> SymbolRef list" where
  "item_reference (It_Instruction instruction) = (case ii_symbol instruction of None \<Rightarrow> [] | Some r \<Rightarrow> [r])"
| "item_reference (It_SymbolValue _ symbol _) = [symbol]"
| "item_reference _ = []"

definition module_references :: "Module \<Rightarrow> SymbolRef list" where
  "module_references m = concat (map (\<lambda>kind. concat (map item_reference (items_of m kind))) (module_kinds m))"

definition module_names :: "Module \<Rightarrow> string list" where
  "module_names m = map fst (module_labels m) @ mo_globals m @ mo_weaks m @ mo_externs m @
     map ref_name (module_references m)"

text \<open>Names in the order of their first mention.\<close>

definition firsts :: "string list \<Rightarrow> string list" where
  "firsts ns = rev (remdups (rev ns))"

definition name_index :: "string list \<Rightarrow> string \<Rightarrow> u32" where
  "name_index ns n = of_nat (length (takeWhile (\<lambda>x. x \<noteq> n) (firsts ns)))"

definition label_symbol :: "string \<Rightarrow> u32 \<times> u64 \<times> SymbolType \<Rightarrow> Symbol" where
  "label_symbol name p = (case p of (index, offset, type) \<Rightarrow>
     \<lparr> sy_name = name, sy_binding = Local, sy_type = type, sy_section = index, sy_value = offset,
       sy_size = 0, sy_defined = True \<rparr>)"

definition spec_symbol :: "Module \<Rightarrow> string \<Rightarrow> Symbol" where
  "spec_symbol m name =
     (let bound = (if name \<in> set (mo_weaks m) then Weak else if name \<in> set (mo_globals m) then Global else Local)
      in case map_of (module_labels m) name of
           Some p \<Rightarrow> (label_symbol name p)\<lparr> sy_binding := bound \<rparr>
         | None \<Rightarrow> (blank_symbol name)\<lparr> sy_binding :=
             (if name \<in> set (mo_externs m) then Extern
              else if bound = Local \<and> name \<in> set (map ref_name (module_references m)) \<and> \<not> is_local_name name
              then Extern else bound) \<rparr>)"

fun section_relocations :: "(string \<Rightarrow> u32) \<Rightarrow> u32 \<Rightarrow> Item list \<Rightarrow> u8 list \<Rightarrow> Relocation list" where
  "section_relocations index_of index [] bytes = []"
| "section_relocations index_of index (item # items) bytes =
     map (\<lambda>r. \<lparr> rel_section = index, rel_offset = of_nat (length bytes),
            rel_type = (case item of
                It_Instruction instruction \<Rightarrow> relocationForInstruction (i_opcode (ii_machine instruction))
              | It_SymbolValue width _ _ \<Rightarrow> if width = 4 then ABS32 else ABS64
              | _ \<Rightarrow> ABS64),
            rel_symbol = index_of (ref_name r), rel_addend = ref_addend r \<rparr>) (item_reference item)
     @ section_relocations index_of index items (append_item item bytes)"

fun section_debug :: "u32 \<Rightarrow> Item list \<Rightarrow> u8 list \<Rightarrow> ObjDebugEntry list" where
  "section_debug index [] bytes = []"
| "section_debug index (item # items) bytes =
     (case item of
        It_Instruction instruction \<Rightarrow>
          [\<lparr> od_section = index, od_file = 0, od_offset = of_nat (length bytes),
             od_line = loc_line (ii_location instruction), od_column = loc_column (ii_location instruction) \<rparr>]
      | _ \<Rightarrow> [])
     @ section_debug index items (append_item item bytes)"

definition spec_object :: "Module \<Rightarrow> ObjectFile" where
  "spec_object m =
     (let names = module_names m; sections = enumerate 0 (module_kinds m) in
      \<lparr> ob_version = kObjectVersion,
        ob_sections = map (spec_section m) sections,
        ob_symbols = \<lparr> st_symbols = map (spec_symbol m) (firsts names),
          st_index = (\<lambda>n. if n \<in> set names then Some (name_index names n) else None) \<rparr>,
        ob_relocations = concat (map (\<lambda>(i, kind).
          section_relocations (name_index names) (of_nat i) (items_of m kind) []) sections),
        ob_debug_info = concat (map (\<lambda>(i, kind). section_debug (of_nat i) (items_of m kind) []) sections),
        ob_source_files = [mo_source_name m] \<rparr>)"

fun encodes :: "Item \<Rightarrow> bool" where
  "encodes (It_Instruction instruction) = (case encode (placed_machine instruction) of Inl _ \<Rightarrow> False | Inr _ \<Rightarrow> True)"
| "encodes _ = True"

definition assembly_fails :: "Module \<Rightarrow> bool" where
  "assembly_fails m \<longleftrightarrow>
     \<not> distinct (map fst (module_labels m)) \<or>
     (\<exists>name \<in> set (mo_externs m). name \<in> fst ` set (module_labels m)) \<or>
     (\<exists>r \<in> set (module_references m). is_local_name (ref_name r) \<and>
        ref_name r \<notin> fst ` set (module_labels m) \<union> set (mo_globals m) \<union> set (mo_weaks m) \<union> set (mo_externs m)) \<or>
     (\<exists>kind \<in> set (module_kinds m). \<exists>item \<in> set (items_of m kind). \<not> encodes item) \<or>
     (\<exists>b \<in> set (items_bytes (items_of m Kind_Bss)). b \<noteq> 0)"

subsection \<open>The two passes agree on every offset\<close>

lemma length_instruction_bytes [simp]: "length (instruction_bytes instruction) = 8"
  by (simp add: instruction_bytes_def split: sum.split)

lemma length_resize [simp]: "length (resize n xs) = n"
  by (simp add: resize_def)

lemma next_offset_length:
  "next_offset item (of_nat (length bytes)) = of_nat (length (append_item item bytes))"
  by (cases item) (simp_all add: kInstructionSize_def)

lemma offset_of_prefix:
  "fold next_offset items (of_nat (length bytes)) = of_nat (length (fold append_item items bytes))"
  by (induction items arbitrary: bytes) (simp_all add: next_offset_length)

lemma fold_image: "fold next_offset items 0 = of_nat (length (items_bytes items))"
  using offset_of_prefix [of items "[]"] by (simp add: items_bytes_def)

subsection \<open>The symbol table as names and a map\<close>

lemma firsts_snoc: "firsts (ns @ [n]) = (if n \<in> set ns then firsts ns else firsts ns @ [n])"
  by (simp add: firsts_def)

lemma set_firsts [simp]: "set (firsts ns) = set ns"
  by (simp add: firsts_def)

lemma distinct_firsts [simp]: "distinct (firsts ns)"
  by (simp add: firsts_def)

lemma length_firsts: "length (firsts ns) = card (set ns)"
  using distinct_card [OF distinct_firsts, of ns] by simp

lemma firsts_append: "\<exists>extra. firsts (ns @ ms) = firsts ns @ extra"
proof (induction ms rule: rev_induct)
  case (snoc m ms)
  then show ?case using firsts_snoc [of "ns @ ms" m] by auto
qed simp

lemma takeWhile_first:
  "n \<in> set xs \<Longrightarrow> length (takeWhile (\<lambda>x. x \<noteq> n) xs) < length xs \<and> xs ! length (takeWhile (\<lambda>x. x \<noteq> n) xs) = n"
  by (induction xs) auto

lemma table_ok_names:
  assumes "table_ok t" and "map sy_name ss = map sy_name (st_symbols t)"
  shows "table_ok (t\<lparr> st_symbols := ss \<rparr>)"
proof -
  have l: "length ss = length (st_symbols t)" using assms(2) map_eq_imp_length_eq by blast
  have "sy_name (ss ! k) = sy_name (st_symbols t ! k)" if "k < length ss" for k
    using that assms(2) l by (metis nth_map)
  then show ?thesis using assms(1) l by (simp add: table_ok_def)
qed

lemma name_position:
  assumes "n \<in> set ns"
  shows "length (takeWhile (\<lambda>x. x \<noteq> n) (firsts ns)) < length (firsts ns)"
    and "firsts ns ! length (takeWhile (\<lambda>x. x \<noteq> n) (firsts ns)) = n"
  using takeWhile_first [of n "firsts ns"] assms by simp_all

lemma name_index_unat:
  assumes "card (set ns) < 2 ^ 32" and "n \<in> set ns"
  shows "unat (name_index ns n) < length (firsts ns)" and "firsts ns ! unat (name_index ns n) = n"
proof -
  have "unat (name_index ns n) = length (takeWhile (\<lambda>x. x \<noteq> n) (firsts ns))"
    unfolding name_index_def
    by (rule unat_of_nat_u32) (use name_position(1) [OF assms(2)] assms(1) in \<open>simp add: length_firsts\<close>)
  then show "unat (name_index ns n) < length (firsts ns)" "firsts ns ! unat (name_index ns n) = n"
    using name_position [OF assms(2)] by simp_all
qed

lemma name_index_append: "n \<in> set ns \<Longrightarrow> name_index (ns @ ms) n = name_index ns n"
proof -
  assume n: "n \<in> set ns"
  obtain extra where "firsts (ns @ ms) = firsts ns @ extra" using firsts_append by blast
  moreover have "takeWhile (\<lambda>x. x \<noteq> n) (firsts ns @ extra) = takeWhile (\<lambda>x. x \<noteq> n) (firsts ns)"
    by (rule takeWhile_append1 [where x = n]) (use n in auto)
  ultimately show ?thesis by (simp add: name_index_def)
qed

definition table_is :: "string list \<Rightarrow> (string \<Rightarrow> Symbol) \<Rightarrow> SymbolTable \<Rightarrow> bool" where
  "table_is ns g t \<longleftrightarrow> table_ok t \<and> st_symbols t = map g (firsts ns) \<and> (\<forall>n. sy_name (g n) = n) \<and>
     (\<forall>n. n \<notin> set ns \<longrightarrow> g n = blank_symbol n)"

lemma table_is_card: "table_is ns g t \<Longrightarrow> card (set ns) < 2 ^ 32"
  by (auto simp: table_is_def table_ok_def length_firsts)

lemma table_is_index:
  assumes "table_is ns g t"
  shows "st_index t n = (if n \<in> set ns then Some (name_index ns n) else None)"
proof -
  have iff: "st_index t n = Some i \<longleftrightarrow> unat i < length (firsts ns) \<and> firsts ns ! unat i = n" for i
    using assms table_ok_index [of t n i] by (auto simp: table_is_def)
  show ?thesis
  proof (cases "n \<in> set ns")
    case True
    then show ?thesis using iff name_index_unat [OF table_is_card [OF assms]] by simp
  next
    case False
    then show ?thesis using iff by (metis not_None_eq nth_mem set_firsts)
  qed
qed

lemma table_is_symbol:
  assumes "table_is ns g t" and "n \<in> set ns"
  shows "st_symbols t ! unat (name_index ns n) = g n"
  using assms name_index_unat [OF table_is_card [OF assms(1)] assms(2)] by (simp add: table_is_def)

lemma table_is_update:
  assumes "table_is ns g t" and "n \<in> set ns" and "sy_name (f (g n)) = n"
  shows "table_is ns (g(n := f (g n))) (t\<lparr> st_symbols := (st_symbols t)
    [unat (name_index ns n) := f (st_symbols t ! unat (name_index ns n))] \<rparr>)"
proof -
  let ?k = "unat (name_index ns n)"
  note k = name_index_unat [OF table_is_card [OF assms(1)] assms(2)]
  have names: "sy_name (g n) = n" for n using assms(1) by (simp add: table_is_def)
  have "(map g (firsts ns))[?k := f (g n)] = map (g(n := f (g n))) (firsts ns)"
  proof (rule nth_equalityI)
    fix i assume "i < length ((map g (firsts ns))[?k := f (g n)])"
    then have i: "i < length (firsts ns)" by simp
    have "firsts ns ! i = n \<longleftrightarrow> i = ?k" using k i by (metis distinct_firsts nth_eq_iff_index_eq)
    with i k show "(map g (firsts ns))[?k := f (g n)] ! i = map (g(n := f (g n))) (firsts ns) ! i"
      by (simp add: nth_list_update)
  qed simp
  then have l: "(st_symbols t)[?k := f (st_symbols t ! ?k)] = map (g(n := f (g n))) (firsts ns)"
    using assms(1) table_is_symbol [OF assms(1,2)] by (simp add: table_is_def)
  have "table_ok (t\<lparr> st_symbols := map (g(n := f (g n))) (firsts ns) \<rparr>)"
    by (rule table_ok_names) (use assms in \<open>auto simp: table_is_def\<close>)
  then show ?thesis unfolding l using assms by (auto simp: table_is_def)
qed

lemma table_is_mention:
  assumes "table_is ns g t" and "card (insert n (set ns)) < 2 ^ 32" and "findOrAdd n t = (i, t')"
  shows "table_is (ns @ [n]) g t'" and "i = name_index (ns @ [n]) n"
proof -
  have "table_is (ns @ [n]) g t' \<and> i = name_index (ns @ [n]) n"
  proof (cases "n \<in> set ns")
    case True
    then have "t' = t \<and> i = name_index ns n"
      using assms(3) table_is_index [OF assms(1), of n] by (simp add: findOrAdd_def)
    then show ?thesis using True assms(1) by (auto simp: table_is_def firsts_snoc name_index_append)
  next
    case False
    have none: "st_index t n = None" using False table_is_index [OF assms(1), of n] by simp
    then have add: "addSymbol (blank_symbol n) t = (i, t')" using assms(3) by (simp add: findOrAdd_def)
    have len: "length (st_symbols t) = card (set ns)" using assms(1) by (simp add: table_is_def length_firsts)
    then have room: "0 < st_room t" using assms(2) False by (simp add: st_room_def)
    have ok: "table_ok t" using assms(1) by (simp add: table_is_def)
    have none': "st_index t (sy_name (blank_symbol n)) = None" using none by (simp add: blank_symbol_def)
    note new = addSymbol_new [OF ok room none' add]
    have "g n = blank_symbol n" using False assms(1) by (simp add: table_is_def)
    then have tab: "table_is (ns @ [n]) g t'"
      using assms(1) new(2,4) False by (auto simp: table_is_def firsts_snoc)
    moreover have "st_index t' n = Some i" using new(3) by (simp add: blank_symbol_def)
    ultimately show ?thesis using table_is_index [OF tab, of n] by simp
  qed
  then show "table_is (ns @ [n]) g t'" "i = name_index (ns @ [n]) n" by auto
qed

lemma table_is_start: "table_is [] blank_symbol empty_table"
  by (simp add: table_is_def firsts_def empty_table_def table_ok_def) (simp add: blank_symbol_def)

subsection \<open>Operations on symbols\<close>

abbreviation table :: "Assembly \<Rightarrow> SymbolTable" where
  "table st \<equiv> ob_symbols (as_object st)"

definition with_table :: "SymbolTable \<Rightarrow> Assembly \<Rightarrow> Assembly" where
  "with_table t = with_object (\<lambda>ob. ob\<lparr> ob_symbols := t \<rparr>)"

text \<open>The states that differ from \<open>st\<close> in the symbol table and the diagnostics only.\<close>

definition symbols_only :: "Assembly \<Rightarrow> Assembly \<Rightarrow> bool" where
  "symbols_only st st' \<longleftrightarrow> (\<exists>t e f. st' = (with_table t st)\<lparr> as_engine := e, as_failed := f \<rparr>)"

lemma symbols_only_refl [simp]: "symbols_only st st"
  unfolding symbols_only_def
  by (rule exI [of _ "table st"], rule exI [of _ "as_engine st"], rule exI [of _ "as_failed st"])
     (simp add: with_table_def with_object_def)

lemma symbols_only_trans [trans]: "symbols_only a b \<Longrightarrow> symbols_only b c \<Longrightarrow> symbols_only a c"
  by (fastforce simp: symbols_only_def with_table_def with_object_def)

lemma symbols_only_frame [frame_simps]:
  assumes "symbols_only st st'"
  shows "ob_sections (as_object st') = ob_sections (as_object st)"
    and "ob_relocations (as_object st') = ob_relocations (as_object st)"
    and "ob_debug_info (as_object st') = ob_debug_info (as_object st)"
    and "ob_version (as_object st') = ob_version (as_object st)"
    and "ob_source_files (as_object st') = ob_source_files (as_object st)"
    and "as_section_index st' = as_section_index st" and "as_ordered_kinds st' = as_ordered_kinds st"
  using assms by (auto simp: symbols_only_def with_table_def with_object_def)

lemma symbols_only_intros [intro]:
  "symbols_only st (with_table t st)"
  "symbols_only st (assembly_error location code message st)"
  "symbols_only st (update_symbol i f st)"
proof -
  show "symbols_only st (with_table t st)"
    unfolding symbols_only_def
    by (rule exI [of _ t], rule exI [of _ "as_engine st"], rule exI [of _ "as_failed st"])
       (simp add: with_table_def with_object_def)
  show "symbols_only st (assembly_error location code message st)"
    unfolding symbols_only_def
    by (rule exI [of _ "table st"], rule exI, rule exI)
       (simp add: with_table_def with_object_def assembly_error_def)
  show "symbols_only st (update_symbol i f st)"
    unfolding symbols_only_def
    by (rule exI, rule exI [of _ "as_engine st"], rule exI [of _ "as_failed st"])
       (simp add: with_table_def with_object_def update_symbol_def)
qed

lemma assembly_error_simps [simp]:
  "as_failed (assembly_error location code message st)"
  "table (assembly_error location code message st) = table st"
  by (simp_all add: assembly_error_def)

lemma with_table_simps [simp]:
  "table (with_table t st) = t" "as_failed (with_table t st) = as_failed st"
  "ob_sections (as_object (with_table t st)) = ob_sections (as_object st)"
  by (simp_all add: with_table_def with_object_def)

lemma update_symbol_failed [simp]: "as_failed (update_symbol i f st) = as_failed st"
  by (simp add: update_symbol_def with_object_def)

lemma add_name_is:
  assumes "table_is ns g (table st)" and "card (insert n (set ns)) < 2 ^ 32"
  obtains t where "add_name n st = (name_index (ns @ [n]) n, with_table t st)"
    and "table_is (ns @ [n]) g t" and "symbol_at (name_index (ns @ [n]) n) (with_table t st) = g n"
proof -
  obtain i t where f: "findOrAdd n (table st) = (i, t)" by fastforce
  note m = table_is_mention [OF assms f]
  show ?thesis
  proof
    show "add_name n st = (name_index (ns @ [n]) n, with_table t st)"
      using f m(2) by (simp add: add_name_def with_table_def)
    show "table_is (ns @ [n]) g t" by (rule m(1))
    show "symbol_at (name_index (ns @ [n]) n) (with_table t st) = g n"
      using table_is_symbol [OF m(1)] by (simp add: symbol_at_def)
  qed
qed

lemma update_symbol_is:
  assumes "table_is ns g (table st)" and "n \<in> set ns" and "sy_name (f (g n)) = n"
  shows "table_is ns (g(n := f (g n))) (table (update_symbol (name_index ns n) f st))"
  using table_is_update [where f = f and n = n and g = g, OF assms]
  by (simp add: update_symbol_def with_object_def)

subsection \<open>Pass 1\<close>

definition labels_map :: "(string \<times> u32 \<times> u64 \<times> SymbolType) list \<Rightarrow> string \<Rightarrow> Symbol" where
  "labels_map L n = (case map_of L n of None \<Rightarrow> blank_symbol n | Some p \<Rightarrow> label_symbol n p)"

definition labels_done :: "(string \<times> u32 \<times> u64 \<times> SymbolType) list \<Rightarrow> Assembly \<Rightarrow> bool" where
  "labels_done L st \<longleftrightarrow> table_is (map fst L) (labels_map L) (table st) \<and>
     (as_failed st \<longleftrightarrow> \<not> distinct (map fst L))"

lemma labels_map_defined [simp]: "sy_defined (labels_map L n) \<longleftrightarrow> n \<in> fst ` set L"
proof (cases "map_of L n")
  case None
  then have "n \<notin> fst ` set L" by (simp only: map_of_eq_None_iff not_False_eq_True)
  with None show ?thesis by (simp add: labels_map_def blank_symbol_def)
next
  case (Some p)
  then have "n \<in> fst ` set L" by (metis map_of_eq_None_iff option.distinct(1))
  with Some show ?thesis by (simp add: labels_map_def label_symbol_def split: prod.split)
qed

lemma labels_map_snoc:
  "labels_map (L @ [(n, p)]) = (if n \<in> fst ` set L then labels_map L else (labels_map L)(n := label_symbol n p))"
proof (cases "map_of L n")
  case None
  then have "n \<notin> fst ` set L" by (simp only: map_of_eq_None_iff not_False_eq_True)
  with None show ?thesis by (auto simp: labels_map_def map_add_def fun_eq_iff split: option.split)
next
  case (Some q)
  then have "n \<in> fst ` set L" by (metis map_of_eq_None_iff option.distinct(1))
  with Some show ?thesis by (auto simp: labels_map_def map_add_def fun_eq_iff split: option.split)
qed

lemma defineLabel_done:
  assumes sofar: "labels_done L st" and "card (insert name (fst ` set L)) < 2 ^ 32"
    and "type = (if sec_type (ob_sections (as_object st) ! unat index) = Sec_Text then Sym_Function else Sym_Object)"
  shows "labels_done (L @ [(name, index, offset, type)]) (defineLabel name location index offset st)"
    and "symbols_only st (defineLabel name location index offset st)"
proof -
  let ?ns = "map fst L" let ?i = "name_index (?ns @ [name]) name"
  have t: "table_is ?ns (labels_map L) (table st)" and f: "as_failed st \<longleftrightarrow> \<not> distinct ?ns"
    using sofar by (simp_all add: labels_done_def)
  obtain t' where a: "add_name name st = (?i, with_table t' st)" "table_is (?ns @ [name]) (labels_map L) t'"
    "symbol_at ?i (with_table t' st) = labels_map L name"
    using add_name_is [OF t] assms(2) by auto
  show "symbols_only st (defineLabel name location index offset st)"
    by (auto simp: defineLabel_def a intro: symbols_only_trans)
  show "labels_done (L @ [(name, index, offset, type)]) (defineLabel name location index offset st)"
  proof (cases "name \<in> fst ` set L")
    case True
    then show ?thesis using a f by (simp add: defineLabel_def labels_done_def labels_map_snoc)
  next
    case False
    define h where "h = (\<lambda>symbol :: Symbol. symbol\<lparr> sy_defined := True, sy_section := index,
      sy_value := offset, sy_binding := Local, sy_type := type \<rparr>)"
    have "map_of L name = None" using False by (simp add: map_of_eq_None_iff)
    then have h: "h (labels_map L name) = label_symbol name (index, offset, type)"
      by (simp add: h_def labels_map_def label_symbol_def blank_symbol_def)
    have d: "defineLabel name location index offset st = update_symbol ?i h (with_table t' st)"
      using False assms(3) by (simp add: defineLabel_def a h_def)
    have "table_is (?ns @ [name]) ((labels_map L)(name := h (labels_map L name)))
      (table (update_symbol ?i h (with_table t' st)))"
      by (rule update_symbol_is) (use a(2) h in \<open>simp_all add: label_symbol_def\<close>)
    then show ?thesis
      using False f unfolding labels_done_def d h labels_map_snoc by simp
  qed
qed

lemma layout_items_done:
  assumes "labels_done L st"
    and "card (fst ` set L \<union> fst ` set (section_labels index type items offset)) < 2 ^ 32"
    and "type = (if sec_type (ob_sections (as_object st) ! unat index) = Sec_Text then Sym_Function else Sym_Object)"
  shows "\<exists>st'. fold (layout_item index) items (offset, greatest, st) =
      (fold next_offset items offset, fold next_alignment items greatest, st') \<and>
    labels_done (L @ section_labels index type items offset) st' \<and> symbols_only st st'"
  using assms
proof (induction items arbitrary: L st offset greatest)
  case (Cons item items)
  let ?L = "section_labels index type (item # items) offset"
  define st1 where "st1 = (case item of It_Label name _ location \<Rightarrow> defineLabel name location index offset st | _ \<Rightarrow> st)"
  define M where "M = (case item of It_Label name _ _ \<Rightarrow> [(name, index, offset, type)] | _ \<Rightarrow> [])"
  have L: "?L = M @ section_labels index type items (next_offset item offset)" by (simp add: M_def)
  have step: "labels_done (L @ M) st1 \<and> symbols_only st st1"
  proof (cases item)
    case (It_Label name l location)
    have "card (insert name (fst ` set L)) \<le> card (fst ` set L \<union> fst ` set ?L)"
      by (rule card_mono) (auto simp: It_Label)
    then have "card (insert name (fst ` set L)) < 2 ^ 32" using Cons.prems(2) by linarith
    from defineLabel_done [OF Cons.prems(1) this Cons.prems(3)] show ?thesis
      by (simp add: It_Label st1_def M_def)
  qed (use Cons.prems(1) in \<open>simp_all add: st1_def M_def\<close>)
  have c: "card (fst ` set (L @ M) \<union> fst ` set (section_labels index type items (next_offset item offset))) < 2 ^ 32"
    using Cons.prems(2) by (simp add: L image_Un Un_assoc del: section_labels.simps)
  have t: "type = (if sec_type (ob_sections (as_object st1) ! unat index) = Sec_Text then Sym_Function else Sym_Object)"
    using Cons.prems(3) symbols_only_frame(1) [OF conjunct2 [OF step]] by simp
  from Cons.IH [OF conjunct1 [OF step] c t, of "next_alignment item greatest"] step
  show ?case by (auto simp: L st1_def [symmetric] simp del: section_labels.simps intro: symbols_only_trans)
qed simp

text \<open>What the passes over the sections leave alone.\<close>

definition same_rest :: "Assembly \<Rightarrow> Assembly \<Rightarrow> bool" where
  "same_rest st st' \<longleftrightarrow>
     ob_version (as_object st') = ob_version (as_object st) \<and>
     ob_source_files (as_object st') = ob_source_files (as_object st) \<and>
     as_section_index st' = as_section_index st \<and> as_ordered_kinds st' = as_ordered_kinds st"

lemma same_rest_trans: "same_rest a b \<Longrightarrow> same_rest b c \<Longrightarrow> same_rest a c"
  by (simp add: same_rest_def)

lemma same_rest_symbols [intro]: "symbols_only st st' \<Longrightarrow> same_rest st st'"
  by (simp add: same_rest_def frame_simps)

lemma update_section_simps [simp]:
  "ob_sections (as_object (update_section i f st)) =
     (ob_sections (as_object st))[unat i := f (ob_sections (as_object st) ! unat i)]"
  "table (update_section i f st) = table st"
  "as_failed (update_section i f st) = as_failed st"
  "ob_relocations (as_object (update_section i f st)) = ob_relocations (as_object st)"
  "ob_debug_info (as_object (update_section i f st)) = ob_debug_info (as_object st)"
  "same_rest st (update_section i f st)"
  by (simp_all add: update_section_def with_object_def same_rest_def)

definition collected_section :: "Module \<Rightarrow> nat \<times> SectionKind \<Rightarrow> Section" where
  "collected_section m p = (case p of (i, kind) \<Rightarrow>
     \<lparr> sec_name = sectionName kind, sec_type = sectionTypeOf kind, sec_flags = sectionFlagsOf kind,
       sec_alignment = (case findIrSection kind m of None \<Rightarrow> 0 | Some source \<Rightarrow> is_alignment source),
       sec_data = [], sec_size = 0, sec_index = of_nat i \<rparr>)"

definition laid_section :: "Module \<Rightarrow> nat \<times> SectionKind \<Rightarrow> Section" where
  "laid_section m p = (collected_section m p)\<lparr>
     sec_size := of_nat (length (items_bytes (items_of m (snd p)))), sec_alignment := alignment_of m (snd p) \<rparr>"

lemma present_source: "kind \<in> set (module_kinds m) \<Longrightarrow>
    \<exists>source. findIrSection kind m = Some source \<and> is_items source = items_of m kind"
  by (auto simp: module_kinds_def items_of_def split: option.splits)

lemma kind_type_text: "sectionTypeOf kind = Sec_Text \<longleftrightarrow> kind = Kind_Text"
  by (cases kind) (simp_all add: sectionTypeOf_def)

abbreviation kind_labels :: "Module \<Rightarrow> nat \<times> SectionKind \<Rightarrow> (string \<times> u32 \<times> u64 \<times> SymbolType) list" where
  "kind_labels m p \<equiv> (case p of (i, kind) \<Rightarrow> section_labels (of_nat i) (kind_symbol_type kind) (items_of m kind) 0)"

lemma layout_section_done:
  assumes "labels_done L st" and kind: "kind \<in> set (module_kinds m)"
    and idx: "as_section_index st kind = Some (of_nat j)" and j: "j < 2 ^ 32" "j < length (ob_sections (as_object st))"
    and sec: "ob_sections (as_object st) ! j = collected_section m (j, kind)"
    and "card (fst ` set L \<union> fst ` set (kind_labels m (j, kind))) < 2 ^ 32"
  shows "labels_done (L @ kind_labels m (j, kind)) (layout_section m kind st)"
    and "ob_sections (as_object (layout_section m kind st)) =
      (ob_sections (as_object st))[j := laid_section m (j, kind)]"
    and "same_rest st (layout_section m kind st)"
    and "ob_relocations (as_object (layout_section m kind st)) = ob_relocations (as_object st)"
    and "ob_debug_info (as_object (layout_section m kind st)) = ob_debug_info (as_object st)"
proof -
  obtain source where s: "findIrSection kind m = Some source" "is_items source = items_of m kind"
    using present_source [OF kind] by blast
  have u: "unat (of_nat j :: u32) = j" by (rule unat_of_nat_u32) (rule j(1))
  let ?a = "sec_alignment (ob_sections (as_object st) ! unat (of_nat j :: u32))"
  have ty: "kind_symbol_type kind = (if sec_type (ob_sections (as_object st) ! unat (of_nat j :: u32)) = Sec_Text
      then Sym_Function else Sym_Object)"
    by (simp only: u sec) (simp add: collected_section_def kind_type_text kind_symbol_type_def)
  have "card (fst ` set L \<union> fst ` set (section_labels (of_nat j) (kind_symbol_type kind) (items_of m kind) 0)) < 2 ^ 32"
    using assms(7) by simp
  from layout_items_done [OF assms(1) this ty, of ?a]
  obtain st' where f: "fold (layout_item (of_nat j)) (items_of m kind) (0, ?a, st) =
      (of_nat (length (items_bytes (items_of m kind))), alignment_of m kind, st')"
    "labels_done (L @ kind_labels m (j, kind)) st'" "symbols_only st st'"
    unfolding fold_image by (auto simp: alignment_of_def sec u collected_section_def)
  have e: "layout_section m kind st = update_section (of_nat j)
      (\<lambda>s. s\<lparr> sec_size := of_nat (length (items_bytes (items_of m kind))), sec_alignment := alignment_of m kind \<rparr>) st'"
    unfolding layout_section_def s(1) idx by (simp add: s(2) f(1))
  show "labels_done (L @ kind_labels m (j, kind)) (layout_section m kind st)"
    using f(2) by (simp add: e labels_done_def)
  show "ob_sections (as_object (layout_section m kind st)) =
      (ob_sections (as_object st))[j := laid_section m (j, kind)]"
    using f(3) by (simp add: e u sec laid_section_def frame_simps)
  show "same_rest st (layout_section m kind st)"
    unfolding e using f(3) by (blast intro: same_rest_trans update_section_simps(6))
  show "ob_relocations (as_object (layout_section m kind st)) = ob_relocations (as_object st)"
    "ob_debug_info (as_object (layout_section m kind st)) = ob_debug_info (as_object st)"
    using f(3) by (simp_all add: e frame_simps)
qed

text \<open>One pass over the sections, in the order and at the positions the kinds were collected in.\<close>

definition indexed :: "nat \<Rightarrow> SectionKind list \<Rightarrow> Assembly \<Rightarrow> bool" where
  "indexed j kinds st \<longleftrightarrow> j + length kinds < 2 ^ 32 \<and>
     (\<forall>i < length kinds. as_section_index st (kinds ! i) = Some (of_nat (j + i)))"

lemma indexed_Cons:
  "indexed j (kind # kinds) st \<Longrightarrow>
     as_section_index st kind = Some (of_nat j) \<and> j < 2 ^ 32 \<and> indexed (Suc j) kinds st"
  by (auto simp: indexed_def nth_Cons' all_conj_distrib split: if_splits)

lemma indexed_rest: "same_rest st st' \<Longrightarrow> indexed j kinds st' = indexed j kinds st"
  by (simp add: indexed_def same_rest_def)

lemma layout_kinds_done:
  assumes "labels_done L st" and "set kinds \<subseteq> set (module_kinds m)" and "indexed j kinds st"
    and "ob_sections (as_object st) = pre @ map (collected_section m) (enumerate j kinds)" and "length pre = j"
    and "card (fst ` set L \<union> fst ` set (concat (map (kind_labels m) (enumerate j kinds)))) < 2 ^ 32"
  shows "labels_done (L @ concat (map (kind_labels m) (enumerate j kinds))) (fold (layout_section m) kinds st) \<and>
    ob_sections (as_object (fold (layout_section m) kinds st)) = pre @ map (laid_section m) (enumerate j kinds) \<and>
    same_rest st (fold (layout_section m) kinds st) \<and>
    ob_relocations (as_object (fold (layout_section m) kinds st)) = ob_relocations (as_object st) \<and>
    ob_debug_info (as_object (fold (layout_section m) kinds st)) = ob_debug_info (as_object st)"
  using assms
proof (induction kinds arbitrary: L st j pre)
  case Nil
  then show ?case by (simp add: same_rest_def)
next
  case (Cons kind kinds)
  let ?K = "kind_labels m (j, kind)" and ?st = "layout_section m kind st"
  note ix = indexed_Cons [OF Cons.prems(3)]
  have "card (fst ` set L \<union> fst ` set ?K) \<le>
      card (fst ` set L \<union> fst ` set (concat (map (kind_labels m) (enumerate j (kind # kinds)))))"
    by (intro card_mono finite_UnI finite_imageI finite_set) auto
  then have c: "card (fst ` set L \<union> fst ` set ?K) < 2 ^ 32" using Cons.prems(6) by linarith
  have j: "j < length (ob_sections (as_object st))" "ob_sections (as_object st) ! j = collected_section m (j, kind)"
    using Cons.prems(4,5) by (simp_all add: nth_append)
  have k: "kind \<in> set (module_kinds m)" using Cons.prems(2) by simp
  note s = layout_section_done [OF Cons.prems(1) k conjunct1 [OF ix] _ j c]
  have lt: "j < 2 ^ 32" using ix by simp
  have secs: "ob_sections (as_object ?st) = (pre @ [laid_section m (j, kind)]) @
      map (collected_section m) (enumerate (Suc j) kinds)"
    using s(2) [OF lt] Cons.prems(4,5) by (simp add: list_update_append)
  have c2: "card (fst ` set (L @ ?K) \<union> fst ` set (concat (map (kind_labels m) (enumerate (Suc j) kinds)))) < 2 ^ 32"
    using Cons.prems(6) by (simp add: image_Un Un_assoc)
  have "indexed (Suc j) kinds ?st" using ix indexed_rest [OF s(3) [OF lt]] by simp
  from Cons.IH [OF s(1) [OF lt] _ this secs _ c2] Cons.prems(2,5) s(3,4,5) [OF lt]
  show ?case by (auto intro: same_rest_trans)
qed

lemma collect_section_eq:
  "collect_section m kind st =
     (if items_of m kind = [] then st
      else (with_object (\<lambda>ob. ob\<lparr> ob_sections := ob_sections ob @
              [collected_section m (length (ob_sections (as_object st)), kind)] \<rparr>) st)
             \<lparr> as_section_index := (as_section_index st)(kind \<mapsto> of_nat (length (ob_sections (as_object st)))),
               as_ordered_kinds := as_ordered_kinds st @ [kind] \<rparr>)"
  by (auto simp: collect_section_def items_of_def collected_section_def Let_def split: option.split)

lemma collected:
  "ob_sections (as_object (collectSections m (start_assembly d))) =
     map (collected_section m) (enumerate 0 (module_kinds m)) \<and>
   as_ordered_kinds (collectSections m (start_assembly d)) = module_kinds m \<and>
   indexed 0 (module_kinds m) (collectSections m (start_assembly d)) \<and>
   labels_done [] (collectSections m (start_assembly d)) \<and>
   ob_relocations (as_object (collectSections m (start_assembly d))) = [] \<and>
   ob_debug_info (as_object (collectSections m (start_assembly d))) = [] \<and>
   ob_version (as_object (collectSections m (start_assembly d))) = kObjectVersion \<and>
   ob_source_files (as_object (collectSections m (start_assembly d))) = [mo_source_name m]"
proof -
  have l: "labels_map [] = blank_symbol" by (simp add: fun_eq_iff labels_map_def)
  show ?thesis
    by (cases "items_of m Kind_Text = []"; cases "items_of m Kind_Rodata = []";
        cases "items_of m Kind_Data = []"; cases "items_of m Kind_Bss = []")
       (simp_all add: collectSections_def kSectionOrder_def module_kinds_def collect_section_eq
          start_assembly_def empty_object_def with_object_def labels_done_def l table_is_start indexed_def
          nth_Cons' less_Suc_eq)
qed

subsection \<open>Bindings\<close>

definition set_bindings :: "(string \<Rightarrow> bool) \<Rightarrow> SymbolBinding \<Rightarrow> (string \<Rightarrow> Symbol) \<Rightarrow> string \<Rightarrow> Symbol" where
  "set_bindings P b g = (\<lambda>n. if P n then (g n)\<lparr> sy_binding := b \<rparr> else g n)"

lemma set_bindings_simps [simp]:
  "sy_defined (set_bindings P b g n) = sy_defined (g n)" "sy_name (set_bindings P b g n) = sy_name (g n)"
  by (simp_all add: set_bindings_def)

lemma bind_step:
  assumes "table_is ns g (table st)" and "card (insert n (set ns)) < 2 ^ 32"
    and "add_name n st = (i, st')"
  shows "symbol_at i st' = g n" and "symbols_only st st'" and "as_failed st' = as_failed st"
    and "table_is (ns @ [n]) g (table st')"
    and "table_is (ns @ [n]) (g(n := (g n)\<lparr> sy_binding := b \<rparr>))
      (table (update_symbol i (\<lambda>symbol. symbol\<lparr> sy_binding := b \<rparr>) st'))"
proof -
  obtain t where t: "add_name n st = (name_index (ns @ [n]) n, with_table t st)" "table_is (ns @ [n]) g t"
    "symbol_at (name_index (ns @ [n]) n) (with_table t st) = g n"
    by (rule add_name_is [OF assms(1,2)])
  then have e: "i = name_index (ns @ [n]) n" "st' = with_table t st" using assms(3) by simp_all
  show "symbol_at i st' = g n" "symbols_only st st'" "as_failed st' = as_failed st" "table_is (ns @ [n]) g (table st')"
    using t by (auto simp: e)
  have "sy_name (g n) = n" using assms(1) by (simp add: table_is_def)
  then show "table_is (ns @ [n]) (g(n := (g n)\<lparr> sy_binding := b \<rparr>))
      (table (update_symbol i (\<lambda>symbol. symbol\<lparr> sy_binding := b \<rparr>) st'))"
    unfolding e using update_symbol_is [of "ns @ [n]" g "with_table t st" n "\<lambda>symbol. symbol\<lparr> sy_binding := b \<rparr>"] t(2)
    by simp
qed

lemma bind_names:
  assumes "table_is ns g (table st)" and "card (set ns \<union> set names) < 2 ^ 32"
  shows "table_is (ns @ names) (set_bindings (\<lambda>n. n \<in> set names) b g) (table (fold (bind_name b) names st)) \<and>
    symbols_only st (fold (bind_name b) names st) \<and> as_failed (fold (bind_name b) names st) = as_failed st"
  using assms
proof (induction names arbitrary: ns g st)
  case Nil
  then show ?case by (simp add: set_bindings_def)
next
  case (Cons n names)
  obtain i st' where a: "add_name n st = (i, st')" by fastforce
  have "card (insert n (set ns)) \<le> card (set ns \<union> set (n # names))" by (intro card_mono) auto
  then have "card (insert n (set ns)) < 2 ^ 32" using Cons.prems(2) by linarith
  note c1 = this
  note s = bind_step(1-4) [OF Cons.prems(1) c1 a]
    and s5 = bind_step(5) [OF Cons.prems(1) c1 a, where b = b]
  have b: "bind_name b n st = update_symbol i (\<lambda>symbol. symbol\<lparr> sy_binding := b \<rparr>) st'"
    by (simp add: bind_name_def a)
  have g: "set_bindings (\<lambda>x. x \<in> set (n # names)) b g =
      set_bindings (\<lambda>x. x \<in> set names) b (g(n := (g n)\<lparr> sy_binding := b \<rparr>))"
    by (auto simp: set_bindings_def fun_eq_iff)
  have c: "card (set (ns @ [n]) \<union> set names) < 2 ^ 32" using Cons.prems(2) by simp
  have so: "symbols_only st (bind_name b n st)" unfolding b using s(2) by (blast intro: symbols_only_trans)
  show ?case
    using Cons.IH [OF s5 c] so s(3) unfolding fold_simps comp_apply b g
    by (auto intro: symbols_only_trans simp del: fun_upd_apply)
qed

lemma bind_externs:
  assumes "table_is ns g (table st)" and "card (set ns \<union> set names) < 2 ^ 32"
  shows "table_is (ns @ names) (set_bindings (\<lambda>n. n \<in> set names \<and> \<not> sy_defined (g n)) Extern g)
      (table (fold bind_extern names st)) \<and>
    symbols_only st (fold bind_extern names st) \<and>
    (as_failed (fold bind_extern names st) \<longleftrightarrow> as_failed st \<or> (\<exists>n \<in> set names. sy_defined (g n)))"
  using assms
proof (induction names arbitrary: ns g st)
  case Nil
  then show ?case by (simp add: set_bindings_def)
next
  case (Cons n names)
  obtain i st' where a: "add_name n st = (i, st')" by fastforce
  have "card (insert n (set ns)) \<le> card (set ns \<union> set (n # names))" by (intro card_mono) auto
  then have "card (insert n (set ns)) < 2 ^ 32" using Cons.prems(2) by linarith
  note c1 = this
  note s = bind_step(1-4) [OF Cons.prems(1) c1 a]
    and s5 = bind_step(5) [OF Cons.prems(1) c1 a, where b = Extern]
  have c: "card (set (ns @ [n]) \<union> set names) < 2 ^ 32" using Cons.prems(2) by simp
  show ?case
  proof (cases "sy_defined (g n)")
    case True
    then have b: "bind_extern n st = assembly_error no_location EC_SymbolVisibilityConflict
             (quoted n @ '' is declared .extern but also defined in this file'') st'"
      by (simp add: bind_extern_def a s(1))
    have g: "set_bindings (\<lambda>x. x \<in> set (n # names) \<and> \<not> sy_defined (g x)) Extern g =
        set_bindings (\<lambda>x. x \<in> set names \<and> \<not> sy_defined (g x)) Extern g"
      using True by (auto simp: set_bindings_def fun_eq_iff)
    have "table_is (ns @ [n]) g (table (bind_extern n st))" using s(4) by (simp add: b)
    moreover have "symbols_only st (bind_extern n st)" unfolding b using s(2) by (blast intro: symbols_only_trans)
    ultimately show ?thesis
      using Cons.IH [of "ns @ [n]" g "bind_extern n st"] c True unfolding fold_simps comp_apply g
      by (auto intro: symbols_only_trans simp: b)
  next
    case False
    let ?g = "g(n := (g n)\<lparr> sy_binding := Extern \<rparr>)"
    have b: "bind_extern n st = update_symbol i (\<lambda>symbol. symbol\<lparr> sy_binding := Extern \<rparr>) st'"
      using False by (simp add: bind_extern_def a s(1))
    have d: "sy_defined (?g x) = sy_defined (g x)" for x by simp
    have g: "set_bindings (\<lambda>x. x \<in> set (n # names) \<and> \<not> sy_defined (g x)) Extern g =
        set_bindings (\<lambda>x. x \<in> set names \<and> \<not> sy_defined (?g x)) Extern ?g"
      unfolding d using False by (auto simp: set_bindings_def fun_eq_iff)
    have f: "(\<exists>x \<in> set (n # names). sy_defined (g x)) \<longleftrightarrow> (\<exists>x \<in> set names. sy_defined (?g x))"
      unfolding d using False by simp
    have so: "symbols_only st (bind_extern n st)" unfolding b using s(2) by (blast intro: symbols_only_trans)
    show ?thesis
      using Cons.IH [OF s5 c] so s(3) unfolding fold_simps comp_apply b g f
      by (auto intro: symbols_only_trans simp del: fun_upd_apply)
  qed
qed

subsection \<open>Pass 2\<close>

definition refs_map :: "(string \<Rightarrow> Symbol) \<Rightarrow> SymbolRef list \<Rightarrow> string \<Rightarrow> Symbol" where
  "refs_map g R = set_bindings (\<lambda>n. n \<in> ref_name ` set R \<and> \<not> sy_defined (g n) \<and> sy_binding (g n) = Local \<and>
     \<not> is_local_name n) Extern g"

definition unresolved :: "(string \<Rightarrow> Symbol) \<Rightarrow> string \<Rightarrow> bool" where
  "unresolved g n \<longleftrightarrow> \<not> sy_defined (g n) \<and> sy_binding (g n) = Local \<and> is_local_name n"

lemma refs_map_start [simp]: "refs_map g [] = g"
  by (simp add: refs_map_def set_bindings_def)

lemma referenceSymbol_step:
  assumes t: "table_is (ns @ map ref_name R) (refs_map g R) (table st)"
    and c: "card (insert (ref_name r) (set (ns @ map ref_name R))) < 2 ^ 32"
    and call: "referenceSymbol r location st = (i, st')"
  shows "i = name_index (ns @ map ref_name (R @ [r])) (ref_name r)"
    and "table_is (ns @ map ref_name (R @ [r])) (refs_map g (R @ [r])) (table st')"
    and "as_failed st' \<longleftrightarrow> as_failed st \<or> unresolved g (ref_name r)" and "symbols_only st st'"
proof -
  let ?n = "ref_name r" and ?ns = "ns @ map ref_name R"
  obtain j s where a: "add_name ?n st = (j, s)" by fastforce
  note b = bind_step(1-4) [OF t c a] and b5 = bind_step(5) [OF t c a, where b = Extern]
  have j: "j = name_index (?ns @ [?n]) ?n"
    using add_name_is [OF t c] a by (metis prod.inject)
  have same: "refs_map g (R @ [r]) = refs_map g R"
    if "\<not> (\<not> sy_defined (g ?n) \<and> sy_binding (g ?n) = Local \<and> \<not> is_local_name ?n)"
    using that by (auto simp: refs_map_def set_bindings_def fun_eq_iff)
  have "i = j \<and> table_is (?ns @ [?n]) (refs_map g (R @ [r])) (table st') \<and>
    (as_failed st' \<longleftrightarrow> as_failed st \<or> unresolved g ?n) \<and> symbols_only st st'"
  proof (cases "\<not> sy_defined (refs_map g R ?n) \<and> sy_binding (refs_map g R ?n) = Local")
    case False
    then have e: "i = j" "st' = s" using call by (auto simp: referenceSymbol_def a b(1))
    have "\<not> (\<not> sy_defined (g ?n) \<and> sy_binding (g ?n) = Local) \<or> ?n \<in> ref_name ` set R \<and> \<not> is_local_name ?n"
      using False by (auto simp: refs_map_def set_bindings_def split: if_splits)
    then have "refs_map g (R @ [r]) = refs_map g R" "\<not> unresolved g ?n"
      by (auto simp: refs_map_def set_bindings_def fun_eq_iff unresolved_def)
    then show ?thesis using b by (simp add: e)
  next
    case True
    then have g: "\<not> sy_defined (g ?n)" "sy_binding (g ?n) = Local"
      by (auto simp: refs_map_def set_bindings_def split: if_splits)
    show ?thesis
    proof (cases "is_local_name ?n")
      case local: True
      then obtain message where e: "i = j" "st' = assembly_error location EC_UndefinedSymbol message s"
        using call True by (auto simp: referenceSymbol_def a b(1))
      have "symbols_only st st'" unfolding e using b(2) by (blast intro: symbols_only_trans)
      then show ?thesis using b(4) same local g by (simp add: e unresolved_def)
    next
      case False
      then have e: "i = j" "st' = update_symbol j (\<lambda>symbol. symbol\<lparr> sy_binding := Extern \<rparr>) s"
        using call True by (auto simp: referenceSymbol_def a b(1))
      have "refs_map g (R @ [r]) = (refs_map g R)(?n := (refs_map g R ?n)\<lparr> sy_binding := Extern \<rparr>)"
        using False g by (auto simp: refs_map_def set_bindings_def fun_eq_iff)
      moreover have "symbols_only st st'" unfolding e using b(2) by (blast intro: symbols_only_trans)
      ultimately show ?thesis using b5 False b(3) by (simp add: e unresolved_def)
    qed
  qed
  then show "i = name_index (ns @ map ref_name (R @ [r])) (ref_name r)"
    "table_is (ns @ map ref_name (R @ [r])) (refs_map g (R @ [r])) (table st')"
    "as_failed st' \<longleftrightarrow> as_failed st \<or> unresolved g (ref_name r)" "symbols_only st st'"
    by (simp_all add: j)
qed

lemma emit_relocation_step:
  fixes index :: u32 and offset :: nat and type :: RelocationType and location :: SourceLocation
  assumes t: "table_is (ns @ map ref_name R) (refs_map g R) (table st)"
    and c: "card (insert (ref_name r) (set (ns @ map ref_name R))) < 2 ^ 32"
  defines "st' \<equiv> emit_relocation index offset type r location st"
  shows "table_is (ns @ map ref_name (R @ [r])) (refs_map g (R @ [r])) (table st')"
    and "as_failed st' \<longleftrightarrow> as_failed st \<or> unresolved g (ref_name r)"
    and "ob_relocations (as_object st') = ob_relocations (as_object st) @
      [\<lparr> rel_section = index, rel_offset = of_nat offset, rel_type = type,
         rel_symbol = name_index (ns @ map ref_name (R @ [r])) (ref_name r), rel_addend = ref_addend r \<rparr>]"
    and "ob_sections (as_object st') = ob_sections (as_object st)"
    and "ob_debug_info (as_object st') = ob_debug_info (as_object st)" and "same_rest st st'"
proof -
  obtain i s where call: "referenceSymbol r location st = (i, s)" by fastforce
  note s = referenceSymbol_step [OF t c call]
  have f: "ob_sections (as_object s) = ob_sections (as_object st)" "ob_relocations (as_object s) = ob_relocations (as_object st)"
    "ob_debug_info (as_object s) = ob_debug_info (as_object st)" "same_rest st s"
    using s(4) by (auto simp: frame_simps)
  show "table_is (ns @ map ref_name (R @ [r])) (refs_map g (R @ [r])) (table st')"
    "as_failed st' \<longleftrightarrow> as_failed st \<or> unresolved g (ref_name r)"
    "ob_sections (as_object st') = ob_sections (as_object st)"
    "ob_debug_info (as_object st') = ob_debug_info (as_object st)" "same_rest st st'"
    "ob_relocations (as_object st') = ob_relocations (as_object st) @
      [\<lparr> rel_section = index, rel_offset = of_nat offset, rel_type = type,
         rel_symbol = name_index (ns @ map ref_name (R @ [r])) (ref_name r), rel_addend = ref_addend r \<rparr>]"
    using s(1-3) f by (simp_all add: st'_def emit_relocation_def call with_object_def same_rest_def)
qed

lemma encode_field:
  "encodeInto (take kInstructionSize (drop (length bytes) (resize (length bytes + kInstructionSize) bytes))) machine =
     (case encode machine of Inl e \<Rightarrow> Inl e | Inr word \<Rightarrow> Inr (le_bytes 8 word))"
  by (simp add: encodeInto_def kInstructionSize_def resize_def store_le_def split: sum.split)

lemma placed_opcode: "i_opcode (placed_machine instruction) = i_opcode (ii_machine instruction)"
  by (simp add: placed_machine_def)

lemma emitInstruction_eq:
  "emitInstruction index instruction (bytes, st) =
     (bytes @ instruction_bytes instruction,
      let st = (case ii_symbol instruction of None \<Rightarrow> st
          | Some r \<Rightarrow> emit_relocation index (length bytes)
              (relocationForInstruction (i_opcode (ii_machine instruction))) r (ii_location instruction) st)
      in case encode (placed_machine instruction) of
        Inl e \<Rightarrow> assembly_error (ii_location instruction) EC_InvalidOperand
          (''cannot encode '' @ opcodeName (i_opcode (ii_machine instruction)) @ '': '' @ encodeErrorName e) st
      | Inr _ \<Rightarrow> with_object (\<lambda>ob. ob\<lparr> ob_debug_info := ob_debug_info ob @
          section_debug index [It_Instruction instruction] bytes \<rparr>) st)"
proof -
  have r: "resize (length bytes + kInstructionSize) bytes = bytes @ replicate 8 0"
    by (simp add: resize_def kInstructionSize_def)
  show ?thesis
    unfolding emitInstruction_def prod.case Let_def placed_machine_def [symmetric] encode_field placed_opcode
    by (cases "encode (placed_machine instruction)") (simp_all add: r instruction_bytes_def splice_at_def)
qed

definition refs_done :: "string list \<Rightarrow> (string \<Rightarrow> Symbol) \<Rightarrow> SymbolRef list \<Rightarrow> Assembly \<Rightarrow> bool" where
  "refs_done ns g R st \<longleftrightarrow> table_is (ns @ map ref_name R) (refs_map g R) (table st)"

lemma emit_item_step:
  fixes index :: u32
  assumes t: "refs_done ns g R st"
    and c: "card (set ns \<union> ref_name ` set (R @ item_reference item)) < 2 ^ 32"
    and names: "names = ns @ map ref_name (R @ item_reference item) @ rest"
  obtains st' where "emit_item index item (bytes, st) = (append_item item bytes, st')"
    and "refs_done ns g (R @ item_reference item) st'"
    and "as_failed st' \<longleftrightarrow> as_failed st \<or> (\<exists>r \<in> set (item_reference item). unresolved g (ref_name r)) \<or> \<not> encodes item"
    and "ob_relocations (as_object st') = ob_relocations (as_object st) @
      section_relocations (name_index names) index [item] bytes"
    and "encodes item \<longrightarrow> ob_debug_info (as_object st') = ob_debug_info (as_object st) @ section_debug index [item] bytes"
    and "ob_sections (as_object st') = ob_sections (as_object st)" and "same_rest st st'"
proof -
  have reloc: "\<exists>s. s = emit_relocation index offset type r location st \<and>
      refs_done ns g (R @ [r]) s \<and> (as_failed s \<longleftrightarrow> as_failed st \<or> unresolved g (ref_name r)) \<and>
      ob_relocations (as_object s) = ob_relocations (as_object st) @
        [\<lparr> rel_section = index, rel_offset = of_nat offset, rel_type = type,
           rel_symbol = name_index names (ref_name r), rel_addend = ref_addend r \<rparr>] \<and>
      ob_sections (as_object s) = ob_sections (as_object st) \<and>
      ob_debug_info (as_object s) = ob_debug_info (as_object st) \<and> same_rest st s"
    if r: "item_reference item = [r]" for r offset type location
  proof -
    have "insert (ref_name r) (set (ns @ map ref_name R)) = set ns \<union> ref_name ` set (R @ item_reference item)"
      by (auto simp: r)
    then have c': "card (insert (ref_name r) (set (ns @ map ref_name R))) < 2 ^ 32" using c by simp
    have "name_index names (ref_name r) = name_index (ns @ map ref_name (R @ [r])) (ref_name r)"
      unfolding names r by (simp add: name_index_append [of _ "ns @ map ref_name (R @ [r])" rest, simplified])
    then show ?thesis
      using emit_relocation_step [OF t [unfolded refs_done_def] c'] by (simp add: refs_done_def)
  qed
  show thesis
  proof (cases item)
    case (It_Instruction instruction)
    define s where "s = (case ii_symbol instruction of None \<Rightarrow> st
      | Some r \<Rightarrow> emit_relocation index (length bytes)
          (relocationForInstruction (i_opcode (ii_machine instruction))) r (ii_location instruction) st)"
    have s: "refs_done ns g (R @ item_reference item) s \<and>
      (as_failed s \<longleftrightarrow> as_failed st \<or> (\<exists>r \<in> set (item_reference item). unresolved g (ref_name r))) \<and>
      ob_relocations (as_object s) = ob_relocations (as_object st) @
        section_relocations (name_index names) index [item] bytes \<and>
      ob_sections (as_object s) = ob_sections (as_object st) \<and>
      ob_debug_info (as_object s) = ob_debug_info (as_object st) \<and> same_rest st s"
    proof (cases "ii_symbol instruction")
      case None
      then show ?thesis using t by (simp add: s_def It_Instruction same_rest_def)
    next
      case (Some r)
      have "item_reference item = [r]" by (simp add: It_Instruction Some)
      from reloc [OF this] show ?thesis by (simp add: s_def It_Instruction Some)
    qed
    show ?thesis
    proof (cases "encode (placed_machine instruction)")
      case (Inl e)
      define st' where "st' = assembly_error (ii_location instruction) EC_InvalidOperand
        (''cannot encode '' @ opcodeName (i_opcode (ii_machine instruction)) @ '': '' @ encodeErrorName e) s"
      have "emit_item index item (bytes, st) = (append_item item bytes, st')"
        by (simp add: It_Instruction emitInstruction_eq s_def [symmetric] st'_def Inl)
      then show ?thesis
      proof (rule that)
        show "encodes item \<longrightarrow> ob_debug_info (as_object st') = ob_debug_info (as_object st) @ section_debug index [item] bytes"
          using Inl by (simp add: It_Instruction)
      qed (use s Inl in \<open>simp_all add: st'_def assembly_error_def refs_done_def same_rest_def, simp_all add: It_Instruction\<close>)
    next
      case (Inr w)
      define st' where "st' = with_object (\<lambda>ob. ob\<lparr> ob_debug_info := ob_debug_info ob @
          section_debug index [It_Instruction instruction] bytes \<rparr>) s"
      have e: "encodes item" by (simp add: It_Instruction Inr)
      have "emit_item index item (bytes, st) = (append_item item bytes, st')"
        by (simp add: It_Instruction emitInstruction_eq s_def [symmetric] st'_def Inr)
      then show ?thesis
        by (rule that) (use s e in \<open>simp_all add: st'_def with_object_def refs_done_def same_rest_def, simp_all add: It_Instruction\<close>)
    qed
  next
    case (It_SymbolValue width r location)
    define s where "s = emit_relocation index (length bytes) (if width = 4 then ABS32 else ABS64) r location st"
    have "emit_item index item (bytes, st) = (append_item item bytes, s)"
      by (simp add: It_SymbolValue emitSymbolValue_def s_def)
    moreover have "item_reference item = [r]" by (simp add: It_SymbolValue)
    ultimately show ?thesis
      using reloc [of r "length bytes" "if width = 4 then ABS32 else ABS64" location, folded s_def]
      by (rule_tac that [of s]) (simp_all add: It_SymbolValue)
  qed (use t in \<open>auto intro!: that simp: same_rest_def\<close>)
qed

text \<open>What emitting a list of items adds to a state.\<close>

definition emitted ::
  "string list \<Rightarrow> string list \<Rightarrow> (string \<Rightarrow> Symbol) \<Rightarrow> SymbolRef list \<Rightarrow> SymbolRef list \<Rightarrow> bool \<Rightarrow>
   Relocation list \<Rightarrow> ObjDebugEntry list \<Rightarrow> bool \<Rightarrow> Assembly \<Rightarrow> Assembly \<Rightarrow> bool" where
  "emitted names ns g R refs good relocations debug blank st st' \<longleftrightarrow>
     refs_done ns g (R @ refs) st' \<and>
     (as_failed st' \<longleftrightarrow> as_failed st \<or> (\<exists>r \<in> set refs. unresolved g (ref_name r)) \<or> \<not> good \<or> \<not> blank) \<and>
     ob_relocations (as_object st') = ob_relocations (as_object st) @ relocations \<and>
     (good \<longrightarrow> ob_debug_info (as_object st') = ob_debug_info (as_object st) @ debug) \<and> same_rest st st'"

lemma emitted_nothing: "refs_done ns g R st \<Longrightarrow> emitted names ns g R [] True [] [] True st st"
  by (simp add: emitted_def same_rest_def)

lemma emitted_then:
  assumes "emitted names ns g R refs good rels debug blank st st1"
    and "emitted names ns g (R @ refs) refs' good' rels' debug' blank' st1 st2"
  shows "emitted names ns g R (refs @ refs') (good \<and> good') (rels @ rels') (debug @ debug') (blank \<and> blank') st st2"
  using assms by (auto simp: emitted_def intro: same_rest_trans)

lemma emit_items_done:
  fixes index :: u32
  assumes "refs_done ns g R st"
    and "card (set ns \<union> ref_name ` set (R @ concat (map item_reference items))) < 2 ^ 32"
    and "names = ns @ map ref_name (R @ concat (map item_reference items)) @ rest"
  shows "\<exists>st'. fold (emit_item index) items (bytes, st) = (fold append_item items bytes, st') \<and>
    emitted names ns g R (concat (map item_reference items)) (\<forall>item \<in> set items. encodes item)
      (section_relocations (name_index names) index items bytes) (section_debug index items bytes) True st st' \<and>
    ob_sections (as_object st') = ob_sections (as_object st)"
  using assms
proof (induction items arbitrary: R st bytes)
  case Nil
  then show ?case using emitted_nothing [OF Nil(1)] by auto
next
  case (Cons item items)
  let ?refs = "concat (map item_reference items)"
  have "card (set ns \<union> ref_name ` set (R @ item_reference item)) \<le>
      card (set ns \<union> ref_name ` set (R @ concat (map item_reference (item # items))))"
    by (intro card_mono) auto
  then have c: "card (set ns \<union> ref_name ` set (R @ item_reference item)) < 2 ^ 32"
    using Cons.prems(2) by linarith
  have n: "names = ns @ map ref_name (R @ item_reference item) @ (map ref_name ?refs @ rest)"
    using Cons.prems(3) by simp
  obtain st1 where e: "emit_item index item (bytes, st) = (append_item item bytes, st1)"
    and em: "emitted names ns g R (item_reference item) (encodes item)
        (section_relocations (name_index names) index [item] bytes) (section_debug index [item] bytes) True st st1"
    and sec: "ob_sections (as_object st1) = ob_sections (as_object st)"
  proof (rule emit_item_step [OF Cons.prems(1) c n, where index = index and bytes = bytes])
    fix st' assume "emit_item index item (bytes, st) = (append_item item bytes, st')"
      "refs_done ns g (R @ item_reference item) st'"
      "as_failed st' \<longleftrightarrow> as_failed st \<or> (\<exists>r \<in> set (item_reference item). unresolved g (ref_name r)) \<or> \<not> encodes item"
      "ob_relocations (as_object st') = ob_relocations (as_object st) @
        section_relocations (name_index names) index [item] bytes"
      "encodes item \<longrightarrow> ob_debug_info (as_object st') = ob_debug_info (as_object st) @ section_debug index [item] bytes"
      "ob_sections (as_object st') = ob_sections (as_object st)" "same_rest st st'"
    then show thesis by (intro that [of st']) (simp_all only: emitted_def simp_thms)
  qed
  have r: "refs_done ns g (R @ item_reference item) st1" using em by (simp add: emitted_def)
  have c2: "card (set ns \<union> ref_name ` set ((R @ item_reference item) @ ?refs)) < 2 ^ 32"
    using Cons.prems(2) by simp
  have n2: "names = ns @ map ref_name ((R @ item_reference item) @ ?refs) @ rest" using Cons.prems(3) by simp
  from Cons.IH [OF r c2 n2, of "append_item item bytes"] obtain st2 where
    f: "fold (emit_item index) items (append_item item bytes, st1) = (fold append_item items (append_item item bytes), st2)"
    and em2: "emitted names ns g (R @ item_reference item) ?refs (\<forall>item \<in> set items. encodes item)
      (section_relocations (name_index names) index items (append_item item bytes))
      (section_debug index items (append_item item bytes)) True st1 st2"
    and sec2: "ob_sections (as_object st2) = ob_sections (as_object st1)" by blast
  from emitted_then [OF em em2] f e sec sec2 show ?case by auto
qed

definition bss_blank :: "Module \<Rightarrow> SectionKind \<Rightarrow> bool" where
  "bss_blank m kind \<longleftrightarrow> sectionHasData kind \<or> (\<forall>b \<in> set (items_bytes (items_of m kind)). b = 0)"

abbreviation kind_references :: "Module \<Rightarrow> SectionKind \<Rightarrow> SymbolRef list" where
  "kind_references m kind \<equiv> concat (map item_reference (items_of m kind))"

abbreviation kind_relocations :: "(string \<Rightarrow> u32) \<Rightarrow> Module \<Rightarrow> nat \<times> SectionKind \<Rightarrow> Relocation list" where
  "kind_relocations index_of m p \<equiv> (case p of (i, kind) \<Rightarrow> section_relocations index_of (of_nat i) (items_of m kind) [])"

abbreviation kind_debug :: "Module \<Rightarrow> nat \<times> SectionKind \<Rightarrow> ObjDebugEntry list" where
  "kind_debug m p \<equiv> (case p of (i, kind) \<Rightarrow> section_debug (of_nat i) (items_of m kind) [])"

lemma emit_section_done:
  assumes refs: "refs_done ns g R st" and kind: "kind \<in> set (module_kinds m)"
    and idx: "as_section_index st kind = Some (of_nat j)" and j: "j < 2 ^ 32" "j < length (ob_sections (as_object st))"
    and sec: "ob_sections (as_object st) ! j = laid_section m (j, kind)"
    and c: "card (set ns \<union> ref_name ` set (R @ kind_references m kind)) < 2 ^ 32"
    and names: "names = ns @ map ref_name (R @ kind_references m kind) @ rest"
  shows "emitted names ns g R (kind_references m kind) (\<forall>item \<in> set (items_of m kind). encodes item)
      (kind_relocations (name_index names) m (j, kind)) (kind_debug m (j, kind)) (bss_blank m kind)
      st (emit_section m kind st)"
    and "ob_sections (as_object (emit_section m kind st)) =
      (ob_sections (as_object st))[j := spec_section m (j, kind)]"
proof -
  obtain source where s: "findIrSection kind m = Some source" "is_items source = items_of m kind"
    using present_source [OF kind] by blast
  have u: "unat (of_nat j :: u32) = j" by (rule unat_of_nat_u32) (rule j(1))
  let ?bytes = "items_bytes (items_of m kind)"
  obtain st1 where f: "fold (emit_item (of_nat j)) (items_of m kind) ([], st) = (?bytes, st1)"
    and em: "emitted names ns g R (kind_references m kind) (\<forall>item \<in> set (items_of m kind). encodes item)
      (kind_relocations (name_index names) m (j, kind)) (kind_debug m (j, kind)) True st st1"
    and sec1: "ob_sections (as_object st1) = ob_sections (as_object st)"
    using emit_items_done [OF refs c names, of "of_nat j" "[]"] by (auto simp: items_bytes_def)
  define st2 where "st2 = (if bss_blank m kind then st1
    else assembly_error no_location EC_InternalError ''non-zero bytes were emitted into .bss'' st1)"
  have e: "emit_section m kind st = update_section (of_nat j)
      (\<lambda>s. s\<lparr> sec_data := (if sectionHasData kind then ?bytes else []) \<rparr>) st2"
    unfolding emit_section_def s(1) idx option.case prod.case u sec s(2) Let_def
    by (simp add: f laid_section_def collected_section_def st2_def bss_blank_def)
  have "emitted names ns g (R @ kind_references m kind) [] True [] [] (bss_blank m kind) st1 st2"
    using em by (simp add: emitted_def st2_def same_rest_def assembly_error_def refs_done_def)
  from emitted_then [OF em this]
  show "emitted names ns g R (kind_references m kind) (\<forall>item \<in> set (items_of m kind). encodes item)
      (kind_relocations (name_index names) m (j, kind)) (kind_debug m (j, kind)) (bss_blank m kind)
      st (emit_section m kind st)"
    unfolding e by (auto simp: emitted_def refs_done_def intro: same_rest_trans)
  show "ob_sections (as_object (emit_section m kind st)) =
      (ob_sections (as_object st))[j := spec_section m (j, kind)]"
    using sec sec1 by (simp add: e u st2_def assembly_error_def spec_section_def laid_section_def collected_section_def)
qed

lemma emit_kinds_done:
  assumes "refs_done ns g R st" and "set kinds \<subseteq> set (module_kinds m)" and "indexed j kinds st"
    and "ob_sections (as_object st) = pre @ map (laid_section m) (enumerate j kinds)" and "length pre = j"
    and "card (set ns \<union> ref_name ` set (R @ concat (map (kind_references m) kinds))) < 2 ^ 32"
    and "names = ns @ map ref_name (R @ concat (map (kind_references m) kinds)) @ rest"
  shows "emitted names ns g R (concat (map (kind_references m) kinds))
      (\<forall>kind \<in> set kinds. \<forall>item \<in> set (items_of m kind). encodes item)
      (concat (map (kind_relocations (name_index names) m) (enumerate j kinds)))
      (concat (map (kind_debug m) (enumerate j kinds))) (\<forall>kind \<in> set kinds. bss_blank m kind)
      st (fold (emit_section m) kinds st) \<and>
    ob_sections (as_object (fold (emit_section m) kinds st)) = pre @ map (spec_section m) (enumerate j kinds)"
  using assms
proof (induction kinds arbitrary: R st j pre)
  case Nil
  then show ?case by (simp add: emitted_nothing)
next
  case (Cons kind kinds)
  let ?K = "kind_references m kind" and ?refs = "concat (map (kind_references m) kinds)"
    and ?st = "emit_section m kind st"
  note ix = indexed_Cons [OF Cons.prems(3)]
  have "card (set ns \<union> ref_name ` set (R @ ?K)) \<le>
      card (set ns \<union> ref_name ` set (R @ concat (map (kind_references m) (kind # kinds))))"
    by (intro card_mono finite_UnI finite_imageI finite_set) auto
  then have c: "card (set ns \<union> ref_name ` set (R @ ?K)) < 2 ^ 32" using Cons.prems(6) by linarith
  have j: "j < length (ob_sections (as_object st))" "ob_sections (as_object st) ! j = laid_section m (j, kind)"
    using Cons.prems(4,5) by (simp_all add: nth_append)
  have k: "kind \<in> set (module_kinds m)" using Cons.prems(2) by simp
  have n: "names = ns @ map ref_name (R @ ?K) @ (map ref_name ?refs @ rest)" using Cons.prems(7) by simp
  have lt: "j < 2 ^ 32" using ix by simp
  note s = emit_section_done [OF Cons.prems(1) k conjunct1 [OF ix] lt j c n]
  have secs: "ob_sections (as_object ?st) = (pre @ [spec_section m (j, kind)]) @
      map (laid_section m) (enumerate (Suc j) kinds)"
    using s(2) Cons.prems(4,5) by (simp add: list_update_append)
  have c2: "card (set ns \<union> ref_name ` set ((R @ ?K) @ ?refs)) < 2 ^ 32"
    using Cons.prems(6) by (simp add: image_Un Un_assoc)
  have n2: "names = ns @ map ref_name ((R @ ?K) @ ?refs) @ rest" using Cons.prems(7) by simp
  have r: "refs_done ns g (R @ ?K) ?st" and sr: "same_rest st ?st" using s(1) by (simp_all add: emitted_def)
  have i: "indexed (Suc j) kinds ?st" using ix indexed_rest [OF sr] by simp
  have sub: "set kinds \<subseteq> set (module_kinds m)" using Cons.prems(2) by simp
  have l: "length (pre @ [spec_section m (j, kind)]) = Suc j" using Cons.prems(5) by simp
  note IH = Cons.IH [OF r sub i secs l c2 n2]
  from emitted_then [OF s(1) conjunct1 [OF IH]] conjunct2 [OF IH] show ?case by simp
qed

subsection \<open>The whole assembler\<close>

definition bound_map :: "Module \<Rightarrow> string \<Rightarrow> Symbol" where
  "bound_map m =
     (let g = set_bindings (\<lambda>n. n \<in> set (mo_weaks m)) Weak
                (set_bindings (\<lambda>n. n \<in> set (mo_globals m)) Global (labels_map (module_labels m)))
      in set_bindings (\<lambda>n. n \<in> set (mo_externs m) \<and> \<not> sy_defined (g n)) Extern g)"

lemma map_of_names: "map_of L n = None \<longleftrightarrow> n \<notin> fst ` set L"
  by (rule map_of_eq_None_iff)

lemma label_symbol_simps [simp]:
  "sy_name (label_symbol n p) = n" "sy_defined (label_symbol n p)" "sy_binding (label_symbol n p) = Local"
  by (simp_all add: label_symbol_def split: prod.split)

lemma blank_symbol_simps [simp]:
  "sy_name (blank_symbol n) = n" "\<not> sy_defined (blank_symbol n)" "sy_binding (blank_symbol n) = Local"
  by (simp_all add: blank_symbol_def)

lemma spec_symbol_refs:
  assumes "n \<in> set (module_names m)"
  shows "refs_map (bound_map m) (module_references m) n = spec_symbol m n"
proof (cases "map_of (module_labels m) n")
  case None
  then have "n \<notin> fst ` set (module_labels m)" by (simp only: map_of_names not_False_eq_True)
  with None show ?thesis
    by (auto simp: refs_map_def bound_map_def set_bindings_def labels_map_def spec_symbol_def Let_def)
next
  case (Some p)
  then show ?thesis
    by (auto simp: refs_map_def bound_map_def set_bindings_def labels_map_def spec_symbol_def Let_def)
qed

lemma labels_map_binding [simp]: "sy_binding (labels_map L n) = Local"
  by (simp add: labels_map_def split: option.split)

lemma unresolved_iff:
  "unresolved (bound_map m) n \<longleftrightarrow> is_local_name n \<and>
     n \<notin> fst ` set (module_labels m) \<union> set (mo_globals m) \<union> set (mo_weaks m) \<union> set (mo_externs m)"
  by (auto simp: unresolved_def bound_map_def set_bindings_def Let_def)

lemma bss_blank_iff:
  "(\<forall>kind \<in> set (module_kinds m). bss_blank m kind) \<longleftrightarrow> \<not> (\<exists>b \<in> set (items_bytes (items_of m Kind_Bss)). b \<noteq> 0)"
proof -
  have "items_of m Kind_Bss = [] \<Longrightarrow> items_bytes (items_of m Kind_Bss) = []" by (simp add: items_bytes_def)
  then show ?thesis
    by (auto simp: bss_blank_def sectionHasData_def module_kinds_def kSectionOrder_def)
qed

lemma run_assembly_spec:
  assumes "card (set (module_names m)) < 2 ^ 32"
  shows "as_failed (run_assembly m d) = assembly_fails m"
    and "\<not> assembly_fails m \<Longrightarrow> as_object (run_assembly m d) = spec_object m"
proof -
  define L where "L = module_labels m"
  let ?names = "module_names m" and ?ks = "module_kinds m" and ?refs = "module_references m"
  define s1 where "s1 = collectSections m (start_assembly d)"
  define s2 where "s2 = layoutAndDefineSymbols m s1"
  define sg where "sg = fold (bind_name Global) (mo_globals m) s2"
  define sw where "sw = fold (bind_name Weak) (mo_weaks m) sg"
  define s3 where "s3 = fold bind_extern (mo_externs m) sw"
  define s4 where "s4 = emit_sections m s3"
  have run: "run_assembly m d = s4"
    by (simp add: run_assembly_def s4_def s3_def sw_def sg_def s2_def s1_def applyBindings_def)
  have le: "card A < 2 ^ 32" if "A \<subseteq> set ?names" for A
    using card_mono [OF finite_set that] assms by linarith
  note s1 = collected [of m d, folded s1_def]
  have Lc: "L = concat (map (kind_labels m) (enumerate 0 ?ks))"
    by (simp add: L_def module_labels_def)
  have n: "?names = map fst L @ mo_globals m @ mo_weaks m @ mo_externs m @ map ref_name ?refs"
    by (simp add: module_names_def L_def)
  have c2: "card (fst ` set [] \<union> fst ` set (concat (map (kind_labels m) (enumerate 0 ?ks)))) < 2 ^ 32"
    unfolding Lc [symmetric] by (rule le) (auto simp: n)
  have s2: "labels_done L s2 \<and> ob_sections (as_object s2) = map (laid_section m) (enumerate 0 ?ks) \<and>
      same_rest s1 s2 \<and> ob_relocations (as_object s2) = [] \<and> ob_debug_info (as_object s2) = []"
    using layout_kinds_done [of "[]" s1 ?ks m 0 "[]", OF _ _ _ _ _ c2] s1
    by (simp add: s2_def layoutAndDefineSymbols_def Lc [symmetric])
  have tab2: "table_is (map fst L) (labels_map L) (table s2)" and f2: "as_failed s2 \<longleftrightarrow> \<not> distinct (map fst L)"
    using s2 by (simp_all add: labels_done_def)
  let ?gg = "set_bindings (\<lambda>n. n \<in> set (mo_globals m)) Global (labels_map L)"
  let ?gw = "set_bindings (\<lambda>n. n \<in> set (mo_weaks m)) Weak ?gg"
  have sg: "table_is (map fst L @ mo_globals m) ?gg (table sg) \<and> symbols_only s2 sg \<and> as_failed sg = as_failed s2"
    unfolding sg_def by (rule bind_names [OF tab2]) (rule le, auto simp: n)
  have sw: "table_is ((map fst L @ mo_globals m) @ mo_weaks m) ?gw (table sw) \<and> symbols_only sg sw \<and> as_failed sw = as_failed sg"
    unfolding sw_def by (rule bind_names [OF conjunct1 [OF sg]]) (rule le, auto simp: n)
  let ?ns = "map fst L @ mo_globals m @ mo_weaks m @ mo_externs m"
  have s3: "table_is ?ns (bound_map m) (table s3) \<and> symbols_only sw s3 \<and>
      (as_failed s3 \<longleftrightarrow> as_failed sw \<or> (\<exists>n \<in> set (mo_externs m). sy_defined (?gw n)))"
    using bind_externs [OF conjunct1 [OF sw], of "mo_externs m"] le [of "set ((map fst L @ mo_globals m) @ mo_weaks m) \<union> set (mo_externs m)"]
    by (auto simp: n s3_def bound_map_def L_def Let_def)
  have so: "symbols_only s2 s3" using sg sw s3 by (blast intro: symbols_only_trans)
  have rd: "refs_done ?ns (bound_map m) [] s3" using s3 by (simp add: refs_done_def)
  have rest: "same_rest s1 s3" using s2 so by (blast intro: same_rest_trans)
  have ix: "indexed 0 ?ks s3" using s1 indexed_rest [OF rest] by simp
  have ord: "as_ordered_kinds s3 = ?ks" using s1 rest by (simp add: same_rest_def)
  have sec3: "ob_sections (as_object s3) = [] @ map (laid_section m) (enumerate 0 ?ks)"
    "ob_relocations (as_object s3) = []" "ob_debug_info (as_object s3) = []"
    using so s2 by (simp_all add: frame_simps)
  have refs: "concat (map (kind_references m) ?ks) = ?refs" by (simp add: module_references_def)
  have c4: "card (set ?ns \<union> ref_name ` set ([] @ concat (map (kind_references m) ?ks))) < 2 ^ 32"
    unfolding refs by (rule le) (auto simp: n)
  have n4: "?names = ?ns @ map ref_name ([] @ concat (map (kind_references m) ?ks)) @ []"
    unfolding refs by (simp add: n)
  note em = emit_kinds_done [OF rd order_refl ix sec3(1) _ c4 n4, simplified append_Nil list.size(3) refs, OF refl]
  have s4: "s4 = fold (emit_section m) ?ks s3" by (simp add: s4_def emit_sections_def ord)
  have e: "emitted ?names ?ns (bound_map m) [] ?refs
      (\<forall>kind \<in> set ?ks. \<forall>item \<in> set (items_of m kind). encodes item)
      (concat (map (kind_relocations (name_index ?names) m) (enumerate 0 ?ks)))
      (concat (map (kind_debug m) (enumerate 0 ?ks))) (\<forall>kind \<in> set ?ks. bss_blank m kind) s3 s4"
    and sec4: "ob_sections (as_object s4) = map (spec_section m) (enumerate 0 ?ks)"
    using em unfolding s4 by simp_all
  have ext: "(\<exists>n \<in> set (mo_externs m). sy_defined (?gw n)) \<longleftrightarrow> (\<exists>n \<in> set (mo_externs m). n \<in> fst ` set L)"
    by simp
  show fails: "as_failed (run_assembly m d) = assembly_fails m"
    using e s3 sw sg f2 ext unfolding run emitted_def assembly_fails_def bss_blank_iff unresolved_iff L_def by blast
  assume "\<not> assembly_fails m"
  then have good: "\<forall>kind \<in> set ?ks. \<forall>item \<in> set (items_of m kind). encodes item"
    by (auto simp: assembly_fails_def)
  have "refs_done ?ns (bound_map m) ?refs s4" using e by (simp add: emitted_def)
  then have t: "table_is ?names (refs_map (bound_map m) ?refs) (table s4)" by (simp add: refs_done_def n)
  have "map (refs_map (bound_map m) ?refs) (firsts ?names) = map (spec_symbol m) (firsts ?names)"
    by (simp add: spec_symbol_refs)
  then have sym: "table s4 = ob_symbols (spec_object m)"
    using t table_is_index [OF t] by (simp add: spec_object_def Let_def table_is_def fun_eq_iff SymbolTable.equality)
  have "as_object s4 = spec_object m"
  proof (rule ObjectFile.equality)
    show "ob_sections (as_object s4) = ob_sections (spec_object m)" by (simp add: sec4 spec_object_def Let_def)
    show "ob_symbols (as_object s4) = ob_symbols (spec_object m)" by (rule sym)
    show "ob_relocations (as_object s4) = ob_relocations (spec_object m)"
      "ob_debug_info (as_object s4) = ob_debug_info (spec_object m)"
      using e good sec3 by (simp_all add: emitted_def spec_object_def Let_def)
    show "ob_version (as_object s4) = ob_version (spec_object m)"
      "ob_source_files (as_object s4) = ob_source_files (spec_object m)"
      using e rest s1 by (simp_all add: emitted_def same_rest_def spec_object_def Let_def)
  qed simp
  then show "as_object (run_assembly m d) = spec_object m" by (simp add: run)
qed

end
