(* ===== verification/Linker.thy ===== *)
theory Linker
  imports Relocating Executable Diagnostics
    "HOL-Library.List_Lexorder" "HOL-Library.Char_ord" "HOL-Library.Product_Lexorder"
begin

text \<open>
  include/minitool/linker/linker.hpp and src/linker/linker.cpp: merging sections into regions,
  resolving symbols, applying relocations and building the image.  Every stage takes the part of
  the link context it reads and returns the part it changes, or the error that ends the link.  An
  error value carries the arguments of its message; \<open>link_error_code\<close> is the code it is reported
  under.  \<open>std::map\<close> is an association list kept in ascending order of its keys.
  \<open>std::ranges::sort\<close> leaves the order of equivalent elements open; \<open>sort_key\<close> is the stable
  choice.
\<close>

definition kTextBase :: u64 where "kTextBase = 0x00010000"
definition kRodataBase :: u64 where "kRodataBase = 0x00100000"
definition kDataBase :: u64 where "kDataBase = 0x00200000"
definition kBssBase :: u64 where "kBssBase = 0x00300000"
definition kRegionSize :: u64 where "kRegionSize = 0x000F0000"

lemmas link_layout = kTextBase_def kRodataBase_def kDataBase_def kBssBase_def kRegionSize_def

record LinkOptions =
  lo_entry :: string
  lo_text_base :: u64
  lo_rodata_base :: u64
  lo_data_base :: u64
  lo_bss_base :: u64
  lo_keep_local_symbols :: bool

definition default_options :: LinkOptions where
  "default_options = \<lparr> lo_entry = ''_start'', lo_text_base = kTextBase, lo_rodata_base = kRodataBase,
     lo_data_base = kDataBase, lo_bss_base = kBssBase, lo_keep_local_symbols = True \<rparr>"

datatype LinkError =
    NoObjects
  | NoOutputRegion string
  | RegionOverflow string
  | SymbolSectionMissing string u32 nat
  | SymbolNotPlaced string
  | DefinedTwice string
  | Undefined string string
  | RelocationDangling
  | RelocationNotPlaced
  | RelocationInZeroFilled string
  | UndefinedTarget string
  | RelocationFailed RelocationType string string u64 RelocationError
  | NoEntryPoint string
  | ImageInvalid ExecutableError

fun link_error_code :: "LinkError \<Rightarrow> ErrorCode" where
  "link_error_code NoObjects = EC_InvalidObject"
| "link_error_code (NoOutputRegion _) = EC_InvalidSectionReference"
| "link_error_code (RegionOverflow _) = EC_RelocationOverflow"
| "link_error_code (SymbolSectionMissing _ _ _) = EC_InvalidSectionReference"
| "link_error_code (SymbolNotPlaced _) = EC_InvalidSectionReference"
| "link_error_code (DefinedTwice _) = EC_DuplicateSymbol"
| "link_error_code (Undefined _ _) = EC_UndefinedSymbol"
| "link_error_code RelocationDangling = EC_InvalidRelocation"
| "link_error_code RelocationNotPlaced = EC_InvalidRelocation"
| "link_error_code (RelocationInZeroFilled _) = EC_InvalidRelocation"
| "link_error_code (UndefinedTarget _) = EC_UndefinedSymbol"
| "link_error_code (RelocationFailed _ _ _ _ e) =
     (if e = Overflow then EC_RelocationOverflow else EC_InvalidRelocation)"
| "link_error_code (NoEntryPoint _) = EC_UndefinedSymbol"
| "link_error_code (ImageInvalid _) = EC_InvalidExecutable"

record LinkRegion =
  lr_type :: SectionType
  lr_segment :: SegmentType
  lr_flags :: SegmentFlags
  lr_name :: string
  lr_base :: u64
  lr_size :: u64
  lr_data :: "u8 list"
  lr_zero_filled :: bool

text \<open>A placement is \<open>None\<close> while \<open>placed\<close> is false, else the region and the offset.\<close>

type_synonym Placement = "(nat \<times> u64) option"

record Definition =
  df_address :: u64
  df_size :: u64
  df_binding :: SymbolBinding
  df_type :: SymbolType
  df_object :: nat

definition initRegions :: "LinkOptions \<Rightarrow> LinkRegion list" where
  "initRegions options =
     [\<lparr> lr_type = Sec_Text, lr_segment = Seg_Text, lr_flags = SF_Read OR SF_Exec, lr_name = ''.text'',
        lr_base = lo_text_base options, lr_size = 0, lr_data = [], lr_zero_filled = False \<rparr>,
      \<lparr> lr_type = Sec_Rodata, lr_segment = Seg_Rodata, lr_flags = SF_Read, lr_name = ''.rodata'',
        lr_base = lo_rodata_base options, lr_size = 0, lr_data = [], lr_zero_filled = False \<rparr>,
      \<lparr> lr_type = Sec_Data, lr_segment = Seg_Data, lr_flags = SF_Read OR SF_Write, lr_name = ''.data'',
        lr_base = lo_data_base options, lr_size = 0, lr_data = [], lr_zero_filled = False \<rparr>,
      \<lparr> lr_type = Sec_Bss, lr_segment = Seg_Bss, lr_flags = SF_Read OR SF_Write, lr_name = ''.bss'',
        lr_base = lo_bss_base options, lr_size = 0, lr_data = [], lr_zero_filled = True \<rparr>]"

fun regionIndexFor :: "LinkRegion list \<Rightarrow> SectionType \<Rightarrow> nat" where
  "regionIndexFor [] type = 0"
| "regionIndexFor (r # rs) type = (if lr_type r = type then 0 else Suc (regionIndexFor rs type))"

subsection \<open>Stage 1: merging sections\<close>

definition place_section ::
  "Section \<Rightarrow> LinkRegion list \<Rightarrow> (LinkError, LinkRegion list \<times> Placement) expected" where
  "place_section section rgs =
     (if sec_type section = Sec_Null then Inr (rgs, None)
      else
        let i = regionIndexFor rgs (sec_type section) in
        if i = length rgs then Inl (NoOutputRegion (sec_name section))
        else
          let region = rgs ! i; off = alignUp (lr_size region) (sec_alignment section) in
          if off > kRegionSize \<or> sec_size section > kRegionSize - off
          then Inl (RegionOverflow (lr_name region))
          else
            let data = (if lr_zero_filled region then lr_data region
                        else resize (unat (off + sec_size section))
                               (resize (unat off) (lr_data region) @ sec_data section))
            in Inr (rgs[i := region\<lparr> lr_size := off + sec_size section, lr_data := data \<rparr>],
                    Some (i, off)))"

fun place_sections ::
  "Section list \<Rightarrow> LinkRegion list \<Rightarrow> (LinkError, LinkRegion list \<times> Placement list) expected" where
  "place_sections [] rgs = Inr (rgs, [])"
| "place_sections (section # rest) rgs =
     and_then (place_section section rgs) (\<lambda>(rgs, placement).
     and_then (place_sections rest rgs) (\<lambda>(rgs, placements).
     Inr (rgs, placement # placements)))"

fun mergeSections ::
  "ObjectFile list \<Rightarrow> LinkRegion list \<Rightarrow> (LinkError, LinkRegion list \<times> Placement list list) expected"
where
  "mergeSections [] rgs = Inr (rgs, [])"
| "mergeSections (ob # rest) rgs =
     and_then (place_sections (ob_sections ob) rgs) (\<lambda>(rgs, placement).
     and_then (mergeSections rest rgs) (\<lambda>(rgs, placements).
     Inr (rgs, placement # placements)))"

subsection \<open>Stage 2: resolving symbols\<close>

definition addressOf ::
  "LinkRegion list \<Rightarrow> ObjectFile \<Rightarrow> Placement list \<Rightarrow> Symbol \<Rightarrow> (LinkError, u64) expected" where
  "addressOf rgs ob placements symbol =
     (if unat (sy_section symbol) \<ge> length (ob_sections ob)
      then Inl (SymbolSectionMissing (sy_name symbol) (sy_section symbol) (length (ob_sections ob)))
      else case placements ! unat (sy_section symbol) of
             None \<Rightarrow> Inl (SymbolNotPlaced (sy_name symbol))
           | Some (i, off) \<Rightarrow> Inr (lr_base (rgs ! i) + off + sy_value symbol))"

type_synonym Definitions = "(string \<times> Definition) list"

fun map_put :: "string \<Rightarrow> 'v \<Rightarrow> (string \<times> 'v) list \<Rightarrow> (string \<times> 'v) list" where
  "map_put k v [] = [(k, v)]"
| "map_put k v (e # es) =
     (if k < fst e then (k, v) # e # es
      else if k = fst e then (k, v) # es
      else e # map_put k v es)"

definition define_symbol ::
  "LinkRegion list \<Rightarrow> nat \<Rightarrow> ObjectFile \<Rightarrow> Placement list \<Rightarrow> Symbol \<Rightarrow>
    Definitions \<times> Definitions \<Rightarrow> (LinkError, Definitions \<times> Definitions) expected" where
  "define_symbol rgs object_index ob placements symbol ctx =
     (if \<not> sy_defined symbol then Inr ctx
      else and_then (addressOf rgs ob placements symbol) (\<lambda>address.
        let (defs, locals) = ctx;
            d = \<lparr> df_address = address, df_size = sy_size symbol, df_binding = sy_binding symbol,
                  df_type = sy_type symbol, df_object = object_index \<rparr>
        in if sy_binding symbol = Local then Inr (defs, locals @ [(sy_name symbol, d)])
           else case map_of defs (sy_name symbol) of
                  Some existing \<Rightarrow>
                    if df_binding existing = Global \<and> sy_binding symbol = Global
                    then Inl (DefinedTwice (sy_name symbol))
                    else if df_binding existing = Weak \<and> sy_binding symbol = Global
                    then Inr (map_put (sy_name symbol) d defs, locals)
                    else Inr (defs, locals)
                | None \<Rightarrow> Inr (map_put (sy_name symbol) d defs, locals)))"

fun fold_expected :: "('a \<Rightarrow> 's \<Rightarrow> ('e, 's) expected) \<Rightarrow> 'a list \<Rightarrow> 's \<Rightarrow> ('e, 's) expected" where
  "fold_expected f [] s = Inr s"
| "fold_expected f (x # xs) s = and_then (f x s) (fold_expected f xs)"

text \<open>The objects with their index and their placements.\<close>

type_synonym Input = "nat \<times> ObjectFile \<times> Placement list"

definition link_inputs :: "ObjectFile list \<Rightarrow> Placement list list \<Rightarrow> Input list" where
  "link_inputs objects placements = zip [0..<length objects] (zip objects placements)"

definition define_object ::
  "LinkRegion list \<Rightarrow> Input \<Rightarrow> Definitions \<times> Definitions \<Rightarrow>
    (LinkError, Definitions \<times> Definitions) expected" where
  "define_object rgs inp ctx =
     (case inp of (object_index, ob, placements) \<Rightarrow>
        fold_expected (define_symbol rgs object_index ob placements)
          (st_symbols (ob_symbols ob)) ctx)"

definition sourceNameOf :: "nat \<Rightarrow> ObjectFile \<Rightarrow> string" where
  "sourceNameOf object_index ob =
     (case ob_source_files ob of [] \<Rightarrow> ''object #'' @ nat_str object_index | file # _ \<Rightarrow> file)"

definition require_symbol ::
  "nat \<Rightarrow> ObjectFile \<Rightarrow> Symbol \<Rightarrow> Definitions \<Rightarrow> (LinkError, Definitions) expected" where
  "require_symbol object_index ob symbol defs =
     (if sy_defined symbol \<or> map_of defs (sy_name symbol) \<noteq> None then Inr defs
      else if sy_binding symbol = Weak
      then Inr (map_put (sy_name symbol)
             \<lparr> df_address = 0, df_size = 0, df_binding = Weak, df_type = sy_type symbol,
               df_object = object_index \<rparr> defs)
      else Inl (Undefined (sy_name symbol) (sourceNameOf object_index ob)))"

definition require_object :: "Input \<Rightarrow> Definitions \<Rightarrow> (LinkError, Definitions) expected" where
  "require_object inp defs =
     (case inp of (object_index, ob, placements) \<Rightarrow>
        fold_expected (require_symbol object_index ob) (st_symbols (ob_symbols ob)) defs)"

definition resolveSymbols ::
  "LinkRegion list \<Rightarrow> Input list \<Rightarrow> (LinkError, Definitions \<times> Definitions) expected" where
  "resolveSymbols rgs inputs =
     and_then (fold_expected (define_object rgs) inputs ([], [])) (\<lambda>(defs, locals).
     and_then (fold_expected require_object inputs defs) (\<lambda>defs.
     Inr (defs, locals)))"

subsection \<open>Stage 3: relocations\<close>

definition symbol_address ::
  "LinkRegion list \<Rightarrow> ObjectFile \<Rightarrow> Placement list \<Rightarrow> Definitions \<Rightarrow> Symbol \<Rightarrow> (LinkError, u64) expected"
where
  "symbol_address rgs ob placements defs symbol =
     (if sy_defined symbol \<and> sy_binding symbol = Local then addressOf rgs ob placements symbol
      else case map_of defs (sy_name symbol) of
             None \<Rightarrow> Inl (UndefinedTarget (sy_name symbol))
           | Some d \<Rightarrow> Inr (df_address d))"

definition relocate ::
  "ObjectFile \<Rightarrow> Placement list \<Rightarrow> Definitions \<Rightarrow> Relocation \<Rightarrow> LinkRegion list \<Rightarrow>
    (LinkError, LinkRegion list) expected" where
  "relocate ob placements defs relocation rgs =
     (if unat (rel_section relocation) \<ge> length (ob_sections ob) \<or>
         unat (rel_symbol relocation) \<ge> length (st_symbols (ob_symbols ob))
      then Inl RelocationDangling
      else case placements ! unat (rel_section relocation) of
        None \<Rightarrow> Inl RelocationNotPlaced
      | Some (i, off) \<Rightarrow>
          let region = rgs ! i in
          if lr_zero_filled region then Inl (RelocationInZeroFilled (lr_name region))
          else
            let symbol = st_symbols (ob_symbols ob) ! unat (rel_symbol relocation) in
            and_then (symbol_address rgs ob placements defs symbol) (\<lambda>address.
              let merged = relocation\<lparr> rel_offset := off + rel_offset relocation \<rparr> in
              case applyRelocation (lr_data region) (lr_base region) merged address of
                (Inl e, _) \<Rightarrow>
                  Inl (RelocationFailed (rel_type relocation) (sy_name symbol) (lr_name region)
                         (rel_offset merged) e)
              | (Inr _, data) \<Rightarrow> Inr (rgs[i := region\<lparr> lr_data := data \<rparr>])))"

definition relocate_object ::
  "Definitions \<Rightarrow> Input \<Rightarrow> LinkRegion list \<Rightarrow> (LinkError, LinkRegion list) expected" where
  "relocate_object defs inp rgs =
     (case inp of (object_index, ob, placements) \<Rightarrow>
        fold_expected (relocate ob placements defs) (ob_relocations ob) rgs)"

definition applyRelocations ::
  "Definitions \<Rightarrow> Input list \<Rightarrow> LinkRegion list \<Rightarrow> (LinkError, LinkRegion list) expected" where
  "applyRelocations defs inputs rgs = fold_expected (relocate_object defs) inputs rgs"

subsection \<open>Stage 4: the image\<close>

definition symbolKind :: "SymbolType \<Rightarrow> SymbolKind" where
  "symbolKind type =
     (case type of Sym_Function \<Rightarrow> SK_Function | Sym_Object \<Rightarrow> SK_Object | _ \<Rightarrow> SK_None)"

definition region_segment :: "LinkRegion \<Rightarrow> Segment" where
  "region_segment region =
     \<lparr> sg_type = lr_segment region, sg_flags = lr_flags region, sg_name = lr_name region,
       sg_virtual_address = lr_base region, sg_virtual_size = lr_size region,
       sg_data = (if lr_zero_filled region then [] else lr_data region) \<rparr>"

definition symbol_entry :: "string \<times> Definition \<Rightarrow> SymbolEntry" where
  "symbol_entry d =
     \<lparr> se_name = fst d, se_address = df_address (snd d), se_size = df_size (snd d),
       se_kind = symbolKind (df_type (snd d)) \<rparr>"

definition image_symbols :: "bool \<Rightarrow> Definitions \<Rightarrow> Definitions \<Rightarrow> SymbolEntry list" where
  "image_symbols keep_local defs locals =
     sort_key (\<lambda>s. (se_address s, se_name s))
       (map symbol_entry defs @
        (if keep_local then map symbol_entry (filter (\<lambda>d. map_of defs (fst d) = None) locals)
         else []))"

definition add_line_record ::
  "LinkRegion list \<Rightarrow> ObjectFile \<Rightarrow> Placement list \<Rightarrow> ObjDebugEntry \<Rightarrow>
    (string \<Rightarrow> u32 option) \<times> string list \<times> DebugEntry list \<Rightarrow>
    (string \<Rightarrow> u32 option) \<times> string list \<times> DebugEntry list" where
  "add_line_record rgs ob placements entry st =
     (case st of (file_index, files, entries) \<Rightarrow>
        if unat (od_section entry) \<ge> length (ob_sections ob) \<or>
           unat (od_file entry) \<ge> length (ob_source_files ob)
        then st
        else case placements ! unat (od_section entry) of
          None \<Rightarrow> st
        | Some (i, off) \<Rightarrow>
            let file = ob_source_files ob ! unat (od_file entry);
                (index, file_index, files) =
                  (case file_index file of
                     None \<Rightarrow> (of_nat (length files), file_index(file \<mapsto> of_nat (length files)), files @ [file])
                   | Some known \<Rightarrow> (known, file_index, files));
                address = lr_base (rgs ! i) + off + od_offset entry
            in (file_index, files,
                entries @ [\<lparr> de_address = address, de_file = index, de_line = od_line entry,
                             de_column = od_column entry \<rparr>]))"

definition buildDebugInfo :: "LinkRegion list \<Rightarrow> Input list \<Rightarrow> string list \<times> DebugEntry list" where
  "buildDebugInfo rgs inputs =
     (case fold (\<lambda>(object_index, ob, placements).
                   fold (add_line_record rgs ob placements) (ob_debug_info ob))
            inputs (\<lambda>_. None, [], []) of
        (_, files, entries) \<Rightarrow> (files, sort_key de_address entries))"

definition buildExecutable ::
  "LinkOptions \<Rightarrow> LinkRegion list \<Rightarrow> Input list \<Rightarrow> Definitions \<Rightarrow> Definitions \<Rightarrow>
    (LinkError, Executable) expected" where
  "buildExecutable options rgs inputs defs locals =
     (case map_of defs (lo_entry options) of
        None \<Rightarrow> Inl (NoEntryPoint (lo_entry options))
      | Some entry \<Rightarrow>
          let (files, lines) = buildDebugInfo rgs inputs;
              executable = \<lparr> ex_version = kExeVersion, ex_entry_point = df_address entry,
                ex_segments = map region_segment (filter (\<lambda>region. lr_size region \<noteq> 0) rgs),
                ex_symbols = image_symbols (lo_keep_local_symbols options) defs locals,
                ex_debug_info = lines, ex_source_files = files \<rparr>
          in case validate executable of
               Inl e \<Rightarrow> Inl (ImageInvalid e)
             | Inr _ \<Rightarrow> Inr executable)"

definition link :: "LinkOptions \<Rightarrow> ObjectFile list \<Rightarrow> (LinkError, Executable) expected" where
  "link options objects =
     (if objects = [] then Inl NoObjects
      else
        and_then (mergeSections objects (initRegions options)) (\<lambda>(rgs, placements).
        let inputs = link_inputs objects placements in
        and_then (resolveSymbols rgs inputs) (\<lambda>(defs, locals).
        and_then (applyRelocations defs inputs rgs) (\<lambda>rgs.
        buildExecutable options rgs inputs defs locals))))"

end
