(* ===== verification/Linker_Safety.thy ===== *)
theory Linker_Safety
  imports Linker Object_Codec Machine_Safety
begin

text \<open>
  The linker's guarantees: merging keeps every section's bytes and alignment and never lets two
  sections overlap; symbol resolution picks the strong definition; relocating changes nothing but
  the relocated fields; and an image linked at the default addresses is one the machine loads.
\<close>

subsection \<open>Placing one section\<close>

definition lregion_ok :: "LinkRegion \<Rightarrow> bool" where
  "lregion_ok r \<longleftrightarrow> unat (lr_size r) \<le> 0xF0000 \<and>
     (if lr_zero_filled r then lr_data r = [] else length (lr_data r) = unat (lr_size r))"

text \<open>A region only ever grows at its end.\<close>

definition grows :: "LinkRegion \<Rightarrow> LinkRegion \<Rightarrow> bool" where
  "grows r r' \<longleftrightarrow>
     lr_type r' = lr_type r \<and> lr_segment r' = lr_segment r \<and> lr_flags r' = lr_flags r \<and>
     lr_name r' = lr_name r \<and> lr_base r' = lr_base r \<and> lr_zero_filled r' = lr_zero_filled r \<and>
     unat (lr_size r) \<le> unat (lr_size r') \<and> (\<exists>suffix. lr_data r' = lr_data r @ suffix)"

lemma grows_refl [simp]: "grows r r" by (simp add: grows_def)

lemma grows_trans: "grows a b \<Longrightarrow> grows b c \<Longrightarrow> grows a c"
  by (auto simp: grows_def)

lemma list_grows_trans: "list_all2 grows as bs \<Longrightarrow> list_all2 grows bs cs \<Longrightarrow> list_all2 grows as cs"
  by (rule list_all2_trans [of grows grows grows]) (auto intro: grows_trans)

text \<open>Where a section stands in the merged regions.\<close>

definition placed_at :: "LinkRegion list \<Rightarrow> Section \<Rightarrow> nat \<Rightarrow> u64 \<Rightarrow> bool" where
  "placed_at rgs s i off \<longleftrightarrow>
     i < length rgs \<and> lr_type (rgs ! i) = sec_type s \<and> unat (sec_alignment s) dvd unat off \<and>
     unat off + unat (sec_size s) \<le> unat (lr_size (rgs ! i)) \<and>
     (\<not> lr_zero_filled (rgs ! i) \<longrightarrow>
        take (unat (sec_size s)) (drop (unat off) (lr_data (rgs ! i))) =
          sec_data s @ replicate (unat (sec_size s) - length (sec_data s)) 0)"

lemma regionIndexFor_lt:
  "regionIndexFor rgs t < length rgs \<Longrightarrow> lr_type (rgs ! regionIndexFor rgs t) = t"
  by (induction rgs) auto

lemma regionIndexFor_le: "regionIndexFor rgs t \<le> length rgs"
  by (induction rgs) auto

lemma place_section_ok:
  assumes "place_section s rgs = Inr (rgs', p)" and "section_shape s" and "list_all lregion_ok rgs"
  shows "list_all lregion_ok rgs'" and "list_all2 grows rgs rgs'"
    and "p = None \<longleftrightarrow> sec_type s = Sec_Null"
    and "p = Some (i, off) \<Longrightarrow> i < length rgs \<and> unat (lr_size (rgs ! i)) \<le> unat off \<and> placed_at rgs' s i off"
proof -
  have "list_all lregion_ok rgs' \<and> list_all2 grows rgs rgs' \<and> (p = None \<longleftrightarrow> sec_type s = Sec_Null) \<and>
    (p = Some (i, off) \<longrightarrow> i < length rgs \<and> unat (lr_size (rgs ! i)) \<le> unat off \<and> placed_at rgs' s i off)"
  proof (cases "sec_type s = Sec_Null")
    case True
    then show ?thesis
      using assms(1,3) by (auto simp: place_section_def intro: list_all2_refl)
  next
    case False
    let ?k = "regionIndexFor rgs (sec_type s)"
    let ?r = "rgs ! ?k" let ?o = "alignUp (lr_size ?r) (sec_alignment s)"
    let ?d = "if lr_zero_filled ?r then lr_data ?r
              else resize (unat (?o + sec_size s)) (resize (unat ?o) (lr_data ?r) @ sec_data s)"
    let ?r' = "?r\<lparr> lr_size := ?o + sec_size s, lr_data := ?d \<rparr>"
    from assms(1) False have k: "?k < length rgs" and o: "?o \<le> kRegionSize"
      and fit: "sec_size s \<le> kRegionSize - ?o" and rgs': "rgs' = rgs[?k := ?r']" and p: "p = Some (?k, ?o)"
      using regionIndexFor_le [of rgs "sec_type s"]
      by (auto simp: place_section_def Let_def not_less split: if_splits)
    have ok: "lregion_ok ?r" using assms(3) k by (simp add: list_all_length)
    have al: "unat (lr_size ?r) \<le> unat ?o \<and> unat (sec_alignment s) dvd unat ?o"
    proof -
      have "unat (sec_alignment s) \<le> 2 ^ 63" "0 < unat (sec_alignment s)"
        using assms(2) power_of_two_bound by (auto simp: section_shape_def unat_eq_0 simp flip: neq0_conv)
      moreover have "unat (lr_size ?r) < 2 ^ 63" using ok by (simp add: lregion_ok_def)
      ultimately show ?thesis using alignUp_nat by blast
    qed
    have cap: "unat ?o \<le> 0xF0000" using o by (simp add: word_le_nat_alt kRegionSize_def)
    have sum: "unat ?o + unat (sec_size s) \<le> 0xF0000"
    proof -
      have "unat (kRegionSize - ?o) = 0xF0000 - unat ?o"
        using o by (subst unat_sub_le) (simp_all add: kRegionSize_def)
      with fit cap show ?thesis by (simp add: word_le_nat_alt)
    qed
    then have sz: "unat (?o + sec_size s) = unat ?o + unat (sec_size s)"
      by (intro unat_add_no_wrap) simp
    have dl: "length (sec_data s) \<le> unat (sec_size s)" using assms(2) by (simp add: section_shape_def)
    have data: "?d = lr_data ?r @ replicate (unat ?o - unat (lr_size ?r)) 0 @ sec_data s @
        replicate (unat (sec_size s) - length (sec_data s)) 0" if "\<not> lr_zero_filled ?r"
    proof -
      have len: "length (lr_data ?r) = unat (lr_size ?r)" using ok that by (simp add: lregion_ok_def)
      have "resize (unat ?o) (lr_data ?r) = lr_data ?r @ replicate (unat ?o - unat (lr_size ?r)) 0"
        using al len by (simp add: resize_grow)
      with that dl al len show ?thesis by (simp add: sz resize_grow)
    qed
    have ok': "lregion_ok ?r'"
    proof (cases "lr_zero_filled ?r")
      case True
      then show ?thesis using ok sum by (simp add: lregion_ok_def sz)
    next
      case z: False
      have "length ?d = unat ?o + unat (sec_size s)"
        unfolding data [OF z] using ok z al dl by (simp add: lregion_ok_def)
      with z sum show ?thesis by (simp add: lregion_ok_def sz)
    qed
    have gr: "grows ?r ?r'"
      using data al sz by (cases "lr_zero_filled ?r") (auto simp: grows_def)
    have pl: "placed_at rgs' s ?k ?o"
    proof -
      have "take (unat (sec_size s)) (drop (unat ?o) ?d) =
          sec_data s @ replicate (unat (sec_size s) - length (sec_data s)) 0" if z: "\<not> lr_zero_filled ?r"
      proof -
        have "length (lr_data ?r @ replicate (unat ?o - unat (lr_size ?r)) 0) = unat ?o"
          using ok z al by (simp add: lregion_ok_def)
        then show ?thesis unfolding data [OF z] append_assoc [symmetric]
          using dl by (metis (no_types, lifting) append_assoc append_eq_conv_conj length_append
              length_replicate le_add_diff_inverse take_all order_refl)
      qed
      with k al sz regionIndexFor_lt [OF k] show ?thesis
        by (auto simp: placed_at_def rgs')
    qed
    have "list_all lregion_ok rgs'"
      using assms(3) ok' k by (auto simp: rgs' list_all_length nth_list_update)
    moreover have "list_all2 grows rgs rgs'"
      using gr k by (auto simp: rgs' list_all2_conv_all_nth nth_list_update)
    ultimately show ?thesis using pl k al p False by auto
  qed
  then show "list_all lregion_ok rgs'" and "list_all2 grows rgs rgs'"
    and "p = None \<longleftrightarrow> sec_type s = Sec_Null"
    and "p = Some (i, off) \<Longrightarrow> i < length rgs \<and> unat (lr_size (rgs ! i)) \<le> unat off \<and> placed_at rgs' s i off"
    by blast+
qed

lemma placed_at_grows:
  assumes "placed_at rgs s i off" and "list_all2 grows rgs rgs'" and "list_all lregion_ok rgs"
  shows "placed_at rgs' s i off"
proof -
  have i: "i < length rgs" using assms(1) by (simp add: placed_at_def)
  then have g: "grows (rgs ! i) (rgs' ! i)" "i < length rgs'"
    using assms(2) by (auto simp: list_all2_conv_all_nth)
  have ok: "lregion_ok (rgs ! i)" using assms(3) i by (simp add: list_all_length)
  obtain suffix where "lr_data (rgs' ! i) = lr_data (rgs ! i) @ suffix" using g by (auto simp: grows_def)
  with assms(1) g ok show ?thesis
    by (auto simp: placed_at_def grows_def lregion_ok_def)
qed

subsection \<open>Merging\<close>

definition placement_ok :: "LinkRegion list \<Rightarrow> Section \<Rightarrow> Placement \<Rightarrow> bool" where
  "placement_ok rgs s p \<longleftrightarrow>
     (case p of None \<Rightarrow> sec_type s = Sec_Null
      | Some (i, off) \<Rightarrow> sec_type s \<noteq> Sec_Null \<and> placed_at rgs s i off)"

text \<open>Of two sections in one region the later one starts at or after the end of the earlier one.\<close>

fun in_order :: "Section \<times> Placement \<Rightarrow> Section \<times> Placement \<Rightarrow> bool" where
  "in_order (s, Some (i, off)) (s', Some (j, off')) \<longleftrightarrow>
     (i = j \<longrightarrow> unat off + unat (sec_size s) \<le> unat off')"
| "in_order _ _ \<longleftrightarrow> True"

definition laid_out :: "LinkRegion list \<Rightarrow> Section list \<Rightarrow> Placement list \<Rightarrow> bool" where
  "laid_out rgs ss ps \<longleftrightarrow> list_all2 (placement_ok rgs) ss ps \<and> sorted_wrt in_order (zip ss ps)"

lemma placement_ok_grows:
  "placement_ok rgs s p \<Longrightarrow> list_all2 grows rgs rgs' \<Longrightarrow> list_all lregion_ok rgs \<Longrightarrow> placement_ok rgs' s p"
  by (auto simp: placement_ok_def intro: placed_at_grows split: option.splits)

lemma place_section_placement:
  assumes "place_section s rgs = Inr (rgs', p)" and "section_shape s" and "list_all lregion_ok rgs"
  shows "placement_ok rgs' s p"
  using place_section_ok(3)[OF assms] place_section_ok(4)[OF assms]
  by (auto simp: placement_ok_def split: option.splits)

text \<open>Every section placed from a state on starts at or after the sizes of that state.\<close>

definition beyond :: "LinkRegion list \<Rightarrow> Placement \<Rightarrow> bool" where
  "beyond rgs p \<longleftrightarrow> (case p of None \<Rightarrow> True | Some (i, off) \<Rightarrow> i < length rgs \<and> unat (lr_size (rgs ! i)) \<le> unat off)"

lemma beyond_grows: "beyond rgs' p \<Longrightarrow> list_all2 grows rgs rgs' \<Longrightarrow> beyond rgs p"
  by (fastforce simp: beyond_def grows_def list_all2_conv_all_nth split: option.splits)

lemma place_sections_ok:
  "place_sections ss rgs = Inr (rgs', ps) \<Longrightarrow> list_all section_shape ss \<Longrightarrow> list_all lregion_ok rgs \<Longrightarrow>
   list_all lregion_ok rgs' \<and> list_all2 grows rgs rgs' \<and> laid_out rgs' ss ps \<and> list_all (beyond rgs) ps"
proof (induction ss arbitrary: rgs ps)
  case Nil
  then show ?case by (auto simp: laid_out_def intro: list_all2_refl)
next
  case (Cons s ss)
  obtain rgs1 p ps' where one: "place_section s rgs = Inr (rgs1, p)"
    and rest: "place_sections ss rgs1 = Inr (rgs', ps')" and ps: "ps = p # ps'"
    using Cons.prems(1) by (auto simp: and_then_Inr)
  have shape: "section_shape s" "list_all section_shape ss" using Cons.prems(2) by simp_all
  note here = place_section_ok [OF one shape(1) Cons.prems(3)]
  have IH: "list_all lregion_ok rgs'" "list_all2 grows rgs1 rgs'" "laid_out rgs' ss ps'"
    "list_all (beyond rgs1) ps'"
    using Cons.IH [OF rest shape(2) here(1)] by simp_all
  have grow: "list_all2 grows rgs rgs'" using here(2) IH(2) by (rule list_grows_trans)
  have p: "placement_ok rgs' s p"
    using placement_ok_grows [OF place_section_placement [OF one shape(1) Cons.prems(3)] IH(2) here(1)] .
  have after: "in_order (s, p) x" if "x \<in> set (zip ss ps')" for x
  proof -
    obtain t q where x: "x = (t, q)" "q \<in> set ps'" using \<open>x \<in> set (zip ss ps')\<close> by (metis prod.exhaust set_zip_rightD)
    with IH(4) have "beyond rgs1 q" by (simp add: list_all_iff)
    with place_section_placement [OF one shape(1) Cons.prems(3)] show ?thesis
      by (fastforce simp: x placement_ok_def placed_at_def beyond_def split: option.splits)
  qed
  have "beyond rgs p" using here(4) by (auto simp: beyond_def split: option.splits)
  moreover have "list_all (beyond rgs) ps'"
    using IH(4) beyond_grows [OF _ here(2)] by (auto simp: list_all_iff)
  ultimately show ?case using IH p after grow by (simp add: ps laid_out_def)
qed

lemma place_sections_append:
  "place_sections (xs @ ys) rgs =
     and_then (place_sections xs rgs) (\<lambda>(rgs, ps).
     and_then (place_sections ys rgs) (\<lambda>(rgs, qs). Inr (rgs, ps @ qs)))"
  by (induction xs arbitrary: rgs) (auto simp: and_then_def split: sum.splits)

lemma place_sections_length: "place_sections ss rgs = Inr (rgs', ps) \<Longrightarrow> length ps = length ss"
  by (induction ss arbitrary: rgs ps) (auto simp: and_then_Inr)

lemma mergeSections_flat:
  "mergeSections objects rgs = Inr (rgs', pss) \<Longrightarrow>
   place_sections (concat (map ob_sections objects)) rgs = Inr (rgs', concat pss) \<and>
   map length pss = map (length \<circ> ob_sections) objects"
proof (induction objects arbitrary: rgs pss)
  case (Cons ob objects)
  then obtain rgs1 ps pss' where "place_sections (ob_sections ob) rgs = Inr (rgs1, ps)"
    "mergeSections objects rgs1 = Inr (rgs', pss')" "pss = ps # pss'"
    by (auto simp: and_then_Inr)
  with Cons.IH [of rgs1 pss'] show ?case
    by (simp add: place_sections_append and_then_def place_sections_length)
qed simp

lemma initRegions_ok: "list_all lregion_ok (initRegions options)"
  by (simp add: initRegions_def lregion_ok_def)

lemma mergeSections_ok:
  assumes "mergeSections objects (initRegions options) = Inr (rgs, pss)"
    and "\<forall>ob\<in>set objects. list_all section_shape (ob_sections ob)"
  shows "list_all lregion_ok rgs" and "list_all2 grows (initRegions options) rgs"
    and "laid_out rgs (concat (map ob_sections objects)) (concat pss)"
    and "map length pss = map (length \<circ> ob_sections) objects"
proof -
  have "list_all section_shape (concat (map ob_sections objects))"
    using assms(2) by (auto simp: list_all_iff)
  with mergeSections_flat [OF assms(1)] place_sections_ok [of _ "initRegions options" rgs "concat pss"]
    initRegions_ok
  show "list_all lregion_ok rgs" and "list_all2 grows (initRegions options) rgs"
    and "laid_out rgs (concat (map ob_sections objects)) (concat pss)"
    and "map length pss = map (length \<circ> ob_sections) objects" by blast+
qed

subsection \<open>Symbol resolution\<close>

lemma map_of_map_put [simp]: "map_of (map_put k v es) = (map_of es)(k \<mapsto> v)"
  by (induction es) auto

lemma map_put_keys: "set (map fst (map_put k v es)) = insert k (set (map fst es))"
  by (induction es) auto

lemma map_put_sorted:
  fixes es :: "(string \<times> 'v) list"
  shows "sorted_wrt (<) (map fst es) \<Longrightarrow> sorted_wrt (<) (map fst (map_put k v es))"
proof (induction es)
  case (Cons e es)
  then show ?case using map_put_keys [of k v es] by (auto simp: not_less_iff_gr_or_eq image_iff)
qed simp

lemma fold_expected_append:
  "fold_expected f (xs @ ys) s = and_then (fold_expected f xs s) (fold_expected f ys)"
  by (induction xs arbitrary: s) (auto simp: and_then_def split: sum.splits)

lemma fold_expected_concat:
  "fold_expected (\<lambda>x. fold_expected f (g x)) xs s = fold_expected f (concat (map g xs)) s"
  by (induction xs arbitrary: s) (auto simp: fold_expected_append and_then_def split: sum.splits)

lemma fold_expected_map: "fold_expected f (map g xs) s = fold_expected (\<lambda>x. f (g x)) xs s"
  by (induction xs arbitrary: s) (auto simp: and_then_def split: sum.splits)

text \<open>The symbols of all objects in link order, each with the object it comes from.\<close>

type_synonym LinkSymbol = "nat \<times> ObjectFile \<times> Placement list \<times> Symbol"

definition input_symbols :: "Input \<Rightarrow> LinkSymbol list" where
  "input_symbols inp = (case inp of (k, ob, ps) \<Rightarrow> map (\<lambda>s. (k, ob, ps, s)) (st_symbols (ob_symbols ob)))"

definition link_symbols :: "Input list \<Rightarrow> LinkSymbol list" where
  "link_symbols inputs = concat (map input_symbols inputs)"

fun define_one :: "LinkRegion list \<Rightarrow> LinkSymbol \<Rightarrow> Definitions \<times> Definitions \<Rightarrow>
    (LinkError, Definitions \<times> Definitions) expected" where
  "define_one rgs (k, ob, ps, s) = define_symbol rgs k ob ps s"

fun require_one :: "LinkSymbol \<Rightarrow> Definitions \<Rightarrow> (LinkError, Definitions) expected" where
  "require_one (k, ob, ps, s) = require_symbol k ob s"

lemma define_pass: "fold_expected (define_object rgs) inputs = fold_expected (define_one rgs) (link_symbols inputs)"
proof -
  have eq: "define_object rgs = (\<lambda>inp. fold_expected (define_one rgs) (input_symbols inp))"
    by (auto simp: fun_eq_iff define_object_def input_symbols_def fold_expected_map split: prod.splits)
  show ?thesis unfolding link_symbols_def eq by (intro ext) (rule fold_expected_concat)
qed

lemma require_pass: "fold_expected require_object inputs = fold_expected require_one (link_symbols inputs)"
proof -
  have eq: "require_object = (\<lambda>inp. fold_expected require_one (input_symbols inp))"
    by (auto simp: fun_eq_iff require_object_def input_symbols_def fold_expected_map split: prod.splits)
  show ?thesis unfolding link_symbols_def eq by (intro ext) (rule fold_expected_concat)
qed

text \<open>What a defined symbol contributes: its name and the definition the linker records.\<close>

fun ls_address :: "LinkRegion list \<Rightarrow> LinkSymbol \<Rightarrow> (LinkError, u64) expected" where
  "ls_address rgs (k, ob, ps, s) = addressOf rgs ob ps s"

fun ls_symbol :: "LinkSymbol \<Rightarrow> Symbol" where
  "ls_symbol (k, ob, ps, s) = s"

abbreviation "ls_name x \<equiv> sy_name (ls_symbol x)"
abbreviation "ls_binding x \<equiv> sy_binding (ls_symbol x)"
abbreviation "ls_defined x \<equiv> sy_defined (ls_symbol x)"

definition contribution :: "LinkRegion list \<Rightarrow> LinkSymbol \<Rightarrow> string \<times> Definition" where
  "contribution rgs x = (ls_name x,
     \<lparr> df_address = (case ls_address rgs x of Inl _ \<Rightarrow> 0 | Inr a \<Rightarrow> a), df_size = sy_size (ls_symbol x),
       df_binding = ls_binding x, df_type = sy_type (ls_symbol x), df_object = fst x \<rparr>)"

definition exported :: "LinkRegion list \<Rightarrow> LinkSymbol list \<Rightarrow> Definitions" where
  "exported rgs xs = map (contribution rgs) (filter (\<lambda>x. ls_defined x \<and> ls_binding x \<noteq> Local) xs)"

definition kept_local :: "LinkRegion list \<Rightarrow> LinkSymbol list \<Rightarrow> Definitions" where
  "kept_local rgs xs = map (contribution rgs) (filter (\<lambda>x. ls_defined x \<and> ls_binding x = Local) xs)"

text \<open>
  The specification: the first exported definition of a name stands, unless it is weak and a
  strong one exists; then the first strong one does.
\<close>

definition strong :: "Definitions \<Rightarrow> Definitions" where
  "strong ds = filter (\<lambda>e. df_binding (snd e) = Global) ds"

definition winner :: "Definitions \<Rightarrow> string \<Rightarrow> Definition option" where
  "winner ds n = (case map_of ds n of
     None \<Rightarrow> None
   | Some d \<Rightarrow> if df_binding d = Weak then (case map_of (strong ds) n of None \<Rightarrow> Some d | Some g \<Rightarrow> Some g)
              else Some d)"

definition clash :: "Definitions \<Rightarrow> string \<Rightarrow> bool" where
  "clash ds n \<longleftrightarrow> 1 < length (filter (\<lambda>e. fst e = n) (strong ds)) \<and>
     (\<exists>d. map_of ds n = Some d \<and> df_binding d \<in> {Global, Weak})"

lemma winner_snoc:
  "winner (ds @ [(m, d)]) n =
     (if n \<noteq> m then winner ds n
      else case winner ds n of
             None \<Rightarrow> Some d
           | Some w \<Rightarrow> if df_binding w = Weak \<and> df_binding d = Global then Some d else Some w)"
proof (cases "n = m")
  case False
  then show ?thesis by (simp add: winner_def strong_def map_add_def split: option.splits)
next
  case True
  have g: "df_binding g = Global" if "map_of (strong ds) m = Some g" for g
    using map_of_SomeD [OF that] by (simp add: strong_def)
  have n: "map_of (strong ds) m = None" if "map_of ds m = None"
    using that by (auto simp: strong_def map_of_eq_None_iff)
  have s: "strong (ds @ [(m, d)]) = strong ds @ (if df_binding d = Global then [(m, d)] else [])"
    by (simp add: strong_def)
  show ?thesis
    using True g n s by (cases "map_of ds m"; cases "map_of (strong ds) m") (simp_all add: winner_def map_add_def)
qed

lemma winner_strong_iff:
  "(\<exists>w. winner ds n = Some w \<and> df_binding w = Global) \<longleftrightarrow>
     map_of (strong ds) n \<noteq> None \<and> (\<exists>d. map_of ds n = Some d \<and> df_binding d \<in> {Global, Weak})"
proof -
  have "df_binding g = Global" if "map_of (strong ds) n = Some g" for g
    using map_of_SomeD [OF that] by (simp add: strong_def)
  moreover have "map_of (strong ds) n \<noteq> None" if "map_of ds n = Some d" "df_binding d = Global" for d
    using map_of_SomeD [OF that(1)] that(2) by (auto simp: strong_def map_of_eq_None_iff image_iff)
  ultimately show ?thesis by (auto simp: winner_def split: option.splits)
qed

lemma clash_snoc:
  "clash (ds @ [(m, d)]) n \<longleftrightarrow> clash ds n \<or>
     (n = m \<and> df_binding d = Global \<and> (\<exists>w. winner ds m = Some w \<and> df_binding w = Global))"
proof (cases "n = m \<and> df_binding d = Global")
  case False
  have "map_of ds n \<noteq> None" if "1 < length (filter (\<lambda>e. fst e = n) (strong ds))"
  proof -
    from that obtain e where "e \<in> set (filter (\<lambda>e. fst e = n) (strong ds))"
      by (metis length_pos_if_in_set list.set_intros(1) neq_Nil_conv not_less_zero list.size(3))
    then show ?thesis by (auto simp: strong_def map_of_eq_None_iff)
  qed
  with False show ?thesis by (auto simp: clash_def strong_def map_add_def split: option.splits)
next
  case True
  have "0 < length (filter (\<lambda>e. fst e = m) (strong ds)) \<longleftrightarrow> map_of (strong ds) m \<noteq> None"
    by (auto simp: filter_empty_conv map_of_eq_None_iff)
  moreover have "map_of ds m \<noteq> None" if "map_of (strong ds) m \<noteq> None"
    using that by (auto simp: strong_def map_of_eq_None_iff)
  moreover have "strong (ds @ [(m, d)]) = strong ds @ [(m, d)]" using True by (simp add: strong_def)
  ultimately show ?thesis using True
    by (auto simp: clash_def winner_strong_iff map_add_def split: option.splits)
qed

lemma exported_snoc:
  "exported rgs (xs @ [x]) = exported rgs xs @
     (if ls_defined x \<and> ls_binding x \<noteq> Local then [contribution rgs x] else [])"
  by (simp add: exported_def)

lemma kept_local_snoc:
  "kept_local rgs (xs @ [x]) = kept_local rgs xs @
     (if ls_defined x \<and> ls_binding x = Local then [contribution rgs x] else [])"
  by (simp add: kept_local_def)

lemma define_one_cases:
  "define_one rgs x (defs, locals) =
     (if \<not> ls_defined x then Inr (defs, locals)
      else case ls_address rgs x of Inl e \<Rightarrow> Inl e
      | Inr a \<Rightarrow>
          if ls_binding x = Local then Inr (defs, locals @ [contribution rgs x])
          else case map_of defs (ls_name x) of
                 None \<Rightarrow> Inr (map_put (ls_name x) (snd (contribution rgs x)) defs, locals)
               | Some w \<Rightarrow>
                   if ls_binding x = Global \<and> df_binding w = Global then Inl (DefinedTwice (ls_name x))
                   else if ls_binding x = Global \<and> df_binding w = Weak
                   then Inr (map_put (ls_name x) (snd (contribution rgs x)) defs, locals)
                   else Inr (defs, locals))"
  by (cases x) (auto simp: define_symbol_def contribution_def and_then_def Let_def split: sum.splits option.splits)

definition defined_so_far ::
  "LinkRegion list \<Rightarrow> LinkSymbol list \<Rightarrow> (LinkError, Definitions \<times> Definitions) expected \<Rightarrow> bool" where
  "defined_so_far rgs xs res = (case res of
     Inl e \<Rightarrow> (\<exists>n. e = DefinedTwice n \<and> clash (exported rgs xs) n) \<or>
              (\<exists>x\<in>set xs. ls_defined x \<and> ls_address rgs x = Inl e)
   | Inr (defs, locals) \<Rightarrow>
       map_of defs = winner (exported rgs xs) \<and> locals = kept_local rgs xs \<and>
       sorted_wrt (<) (map fst defs) \<and> (\<forall>n. \<not> clash (exported rgs xs) n) \<and>
       (\<forall>x\<in>set xs. ls_defined x \<longrightarrow> (\<exists>a. ls_address rgs x = Inr a)))"

lemma defined_snoc:
  assumes "defined_so_far rgs xs (Inr (defs, locals))"
  shows "defined_so_far rgs (xs @ [x]) (define_one rgs x (defs, locals))"
proof (cases "ls_defined x \<and> (\<exists>a. ls_address rgs x = Inr a)")
  case False
  with assms show ?thesis
    by (auto simp: define_one_cases defined_so_far_def exported_snoc kept_local_snoc split: sum.splits)
next
  case True
  then obtain a where a: "ls_defined x" "ls_address rgs x = Inr a" by blast
  have c: "contribution rgs x = (ls_name x, snd (contribution rgs x))"
    "df_binding (snd (contribution rgs x)) = ls_binding x"
    by (simp_all add: contribution_def)
  show ?thesis
  proof (cases "ls_binding x = Local")
    case True
    with a assms show ?thesis
      by (auto simp: define_one_cases defined_so_far_def exported_snoc kept_local_snoc)
  next
    case False
    define d where "d = snd (contribution rgs x)"
    define ds where "ds = exported rgs xs"
    have e: "exported rgs (xs @ [x]) = ds @ [(ls_name x, d)]"
      using a False c(1) by (simp add: exported_snoc d_def ds_def)
    have b: "df_binding d = ls_binding x" using c(2) by (simp add: d_def)
    have k: "kept_local rgs (xs @ [x]) = kept_local rgs xs" using False by (simp add: kept_local_snoc)
    have w: "map_of defs = winner ds" "locals = kept_local rgs xs" "sorted_wrt (<) (map fst defs)"
      "\<And>n. \<not> clash ds n" "\<forall>x\<in>set xs. ls_defined x \<longrightarrow> (\<exists>a. ls_address rgs x = Inr a)"
      using assms by (simp_all add: defined_so_far_def ds_def)
    show ?thesis
    proof (cases "winner ds (ls_name x)")
      case None
      with a w b False show ?thesis
        unfolding defined_so_far_def e k define_one_cases d_def [symmetric]
        by (auto simp: winner_snoc clash_snoc map_put_sorted fun_eq_iff)
    next
      case (Some v)
      with a w b False show ?thesis
        unfolding defined_so_far_def e k define_one_cases d_def [symmetric]
        by (auto simp: winner_snoc clash_snoc map_put_sorted fun_eq_iff)
    qed
  qed
qed

lemma clash_append: "clash ds n \<Longrightarrow> clash (ds @ es) n"
  by (auto simp: clash_def strong_def map_add_def split: option.splits)

lemma definitions_collected: "defined_so_far rgs xs (fold_expected (define_one rgs) xs ([], []))"
proof (induction xs rule: rev_induct)
  case Nil
  then show ?case by (simp add: defined_so_far_def exported_def kept_local_def winner_def clash_def strong_def fun_eq_iff)
next
  case (snoc x xs)
  show ?case
  proof (cases "fold_expected (define_one rgs) xs ([], [])")
    case (Inl e)
    with snoc show ?thesis
      by (auto simp: fold_expected_append and_then_def defined_so_far_def exported_snoc intro: clash_append)
  next
    case (Inr c)
    then obtain defs locals where c: "fold_expected (define_one rgs) xs ([], []) = Inr (defs, locals)"
      by (cases c) simp
    with snoc have "defined_so_far rgs xs (Inr (defs, locals))" by simp
    from defined_snoc [OF this, of x] show ?thesis
      by (cases "define_one rgs x (defs, locals)") (simp_all add: fold_expected_append and_then_def c)
  qed
qed

lemma require_one_cases:
  "require_one x defs =
     (if ls_defined x \<or> map_of defs (ls_name x) \<noteq> None then Inr defs
      else if ls_binding x = Weak
      then Inr (map_put (ls_name x) \<lparr> df_address = 0, df_size = 0, df_binding = Weak,
                  df_type = sy_type (ls_symbol x), df_object = fst x \<rparr> defs)
      else Inl (Undefined (ls_name x) (sourceNameOf (fst x) (fst (snd x)))))"
  by (cases x) (simp add: require_symbol_def)

text \<open>
  The second pass keeps every definition and adds address 0 for the names that have only weak
  references up to there.
\<close>

definition completes :: "LinkSymbol list \<Rightarrow> Definitions \<Rightarrow> Definitions \<Rightarrow> bool" where
  "completes xs defs defs' \<longleftrightarrow>
     (\<forall>n d. map_of defs n = Some d \<longrightarrow> map_of defs' n = Some d) \<and>
     (\<forall>n d. map_of defs n = None \<and> map_of defs' n = Some d \<longrightarrow>
        df_address d = 0 \<and> (\<exists>x\<in>set xs. \<not> ls_defined x \<and> ls_name x = n \<and> ls_binding x = Weak)) \<and>
     (\<forall>x\<in>set xs. ls_defined x \<or> map_of defs' (ls_name x) \<noteq> None) \<and>
     (sorted_wrt (<) (map fst defs) \<longrightarrow> sorted_wrt (<) (map fst defs'))"

lemma require_one_completes:
  "require_one x defs = Inr defs' \<Longrightarrow> completes [x] defs defs'"
  by (auto simp: require_one_cases completes_def map_put_sorted split: if_splits)

lemma completes_trans:
  assumes "completes xs a b" and "completes ys b c"
  shows "completes (xs @ ys) a c"
proof -
  have k: "map_of c n = Some d" if "map_of b n = Some d" for n d
    using that assms(2) by (simp add: completes_def)
  have "ls_defined x \<or> map_of c (ls_name x) \<noteq> None" if "x \<in> set (xs @ ys)" for x
  proof (cases "x \<in> set xs")
    case True
    with assms(1) have "ls_defined x \<or> map_of b (ls_name x) \<noteq> None" unfolding completes_def by blast
    then show ?thesis using k by fastforce
  next
    case False
    with that assms(2) show ?thesis unfolding completes_def by auto
  qed
  moreover have "df_address d = 0 \<and> (\<exists>x\<in>set (xs @ ys). \<not> ls_defined x \<and> ls_name x = n \<and> ls_binding x = Weak)"
    if "map_of a n = None" "map_of c n = Some d" for n d
  proof (cases "map_of b n")
    case None
    with that assms(2) show ?thesis by (fastforce simp: completes_def)
  next
    case (Some e)
    with that k have "e = d" by fastforce
    with Some that assms(1) show ?thesis by (fastforce simp: completes_def)
  qed
  moreover have "map_of c n = Some d" if "map_of a n = Some d" for n d
    using that assms(1) k by (simp add: completes_def)
  ultimately show ?thesis using assms unfolding completes_def by blast
qed

lemma references_complete:
  "fold_expected require_one xs defs = Inr defs' \<Longrightarrow> completes xs defs defs'"
proof (induction xs arbitrary: defs)
  case (Cons x xs)
  then obtain d1 where "require_one x defs = Inr d1" "fold_expected require_one xs d1 = Inr defs'"
    by (auto simp: and_then_Inr)
  with Cons.IH require_one_completes completes_trans [of "[x]" defs d1 xs defs'] show ?case by simp
qed (auto simp: completes_def)

lemma reference_missing:
  "fold_expected require_one xs defs = Inl e \<Longrightarrow>
   \<exists>x\<in>set xs. e = Undefined (ls_name x) (sourceNameOf (fst x) (fst (snd x))) \<and>
     \<not> ls_defined x \<and> ls_binding x \<noteq> Weak \<and> map_of defs (ls_name x) = None"
proof (induction xs arbitrary: defs)
  case (Cons x xs)
  show ?case
  proof (cases "require_one x defs")
    case (Inl e')
    with Cons.prems show ?thesis by (auto simp: require_one_cases and_then_def split: if_splits)
  next
    case (Inr d1)
    with Cons.prems have "fold_expected require_one xs d1 = Inl e" by (simp add: and_then_def)
    from Cons.IH [OF this] obtain y where y: "y \<in> set xs"
      "e = Undefined (ls_name y) (sourceNameOf (fst y) (fst (snd y)))"
      "\<not> ls_defined y" "ls_binding y \<noteq> Weak" "map_of d1 (ls_name y) = None" by blast
    have "map_of defs (ls_name y) = None"
      using require_one_completes [OF Inr] y(5) by (cases "map_of defs (ls_name y)") (simp_all add: completes_def)
    with y show ?thesis by auto
  qed
qed simp

lemma resolveSymbols_spec:
  fixes rgs inputs
  defines "xs \<equiv> link_symbols inputs"
  shows "case resolveSymbols rgs inputs of
     Inr (defs, locals) \<Rightarrow>
       (\<forall>n d. winner (exported rgs xs) n = Some d \<longrightarrow> map_of defs n = Some d) \<and>
       (\<forall>n d. winner (exported rgs xs) n = None \<and> map_of defs n = Some d \<longrightarrow>
          df_address d = 0 \<and> (\<exists>x\<in>set xs. \<not> ls_defined x \<and> ls_name x = n \<and> ls_binding x = Weak)) \<and>
       (\<forall>x\<in>set xs. ls_defined x \<or> map_of defs (ls_name x) \<noteq> None) \<and>
       sorted_wrt (<) (map fst defs) \<and> locals = kept_local rgs xs \<and>
       (\<forall>n. \<not> clash (exported rgs xs) n) \<and>
       (\<forall>x\<in>set xs. ls_defined x \<longrightarrow> (\<exists>a. ls_address rgs x = Inr a))
   | Inl (DefinedTwice n) \<Rightarrow> clash (exported rgs xs) n
   | Inl (Undefined n source) \<Rightarrow>
       (\<exists>x\<in>set xs. ls_name x = n \<and> \<not> ls_defined x \<and> ls_binding x \<noteq> Weak \<and>
          source = sourceNameOf (fst x) (fst (snd x)) \<and> winner (exported rgs xs) n = None)
   | Inl e \<Rightarrow> \<exists>x\<in>set xs. ls_defined x \<and> ls_address rgs x = Inl e"
proof (cases "fold_expected (define_one rgs) xs ([], [])")
  case (Inl e)
  have "ls_address rgs x \<noteq> Inl (DefinedTwice n)" "ls_address rgs x \<noteq> Inl (Undefined n m)" for x n m
    by (cases x; simp add: addressOf_def split: option.splits)+
  with Inl definitions_collected [of rgs xs] show ?thesis
    by (auto simp: resolveSymbols_def define_pass and_then_def xs_def [symmetric] defined_so_far_def
        split: LinkError.splits)
next
  case (Inr c)
  then obtain defs locals where c: "fold_expected (define_one rgs) xs ([], []) = Inr (defs, locals)"
    by (cases c) simp
  have d: "map_of defs = winner (exported rgs xs)" "locals = kept_local rgs xs"
    "sorted_wrt (<) (map fst defs)" "\<forall>n. \<not> clash (exported rgs xs) n"
    "\<forall>x\<in>set xs. ls_defined x \<longrightarrow> (\<exists>a. ls_address rgs x = Inr a)"
    using definitions_collected [of rgs xs] by (simp_all add: defined_so_far_def c)
  show ?thesis
  proof (cases "fold_expected require_one xs defs")
    case (Inl e)
    have r: "resolveSymbols rgs inputs = Inl e"
      using c Inl by (simp add: resolveSymbols_def define_pass require_pass and_then_def xs_def [symmetric])
    from reference_missing [OF Inl] obtain x where x: "x \<in> set xs"
      "e = Undefined (ls_name x) (sourceNameOf (fst x) (fst (snd x)))"
      "\<not> ls_defined x" "ls_binding x \<noteq> Weak" "map_of defs (ls_name x) = None" by blast
    show ?thesis
      unfolding r x(2) sum.case LinkError.case d(1) [symmetric]
      by (intro bexI [of _ x] conjI) (use x in simp_all)
  next
    case (Inr defs')
    have r: "resolveSymbols rgs inputs = Inr (defs', locals)"
      using c Inr by (simp add: resolveSymbols_def define_pass require_pass and_then_def xs_def [symmetric])
    from references_complete [OF Inr] d show ?thesis
      unfolding r completes_def by simp
  qed
qed

subsection \<open>Relocating the merged regions\<close>

lemma fold_expected_invariant:
  assumes "\<And>x s s'. x \<in> set xs \<Longrightarrow> P s \<Longrightarrow> f x s = Inr s' \<Longrightarrow> P s'"
    and "P s" and "fold_expected f xs s = Inr s'"
  shows "P s'"
  using assms
proof (induction xs arbitrary: s)
  case (Cons x xs)
  then obtain s1 where s1: "f x s = Inr s1" "fold_expected f xs s1 = Inr s'" by (auto simp: and_then_Inr)
  have "P s1" using Cons.prems(1) [of x s s1] Cons.prems(2) s1(1) by simp
  then show ?case using Cons.IH [of s1] Cons.prems(1) s1(2) by (metis list.set_intros(2))
qed simp

text \<open>The bytes of the regions that some relocation of the inputs covers.\<close>

definition relocated :: "Input list \<Rightarrow> nat \<Rightarrow> nat \<Rightarrow> bool" where
  "relocated inputs i p \<longleftrightarrow>
     (\<exists>(k, ob, ps) \<in> set inputs. \<exists>r \<in> set (ob_relocations ob). \<exists>off.
        ps ! unat (rel_section r) = Some (i, off) \<and> unat (off + rel_offset r) \<le> p \<and>
        p < unat (off + rel_offset r) + relocationWidth (rel_type r))"

definition same_extent :: "LinkRegion \<Rightarrow> LinkRegion \<Rightarrow> bool" where
  "same_extent r r' \<longleftrightarrow> (\<exists>d. r' = r\<lparr> lr_data := d \<rparr> \<and> length d = length (lr_data r))"

lemma same_extent_refl [simp]: "same_extent r r"
  unfolding same_extent_def by (intro exI [of _ "lr_data r"]) simp

lemma same_extent_data:
  "same_extent r r' \<Longrightarrow> length d = length (lr_data r) \<Longrightarrow> same_extent r (r'\<lparr> lr_data := d \<rparr>)"
  unfolding same_extent_def by (elim exE) (rule exI [of _ d], simp)

lemma same_extent_simps:
  assumes "same_extent r r'"
  shows "lr_type r' = lr_type r" "lr_segment r' = lr_segment r" "lr_flags r' = lr_flags r"
    "lr_name r' = lr_name r" "lr_base r' = lr_base r" "lr_size r' = lr_size r"
    "lr_zero_filled r' = lr_zero_filled r" "length (lr_data r') = length (lr_data r)"
  using assms by (auto simp: same_extent_def)

text \<open>What relocating has done to the merged regions so far.\<close>

definition relocates :: "Input list \<Rightarrow> LinkRegion list \<Rightarrow> LinkRegion list \<Rightarrow> bool" where
  "relocates inputs rgs rgs' \<longleftrightarrow> list_all2 same_extent rgs rgs' \<and>
     (\<forall>i < length rgs. \<forall>p < length (lr_data (rgs ! i)).
        \<not> relocated inputs i p \<longrightarrow> lr_data (rgs' ! i) ! p = lr_data (rgs ! i) ! p)"

lemma relocate_Inr:
  assumes "relocate ob ps defs r rgs = Inr rgs'"
  obtains i off new where "ps ! unat (rel_section r) = Some (i, off)"
    "length new = relocationWidth (rel_type r)"
    "unat (off + rel_offset r) + relocationWidth (rel_type r) \<le> length (lr_data (rgs ! i))"
    "rgs' = rgs[i := (rgs ! i)\<lparr> lr_data := splice_at (unat (off + rel_offset r)) new (lr_data (rgs ! i)) \<rparr>]"
proof -
  obtain i off a data where p: "ps ! unat (rel_section r) = Some (i, off)"
    and ap: "applyRelocation (lr_data (rgs ! i)) (lr_base (rgs ! i)) (r\<lparr> rel_offset := off + rel_offset r \<rparr>) a
      = (Inr (), data)"
    and rgs': "rgs' = rgs[i := (rgs ! i)\<lparr> lr_data := data \<rparr>]"
  proof -
    obtain i off where p: "ps ! unat (rel_section r) = Some (i, off)"
      using assms by (cases "ps ! unat (rel_section r)") (auto simp: relocate_def split: if_splits)
    with assms obtain a where
      a: "(case applyRelocation (lr_data (rgs ! i)) (lr_base (rgs ! i)) (r\<lparr> rel_offset := off + rel_offset r \<rparr>) a of
            (Inl e, _) \<Rightarrow> Inl (RelocationFailed (rel_type r)
               (sy_name (st_symbols (ob_symbols ob) ! unat (rel_symbol r))) (lr_name (rgs ! i))
               (rel_offset (r\<lparr> rel_offset := off + rel_offset r \<rparr>)) e)
          | (Inr _, data) \<Rightarrow> Inr (rgs[i := (rgs ! i)\<lparr> lr_data := data \<rparr>])) = Inr rgs'"
      by (auto simp: relocate_def Let_def and_then_Inr split: if_splits)
    obtain res data where ap: "applyRelocation (lr_data (rgs ! i)) (lr_base (rgs ! i))
        (r\<lparr> rel_offset := off + rel_offset r \<rparr>) a = (res, data)" by fastforce
    from a ap have "res = Inr ()" "rgs' = rgs[i := (rgs ! i)\<lparr> lr_data := data \<rparr>]"
      by (cases res; simp)+
    with p ap that show ?thesis by blast
  qed
  obtain new where "data = splice_at (unat (off + rel_offset r)) new (lr_data (rgs ! i))"
    "length new = relocationWidth (rel_type r)"
    "unat (off + rel_offset r) + relocationWidth (rel_type r) \<le> length (lr_data (rgs ! i))"
    using applyRelocation_patches [of "lr_data (rgs ! i)" "r\<lparr> rel_offset := off + rel_offset r \<rparr>" "lr_base (rgs ! i)" a]
    by (auto simp: patched_or_kept_def ap)
  with p rgs' show ?thesis by (intro that) simp_all
qed

lemma relocate_step:
  assumes "inp \<in> set inputs" and "inp = (k, ob, ps)" and "r \<in> set (ob_relocations ob)"
    and "relocates inputs rgs0 rgs" and "relocate ob ps defs r rgs = Inr rgs'"
  shows "relocates inputs rgs0 rgs'"
proof -
  obtain i off new where p: "ps ! unat (rel_section r) = Some (i, off)"
    and new: "length new = relocationWidth (rel_type r)"
    and fit: "unat (off + rel_offset r) + relocationWidth (rel_type r) \<le> length (lr_data (rgs ! i))"
    and rgs': "rgs' = rgs[i := (rgs ! i)\<lparr> lr_data := splice_at (unat (off + rel_offset r)) new (lr_data (rgs ! i)) \<rparr>]"
    using assms(5) by (rule relocate_Inr)
  define data where "data = splice_at (unat (off + rel_offset r)) new (lr_data (rgs ! i))"
  have cov: "relocated inputs i q"
    if "unat (off + rel_offset r) \<le> q" "q < unat (off + rel_offset r) + length new" for q
    using assms(1-3) p new that unfolding relocated_def by fastforce
  have ext: "\<And>j. j < length rgs0 \<Longrightarrow> same_extent (rgs0 ! j) (rgs ! j)" "length rgs = length rgs0"
    and same: "\<And>j q. j < length rgs0 \<Longrightarrow> q < length (lr_data (rgs0 ! j)) \<Longrightarrow> \<not> relocated inputs j q \<Longrightarrow>
      lr_data (rgs ! j) ! q = lr_data (rgs0 ! j) ! q"
    using assms(4) by (auto simp: relocates_def list_all2_conv_all_nth)
  have len: "length data = length (lr_data (rgs ! i))"
    unfolding data_def using fit new by simp
  have nth: "data ! q = lr_data (rgs ! i) ! q"
    if "q < length (lr_data (rgs ! i))" "\<not> relocated inputs i q" for q
    unfolding data_def using that cov [of q] fit new by (subst nth_splice_at) (auto simp: new)
  have "list_all2 same_extent rgs0 rgs'"
    unfolding list_all2_conv_all_nth
  proof (intro conjI allI impI)
    fix j assume j: "j < length rgs0"
    show "same_extent (rgs0 ! j) (rgs' ! j)"
      using ext(1) [OF j] len same_extent_simps(8) [OF ext(1) [OF j]] j ext(2)
      by (cases "j = i") (simp_all add: rgs' data_def [symmetric] same_extent_data)
  qed (simp add: rgs' ext(2))
  moreover have "lr_data (rgs' ! j) ! q = lr_data (rgs0 ! j) ! q"
    if j: "j < length rgs0" and q: "q < length (lr_data (rgs0 ! j))" and u: "\<not> relocated inputs j q" for j q
    using same [OF j q u] nth [of q] same_extent_simps(8) [OF ext(1) [OF j]] that ext(2)
    by (cases "j = i") (simp_all add: rgs' data_def [symmetric])
  ultimately show ?thesis by (simp add: relocates_def)
qed

lemma applyRelocations_relocates:
  assumes "applyRelocations defs inputs rgs = Inr rgs'"
  shows "relocates inputs rgs rgs'"
proof (rule fold_expected_invariant [of inputs "relocates inputs rgs" "relocate_object defs" rgs])
  show "relocates inputs rgs rgs" by (simp add: relocates_def list_all2_conv_all_nth)
  show "fold_expected (relocate_object defs) inputs rgs = Inr rgs'"
    using assms by (simp add: applyRelocations_def)
next
  fix inp s s'
  assume i: "inp \<in> set inputs" and s: "relocates inputs rgs s" and r: "relocate_object defs inp s = Inr s'"
  obtain k ob ps where inp: "inp = (k, ob, ps)" by (metis prod.exhaust)
  have "fold_expected (relocate ob ps defs) (ob_relocations ob) s = Inr s'"
    using r by (simp add: relocate_object_def inp)
  with s show "relocates inputs rgs s'"
    by (rule fold_expected_invariant [rotated]) (rule relocate_step [OF i inp])
qed

subsection \<open>The image\<close>

lemma link_stages:
  assumes "link options objects = Inr e"
  obtains rgs pss defs locals rgs' where
    "mergeSections objects (initRegions options) = Inr (rgs, pss)"
    "resolveSymbols rgs (link_inputs objects pss) = Inr (defs, locals)"
    "applyRelocations defs (link_inputs objects pss) rgs = Inr rgs'"
    "buildExecutable options rgs' (link_inputs objects pss) defs locals = Inr e"
  using assms by (auto simp: link_def and_then_Inr Let_def split: if_splits)

lemma buildExecutable_Inr:
  assumes "buildExecutable options rgs inputs defs locals = Inr e"
  shows "ex_segments e = map region_segment (filter (\<lambda>r. lr_size r \<noteq> 0) rgs)"
    and "validate e = Inr ()"
    and "\<exists>d. map_of defs (lo_entry options) = Some d \<and> ex_entry_point e = df_address d"
    and "ex_symbols e = image_symbols (lo_keep_local_symbols options) defs locals"
  using assms by (auto simp: buildExecutable_def Let_def split: option.splits prod.splits sum.splits)

definition good_objects :: "ObjectFile list \<Rightarrow> bool" where
  "good_objects objects \<longleftrightarrow> (\<forall>ob\<in>set objects. list_all section_shape (ob_sections ob))"

text \<open>The regions of the image: those of the options, grown by the sections.\<close>

lemma linked_regions:
  assumes "mergeSections objects (initRegions options) = Inr (rgs, pss)" and "good_objects objects"
    and "applyRelocations defs (link_inputs objects pss) rgs = Inr rgs'"
  shows "list_all lregion_ok rgs'" and "map lr_base rgs' = map lr_base (initRegions options)"
    and "map lr_type rgs' = map lr_type (initRegions options)"
    and "map lr_flags rgs' = map lr_flags (initRegions options)"
    and "map lr_zero_filled rgs' = map lr_zero_filled (initRegions options)"
    and "map lr_name rgs' = map lr_name (initRegions options)"
proof -
  note m = mergeSections_ok [OF assms(1) assms(2) [unfolded good_objects_def]]
  have x: "list_all2 same_extent rgs rgs'"
    using applyRelocations_relocates [OF assms(3)] by (simp add: relocates_def)
  have "list_all2 (\<lambda>a b. lr_base a = lr_base b \<and> lr_type a = lr_type b \<and> lr_flags a = lr_flags b \<and>
      lr_zero_filled a = lr_zero_filled b \<and> lr_name a = lr_name b) (initRegions options) rgs'"
    using m(2) x by (rule list_all2_trans [rotated]) (auto simp: grows_def same_extent_simps)
  then show "map lr_base rgs' = map lr_base (initRegions options)"
    and "map lr_type rgs' = map lr_type (initRegions options)"
    and "map lr_flags rgs' = map lr_flags (initRegions options)"
    and "map lr_zero_filled rgs' = map lr_zero_filled (initRegions options)"
    and "map lr_name rgs' = map lr_name (initRegions options)"
    by (auto simp: list_all2_conv_all_nth intro!: nth_equalityI)
  have ext: "same_extent (rgs ! i) (rgs' ! i)" if "i < length rgs'" for i
    using x that by (auto simp: list_all2_conv_all_nth)
  show "list_all lregion_ok rgs'"
    unfolding list_all_length
  proof (intro allI impI)
    fix i assume i: "i < length rgs'"
    then have "lregion_ok (rgs ! i)" using m(1) x by (simp add: list_all_length list_all2_lengthD)
    with same_extent_simps [OF ext [OF i]] show "lregion_ok (rgs' ! i)"
      by (simp add: lregion_ok_def split: if_splits)
  qed
qed

lemma region_bases:
  "map lr_base (initRegions default_options) = [0x10000, 0x100000, 0x200000, 0x300000]"
  by (simp add: initRegions_def default_options_def link_layout)

lemma entry_image_loads:
  assumes "link (default_options\<lparr> lo_entry := name \<rparr>) objects = Inr e" and "good_objects objects"
  shows "\<exists>vm'. load e vm = (Inr (), vm')"
proof -
  let ?options = "default_options\<lparr> lo_entry := name \<rparr>"
  have bases: "initRegions ?options = initRegions default_options" by (simp add: initRegions_def)
  obtain rgs pss defs locals rgs' where s: "mergeSections objects (initRegions ?options) = Inr (rgs, pss)"
    "applyRelocations defs (link_inputs objects pss) rgs = Inr rgs'"
    "buildExecutable ?options rgs' (link_inputs objects pss) defs locals = Inr e"
    using assms(1) by (rule link_stages)
  note r = linked_regions [OF s(1) assms(2) s(2)]
  note b = buildExecutable_Inr [OF s(3)]
  have "segment_end sg \<le> 0x3F0000" if "sg \<in> set (ex_segments e)" for sg
  proof -
    from that b(1) obtain rg where rg: "rg \<in> set rgs'" "sg = region_segment rg" by auto
    then have "lr_base rg \<in> {0x10000, 0x100000, 0x200000, 0x300000}"
      using r(2) unfolding bases region_bases by (metis image_eqI list.set_map list.simps(15) set_simps(1))
    then have "unat (lr_base rg) \<le> 0x300000" by auto
    moreover have "unat (lr_size rg) \<le> 0xF0000" using rg(1) r(1) by (auto simp: list_all_iff lregion_ok_def)
    ultimately show ?thesis by (simp add: rg(2) segment_end_def region_segment_def)
  qed
  then have "clear_of (ex_segments e) lo hi" if "0x3F0000 \<le> lo" for lo hi
    using that unfolding clear_of_def by (meson le_trans)
  moreover have "executable_ok e" using b(2) by (simp add: validate_iff)
  ultimately show ?thesis unfolding load_spec by simp
qed

lemma default_image_loads:
  assumes "link default_options objects = Inr e" and "good_objects objects"
  shows "\<exists>vm'. load e vm = (Inr (), vm')"
  using entry_image_loads [of "lo_entry default_options" objects e vm] assms by simp

text \<open>Where the byte of a section is in the loaded machine.\<close>

lemma linked_byte:
  assumes "link options objects = Inr e" and "good_objects objects"
    and "mergeSections objects (initRegions options) = Inr (rgs, pss)"
    and "load e vm = (Inr (), vm')"
    and "(s, Some (i, off)) \<in> set (zip (concat (map ob_sections objects)) (concat pss))"
    and "k < unat (sec_size s)" and "\<not> relocated (link_inputs objects pss) i (unat off + k)"
  shows "mem_at (memory vm') (lr_base (rgs ! i) + off + of_nat k) =
     Some (if sec_type s \<noteq> Sec_Bss \<and> k < length (sec_data s) then sec_data s ! k else 0)"
proof -
  obtain defs locals rgs' where a: "applyRelocations defs (link_inputs objects pss) rgs = Inr rgs'"
    and b: "buildExecutable options rgs' (link_inputs objects pss) defs locals = Inr e"
    using link_stages [OF assms(1)] assms(3) by (metis Inr_inject prod.inject)
  note r = linked_regions [OF assms(3,2) a]
  note m = mergeSections_ok [OF assms(3) assms(2) [unfolded good_objects_def]]
  have "placement_ok rgs s (Some (i, off))"
    using m(3) assms(5) unfolding laid_out_def list_all2_iff by blast
  then have p: "placed_at rgs s i off" "sec_type s \<noteq> Sec_Null" by (simp_all add: placement_ok_def)
  have i: "i < length rgs" using p(1) by (simp add: placed_at_def)
  have rel: "relocates (link_inputs objects pss) rgs rgs'" by (rule applyRelocations_relocates [OF a])
  then have x: "same_extent (rgs ! i) (rgs' ! i)" "length rgs' = length rgs"
    using i by (auto simp: relocates_def list_all2_conv_all_nth)
  note x = x same_extent_simps [OF x(1)]
  have fit: "unat off + unat (sec_size s) \<le> unat (lr_size (rgs ! i))" using p(1) by (simp add: placed_at_def)
  let ?sg = "region_segment (rgs' ! i)"
  have sg: "?sg \<in> set (ex_segments e)"
    using i x fit assms(6) unfolding buildExecutable_Inr(1) [OF b] by auto
  have k: "unat off + k < unat (sg_virtual_size ?sg)"
    using fit assms(6) x(8) by (simp add: region_segment_def)
  have ok: "lregion_ok (rgs ! i)" using m(1) i by (simp add: list_all_length)
  have at: "lr_base (rgs ! i) + off + of_nat k = sg_virtual_address ?sg + of_nat (unat off + k)"
    using x by (simp add: region_segment_def)
  have z: "lr_zero_filled (rgs ! i) \<longleftrightarrow> sec_type s = Sec_Bss"
  proof -
    have n: "length rgs = 4" using m(2) by (auto simp: initRegions_def dest: list_all2_lengthD)
    have tz: "lr_zero_filled (initRegions options ! j) \<longleftrightarrow> lr_type (initRegions options ! j) = Sec_Bss" if "j < 4" for j
      using that by (auto simp: initRegions_def nth_Cons less_Suc_eq numeral_eq_Suc split: nat.split)
    have "grows (initRegions options ! i) (rgs ! i)"
      using m(2) i by (auto simp: list_all2_conv_all_nth)
    with tz [of i] i n p(1) show ?thesis by (simp add: grows_def placed_at_def)
  qed
  have byte: "segment_byte ?sg (unat off + k) =
      (if sec_type s \<noteq> Sec_Bss \<and> k < length (sec_data s) then sec_data s ! k else 0)"
  proof (cases "lr_zero_filled (rgs ! i)")
    case True
    with x z show ?thesis by (simp add: segment_byte_def region_segment_def)
  next
    case False
    let ?d = "lr_data (rgs ! i)"
    have len: "unat off + unat (sec_size s) \<le> length ?d" using ok False fit by (simp add: lregion_ok_def)
    have "lr_data (rgs' ! i) ! (unat off + k) = ?d ! (unat off + k)"
      using rel i len assms(6,7) unfolding relocates_def by simp
    also have "\<dots> = take (unat (sec_size s)) (drop (unat off) ?d) ! k" using assms(6) len by simp
    also have "\<dots> = (sec_data s @ replicate (unat (sec_size s) - length (sec_data s)) 0) ! k"
      using p(1) False by (simp add: placed_at_def)
    also have "\<dots> = (if k < length (sec_data s) then sec_data s ! k else 0)"
      using assms(6) by (simp add: nth_append)
    finally show ?thesis using False z x len assms(6) by (simp add: segment_byte_def region_segment_def)
  qed
  show ?thesis
    unfolding at load_segment_at(1) [OF assms(4) sg k] byte ..
qed

subsection \<open>The properties\<close>

definition linked_object :: ObjectFile where
  "linked_object =
     \<lparr> ob_version = 1,
       ob_sections =
         [\<lparr> sec_name = ''.text'', sec_type = Sec_Text, sec_flags = 5, sec_alignment = 8,
            sec_data = [1, 0, 0, 0, 0, 0, 0, 0], sec_size = 8, sec_index = 0 \<rparr>,
          \<lparr> sec_name = ''.data'', sec_type = Sec_Data, sec_flags = 3, sec_alignment = 4,
            sec_data = [9, 8, 7], sec_size = 8, sec_index = 1 \<rparr>],
       ob_symbols = snd (addSymbol \<lparr> sy_name = ''_start'', sy_binding = Global, sy_type = Sym_Function,
                        sy_section = 0, sy_value = 0, sy_size = 8, sy_defined = True \<rparr> empty_table),
       ob_relocations = [\<lparr> rel_section = 1, rel_offset = 4, rel_type = ABS32, rel_symbol = 0,
                           rel_addend = 4 \<rparr>],
       ob_debug_info = [],
       ob_source_files = [''a.mtc''] \<rparr>"

lemma linked_object_good: "good_objects [linked_object]"
  by (simp add: good_objects_def linked_object_def section_shape_def printable_def)

definition linked_regions_demo :: "LinkRegion list" where
  "linked_regions_demo = (initRegions default_options)
     [0 := (initRegions default_options ! 0)\<lparr> lr_size := 8, lr_data := [1, 0, 0, 0, 0, 0, 0, 0] \<rparr>,
      2 := (initRegions default_options ! 2)\<lparr> lr_size := 8, lr_data := [9, 8, 7, 0, 0, 0, 0, 0] \<rparr>]"

lemma linked_merge:
  "mergeSections [linked_object] (initRegions default_options) =
     Inr (linked_regions_demo, [[Some (0, 0), Some (2, 0)]])"
  by code_simp

definition is_Inr :: "'e + 'a \<Rightarrow> bool" where
  "is_Inr x \<longleftrightarrow> (case x of Inl _ \<Rightarrow> False | Inr _ \<Rightarrow> True)"

lemma linked_links: "\<exists>e. link default_options [linked_object] = Inr e"
proof -
  have "is_Inr (link default_options [linked_object])" by code_simp
  then show ?thesis by (simp add: is_Inr_def split: sum.splits)
qed

text \<open>
  Whatever objects are linked at the default addresses, the image that comes out is one that
  the machine loads: the linker's regions keep clear of each other, of the stack and of the heap.
\<close>

theorem linked_image_loads:
  assumes "link default_options objects = Inr e" and "good_objects objects"
  shows "\<exists>vm'. load e vm = (Inr (), vm')"
  using assms by (rule default_image_loads)

lemma linked_image_loads_witness:
  "\<exists>e vm'. link default_options [linked_object] = Inr e \<and> load e demo_machine = (Inr (), vm')"
  using linked_links linked_image_loads [OF _ linked_object_good] by blast

text \<open>
  C17: in a machine that has loaded a linked image, every byte of every section of every object
  that no relocation covers is at the address the linker gave it, with the padding and the
  zero-initialised sections reading as zero.
\<close>

theorem linked_section_in_memory:
  assumes "link options objects = Inr e" and "good_objects objects"
    and "mergeSections objects (initRegions options) = Inr (rgs, pss)"
    and "load e vm = (Inr (), vm')"
    and "(s, Some (i, off)) \<in> set (zip (concat (map ob_sections objects)) (concat pss))"
    and "k < unat (sec_size s)" and "\<not> relocated (link_inputs objects pss) i (unat off + k)"
  shows "mem_at (memory vm') (lr_base (rgs ! i) + off + of_nat k) =
     Some (if sec_type s \<noteq> Sec_Bss \<and> k < length (sec_data s) then sec_data s ! k else 0)"
  using assms by (rule linked_byte)

lemma linked_section_in_memory_witness:
  "\<exists>e vm'. link default_options [linked_object] = Inr e \<and> load e demo_machine = (Inr (), vm') \<and>
     mem_at (memory vm') 0x200001 = Some 8"
proof -
  obtain e where e: "link default_options [linked_object] = Inr e" using linked_links by blast
  obtain vm' where l: "load e demo_machine = (Inr (), vm')"
    using default_image_loads [OF e linked_object_good] by blast
  let ?s = "ob_sections linked_object ! 1"
  have "(?s, Some (2, 0)) \<in> set (zip (concat (map ob_sections [linked_object])) (concat [[Some (0, 0), Some (2, 0)]]))"
    by (simp add: linked_object_def)
  moreover have "1 < unat (sec_size ?s)" by (simp add: linked_object_def)
  moreover have "\<not> relocated (link_inputs [linked_object] [[Some (0, 0), Some (2, 0)]]) 2 (unat (0 :: u64) + 1)"
    by (simp add: relocated_def link_inputs_def linked_object_def)
  ultimately have m: "mem_at (memory vm') (lr_base (linked_regions_demo ! 2) + 0 + of_nat 1) =
      Some (if sec_type ?s \<noteq> Sec_Bss \<and> 1 < length (sec_data ?s) then sec_data ?s ! 1 else 0)"
    by (rule linked_section_in_memory [OF e linked_object_good linked_merge l])
  have a: "lr_base (linked_regions_demo ! 2) + 0 + of_nat 1 = 0x200001"
    by (simp add: linked_regions_demo_def initRegions_def default_options_def link_layout)
  have b: "(if sec_type ?s \<noteq> Sec_Bss \<and> 1 < length (sec_data ?s) then sec_data ?s ! 1 else 0) = 8"
    by (simp add: linked_object_def)
  from m have "mem_at (memory vm') 0x200001 = Some 8" unfolding a b .
  with e l show ?thesis by blast
qed

text \<open>
  Merging gives every section that takes part an aligned place inside the region of its type,
  with its data followed by zeros, and two sections of one region never overlap: the later one in
  link order starts at or after the end of the earlier one.
\<close>

theorem sections_laid_out:
  assumes "mergeSections objects (initRegions options) = Inr (rgs, pss)" and "good_objects objects"
  shows "laid_out rgs (concat (map ob_sections objects)) (concat pss)"
  using assms mergeSections_ok(3) unfolding good_objects_def by blast

lemma sections_laid_out_witness:
  "laid_out linked_regions_demo (concat (map ob_sections [linked_object])) (concat [[Some (0, 0), Some (2, 0)]])"
  by (rule sections_laid_out [OF linked_merge linked_object_good])

text \<open>
  What resolving must answer.  On success every name with an exported definition stands for the
  first one, or for the first strong one when that is weak; a name without any has address 0 and a
  weak reference; every reference has an entry; no name has two strong definitions.  A failure names
  a symbol that clashes, or one that is referenced strongly and exported by nobody, or reports a
  definition without an address.
\<close>

definition resolution_spec ::
  "LinkRegion list \<Rightarrow> LinkSymbol list \<Rightarrow> (LinkError, Definitions \<times> Definitions) expected \<Rightarrow> bool" where
  "resolution_spec rgs xs res \<longleftrightarrow> (case res of
     Inr (defs, locals) \<Rightarrow>
       (\<forall>n d. winner (exported rgs xs) n = Some d \<longrightarrow> map_of defs n = Some d) \<and>
       (\<forall>n d. winner (exported rgs xs) n = None \<and> map_of defs n = Some d \<longrightarrow>
          df_address d = 0 \<and> (\<exists>x\<in>set xs. \<not> ls_defined x \<and> ls_name x = n \<and> ls_binding x = Weak)) \<and>
       (\<forall>x\<in>set xs. ls_defined x \<or> map_of defs (ls_name x) \<noteq> None) \<and>
       sorted_wrt (<) (map fst defs) \<and> locals = kept_local rgs xs \<and>
       (\<forall>n. \<not> clash (exported rgs xs) n) \<and>
       (\<forall>x\<in>set xs. ls_defined x \<longrightarrow> (\<exists>a. ls_address rgs x = Inr a))
   | Inl (DefinedTwice n) \<Rightarrow> clash (exported rgs xs) n
   | Inl (Undefined n source) \<Rightarrow>
       (\<exists>x\<in>set xs. ls_name x = n \<and> \<not> ls_defined x \<and> ls_binding x \<noteq> Weak \<and>
          source = sourceNameOf (fst x) (fst (snd x)) \<and> winner (exported rgs xs) n = None)
   | Inl e \<Rightarrow> \<exists>x\<in>set xs. ls_defined x \<and> ls_address rgs x = Inl e)"


definition reference :: "SymbolBinding \<Rightarrow> ObjectFile" where
  "reference binding =
     \<lparr> ob_version = 1, ob_sections = [],
       ob_symbols = snd (addSymbol \<lparr> sy_name = ''helper'', sy_binding = binding, sy_type = Sym_NoType,
                        sy_section = kUndefinedSection, sy_value = 0, sy_size = 0, sy_defined = False \<rparr>
                      empty_table),
       ob_relocations = [], ob_debug_info = [], ob_source_files = [''a.mtc''] \<rparr>"

text \<open>
  The order of the objects decides whether a missing symbol is reported: a strong reference to a
  symbol nobody defines is an error, unless an earlier object refers to it weakly; then it
  silently becomes address 0.
\<close>

theorem weak_reference_hides_missing_symbol:
  "resolveSymbols rgs (link_inputs [reference Extern, reference Weak] [[], []]) =
     Inl (Undefined ''helper'' ''a.mtc'') \<and>
   resolveSymbols rgs (link_inputs [reference Weak, reference Extern] [[], []]) =
     Inr ([(''helper'', \<lparr> df_address = 0, df_size = 0, df_binding = Weak, df_type = Sym_NoType,
              df_object = 0 \<rparr>)], [])"
  by (simp add: resolveSymbols_def link_inputs_def define_object_def require_object_def reference_def
      addSymbol_def empty_table_def define_symbol_def require_symbol_def sourceNameOf_def and_then_def
      Let_def)

end
