(* ===== verification/Assembler_Object.thy ===== *)
theory Assembler_Object
  imports Assembler_Safety Linker_Safety
begin

text \<open>
  The object file the assembler makes of a module is one the writer, the reader and the linker
  accept; the closed form of Assembler_Safety read label by label and item by item.
\<close>

subsection \<open>Modules the front end makes\<close>

definition alignment_ok :: "u64 \<Rightarrow> bool" where
  "alignment_ok a \<longleftrightarrow> a \<noteq> 0 \<and> a AND (a - 1) = 0"

fun item_ok :: "SectionKind \<Rightarrow> Item \<Rightarrow> bool" where
  "item_ok kind (It_Align alignment _) = alignment_ok alignment"
| "item_ok kind (It_SymbolValue width symbol _) =
     (kind \<noteq> Kind_Bss \<and> (width = 4 \<or> width = 8) \<and> printable (ref_name symbol))"
| "item_ok kind (It_Instruction instruction) =
     (kind \<noteq> Kind_Bss \<and> (case ii_symbol instruction of None \<Rightarrow> True | Some r \<Rightarrow> printable (ref_name r)))"
| "item_ok kind (It_Label name _ _) = printable name"
| "item_ok kind (It_Bytes _ _) = (kind \<noteq> Kind_Bss)"
| "item_ok kind (It_Space _ fill _) = (kind \<noteq> Kind_Bss \<or> fill = 0)"

text \<open>An upper bound on the bytes of an item.\<close>

fun item_room :: "Item \<Rightarrow> nat" where
  "item_room (It_Label _ _ _) = 0"
| "item_room (It_Instruction _) = 8"
| "item_room (It_Bytes data _) = length data"
| "item_room (It_SymbolValue width _ _) = unat width"
| "item_room (It_Space sz _ _) = unat sz"
| "item_room (It_Align alignment _) = unat alignment"

definition section_ok :: "IrSection \<Rightarrow> bool" where
  "section_ok s \<longleftrightarrow> alignment_ok (is_alignment s) \<and> list_all (item_ok (is_kind s)) (is_items s) \<and>
     sum_list (map item_room (is_items s)) < 2 ^ 63"

definition module_ok :: "Module \<Rightarrow> bool" where
  "module_ok m \<longleftrightarrow> list_all section_ok (mo_sections m) \<and> printable (mo_source_name m) \<and>
     list_all printable (mo_globals m @ mo_weaks m @ mo_externs m) \<and> card (set (module_names m)) < 2 ^ 32"

lemma module_ok_items:
  assumes "module_ok m"
  shows "list_all (item_ok kind) (items_of m kind)" and "sum_list (map item_room (items_of m kind)) < 2 ^ 63"
    and "findIrSection kind m = Some source \<Longrightarrow> alignment_ok (is_alignment source)"
proof -
  have s: "section_ok source \<and> is_kind source = kind" if "findIrSection kind m = Some source" for source
    using that assms by (auto simp: findIrSection_def module_ok_def list_all_iff dest!: find_SomeD)
  show "list_all (item_ok kind) (items_of m kind)" "sum_list (map item_room (items_of m kind)) < 2 ^ 63"
    using s by (auto simp: items_of_def section_ok_def split: option.split)
  show "alignment_ok (is_alignment source)" if "findIrSection kind m = Some source"
    using s [OF that] by (simp add: section_ok_def)
qed

subsection \<open>Bytes\<close>

lemma append_item_grows:
  assumes "item_ok kind item" and "length bytes + item_room item < 2 ^ 63"
  shows "\<exists>suffix. append_item item bytes = bytes @ suffix \<and> length suffix \<le> item_room item"
proof (cases item)
  case (It_Align a location)
  let ?v = "of_nat (length bytes) :: u64"
  have v: "unat ?v = length bytes" by (rule unat_of_nat_u64) (use assms(2) in simp)
  have a: "unat a \<le> 2 ^ 63" by (rule power_of_two_bound) (use assms(1) in \<open>auto simp: It_Align alignment_ok_def\<close>)
  have "0 < unat a" using assms(1) by (simp add: It_Align alignment_ok_def unat_gt_0)
  with alignUp_nat [of ?v a] a assms(2) v
  have "length bytes \<le> unat (alignUp ?v a) \<and> unat (alignUp ?v a) < length bytes + unat a" by simp
  then show ?thesis by (simp add: It_Align resize_grow le_diff_conv)
qed simp_all

lemma items_grow:
  assumes "list_all (item_ok kind) items" and "length bytes + sum_list (map item_room items) < 2 ^ 63"
  shows "\<exists>suffix. fold append_item items bytes = bytes @ suffix \<and> length suffix \<le> sum_list (map item_room items)"
  using assms
proof (induction items arbitrary: bytes)
  case (Cons item items)
  obtain s1 where 1: "append_item item bytes = bytes @ s1" "length s1 \<le> item_room item"
    using append_item_grows [of kind item bytes] Cons.prems by auto
  obtain s2 where "fold append_item items (bytes @ s1) = (bytes @ s1) @ s2"
    "length s2 \<le> sum_list (map item_room items)"
    using Cons.IH [of "bytes @ s1"] Cons.prems 1 by auto
  with 1 show ?case by auto
qed simp

lemma items_bytes_append: "items_bytes (xs @ ys) = fold append_item ys (items_bytes xs)"
  by (simp add: items_bytes_def)

lemma items_prefix:
  assumes "list_all (item_ok kind) (xs @ ys)" and "sum_list (map item_room (xs @ ys)) < 2 ^ 63"
  shows "\<exists>suffix. items_bytes (xs @ ys) = items_bytes xs @ suffix"
    and "length (items_bytes xs) \<le> sum_list (map item_room xs)"
proof -
  obtain s where s: "fold append_item xs [] = [] @ s" "length s \<le> sum_list (map item_room xs)"
    using items_grow [of kind xs "[]"] assms by auto
  then show l: "length (items_bytes xs) \<le> sum_list (map item_room xs)" by (simp add: items_bytes_def)
  show "\<exists>suffix. items_bytes (xs @ ys) = items_bytes xs @ suffix"
    using items_grow [of kind ys "items_bytes xs"] assms l by (auto simp: items_bytes_append)
qed

text \<open>An item occupies the bytes from the end of its predecessors on.\<close>

lemma item_place:
  assumes "list_all (item_ok kind) (xs @ item # ys)" and "sum_list (map item_room (xs @ item # ys)) < 2 ^ 63"
  shows "\<exists>own rest. append_item item (items_bytes xs) = items_bytes xs @ own \<and>
    items_bytes (xs @ item # ys) = items_bytes xs @ own @ rest"
proof -
  have "length (items_bytes xs) \<le> sum_list (map item_room xs)" using items_prefix(2) [OF assms] .
  then obtain own where own: "append_item item (items_bytes xs) = items_bytes xs @ own"
    using append_item_grows [of kind item "items_bytes xs"] assms by auto
  obtain rest where "items_bytes ((xs @ [item]) @ ys) = items_bytes (xs @ [item]) @ rest"
    using items_prefix(1) [of kind "xs @ [item]" ys] assms by auto
  with own show ?thesis by (simp add: items_bytes_append)
qed

subsection \<open>The object is well formed\<close>

lemma alignment_fold:
  "list_all (item_ok kind) items \<Longrightarrow> alignment_ok a \<Longrightarrow> alignment_ok (fold next_alignment items a)"
proof (induction items arbitrary: a)
  case (Cons item items)
  have "alignment_ok (next_alignment item a)" using Cons.prems by (cases item) (auto simp: max_def)
  with Cons show ?case by simp
qed simp

lemma module_kinds_length: "length (module_kinds m) \<le> 4"
  unfolding module_kinds_def kSectionOrder_def by (rule order_trans [OF length_filter_le]) simp

lemma spec_section_shape:
  assumes "module_ok m" and "kind \<in> set (module_kinds m)"
  shows "section_shape (spec_section m (i, kind))"
proof -
  obtain source where s: "findIrSection kind m = Some source" "is_items source = items_of m kind"
    using present_source [OF assms(2)] by blast
  note ok = module_ok_items [OF assms(1)]
  have "alignment_ok (alignment_of m kind)"
    unfolding alignment_of_def s(1) option.case by (rule alignment_fold [OF ok(1)]) (rule ok(3) [OF s(1)])
  moreover have "length (items_bytes (items_of m kind)) < 2 ^ 63"
    using items_prefix(2) [of kind "items_of m kind" "[]"] ok(1,2) [of kind] by auto
  then have "unat (of_nat (length (items_bytes (items_of m kind))) :: u64) = length (items_bytes (items_of m kind))"
    by (intro unat_of_nat_u64) simp
  moreover have "printable (sectionName kind)" by (cases kind) (simp_all add: printable_def)
  ultimately show ?thesis by (simp add: section_shape_def spec_section_def alignment_ok_def)
qed

lemma section_labels_at:
  "x \<in> set (section_labels index type items offset) \<longleftrightarrow>
     (\<exists>xs name l location ys. items = xs @ It_Label name l location # ys \<and>
        x = (name, index, fold next_offset xs offset, type))"
proof (induction items arbitrary: offset)
  case (Cons item items)
  let ?P = "\<lambda>items offset. \<exists>xs name l location ys. items = xs @ It_Label name l location # ys \<and>
        x = (name, index, fold next_offset xs offset, type)"
  have "?P (item # items) offset \<longleftrightarrow> (\<exists>name l location. item = It_Label name l location \<and> x = (name, index, offset, type)) \<or>
      ?P items (next_offset item offset)"
    (is "_ \<longleftrightarrow> ?head \<or> ?tail")
  proof
    assume "?P (item # items) offset"
    then obtain xs name l location ys where e: "item # items = xs @ It_Label name l location # ys"
      "x = (name, index, fold next_offset xs offset, type)" by blast
    show "?head \<or> ?tail"
    proof (cases xs)
      case (Cons z zs)
      with e have "items = zs @ It_Label name l location # ys"
        "x = (name, index, fold next_offset zs (next_offset item offset), type)" by simp_all
      then show ?thesis by blast
    qed (use e in simp)
  next
    assume "?head \<or> ?tail"
    then show "?P (item # items) offset"
    proof
      assume ?head
      then show ?thesis by (rule_tac exI [of _ "[]"]) auto
    next
      assume ?tail
      then obtain xs name l location ys where "items = xs @ It_Label name l location # ys"
        "x = (name, index, fold next_offset xs (next_offset item offset), type)" by blast
      then show ?thesis by (intro exI [of _ "item # xs"]) auto
    qed
  qed
  then show ?case using Cons.IH [of "next_offset item offset"] by (cases item) simp_all
qed simp


lemma set_enumerate: "set (enumerate 0 xs) = {(i, xs ! i) | i. i < length xs}"
  by (auto simp: in_set_enumerate_eq)

lemma module_labels_at:
  "x \<in> set (module_labels m) \<longleftrightarrow>
     (\<exists>i xs name l location ys. i < length (module_kinds m) \<and>
        items_of m (module_kinds m ! i) = xs @ It_Label name l location # ys \<and>
        x = (name, of_nat i, of_nat (length (items_bytes xs)), kind_symbol_type (module_kinds m ! i)))"
  by (auto simp: module_labels_def section_labels_at fold_image set_enumerate)

lemma section_references_printable:
  "list_all (item_ok kind) items \<Longrightarrow> r \<in> set (concat (map item_reference items)) \<Longrightarrow>
     printable (ref_name r) \<and> kind \<noteq> Kind_Bss"
proof (induction items)
  case (Cons item items)
  then show ?case by (cases item) (auto split: option.splits)
qed simp

lemma module_names_printable:
  assumes "module_ok m" and "n \<in> set (module_names m)"
  shows "printable n"
proof -
  have lab: "printable n" if l: "(n, p) \<in> set (module_labels m)" for p
  proof -
    from l obtain i xs k location ys where
      "items_of m (module_kinds m ! i) = xs @ It_Label n k location # ys" by (auto simp: module_labels_at)
    with module_ok_items(1) [OF assms(1), of "module_kinds m ! i"] show ?thesis by simp
  qed
  have ref: "printable (ref_name r)" if "r \<in> set (module_references m)" for r
    using that section_references_printable [OF module_ok_items(1) [OF assms(1)]]
    unfolding module_references_def by fastforce
  show ?thesis
    using assms lab ref unfolding module_names_def module_ok_def by (auto simp: list_all_iff)
qed

lemma section_relocations_shape:
  assumes "rel \<in> set (section_relocations index_of index items bytes)" and "list_all (item_ok kind) items"
    and "length bytes + sum_list (map item_room items) < 2 ^ 63"
  shows "rel_section rel = index \<and> (\<exists>r \<in> set (concat (map item_reference items)). rel_symbol rel = index_of (ref_name r)) \<and>
    unat (rel_offset rel) + relocationWidth (rel_type rel) \<le> length (fold append_item items bytes)"
  using assms
proof (induction items arbitrary: bytes)
  case (Cons item items)
  obtain s1 where s1: "append_item item bytes = bytes @ s1" "length s1 \<le> item_room item"
    using append_item_grows [of kind item bytes] Cons.prems by auto
  obtain s2 where s2: "fold append_item items (bytes @ s1) = (bytes @ s1) @ s2"
    using items_grow [of kind items "bytes @ s1"] Cons.prems s1 by auto
  show ?case
  proof (cases "rel \<in> set (section_relocations index_of index items (append_item item bytes))")
    case True
    then show ?thesis using Cons.IH [of "bytes @ s1"] Cons.prems s1 by auto
  next
    case False
    have u: "unat (of_nat (length bytes) :: u64) = length bytes"
      by (rule unat_of_nat_u64) (use Cons.prems(3) in simp)
    show ?thesis
      using False Cons.prems s1 s2
      by (cases item) (auto simp: u relocationForInstruction_def split: option.splits if_splits)
  qed
qed simp

lemma section_debug_shape:
  "entry \<in> set (section_debug index items bytes) \<Longrightarrow> od_section entry = index \<and> od_file entry = 0"
proof (induction items arbitrary: bytes)
  case (Cons item items)
  then show ?case by (cases item) auto
qed simp

lemma spec_object_ok:
  assumes ok: "module_ok m"
  shows "object_ok (spec_object m)"
proof -
  let ?ks = "module_kinds m" and ?names = "module_names m"
  have card: "card (set ?names) < 2 ^ 32" using ok by (simp add: module_ok_def)
  have lt: "unat (of_nat i :: u32) = i" if "i < length ?ks" for i
    by (rule unat_of_nat_u32) (use that module_kinds_length [of m] in simp)
  have at: "map (spec_section m) (enumerate 0 ?ks) ! i = spec_section m (i, ?ks ! i)" if "i < length ?ks" for i
    using that by (simp add: nth_enumerate_eq)
  have sections: "list_all section_shape (map (spec_section m) (enumerate 0 ?ks))"
    using spec_section_shape [OF ok] by (auto simp: list_all_iff set_enumerate)
  have index: "unat (name_index ?names n) < length (firsts ?names)" "firsts ?names ! unat (name_index ?names n) = n"
    if "n \<in> set ?names" for n using name_index_unat [OF card that] .
  have nm: "sy_name (spec_symbol m n) = n" for n by (simp add: spec_symbol_def Let_def split: option.split)
  have table: "table_ok (ob_symbols (spec_object m))"
  proof -
    have "name_index ?names (firsts ?names ! k) = of_nat k" if k: "k < length (firsts ?names)" for k
    proof -
      have "firsts ?names ! k \<in> set ?names" using k by (metis nth_mem set_firsts)
      from index [OF this] k have "unat (name_index ?names (firsts ?names ! k)) = k"
        by (metis distinct_firsts nth_eq_iff_index_eq)
      then show ?thesis by (metis of_nat_unat ucast_id)
    qed
    then show ?thesis
      using card index nm by (auto simp: table_ok_def spec_object_def Let_def length_firsts)
        (metis length_firsts nth_mem set_firsts)+
  qed
  have sym: "symbol_shape (length ?ks) (spec_symbol m n)" if "n \<in> set ?names" for n
  proof (cases "map_of (module_labels m) n")
    case None
    then show ?thesis using module_names_printable [OF ok that] nm [of n]
      by (simp add: symbol_shape_def spec_symbol_def Let_def blank_symbol_def)
  next
    case (Some p)
    then have "(n, p) \<in> set (module_labels m)" by (rule map_of_SomeD)
    then obtain i where "i < length ?ks" "fst p = of_nat i" by (auto simp: module_labels_at)
    then show ?thesis using module_names_printable [OF ok that] nm [of n] Some lt
      by (auto simp: symbol_shape_def spec_symbol_def Let_def label_symbol_def split: prod.split)
  qed
  have rel: "relocation_shape (map (spec_section m) (enumerate 0 ?ks)) (length (firsts ?names)) rel"
    if i: "i < length ?ks" and r: "rel \<in> set (section_relocations (name_index ?names) (of_nat i) (items_of m (?ks ! i)) [])"
    for i rel
  proof -
    note items = module_ok_items(1,2) [OF ok, of "?ks ! i"]
    obtain q where q: "rel_section rel = of_nat i" "q \<in> set (concat (map item_reference (items_of m (?ks ! i))))"
      "rel_symbol rel = name_index ?names (ref_name q)"
      "unat (rel_offset rel) + relocationWidth (rel_type rel) \<le> length (items_bytes (items_of m (?ks ! i)))"
      using section_relocations_shape [OF r items(1)] items(2) by (auto simp: items_bytes_def)
    have "ref_name q \<in> set ?names"
      using q(2) i unfolding module_names_def module_references_def by fastforce
    moreover have "?ks ! i \<noteq> Kind_Bss" using section_references_printable [OF items(1) q(2)] by simp
    ultimately show ?thesis
      using q index i lt at by (simp add: relocation_shape_def spec_section_def sectionHasData_def)
  qed
  show ?thesis
    unfolding object_ok_def
  proof (intro conjI table)
    show "list_all (relocation_shape (ob_sections (spec_object m)) (length (st_symbols (ob_symbols (spec_object m)))))
        (ob_relocations (spec_object m))"
      using rel by (auto simp: spec_object_def Let_def list_all_iff set_enumerate)
    show "list_all (debug_shape (length (ob_sections (spec_object m))) (length (ob_source_files (spec_object m))))
        (ob_debug_info (spec_object m))"
      using lt by (fastforce simp: spec_object_def Let_def list_all_iff set_enumerate debug_shape_def
        dest!: section_debug_shape)
    show "list_all (symbol_shape (length (ob_sections (spec_object m)))) (st_symbols (ob_symbols (spec_object m)))"
      using sym by (simp add: spec_object_def Let_def list_all_iff)
  qed (use sections ok in \<open>simp_all add: spec_object_def Let_def module_ok_def\<close>)
qed

subsection \<open>Assembled sections in the linked image\<close>

lemma zip_concat:
  "map length xss = map length yss \<Longrightarrow>
     zip (concat xss) (concat yss) = concat (map (\<lambda>(xs, ys). zip xs ys) (zip xss yss))"
proof (induction xss arbitrary: yss)
  case (Cons xs xss)
  then obtain ys yss' where "yss = ys # yss'" "length xs = length ys" "map length xss = map length yss'"
    by (cases yss) auto
  with Cons.IH [of yss'] show ?case by simp
qed simp

lemma sorted_wrt_concat:
  assumes "sorted_wrt P (concat zss)" and "k < length zss" and "i < length (zss ! k)"
    and "l < length zss" and "j < length (zss ! l)" and "k \<noteq> l \<or> i \<noteq> j"
  shows "P (zss ! k ! i) (zss ! l ! j) \<or> P (zss ! l ! j) (zss ! k ! i)"
  using assms
proof (induction zss arbitrary: k l)
  case (Cons zs zss)
  have s: "sorted_wrt P zs" "sorted_wrt P (concat zss)" "\<forall>x \<in> set zs. \<forall>y \<in> set (concat zss). P x y"
    using Cons.prems(1) by (simp_all add: sorted_wrt_append)
  have in_rest: "zss ! n ! q \<in> set (concat zss)" if "n < length zss" "q < length (zss ! n)" for n q
    using that by (auto simp: set_concat intro!: bexI [of _ "zss ! n"])
  show ?case
  proof (cases k; cases l)
    assume "k = 0" "l = 0"
    then show ?thesis using Cons.prems s(1) by (cases "i < j") (auto simp: sorted_wrt_iff_nth_less)
  next
    fix k' l' assume "k = Suc k'" "l = Suc l'"
    then show ?thesis using Cons.IH [OF s(2), of k' l'] Cons.prems by auto
  next
    fix l' assume "k = 0" "l = Suc l'"
    then show ?thesis using s(3) in_rest [of l' j] Cons.prems by auto
  next
    fix k' assume "k = Suc k'" "l = 0"
    then show ?thesis using s(3) in_rest [of k' i] Cons.prems by auto
  qed
qed simp

lemma placements_apart:
  assumes "laid_out rgs (concat (map ob_sections objects)) (concat pss)"
    and "map length pss = map (length \<circ> ob_sections) objects"
    and "k < length objects" and "i < length (ob_sections (objects ! k))" and "pss ! k ! i = Some (r, off)"
    and "l < length objects" and "j < length (ob_sections (objects ! l))" and "pss ! l ! j = Some (r, off')"
    and "k \<noteq> l \<or> i \<noteq> j"
  shows "unat off + unat (sec_size (ob_sections (objects ! k) ! i)) \<le> unat off' \<or>
    unat off' + unat (sec_size (ob_sections (objects ! l) ! j)) \<le> unat off"
proof -
  define zss where "zss = map (\<lambda>(xs, ys). zip xs ys) (zip (map ob_sections objects) pss)"
  have lens: "map length (map ob_sections objects) = map length pss" using assms(2) by simp
  have n: "length pss = length objects" using assms(2) map_eq_imp_length_eq by fastforce
  have len: "length (pss ! n') = length (ob_sections (objects ! n'))" if "n' < length objects" for n'
    using assms(2) that n by (metis comp_apply nth_map)
  have s: "sorted_wrt in_order (concat zss)"
    using assms(1) unfolding laid_out_def zip_concat [OF lens] zss_def by blast
  have z: "zss ! n' ! q = (ob_sections (objects ! n') ! q, pss ! n' ! q)" "q < length (zss ! n')"
    if "n' < length objects" "q < length (ob_sections (objects ! n'))" for n' q
    using that n len by (simp_all add: zss_def)
  have l: "length zss = length objects" using n by (simp add: zss_def)
  from sorted_wrt_concat [OF s, of k i l j] show ?thesis
    using assms(3-9) z [of k i] z [of l j] l by auto
qed

lemma placement_pair:
  assumes "map length pss = map (length \<circ> ob_sections) objects"
    and "k < length objects" and "i < length (ob_sections (objects ! k))"
  shows "(ob_sections (objects ! k) ! i, pss ! k ! i) \<in> set (zip (concat (map ob_sections objects)) (concat pss))"
proof -
  have lens: "map length (map ob_sections objects) = map length pss" using assms(1) by simp
  have n: "length pss = length objects" using assms(1) map_eq_imp_length_eq by fastforce
  have "length (pss ! k) = length (ob_sections (objects ! k))"
    using assms(1,2) n by (metis comp_apply nth_map)
  then have "(ob_sections (objects ! k) ! i, pss ! k ! i) \<in> set (zip (ob_sections (objects ! k)) (pss ! k))"
    using assms(3) by (auto simp: in_set_zip)
  moreover have "(ob_sections (objects ! k), pss ! k) \<in> set (zip (map ob_sections objects) pss)"
    using assms(2) n by (auto simp: in_set_zip intro!: exI [of _ k])
  ultimately show ?thesis unfolding zip_concat [OF lens] by (auto intro!: bexI)
qed

lemma placement_placed:
  assumes "laid_out rgs (concat (map ob_sections objects)) (concat pss)"
    and "map length pss = map (length \<circ> ob_sections) objects"
    and "k < length objects" and "i < length (ob_sections (objects ! k))" and "pss ! k ! i = Some (r, off)"
  shows "placed_at rgs (ob_sections (objects ! k) ! i) r off"
proof -
  have "placement_ok rgs (ob_sections (objects ! k) ! i) (pss ! k ! i)"
    using assms(1) placement_pair [OF assms(2-4)] unfolding laid_out_def list_all2_iff by blast
  then show ?thesis using assms(5) by (simp add: placement_ok_def)
qed

lemma section_relocations_append:
  "section_relocations f index (xs @ ys) bytes =
     section_relocations f index xs bytes @ section_relocations f index ys (fold append_item xs bytes)"
  by (induction xs arbitrary: bytes) simp_all

lemma section_relocations_from:
  assumes "rel \<in> set (section_relocations f index items bytes)" and "list_all (item_ok kind) items"
    and "length bytes + sum_list (map item_room items) < 2 ^ 63"
  shows "length bytes \<le> unat (rel_offset rel)"
  using assms
proof (induction items arbitrary: bytes)
  case (Cons item items)
  obtain s1 where s1: "append_item item bytes = bytes @ s1" "length s1 \<le> item_room item"
    using append_item_grows [of kind item bytes] Cons.prems by auto
  have u: "unat (of_nat (length bytes) :: u64) = length bytes"
    by (rule unat_of_nat_u64) (use Cons.prems(3) in simp)
  show ?case
    using Cons.IH [of "bytes @ s1"] Cons.prems s1 u by auto
qed simp

text \<open>No relocation of a section touches the bytes of an item without a reference.\<close>

lemma own_relocations_apart:
  assumes "list_all (item_ok kind) (xs @ item # ys)" and "sum_list (map item_room (xs @ item # ys)) < 2 ^ 63"
    and "item_reference item = []" and "rel \<in> set (section_relocations f index (xs @ item # ys) [])"
  shows "unat (rel_offset rel) + relocationWidth (rel_type rel) \<le> length (items_bytes xs) \<or>
    length (append_item item (items_bytes xs)) \<le> unat (rel_offset rel)"
proof -
  have l: "length (items_bytes xs) \<le> sum_list (map item_room xs)" using items_prefix(2) [OF assms(1,2)] .
  obtain own where own: "append_item item (items_bytes xs) = items_bytes xs @ own" "length own \<le> item_room item"
    using append_item_grows [of kind item "items_bytes xs"] assms(1,2) l by auto
  have "rel \<in> set (section_relocations f index xs []) \<or>
      rel \<in> set (section_relocations f index ys (append_item item (items_bytes xs)))"
    using assms(3,4) by (auto simp: section_relocations_append items_bytes_def)
  then show ?thesis
  proof
    assume "rel \<in> set (section_relocations f index xs [])"
    from section_relocations_shape [OF this, of kind] assms(1,2) show ?thesis by (auto simp: items_bytes_def)
  next
    assume "rel \<in> set (section_relocations f index ys (append_item item (items_bytes xs)))"
    from section_relocations_from [OF this, of kind] assms(1,2) own l show ?thesis by auto
  qed
qed

lemma assemble_Inr:
  assumes "card (set (module_names m)) < 2 ^ 32" and "fst (assemble m d) = Inr ob"
  shows "ob = spec_object m" and "\<not> assembly_fails m"
  using assms(2) run_assembly_spec [OF assms(1), of d] by (auto simp: assemble_def Let_def split: if_splits)

lemma spec_label_symbol:
  assumes "\<not> assembly_fails m" and "i < length (module_kinds m)"
    and "items_of m (module_kinds m ! i) = xs @ It_Label name l location # ys"
    and "card (set (module_names m)) < 2 ^ 32"
  shows "\<exists>s. st_find (ob_symbols (spec_object m)) name = Some s \<and> sy_defined s \<and> sy_section s = of_nat i \<and>
    sy_value s = of_nat (length (items_bytes xs))"
proof -
  let ?p = "(of_nat i, of_nat (length (items_bytes xs)), kind_symbol_type (module_kinds m ! i))"
  have in_labels: "(name, ?p) \<in> set (module_labels m)"
    unfolding module_labels_at using assms(2,3) by blast
  moreover have "distinct (map fst (module_labels m))" using assms(1) by (simp add: assembly_fails_def)
  ultimately have p: "map_of (module_labels m) name = Some ?p" by simp
  have n: "name \<in> set (module_names m)" using in_labels by (force simp: module_names_def)
  have "st_find (ob_symbols (spec_object m)) name = Some (spec_symbol m name)"
    using n name_index_unat [OF assms(4) n] by (simp add: st_find_def spec_object_def Let_def)
  moreover have "spec_symbol m name = (label_symbol name ?p)\<lparr> sy_binding := sy_binding (spec_symbol m name) \<rparr>"
    using p by (simp add: spec_symbol_def Let_def label_symbol_def)
  ultimately show ?thesis by (intro exI [of _ "spec_symbol m name"]) (simp add: p spec_symbol_def label_symbol_def Let_def)
qed

definition assembled :: "Module \<Rightarrow> ObjectFile \<Rightarrow> bool" where
  "assembled m ob \<longleftrightarrow> module_ok m \<and> (\<exists>d. fst (assemble m d) = Inr ob)"

lemma assembled_spec:
  assumes "assembled m ob"
  shows "ob = spec_object m" and "\<not> assembly_fails m" and "object_ok ob" and "module_ok m"
  using assms assemble_Inr [of m _ ob] spec_object_ok [of m] by (auto simp: assembled_def module_ok_def)

lemma assembled_good: "list_all2 assembled ms objects \<Longrightarrow> good_objects objects"
  using assembled_spec(3) by (fastforce simp: good_objects_def object_ok_def list_all2_conv_all_nth in_set_conv_nth)

lemma spec_object_section:
  "i < length (module_kinds m) \<Longrightarrow> ob_sections (spec_object m) ! i = spec_section m (i, module_kinds m ! i)"
  by (simp add: spec_object_def Let_def nth_enumerate_eq)

lemma assembled_section_size:
  assumes "module_ok m"
  shows "unat (sec_size (spec_section m (i, kind))) = length (items_bytes (items_of m kind))"
proof -
  have "length (items_bytes (items_of m kind)) < 2 ^ 63"
    using items_prefix(2) [of kind "items_of m kind" "[]"] module_ok_items(1,2) [OF assms, of kind] by auto
  then show ?thesis unfolding spec_section_def by simp (intro unat_of_nat_u64, simp)
qed

lemma assembled_item_unrelocated:
  assumes objects: "list_all2 assembled ms objects"
    and merge: "mergeSections objects (initRegions options) = Inr (rgs, pss)"
    and k: "k < length ms" and i: "i < length (module_kinds (ms ! k))" and p: "pss ! k ! i = Some (r, off)"
    and items: "items_of (ms ! k) (module_kinds (ms ! k) ! i) = xs @ item # ys" and "item_reference item = []"
    and j: "length (items_bytes xs) \<le> j" "j < length (append_item item (items_bytes xs))"
  shows "\<not> relocated (link_inputs objects pss) r (unat off + j)"
proof
  note m = mergeSections_ok [OF merge assembled_good [OF objects, unfolded good_objects_def]]
  have len: "length objects = length ms" using objects by (auto dest: list_all2_lengthD)
  have spec: "objects ! n = spec_object (ms ! n)" "module_ok (ms ! n)" "\<not> assembly_fails (ms ! n)" if "n < length ms" for n
    using objects that assembled_spec [of "ms ! n" "objects ! n"] by (auto simp: list_all2_conv_all_nth)
  assume "relocated (link_inputs objects pss) r (unat off + j)"
  then obtain l rel off2 where l: "l < length ms" "rel \<in> set (ob_relocations (objects ! l))"
    "pss ! l ! unat (rel_section rel) = Some (r, off2)" "unat (off2 + rel_offset rel) \<le> unat off + j"
    "unat off + j < unat (off2 + rel_offset rel) + relocationWidth (rel_type rel)"
    using len by (auto simp: relocated_def link_inputs_def in_set_zip)
  obtain q where q: "q < length (module_kinds (ms ! l))"
    "rel \<in> set (section_relocations (name_index (module_names (ms ! l))) (of_nat q)
      (items_of (ms ! l) (module_kinds (ms ! l) ! q)) [])"
    using l(1,2) spec by (auto simp: spec_object_def Let_def set_enumerate)
  let ?items = "items_of (ms ! l) (module_kinds (ms ! l) ! q)"
  note ok = module_ok_items(1,2) [OF spec(2) [OF l(1)], of "module_kinds (ms ! l) ! q"]
  have sh: "rel_section rel = of_nat q"
    "unat (rel_offset rel) + relocationWidth (rel_type rel) \<le> length (items_bytes ?items)"
    using section_relocations_shape [OF q(2) ok(1)] ok(2) by (auto simp: items_bytes_def)
  have u: "unat (of_nat q :: u32) = q" using q(1) module_kinds_length [of "ms ! l"] by (intro unat_of_nat_u32) simp
  have place: "pss ! l ! q = Some (r, off2)" using l(3) sh(1) u by simp
  have sl: "q < length (ob_sections (objects ! l))" using q(1) spec(1) [OF l(1)] by (simp add: spec_object_def Let_def)
  have si: "i < length (ob_sections (objects ! k))" using i spec(1) [OF k] by (simp add: spec_object_def Let_def)
  have sizes: "unat (sec_size (ob_sections (objects ! n) ! c)) = length (items_bytes (items_of (ms ! n) (module_kinds (ms ! n) ! c)))"
    if "n < length ms" "c < length (module_kinds (ms ! n))" for n c
    using that spec by (simp add: spec_object_section assembled_section_size)
  have pl: "placed_at rgs (ob_sections (objects ! l) ! q) r off2"
    by (rule placement_placed [OF m(3,4) _ sl place]) (use l(1) len in simp)
  have "unat off2 + unat (sec_size (ob_sections (objects ! l) ! q)) \<le> 0xF0000"
    using pl m(1) by (auto simp: placed_at_def list_all_length lregion_ok_def)
  then have nw: "unat (off2 + rel_offset rel) = unat off2 + unat (rel_offset rel)"
    using sh(2) sizes [OF l(1) q(1)] by (intro unat_add_no_wrap) simp
  have grow: "\<exists>rest. items_bytes (xs @ item # ys) = append_item item (items_bytes xs) @ rest"
    using item_place [of "module_kinds (ms ! k) ! i" xs item ys]
      module_ok_items(1,2) [OF spec(2) [OF k], of "module_kinds (ms ! k) ! i"] items by auto
  show False
  proof (cases "k = l \<and> i = q")
    case True
    then have "off2 = off" using place p by simp
    moreover have "unat (rel_offset rel) + relocationWidth (rel_type rel) \<le> length (items_bytes xs) \<or>
        length (append_item item (items_bytes xs)) \<le> unat (rel_offset rel)"
      using own_relocations_apart [of "module_kinds (ms ! k) ! i" xs item ys rel] assms(7) True items ok q(2) by auto
    ultimately show False using l(4,5) j nw by auto
  next
    case False
    then have "unat off + unat (sec_size (ob_sections (objects ! k) ! i)) \<le> unat off2 \<or>
      unat off2 + unat (sec_size (ob_sections (objects ! l) ! q)) \<le> unat off"
      by (intro placements_apart [OF m(3,4) _ si p _ sl place]) (use k l(1) len in auto)
    moreover have "j < length (items_bytes (items_of (ms ! k) (module_kinds (ms ! k) ! i)))"
      using j grow items by auto
    ultimately show False
      using l(4,5) nw sh(2) sizes [OF l(1) q(1)] sizes [OF k i] by linarith
  qed
qed


text \<open>
  C12: the assembler computes its reference definition: it fails exactly when a label is defined
  twice, an external name is defined here, a local label is used but neither defined nor declared,
  an instruction cannot be encoded or a non-zero byte lands in .bss; otherwise the object is the one
  that lists the bytes of the items, with every label at the number of bytes before it and one
  relocation per reference.
\<close>

theorem assembler_meets_reference:
  assumes "card (set (module_names m)) < 2 ^ 32"
  shows "assemble m d =
    (if assembly_fails m
     then Inl (nat_str (de_error_count (snd (assemble m d))) @ '' error(s) while assembling'')
     else Inr (spec_object m), snd (assemble m d))"
  using run_assembly_spec [OF assms, of d] by (simp add: assemble_def Let_def)

definition demo_module :: Module where
  "demo_module = \<lparr> mo_source_name = ''demo.asm'',
     mo_sections = [\<lparr> is_kind = Kind_Text, is_name = ''.text'', is_alignment = 8,
       is_items = [It_Label ''_start'' False no_location,
         It_Instruction \<lparr> ii_machine = mk_instr OP_MOVI 1 0 7, ii_symbol = None, ii_location = no_location \<rparr>,
         It_Instruction \<lparr> ii_machine = mk_instr OP_JMP 0 0 0,
           ii_symbol = Some \<lparr> ref_name = ''_start'', ref_addend = 0 \<rparr>, ii_location = no_location \<rparr>] \<rparr>],
     mo_globals = [''_start''], mo_externs = [], mo_weaks = [] \<rparr>"

lemma demo_module_names: "module_names demo_module = [''_start'', ''_start'', ''_start'']"
  by code_simp

lemma assembler_meets_reference_witness:
  "assemble demo_module empty_engine = (Inr (spec_object demo_module), empty_engine)"
proof -
  have "card (set (module_names demo_module)) < 2 ^ 32" unfolding demo_module_names by simp
  moreover have "\<not> assembly_fails demo_module" by code_simp
  moreover have "snd (assemble demo_module empty_engine) = empty_engine" by code_simp
  ultimately show ?thesis using assembler_meets_reference [of demo_module empty_engine] by simp
qed

lemma demo_assembled: "assembled demo_module (spec_object demo_module)"
proof -
  have "card (set (module_names demo_module)) < 2 ^ 32" unfolding demo_module_names by simp
  moreover have "list_all section_ok (mo_sections demo_module)"
    by (simp add: demo_module_def section_ok_def alignment_ok_def printable_def)
  ultimately have "module_ok demo_module" by (simp add: module_ok_def) (simp add: demo_module_def printable_def)
  then show ?thesis using assembler_meets_reference_witness by (auto simp: assembled_def intro!: exI [of _ empty_engine])
qed

text \<open>
  C13: the object assembled from a module the front end makes is well formed: written to a file it is
  read back unchanged, and an image linked from such objects at the default addresses loads.
\<close>

theorem assembled_objects_link_and_load:
  assumes "list_all2 assembled ms objects" and "link default_options objects = Inr e"
  shows "(\<exists>vm'. load e vm = (Inr (), vm')) \<and>
    (\<forall>ob \<in> set objects. \<forall>buf. writeObjectToBuffer ob = Inr buf \<longrightarrow> readObjectFromBuffer buf = Inr ob)"
proof
  show "\<exists>vm'. load e vm = (Inr (), vm')"
    by (rule default_image_loads [OF assms(2) assembled_good [OF assms(1)]])
  have "object_ok ob" if "ob \<in> set objects" for ob
    using assms(1) that assembled_spec(3) by (metis in_set_conv_nth list_all2_conv_all_nth)
  then show "\<forall>ob \<in> set objects. \<forall>buf. writeObjectToBuffer ob = Inr buf \<longrightarrow> readObjectFromBuffer buf = Inr ob"
    using object_round_trip_image by blast
qed

lemma demo_links: "\<exists>e. link default_options [spec_object demo_module] = Inr e"
proof -
  have "is_Inr (link default_options [spec_object demo_module])" by code_simp
  then show ?thesis by (simp add: is_Inr_def split: sum.splits)
qed

lemma assembled_objects_link_and_load_witness:
  "\<exists>e vm'. link default_options [spec_object demo_module] = Inr e \<and> load e demo_machine = (Inr (), vm')"
  using demo_links assembled_objects_link_and_load [of "[demo_module]" "[spec_object demo_module]"] demo_assembled
  by fastforce


definition demo_regions :: "LinkRegion list" where
  "demo_regions = (initRegions default_options)
     [0 := (initRegions default_options ! 0)\<lparr> lr_size := 16, lr_data := items_bytes (items_of demo_module Kind_Text) \<rparr>]"

lemma demo_merge:
  "mergeSections [spec_object demo_module] (initRegions default_options) = Inr (demo_regions, [[Some (0, 0)]])"
  by code_simp


end
