(* ===== verification/Lower_Safety.thy ===== *)
theory Lower_Safety
  imports Lower Sema_Safety Assembler_Object
begin

text \<open>
  What lowering makes of a program the semantic analyzer accepted, in closed form: every statement
  belongs to the section the last \<open>.section\<close> before it names, a section holds the items of its
  statements in their order, and lowering fails exactly when a statement stands in a section that
  cannot hold it.
\<close>

subsection \<open>The specification\<close>

fun section_after :: "Statement \<Rightarrow> SectionKind \<Rightarrow> SectionKind" where
  "section_after (St_Directive node) kind =
     (if dn_type node = Dir_Section
      then case sectionKindFromName (op_symbol (hd (dn_operands node))) of None \<Rightarrow> kind | Some k \<Rightarrow> k
      else kind)"
| "section_after _ kind = kind"

fun in_sections :: "SectionKind \<Rightarrow> Program \<Rightarrow> (SectionKind \<times> Statement) list" where
  "in_sections kind [] = []"
| "in_sections kind (s # ss) = (kind, s) # in_sections (section_after s kind) ss"

definition last_section :: "Program \<Rightarrow> SectionKind" where
  "last_section ss = fold section_after ss Kind_Text"

definition fill_of :: "DirectiveNode \<Rightarrow> u8" where
  "fill_of node = (case dn_operands node of _ # b # _ \<Rightarrow> ucast (op_immediate b AND 0xFF) | _ \<Rightarrow> 0)"

fun may_stand :: "SectionKind \<times> Statement \<Rightarrow> bool" where
  "may_stand (kind, St_Instruction _) = (kind = Kind_Text)"
| "may_stand (kind, St_Label _) = True"
| "may_stand (kind, St_Directive node) =
     (kind \<noteq> Kind_Bss \<or>
      \<not> (dataDirectiveWidth (dn_type node) \<noteq> 0 \<or> dn_type node = Dir_Asciz \<or> dn_type node = Dir_Space \<and> fill_of node \<noteq> 0))"

definition flushed :: "SourceLocation \<Rightarrow> u8 list \<Rightarrow> Item list" where
  "flushed location pending = (if pending = [] then [] else [It_Bytes pending location])"

fun data_items :: "u32 \<Rightarrow> SourceLocation \<Rightarrow> Operand list \<Rightarrow> u8 list \<Rightarrow> Item list" where
  "data_items width location [] pending = flushed location pending"
| "data_items width location (opd # opds) pending =
     (if op_type opd = OT_Symbol
      then flushed location pending @ It_SymbolValue width
             \<lparr> ref_name = op_symbol opd, ref_addend = op_immediate opd \<rparr> (op_location opd) # data_items width location opds []
      else data_items width location opds (pending @ le_bytes (unat width) (op_immediate opd)))"

fun statement_items :: "Statement \<Rightarrow> Item list" where
  "statement_items (St_Label node) = [It_Label (ln_name node) (ln_local node) (ln_location node)]"
| "statement_items (St_Instruction node) =
     (case findMnemonic (in_mnemonic node) of
        None \<Rightarrow> []
      | Some info \<Rightarrow> (case lower_operands info (in_operands node) (in_location node) of
            None \<Rightarrow> [] | Some instruction \<Rightarrow> [It_Instruction instruction]))"
| "statement_items (St_Directive node) =
     (if dataDirectiveWidth (dn_type node) \<noteq> 0
      then data_items (dataDirectiveWidth (dn_type node)) (dn_location node) (dn_operands node) []
      else case (dn_type node, dn_operands node) of
        (Dir_Asciz, a # _) \<Rightarrow> [It_Bytes (bytes_of (op_text a) @ [0]) (dn_location node)]
      | (Dir_Align, a # _) \<Rightarrow> [It_Align (op_immediate a) (dn_location node)]
      | (Dir_Space, a # _) \<Rightarrow> [It_Space (op_immediate a) (fill_of node) (dn_location node)]
      | _ \<Rightarrow> [])"

definition lowered_items :: "Program \<Rightarrow> SectionKind \<Rightarrow> Item list" where
  "lowered_items ss kind =
     concat (map (\<lambda>(k, s). if k = kind \<and> may_stand (k, s) then statement_items s else []) (in_sections Kind_Text ss))"

definition section_order :: "Program \<Rightarrow> SectionKind list" where
  "section_order ss = rev (remdups (rev (map fst (in_sections Kind_Text ss) @ [last_section ss])))"

definition listed_names :: "DirectiveType \<Rightarrow> Program \<Rightarrow> string list" where
  "listed_names type ss = concat (map (\<lambda>s. case s of
     St_Directive node \<Rightarrow> if dn_type node = type then map op_symbol (dn_operands node) else [] | _ \<Rightarrow> []) ss)"

definition lowered_module :: "string \<Rightarrow> Program \<Rightarrow> Module" where
  "lowered_module name ss =
     \<lparr> mo_source_name = name,
       mo_sections = map (\<lambda>kind. (new_section kind)\<lparr> is_items := lowered_items ss kind \<rparr>) (section_order ss),
       mo_globals = listed_names Dir_Global ss, mo_externs = listed_names Dir_Extern ss,
       mo_weaks = listed_names Dir_Weak ss \<rparr>"

definition well_placed :: "Program \<Rightarrow> bool" where
  "well_placed ss \<longleftrightarrow> list_all may_stand (in_sections Kind_Text ss)"

lemma in_sections_append: "in_sections kind (ss @ ts) = in_sections kind ss @ in_sections (fold section_after ss kind) ts"
  by (induction ss arbitrary: kind) simp_all

subsection \<open>Emitting\<close>

definition spread :: "SectionKind list \<Rightarrow> (SectionKind \<Rightarrow> Item list) \<Rightarrow> IrSection list" where
  "spread order f = map (\<lambda>kind. (new_section kind)\<lparr> is_items := f kind \<rparr>) order"

lemma new_section_kind [simp]: "is_kind (new_section kind) = kind" "is_items (new_section kind) = []"
  by (simp_all add: new_section_def)

lemma spread_index:
  "section_index kind (spread order f) = (if kind \<in> set order then Some (length (takeWhile (\<lambda>k. k \<noteq> kind) order)) else None)"
  by (induction order) (auto simp: spread_def)

lemma spread_update:
  assumes "distinct order" and "kind \<in> set order" and "i = length (takeWhile (\<lambda>k. k \<noteq> kind) order)"
  shows "(spread order f)[i := (spread order f ! i)\<lparr> is_items := is_items (spread order f ! i) @ items \<rparr>] =
    spread order (f(kind := f kind @ items))"
proof -
  have i: "i < length order" "order ! i = kind"
    using takeWhile_first [OF assms(2)] by (simp_all add: assms(3))
  show ?thesis
    by (rule nth_equalityI)
      (use assms(1) i in \<open>auto simp: spread_def nth_list_update nth_eq_iff_index_eq\<close>)
qed

text \<open>The lowerer over a module in this form.\<close>

definition lowerer_is ::
  "string \<Rightarrow> SectionKind list \<Rightarrow> (SectionKind \<Rightarrow> Item list) \<Rightarrow> string list \<Rightarrow> string list \<Rightarrow> string list \<Rightarrow> SectionKind \<Rightarrow>
   Lowerer \<Rightarrow> bool" where
  "lowerer_is name order f gs es ws kind l \<longleftrightarrow>
     distinct order \<and> kind \<in> set order \<and> (\<forall>k. k \<notin> set order \<longrightarrow> f k = []) \<and> lw_current_kind l = kind \<and>
     lw_module l = \<lparr> mo_source_name = name, mo_sections = spread order f, mo_globals = gs, mo_externs = es, mo_weaks = ws \<rparr>"

text \<open>Emitting items into the current section: the verdict and everything else stay.\<close>

definition emits :: "Item list \<Rightarrow> Lowerer \<Rightarrow> Lowerer \<Rightarrow> bool" where
  "emits items l l' \<longleftrightarrow> lw_engine l' = lw_engine l \<and> lw_failed l' = lw_failed l \<and>
     (\<forall>name order f gs es ws kind. lowerer_is name order f gs es ws kind l \<longrightarrow>
        lowerer_is name order (f(kind := f kind @ items)) gs es ws kind l')"

lemma emits_none [simp]: "emits [] l l"
  by (simp add: emits_def)

lemma emits_then:
  assumes "emits xs a b" and "emits ys b c"
  shows "emits (xs @ ys) a c"
proof -
  have "lowerer_is name order (f(kind := f kind @ xs @ ys)) gs es ws kind c"
    if "lowerer_is name order f gs es ws kind a" for name order f gs es ws kind
  proof -
    have "lowerer_is name order (f(kind := f kind @ xs)) gs es ws kind b" using that assms(1) by (simp add: emits_def)
    then have "lowerer_is name order ((f(kind := f kind @ xs))(kind := (f(kind := f kind @ xs)) kind @ ys)) gs es ws kind c"
      using assms(2) unfolding emits_def by blast
    then show ?thesis by simp
  qed
  with assms show ?thesis by (simp add: emits_def)
qed

lemma emit_ir_emits: "emits [item] l (emit_ir item l)"
proof -
  have "lowerer_is name order (f(kind := f kind @ [item])) gs es ws kind (emit_ir item l)"
    if "lowerer_is name order f gs es ws kind l" for name order f gs es ws kind
    using that spread_update [of order kind _ f "[item]"]
    by (simp add: lowerer_is_def emit_ir_def sectionFor_def spread_index Let_def)
  then show ?thesis by (simp add: emits_def emit_ir_def Let_def split: prod.split)
qed

lemma flush_emits: "fst (flush location p) = [] \<and> emits (flushed location (fst p)) (snd p) (snd (flush location p))"
  by (cases p) (simp add: flush_def flushed_def emit_ir_emits)

lemma data_emits:
  "emits (data_items width location opds (fst p)) (snd p) (snd (flush location (fold (lower_value width location) opds p)))"
proof (induction opds arbitrary: p)
  case Nil
  then show ?case using flush_emits by simp
next
  case (Cons opd opds)
  let ?q = "lower_value width location opd p"
  show ?case
  proof (cases "op_type opd = OT_Symbol")
    case True
    let ?v = "It_SymbolValue width \<lparr> ref_name = op_symbol opd, ref_addend = op_immediate opd \<rparr> (op_location opd)"
    have q: "?q = ([], emit_ir ?v (snd (flush location p)))"
      using True flush_emits [of location p] by (cases "flush location p") (simp add: lower_value_def)
    have "emits ([?v] @ data_items width location opds []) (snd (flush location p))
        (snd (flush location (fold (lower_value width location) opds ?q)))"
      by (rule emits_then [OF emit_ir_emits]) (use Cons.IH [of ?q] q in simp)
    from emits_then [OF conjunct2 [OF flush_emits [of location p]] this] True show ?thesis by simp
  next
    case False
    with Cons.IH [of ?q] show ?thesis by (simp add: lower_value_def)
  qed
qed

subsection \<open>Statements\<close>

lemma operand_at_simps [simp]:
  "operand_at (x # xs) 0 = Some x" "operand_at (x # y # xs) (Suc 0) = Some y" "operand_at (x # y # xs) 1 = Some y"
  by (simp_all add: operand_at_def)

lemma accepted_operands:
  assumes "operands_ok info operands"
  shows "\<exists>instruction. lower_operands info operands location = Some instruction"
  using assms
  by (auto simp: operands_ok_def lower_operands_def Let_def split: Format.splits list.splits)

lemma lowerInstruction_emits:
  assumes "instruction_ok node"
  shows "\<exists>l'. lowerInstruction node l = Some l' \<and>
    (if lw_current_kind l = Kind_Text then emits (statement_items (St_Instruction node)) l l'
     else \<exists>message. l' = lower_error (in_location node) EC_InvalidSectionReference message l)"
proof -
  obtain info where i: "findMnemonic (in_mnemonic node) = Some info" "operands_ok info (in_operands node)"
    using assms by (auto simp: instruction_ok_def split: option.splits)
  then obtain instruction where "lower_operands info (in_operands node) (in_location node) = Some instruction"
    using accepted_operands by blast
  with i show ?thesis by (auto simp: lowerInstruction_def emit_ir_emits)
qed

lemma requireInitialisableSection_cases:
  "requireInitialisableSection location what l =
     (if lw_current_kind l = Kind_Bss then (False, lower_error location EC_InvalidSectionReference
        (what @ '' cannot appear in .bss, which holds no data'') l) else (True, l))"
  by (simp add: requireInitialisableSection_def)

text \<open>The directives that emit items.\<close>

definition emitting :: "DirectiveType \<Rightarrow> bool" where
  "emitting type \<longleftrightarrow> type \<notin> {Dir_Section, Dir_Global, Dir_Extern, Dir_Weak}"

lemma lowerData_emits:
  "if lw_current_kind l = Kind_Bss then \<exists>message. lowerData node l = lower_error (dn_location node) EC_InvalidSectionReference message l
   else emits (data_items (dataDirectiveWidth (dn_type node)) (dn_location node) (dn_operands node) []) l (lowerData node l)"
  using data_emits [where p = "([], l)"] by (auto simp: lowerData_def requireInitialisableSection_cases)

lemma lowerDirective_emits:
  assumes "directive_ok node" and "emitting (dn_type node)"
  shows "\<exists>l'. lowerDirective node l = Some l' \<and>
    (if may_stand (lw_current_kind l, St_Directive node) then emits (statement_items (St_Directive node)) l l'
     else \<exists>message. l' = lower_error (dn_location node) EC_InvalidSectionReference message l)"
proof (cases "dataDirectiveWidth (dn_type node) = 0")
  case False
  then have "lowerDirective node l = Some (lowerData node l)"
    by (cases "dn_type node") (simp_all add: lowerDirective_def)
  with False lowerData_emits [of l node] show ?thesis by (auto split: if_splits)
next
  case True
  with assms(2) consider "dn_type node = Dir_Asciz" | "dn_type node = Dir_Align" | "dn_type node = Dir_Space"
    by (cases "dn_type node") (auto simp: emitting_def)
  then show ?thesis
  proof cases
    case 1
    with assms(1) obtain a where "dn_operands node = [a]" by (auto simp: directive_ok_iff)
    with 1 show ?thesis
      by (cases "lw_current_kind l = Kind_Bss")
        (fastforce simp: lowerDirective_def requireInitialisableSection_cases emit_ir_emits)+
  next
    case 2
    with assms(1) obtain a where "dn_operands node = [a]" by (auto simp: directive_ok_iff)
    with 2 show ?thesis by (auto simp: lowerDirective_def emit_ir_emits)
  next
    case 3
    with assms(1) obtain a bs where "dn_operands node = a # bs" "bs = [] \<or> (\<exists>b. bs = [b])" by (auto simp: directive_ok_iff)
    with 3 show ?thesis
      by (cases "lw_current_kind l = Kind_Bss"; cases "fill_of node = 0")
        (fastforce simp: lowerDirective_def requireInitialisableSection_cases emit_ir_emits fill_of_def)+
  qed
qed

definition order_with :: "SectionKind \<Rightarrow> SectionKind list \<Rightarrow> SectionKind list" where
  "order_with kind order = (if kind \<in> set order then order else order @ [kind])"

lemma enter_section:
  assumes "lowerer_is name order f gs es ws kind l"
  shows "lowerer_is name (order_with k order) f gs es ws k
    (l\<lparr> lw_current_kind := k, lw_module := snd (sectionFor k (lw_module l)) \<rparr>)"
proof -
  have "spread (order @ [k]) f = spread order f @ [new_section k]" if "f k = []"
    using that by (simp add: spread_def new_section_def)
  with assms show ?thesis by (auto simp: lowerer_is_def sectionFor_def spread_index order_with_def)
qed

lemma emits_is:
  assumes "emits items l l'" and "lowerer_is name order f gs es ws kind l"
  shows "lowerer_is name (order_with kind order) (f(kind := f kind @ items)) gs es ws kind l'"
proof -
  have "order_with kind order = order" using assms(2) by (simp add: order_with_def lowerer_is_def)
  with assms show ?thesis unfolding emits_def by auto
qed

text \<open>One statement that stands where it may.\<close>

lemma lowerStatement_placed:
  assumes "statement_ok s" and "lowerer_is name order f gs es ws kind l" and "may_stand (kind, s)"
  shows "\<exists>l'. lowerStatement s l = Some l' \<and> lw_engine l' = lw_engine l \<and> lw_failed l' = lw_failed l \<and>
    lowerer_is name (order_with (section_after s kind) order) (f(kind := f kind @ statement_items s))
      (gs @ listed_names Dir_Global [s]) (es @ listed_names Dir_Extern [s]) (ws @ listed_names Dir_Weak [s])
      (section_after s kind) l'"
proof -
  have kind: "lw_current_kind l = kind" using assms(2) by (simp add: lowerer_is_def)
  have by_emits: ?thesis if "lowerStatement s l = Some l'" and "emits (statement_items s) l l'" and "section_after s kind = kind"
    and "listed_names Dir_Global [s] = []" "listed_names Dir_Extern [s] = []" "listed_names Dir_Weak [s] = []" for l'
    using that emits_is [OF that(2) assms(2)] by (simp add: emits_def)
  show ?thesis
  proof (cases s)
    case (St_Label node)
    show ?thesis by (rule by_emits [of "emit_ir (It_Label (ln_name node) (ln_local node) (ln_location node)) l"])
      (simp_all add: St_Label emit_ir_emits listed_names_def)
  next
    case (St_Instruction node)
    then obtain l' where "lowerInstruction node l = Some l'" "emits (statement_items s) l l'"
      using lowerInstruction_emits [of node l] assms(1,3) kind by auto
    then show ?thesis by (intro by_emits) (simp_all add: St_Instruction listed_names_def)
  next
    case (St_Directive node)
    show ?thesis
    proof (cases "emitting (dn_type node)")
      case True
      then obtain l' where "lowerDirective node l = Some l'" "emits (statement_items s) l l'"
        using lowerDirective_emits [of node l] assms(1,3) kind St_Directive by auto
      then show ?thesis using True by (intro by_emits) (auto simp: St_Directive listed_names_def emitting_def)
    next
      case False
      then consider "dn_type node = Dir_Section" | "dn_type node \<in> {Dir_Global, Dir_Extern, Dir_Weak}"
        by (auto simp: emitting_def)
      then show ?thesis
      proof cases
        case 1
        with assms(1) St_Directive obtain a where a: "dn_operands node = [a]" "isKnownSection (op_symbol a)"
          by (auto simp: directive_ok_iff)
        then obtain k where k: "sectionKindFromName (op_symbol a) = Some k"
          by (auto simp: isKnownSection_def kSectionNames_def sectionKindFromName_def)
        show ?thesis using enter_section [OF assms(2), of k]
          by (simp add: St_Directive lowerDirective_def 1 a(1) k listed_names_def)
      next
        case 2
        then show ?thesis using assms(2)
          by (auto simp: St_Directive lowerDirective_def add_names_def listed_names_def lowerer_is_def order_with_def)
      qed
    qed
  qed
qed

text \<open>One statement that stands where it may not.\<close>

lemma lowerStatement_misplaced:
  assumes "statement_ok s" and "\<not> may_stand (lw_current_kind l, s)"
  shows "\<exists>message. lowerStatement s l = Some (lower_error (statementLocation s) EC_InvalidSectionReference message l)"
    and "section_after s kind = kind" and "listed_names Dir_Global [s] = []" and "listed_names Dir_Extern [s] = []"
    and "listed_names Dir_Weak [s] = []"
proof -
  have node: "emitting (dn_type node)" if "s = St_Directive node" for node
    using that assms(2) by (cases "dn_type node") (auto simp: emitting_def)
  show "\<exists>message. lowerStatement s l = Some (lower_error (statementLocation s) EC_InvalidSectionReference message l)"
  proof (cases s)
    case (St_Instruction node)
    then show ?thesis using lowerInstruction_emits [of node l] assms by auto
  next
    case (St_Directive node)
    then show ?thesis using lowerDirective_emits [of node l] node assms by (auto split: if_splits)
  qed (use assms in simp)
  show "section_after s kind = kind" "listed_names Dir_Global [s] = []" "listed_names Dir_Extern [s] = []" "listed_names Dir_Weak [s] = []"
    using node by (cases s; auto simp: emitting_def listed_names_def)+
qed

subsection \<open>The whole program\<close>

text \<open>The lowerer after a prefix of the program.\<close>

definition misplaced :: "Program \<Rightarrow> nat" where
  "misplaced ss = length (filter (\<lambda>p. \<not> may_stand p) (in_sections Kind_Text ss))"

definition lowered :: "string \<Rightarrow> DiagnosticEngine \<Rightarrow> Program \<Rightarrow> Lowerer \<Rightarrow> bool" where
  "lowered name d ss l \<longleftrightarrow>
     lowerer_is name (section_order ss) (lowered_items ss) (listed_names Dir_Global ss) (listed_names Dir_Extern ss)
       (listed_names Dir_Weak ss) (last_section ss) l \<and>
     (lw_failed l \<longleftrightarrow> misplaced ss \<noteq> 0) \<and> (misplaced ss = 0 \<longrightarrow> lw_engine l = d) \<and>
     de_error_count (lw_engine l) = de_error_count d + misplaced ss"

lemma section_order_snoc: "section_order (ss @ [s]) = order_with (section_after s (last_section ss)) (section_order ss)"
  by (simp add: section_order_def order_with_def in_sections_append last_section_def)

lemma last_section_snoc [simp]: "last_section (ss @ [s]) = section_after s (last_section ss)"
  by (simp add: last_section_def)

lemma listed_names_append: "listed_names type (ss @ ts) = listed_names type ss @ listed_names type ts"
  by (simp add: listed_names_def)

lemma lowered_items_snoc:
  "lowered_items (ss @ [s]) = (if may_stand (last_section ss, s)
     then (lowered_items ss)(last_section ss := lowered_items ss (last_section ss) @ statement_items s)
     else lowered_items ss)"
  by (auto simp: lowered_items_def in_sections_append last_section_def fun_eq_iff)

lemma misplaced_snoc: "misplaced (ss @ [s]) = misplaced ss + (if may_stand (last_section ss, s) then 0 else 1)"
  by (simp add: misplaced_def in_sections_append last_section_def)

lemma well_placed_iff: "well_placed ss \<longleftrightarrow> misplaced ss = 0"
  by (auto simp: well_placed_def misplaced_def filter_empty_conv list_all_iff)

lemma lowerStatement_lowered:
  assumes "lowered name d ss l" and "statement_ok s"
  shows "\<exists>l'. lowerStatement s l = Some l' \<and> lowered name d (ss @ [s]) l'"
proof (cases "may_stand (last_section ss, s)")
  case True
  have l: "lowerer_is name (section_order ss) (lowered_items ss) (listed_names Dir_Global ss) (listed_names Dir_Extern ss)
       (listed_names Dir_Weak ss) (last_section ss) l" using assms(1) by (simp add: lowered_def)
  from lowerStatement_placed [OF assms(2) l True] True show ?thesis
    using assms(1)
    by (auto simp: lowered_def section_order_snoc lowered_items_snoc listed_names_append misplaced_snoc)
next
  case False
  have kind: "lw_current_kind l = last_section ss" and "last_section ss \<in> set (section_order ss)"
    using assms(1) by (simp_all add: lowered_def lowerer_is_def)
  moreover note m = lowerStatement_misplaced [OF assms(2), of l, unfolded kind, OF False]
  obtain message where "lowerStatement s l = Some (lower_error (statementLocation s) EC_InvalidSectionReference message l)"
    using m(1) by blast
  ultimately show ?thesis using m(2-5) False assms(1)
    by (simp add: lowered_def section_order_snoc lowered_items_snoc listed_names_append misplaced_snoc order_with_def
        lower_error_def report_error_def error_diagnostic_def Diagnostics.report_def lowerer_is_def)
qed

lemma start_lowered: "lowered name d [] (start_lowerer name d)"
  by (simp add: lowered_def lowerer_is_def start_lowerer_def section_order_def lowered_items_def listed_names_def
      last_section_def misplaced_def spread_def sectionFor_def empty_module_def new_section_def)

lemma lower_statements_lowered:
  assumes "lowered name d ss l" and "list_all statement_ok ts"
  shows "\<exists>l'. lower_statements ts l = Some l' \<and> lowered name d (ss @ ts) l'"
  using assms
proof (induction ts arbitrary: ss l)
  case (Cons t ts)
  then obtain l1 where "lowerStatement t l = Some l1" "lowered name d (ss @ [t]) l1"
    using lowerStatement_lowered [of name d ss l t] by auto
  with Cons.IH [of "ss @ [t]" l1] Cons.prems(2) show ?case by simp
qed simp

lemma lower_program_result:
  assumes "program_ok ss"
  shows "\<exists>d'. lower_program ss name d =
      Some (if well_placed ss then Inr (lowered_module name ss)
            else Inl (nat_str (de_error_count d') @ '' error(s) lowering to IR''), d') \<and>
    (well_placed ss \<longrightarrow> d' = d) \<and> de_error_count d' = de_error_count d + misplaced ss"
proof -
  have "list_all statement_ok ss" using assms by (simp add: program_ok_def)
  from lower_statements_lowered [OF start_lowered this, of name d] obtain l where
    l: "lower_statements ss (start_lowerer name d) = Some l" "lowered name d ss l" by auto
  have "lw_module l = lowered_module name ss"
    using l(2) by (simp add: lowered_def lowerer_is_def lowered_module_def spread_def)
  with l show ?thesis by (auto simp: lower_program_def lowered_def well_placed_iff)
qed

text \<open>
  C6: lowering an accepted program never throws (the indexed accesses \<open>operands.at(i)\<close> of the code
  are all in range) and makes the reference module, or, when a statement stands in a section that
  cannot hold it, fails with one error for each such statement.
\<close>

theorem lowering_meets_reference:
  assumes "program_ok ss"
  shows "\<exists>d'. lower_program ss name d =
      Some (if well_placed ss then Inr (lowered_module name ss)
            else Inl (nat_str (de_error_count d') @ '' error(s) lowering to IR''), d') \<and>
    (well_placed ss \<longrightarrow> d' = d) \<and> de_error_count d' = de_error_count d + misplaced ss"
  using lower_program_result [OF assms] .

end
