(* ===== verification/Lower_Object.thy ===== *)
theory Lower_Object
  imports Lower_Safety "HOL-Library.Multiset"
begin

text \<open>
  From accepted programs to object files: the module lowering makes is one the assembler accepts,
  up to the three mistakes the semantic analyzer cannot or does not see: a name both defined and
  declared \<open>.extern\<close>, a reference to an undefined \<open>.L\<close> name, and a memory displacement that does
  not fit the instruction word.
\<close>

subsection \<open>What the parser guarantees\<close>

definition operand_from_source :: "Operand \<Rightarrow> bool" where
  "operand_from_source opd \<longleftrightarrow> printable (op_symbol opd) \<and> isValidRegister (op_reg opd)"

fun statement_operands :: "Statement \<Rightarrow> Operand list" where
  "statement_operands (St_Instruction node) = in_operands node"
| "statement_operands (St_Directive node) = dn_operands node"
| "statement_operands (St_Label _) = []"

fun statement_from_source :: "Statement \<Rightarrow> bool" where
  "statement_from_source (St_Label node) = printable (ln_name node)"
| "statement_from_source s = list_all operand_from_source (statement_operands s)"

definition from_source :: "Program \<Rightarrow> bool" where
  "from_source ss \<longleftrightarrow> list_all statement_from_source ss"

subsection \<open>The items of an accepted statement\<close>

lemma isValidRegister_0 [simp]: "isValidRegister 0"
  by (simp add: isValidRegister_def registerIndex_def kRegisterCount_def)

lemma data_items_ok:
  assumes "list_all (value_ok (unat width)) opds" and "list_all operand_from_source opds" and "kind \<noteq> Kind_Bss"
  shows "list_all (item_ok kind) (data_items width location opds pending)"
  using assms
proof (induction opds arbitrary: pending)
  case (Cons opd opds)
  have "width = 4 \<or> width = 8" if "op_type opd = OT_Symbol"
    using that Cons.prems(1) by (auto simp: value_ok_def is_literal_def word_unat_eq_iff)
  with Cons show ?case by (auto simp: operand_from_source_def flushed_def)
qed (simp add: flushed_def)

lemma setValue_simps [simp]:
  "ii_symbol (setValue ins opd) = (if op_type opd = OT_Symbol
     then Some \<lparr> ref_name = op_symbol opd, ref_addend = op_immediate opd \<rparr> else ii_symbol ins)"
  "i_opcode (ii_machine (setValue ins opd)) = i_opcode (ii_machine ins)"
  "i_dst (ii_machine (setValue ins opd)) = i_dst (ii_machine ins)"
  "i_src (ii_machine (setValue ins opd)) = i_src (ii_machine ins)"
  "i_imm (ii_machine (setValue ins opd)) = (if op_type opd = OT_Symbol then 0 else op_immediate opd)"
  by (simp_all add: setValue_def)

lemma lower_operands_symbol:
  assumes "lower_operands info opds location = Some instruction" and "ii_symbol instruction = Some r"
  shows "\<exists>opd \<in> set opds. op_type opd = OT_Symbol \<and> r = \<lparr> ref_name = op_symbol opd, ref_addend = op_immediate opd \<rparr>"
  using assms
  by (fastforce simp: lower_operands_def Let_def operand_at_def split: Format.splits if_splits)

lemma statement_items_ok:
  assumes "statement_ok s" and "statement_from_source s" and "may_stand (kind, s)"
  shows "list_all (item_ok kind) (statement_items s)"
proof (cases s)
  case (St_Label node)
  with assms show ?thesis by simp
next
  case (St_Instruction node)
  then have "item_ok kind (It_Instruction instruction)"
    if "lower_operands info (in_operands node) (in_location node) = Some instruction" for info instruction
    using lower_operands_symbol [OF that] assms
    by (fastforce simp: list_all_iff operand_from_source_def split: option.splits)
  with St_Instruction show ?thesis by (auto split: option.splits)
next
  case (St_Directive node)
  show ?thesis
  proof (cases "dataDirectiveWidth (dn_type node) = 0")
    case False
    then have "list_all (value_ok (unat (dataDirectiveWidth (dn_type node)))) (dn_operands node)"
      using assms(1) St_Directive by (cases "dn_type node") (simp_all add: directive_ok_iff)
    with data_items_ok [of "dataDirectiveWidth (dn_type node)"] False assms show ?thesis by (auto simp: St_Directive)
  next
    case True
    with assms show ?thesis
      by (cases "dn_type node")
        (auto simp: St_Directive directive_ok_iff alignment_ok_def is_literal_def split: list.splits)
  qed
qed

lemma in_sections_statements: "map snd (in_sections kind ss) = ss"
  by (induction ss arbitrary: kind) simp_all

lemma in_sections_set: "(k, s) \<in> set (in_sections kind ss) \<Longrightarrow> s \<in> set ss"
  using in_sections_statements [of kind ss] by (metis image_eqI list.set_map snd_conv)

lemma lowered_items_ok:
  assumes "program_ok ss" and "from_source ss"
  shows "list_all (item_ok kind) (lowered_items ss kind)"
proof -
  have "list_all (item_ok kind) (statement_items s)" if "(kind, s) \<in> set (in_sections Kind_Text ss)" "may_stand (kind, s)" for s
    using statement_items_ok [OF _ _ that(2)] in_sections_set [OF that(1)] assms
    by (auto simp: program_ok_def from_source_def list_all_iff)
  then show ?thesis by (auto simp: lowered_items_def list_all_iff)
qed

subsection \<open>The module\<close>

lemma section_order_distinct [simp]: "distinct (section_order ss)"
  by (simp add: section_order_def)

lemma find_spread:
  "distinct order \<Longrightarrow> find (\<lambda>s. is_kind s = kind) (spread order f) =
     (if kind \<in> set order then Some ((new_section kind)\<lparr> is_items := f kind \<rparr>) else None)"
  by (induction order) (auto simp: spread_def)

lemma lowered_items_order:
  "kind \<notin> set (section_order ss) \<Longrightarrow> lowered_items ss kind = []"
  unfolding section_order_def by (simp only: set_rev set_remdups) (auto simp: lowered_items_def rev_image_eqI)

lemma lowered_module_items [simp]: "items_of (lowered_module name ss) kind = lowered_items ss kind"
proof -
  have "mo_sections (lowered_module name ss) = spread (section_order ss) (lowered_items ss)"
    by (simp add: lowered_module_def spread_def)
  then show ?thesis using find_spread [of "section_order ss"] lowered_items_order
    by (simp add: items_of_def findIrSection_def)
qed

lemma lowered_module_names [simp]:
  "mo_globals (lowered_module name ss) = listed_names Dir_Global ss"
  "mo_externs (lowered_module name ss) = listed_names Dir_Extern ss"
  "mo_weaks (lowered_module name ss) = listed_names Dir_Weak ss"
  "mo_source_name (lowered_module name ss) = name"
  by (simp_all add: lowered_module_def)

text \<open>The bounds of the object file format.\<close>

definition fits_object :: "string \<Rightarrow> Program \<Rightarrow> bool" where
  "fits_object name ss \<longleftrightarrow> printable name \<and> card (set (module_names (lowered_module name ss))) < 2 ^ 32 \<and>
     list_all (\<lambda>kind. sum_list (map item_room (lowered_items ss kind)) < 2 ^ 63) kSectionOrder"

lemma listed_names_printable: "from_source ss \<Longrightarrow> list_all printable (listed_names type ss)"
  by (fastforce simp: from_source_def listed_names_def list_all_iff operand_from_source_def split: Statement.splits)

lemma lowered_module_ok:
  assumes "program_ok ss" and "from_source ss" and "fits_object name ss"
  shows "module_ok (lowered_module name ss)"
proof -
  have "sum_list (map item_room (lowered_items ss kind)) < 2 ^ 63" for kind
    using assms(3) by (cases kind) (simp_all add: fits_object_def kSectionOrder_def)
  then have "list_all section_ok (mo_sections (lowered_module name ss))"
    using lowered_items_ok [OF assms(1,2)]
    by (auto simp: lowered_module_def list_all_iff section_ok_def new_section_def alignment_ok_def)
  with assms listed_names_printable [OF assms(2)] show ?thesis
    by (simp add: module_ok_def fits_object_def)
qed

subsection \<open>Labels\<close>

fun item_names :: "Item list \<Rightarrow> string list" where
  "item_names [] = []"
| "item_names (It_Label name _ _ # items) = name # item_names items"
| "item_names (_ # items) = item_names items"

lemma item_names_append [simp]: "item_names (xs @ ys) = item_names xs @ item_names ys"
  by (induction xs rule: item_names.induct) simp_all

lemma section_labels_names: "map fst (section_labels index type items offset) = item_names items"
  by (induction items arbitrary: offset rule: item_names.induct) simp_all

lemma module_labels_names: "map fst (module_labels m) = concat (map (\<lambda>kind. item_names (items_of m kind)) (module_kinds m))"
proof -
  have "map fst (concat (map (\<lambda>(i, kind). section_labels (of_nat i) (kind_symbol_type kind) (items_of m kind) 0) (enumerate n ks)))
      = concat (map (\<lambda>kind. item_names (items_of m kind)) ks)" for n ks
    by (induction ks arbitrary: n) (simp_all add: section_labels_names)
  then show ?thesis by (simp add: module_labels_def)
qed

lemma data_items_names: "item_names (data_items width location opds pending) = []"
  by (induction opds arbitrary: pending) (simp_all add: flushed_def)

lemma statement_item_names: "item_names (statement_items s) = label_names [s]"
  by (cases s) (auto simp: data_items_names split: option.split DirectiveType.split list.split)

lemma may_stand_label: "\<not> may_stand (kind, s) \<Longrightarrow> label_names [s] = []"
  by (cases s) simp_all

lemma lowered_item_names:
  "item_names (lowered_items ss kind) =
     concat (map (\<lambda>(k, s). if k = kind then label_names [s] else []) (in_sections Kind_Text ss))"
proof -
  have "item_names (concat (map (\<lambda>(k, s). if k = kind \<and> may_stand (k, s) then statement_items s else []) ps)) =
      concat (map (\<lambda>(k, s). if k = kind then label_names [s] else []) ps)" for ps
    by (induction ps) (auto simp: statement_item_names may_stand_label)
  then show ?thesis by (simp add: lowered_items_def)
qed

text \<open>Sorting names by section neither loses nor repeats any.\<close>

lemma names_by_kind:
  assumes "distinct ks"
  shows "mset (concat (map (\<lambda>kind. concat (map (\<lambda>(k, s). if k = kind then label_names [s] else []) ps)) ks))
    \<subseteq># mset (label_names (map snd ps))"
proof (induction ps)
  case Nil
  then show ?case by (induction ks) simp_all
next
  case (Cons p ps)
  obtain k s where p: "p = (k, s)" by (cases p)
  let ?f = "\<lambda>kind. concat (map (\<lambda>(k, s). if k = kind then label_names [s] else []) ps)"
  have "mset (concat (map (\<lambda>kind. (if k = kind then xs else []) @ ?f kind) ks)) \<subseteq>#
      mset xs + mset (concat (map ?f ks)) \<and>
      (k \<notin> set ks \<longrightarrow> mset (concat (map (\<lambda>kind. (if k = kind then xs else []) @ ?f kind) ks)) = mset (concat (map ?f ks)))"
    for xs using assms by (induction ks) (auto simp: ac_simps)
  then have "mset (concat (map (\<lambda>kind. (if k = kind then label_names [s] else []) @ ?f kind) ks)) \<subseteq>#
      mset (label_names [s]) + mset (concat (map ?f ks))" by blast
  also have "\<dots> \<subseteq># mset (label_names [s]) + mset (label_names (map snd ps))" using Cons.IH by simp
  also have "\<dots> = mset (label_names (map snd (p # ps)))" using label_names_append [of "[s]" "map snd ps"] by (simp add: p)
  finally show ?case by (simp add: p)
qed

lemma module_kinds_distinct: "distinct (module_kinds m)"
  unfolding module_kinds_def kSectionOrder_def by (rule distinct_filter) simp

lemma distinct_submultiset:
  assumes "mset xs \<subseteq># mset ys" and "distinct ys"
  shows "distinct xs"
proof -
  have "count (mset xs) a = (if a \<in> set xs then 1 else 0)" for a
  proof -
    have "count (mset xs) a \<le> count (mset ys) a" using assms(1) by (simp add: subseteq_mset_def)
    moreover have "count (mset ys) a \<le> 1" using assms(2) by (auto simp: distinct_count_atmost_1)
    ultimately have "count (mset xs) a \<le> 1" by (rule order_trans)
    then have "count (mset xs) a = 0 \<or> count (mset xs) a = 1" by linarith
    moreover have "count (mset xs) a = 0 \<longleftrightarrow> a \<notin> set xs" by (simp add: count_eq_zero_iff)
    ultimately show ?thesis by auto
  qed
  then show ?thesis by (simp add: distinct_count_atmost_1)
qed

lemma lowered_labels_distinct:
  assumes "program_ok ss"
  shows "distinct (map fst (module_labels (lowered_module name ss)))"
proof -
  have "mset (map fst (module_labels (lowered_module name ss))) \<subseteq># mset (label_names ss)"
    using names_by_kind [OF module_kinds_distinct [of "lowered_module name ss"], of "in_sections Kind_Text ss"]
    by (simp add: module_labels_names lowered_item_names in_sections_statements)
  moreover have "distinct (label_names ss)" using assms by (simp add: program_ok_def)
  ultimately show ?thesis by (rule distinct_submultiset)
qed

lemma label_names_set: "set (label_names ss) = (\<Union>s \<in> set ss. set (label_names [s]))"
  by (induction ss rule: label_names.induct) auto

lemma module_kinds_item: "item \<in> set (items_of m kind) \<Longrightarrow> kind \<in> set (module_kinds m)"
  by (cases kind) (auto simp: module_kinds_def kSectionOrder_def)

lemma lowered_labels_set: "fst ` set (module_labels (lowered_module name ss)) = set (label_names ss)"
proof -
  have n: "kind \<in> set (module_kinds (lowered_module name ss))" if "x \<in> set (item_names (lowered_items ss kind))" for x kind
    using that module_kinds_item [of _ "lowered_module name ss" kind] by (cases "lowered_items ss kind") auto
  have "fst ` set (module_labels (lowered_module name ss)) = set (map fst (module_labels (lowered_module name ss)))" by simp
  also have "\<dots> = (\<Union>kind. set (item_names (lowered_items ss kind)))"
    by (auto simp: module_labels_names intro: n)
  also have "\<dots> = (\<Union>p \<in> set (in_sections Kind_Text ss). set (label_names [snd p]))"
  proof -
    have "x \<in> set (item_names (lowered_items ss (fst p)))" if "p \<in> set (in_sections Kind_Text ss)" "x \<in> set (label_names [snd p])" for x p
      using that by (cases p) (auto simp: lowered_item_names intro!: bexI [of _ p])
    then have "(\<Union>p \<in> set (in_sections Kind_Text ss). set (label_names [snd p])) \<subseteq> (\<Union>kind. set (item_names (lowered_items ss kind)))"
      by blast
    moreover have "(\<Union>kind. set (item_names (lowered_items ss kind))) \<subseteq> (\<Union>p \<in> set (in_sections Kind_Text ss). set (label_names [snd p]))"
      by (auto simp: lowered_item_names split: if_splits)
    ultimately show ?thesis by (rule subset_antisym [rotated])
  qed
  also have "\<dots> = (\<Union>s \<in> set (map snd (in_sections Kind_Text ss)). set (label_names [s]))" by simp
  also have "\<dots> = set (label_names ss)" unfolding in_sections_statements by (simp only: label_names_set [of ss])
  finally show ?thesis .
qed

subsection \<open>References\<close>

fun referenced_names :: "Statement \<Rightarrow> string list" where
  "referenced_names (St_Label _) = []"
| "referenced_names (St_Instruction node) = map op_symbol (filter (\<lambda>opd. op_type opd = OT_Symbol) (in_operands node))"
| "referenced_names (St_Directive node) =
     (if dataDirectiveWidth (dn_type node) \<noteq> 0
      then map op_symbol (filter (\<lambda>opd. op_type opd = OT_Symbol) (dn_operands node)) else [])"

lemma data_items_references:
  "concat (map item_reference (data_items width location opds pending)) =
     map (\<lambda>opd. \<lparr> ref_name = op_symbol opd, ref_addend = op_immediate opd \<rparr>) (filter (\<lambda>opd. op_type opd = OT_Symbol) opds)"
  by (induction opds arbitrary: pending) (simp_all add: flushed_def)

lemma lower_operands_reference:
  assumes "lower_operands info opds location = Some instruction" and "operands_ok info opds"
  shows "item_reference (It_Instruction instruction) =
     map (\<lambda>opd. \<lparr> ref_name = op_symbol opd, ref_addend = op_immediate opd \<rparr>) (filter (\<lambda>opd. op_type opd = OT_Symbol) opds)"
  using assms
  by (auto simp: lower_operands_def operands_ok_def Let_def is_register_def is_literal_def literal_or_symbol_def
      split: Format.splits list.splits if_splits)

lemma statement_references:
  assumes "statement_ok s"
  shows "map ref_name (concat (map item_reference (statement_items s))) = referenced_names s"
proof (cases s)
  case (St_Instruction node)
  with assms obtain info where i: "findMnemonic (in_mnemonic node) = Some info" "operands_ok info (in_operands node)"
    by (auto simp: instruction_ok_def split: option.splits)
  then obtain instruction where "lower_operands info (in_operands node) (in_location node) = Some instruction"
    using accepted_operands by blast
  with lower_operands_reference [OF this i(2)] i show ?thesis by (simp add: St_Instruction o_def)
next
  case (St_Directive node)
  then show ?thesis
    by (cases "dn_type node") (auto simp: data_items_references o_def split: list.split)
qed simp

definition all_references :: "Program \<Rightarrow> string list" where
  "all_references ss = concat (map referenced_names ss)"

lemma lowered_item_placed:
  assumes "well_placed ss"
  shows "item \<in> set (lowered_items ss kind) \<longleftrightarrow> (\<exists>s. (kind, s) \<in> set (in_sections Kind_Text ss) \<and> item \<in> set (statement_items s))"
  using assms by (force simp: lowered_items_def well_placed_def list_all_iff)

lemma lowered_item_iff:
  assumes "well_placed ss"
  shows "(\<exists>kind. item \<in> set (lowered_items ss kind)) \<longleftrightarrow> (\<exists>s \<in> set ss. item \<in> set (statement_items s))"
proof -
  have "(\<exists>s \<in> set (map snd (in_sections Kind_Text ss)). item \<in> set (statement_items s)) \<longleftrightarrow>
      (\<exists>kind s. (kind, s) \<in> set (in_sections Kind_Text ss) \<and> item \<in> set (statement_items s))" by force
  then show ?thesis using lowered_item_placed [OF assms] by (simp only: in_sections_statements)
qed

lemma lowered_references:
  assumes "program_ok ss" and "well_placed ss"
  shows "ref_name ` set (module_references (lowered_module name ss)) = set (all_references ss)"
proof -
  let ?items = "\<lambda>item. \<exists>s \<in> set ss. item \<in> set (statement_items s)"
  have "r \<in> set (module_references (lowered_module name ss)) \<longleftrightarrow> (\<exists>item. ?items item \<and> r \<in> set (item_reference item))" for r
    unfolding lowered_item_iff [OF assms(2), symmetric]
    using module_kinds_item [of _ "lowered_module name ss"] by (auto simp: module_references_def)
  then have "ref_name ` set (module_references (lowered_module name ss)) =
      (\<Union>s \<in> set ss. set (map ref_name (concat (map item_reference (statement_items s)))))" by (auto simp: image_iff) blast+
  also have "\<dots> = (\<Union>s \<in> set ss. set (referenced_names s))"
    using assms(1) statement_references by (simp add: program_ok_def list_all_iff)
  finally show ?thesis by (simp add: all_references_def)
qed

subsection \<open>Encoding\<close>

definition far_displacement :: "Statement \<Rightarrow> bool" where
  "far_displacement s \<longleftrightarrow> (case s of
     St_Instruction node \<Rightarrow> \<exists>opd \<in> set (in_operands node). op_type opd = OT_Memory \<and> \<not> fits_field (op_immediate opd)
   | _ \<Rightarrow> False)"

lemma fits_field_iff: "fits_field v \<longleftrightarrow> - (2 ^ 47) \<le> sint v \<and> sint v < 2 ^ 47"
  by (simp add: fits_field_def fitsSigned_iff kImmediateBits_def)

lemma findMnemonic_format: "findMnemonic text = Some info \<Longrightarrow> formatOf (oi_opcode info) = Some (oi_format info)"
proof -
  have "list_all (\<lambda>info. formatOf (oi_opcode info) = Some (oi_format info)) kOpcodes" by code_simp
  then show "findMnemonic text = Some info \<Longrightarrow> formatOf (oi_opcode info) = Some (oi_format info)"
    by (auto simp: findMnemonic_iff list_all_iff)
qed

lemma lowered_encodable:
  assumes "formatOf (oi_opcode info) = Some (oi_format info)" and "operands_ok info opds"
    and "list_all operand_from_source opds" and "lower_operands info opds location = Some instruction"
  shows "encodes (It_Instruction instruction) \<longleftrightarrow> (\<forall>opd \<in> set opds. op_type opd = OT_Memory \<longrightarrow> fits_field (op_immediate opd))"
proof -
  have enc: "encodes (It_Instruction instruction) \<longleftrightarrow> encodable (placed_machine instruction)"
    by (auto simp: encode_Inr_iff [symmetric] split: sum.split)
  show ?thesis
  proof (cases "oi_format info")
    case Fmt_Mem
    with assms show ?thesis unfolding enc
      by (auto simp: encodable_def placed_machine_def isSymbolic_def lower_operands_def operands_ok_def Let_def fits_field_iff
          is_register_def operand_from_source_def mk_instr_def field_use_def split: list.splits if_splits)
  next
    case Fmt_SysImm
    with assms show ?thesis unfolding enc
      by (auto simp: encodable_def placed_machine_def isSymbolic_def lower_operands_def operands_ok_def Let_def
          is_literal_def fitsUnsigned_iff kImmediateBits_def mk_instr_def field_use_def split: list.splits if_splits)
  next
    case Fmt_None
    with assms show ?thesis unfolding enc
      by (auto simp: encodable_def placed_machine_def isSymbolic_def lower_operands_def operands_ok_def Let_def fits_field_iff
          is_register_def is_literal_def literal_or_symbol_def operand_from_source_def mk_instr_def field_use_def
          split: list.splits if_splits)
  next
    case Fmt_Reg1
    with assms show ?thesis unfolding enc
      by (auto simp: encodable_def placed_machine_def isSymbolic_def lower_operands_def operands_ok_def Let_def fits_field_iff
          is_register_def is_literal_def literal_or_symbol_def operand_from_source_def mk_instr_def field_use_def
          split: list.splits if_splits)
  next
    case Fmt_Reg2
    with assms show ?thesis unfolding enc
      by (auto simp: encodable_def placed_machine_def isSymbolic_def lower_operands_def operands_ok_def Let_def fits_field_iff
          is_register_def is_literal_def literal_or_symbol_def operand_from_source_def mk_instr_def field_use_def
          split: list.splits if_splits)
  next
    case Fmt_RegImm
    with assms show ?thesis unfolding enc
      by (auto simp: encodable_def placed_machine_def isSymbolic_def lower_operands_def operands_ok_def Let_def fits_field_iff
          is_register_def is_literal_def literal_or_symbol_def operand_from_source_def mk_instr_def field_use_def
          split: list.splits if_splits)
  next
    case Fmt_Jump
    with assms show ?thesis unfolding enc
      by (auto simp: encodable_def placed_machine_def isSymbolic_def lower_operands_def operands_ok_def Let_def fits_field_iff
          is_register_def is_literal_def literal_or_symbol_def operand_from_source_def mk_instr_def field_use_def
          split: list.splits if_splits)
  qed
qed

lemma statement_encodes:
  assumes "statement_ok s" and "statement_from_source s"
  shows "list_all encodes (statement_items s) \<longleftrightarrow> \<not> far_displacement s"
proof (cases s)
  case (St_Instruction node)
  with assms obtain info where i: "findMnemonic (in_mnemonic node) = Some info" "operands_ok info (in_operands node)"
    by (auto simp: instruction_ok_def split: option.splits)
  then obtain instruction where l: "lower_operands info (in_operands node) (in_location node) = Some instruction"
    using accepted_operands by blast
  have "list_all operand_from_source (in_operands node)" using assms(2) St_Instruction by simp
  from lowered_encodable [OF findMnemonic_format [OF i(1)] i(2) this l] i l show ?thesis
    by (auto simp: St_Instruction far_displacement_def simp del: encodes.simps)
next
  case (St_Directive node)
  have "list_all encodes (data_items width location opds pending)" for width location opds pending
    by (induction opds arbitrary: pending) (simp_all add: flushed_def)
  then show ?thesis by (auto simp: St_Directive far_displacement_def split: DirectiveType.split list.split)
qed (simp add: far_displacement_def)

lemma bss_items_blank:
  "list_all (item_ok Kind_Bss) items \<Longrightarrow> \<forall>b \<in> set bytes. b = 0 \<Longrightarrow> \<forall>b \<in> set (fold append_item items bytes). b = 0"
proof (induction items arbitrary: bytes)
  case (Cons item items)
  have "\<forall>b \<in> set (append_item item bytes). b = 0"
    using Cons.prems by (cases item) (auto simp: resize_def dest: in_set_takeD)
  with Cons show ?case by simp
qed simp

lemma lowered_assembly_fails:
  assumes "program_ok ss" and "well_placed ss" and "from_source ss"
  shows "assembly_fails (lowered_module name ss) \<longleftrightarrow>
    set (listed_names Dir_Extern ss) \<inter> set (label_names ss) \<noteq> {} \<or>
    (\<exists>n \<in> set (all_references ss). is_local_name n \<and> n \<notin> set (label_names ss) \<union>
       set (listed_names Dir_Global ss) \<union> set (listed_names Dir_Weak ss) \<union> set (listed_names Dir_Extern ss)) \<or>
    (\<exists>s \<in> set ss. far_displacement s)"
proof -
  let ?m = "lowered_module name ss"
  have ok: "statement_ok s" "statement_from_source s" if "s \<in> set ss" for s
    using assms(1,3) that by (simp_all add: program_ok_def from_source_def list_all_iff)
  have "(\<exists>kind \<in> set (module_kinds ?m). \<exists>item \<in> set (items_of ?m kind). \<not> encodes item) \<longleftrightarrow>
      (\<exists>item. (\<exists>kind. item \<in> set (lowered_items ss kind)) \<and> \<not> encodes item)"
    using module_kinds_item [of _ ?m] by auto
  also have "\<dots> \<longleftrightarrow> (\<exists>s \<in> set ss. \<not> list_all encodes (statement_items s))"
    unfolding lowered_item_iff [OF assms(2)] by (auto simp: list_all_iff)
  also have "\<dots> \<longleftrightarrow> (\<exists>s \<in> set ss. far_displacement s)" using ok statement_encodes by blast
  finally have enc: "(\<exists>kind \<in> set (module_kinds ?m). \<exists>item \<in> set (items_of ?m kind). \<not> encodes item) \<longleftrightarrow>
      (\<exists>s \<in> set ss. far_displacement s)" .
  have bss: "\<not> (\<exists>b \<in> set (items_bytes (items_of ?m Kind_Bss)). b \<noteq> 0)"
    using bss_items_blank [OF lowered_items_ok [OF assms(1,3)], of "[]"] by (auto simp: items_bytes_def)
  have refs: "(\<exists>r \<in> set (module_references ?m). P (ref_name r)) \<longleftrightarrow> (\<exists>n \<in> set (all_references ss). P n)" for P
    unfolding lowered_references [OF assms(1,2), of name, symmetric] by blast
  have ext: "(\<exists>n \<in> A. n \<in> B) \<longleftrightarrow> A \<inter> B \<noteq> {}" for A B :: "string set" by blast
  show ?thesis
    unfolding assembly_fails_def enc lowered_labels_set lowered_module_names ext
    using lowered_labels_distinct [OF assms(1), of name] bss
      refs [of "\<lambda>n. is_local_name n \<and> n \<notin> set (label_names ss) \<union> set (listed_names Dir_Global ss) \<union>
        set (listed_names Dir_Weak ss) \<union> set (listed_names Dir_Extern ss)"] by simp
qed


text \<open>\<open>.global _start; _start: LOAD R1, [R2 + displacement]; JMP _start; .data; .byte 1; .qword _start\<close>\<close>

definition demo_program :: "i64 \<Rightarrow> Program" where
  "demo_program displacement =
     (let name = blank_operand\<lparr> op_type := OT_Symbol, op_symbol := ''_start'' \<rparr> in
      [St_Directive \<lparr> dn_type = Dir_Global, dn_operands = [name], dn_location = no_location \<rparr>,
       St_Label \<lparr> ln_name = ''_start'', ln_local = False, ln_location = no_location \<rparr>,
       St_Instruction \<lparr> in_mnemonic = ''load'', in_operands = [blank_operand\<lparr> op_type := OT_Register, op_reg := 1 \<rparr>,
         blank_operand\<lparr> op_type := OT_Memory, op_reg := 2, op_immediate := displacement \<rparr>], in_location = no_location \<rparr>,
       St_Instruction \<lparr> in_mnemonic = ''JMP'', in_operands = [name], in_location = no_location \<rparr>,
       St_Directive \<lparr> dn_type = Dir_Section,
         dn_operands = [blank_operand\<lparr> op_type := OT_Symbol, op_symbol := ''.data'' \<rparr>], dn_location = no_location \<rparr>,
       St_Directive \<lparr> dn_type = Dir_Byte, dn_operands = [blank_operand\<lparr> op_immediate := 1 \<rparr>], dn_location = no_location \<rparr>,
       St_Directive \<lparr> dn_type = Dir_Qword, dn_operands = [name], dn_location = no_location \<rparr>])"

lemma demo_program_ok: "program_ok (demo_program 8)" "well_placed (demo_program 8)"
  by code_simp+

lemma lowering_meets_reference_witness:
  "lower_program (demo_program 8) ''demo.asm'' empty_engine =
     Some (Inr (lowered_module ''demo.asm'' (demo_program 8)), empty_engine)"
  using lowering_meets_reference [OF demo_program_ok(1), of "''demo.asm''" empty_engine] demo_program_ok(2) by auto

lemma demo_program_source: "from_source (demo_program v)"
  by (simp add: from_source_def demo_program_def Let_def operand_from_source_def blank_operand_def printable_def
      isValidRegister_def registerIndex_def kRegisterCount_def)

lemma demo_program_far: "program_ok (demo_program (2 ^ 50))" "well_placed (demo_program (2 ^ 50))"
  "\<exists>s \<in> set (demo_program (2 ^ 50)). far_displacement s"
proof -
  have "list_ex far_displacement (demo_program (2 ^ 50))" by code_simp
  then show "\<exists>s \<in> set (demo_program (2 ^ 50)). far_displacement s" by (simp add: list_ex_iff)
qed code_simp+


text \<open>The analyzer does not look at the displacement of a memory operand.\<close>

lemma analyzer_ignores_displacement:
  "fst (analyze (demo_program (2 ^ 50)) d) \<and> (\<exists>s \<in> set (demo_program (2 ^ 50)). far_displacement s)"
  using demo_program_far by (simp add: analyze_accepts)

end
