(* ===== verification/Parser_Safety.thy ===== *)
theory Parser_Safety
  imports Parser Lexer_Literals Lower_Object
begin

text \<open>
  What a parsed program is made of, and when parsing fails: every token the parser sees is well
  formed, so names are identifiers and registers exist; the parser fails exactly when it has reported.
\<close>

subsection \<open>Well-formed tokens\<close>

definition token_ok :: "Token \<Rightarrow> bool" where
  "token_ok t \<longleftrightarrow> tk_type t = TT_Identifier \<longrightarrow> list_all isIdentifierContinue (tk_text t)"

lemma lexString_not_identifier: "tk_type (fst (lexString start m)) \<noteq> TT_Identifier"
  by (simp add: lexString_def split: prod.split sum.split)

lemma lexInteger_not_identifier: "tk_type (fst (lexInteger start n m)) \<noteq> TT_Identifier"
  unfolding lexInteger_def Let_def by (simp only: if_distrib [of fst] if_distrib [of tk_type] fst_conv) simp

lemma lexCharacter_not_identifier: "tk_type (fst (lexCharacter start m)) \<noteq> TT_Identifier"
  unfolding lexCharacter_def Let_def by (simp add: case_prod_beta split: sum.split)

lemma lexNext_token_ok:
  assumes "lexNext l = (t, l')"
  shows "token_ok t"
proof (cases "tk_type t = TT_Identifier \<and> lx_ptr l \<le> length (lx_source l)")
  case False
  then show ?thesis using lexNext_end [of l] assms by (auto simp: token_ok_def)
next
  case True
  define s where "s = skipped l"
  have "\<not> atEnd s" using True assms by (auto simp: lexNext_def s_def Let_def)
  define c where "c = lx_source s ! lx_ptr s"
  define l1 where "l1 = forward 1 s"
  have a: "lx_advance s = (c, l1)" using \<open>\<not> atEnd s\<close> by (simp add: advance_eq c_def l1_def)
  have no: "tk_type (fst (lexInteger start n m)) \<noteq> TT_Identifier" "tk_type (fst (lexString start m)) \<noteq> TT_Identifier"
    "tk_type (fst (lexCharacter start m)) \<noteq> TT_Identifier" for start n m
    using lexString_not_identifier lexCharacter_not_identifier lexInteger_not_identifier by blast+
  define Q where "Q r \<longleftrightarrow> (tk_type (fst r) = TT_Identifier \<longrightarrow>
      isIdentifierStart c \<and> fst r = fst (lexIdentifierOrRegister (lx_ptr s) l1))" for r :: "Token \<times> Lexer"
  have "Q (makeToken type start m, k)" if "type \<noteq> TT_Identifier" for type start m k using that by (simp add: Q_def)
  moreover have "Q (makeError start message m, k)" for start message m k by (simp add: Q_def)
  moreover have "Q (lexInteger start n m)" "Q (lexString start m)" "Q (lexCharacter start m)" for start n m
    using no by (simp_all add: Q_def)
  moreover have "isIdentifierStart c \<Longrightarrow> Q (lexIdentifierOrRegister (lx_ptr s) l1)" by (simp add: Q_def)
  ultimately have "Q (lexNext l)" unfolding lexNext_step [OF \<open>\<not> atEnd s\<close> s_def c_def l1_def] by simp
  then have i: "isIdentifierStart c \<and> t = fst (lexIdentifierOrRegister (lx_ptr s) l1)"
    using assms True by (simp add: Q_def)
  have "spelling (lx_ptr s) s = []" "ahead s = c # drop (Suc (lx_ptr s)) (lx_source s)"
    using \<open>\<not> atEnd s\<close> Cons_nth_drop_Suc [of "lx_ptr s" "lx_source s"] by (simp_all add: spelling_def ahead_def c_def atEnd_def)
  then have "spelling (lx_ptr s) l1 = [c]" using spelling_ahead [of "lx_ptr s" s 1] by (simp add: l1_def)
  moreover have "lx_ptr s \<le> lx_ptr l1" by (simp add: l1_def forward_def)
  ultimately have "spelling (lx_ptr s) (skip_while isIdentifierContinue l1) = c # takeWhile isIdentifierContinue (ahead l1)"
    using spelling_ahead [of "lx_ptr s" l1] by (simp add: skip_while_def ahead_def flip: takeWhile_eq_take)
  with i show ?thesis
    by (auto simp: token_ok_def lexIdentifierOrRegister_def Let_def isIdentifierContinue_def list_all_iff
        dest: set_takeWhileD split: option.splits)
qed

subsection \<open>The invariant of the parser\<close>

definition malformed :: "Lexer \<Rightarrow> bool" where
  "malformed l \<longleftrightarrow> list_ex (\<lambda>t. tk_type t = TT_Error) (lex_all l)"

text \<open>\<open>bad\<close> says that the file has a malformed token: one was reported, or one is still to come.\<close>

definition good :: "bool \<Rightarrow> Parser \<Rightarrow> bool" where
  "good bad p \<longleftrightarrow> list_all token_ok (pa_buffer p) \<and> (pa_failed p \<longrightarrow> hasErrors (pa_engine p)) \<and> \<not> lx_peeked (pa_lexer p) \<and>
     (bad \<longrightarrow> pa_failed p \<or> malformed (pa_lexer p)) \<and>
     (list_ex (\<lambda>t. tk_type t = TT_Eof) (pa_buffer p) \<longrightarrow> \<not> malformed (pa_lexer p))"

lemma lexNext_at_end:
  assumes "lexNext l = (t, l')" and "tk_type t = TT_Eof"
  shows "\<exists>u. lexNext l' = (u, l') \<and> tk_type u = TT_Eof"
proof -
  have "lx_ptr l' \<ge> length (lx_source l')"
  proof (cases "lx_ptr l \<le> length (lx_source l)")
    case True
    then show ?thesis using lexNext_progress(1,8) [OF True assms(1)] assms(2) by simp
  next
    case False
    then show ?thesis using lexNext_end [OF False] assms(1) by simp
  qed
  then have "atEnd l'" by (simp add: atEnd_def)
  then have "skipped l' = l'" by (simp add: skipHorizontalWhitespaceAndComments.simps)
  with \<open>atEnd l'\<close> show ?thesis by (simp add: lexNext_def)
qed

lemma malformed_next:
  assumes "lexNext l = (t, l')"
  shows "malformed l \<longleftrightarrow> tk_type t = TT_Error \<or> malformed l'" and "tk_type t = TT_Eof \<Longrightarrow> \<not> malformed l'"
proof -
  show eof: "\<not> malformed l'" if "tk_type t = TT_Eof"
    using lexNext_at_end [OF assms that] lex_all_cases [of l'] by (auto simp: malformed_def)
  show "malformed l \<longleftrightarrow> tk_type t = TT_Error \<or> malformed l'"
    using eof by (auto simp: malformed_def lex_all_cases [OF assms])
qed

lemma good_error [intro]: "good bad p \<Longrightarrow> good bad (parser_error token code message p)"
  by (simp add: good_def parser_error_def hasErrors_def report_error_def error_diagnostic_def Diagnostics.report_def)

lemma fetch_good:
  assumes "good bad p" and "fetch p = (t, q)"
  shows "good bad q \<and> token_ok t \<and> (tk_type t = TT_Eof \<longrightarrow> \<not> malformed (pa_lexer q))"
  using assms
proof (induction p arbitrary: t q rule: fetch.induct)
  case (1 p)
  obtain u l where n: "lx_next (pa_lexer p) = (u, l)" by fastforce
  with "1.prems"(1) have m: "lexNext (pa_lexer p) = (u, l)" by (simp add: good_def lx_next_def)
  have "\<not> lx_peeked l"
  proof (cases "lx_ptr (pa_lexer p) \<le> length (lx_source (pa_lexer p))")
    case True
    then show ?thesis using lexNext_progress(3) [OF True m] "1.prems"(1) by (simp add: good_def)
  next
    case False
    then show ?thesis using lexNext_end [OF False] m "1.prems"(1) by (simp add: good_def)
  qed
  note mal = malformed_next [OF m]
  show ?case
  proof (cases "tk_type u = TT_Error")
    case True
    let ?p = "parser_error u EC_LexicalError (tk_str u) (p\<lparr> pa_lexer := l \<rparr>)"
    have "fetch p = fetch ?p" using n True by (simp add: fetch.simps [of p] parser_error_def)
    moreover have "good bad ?p"
      using "1.prems"(1) \<open>\<not> lx_peeked l\<close> mal
      by (auto simp: good_def parser_error_def hasErrors_def report_error_def error_diagnostic_def Diagnostics.report_def)
    ultimately show ?thesis using "1.IH" [OF n [symmetric] refl refl True, of t q] "1.prems"(2)
      by (simp add: parser_error_def)
  next
    case False
    with n "1.prems" \<open>\<not> lx_peeked l\<close> mal lexNext_token_ok [OF m] show ?thesis by (auto simp: fetch.simps [of p] good_def)
  qed
qed

lemma fill_good: "good bad p \<Longrightarrow> good bad (fill n p)"
proof (induction n arbitrary: p)
  case (Suc n)
  obtain t q where f: "fetch p = (t, q)" by fastforce
  from fetch_good [OF Suc.prems f] have "good bad (q\<lparr> pa_buffer := pa_buffer q @ [t] \<rparr>)" by (simp add: good_def)
  from Suc.IH [OF this] show ?case by (simp add: f)
qed simp

lemma peek_good:
  assumes "good bad p" and "peek_at k p = (t, q)"
  shows "good bad q \<and> token_ok t"
proof -
  have "good bad q" using assms fill_good [of bad p] by (auto simp: peek_at_def Let_def)
  with peek_size [OF assms(2)] show ?thesis by (auto simp: good_def list_all_length)
qed

lemma take_token_good:
  assumes "good bad p" and "take_token p = (t, q)"
  shows "good bad q \<and> token_ok t"
proof -
  obtain u r where r: "peek p = (u, r)" by fastforce
  with assms(2) have "t = u" "q = r\<lparr> pa_buffer := tl (pa_buffer r) \<rparr>" by (auto simp: take_token_def)
  with peek_good [OF assms(1) r] show ?thesis by (cases "pa_buffer r") (auto simp: good_def)
qed

lemma snd_take_good: "good bad p \<Longrightarrow> good bad (snd (take_token p))"
  using take_token_good [of bad p] by (cases "take_token p") auto

lemma match_good: "good bad p \<Longrightarrow> match type p = (b, q) \<Longrightarrow> good bad q"
  using peek_good [of bad p 0] snd_take_good by (fastforce simp: match_def split: prod.splits if_splits)

lemma expect_good:
  assumes "good bad p" and "expect type what p = (r, q)"
  shows "good bad q \<and> (\<forall>t. r = Some t \<longrightarrow> token_ok t \<and> tk_type t = type)"
proof -
  obtain u s where s: "peek p = (u, s)" by fastforce
  have g: "good bad s" using peek_good [OF assms(1) s] by simp
  show ?thesis
  proof (cases "tk_type u = type")
    case True
    obtain v w where w: "take_token s = (v, w)" by fastforce
    with take_token_peeked [OF s] have "v = u" by simp
    with take_token_good [OF g w] assms(2) s w True show ?thesis by (auto simp: expect_def)
  next
    case False
    with assms(2) s g show ?thesis by (auto simp: expect_def)
  qed
qed

subsection \<open>Operands\<close>

lemma identifier_printable: "list_all isIdentifierContinue s \<Longrightarrow> printable s"
  by (auto simp: printable_def list_all_iff isIdentifierContinue_def isIdentifierStart_def isDigit_def char_code_def)

lemma register_of_valid [simp]: "isValidRegister (register_of name)"
  using parseRegister_valid by (simp add: register_of_def split: option.split)

lemma blank_operand_source [simp]: "operand_from_source blank_operand"
  by (simp add: operand_from_source_def blank_operand_def printable_def)

lemma operand_from_source_updates [simp]:
  "operand_from_source (opd\<lparr> op_type := type \<rparr>) = operand_from_source opd"
  "operand_from_source (opd\<lparr> op_immediate := v \<rparr>) = operand_from_source opd"
  "operand_from_source (opd\<lparr> op_text := x \<rparr>) = operand_from_source opd"
  "operand_from_source (opd\<lparr> op_location := location \<rparr>) = operand_from_source opd"
  "operand_from_source (opd\<lparr> op_reg := register_of name \<rparr>) = printable (op_symbol opd)"
  "operand_from_source (opd\<lparr> op_symbol := n \<rparr>) \<longleftrightarrow> printable n \<and> isValidRegister (op_reg opd)"
  by (simp_all add: operand_from_source_def)

lemma blank_operand_simps [simp]: "op_symbol blank_operand = []" "op_reg blank_operand = 0" "printable []"
  by (simp_all add: blank_operand_def printable_def)

definition good_result :: "bool \<Rightarrow> ('a \<Rightarrow> bool) \<Rightarrow> 'a option \<times> Parser \<Rightarrow> bool" where
  "good_result bad Q r \<longleftrightarrow> good bad (snd r) \<and> (\<forall>x. fst r = Some x \<longrightarrow> Q x)"

lemma good_result_simps [simp]:
  "good_result bad Q (None, p) \<longleftrightarrow> good bad p" "good_result bad Q (Some x, p) \<longleftrightarrow> good bad p \<and> Q x"
  "good_result bad Q (map_option f v, p) \<longleftrightarrow> good bad p \<and> (\<forall>x. v = Some x \<longrightarrow> Q (f x))"
  by (auto simp: good_result_def)

lemma parseSymbolExpression_good:
  assumes "good bad p" and "printable name"
  shows "good_result bad operand_from_source (parseSymbolExpression name location p)"
proof -
  obtain t q where q: "peek p = (t, q)" by fastforce
  obtain a r where r: "expect TT_Integer ''an integer addend'' (snd (take_token q)) = (a, r)" by fastforce
  have "good bad q" "good bad r" using peek_good [OF assms(1) q] expect_good [OF snd_take_good r] by auto
  then show ?thesis using assms(2)
    by (auto simp: parseSymbolExpression_def q r Let_def split: option.split)
qed

lemma parseMemoryOperand_good:
  assumes "good bad p"
  shows "good_result bad operand_from_source (parseMemoryOperand p)"
proof -
  obtain o1 p1 where 1: "take_token p = (o1, p1)" by fastforce
  obtain b p2 where 2: "expect TT_Register (''a base register inside '' @ quoted ''[...]'') p1 = (b, p2)" by fastforce
  obtain t p3 where 3: "peek p2 = (t, p3)" by fastforce
  define r where "r = (if tk_type t = TT_Plus \<or> tk_type t = TT_Minus
     then let p = snd (take_token p3); (value, p) = expect TT_Integer ''an integer displacement'' p in
       (map_option (\<lambda>v. negated (tk_type t = TT_Minus) (tk_int v)) value, p)
     else if tk_type t = TT_Integer
     then (None, parser_error t EC_InvalidOperand
            (''expected '' @ quoted ''+'' @ '' or '' @ quoted ''-'' @ '' before the displacement'') p3)
     else (Some 0, p3))"
  obtain d p4 where 4: "r = (d, p4)" by fastforce
  obtain c p5 where 5: "expect TT_RBracket (quoted '']'' @ '' to close the memory operand'') p4 = (c, p5)" by fastforce
  have g: "good bad p1" "good bad p2" "good bad p3"
    using take_token_good [OF assms 1] expect_good [OF _ 2] peek_good [OF _ 3] by auto
  obtain w p6 where 6: "expect TT_Integer ''an integer displacement'' (snd (take_token p3)) = (w, p6)" by fastforce
  have "good bad p6" using expect_good [OF snd_take_good 6] g(3) by simp
  then have "good bad (snd r)" using g(3) by (simp add: r_def 6 good_error)
  then have g4: "good bad p4" by (simp add: 4)
  moreover have "good bad p5" using expect_good [OF g4 5] by simp
  ultimately show ?thesis
    unfolding parseMemoryOperand_def Let_def 1 prod.case 2 3 r_def [unfolded Let_def, symmetric] 4 5
    using g by (auto split: option.split)
qed

lemma parseOperand_good:
  assumes "good bad p"
  shows "good_result bad operand_from_source (parseOperand p)"
proof -
  obtain t p1 where 1: "peek p = (t, p1)" by fastforce
  obtain u p2 where 2: "take_token p1 = (u, p2)" by fastforce
  obtain v p3 where 3: "expect TT_Integer (''an integer after '' @ quoted ''#'') p2 = (v, p3)" by fastforce
  obtain n p4 where 4: "expect TT_Identifier (''a name after '' @ quoted ''.'') p2 = (n, p4)" by fastforce
  have g: "good bad p1" "good bad p2" "token_ok u" "good bad p3" "good bad p4" "\<forall>x. n = Some x \<longrightarrow> token_ok x \<and> tk_type x = TT_Identifier"
    using peek_good [OF assms 1] take_token_good [of bad, OF _ 2] expect_good [of bad, OF _ 3] expect_good [of bad, OF _ 4]
    by auto
  have "u = t" using take_token_peeked [OF 1] 2 by simp
  then have name: "tk_type t = TT_Identifier \<Longrightarrow> printable (tk_text u)" "n = Some x \<Longrightarrow> printable (''.'' @ tk_text x)" for x
    using g(3,6) identifier_printable by (auto simp: token_ok_def printable_def)
  show ?thesis
    unfolding parseOperand_def Let_def 1 prod.case 2 snd_conv 3 4
    using g name parseMemoryOperand_good [OF g(1)] parseSymbolExpression_good [OF g(2)] parseSymbolExpression_good [OF g(5)]
    by (cases "tk_type t") (auto split: option.split)
qed

subsection \<open>Lines\<close>

lemma parse_operands_good:
  assumes "good bad p" and "list_all operand_from_source operands"
  shows "good_result bad (list_all operand_from_source) (parse_operands operands p)"
  using assms
proof (induction operands p rule: parse_operands.induct)
  case (1 operands p)
  obtain t q where q: "peek p = (t, q)" by fastforce
  have gq: "good bad q" using peek_good [OF "1.prems"(1) q] by simp
  show ?case
  proof (cases "ends_line t")
    case True
    then show ?thesis using gq q "1.prems" by (simp add: parse_operands.simps [of operands p])
  next
    case False
    obtain opd r where r: "parseOperand q = (opd, r)" by fastforce
    have gr: "good bad r" "opd = Some x \<Longrightarrow> operand_from_source x" for x
      using parseOperand_good [OF gq] r by (auto simp: good_result_def)
    show ?thesis
    proof (cases opd)
      case None
      then show ?thesis using gr q r False by (simp add: parse_operands.simps [of operands p])
    next
      case (Some opnd)
      obtain comma u where u: "match TT_Comma r = (comma, u)" by fastforce
      obtain v a where v: "peek u = (v, a)" by fastforce
      have gu: "good bad u" "good bad a" using match_good [OF gr(1) u] peek_good [OF _ v] by auto
      show ?thesis
      proof (cases "comma \<and> \<not> ends_line v")
        case True
        have "good_result bad (list_all operand_from_source) (parse_operands (operands @ [opnd]) a)"
          by (rule "1.IH" [OF refl q [symmetric] False refl r [symmetric] Some refl refl u [symmetric] _ refl v [symmetric]])
            (use True gu gr Some "1.prems" in auto)
        with True show ?thesis by (simp add: parse_operands.simps [of operands p] q False r Some u v)
      next
        case no: False
        then show ?thesis using gu gr Some "1.prems"
          by (auto simp: parse_operands.simps [of operands p] q False r Some u v Let_def)
      qed
    qed
  qed
qed

lemma parseInstruction_good:
  assumes "good bad p"
  shows "good_result bad (\<lambda>node. statement_from_source (St_Instruction node)) (parseInstruction p)"
proof -
  obtain t q where q: "take_token p = (t, q)" by fastforce
  obtain ops r where r: "parse_operands [] q = (ops, r)" by fastforce
  have "good_result bad (list_all operand_from_source) (ops, r)"
    using parse_operands_good [of bad q "[]"] take_token_good [OF assms q] r by simp
  then show ?thesis by (cases ops) (simp_all add: parseInstruction_def q r)
qed

lemma findDirective_printable: "findDirective name = Some entry \<Longrightarrow> printable (ds_implicit_section entry)"
proof -
  have "list_all (\<lambda>entry. CHR 0x00 \<notin> set (ds_implicit_section entry)) kDirectives" by code_simp
  then show "findDirective name = Some entry \<Longrightarrow> printable (ds_implicit_section entry)"
    by (auto simp: findDirective_def find_Some_iff list_all_iff printable_def)
qed

lemma parseDirective_good:
  assumes "good bad p"
  shows "good_result bad (\<lambda>node. statement_from_source (St_Directive node)) (parseDirective p)"
proof -
  obtain t q where q: "take_token p = (t, q)" by fastforce
  obtain n r where r: "expect TT_Identifier ''a directive name'' q = (n, r)" by fastforce
  obtain ops s where s: "parse_operands [] r = (ops, s)" by fastforce
  have g: "good bad r" using expect_good [OF _ r] take_token_good [OF assms q] by simp
  then have "good_result bad (list_all operand_from_source) (ops, s)" using parse_operands_good [of bad r "[]"] s by simp
  with g show ?thesis
    by (cases ops) (auto simp: parseDirective_def q r s Let_def findDirective_printable split: option.split)
qed

lemma is_label_good:
  assumes "good bad p"
  shows "good bad (snd (is_plain_label p))" "good bad (snd (is_local_label p))"
proof -
  obtain t q where q: "peek p = (t, q)" by fastforce
  obtain u r where r: "peek_at (Suc 0) q = (u, r)" by fastforce
  obtain v s where s: "peek_at 2 r = (v, s)" by fastforce
  have "good bad q" "good bad r" "good bad s" using peek_good [OF assms q] peek_good [OF _ r] peek_good [OF _ s] by auto
  then show "good bad (snd (is_plain_label p))" "good bad (snd (is_local_label p))"
    by (simp_all add: is_plain_label_def is_local_label_def q r s)
qed

lemma take_token_buffer: "pa_buffer p = t # ts \<Longrightarrow> take_token p = (t, p\<lparr> pa_buffer := ts \<rparr>)"
  by (simp add: take_token_def peek_at_def)

lemma local_label_buffer:
  assumes "is_local_label p = (True, q)"
  shows "\<exists>d n more. pa_buffer q = d # n # more \<and> tk_type n = TT_Identifier"
proof -
  obtain t r where r: "peek p = (t, r)" by fastforce
  obtain u s where s: "peek_at (Suc 0) r = (u, s)" by fastforce
  obtain v w where w: "peek_at 2 s = (v, w)" by fastforce
  from assms have "tk_type u = TT_Identifier" "q = w" by (auto simp: is_local_label_def r s w split: if_splits)
  moreover have "Suc 0 < length (pa_buffer s)" "u = pa_buffer s ! Suc 0" using peek_size [OF s] by simp_all
  moreover obtain more where "pa_buffer w = pa_buffer s @ more"
    using fill_prefix [of "2 + 1 - length (pa_buffer s)" s] w by (auto simp: peek_at_def Let_def)
  ultimately show ?thesis by (cases "pa_buffer s"; cases "tl (pa_buffer s)") auto
qed

lemma parse_labels_good:
  assumes "good bad p" and "from_source out"
  shows "good bad (snd (parse_labels p out)) \<and> from_source (fst (parse_labels p out))"
  using assms
proof (induction p out rule: parse_labels.induct)
  case (1 p out)
  obtain a q where q: "is_plain_label p = (a, q)" by fastforce
  obtain b r where r: "is_local_label q = (b, r)" by fastforce
  obtain t s where s: "take_token r = (t, s)" by fastforce
  obtain u v where v: "take_token s = (u, v)" by fastforce
  have g: "good bad q" "good bad r" using is_label_good(1) [OF "1.prems"(1)] is_label_good(2) [of bad q] q r by simp_all
  then have g2: "good bad s" "token_ok t" "good bad v" "token_ok u" using take_token_good [OF _ s] take_token_good [OF _ v] by auto
  show ?case
  proof (cases "a \<or> b")
    case False
    then show ?thesis using g "1.prems" by (simp add: parse_labels.simps [of p out] q r)
  next
    case True
    then have c: "\<not> (\<not> a \<and> \<not> b)" by blast
    note IH = "1.IH"(1) [OF q [symmetric] refl r [symmetric] refl c _ s [symmetric] refl v [symmetric] refl refl]
      "1.IH"(2) [OF q [symmetric] refl r [symmetric] refl c _ s [symmetric] refl refl]
    show ?thesis
    proof (cases b)
      case True
      obtain d n more where "pa_buffer r = d # n # more" "tk_type n = TT_Identifier"
        using local_label_buffer [of q r] r True by auto
      then have "tk_type u = TT_Identifier" using s v by (auto simp: take_token_buffer)
      then have "printable (''.'' @ tk_text u)" using g2(4) identifier_printable by (auto simp: token_ok_def printable_def)
      then show ?thesis using IH(1) True snd_take_good [OF g2(3)] "1.prems"(2) q r s v
        by (simp add: parse_labels.simps [of p out] Let_def from_source_def)
    next
      case False
      obtain x where x: "headed x q" "tk_type x = TT_Identifier" using is_plain_label_headed(2) [of p q] q True False by auto
      then have "headed x r" using is_local_label_headed(1) [of x q] r by simp
      then have "t = x" using take_token_peeked [OF headed_peek] s by fastforce
      then have "printable (tk_text t)" using x(2) g2(2) identifier_printable by (auto simp: token_ok_def)
      then show ?thesis using IH(2) True False snd_take_good [OF g2(1)] "1.prems"(2) q r s
        by (simp add: parse_labels.simps [of p out] Let_def from_source_def)
    qed
  qed
qed

lemma finish_line_good: "good bad p \<Longrightarrow> good bad (snd (finish_line p))"
proof -
  assume g: "good bad p"
  obtain t q where q: "peek p = (t, q)" by fastforce
  obtain b r where r: "match TT_Newline q = (b, r)" by fastforce
  have "good bad q" "good bad r" using peek_good [OF g q] match_good [OF _ r] by auto
  then show "good bad (snd (finish_line p))" by (auto simp: finish_line_def q r)
qed

lemma skip_line_good: "good bad p \<Longrightarrow> good bad (skip_line p)"
proof (induction p rule: skip_line.induct)
  case (1 p)
  obtain t q where q: "peek p = (t, q)" by fastforce
  have "good bad q" using peek_good [OF "1.prems" q] by simp
  with "1.IH" [OF refl q [symmetric]] snd_take_good q show ?case by (simp add: skip_line.simps [of p])
qed

lemma skipToEndOfLine_good: "good bad p \<Longrightarrow> good bad (skipToEndOfLine p)"
proof -
  assume g: "good bad p"
  obtain b q where q: "match TT_Newline (skip_line p) = (b, q)" by fastforce
  show "good bad (skipToEndOfLine p)" using match_good [OF skip_line_good [OF g] q] by (simp add: skipToEndOfLine_def q)
qed

lemma from_source_snoc [simp]: "from_source (out @ [s]) \<longleftrightarrow> from_source out \<and> statement_from_source s"
  by (simp add: from_source_def)

lemma parseLine_good:
  assumes "good bad p" and "from_source out" and "parseLine p out = (ok, out', q)"
  shows "good bad q \<and> from_source out'"
proof -
  obtain out1 p1 where l: "parse_labels p out = (out1, p1)" by fastforce
  obtain u p2 where u: "peek p1 = (u, p2)" by fastforce
  obtain d r where d: "parseDirective p2 = (d, r)" by fastforce
  obtain i s where i: "parseInstruction p2 = (i, s)" by fastforce
  obtain b w where w: "match TT_Newline p2 = (b, w)" by fastforce
  have g1: "good bad p1" "from_source out1" using parse_labels_good [OF assms(1,2)] l by simp_all
  have g2: "good bad p2" using peek_good [OF g1(1) u] by simp
  have g3: "good bad w" using match_good [OF g2 w] .
  have g4: "good bad r" "d = Some x \<Longrightarrow> statement_from_source (St_Directive x)" for x
    using parseDirective_good [OF g2] d by (simp_all add: good_result_def)
  have g5: "good bad s" "i = Some x \<Longrightarrow> statement_from_source (St_Instruction x)" for x
    using parseInstruction_good [OF g2] i by (simp_all add: good_result_def)
  have g6: "good bad (snd (finish_line r))" "good bad (snd (finish_line s))" using finish_line_good g4(1) g5(1) by auto
  obtain fb fr where f: "finish_line r = (fb, fr)" by fastforce
  obtain sb sr where sf: "finish_line s = (sb, sr)" by fastforce
  consider "ends_line u" | "\<not> ends_line u" "tk_type u = TT_Dot" | "\<not> ends_line u" "tk_type u = TT_Identifier"
    | "\<not> ends_line u" "tk_type u \<noteq> TT_Dot" "tk_type u \<noteq> TT_Identifier" by blast
  then show ?thesis
  proof cases
    case 1
    with assms(3) g1 g3 show ?thesis by (simp add: parseLine_def l u w)
  next
    case 2
    with assms(3) g1 g4 g6 f show ?thesis by (cases d) (auto simp: parseLine_def l u d)
  next
    case 3
    with assms(3) g1 g5 g6 sf show ?thesis by (cases i) (auto simp: parseLine_def l u i)
  next
    case 4
    with assms(3) g1 g2 show ?thesis by (auto simp: parseLine_def l u)
  qed
qed

lemma parse_lines_good:
  assumes "good bad p" and "from_source out"
  shows "good bad (snd (parse_lines out p)) \<and> from_source (fst (parse_lines out p))"
  using assms
proof (induction out p rule: parse_lines.induct)
  case (1 out p)
  obtain t q where q: "peek p = (t, q)" by fastforce
  have gq: "good bad q" using peek_good [OF "1.prems"(1) q] by simp
  obtain m r where m: "match TT_Newline q = (m, r)" by fastforce
  have gr: "good bad r" using match_good [OF gq m] .
  obtain ok out' s where l: "parseLine r out = (ok, out', s)" by (metis prod_cases3)
  have gs: "good bad s" "from_source out'" using parseLine_good [OF gr "1.prems"(2) l] by auto
  show ?case
  proof (cases "tk_type t = TT_Eof")
    case True
    then show ?thesis using gq "1.prems" q by (simp add: parse_lines.simps [of out p])
  next
    case False
    show ?thesis
    proof (cases m)
      case True
      with "1.IH"(1) [OF refl q [symmetric] False refl m [symmetric] True gr "1.prems"(2)] q m False show ?thesis
        by (simp add: parse_lines.simps [of out p])
    next
      case no: False
      have "good bad (if ok then s else skipToEndOfLine s)" using gs(1) skipToEndOfLine_good by simp
      with "1.IH"(2) [OF refl q [symmetric] False refl m [symmetric] no refl l [symmetric] refl] gs(2) q m l False no
      show ?thesis by (simp add: parse_lines.simps [of out p])
    qed
  qed
qed

lemma parse_lines_end: "\<exists>t. headed t (snd (parse_lines out p)) \<and> tk_type t = TT_Eof"
proof (induction out p rule: parse_lines.induct)
  case (1 out p)
  obtain t q where q: "peek p = (t, q)" by fastforce
  obtain m r where m: "match TT_Newline q = (m, r)" by fastforce
  obtain ok out' s where l: "parseLine r out = (ok, out', s)" by (metis prod_cases3)
  show ?case
  proof (cases "tk_type t = TT_Eof")
    case True
    then show ?thesis using peek_headed [OF q] q by (auto simp: parse_lines.simps [of out p])
  next
    case False
    with "1.IH"(1) [OF refl q [symmetric] False refl m [symmetric]]
      "1.IH"(2) [OF refl q [symmetric] False refl m [symmetric] _ refl l [symmetric] refl] q m l show ?thesis
      by (cases m) (simp_all add: parse_lines.simps [of out p])
  qed
qed

lemma parse_result:
  assumes "parse (start_parser (start_lexer source file) empty_engine) = (r, p)"
  shows "case r of
     Inl message \<Rightarrow> hasErrors (pa_engine p)
   | Inr program \<Rightarrow> \<not> hasErrors (pa_engine p) \<and> from_source program \<and>
       list_all (\<lambda>t. tk_type t \<noteq> TT_Error) (lex_all (start_lexer source file))"
proof -
  let ?start = "start_parser (start_lexer source file) empty_engine"
  let ?bad = "malformed (start_lexer source file)"
  obtain out q where q: "parse_lines [] ?start = (out, q)" by fastforce
  have "good ?bad ?start" by (simp add: good_def start_parser_def start_lexer_def)
  moreover have "from_source []" by (simp add: from_source_def)
  ultimately have "good ?bad q" "from_source out" using parse_lines_good [of ?bad ?start "[]"] q by simp_all
  moreover obtain t where "headed t q" "tk_type t = TT_Eof" using parse_lines_end [of "[]" ?start] q by auto
  then have "list_ex (\<lambda>t. tk_type t = TT_Eof) (pa_buffer q)" by (cases "pa_buffer q") (auto simp: headed_def)
  ultimately have "\<not> pa_failed q \<Longrightarrow> \<not> ?bad" "pa_failed q \<Longrightarrow> hasErrors (pa_engine q)" "from_source out"
    by (auto simp: good_def)
  then show ?thesis using assms by (auto simp: parse_def q malformed_def list_all_iff list_ex_iff)
qed

lemma parsed_from_source:
  assumes "parse (start_parser (start_lexer source file) empty_engine) = (Inr ss, p)"
  shows "from_source ss"
  using parse_result [OF assms] by simp


end
