(* ===== verification/Instruction_Text.thy ===== *)
theory Instruction_Text
  imports Parser_Safety
begin

text \<open>
  From an instruction to its text and back: what \<open>isa::toString\<close> prints is scanned, parsed, accepted
  and lowered to the same instruction.
\<close>

subsection \<open>Reading a text token by token\<close>

type_synonym Shape = "TokenType \<times> string \<times> i64"

definition shaped :: "Shape \<Rightarrow> Token \<Rightarrow> bool" where
  "shaped d t \<longleftrightarrow> tk_type t = fst d \<and> tk_text t = fst (snd d) \<and> tk_int t = snd (snd d) \<and> tk_type t \<noteq> TT_Error"

fun lexes :: "Lexer \<Rightarrow> Shape list \<Rightarrow> bool" where
  "lexes l [] = True"
| "lexes l (d # ds) = (shaped d (fst (lexNext l)) \<and> lexes (snd (lexNext l)) ds)"

definition reads :: "string \<Rightarrow> Shape list \<Rightarrow> bool" where
  "reads s ds \<longleftrightarrow> (\<forall>l. ahead l = s \<longrightarrow> lexes l ds)"

lemma readsI:
  assumes "\<And>l. ahead l = s \<Longrightarrow> shaped d (fst (lexNext l)) \<and> ahead (snd (lexNext l)) = rest" and "reads rest ds"
  shows "reads s (d # ds)"
  using assms by (simp add: reads_def)

lemma spelling_here: "spelling (lx_ptr l) (forward n l) = take n (ahead l)"
  using spelling_ahead [of "lx_ptr l" l n] by (simp add: spelling_def)

lemma reads_end: "reads [] [(TT_Eof, [], 0)]"
proof (rule readsI [where rest = "[]"])
  fix l assume "ahead l = []"
  then have "atEnd l" by (simp add: ahead_Nil)
  then have "skipped l = l" by (simp add: skipHorizontalWhitespaceAndComments.simps)
  with \<open>atEnd l\<close> show "shaped (TT_Eof, [], 0) (fst (lexNext l)) \<and> ahead (snd (lexNext l)) = []"
    by (simp add: lexNext_def shaped_def spelling_def ahead_Nil)
qed (simp add: reads_def)

lemma reads_blank:
  assumes "reads s ds" and "ds \<noteq> []"
  shows "reads (CHR '' '' # s) ds"
proof -
  have "lexes l ds" if "ahead l = CHR '' '' # s" for l
  proof -
    note a = ahead_Cons [OF that]
    have "skipped l = skipped (forward 1 l)"
      using a by (simp add: skipHorizontalWhitespaceAndComments.simps [of l] is_blank_def)
    then have "lexNext l = lexNext (forward 1 l)" by (simp add: lexNext_def)
    moreover have "lexes (forward 1 l) ds" using assms(1) a(4) by (simp add: reads_def)
    ultimately show ?thesis using assms(2) by (cases ds) simp_all
  qed
  then show ?thesis by (simp add: reads_def)
qed

definition punctuation :: "(char \<times> TokenType) list" where
  "punctuation = [(CHR '','', TT_Comma), (CHR ''+'', TT_Plus), (CHR ''['', TT_LBracket), (CHR '']'', TT_RBracket)]"

lemma reads_punctuation:
  assumes "reads s ds" and "(c, type) \<in> set punctuation"
  shows "reads (c # s) ((type, [c], 0) # ds)"
proof (rule readsI [where rest = s])
  fix l assume al: "ahead l = c # s"
  note a = ahead_Cons [OF al]
  have sk: "skipped l = l" by (rule skipped_here [OF al]) (use assms(2) in \<open>auto simp: punctuation_def is_blank_def\<close>)
  have "lexNext l = (makeToken type (lx_ptr l) (forward 1 l), forward 1 l)"
    using assms(2) a(1,5) by (auto simp: lexNext_def sk punctuation_def)
  then show "shaped (type, [c], 0) (fst (lexNext l)) \<and> ahead (snd (lexNext l)) = s"
    using a(4) assms(2) al spelling_here [of l 1] by (auto simp: shaped_def punctuation_def)
qed (rule assms(1))

lemma reads_minus:
  assumes "reads (CHR '' '' # s) ds"
  shows "reads (CHR ''-'' # CHR '' '' # s) ((TT_Minus, ''-'', 0) # ds)"
proof (rule readsI [where rest = "CHR '' '' # s"])
  fix l assume al: "ahead l = CHR ''-'' # CHR '' '' # s"
  note a = ahead_Cons [OF al]
  have sk: "skipped l = l" by (rule skipped_here [OF al]) (simp_all add: is_blank_def)
  have "peekChar (forward 1 l) = CHR '' ''" using ahead_Cons(3) [OF a(4)] .
  moreover have "\<not> isDigit (CHR '' '')" by (simp add: isDigit_def char_code_def)
  ultimately have "lexNext l = (makeToken TT_Minus (lx_ptr l) (forward 1 l), forward 1 l)"
    using a(1,5) by (simp add: lexNext_def sk)
  then show "shaped (TT_Minus, ''-'', 0) (fst (lexNext l)) \<and> ahead (snd (lexNext l)) = CHR '' '' # s"
    using a(4) al spelling_here [of l 1] by (simp add: shaped_def)
qed (rule assms)

definition word_type :: "string \<Rightarrow> TokenType" where
  "word_type w = (case parseRegister w of None \<Rightarrow> TT_Identifier | Some _ \<Rightarrow> TT_Register)"

definition is_word :: "string \<Rightarrow> bool" where
  "is_word w \<longleftrightarrow> w \<noteq> [] \<and> isIdentifierStart (hd w) \<and> list_all isIdentifierContinue w"

lemma letter_not_special:
  assumes "isIdentifierStart c"
  shows "\<not> is_blank c" "c \<notin> {CHR '';'', CHR '':'', CHR '','', CHR ''+'', CHR ''.'', CHR ''#'', CHR ''['', CHR '']'', newline, CHR ''-'',
      CHR 0x22, CHR 0x27}"
  using assms by (auto simp: isIdentifierStart_def is_blank_def char_code_def)

lemma reads_word:
  assumes "reads rest ds" and "is_word w" and "stops_number rest"
  shows "reads (w @ rest) ((word_type w, w, 0) # ds)"
proof (rule readsI [where rest = rest])
  fix l assume al: "ahead l = w @ rest"
  obtain c cs where w: "w = c # cs" and c: "isIdentifierStart c" "list_all isIdentifierContinue cs"
    using assms(2) by (cases w) (auto simp: is_word_def)
  have al': "ahead l = c # cs @ rest" using al w by simp
  note a = ahead_Cons [OF al']
  note sp = letter_not_special [OF c(1)]
  have sk: "skipped l = l" by (rule skipped_here [OF al']) (use sp in simp_all)
  have "skip_while isIdentifierContinue (forward 1 l) = forward (length cs) (forward 1 l)"
    by (rule skip_while_run [OF a(4) c(2)]) (use assms(3) in \<open>simp add: stops_number_def\<close>)
  then have skip: "skip_while isIdentifierContinue (forward 1 l) = forward (length w) l" by (simp add: w)
  have "lexNext l = lexIdentifierOrRegister (lx_ptr l) (forward 1 l)"
    using sp c(1) a(1,5) by (simp add: lexNext_def sk Let_def)
  moreover have "spelling (lx_ptr l) (forward (length w) l) = w" by (simp add: spelling_here al)
  ultimately show "shaped (word_type w, w, 0) (fst (lexNext l)) \<and> ahead (snd (lexNext l)) = rest"
    unfolding lexIdentifierOrRegister_def Let_def skip
    by (auto simp: shaped_def word_type_def ahead_forward al split: option.split)
qed (rule assms(1))

lemma reads_number:
  assumes "reads rest ds" and "stops_number rest" and "if negative then n \<le> 2 ^ 63 else n < 2 ^ 63"
  shows "reads ((if negative then ''-'' else []) @ nat_str n @ rest)
    ((TT_Integer, (if negative then ''-'' else []) @ nat_str n, of_int (if negative then - int n else int n)) # ds)"
proof (rule readsI [where rest = rest])
  fix l assume al: "ahead l = (if negative then ''-'' else []) @ nat_str n @ rest"
  let ?k = "if negative then 1 else 0 :: nat"
  let ?m = "forward ?k l" and ?stop = "forward (?k + length (nat_str n)) l"
  have am: "ahead ?m = nat_str n @ rest" using al by (auto simp: ahead_forward)
  have "lexNext l = lexInteger (lx_ptr l) negative (forward 1 l)" by (rule lexNext_number [OF al assms(2)])
  moreover have "\<not> (2 ^ 64 \<le> int n \<or> (if negative then 2 ^ 63 < int n else 2 ^ 63 - 1 < int n))"
    using assms(3) by (cases negative) auto
  moreover have "lexInteger (lx_ptr l) negative (forward 1 l) =
      (let stop = forward (length (nat_str n)) ?m in
       if 2 ^ 64 \<le> int n \<or> (if negative then 2 ^ 63 < int n else 2 ^ 63 - 1 < int n)
       then (makeError (lx_ptr l) ''integer literal does not fit in 64 bits'' stop, stop)
       else ((makeToken TT_Integer (lx_ptr l) stop)\<lparr> tk_int := (if negative then NOT (of_int (int n)) + 1 else of_int (int n)) \<rparr>, stop))"
    by (rule lexInteger_decimal [OF am refl assms(2)]) (auto simp: spelling_forward)
  ultimately have "lexNext l = ((makeToken TT_Integer (lx_ptr l) ?stop)\<lparr> tk_int :=
      (if negative then NOT (of_int (int n)) + 1 else of_int (int n)) \<rparr>, ?stop)"
    by (simp only: Let_def if_False forward_forward)
  moreover have "spelling (lx_ptr l) ?stop = (if negative then ''-'' else []) @ nat_str n" by (auto simp: spelling_here al)
  moreover have "ahead ?stop = rest" by (auto simp: ahead_forward al)
  ultimately show "shaped (TT_Integer, (if negative then ''-'' else []) @ nat_str n, of_int (if negative then - int n else int n))
      (fst (lexNext l)) \<and> ahead (snd (lexNext l)) = rest"
    by (auto simp: shaped_def not_eq_complement)
qed (rule assms(1))

subsection \<open>Parsing the tokens\<close>

text \<open>The tokens in the buffer and those the lexer still yields; nothing is reported on the way.\<close>

definition feeds :: "Parser \<Rightarrow> Shape list \<Rightarrow> bool" where
  "feeds p ds \<longleftrightarrow> \<not> lx_peeked (pa_lexer p) \<and> \<not> pa_failed p \<and> \<not> hasErrors (pa_engine p) \<and>
     length (pa_buffer p) \<le> length ds \<and> list_all2 shaped (take (length (pa_buffer p)) ds) (pa_buffer p) \<and>
     lexes (pa_lexer p) (drop (length (pa_buffer p)) ds)"

lemma lexNext_peeked: "\<not> lx_peeked l \<Longrightarrow> \<not> lx_peeked (snd (lexNext l))"
proof -
  assume "\<not> lx_peeked l"
  obtain t l' where n: "lexNext l = (t, l')" by fastforce
  show ?thesis
  proof (cases "lx_ptr l \<le> length (lx_source l)")
    case True
    then show ?thesis using lexNext_progress(3) [OF True n] n \<open>\<not> lx_peeked l\<close> by simp
  next
    case False
    then show ?thesis using lexNext_end [OF False] \<open>\<not> lx_peeked l\<close> by simp
  qed
qed

lemma feeds_fetch:
  assumes "feeds p ds" and "length (pa_buffer p) < length ds"
  obtains t q where "fetch p = (t, q)" "feeds (q\<lparr> pa_buffer := pa_buffer q @ [t] \<rparr>) ds"
    "length (pa_buffer (q\<lparr> pa_buffer := pa_buffer q @ [t] \<rparr>)) = Suc (length (pa_buffer p))"
proof -
  let ?n = "length (pa_buffer p)"
  obtain t l where n: "lexNext (pa_lexer p) = (t, l)" by fastforce
  have d: "drop ?n ds = ds ! ?n # drop (Suc ?n) ds" using assms(2) by (simp add: Cons_nth_drop_Suc)
  then have t: "shaped (ds ! ?n) t" "lexes l (drop (Suc ?n) ds)" using assms(1) n by (simp_all add: feeds_def)
  then have "fetch p = (t, p\<lparr> pa_lexer := l \<rparr>)"
    using assms(1) n by (auto simp: fetch.simps [of p] lx_next_def feeds_def shaped_def Let_def)
  moreover have "feeds (p\<lparr> pa_lexer := l, pa_buffer := pa_buffer p @ [t] \<rparr>) ds"
    using assms t lexNext_peeked [of "pa_lexer p"] n
    by (simp add: feeds_def take_Suc_conv_app_nth list_all2_appendI)
  ultimately show ?thesis by (intro that [of t "p\<lparr> pa_lexer := l \<rparr>"]) simp_all
qed

lemma feeds_fill:
  "feeds p ds \<Longrightarrow> length (pa_buffer p) + n \<le> length ds \<Longrightarrow> feeds (fill n p) ds"
proof (induction n arbitrary: p)
  case (Suc n)
  then obtain t q where q: "fetch p = (t, q)" "feeds (q\<lparr> pa_buffer := pa_buffer q @ [t] \<rparr>) ds"
    "length (pa_buffer (q\<lparr> pa_buffer := pa_buffer q @ [t] \<rparr>)) = Suc (length (pa_buffer p))"
    using feeds_fetch [of p ds] by auto
  from Suc.IH [OF q(2)] q Suc.prems show ?case by simp
qed simp

lemma feeds_peek:
  assumes "feeds p ds" and "k < length ds"
  obtains t q where "peek_at k p = (t, q)" "shaped (ds ! k) t" "feeds q ds"
proof -
  let ?q = "fill (k + 1 - length (pa_buffer p)) p"
  have f: "feeds ?q ds"
  proof (rule feeds_fill [OF assms(1)])
    show "length (pa_buffer p) + (k + 1 - length (pa_buffer p)) \<le> length ds"
      using assms by (auto simp: feeds_def)
  qed
  have "k < length (pa_buffer ?q)" using fill_size [of "k + 1 - length (pa_buffer p)" p] by simp
  with f have "shaped (ds ! k) (pa_buffer ?q ! k)" by (auto simp: feeds_def list_all2_conv_all_nth)
  with f show ?thesis by (intro that) (simp_all add: peek_at_def Let_def)
qed

lemma feeds_take:
  assumes "feeds p (d # ds)"
  obtains t q where "take_token p = (t, q)" "shaped d t" "feeds q ds"
proof -
  obtain t q where q: "peek p = (t, q)" "shaped d t" "feeds q (d # ds)" using feeds_peek [OF assms, of 0] by auto
  have "0 < length (pa_buffer q)" using peek_size [OF q(1)] by simp
  then obtain x xs where x: "pa_buffer q = x # xs" by (cases "pa_buffer q") auto
  with q(3) have "feeds (q\<lparr> pa_buffer := xs \<rparr>) ds" by (simp add: feeds_def)
  with q x show ?thesis by (intro that) (simp_all add: take_token_def)
qed

lemma feeds_peek_take:
  assumes "feeds p (d # ds)"
  obtains t q r where "peek p = (t, q)" "shaped d t" "feeds q (d # ds)" "take_token q = (t, r)" "feeds r ds"
proof -
  obtain t q where q: "peek p = (t, q)" "shaped d t" "feeds q (d # ds)" using feeds_peek [OF assms, of 0] by auto
  obtain u r where r: "take_token q = (u, r)" "feeds r ds" using feeds_take [OF q(3)] by metis
  with q take_token_peeked [OF q(1)] show ?thesis using that by auto
qed

lemma feeds_expect:
  assumes "feeds p (d # ds)" and "fst d = type"
  obtains t q where "expect type what p = (Some t, q)" "shaped d t" "feeds q ds"
proof -
  obtain t q r where "peek p = (t, q)" "shaped d t" "feeds q (d # ds)" "take_token q = (t, r)" "feeds r ds"
    using feeds_peek_take [OF assms(1)] by metis
  with assms(2) show ?thesis by (intro that) (auto simp: expect_def shaped_def)
qed

lemma feeds_match:
  assumes "feeds p (d # ds)"
  obtains (yes) q where "fst d = type" "match type p = (True, q)" "feeds q ds"
    | (no) q where "fst d \<noteq> type" "match type p = (False, q)" "feeds q (d # ds)"
proof -
  obtain t q r where "peek p = (t, q)" "shaped d t" "feeds q (d # ds)" "take_token q = (t, r)" "feeds r ds"
    using feeds_peek_take [OF assms(1)] by metis
  then show ?thesis using that by (cases "fst d = type") (auto simp: match_def shaped_def)
qed

text \<open>The shape of one operand, and what is parsed from it.\<close>

definition operand_reads :: "Shape list \<Rightarrow> (Operand \<Rightarrow> bool) \<Rightarrow> bool" where
  "operand_reads ds P \<longleftrightarrow> ds \<noteq> [] \<and> fst (hd ds) \<notin> {TT_Newline, TT_Eof, TT_Colon} \<and>
     (\<forall>p rest. feeds p (ds @ rest) \<longrightarrow> (\<exists>opd q. parseOperand p = (Some opd, q) \<and> P opd \<and> feeds q rest))"

lemma register_reads:
  "operand_reads [(TT_Register, w, v)] (\<lambda>opd. op_type opd = OT_Register \<and> op_reg opd = register_of w)"
proof -
  have "\<exists>opd q. parseOperand p = (Some opd, q) \<and> (op_type opd = OT_Register \<and> op_reg opd = register_of w) \<and> feeds q rest"
    if f: "feeds p ((TT_Register, w, v) # rest)" for p rest
  proof -
    obtain t q r where "peek p = (t, q)" "shaped (TT_Register, w, v) t" "take_token q = (t, r)" "feeds r rest"
      using feeds_peek_take [OF f] by metis
    then show ?thesis by (simp add: parseOperand_def shaped_def)
  qed
  then show ?thesis by (simp add: operand_reads_def)
qed

lemma integer_reads:
  "operand_reads [(TT_Integer, w, v)] (\<lambda>opd. op_type opd = OT_Immediate \<and> op_immediate opd = v)"
proof -
  have "\<exists>opd q. parseOperand p = (Some opd, q) \<and> (op_type opd = OT_Immediate \<and> op_immediate opd = v) \<and> feeds q rest"
    if f: "feeds p ((TT_Integer, w, v) # rest)" for p rest
  proof -
    obtain t q r where "peek p = (t, q)" "shaped (TT_Integer, w, v) t" "take_token q = (t, r)" "feeds r rest"
      using feeds_peek_take [OF f] by metis
    then show ?thesis by (simp add: parseOperand_def shaped_def)
  qed
  then show ?thesis by (simp add: operand_reads_def)
qed

lemma memory_reads:
  assumes "s \<in> {TT_Plus, TT_Minus}"
  shows "operand_reads [(TT_LBracket, b, x), (TT_Register, w, y), (s, sw, z), (TT_Integer, n, v), (TT_RBracket, e, u)]
    (\<lambda>opd. op_type opd = OT_Memory \<and> op_reg opd = register_of w \<and> op_immediate opd = negated (s = TT_Minus) v)"
proof -
  have "\<exists>opd q. parseOperand p = (Some opd, q) \<and>
      (op_type opd = OT_Memory \<and> op_reg opd = register_of w \<and> op_immediate opd = negated (s = TT_Minus) v) \<and> feeds q rest"
    if f: "feeds p ((TT_LBracket, b, x) # (TT_Register, w, y) # (s, sw, z) # (TT_Integer, n, v) # (TT_RBracket, e, u) # rest)"
    for p rest
  proof -
    obtain t1 q1 r1 where 1: "peek p = (t1, q1)" "shaped (TT_LBracket, b, x) t1" "take_token q1 = (t1, r1)"
      "feeds r1 ((TT_Register, w, y) # (s, sw, z) # (TT_Integer, n, v) # (TT_RBracket, e, u) # rest)"
      using feeds_peek_take [OF f] by metis
    obtain t2 q2 where 2: "expect TT_Register (''a base register inside '' @ quoted ''[...]'') r1 = (Some t2, q2)"
      "shaped (TT_Register, w, y) t2" "feeds q2 ((s, sw, z) # (TT_Integer, n, v) # (TT_RBracket, e, u) # rest)"
      using feeds_expect [OF 1(4)] by (metis fst_conv)
    obtain t3 q3 r3 where 3: "peek q2 = (t3, q3)" "shaped (s, sw, z) t3" "take_token q3 = (t3, r3)"
      "feeds r3 ((TT_Integer, n, v) # (TT_RBracket, e, u) # rest)"
      using feeds_peek_take [OF 2(3)] by metis
    obtain t4 q4 where 4: "expect TT_Integer ''an integer displacement'' r3 = (Some t4, q4)" "shaped (TT_Integer, n, v) t4"
      "feeds q4 ((TT_RBracket, e, u) # rest)" using feeds_expect [OF 3(4)] by (metis fst_conv)
    obtain t5 q5 where 5: "expect TT_RBracket (quoted '']'' @ '' to close the memory operand'') q4 = (Some t5, q5)"
      "feeds q5 rest" using feeds_expect [OF 4(3)] by (metis fst_conv)
    have "tk_type t1 = TT_LBracket" "tk_text t2 = w" "tk_type t3 = s" "tk_int t4 = v" using 1 2 3 4 by (simp_all add: shaped_def)
    with 1 2 3 4 5 assms show ?thesis by (auto simp: parseOperand_def parseMemoryOperand_def Let_def)
  qed
  then show ?thesis by (simp add: operand_reads_def)
qed

definition eof :: Shape where
  "eof = (TT_Eof, [], 0)"

fun joined :: "Shape list list \<Rightarrow> Shape list" where
  "joined [] = []"
| "joined [ds] = ds"
| "joined (ds # others) = ds @ (TT_Comma, '','', 0) # joined others"

lemma shaped_type: "shaped d t \<Longrightarrow> tk_type t = fst d"
  by (simp add: shaped_def)

lemma parse_operands_reads:
  assumes "list_all2 operand_reads dss Ps" and "feeds p (joined dss @ [eof])"
  shows "\<exists>opds q. parse_operands acc p = (Some (acc @ opds), q) \<and> list_all2 (\<lambda>P opd. P opd) Ps opds \<and> feeds q [eof]"
  using assms
proof (induction dss arbitrary: Ps p acc rule: joined.induct)
  case 1
  then have "feeds p [eof]" by simp
  then obtain t q where q: "peek p = (t, q)" "shaped eof t" "feeds q [eof]" using feeds_peek [of p "[eof]" 0] by auto
  then have "ends_line t" by (auto simp: ends_line_def shaped_def eof_def)
  with q 1 show ?case by (simp add: parse_operands.simps [of acc p])
next
  case (2 ds)
  from "2.prems"(1) obtain P where P: "operand_reads ds P" "Ps = [P]" by (auto simp: list_all2_Cons1)
  have f: "feeds p (ds @ [eof])" using "2.prems"(2) by simp
  then obtain t q where q: "peek p = (t, q)" "shaped (hd ds) t" "feeds q (ds @ [eof])"
    using feeds_peek [OF f, of 0] P(1) by (cases ds) (auto simp: operand_reads_def)
  have no: "\<not> ends_line t" using shaped_type [OF q(2)] P(1) by (auto simp: ends_line_def operand_reads_def)
  obtain opd r where r: "parseOperand q = (Some opd, r)" "P opd" "feeds r [eof]"
    using P(1) q(3) unfolding operand_reads_def by blast
  obtain w where w: "match TT_Comma r = (False, w)" "feeds w [eof]"
    using feeds_match [OF r(3), of TT_Comma] by (metis TokenType.distinct eof_def fst_conv)
  show ?case using q no r w P(2) by (simp add: parse_operands.simps [of acc p])
next
  case (3 ds ds' others)
  from "3.prems"(1) obtain P Ps' where P: "operand_reads ds P" "Ps = P # Ps'" "list_all2 operand_reads (ds' # others) Ps'"
    by (auto simp: list_all2_Cons1)
  let ?rest = "joined (ds' # others) @ [eof]"
  have f: "feeds p (ds @ (TT_Comma, '','', 0) # ?rest)" using "3.prems"(2) by simp
  then obtain t q where q: "peek p = (t, q)" "shaped (hd ds) t" "feeds q (ds @ (TT_Comma, '','', 0) # ?rest)"
    using feeds_peek [OF f, of 0] P(1) by (cases ds) (auto simp: operand_reads_def)
  have no: "\<not> ends_line t" using shaped_type [OF q(2)] P(1) by (auto simp: ends_line_def operand_reads_def)
  obtain opd r where r: "parseOperand q = (Some opd, r)" "P opd" "feeds r ((TT_Comma, '','', 0) # ?rest)"
    using P(1) q(3) unfolding operand_reads_def by blast
  obtain w where w: "match TT_Comma r = (True, w)" "feeds w ?rest"
    using feeds_match [OF r(3), of TT_Comma] by (metis fst_conv)
  have "ds' \<noteq> []" "fst (hd ds') \<notin> {TT_Newline, TT_Eof}" using P(3) by (auto simp: list_all2_Cons1 operand_reads_def)
  then obtain d others' where d: "?rest = d # others'" "fst d \<notin> {TT_Newline, TT_Eof}" by (cases ds'; cases others) auto
  obtain u v where u: "peek w = (u, v)" "shaped d u" "feeds v ?rest" using feeds_peek [OF w(2), of 0] d(1) by auto
  have no2: "\<not> ends_line u" using shaped_type [OF u(2)] d(2) by (auto simp: ends_line_def)
  from "3.IH" [OF P(3) u(3), of "acc @ [opd]"] show ?case
    using q no r w u no2 P(2) by (auto simp: parse_operands.simps [of acc p] list_all2_Cons1)
qed

text \<open>A file that is one instruction.\<close>

lemma parse_instruction_line:
  assumes "reads source ((TT_Identifier, name, v) # joined dss @ [eof])" and "list_all2 operand_reads dss Ps"
  shows "\<exists>node q. parse (start_parser (start_lexer source file) empty_engine) = (Inr [St_Instruction node], q) \<and>
    in_mnemonic node = name \<and> list_all2 (\<lambda>P opd. P opd) Ps (in_operands node)"
proof -
  let ?line = "(TT_Identifier, name, v) # joined dss @ [eof]" and ?p = "start_parser (start_lexer source file) empty_engine"
  have f0: "feeds ?p ?line"
    using assms(1) ahead_start [of source "file"]
    by (simp add: feeds_def start_parser_def reads_def hasErrors_def empty_engine_def) (simp add: start_lexer_def)
  obtain t1 p1 where 1: "peek ?p = (t1, p1)" "shaped (TT_Identifier, name, v) t1" "feeds p1 ?line"
    using feeds_peek [OF f0, of 0] by auto
  obtain p2 where 2: "match TT_Newline p1 = (False, p2)" "feeds p2 ?line"
    using feeds_match [OF 1(3), of TT_Newline] by (metis TokenType.distinct fst_conv)
  have second: "\<exists>d others. joined dss @ [eof] = d # others \<and> fst d \<noteq> TT_Colon"
    using assms(2) by (cases dss rule: joined.cases) (auto simp: list_all2_Cons1 operand_reads_def eof_def neq_Nil_conv)
  obtain t3 p3 where 3: "peek p2 = (t3, p3)" "shaped (TT_Identifier, name, v) t3" "feeds p3 ?line"
    using feeds_peek [OF 2(2), of 0] by auto
  obtain d others where d: "joined dss @ [eof] = d # others" "fst d \<noteq> TT_Colon" using second by blast
  obtain t4 p4 where 4: "peek_at (Suc 0) p3 = (t4, p4)" "shaped (?line ! Suc 0) t4" "feeds p4 ?line"
    using feeds_peek [OF 3(3), of "Suc 0"] by auto
  have t4: "tk_type t4 \<noteq> TT_Colon" using shaped_type [OF 4(2)] d by simp
  obtain t5 p5 where 5: "peek p4 = (t5, p5)" "shaped (TT_Identifier, name, v) t5" "feeds p5 ?line"
    using feeds_peek [OF 4(3), of 0] by auto
  have "is_plain_label p2 = (False, p4)" "is_local_label p4 = (False, p5)"
    using 3 4(1) t4 5 by (simp_all add: is_plain_label_def is_local_label_def shaped_def)
  then have labels: "parse_labels p2 [] = ([], p5)" by (simp add: parse_labels.simps [of p2])
  obtain t6 p6 where 6: "peek p5 = (t6, p6)" "shaped (TT_Identifier, name, v) t6" "feeds p6 ?line"
    using feeds_peek [OF 5(3), of 0] by auto
  obtain t7 p7 where 7: "take_token p6 = (t7, p7)" "shaped (TT_Identifier, name, v) t7" "feeds p7 (joined dss @ [eof])"
    using feeds_take [OF 6(3)] by metis
  obtain opds p8 where 8: "parse_operands [] p7 = (Some opds, p8)" "list_all2 (\<lambda>P opd. P opd) Ps opds" "feeds p8 [eof]"
    using parse_operands_reads [OF assms(2) 7(3), of "[]"] by auto
  obtain t9 p9 where 9: "peek p8 = (t9, p9)" "shaped eof t9" "feeds p9 [eof]" using feeds_peek [OF 8(3), of 0] by auto
  obtain p10 where 10: "match TT_Newline p9 = (False, p10)" "feeds p10 [eof]"
    using feeds_match [OF 9(3), of TT_Newline] by (metis TokenType.distinct eof_def fst_conv)
  obtain t11 p11 where 11: "peek p10 = (t11, p11)" "shaped eof t11" "feeds p11 [eof]" using feeds_peek [OF 10(2), of 0] by auto
  let ?node = "\<lparr> in_mnemonic = name, in_operands = opds, in_location = tk_location t7 \<rparr>"
  have "parseLine p2 [] = (True, [St_Instruction ?node], p10)"
    using labels 6 7 8 9 10 by (simp add: parseLine_def parseInstruction_def finish_line_def ends_line_def shaped_def eof_def)
  then have "parse_lines [] ?p = ([St_Instruction ?node], p11)"
    using 1 2 11 by (simp add: parse_lines.simps [of "[]" ?p] parse_lines.simps [of _ p10] shaped_def eof_def)
  moreover have "\<not> pa_failed p11" "\<not> hasErrors (pa_engine p11)" using 11(3) by (simp_all add: feeds_def)
  ultimately show ?thesis using 8(2) by (simp add: parse_def)
qed

subsection \<open>The text of an instruction\<close>

lemma mnemonics_are_words:
  assumes "findOpcode opcode = Some info"
  shows "is_word (oi_mnemonic info) \<and> word_type (oi_mnemonic info) = TT_Identifier \<and>
    findMnemonic (oi_mnemonic info) = Some info \<and> oi_opcode info = opcode"
proof -
  have "list_all (\<lambda>info. is_word (oi_mnemonic info) \<and> word_type (oi_mnemonic info) = TT_Identifier \<and>
      map toupper (oi_mnemonic info) = oi_mnemonic info) kOpcodes" by code_simp
  moreover have "info \<in> set kOpcodes \<and> oi_opcode info = opcode"
    using assms by (auto simp: findOpcode_def find_Some_iff)
  ultimately show ?thesis by (auto simp: list_all_iff findMnemonic_iff)
qed

lemma registers_are_words:
  assumes "isValidRegister r"
  shows "is_word (registerName r) \<and> word_type (registerName r) = TT_Register \<and> register_of (registerName r) = r"
proof -
  have "list_all is_word kNames" by code_simp
  moreover have "registerName r \<in> set kNames"
    using assms by (auto simp: registerName_def isValidRegister_def kRegisterCount_def kNames_def
        nth_Cons' numeral_eq_Suc simp del: nth_Cons_Suc intro!: nth_mem)
  ultimately show ?thesis using parseRegister_registerName [OF assms]
    by (auto simp: list_all_iff word_type_def register_of_def)
qed

lemma stops [simp]:
  "stops_number []" "stops_number (CHR '' '' # s)" "stops_number (CHR '','' # s)" "stops_number (CHR '']'' # s)"
  by (simp_all add: stops_number_def isIdentifierContinue_def isIdentifierStart_def isDigit_def char_code_def)

lemma reads_register:
  assumes "isValidRegister r" and "reads rest ds" and "stops_number rest"
  shows "reads (registerName r @ rest) ((TT_Register, registerName r, 0) # ds)"
  using reads_word [OF assms(2) _ assms(3), of "registerName r"] registers_are_words [OF assms(1)] by simp

lemma reads_mnemonic:
  assumes "findOpcode opcode = Some info" and "reads rest ds" and "stops_number rest"
  shows "reads (oi_mnemonic info @ rest) ((TT_Identifier, oi_mnemonic info, 0) # ds)"
  using reads_word [OF assms(2) _ assms(3), of "oi_mnemonic info"] mnemonics_are_words [OF assms(1)] by simp

lemma reads_int:
  assumes "- (2 ^ 63) \<le> k" and "k < 2 ^ 63" and "reads rest ds" and "stops_number rest"
  shows "reads (int_str k @ rest) ((TT_Integer, int_str k, of_int k) # ds)"
  using reads_number [OF assms(3,4), of "k < 0" "nat \<bar>k\<bar>"] assms(1,2)
  by (cases "k < 0") (auto simp: int_str_def)

lemmas reads_chars =
  reads_punctuation [where c = "CHR '',''" and type = TT_Comma] reads_punctuation [where c = "CHR ''+''" and type = TT_Plus]
  reads_punctuation [where c = "CHR ''[''" and type = TT_LBracket] reads_punctuation [where c = "CHR '']''" and type = TT_RBracket]

lemma reads_separator: "reads s ds \<Longrightarrow> ds \<noteq> [] \<Longrightarrow> reads (CHR '','' # CHR '' '' # s) ((TT_Comma, '','', 0) # ds)"
  by (rule reads_chars(1) [OF reads_blank]) (simp_all add: punctuation_def)

text \<open>A memory operand as it is printed.\<close>

definition memory_text :: "Reg \<Rightarrow> i64 \<Rightarrow> string" where
  "memory_text r v = ''['' @ registerName r @ '' '' @ (if sint v < 0 then ''-'' else ''+'') @ '' '' @
     nat_str (unat (if sint v < 0 then NOT v + 1 else v)) @ '']''"

definition memory_shape :: "Reg \<Rightarrow> i64 \<Rightarrow> Shape list" where
  "memory_shape r v = (let m = nat_str (unat (if sint v < 0 then NOT v + 1 else v)) in
     [(TT_LBracket, ''['', 0), (TT_Register, registerName r, 0),
      if sint v < 0 then (TT_Minus, ''-'', 0) else (TT_Plus, ''+'', 0),
      (TT_Integer, m, if sint v < 0 then - v else v), (TT_RBracket, '']'', 0)])"

lemma magnitude:
  fixes v :: i64
  assumes "- (2 ^ 47) \<le> sint v" and "sint v < 2 ^ 47"
  shows "unat (if sint v < 0 then NOT v + 1 else v) < 2 ^ 63"
    and "(of_nat (unat (if sint v < 0 then NOT v + 1 else v)) :: i64) = (if sint v < 0 then - v else v)"
proof -
  have neg: "NOT v + 1 = - v" by (simp add: not_eq_complement)
  show "(of_nat (unat (if sint v < 0 then NOT v + 1 else v)) :: i64) = (if sint v < 0 then - v else v)"
    by (simp add: neg)
  show "unat (if sint v < 0 then NOT v + 1 else v) < 2 ^ 63"
  proof (cases "sint v < 0")
    case True
    obtain k where k: "sint v = - int k"
      using True by (metis neg_int_cases)
    have "of_int (sint v) = v" by simp
    then have "of_int (- int k) = v" unfolding k .
    then have "- v = of_nat k" by (metis add.inverse_inverse of_int_minus of_int_of_nat_eq)
    moreover have "k < 2 ^ 64" using k assms(1) by simp
    then have "unat (of_nat k :: i64) = k" by (simp add: unat_of_nat take_bit_nat_eq_self)
    ultimately have "unat (- v) = k" by simp
    with k assms(1) True show ?thesis by (simp add: neg)
  next
    case False
    then have "unat v < 9223372036854775808" using sint_nonneg_iff [of v] by simp
    with False show ?thesis by simp
  qed
qed

lemma reads_memory:
  assumes "isValidRegister r" and "- (2 ^ 47) \<le> sint v" and "sint v < 2 ^ 47" and "reads rest ds"
  shows "reads (memory_text r v @ rest) (memory_shape r v @ ds)"
proof -
  let ?n = "unat (if sint v < 0 then NOT v + 1 else v)"
  have "reads (CHR '']'' # rest) ((TT_RBracket, '']'', 0) # ds)"
    by (rule reads_chars(4) [OF assms(4)]) (simp add: punctuation_def)
  then have "reads (nat_str ?n @ CHR '']'' # rest)
      ((TT_Integer, nat_str ?n, if sint v < 0 then - v else v) # (TT_RBracket, '']'', 0) # ds)"
    using reads_number [of "CHR '']'' # rest" _ False ?n] magnitude [OF assms(2,3)] by simp
  note number = reads_blank [OF this list.distinct(2)]
  have sign: "reads ((if sint v < 0 then CHR ''-'' else CHR ''+'') # CHR '' '' # nat_str ?n @ CHR '']'' # rest)
      ((if sint v < 0 then (TT_Minus, ''-'', 0) else (TT_Plus, ''+'', 0)) #
       (TT_Integer, nat_str ?n, if sint v < 0 then - v else v) # (TT_RBracket, '']'', 0) # ds)"
  proof (cases "sint v < 0")
    case True
    then show ?thesis using reads_minus [OF number] by simp
  next
    case False
    then show ?thesis using reads_chars(2) [OF number] by (simp add: punctuation_def)
  qed
  have "reads (registerName r @ CHR '' '' # (if sint v < 0 then CHR ''-'' else CHR ''+'') # CHR '' '' # nat_str ?n @ CHR '']'' # rest)
      ((TT_Register, registerName r, 0) # (if sint v < 0 then (TT_Minus, ''-'', 0) else (TT_Plus, ''+'', 0)) #
       (TT_Integer, nat_str ?n, if sint v < 0 then - v else v) # (TT_RBracket, '']'', 0) # ds)"
    by (rule reads_register [OF assms(1) reads_blank [OF sign list.distinct(2)]]) simp
  from reads_chars(3) [OF this] show ?thesis
    by (cases "sint v < 0") (simp_all add: memory_text_def memory_shape_def punctuation_def)
qed

lemma memory_operand_reads:
  assumes "isValidRegister r" and "- (2 ^ 47) \<le> sint v" and "sint v < 2 ^ 47"
  shows "operand_reads (memory_shape r v) (\<lambda>opd. op_type opd = OT_Memory \<and> op_reg opd = r \<and> op_immediate opd = v)"
proof -
  have "negated (sint v < 0) (if sint v < 0 then - v else v) = v"
    by (simp add: negated_def not_eq_complement)
  then show ?thesis
    using memory_reads [where s = "if sint v < 0 then TT_Minus else TT_Plus" and w = "registerName r"
        and v = "if sint v < 0 then - v else v"] registers_are_words [OF assms(1)]
    by (cases "sint v < 0") (simp_all add: memory_shape_def Let_def)
qed

lemma register_operand_reads:
  assumes "isValidRegister r"
  shows "operand_reads [(TT_Register, registerName r, 0)] (\<lambda>opd. op_type opd = OT_Register \<and> op_reg opd = r)"
  using register_reads [of "registerName r" 0] registers_are_words [OF assms] by simp

text \<open>The operands of an instruction as they are printed, and what they are read as.\<close>

definition printed_operands :: "Instruction \<Rightarrow> (string \<times> Shape list \<times> (Operand \<Rightarrow> bool)) list" where
  "printed_operands i =
     (let reg = (\<lambda>r. (registerName r, [(TT_Register, registerName r, 0)], \<lambda>opd. op_type opd = OT_Register \<and> op_reg opd = r));
          imm = (int_str (sint (i_imm i)), [(TT_Integer, int_str (sint (i_imm i)), i_imm i)],
            \<lambda>opd. op_type opd = OT_Immediate \<and> op_immediate opd = i_imm i);
          mem = (\<lambda>r. (memory_text r (i_imm i), memory_shape r (i_imm i),
            \<lambda>opd. op_type opd = OT_Memory \<and> op_reg opd = r \<and> op_immediate opd = i_imm i))
      in case formatOf (i_opcode i) of
           Some Fmt_Reg1 \<Rightarrow> [reg (i_dst i)]
         | Some Fmt_Reg2 \<Rightarrow> [reg (i_dst i), reg (i_src i)]
         | Some Fmt_RegImm \<Rightarrow> [reg (i_dst i), imm]
         | Some Fmt_Mem \<Rightarrow> if i_opcode i = OP_STORE then [mem (i_dst i), reg (i_src i)] else [reg (i_dst i), mem (i_src i)]
         | Some Fmt_SysImm \<Rightarrow> [imm]
         | _ \<Rightarrow> [])"

definition operand_text :: "(string \<times> Shape list \<times> (Operand \<Rightarrow> bool)) list \<Rightarrow> string" where
  "operand_text ps = (case ps of [] \<Rightarrow> [] | (t, _, _) # rest \<Rightarrow> CHR '' '' # t @ concat (map (\<lambda>(t, _, _). '', '' @ t) rest))"

lemma toString_operands:
  assumes "findOpcode (i_opcode i) = Some info" and "oi_format info \<noteq> Fmt_Jump"
  shows "toString i = oi_mnemonic info @ operand_text (printed_operands i)"
  using assms by (cases "oi_format info")
    (simp_all add: toString_def printed_operands_def operand_text_def formatOf_def memory_text_def Let_def)

text \<open>A printed operand can stand before any text that ends it.\<close>

definition printable :: "string \<times> Shape list \<times> (Operand \<Rightarrow> bool) \<Rightarrow> bool" where
  "printable p \<longleftrightarrow> (case p of (t, ds, P) \<Rightarrow> operand_reads ds P \<and>
     (\<forall>rest es. reads rest es \<longrightarrow> stops_number rest \<longrightarrow> reads (t @ rest) (ds @ es)))"

lemma printable_register:
  "isValidRegister r \<Longrightarrow>
   printable (registerName r, [(TT_Register, registerName r, 0)], \<lambda>opd. op_type opd = OT_Register \<and> op_reg opd = r)"
  using register_operand_reads [of r] reads_register [of r] by (simp add: printable_def)

lemma printable_integer:
  assumes "- (2 ^ 63) \<le> sint v" and "sint v < 2 ^ 63"
  shows "printable (int_str (sint v), [(TT_Integer, int_str (sint v), v)], \<lambda>opd. op_type opd = OT_Immediate \<and> op_immediate opd = v)"
  using reads_int [OF assms] integer_reads by (simp add: printable_def)

lemma printable_memory:
  assumes "isValidRegister r" and "- (2 ^ 47) \<le> sint v" and "sint v < 2 ^ 47"
  shows "printable (memory_text r v, memory_shape r v,
    \<lambda>opd. op_type opd = OT_Memory \<and> op_reg opd = r \<and> op_immediate opd = v)"
  using memory_operand_reads [OF assms] reads_memory [OF assms] by (simp add: printable_def)

lemma sint_bounds_64: "- (2 ^ 63) \<le> sint (v :: i64)" "sint v < 2 ^ 63"
  using sint_ge [of v] sint_lt [of v] by simp_all

lemma printable_operands:
  assumes "encodable i"
  shows "list_all printable (printed_operands i)"
proof -
  obtain fmt where f: "formatOf (i_opcode i) = Some fmt" using assms by (auto simp: encodable_def split: option.splits)
  have regs: "isValidRegister (i_dst i)" "isValidRegister (i_src i)" using assms f by (simp_all add: encodable_def)
  note r = regs [THEN printable_register] and v = printable_integer [OF sint_bounds_64]
  show ?thesis
  proof (cases fmt)
    case Fmt_Mem
    then have b: "- (2 ^ 47) \<le> sint (i_imm i)" "sint (i_imm i) < 2 ^ 47" using assms f by (simp_all add: encodable_def field_use_def)
    show ?thesis using r regs [THEN printable_memory [OF _ b]] f Fmt_Mem
      by (simp add: printed_operands_def Let_def)
  qed (use f r v in \<open>simp_all add: printed_operands_def Let_def\<close>)
qed

definition separated :: "(string \<times> Shape list \<times> (Operand \<Rightarrow> bool)) list \<Rightarrow> string" where
  "separated ps = concat (map (\<lambda>(t, _, _). '', '' @ t) ps)"

lemma separated_Cons [simp]: "separated [] = []" "separated ((t, ds, P) # ps) = CHR '','' # CHR '' '' # t @ separated ps"
  by (simp_all add: separated_def)

lemma stops_separated [simp]: "stops_number (separated ps)"
  by (cases ps) auto

lemma joined_Cons: "ps \<noteq> [] \<Longrightarrow> joined (d # ps) = d @ (TT_Comma, '','', 0) # joined ps"
  by (cases ps) auto

abbreviation shapes :: "(string \<times> Shape list \<times> (Operand \<Rightarrow> bool)) list \<Rightarrow> Shape list list" where
  "shapes ps \<equiv> map (\<lambda>(t, ds, P). ds) ps"

lemma reads_separated:
  "list_all printable ps \<Longrightarrow>
   reads (separated ps) ((if ps = [] then [] else (TT_Comma, '','', 0) # joined (shapes ps)) @ [eof])"
proof (induction ps)
  case Nil
  then show ?case using reads_end by (simp add: eof_def)
next
  case (Cons p ps)
  obtain t ds P where p: "p = (t, ds, P)" by (cases p)
  have "reads (t @ separated ps) (ds @ (if ps = [] then [] else (TT_Comma, '','', 0) # joined (shapes ps)) @ [eof])"
    using Cons p by (simp add: printable_def)
  then have "reads (t @ separated ps) (joined (shapes (p # ps)) @ [eof])" using p by (cases "ps = []") (simp_all add: joined_Cons)
  from reads_separator [OF this] show ?case using p by simp
qed

lemma reads_operands:
  assumes "list_all printable ps"
  shows "reads (operand_text ps) (joined (shapes ps) @ [eof])"
proof (cases ps)
  case Nil
  then show ?thesis using reads_end by (simp add: operand_text_def eof_def)
next
  case (Cons p qs)
  obtain t ds P where p: "p = (t, ds, P)" by (cases p)
  have "reads (t @ separated qs) (ds @ (if qs = [] then [] else (TT_Comma, '','', 0) # joined (shapes qs)) @ [eof])"
    using assms Cons p reads_separated [of qs] by (simp add: printable_def)
  then have "reads (t @ separated qs) (joined (shapes ps) @ [eof])"
    using Cons p by (cases "qs = []") (simp_all add: joined_Cons)
  from reads_blank [OF this] show ?thesis using Cons p by (simp add: operand_text_def separated_def)
qed

lemma operand_text_stops [simp]: "stops_number (operand_text ps)"
  by (cases ps) (auto simp: operand_text_def)

text \<open>Operands read like that are accepted and lowered to the fields they were printed from.\<close>

lemma machine_fields: "mk_instr (i_opcode i) (i_dst i) (i_src i) (i_imm i) = i"
  by (simp add: mk_instr_def)

lemma read_operands_lower:
  assumes "encodable i" and "findOpcode (i_opcode i) = Some info" and "oi_format info \<noteq> Fmt_Jump"
    and "list_all2 (\<lambda>P opd. P opd) (map (\<lambda>(t, ds, P). P) (printed_operands i)) opds"
  shows "operands_ok info opds \<and> (\<exists>lowered. lower_operands info opds location = Some lowered \<and>
    ii_machine lowered = i \<and> ii_symbol lowered = None)"
proof -
  have op: "oi_opcode info = i_opcode i" using mnemonics_are_words [OF assms(2)] by simp
  have f: "formatOf (i_opcode i) = Some (oi_format info)" using assms(2) by (simp add: formatOf_def)
  note d = printed_operands_def operands_ok_def lower_operands_def operand_at_def f op is_register_def is_literal_def
    literal_or_symbol_def fits_field_def fitsSigned_iff kImmediateBits_def setValue_def list_all2_Cons1 Let_def mk_instr_def
  note e = assms(1) [unfolded encodable_def f option.case]
  show ?thesis
  proof (cases "oi_format info")
    case Fmt_SysImm
    then have "unat (i_imm i) < 2 ^ 48" using e by (simp add: field_use_def)
    moreover from this have "0 \<le> sint (i_imm i)" by (simp add: sint_nonneg_iff)
    ultimately show ?thesis using assms(4) e Fmt_SysImm by (auto simp: d field_use_def fitsUnsigned_iff)
  next
    case Fmt_Mem
    then show ?thesis using assms(4) e by (auto simp: d field_use_def split: if_splits)
  qed (use assms(3,4) e in \<open>auto simp: d field_use_def\<close>)
qed

lemma printed_reads_back:
  assumes "encodable i" and "formatOf (i_opcode i) \<noteq> Some Fmt_Jump"
  shows "\<exists>node p info lowered. parse (start_parser (start_lexer (toString i) file) empty_engine) = (Inr [St_Instruction node], p) \<and>
    program_ok [St_Instruction node] \<and> findMnemonic (in_mnemonic node) = Some info \<and>
    lower_operands info (in_operands node) (in_location node) = Some lowered \<and>
    ii_machine lowered = i \<and> ii_symbol lowered = None"
proof -
  obtain info where info: "findOpcode (i_opcode i) = Some info" "oi_format info \<noteq> Fmt_Jump"
    using assms by (auto simp: encodable_def formatOf_def split: option.splits)
  note name = mnemonics_are_words [OF info(1)]
  let ?ps = "printed_operands i"
  note pr = printable_operands [OF assms(1)]
  have "reads (toString i) ((TT_Identifier, oi_mnemonic info, 0) # joined (shapes ?ps) @ [eof])"
    unfolding toString_operands [OF info] by (rule reads_mnemonic [OF info(1) reads_operands [OF pr]]) simp
  moreover have "list_all2 operand_reads (shapes ?ps) (map (\<lambda>(t, ds, P). P) ?ps)"
    using pr by (auto simp: list_all2_conv_all_nth list_all_length printable_def split: prod.splits)
  ultimately obtain node q where n:
    "parse (start_parser (start_lexer (toString i) file) empty_engine) = (Inr [St_Instruction node], q)"
    "in_mnemonic node = oi_mnemonic info" "list_all2 (\<lambda>P opd. P opd) (map (\<lambda>(t, ds, P). P) ?ps) (in_operands node)"
    using parse_instruction_line by blast
  have m: "findMnemonic (in_mnemonic node) = Some info" using name n(2) by simp
  from read_operands_lower [OF assms(1) info n(3)] show ?thesis
    using n(1) m by (auto simp: program_ok_def instruction_ok_def)
qed


definition sample_load :: Instruction where
  "sample_load = mk_instr OP_LOAD 1 2 (- 16)"


end
