(* ===== verification/Formatting.thy ===== *)
theory Formatting
  imports Diagnostics
begin

text \<open>
  The conversions of \<open>std::format\<close> that the tools use: hexadecimal in upper case without and with
  leading zeros, and fields filled on the left or on the right.  \<open>nat_str\<close> and \<open>int_str\<close> of Encoding
  are the plain decimal ones.
\<close>

fun hex_digits :: "nat \<Rightarrow> string \<Rightarrow> string" where
  "hex_digits n acc =
     (let acc' = hex_digit (n mod 16) # acc in if n < 16 then acc' else hex_digits (n div 16) acc')"

declare hex_digits.simps [simp del]

definition pad_left :: "char \<Rightarrow> nat \<Rightarrow> string \<Rightarrow> string" where
  "pad_left c width s = replicate (width - length s) c @ s"

definition pad_right :: "nat \<Rightarrow> string \<Rightarrow> string" where
  "pad_right width s = s @ replicate (width - length s) (CHR '' '')"

text \<open>\<open>{:X}\<close>, \<open>{:016X}\<close> and \<open>{}\<close> of a 64-bit number\<close>

definition hex :: "u64 \<Rightarrow> string" where
  "hex v = hex_digits (unat v) []"

definition hex16 :: "u64 \<Rightarrow> string" where
  "hex16 v = pad_left (CHR ''0'') 16 (hex v)"

definition dec :: "u64 \<Rightarrow> string" where
  "dec v = nat_str (unat v)"

end
