(* ===== verification/Fault_Text.thy ===== *)
theory Fault_Text
  imports Machine Formatting
begin

text \<open>
  The messages of src/vm/vm.cpp, src/vm/memory.cpp and src/vm/syscall.cpp as text: the values the
  machine reports are rendered the way the code formats them.
\<close>

definition describe :: "MemoryFault \<Rightarrow> string" where
  "describe fault =
     kindName (mf_kind fault) @ '' (address 0x'' @ hex16 (mf_address fault) @ '', '' @ dec (mf_size fault) @ '' byte'' @
     (if mf_size fault = 1 then [] else ''s'') @ '')''"

fun syscall_text :: "SyscallMessage \<Rightarrow> string" where
  "syscall_text (UnknownSyscall number) = ''unknown syscall '' @ dec number"
| "syscall_text (WriteBadDescriptor fd) = ''write: unsupported file descriptor '' @ dec fd"
| "syscall_text (WriteTooLong len) =
     ''write: length '' @ dec len @ '' exceeds the '' @ dec kMaxTransfer @ ''-byte limit''"
| "syscall_text (WriteFault fault) = ''write: '' @ describe fault"
| "syscall_text (ReadBadDescriptor fd) = ''read: unsupported file descriptor '' @ dec fd"
| "syscall_text (ReadTooLong len) =
     ''read: length '' @ dec len @ '' exceeds the '' @ dec kMaxTransfer @ ''-byte limit''"
| "syscall_text (ReadFault fault) = ''read: '' @ describe fault"

text \<open>The interface of the code, whose errors are strings, over a provider with its own errors.\<close>

definition text_provider :: "('e \<Rightarrow> string) \<Rightarrow> ('e, 'p) provider \<Rightarrow> (string, 'p) provider" where
  "text_provider to_text invoke number context p =
     (case invoke number context p of
        (Inl e, context, p) \<Rightarrow> (Inl (to_text e), context, p)
      | (Inr u, context, p) \<Rightarrow> (Inr u, context, p))"

fun fault_text :: "string VMMessage \<Rightarrow> string" where
  "fault_text MsgNone = []"
| "fault_text (MsgMemory what fault) = what @ '': '' @ describe fault"
| "fault_text (MsgStackOverflow at limit) = ''stack overflow: SP = 0x'' @ hex at @ '', limit = 0x'' @ hex limit"
| "fault_text (MsgStackUnderflow at upper) =
     ''stack underflow: SP = 0x'' @ hex at @ '' is at or above the stack top 0x'' @ hex upper"
| "fault_text MsgNotLoaded = ''no program is loaded''"
| "fault_text (MsgMisalignedPC at) = ''PC 0x'' @ hex at @ '' is not '' @ nat_str kInstructionSize @ ''-byte aligned''"
| "fault_text (MsgCannotDecode word e) = ''cannot decode 0x'' @ hex16 word @ '': '' @ decodeErrorName e"
| "fault_text (MsgRegisterIndex dst src) =
     ''register index '' @ nat_str dst @ ''/'' @ nat_str src @ '' is out of range''"
| "fault_text (MsgSyscall text) = text"
| "fault_text (MsgByZero name) = name @ '' by zero''"
| "fault_text (MsgNotExecutable name) = name @ '' is not executable''"
| "fault_text (MsgBudget executed) =
     ''stopped after '' @ dec executed @ '' instructions; the program may not terminate''"

end
