(* ===== verification/Disassembler.thy ===== *)
theory Disassembler
  imports Executable Formatting
begin

text \<open>
  src/disassembler/disassembler.cpp: machine code as assembly text.  The pointer to an executable is
  an option; the output string is the concatenation of what the code appends.
\<close>

record Options =
  show_bytes :: bool
  show_symbols :: bool
  show_labels :: bool

definition default_options :: Options where
  "default_options = \<lparr> show_bytes = True, show_symbols = True, show_labels = True \<rparr>"

definition describeTarget :: "u64 \<Rightarrow> Executable option \<Rightarrow> string" where
  "describeTarget address executable =
     (case executable of
        None \<Rightarrow> ''0x'' @ hex address
      | Some executable \<Rightarrow>
          (case find (\<lambda>symbol. se_address symbol = address) (ex_symbols executable) of
             Some symbol \<Rightarrow> se_name symbol @ '' (0x'' @ hex address @ '')''
           | None \<Rightarrow>
               (case symbolContaining executable address of
                  None \<Rightarrow> ''0x'' @ hex address
                | Some containing \<Rightarrow>
                    if se_address containing \<noteq> address
                    then se_name containing @ ''+'' @ dec (address - se_address containing) @ '' (0x'' @ hex address @ '')''
                    else ''0x'' @ hex address)))"

definition formatInstruction :: "Options \<Rightarrow> u64 \<Rightarrow> Instruction \<Rightarrow> Executable option \<Rightarrow> string" where
  "formatInstruction options address instruction executable =
     (case findOpcode (i_opcode instruction) of
        None \<Rightarrow> toString instruction
      | Some info \<Rightarrow>
          if oi_format info = Fmt_Jump
          then let target = branchTarget address (i_imm instruction)
            in pad_right 8 (oi_mnemonic info) @
               (if show_symbols options then describeTarget target executable else ''0x'' @ hex target)
          else toString instruction)"

definition label_lines :: "Options \<Rightarrow> u64 \<Rightarrow> Executable option \<Rightarrow> string" where
  "label_lines options address executable =
     (case executable of
        None \<Rightarrow> []
      | Some executable \<Rightarrow>
          if show_labels options
          then concat (map (\<lambda>symbol. if se_address symbol = address
                 then [newline] @ hex16 address @ '' <'' @ se_name symbol @ ''>:'' @ [newline] else [])
               (ex_symbols executable))
          else [])"

definition word_line :: "Options \<Rightarrow> u64 \<Rightarrow> u64 \<Rightarrow> Executable option \<Rightarrow> string" where
  "word_line options address word executable =
     hex16 address @ '':  '' @ (if show_bytes options then hex16 word @ ''  '' else []) @
     (case decode word of
        Inr decoded \<Rightarrow> formatInstruction options address decoded executable
      | Inl e \<Rightarrow> ''.qword 0x'' @ hex16 word @ ''    ; '' @ decodeErrorName e) @ [newline]"

function disassemble_words :: "Options \<Rightarrow> u8 list \<Rightarrow> u64 \<Rightarrow> Executable option \<Rightarrow> nat \<Rightarrow> string" where
  "disassemble_words options bytes base executable offset =
     (if offset + kInstructionSize \<le> length bytes
      then let address = base + of_nat offset;
               word = load_le kInstructionSize (take kInstructionSize (drop offset bytes))
        in label_lines options address executable @ word_line options address word executable @
           disassemble_words options bytes base executable (offset + kInstructionSize)
      else [])"
  by auto

termination disassemble_words
  by (relation "measure (\<lambda>(_, bytes, _, _, offset). length bytes - offset)") (simp_all add: kInstructionSize_def)

declare disassemble_words.simps [simp del]

definition disassemble :: "Options \<Rightarrow> u8 list \<Rightarrow> u64 \<Rightarrow> Executable option \<Rightarrow> string" where
  "disassemble options bytes base executable =
     (let tail = length bytes mod kInstructionSize in
      disassemble_words options bytes base executable 0 @
      (if tail \<noteq> 0
       then hex16 (base + of_nat (length bytes) - of_nat tail) @ '':  ; '' @ nat_str tail @
            '' trailing byte(s) do not form an instruction'' @ [newline]
       else []))"

definition disassemble_image :: "Options \<Rightarrow> Executable \<Rightarrow> string" where
  "disassemble_image options executable =
     (let out = concat (map (\<lambda>segment.
            if \<not> hasFlag (sg_flags segment) SF_Exec then []
            else ''segment '' @ sg_name segment @ '' at 0x'' @ hex (sg_virtual_address segment) @ '' ('' @
                 dec (sg_virtual_size segment) @ '' bytes, '' @ flagsToString (sg_flags segment) @ '')'' @ [newline] @
                 disassemble options (sg_data segment) (sg_virtual_address segment) (Some executable))
          (ex_segments executable))
      in if out = [] then ''this executable contains no executable segments'' @ [newline] else out)"

end
