(* ===== verification/Debugger.thy ===== *)
theory Debugger
  imports Fault_Text Disassembler Lexer
begin

text \<open>
  include/minitool/debugger/debugger.hpp and src/debugger/debugger.cpp: the debugger over the public
  interface of the machine.  The references to the machine and the executable are fields; an
  operation returns the debugger next to its result.  What a command prints is its output string.
  A loop that may run forever is an option, \<open>None\<close> when it does.
\<close>

record Breakpoint =
  bp_id :: u32
  bp_address :: u64
  bp_enabled :: bool
  bp_symbol :: string
  bp_hits :: u32

record Watchpoint =
  wp_id :: u32
  wp_address :: u64
  wp_previous :: u64
  wp_enabled :: bool

datatype StopReason = SR_Breakpoint | SR_Watchpoint | SR_StepComplete | SR_Halted | SR_Fault | SR_NotRunning

record StopEvent =
  ev_reason :: StopReason
  ev_pc :: u64
  ev_message :: string
  ev_error :: VMError

definition stop_event :: "StopReason \<Rightarrow> u64 \<Rightarrow> string \<Rightarrow> VMError \<Rightarrow> StopEvent" where
  "stop_event reason at message e = \<lparr> ev_reason = reason, ev_pc = at, ev_message = message, ev_error = e \<rparr>"

record 'p Debugger =
  db_machine :: "'p VM"
  db_executable :: Executable
  db_breakpoints :: "Breakpoint list"
  db_watchpoints :: "Watchpoint list"
  db_next_id :: u32
  db_started :: bool

definition start_debugger :: "'p VM \<Rightarrow> Executable \<Rightarrow> 'p Debugger" where
  "start_debugger machine executable =
     \<lparr> db_machine = machine, db_executable = executable, db_breakpoints = [], db_watchpoints = [],
       db_next_id = 1, db_started = False \<rparr>"

abbreviation db_pc :: "'p Debugger \<Rightarrow> u64" where
  "db_pc d \<equiv> pc (cpu (db_machine d))"

abbreviation db_sp :: "'p Debugger \<Rightarrow> u64" where
  "db_sp d \<equiv> sp (cpu (db_machine d))"

subsection \<open>Input\<close>

text \<open>\<open>std::from_chars\<close> for an unsigned type below \<open>limit\<close>: the value and the rest of the text.\<close>

definition from_chars :: "nat \<Rightarrow> int \<Rightarrow> string \<Rightarrow> (int \<times> string) option" where
  "from_chars base limit text =
     (let digits = takeWhile (isDigitOfBase base) text; v = digits_value base digits
      in if digits = [] \<or> limit \<le> v then None else Some (v, drop (length digits) text))"

definition has_hex_prefix :: "string \<Rightarrow> bool" where
  "has_hex_prefix text \<longleftrightarrow> take 2 text = ''0x'' \<or> take 2 text = ''0X''"

definition parseAddress :: "string \<Rightarrow> Executable \<Rightarrow> u64 option" where
  "parseAddress text executable =
     (if text = [] then None
      else
        let base = (if has_hex_prefix text then 16 else 10);
            digits = (if has_hex_prefix text then drop 2 text else text)
        in case from_chars base (2 ^ 64) digits of
             Some (v, []) \<Rightarrow> Some (of_int v)
           | _ \<Rightarrow> map_option se_address (findSymbol executable text))"

definition is_space :: "char \<Rightarrow> bool" where
  "is_space c \<longleftrightarrow> is_blank c \<or> c = newline"

function splitWords :: "string \<Rightarrow> string list" where
  "splitWords line =
     (let rest = dropWhile is_space line in
      if rest = [] then []
      else takeWhile (\<lambda>c. \<not> is_space c) rest # splitWords (dropWhile (\<lambda>c. \<not> is_space c) rest))"
  by auto

termination splitWords
proof (relation "measure length")
  fix line x
  assume "x = dropWhile is_space line" "x \<noteq> []"
  then have "\<not> is_space (hd x)" by (metis hd_dropWhile)
  with \<open>x \<noteq> []\<close> have "length (dropWhile (\<lambda>c. \<not> is_space c) x) < length x"
    by (cases x) (simp_all add: length_dropWhile_le less_Suc_eq_le)
  also have "length x \<le> length line" unfolding \<open>x = _\<close> by (rule length_dropWhile_le)
  finally show "(dropWhile (\<lambda>c. \<not> is_space c) x, line) \<in> measure length" by simp
qed simp

declare splitWords.simps [simp del]

subsection \<open>Breakpoints and watchpoints\<close>

definition describeStop :: "StopEvent \<Rightarrow> string" where
  "describeStop event =
     (case ev_reason event of
        SR_Breakpoint \<Rightarrow> ''stopped at breakpoint, PC = 0x'' @ hex16 (ev_pc event) @
          (if ev_message event = [] then [] else '' ('' @ ev_message event @ '')'')
      | SR_Watchpoint \<Rightarrow> ''watchpoint triggered: '' @ ev_message event
      | SR_StepComplete \<Rightarrow> ''PC = 0x'' @ hex16 (ev_pc event)
      | SR_Halted \<Rightarrow> ''program halted at 0x'' @ hex16 (ev_pc event) @
          (if ev_message event = [] then [] else '', '' @ ev_message event)
      | SR_Fault \<Rightarrow> ''runtime error: '' @ vmErrorName (ev_error event) @ '' at 0x'' @ hex16 (ev_pc event) @
          [newline] @ ''  '' @ ev_message event
      | SR_NotRunning \<Rightarrow> ''the program is not running'')"

definition describe_symbol :: "SymbolEntry \<Rightarrow> u64 \<Rightarrow> string" where
  "describe_symbol symbol address =
     (if se_address symbol = address then se_name symbol
      else se_name symbol @ ''+'' @ dec (address - se_address symbol))"

definition describeAddress :: "u64 \<Rightarrow> 'p Debugger \<Rightarrow> string option" where
  "describeAddress address d =
     map_option (\<lambda>symbol. describe_symbol symbol address) (symbolContaining (db_executable d) address)"

definition addBreakpoint :: "u64 \<Rightarrow> 'p Debugger \<Rightarrow> u32 \<times> 'p Debugger" where
  "addBreakpoint address d =
     (let breakpoint = \<lparr> bp_id = db_next_id d, bp_address = address, bp_enabled = True,
            bp_symbol = (case symbolContaining (db_executable d) address of
                None \<Rightarrow> [] | Some symbol \<Rightarrow> describe_symbol symbol address),
            bp_hits = 0 \<rparr>
      in (bp_id breakpoint, d\<lparr> db_next_id := db_next_id d + 1, db_breakpoints := db_breakpoints d @ [breakpoint] \<rparr>))"

definition find_symbol :: "string \<Rightarrow> 'p Debugger \<Rightarrow> u64 option" where
  "find_symbol name d = map_option se_address (findSymbol (db_executable d) name)"

definition addBreakpointBySymbol :: "string \<Rightarrow> 'p Debugger \<Rightarrow> u32 option \<times> 'p Debugger" where
  "addBreakpointBySymbol name d =
     (case findSymbol (db_executable d) name of
        None \<Rightarrow> (None, d)
      | Some symbol \<Rightarrow> let (i, d) = addBreakpoint (se_address symbol) d in (Some i, d))"

definition removeBreakpoint :: "u32 \<Rightarrow> 'p Debugger \<Rightarrow> bool \<times> 'p Debugger" where
  "removeBreakpoint i d =
     (if \<forall>b \<in> set (db_breakpoints d). bp_id b \<noteq> i then (False, d)
      else (True, d\<lparr> db_breakpoints := filter (\<lambda>b. bp_id b \<noteq> i) (db_breakpoints d) \<rparr>))"

fun enable_first :: "u32 \<Rightarrow> bool \<Rightarrow> Breakpoint list \<Rightarrow> Breakpoint list option" where
  "enable_first i enabled [] = None"
| "enable_first i enabled (b # bs) =
     (if bp_id b = i then Some (b\<lparr> bp_enabled := enabled \<rparr> # bs)
      else map_option ((#) b) (enable_first i enabled bs))"

definition setBreakpointEnabled :: "u32 \<Rightarrow> bool \<Rightarrow> 'p Debugger \<Rightarrow> bool \<times> 'p Debugger" where
  "setBreakpointEnabled i enabled d =
     (case enable_first i enabled (db_breakpoints d) of
        None \<Rightarrow> (False, d) | Some bs \<Rightarrow> (True, d\<lparr> db_breakpoints := bs \<rparr>))"

definition addWatchpoint :: "u64 \<Rightarrow> 'p Debugger \<Rightarrow> u32 option \<times> 'p Debugger" where
  "addWatchpoint address d =
     (case readU64 (memory (db_machine d)) address of
        Inl _ \<Rightarrow> (None, d)
      | Inr v \<Rightarrow> (Some (db_next_id d), d\<lparr> db_next_id := db_next_id d + 1,
            db_watchpoints := db_watchpoints d @
              [\<lparr> wp_id = db_next_id d, wp_address = address, wp_previous = v, wp_enabled = True \<rparr>] \<rparr>))"

definition removeWatchpoint :: "u32 \<Rightarrow> 'p Debugger \<Rightarrow> bool \<times> 'p Debugger" where
  "removeWatchpoint i d =
     (if \<forall>w \<in> set (db_watchpoints d). wp_id w \<noteq> i then (False, d)
      else (True, d\<lparr> db_watchpoints := filter (\<lambda>w. wp_id w \<noteq> i) (db_watchpoints d) \<rparr>))"

definition breakpointAt :: "u64 \<Rightarrow> 'p Debugger \<Rightarrow> Breakpoint option" where
  "breakpointAt address d = find (\<lambda>b. bp_enabled b \<and> bp_address b = address) (db_breakpoints d)"

fun check_watch :: "VirtualMemory \<Rightarrow> u64 \<Rightarrow> Watchpoint list \<Rightarrow> StopEvent option \<times> Watchpoint list" where
  "check_watch m at [] = (None, [])"
| "check_watch m at (w # ws) =
     (let others = (let (event, ws) = check_watch m at ws in (event, w # ws)) in
      if \<not> wp_enabled w then others
      else case readU64 m (wp_address w) of
             Inl _ \<Rightarrow> others
           | Inr v \<Rightarrow>
               if v = wp_previous w then others
               else (Some (stop_event SR_Watchpoint at
                       (''['' @ nat_str (unat (wp_id w)) @ ''] 0x'' @ hex (wp_address w) @ '': 0x'' @ hex (wp_previous w) @
                        '' -> 0x'' @ hex v) VM_None),
                     w\<lparr> wp_previous := v \<rparr> # ws))"

definition checkWatchpoints :: "'p Debugger \<Rightarrow> StopEvent option \<times> 'p Debugger" where
  "checkWatchpoints d =
     (let (event, ws) = check_watch (memory (db_machine d)) (db_pc d) (db_watchpoints d)
      in (event, d\<lparr> db_watchpoints := ws \<rparr>))"

subsection \<open>Execution\<close>

definition singleStep :: "(string, 'p) provider \<Rightarrow> 'p Debugger \<Rightarrow> StopEvent \<times> 'p Debugger" where
  "singleStep invoke d =
     (if halted (cpu (db_machine d))
      then (stop_event SR_Halted (db_pc d) ''already halted'' VM_None, d)
      else case step invoke (db_machine d) of
             (Inl fault, m) \<Rightarrow>
               (stop_event SR_Fault (vf_pc fault) (fault_text (vf_message fault)) (vf_error fault),
                d\<lparr> db_machine := m, db_started := True \<rparr>)
           | (Inr _, m) \<Rightarrow>
               let d = d\<lparr> db_machine := m, db_started := True \<rparr>; (triggered, d) = checkWatchpoints d in
               case triggered of
                 Some event \<Rightarrow> (event, d)
               | None \<Rightarrow>
                   if halted (cpu (db_machine d))
                   then (stop_event SR_Halted (db_pc d) (''exit code '' @ dec (exit_code (cpu (db_machine d)))) VM_None, d)
                   else (stop_event SR_StepComplete (db_pc d) [] VM_None, d))"

definition not_running :: StopEvent where
  "not_running = stop_event SR_NotRunning 0 ''no program is loaded'' VM_None"

definition db_step :: "(string, 'p) provider \<Rightarrow> 'p Debugger \<Rightarrow> StopEvent \<times> 'p Debugger" where
  "db_step invoke d = (if \<not> loaded (db_machine d) then (not_running, d) else singleStep invoke d)"

definition count_hit :: "Breakpoint \<Rightarrow> 'p Debugger \<Rightarrow> 'p Debugger" where
  "count_hit hit d = d\<lparr> db_breakpoints :=
     map (\<lambda>b. if bp_id b = bp_id hit then b\<lparr> bp_hits := bp_hits b + 1 \<rparr> else b) (db_breakpoints d) \<rparr>"

function run_debugger ::
  "(string, 'p) provider \<Rightarrow> u64 \<Rightarrow> u64 \<Rightarrow> 'p Debugger \<Rightarrow> StopEvent \<times> 'p Debugger" where
  "run_debugger invoke budget executed d =
     (if \<not> budget \<le> executed then
        (case (if executed > 0 \<or> \<not> db_started d then breakpointAt (db_pc d) d else None) of
           Some hit \<Rightarrow>
             (stop_event SR_Breakpoint (db_pc d) (bp_symbol hit) VM_None, count_hit hit (d\<lparr> db_started := True \<rparr>))
         | None \<Rightarrow>
             let (event, d) = singleStep invoke d in
             if ev_reason event \<noteq> SR_StepComplete then (event, d)
             else run_debugger invoke budget (executed + 1) d)
      else (stop_event SR_Fault (db_pc d) (''stopped after '' @ dec budget @ '' instructions'') BudgetExhausted, d))"
  by pat_completeness auto

termination run_debugger
  by (relation "measure (\<lambda>(invoke, budget, executed, d). unat budget - unat executed)")
    (simp, simp only: in_measure split_conv, rule word_increment_measure(1), simp)

declare run_debugger.simps [simp del]

definition db_run :: "(string, 'p) provider \<Rightarrow> u64 \<Rightarrow> 'p Debugger \<Rightarrow> StopEvent \<times> 'p Debugger" where
  "db_run invoke budget d =
     (if \<not> loaded (db_machine d) then (not_running, d) else run_debugger invoke budget 0 d)"

function step_over_loop ::
  "(string, 'p) provider \<Rightarrow> u64 \<Rightarrow> u64 \<Rightarrow> u64 \<Rightarrow> u64 \<Rightarrow> 'p Debugger \<Rightarrow> StopEvent \<times> 'p Debugger" where
  "step_over_loop invoke resume depth budget executed d =
     (if \<not> budget \<le> executed then
        let (event, d) = singleStep invoke d in
        if ev_reason event \<noteq> SR_StepComplete then (event, d)
        else if db_pc d = resume \<and> db_sp d \<ge> depth then (event, d)
        else case breakpointAt (db_pc d) d of
               Some hit \<Rightarrow> (stop_event SR_Breakpoint (db_pc d) (bp_symbol hit) VM_None, d)
             | None \<Rightarrow> step_over_loop invoke resume depth budget (executed + 1) d
      else (stop_event SR_Fault (db_pc d) ''step over did not return'' BudgetExhausted, d))"
  by pat_completeness auto

termination step_over_loop
  by (relation "measure (\<lambda>(invoke, resume, depth, budget, executed, d). unat budget - unat executed)")
    (simp, simp only: in_measure split_conv, rule word_increment_measure(1), simp)

declare step_over_loop.simps [simp del]

definition stepOver :: "(string, 'p) provider \<Rightarrow> u64 \<Rightarrow> 'p Debugger \<Rightarrow> StopEvent \<times> 'p Debugger" where
  "stepOver invoke budget d =
     (if \<not> loaded (db_machine d) then (not_running, d)
      else
        let decoded = (case fetchInstruction (memory (db_machine d)) (db_pc d) of
               Inl _ \<Rightarrow> Inl DecTruncated | Inr word \<Rightarrow> decode word)
        in case decoded of
             Inl _ \<Rightarrow> singleStep invoke d
           | Inr i \<Rightarrow>
               if i_opcode i \<noteq> OP_CALL then singleStep invoke d
               else step_over_loop invoke (db_pc d + of_nat kInstructionSize) (db_sp d) budget 0 d)"

function finish_loop ::
  "(string, 'p) provider \<Rightarrow> u64 \<Rightarrow> u64 \<Rightarrow> u64 \<Rightarrow> 'p Debugger \<Rightarrow> StopEvent \<times> 'p Debugger" where
  "finish_loop invoke depth budget executed d =
     (if \<not> budget \<le> executed then
        let (event, d) = singleStep invoke d in
        if ev_reason event \<noteq> SR_StepComplete then (event, d)
        else if db_sp d > depth then (event, d)
        else finish_loop invoke depth budget (executed + 1) d
      else (stop_event SR_Fault (db_pc d) ''function did not return'' BudgetExhausted, d))"
  by pat_completeness auto

termination finish_loop
  by (relation "measure (\<lambda>(invoke, depth, budget, executed, d). unat budget - unat executed)")
    (simp, simp only: in_measure split_conv, rule word_increment_measure(1), simp)

declare finish_loop.simps [simp del]

definition db_finish :: "(string, 'p) provider \<Rightarrow> u64 \<Rightarrow> 'p Debugger \<Rightarrow> StopEvent \<times> 'p Debugger" where
  "db_finish invoke budget d =
     (if \<not> loaded (db_machine d) then (not_running, d) else finish_loop invoke (db_sp d) budget 0 d)"

end
