(* ===== verification/Debugger_Commands.thy ===== *)
theory Debugger_Commands
  imports Debugger
begin

text \<open>
  src/debugger/debugger.cpp, second part: the views of the machine and the command interpreter.  A
  view is the text it prints.
\<close>

subsection \<open>Views\<close>

definition register_cell :: "u64 list \<Rightarrow> nat \<Rightarrow> string" where
  "register_cell regs i =
     pad_right 4 (registerName (of_nat i)) @ '' 0x'' @ hex16 (regs ! i) @ '' '' @
     pad_left (CHR '' '') 21 (int_str (sint (regs ! i))) @ (if i mod 2 = 1 then [newline] else ''   '')"

definition formatRegisters :: "'p Debugger \<Rightarrow> string" where
  "formatRegisters d =
     (let c = cpu (db_machine d) in
      concat (map (register_cell (registers c)) [0..<kRegisterCount]) @
      ''PC   0x'' @ hex16 (pc c) @ ''   SP   0x'' @ hex16 (sp c) @ [newline] @
      ''FLAGS 0x'' @ hex (flags c) @ '' ['' @
      (if flags c AND kZeroFlag \<noteq> 0 then ''Z'' else ''-'') @ (if flags c AND kSignFlag \<noteq> 0 then ''S'' else ''-'') @
      (if flags c AND kCarryFlag \<noteq> 0 then ''C'' else ''-'') @ (if flags c AND kOverflowFlag \<noteq> 0 then ''O'' else ''-'') @
      '']  instructions: '' @ dec (instruction_count c) @ [newline])"

text \<open>One line of the dump: the bytes that are below \<open>length\<close>, at most sixteen.\<close>

definition byte_hex :: "u8 \<Rightarrow> string" where
  "byte_hex b = pad_left (CHR ''0'') 2 (hex_digits (unat b) [])"

definition memory_line :: "VirtualMemory \<Rightarrow> u64 \<Rightarrow> u64 \<Rightarrow> u64 \<Rightarrow> string" where
  "memory_line m address len offset =
     (let line_address = address + offset;
          bytes = map (\<lambda>i. readByte m (line_address + of_nat i))
            (takeWhile (\<lambda>i. offset + of_nat i < len) [0..<16]);
          hexes = concat (map (\<lambda>b. case b of Inr v \<Rightarrow> byte_hex v @ '' '' | Inl _ \<Rightarrow> ''?? '') bytes);
          ascii = map (\<lambda>b. case b of
              Inr v \<Rightarrow> if 0x20 \<le> v \<and> v < 0x7F then char_of (unat v) else CHR ''.''
            | Inl _ \<Rightarrow> CHR '' '') bytes
      in hex16 line_address @ ''  '' @ pad_right 48 hexes @ '' |'' @ ascii @ ''|'' @ [newline])"

partial_function (option) memory_lines ::
  "VirtualMemory \<Rightarrow> u64 \<Rightarrow> u64 \<Rightarrow> u64 \<Rightarrow> string \<Rightarrow> string option" where
  "memory_lines m address len offset out =
     (if offset < len then memory_lines m address len (offset + 16) (out @ memory_line m address len offset)
      else Some out)"

declare memory_lines.simps [code]

definition formatMemory :: "u64 \<Rightarrow> u64 \<Rightarrow> 'p Debugger \<Rightarrow> string option" where
  "formatMemory address len d = memory_lines (memory (db_machine d)) address len 0 []"

function stack_lines :: "'p Debugger \<Rightarrow> u64 \<Rightarrow> u64 \<Rightarrow> string" where
  "stack_lines d words i =
     (if \<not> words \<le> i then
        let address = db_sp d + i * 8 in
        if address \<ge> stack_top (db_machine d) then []
        else case readU64 (memory (db_machine d)) address of
               Inl _ \<Rightarrow> []
             | Inr v \<Rightarrow>
                 ''  [SP+'' @ pad_right 3 (dec (i * 8)) @ ''] 0x'' @ hex16 address @ ''  0x'' @ hex16 v @
                 (case describeAddress v d of None \<Rightarrow> [] | Some text \<Rightarrow> ''  ; '' @ text) @ [newline] @
                 stack_lines d words (i + 1)
      else [])"
  by pat_completeness auto

termination stack_lines
  by (relation "measure (\<lambda>(d, words, i). unat words - unat i)")
    (simp, simp only: in_measure split_conv, rule word_increment_measure(1), simp)

declare stack_lines.simps [simp del]

definition formatStack :: "u64 \<Rightarrow> 'p Debugger \<Rightarrow> string" where
  "formatStack words d =
     ''stack (SP = 0x'' @ hex16 (db_sp d) @ '', top = 0x'' @ hex16 (stack_top (db_machine d)) @ '')'' @ [newline] @
     stack_lines d words 0"

function code_words :: "VirtualMemory \<Rightarrow> u64 \<Rightarrow> u64 \<Rightarrow> u64 \<Rightarrow> u8 list" where
  "code_words m address count i =
     (if \<not> count \<le> i then
        (case readU64 m (address + i * of_nat kInstructionSize) of
           Inl _ \<Rightarrow> []
         | Inr word \<Rightarrow> le_bytes kInstructionSize word @ code_words m address count (i + 1))
      else [])"
  by pat_completeness auto

termination code_words
  by (relation "measure (\<lambda>(m, address, count, i). unat count - unat i)")
    (simp, simp only: in_measure split_conv, rule word_increment_measure(1), simp)

declare code_words.simps [simp del]

text \<open>\<open>text.find(marker)\<close> and \<open>text.insert(at, inserted)\<close>\<close>

fun insert_at_first :: "string \<Rightarrow> string \<Rightarrow> string \<Rightarrow> string" where
  "insert_at_first marker inserted [] = (if marker = [] then inserted else [])"
| "insert_at_first marker inserted (c # cs) =
     (if take (length marker) (c # cs) = marker then inserted @ c # cs
      else c # insert_at_first marker inserted cs)"

definition formatDisassembly :: "u64 \<Rightarrow> u64 \<Rightarrow> 'p Debugger \<Rightarrow> string" where
  "formatDisassembly address count d =
     (let bytes = code_words (memory (db_machine d)) address count 0 in
      if bytes = [] then ''no readable code at 0x'' @ hex16 address @ [newline]
      else insert_at_first (hex16 (db_pc d) @ '':'') ''=> ''
             (disassemble (Disassembler.default_options\<lparr> show_labels := False \<rparr>) bytes address (Some (db_executable d))))"

definition described_or :: "u64 \<Rightarrow> 'p Debugger \<Rightarrow> string" where
  "described_or address d = (case describeAddress address d of None \<Rightarrow> ''<unknown>'' | Some text \<Rightarrow> text)"

text \<open>Is the word a return address: aligned, and behind a \<open>CALL\<close> in executable memory?\<close>

definition returns_to :: "VirtualMemory \<Rightarrow> u64 \<Rightarrow> bool" where
  "returns_to m candidate \<longleftrightarrow>
     \<not> (candidate mod of_nat kInstructionSize \<noteq> 0 \<or> candidate < of_nat kInstructionSize) \<and>
     (case fetchInstruction m (candidate - of_nat kInstructionSize) of
        Inl _ \<Rightarrow> False
      | Inr word \<Rightarrow> (case decode word of Inl _ \<Rightarrow> False | Inr i \<Rightarrow> i_opcode i = OP_CALL))"

partial_function (option) backtrace_lines :: "'p Debugger \<Rightarrow> u64 \<Rightarrow> u64 \<Rightarrow> u64 \<Rightarrow> string \<Rightarrow> string option" where
  "backtrace_lines d max_frames address frame out =
     (if address < stack_top (db_machine d) \<and> frame < max_frames
      then (case readU64 (memory (db_machine d)) address of
              Inl _ \<Rightarrow> Some out
            | Inr candidate \<Rightarrow>
                if returns_to (memory (db_machine d)) candidate
                then backtrace_lines d max_frames (address + 8) (frame + 1)
                       (out @ ''#'' @ dec frame @ ''  0x'' @ hex16 candidate @ ''  '' @ described_or candidate d @ [newline])
                else backtrace_lines d max_frames (address + 8) frame out)
      else Some out)"

declare backtrace_lines.simps [code]

definition formatBacktrace :: "u64 \<Rightarrow> 'p Debugger \<Rightarrow> string option" where
  "formatBacktrace max_frames d =
     backtrace_lines d max_frames (db_sp d) 1
       (''#0  0x'' @ hex16 (db_pc d) @ ''  '' @ described_or (db_pc d) d @ [newline])"

definition formatSourceLocation :: "u64 \<Rightarrow> 'p Debugger \<Rightarrow> string" where
  "formatSourceLocation address d =
     (let missing = ''0x'' @ hex16 address @ '': no source information'' @ [newline] in
      case debugEntryFor (db_executable d) address of
        None \<Rightarrow> missing
      | Some entry \<Rightarrow>
          if unat (de_file entry) \<ge> length (ex_source_files (db_executable d)) then missing
          else ex_source_files (db_executable d) ! unat (de_file entry) @ '':'' @ nat_str (unat (de_line entry)) @ '':'' @
               nat_str (unat (de_column entry)) @ [newline])"

definition breakpoint_line :: "Breakpoint \<Rightarrow> string" where
  "breakpoint_line b =
     ''breakpoint '' @ nat_str (unat (bp_id b)) @ '' at 0x'' @ hex16 (bp_address b) @
     (if bp_symbol b = [] then [] else '' in '' @ bp_symbol b) @ (if bp_enabled b then [] else '' [disabled]'') @
     '' ('' @ nat_str (unat (bp_hits b)) @ '' hit'' @ (if bp_hits b = 1 then [] else ''s'') @ '')'' @ [newline]"

definition watchpoint_line :: "Watchpoint \<Rightarrow> string" where
  "watchpoint_line w =
     ''watchpoint '' @ nat_str (unat (wp_id w)) @ '' on 0x'' @ hex16 (wp_address w) @ '' (last value 0x'' @
     hex (wp_previous w) @ '')'' @ [newline]"

definition formatBreakpoints :: "'p Debugger \<Rightarrow> string" where
  "formatBreakpoints d =
     (if db_breakpoints d = [] \<and> db_watchpoints d = [] then ''no breakpoints'' @ [newline]
      else concat (map breakpoint_line (db_breakpoints d)) @ concat (map watchpoint_line (db_watchpoints d)))"

subsection \<open>Commands\<close>

definition help_lines :: "string list" where
  "help_lines =
     [''commands:'',
      ''  run, continue (r, c)      run until a breakpoint or exit'',
      ''  step (s)                  execute one instruction'',
      ''  next (n)                  step, but run over a CALL'',
      ''  finish                    run until the current function returns'',
      ''  break <addr|symbol> (b)   set a breakpoint'',
      ''  delete <id> (d)           remove a breakpoint or watchpoint'',
      ''  disable <id>              disable a breakpoint'',
      ''  enable <id>               enable a breakpoint'',
      ''  watch <addr>              stop when the 8 bytes there change'',
      ''  info                      list breakpoints and watchpoints'',
      ''  registers (regs)          print the register file'',
      ''  print <register>          print one register'',
      ''  memory <addr> [len] (x)   hex dump memory'',
      ''  stack                     dump the top of the stack'',
      ''  disassemble [addr] [n]    disassemble around the PC'',
      ''  backtrace (bt)            show the call stack'',
      ''  list (l)                  show the current source line'',
      ''  quit (q)                  leave the debugger'']"

definition cmd_break :: "string \<Rightarrow> 'p Debugger \<Rightarrow> string \<times> 'p Debugger" where
  "cmd_break text d =
     (case parseAddress text (db_executable d) of
        None \<Rightarrow> (''cannot resolve '' @ quoted text @ [newline], d)
      | Some address \<Rightarrow>
          let (i, d) = addBreakpoint address d
          in (''breakpoint '' @ nat_str (unat i) @ '' at 0x'' @ hex16 address @ [newline], d))"

definition cmd_watch :: "string \<Rightarrow> 'p Debugger \<Rightarrow> string \<times> 'p Debugger" where
  "cmd_watch text d =
     (case parseAddress text (db_executable d) of
        None \<Rightarrow> (''cannot resolve '' @ quoted text @ [newline], d)
      | Some address \<Rightarrow>
          (case addWatchpoint address d of
             (None, d) \<Rightarrow> (''0x'' @ hex address @ '' is not readable'' @ [newline], d)
           | (Some i, d) \<Rightarrow> (''watchpoint '' @ nat_str (unat i) @ '' on 0x'' @ hex16 address @ [newline], d)))"

definition cmd_change :: "string \<Rightarrow> string \<Rightarrow> 'p Debugger \<Rightarrow> string \<times> 'p Debugger" where
  "cmd_change command text d =
     (case from_chars 10 (2 ^ 32) text of
        None \<Rightarrow> (''expected a breakpoint id'' @ [newline], d)
      | Some (v, _) \<Rightarrow>
          if command = ''delete'' \<or> command = ''d''
          then (case removeBreakpoint (of_int v) d of
                  (True, d) \<Rightarrow> (''deleted'' @ [newline], d)
                | (False, d) \<Rightarrow>
                    (case removeWatchpoint (of_int v) d of
                       (True, d) \<Rightarrow> (''deleted'' @ [newline], d)
                     | (False, d) \<Rightarrow> (''no such breakpoint'' @ [newline], d)))
          else (case setBreakpointEnabled (of_int v) (command = ''enable'') d of
                  (True, d) \<Rightarrow> (''done'' @ [newline], d)
                | (False, d) \<Rightarrow> (''no such breakpoint'' @ [newline], d)))"

definition cmd_print :: "string \<Rightarrow> 'p Debugger \<Rightarrow> string" where
  "cmd_print text d =
     (case parseRegister text of
        None \<Rightarrow> quoted text @ '' is not a register'' @ [newline]
      | Some reg \<Rightarrow>
          let v = registers (cpu (db_machine d)) ! registerIndex reg
          in registerName reg @ '' = 0x'' @ hex16 v @ '' ('' @ int_str (sint v) @ '')'' @ [newline])"

text \<open>A count given as the third word, or the default; a number that cannot be read changes nothing.\<close>

definition count_argument :: "string list \<Rightarrow> u64 \<Rightarrow> u64" where
  "count_argument words usual =
     (if length words > 2
      then (case from_chars 10 (2 ^ 64) (words ! 2) of None \<Rightarrow> usual | Some (v, _) \<Rightarrow> of_int v)
      else usual)"

definition cmd_memory :: "string list \<Rightarrow> string \<Rightarrow> 'p Debugger \<Rightarrow> string option" where
  "cmd_memory words text d =
     (case parseAddress text (db_executable d) of
        None \<Rightarrow> Some (''expected an address'' @ [newline])
      | Some address \<Rightarrow> formatMemory address (min (count_argument words 64) 4096) d)"

definition cmd_disassemble :: "string list \<Rightarrow> string \<Rightarrow> 'p Debugger \<Rightarrow> string" where
  "cmd_disassemble words text d =
     (let address = (if length words > 1 then parseAddress text (db_executable d) else Some (db_pc d))
      in formatDisassembly (case address of None \<Rightarrow> db_pc d | Some a \<Rightarrow> a) (min (count_argument words 8) 256) d)"

definition cmd_step :: "(string, 'p) provider \<Rightarrow> 'p Debugger \<Rightarrow> string \<times> 'p Debugger" where
  "cmd_step invoke d =
     (let (event, d) = db_step invoke d in
      (describeStop event @ [newline] @
       (if ev_reason event = SR_StepComplete then formatDisassembly (db_pc d) 1 d else []), d))"

definition stop_line :: "StopEvent \<times> 'p Debugger \<Rightarrow> string \<times> 'p Debugger" where
  "stop_line p = (describeStop (fst p) @ [newline], snd p)"

text \<open>The output and the debugger; \<open>False\<close> leaves the loop.\<close>

definition executeCommand ::
  "(string, 'p) provider \<Rightarrow> string \<Rightarrow> 'p Debugger \<Rightarrow> (bool \<times> string \<times> 'p Debugger) option" where
  "executeCommand invoke line d =
     (let words = splitWords line in
      if words = [] then Some (True, [], d)
      else
        let command = words ! 0; argument = (if 1 < length words then words ! 1 else []) in
        if command = ''quit'' \<or> command = ''q'' then Some (False, [], d)
        else if command = ''help'' \<or> command = ''h'' then Some (True, concat (map (\<lambda>l. l @ [newline]) help_lines), d)
        else if command = ''run'' \<or> command = ''r'' \<or> command = ''continue'' \<or> command = ''c''
        then Some (True, stop_line (db_run invoke kDefaultBudget d))
        else if command = ''step'' \<or> command = ''s'' then Some (True, cmd_step invoke d)
        else if command = ''next'' \<or> command = ''n'' then Some (True, stop_line (stepOver invoke kDefaultBudget d))
        else if command = ''finish'' then Some (True, stop_line (db_finish invoke kDefaultBudget d))
        else if command = ''break'' \<or> command = ''b'' then Some (True, cmd_break argument d)
        else if command = ''watch'' then Some (True, cmd_watch argument d)
        else if command = ''delete'' \<or> command = ''d'' \<or> command = ''disable'' \<or> command = ''enable''
        then Some (True, cmd_change command argument d)
        else if command = ''info'' then Some (True, formatBreakpoints d, d)
        else if command = ''registers'' \<or> command = ''regs'' then Some (True, formatRegisters d, d)
        else if command = ''print'' \<or> command = ''p'' then Some (True, cmd_print argument d, d)
        else if command = ''memory'' \<or> command = ''x''
        then map_option (\<lambda>out. (True, out, d)) (cmd_memory words argument d)
        else if command = ''stack'' then Some (True, formatStack 8 d, d)
        else if command = ''disassemble'' \<or> command = ''dis'' then Some (True, cmd_disassemble words argument d, d)
        else if command = ''backtrace'' \<or> command = ''bt''
        then map_option (\<lambda>out. (True, out, d)) (formatBacktrace 32 d)
        else if command = ''list'' \<or> command = ''l'' then Some (True, formatSourceLocation (db_pc d) d, d)
        else Some (True, ''unknown command '' @ quoted command @ ''; try '' @ quoted ''help'' @ [newline], d))"

text \<open>The input is the lines \<open>std::getline\<close> still yields.\<close>

fun command_loop :: "(string, 'p) provider \<Rightarrow> string list \<Rightarrow> 'p Debugger \<Rightarrow> (string \<times> 'p Debugger) option" where
  "command_loop invoke [] d = Some (''(minidbg) '' @ [newline], d)"
| "command_loop invoke (line # lines) d =
     (case executeCommand invoke line d of
        None \<Rightarrow> None
      | Some (go_on, out, d) \<Rightarrow>
          if \<not> go_on then Some (''(minidbg) '' @ out, d)
          else (case command_loop invoke lines d of
                  None \<Rightarrow> None | Some (others, d) \<Rightarrow> Some (''(minidbg) '' @ out @ others, d)))"

definition interactiveLoop ::
  "(string, 'p) provider \<Rightarrow> string list \<Rightarrow> 'p Debugger \<Rightarrow> (string \<times> 'p Debugger) option" where
  "interactiveLoop invoke lines d =
     (case command_loop invoke lines d of
        None \<Rightarrow> None
      | Some (out, d') \<Rightarrow>
          Some (''minidbg - type '' @ quoted ''help'' @ '' for commands'' @ [newline] @ formatSourceLocation (db_pc d) d @
            formatDisassembly (db_pc d) 1 d @ out, d'))"

end
