(* ===== verification/Debugger_Safety.thy ===== *)
theory Debugger_Safety
  imports Debugger_Commands Machine_Safety Lexer_Literals "HOL-Library.Multiset"
begin

text \<open>
  What the debugger guarantees.  Its operations only ever step the machine, so a session leaves the
  machine where a number of steps takes it; identifiers stay unique; \<open>run\<close> without stop points is the
  run loop of the machine and with them stops at the first one; every command returns.
\<close>

subsection \<open>Steps\<close>

definition after :: "('e, 'p) provider \<Rightarrow> nat \<Rightarrow> 'p VM \<Rightarrow> 'p VM" where
  "after invoke n = (\<lambda>vm. snd (step invoke vm)) ^^ n"

lemma after_simps [simp]: "after invoke 0 vm = vm" "after invoke (Suc n) vm = after invoke n (snd (step invoke vm))"
  by (simp_all add: after_def funpow_Suc_right del: funpow.simps(2))

lemma after_add: "after invoke (m + n) vm = after invoke n (after invoke m vm)"
  by (induction m arbitrary: vm) simp_all

lemma step_halted: "halted (cpu vm) \<Longrightarrow> snd (step invoke vm) = vm"
  by (simp add: step_def)

lemma check_watch_ids: "map wp_id (snd (check_watch m at ws)) = map wp_id ws"
  by (induction ws) (auto simp: Let_def split: prod.split sum.split)

text \<open>What execution leaves alone.\<close>

definition same_setup :: "'p Debugger \<Rightarrow> 'p Debugger \<Rightarrow> bool" where
  "same_setup d d' \<longleftrightarrow> db_executable d' = db_executable d \<and> db_next_id d' = db_next_id d \<and>
     map bp_id (db_breakpoints d') = map bp_id (db_breakpoints d) \<and>
     map wp_id (db_watchpoints d') = map wp_id (db_watchpoints d)"

lemma same_setup_refl [simp]: "same_setup d d"
  by (simp add: same_setup_def)

lemma same_setup_trans: "same_setup a b \<Longrightarrow> same_setup b c \<Longrightarrow> same_setup a c"
  by (simp add: same_setup_def)

lemma singleStep_effect:
  assumes "singleStep invoke d = (event, d')"
  shows "db_machine d' = snd (step invoke (db_machine d))" and "same_setup d d'"
    and "db_breakpoints d' = db_breakpoints d" and "ev_reason event = SR_StepComplete \<Longrightarrow> db_started d'"
  using assms check_watch_ids
  by (auto simp: singleStep_def step_halted checkWatchpoints_def same_setup_def stop_event_def Let_def
      split: if_splits sum.splits prod.splits option.splits) (metis snd_conv)+

lemma singleStep_stop:
  assumes "singleStep invoke d = (event, d')"
  shows "ev_reason event \<noteq> SR_Breakpoint" and "ev_reason event \<noteq> SR_NotRunning"
proof -
  have "ev_reason e = SR_Watchpoint" if "check_watch m at ws = (Some e, ws')" for m at ws e ws'
    using that by (induction ws arbitrary: ws') (auto simp: Let_def stop_event_def split: if_splits sum.splits prod.splits)
  then show "ev_reason event \<noteq> SR_Breakpoint" "ev_reason event \<noteq> SR_NotRunning"
    using assms by (auto simp: singleStep_def checkWatchpoints_def stop_event_def Let_def
        split: if_splits sum.splits prod.splits option.splits)
qed

subsection \<open>The three loops\<close>

lemma run_debugger_effect:
  assumes "run_debugger invoke budget executed d = (event, d')"
  shows "(\<exists>n. db_machine d' = after invoke n (db_machine d)) \<and> same_setup d d'"
  using assms
proof (induction invoke budget executed d rule: run_debugger.induct)
  case (1 invoke budget executed d)
  obtain e1 d1 where s: "singleStep invoke d = (e1, d1)" by fastforce
  note eff = singleStep_effect [OF s]
  let ?hit = "if executed > 0 \<or> \<not> db_started d then breakpointAt (db_pc d) d else None"
  show ?case
  proof (cases "\<not> budget \<le> executed \<and> ?hit = None \<and> ev_reason e1 = SR_StepComplete")
    case True
    with 1 s have "(\<exists>n. db_machine d' = after invoke n (db_machine d1)) \<and> same_setup d1 d'"
      by (simp add: run_debugger.simps [of invoke budget executed d])
    with eff show ?thesis using after_simps(2) same_setup_trans by metis
  next
    case False
    have "db_machine d' = after invoke 0 (db_machine d) \<or> db_machine d' = after invoke (Suc 0) (db_machine d)"
      "same_setup d d'"
      using "1.prems" False s eff
      by (auto simp: run_debugger.simps [of invoke budget executed d] count_hit_def same_setup_def comp_def
          split: if_splits option.splits)
    then show ?thesis by blast
  qed
qed

lemma step_over_effect:
  assumes "step_over_loop invoke resume depth budget executed d = (event, d')"
  shows "(\<exists>n. db_machine d' = after invoke n (db_machine d)) \<and> same_setup d d'"
  using assms
proof (induction invoke resume depth budget executed d rule: step_over_loop.induct)
  case (1 invoke resume depth budget executed d)
  obtain e1 d1 where s: "singleStep invoke d = (e1, d1)" by fastforce
  note eff = singleStep_effect [OF s]
  show ?case
  proof (cases "\<not> budget \<le> executed \<and> ev_reason e1 = SR_StepComplete \<and> \<not> (db_pc d1 = resume \<and> db_sp d1 \<ge> depth) \<and>
      breakpointAt (db_pc d1) d1 = None")
    case True
    with 1 s have "(\<exists>n. db_machine d' = after invoke n (db_machine d1)) \<and> same_setup d1 d'"
      by (simp add: step_over_loop.simps [of invoke resume depth budget executed d])
    with eff show ?thesis using after_simps(2) same_setup_trans by metis
  next
    case False
    have "db_machine d' = after invoke 0 (db_machine d) \<or> db_machine d' = after invoke (Suc 0) (db_machine d)"
      "same_setup d d'"
      using "1.prems" False s eff
      by (auto simp: step_over_loop.simps [of invoke resume depth budget executed d] split: if_splits option.splits)
    then show ?thesis by blast
  qed
qed

lemma finish_effect:
  assumes "finish_loop invoke depth budget executed d = (event, d')"
  shows "(\<exists>n. db_machine d' = after invoke n (db_machine d)) \<and> same_setup d d'"
  using assms
proof (induction invoke depth budget executed d rule: finish_loop.induct)
  case (1 invoke depth budget executed d)
  obtain e1 d1 where s: "singleStep invoke d = (e1, d1)" by fastforce
  note eff = singleStep_effect [OF s]
  show ?case
  proof (cases "\<not> budget \<le> executed \<and> ev_reason e1 = SR_StepComplete \<and> \<not> db_sp d1 > depth")
    case True
    with 1 s have "(\<exists>n. db_machine d' = after invoke n (db_machine d1)) \<and> same_setup d1 d'"
      by (simp add: finish_loop.simps [of invoke depth budget executed d])
    with eff show ?thesis using after_simps(2) same_setup_trans by metis
  next
    case False
    have "db_machine d' = after invoke 0 (db_machine d) \<or> db_machine d' = after invoke (Suc 0) (db_machine d)"
      "same_setup d d'"
      using "1.prems" False s eff
      by (auto simp: finish_loop.simps [of invoke depth budget executed d] split: if_splits)
    then show ?thesis by blast
  qed
qed

subsection \<open>The interface with its messages as text\<close>

lemma text_provider_result:
  "text_provider to_text invoke number context p = (r, c, q) \<Longrightarrow> \<exists>r'. invoke number context p = (r', c, q)"
  by (auto simp: text_provider_def split: prod.splits sum.splits)

definition text_invoke :: "(string, DefaultProvider) provider" where
  "text_invoke = text_provider syscall_text default_invoke"

interpretation text_interface: syscall_provider text_invoke
  by unfold_locales
    (auto simp: text_invoke_def dest!: text_provider_result dest: default_provider.keeps_registers default_provider.keeps_memory)

subsection \<open>Sessions\<close>

text \<open>One call of an operation that changes the debugger, and a session of such calls.\<close>

inductive db_op :: "(string, 'p) provider \<Rightarrow> 'p Debugger \<Rightarrow> 'p Debugger \<Rightarrow> bool" for invoke where
  add_breakpoint: "db_op invoke d (snd (addBreakpoint address d))"
| add_breakpoint_by_symbol: "db_op invoke d (snd (addBreakpointBySymbol name d))"
| remove_breakpoint: "db_op invoke d (snd (removeBreakpoint i d))"
| set_enabled: "db_op invoke d (snd (setBreakpointEnabled i enabled d))"
| add_watchpoint: "db_op invoke d (snd (addWatchpoint address d))"
| remove_watchpoint: "db_op invoke d (snd (removeWatchpoint i d))"
| stepping: "db_op invoke d (snd (db_step invoke d))"
| running: "db_op invoke d (snd (db_run invoke budget d))"
| stepping_over: "db_op invoke d (snd (stepOver invoke budget d))"
| finishing: "db_op invoke d (snd (db_finish invoke budget d))"

inductive session :: "(string, 'p) provider \<Rightarrow> nat \<Rightarrow> 'p Debugger \<Rightarrow> 'p Debugger \<Rightarrow> bool" for invoke where
  session_start: "session invoke 0 d d"
| session_more: "session invoke n d d' \<Longrightarrow> db_op invoke d' d'' \<Longrightarrow> session invoke (Suc n) d d''"

inductive_cases session_SucE: "session invoke (Suc n) d d'"

definition watch_of :: "'p Debugger \<Rightarrow> u32 list" where
  "watch_of d = map bp_id (db_breakpoints d) @ map wp_id (db_watchpoints d)"

lemma enable_first_ids: "enable_first i enabled bs = Some bs' \<Longrightarrow> map bp_id bs' = map bp_id bs"
  by (induction bs arbitrary: bs') (auto split: if_splits)

text \<open>What one operation does: it runs the machine, or changes the lists.\<close>

definition edits :: "'p Debugger \<Rightarrow> 'p Debugger \<Rightarrow> bool" where
  "edits d d' \<longleftrightarrow> db_machine d' = db_machine d \<and> db_executable d' = db_executable d \<and>
     (db_next_id d' = db_next_id d \<and> mset (watch_of d') \<subseteq># mset (watch_of d) \<or>
      db_next_id d' = db_next_id d + 1 \<and> mset (watch_of d') = add_mset (db_next_id d) (mset (watch_of d)))"

lemma edits_refl [simp]: "edits d d"
  by (simp add: edits_def)

definition runs :: "(string, 'p) provider \<Rightarrow> 'p Debugger \<Rightarrow> 'p Debugger \<Rightarrow> bool" where
  "runs invoke d d' \<longleftrightarrow> (\<exists>n. db_machine d' = after invoke n (db_machine d)) \<and> same_setup d d'"

lemma runs_refl [simp]: "runs invoke d d"
  by (auto simp: runs_def intro: exI [of _ 0])

lemma runs_step: "runs invoke d (snd (singleStep invoke d))"
proof -
  obtain e d' where s: "singleStep invoke d = (e, d')" by fastforce
  then show ?thesis using singleStep_effect [OF s] by (auto simp: runs_def intro: exI [of _ "Suc 0"])
qed

lemma adding_edits: "edits d (snd (addBreakpoint address d))" "edits d (snd (addWatchpoint address d))"
  by (auto simp: edits_def addBreakpoint_def addWatchpoint_def watch_of_def Let_def split: sum.split)

lemma removing_edits: "edits d (snd (removeBreakpoint i d))" "edits d (snd (removeWatchpoint i d))"
proof -
  have "mset (map bp_id (filter P bs)) \<subseteq># mset (map bp_id bs)" for P bs
    by (simp add: image_mset_subseteq_mono)
  moreover have "mset (map wp_id (filter P ws)) \<subseteq># mset (map wp_id ws)" for P ws
    by (simp add: image_mset_subseteq_mono)
  ultimately show "edits d (snd (removeBreakpoint i d))" "edits d (snd (removeWatchpoint i d))"
    by (auto simp: edits_def removeBreakpoint_def removeWatchpoint_def watch_of_def)
qed

lemma db_op_effect: "db_op invoke d d' \<Longrightarrow> edits d d' \<or> runs invoke d d'"
proof (induction rule: db_op.induct)
  case (add_breakpoint_by_symbol d name)
  then show ?case using adding_edits(1)
    by (cases "findSymbol (db_executable d) name") (auto simp: addBreakpointBySymbol_def case_prod_beta)
next
  case (set_enabled d i enabled)
  then show ?case
    by (auto simp: setBreakpointEnabled_def edits_def watch_of_def simp del: mset_map
        dest!: enable_first_ids split: option.split)
next
  case (stepping d)
  then show ?case using runs_step by (auto simp: db_step_def)
next
  case (running d budget)
  obtain e d' where r: "run_debugger invoke budget 0 d = (e, d')" by fastforce
  from run_debugger_effect [OF r] r show ?case by (auto simp: db_run_def runs_def)
next
  case (stepping_over d budget)
  obtain e d' where r: "step_over_loop invoke (db_pc d + of_nat kInstructionSize) (db_sp d) budget 0 d = (e, d')" by fastforce
  from step_over_effect [OF r] have "runs invoke d d'" by (simp add: runs_def)
  with r runs_step [of invoke d] have "runs invoke d (snd (stepOver invoke budget d))"
    by (auto simp: stepOver_def Let_def split: sum.split)
  then show ?case ..
next
  case (finishing d budget)
  obtain e d' where r: "finish_loop invoke (db_sp d) budget 0 d = (e, d')" by fastforce
  from finish_effect [OF r] r show ?case by (auto simp: db_finish_def runs_def)
qed (use adding_edits removing_edits in blast)+

text \<open>The machine during a session, and the identifiers.\<close>

definition ids_ok :: "nat \<Rightarrow> 'p Debugger \<Rightarrow> bool" where
  "ids_ok n d \<longleftrightarrow> unat (db_next_id d) \<le> n + 1 \<and> distinct (watch_of d) \<and>
     (\<forall>i \<in> set (watch_of d). i \<noteq> 0 \<and> unat i < unat (db_next_id d))"

lemma same_setup_watch: "same_setup d d' \<Longrightarrow> watch_of d' = watch_of d"
  by (simp add: same_setup_def watch_of_def)

lemma distinct_submset: "mset xs \<subseteq># mset ys \<Longrightarrow> distinct ys \<Longrightarrow> distinct xs"
proof -
  assume "mset xs \<subseteq># mset ys" "distinct ys"
  then obtain zs where "mset ys = mset (xs @ zs)" by (metis ex_mset mset_append mset_subset_eq_exists_conv)
  then have "distinct (xs @ zs)" using \<open>distinct ys\<close> mset_eq_imp_distinct_iff by metis
  then show ?thesis by simp
qed

lemma ids_ok_edits:
  assumes "ids_ok n d" and "edits d d'" and "n + 2 < 2 ^ 32" and "db_next_id d \<noteq> 0"
  shows "ids_ok (Suc n) d' \<and> db_next_id d' \<noteq> 0"
proof (cases "db_next_id d' = db_next_id d")
  case True
  then have sub: "mset (watch_of d') \<subseteq># mset (watch_of d)" using assms(2) by (auto simp: edits_def)
  then have "set (watch_of d') \<subseteq> set (watch_of d)" by (metis set_mset_mono set_mset_mset)
  moreover have "distinct (watch_of d')" using distinct_submset [OF sub] assms(1) by (simp add: ids_ok_def)
  moreover have "unat (db_next_id d) \<le> Suc n + 1" using assms(1) by (simp add: ids_ok_def)
  ultimately show ?thesis using True assms(1,4) unfolding ids_ok_def by auto
next
  case False
  let ?i = "db_next_id d"
  have lt: "unat ?i \<le> n + 1" using assms(1) by (simp add: ids_ok_def)
  then have next_id: "unat (?i + 1) = unat ?i + 1" using assms(3) by (subst unat_add_lem [THEN iffD1]) simp_all
  have e: "db_next_id d' = ?i + 1" "mset (watch_of d') = add_mset ?i (mset (watch_of d))"
    using False assms(2) by (auto simp: edits_def)
  from e(2) have set: "set (watch_of d') = insert ?i (set (watch_of d))" by (metis set_mset_add_mset_insert set_mset_mset)
  have "?i \<notin> set (watch_of d)" using assms(1) by (auto simp: ids_ok_def)
  then have "distinct (watch_of d')"
    using assms(1) e(2) by (metis distinct.simps(2) ids_ok_def mset.simps(2) mset_eq_imp_distinct_iff)
  moreover have "?i + 1 \<noteq> 0" using next_id by (metis Suc_eq_plus1 nat.distinct(1) unat_0)
  ultimately show ?thesis using assms(1,4) e(1) next_id set lt by (force simp: ids_ok_def)
qed

text \<open>
  However long a session with the debugger gets, as long as fewer than \<open>2\<^sup>3\<^sup>2 - 2\<close> operations were
  called every breakpoint and every watchpoint has an identifier of its own, so \<open>delete\<close>, \<open>enable\<close> and
  \<open>disable\<close> name at most one of them.
\<close>

theorem identifiers_are_unique:
  assumes "session invoke n (start_debugger vm executable) d" and "n + 2 < 2 ^ 32"
  shows "distinct (map bp_id (db_breakpoints d) @ map wp_id (db_watchpoints d)) \<and>
    (\<forall>i \<in> set (map bp_id (db_breakpoints d) @ map wp_id (db_watchpoints d)). i \<noteq> 0 \<and> unat i < unat (db_next_id d))"
proof -
  have "ids_ok n d \<and> db_next_id d \<noteq> 0" using assms
  proof (induction n "start_debugger vm executable" d rule: session.induct)
    case session_start
    show ?case by (simp add: ids_ok_def start_debugger_def watch_of_def)
  next
    case (session_more n d d')
    then have ok: "ids_ok n d" "db_next_id d \<noteq> 0" by simp_all
    show ?case using db_op_effect [OF session_more(3)]
    proof
      assume "edits d d'"
      then show ?thesis using ids_ok_edits [OF ok(1) _ _ ok(2)] session_more.prems by simp
    next
      assume "runs invoke d d'"
      then have "same_setup d d'" by (simp add: runs_def)
      then have "watch_of d' = watch_of d" "db_next_id d' = db_next_id d"
        by (simp_all add: same_setup_watch) (simp add: same_setup_def)
      with ok show ?thesis unfolding ids_ok_def by simp
    qed
  qed
  then show ?thesis by (simp add: ids_ok_def watch_of_def)
qed

definition demo_session :: "DefaultProvider Debugger" where
  "demo_session = start_debugger demo_machine demo_image"

lemma demo_sessions:
  "session text_invoke 1 demo_session (snd (addBreakpoint a demo_session))"
  "session text_invoke 2 demo_session (snd (db_step text_invoke (snd (addBreakpoint a demo_session))))"
proof -
  have one: "session text_invoke 1 demo_session (snd (addBreakpoint a demo_session))"
    using session_more [OF session_start add_breakpoint] by simp
  then show "session text_invoke 1 demo_session (snd (addBreakpoint a demo_session))" .
  show "session text_invoke 2 demo_session (snd (db_step text_invoke (snd (addBreakpoint a demo_session))))"
    using session_more [OF one stepping] by (simp add: numeral_2_eq_2)
qed

theorem identifiers_are_unique_witness:
  "let d = snd (db_step text_invoke (snd (addBreakpoint 0x400000 demo_session)))
   in distinct (map bp_id (db_breakpoints d) @ map wp_id (db_watchpoints d))"
  using identifiers_are_unique [OF demo_sessions(2) [unfolded demo_session_def]]
  unfolding demo_session_def Let_def by simp

lemma session_machine:
  "session invoke n d0 d \<Longrightarrow> \<exists>k. db_machine d = after invoke k (db_machine d0)"
proof (induction rule: session.induct)
  case (session_more n d d' d'')
  then obtain k where k: "db_machine d' = after invoke k (db_machine d)" by blast
  have "\<exists>m. db_machine d'' = after invoke m (db_machine d')" using db_op_effect [OF session_more(2)]
  proof
    assume "edits d' d''"
    then have "db_machine d'' = after invoke 0 (db_machine d')" by (simp add: edits_def)
    then show ?thesis ..
  qed (simp add: runs_def)
  then obtain m where "db_machine d'' = after invoke m (db_machine d')" ..
  then have "db_machine d'' = after invoke (k + m) (db_machine d)" by (simp add: after_add k)
  then show ?case ..
next
  case (session_start d)
  have "db_machine d = after invoke 0 (db_machine d)" by simp
  then show ?case ..
qed

subsection \<open>The program is not disturbed\<close>

lemma after_keeps: "vm_ok vm \<Longrightarrow> vm_ok (after text_invoke n vm) \<and> vm_frame vm (after text_invoke n vm)"
proof (induction n arbitrary: vm)
  case (Suc n)
  obtain r w where "step text_invoke vm = (r, w)" by fastforce
  with text_interface.step_keeps [OF Suc.prems] Suc.IH [of w] vm_frame_trans show ?case by auto
qed simp

text \<open>
  C25: nothing the debugger does can change what the program computes: after any session the machine
  is where some number of its own steps takes it, the image still has its code, and the machine
  invariant holds, whatever breakpoints, watchpoints and stepping commands were used.
\<close>

theorem debugging_is_transparent:
  assumes "load executable vm0 = (Inr (), vm)" and "session text_invoke n (start_debugger vm executable) d"
    and "s \<in> set (ex_segments executable)" and "hasFlag (sg_flags s) SF_Exec" and "k < unat (sg_virtual_size s)"
  shows "(\<exists>steps. db_machine d = ((\<lambda>m. snd (step text_invoke m)) ^^ steps) vm) \<and> vm_ok (db_machine d) \<and>
    mem_at (memory (db_machine d)) (sg_virtual_address s + of_nat k) = Some (segment_byte s k)"
proof -
  obtain steps where m: "db_machine d = after text_invoke steps vm"
    using session_machine [OF assms(2)] by (auto simp: start_debugger_def)
  note keeps = after_keeps [OF load_establishes [OF assms(1)], of steps, folded m]
  then have q: "quiet (memory vm) (memory (db_machine d))" by (simp add: vm_frame_def)
  have "segment_ok s" using load_result(1) [OF assms(1)] assms(3) by (simp add: executable_ok_def)
  then have nw: "\<not> hasPermission (permissionsOf (sg_flags s)) Perm_Write"
    using assms(4) by (intro exec_not_writable) (auto simp: segment_ok_def)
  note at = load_segment_at [OF assms(1,3,5)]
  have "mem_at (memory (db_machine d)) (sg_virtual_address s + of_nat k) = Some (segment_byte s k)"
    using q nw at by (simp add: quiet_def unwritable_def)
  with keeps m show ?thesis by (auto simp: after_def)
qed

theorem debugging_is_transparent_witness:
  "mem_at (memory (db_machine (snd (db_step text_invoke (snd (addBreakpoint 0x400000 demo_session)))))) (0x400000 + of_nat 7) = Some 0x11"
proof -
  have "segment_byte demo_text 7 = 0x11"
    by (simp add: segment_byte_def demo_text_def demo_code_def nth_append le_byte_def)
  with debugging_is_transparent [OF demo_load demo_sessions(2) [of "0x400000", unfolded demo_session_def], of demo_text 7]
  show ?thesis
    by (simp add: demo_image_def hasFlag_def demo_session_def) (simp add: demo_text_def segment_flag_consts)
qed

subsection \<open>Running\<close>

lemma check_watch_none:
  "(\<And>w. w \<in> set ws \<Longrightarrow> \<not> wp_enabled w) \<Longrightarrow> check_watch m at ws = (None, ws)"
  by (induction ws) auto

definition no_stops :: "'p Debugger \<Rightarrow> bool" where
  "no_stops d \<longleftrightarrow> (\<forall>b \<in> set (db_breakpoints d). \<not> bp_enabled b) \<and> (\<forall>w \<in> set (db_watchpoints d). \<not> wp_enabled w)"

lemma singleStep_quiet:
  assumes "no_stops d" and "\<not> halted (cpu (db_machine d))"
  shows "singleStep invoke d =
    (case step invoke (db_machine d) of
       (Inl fault, m) \<Rightarrow> (stop_event SR_Fault (vf_pc fault) (fault_text (vf_message fault)) (vf_error fault),
          d\<lparr> db_machine := m, db_started := True \<rparr>)
     | (Inr _, m) \<Rightarrow>
         (if halted (cpu m) then stop_event SR_Halted (pc (cpu m)) (''exit code '' @ dec (exit_code (cpu m))) VM_None
          else stop_event SR_StepComplete (pc (cpu m)) [] VM_None, d\<lparr> db_machine := m, db_started := True \<rparr>))"
proof -
  have "check_watch m at (db_watchpoints d) = (None, db_watchpoints d)" for m at
    using assms(1) by (intro check_watch_none) (simp add: no_stops_def)
  then show ?thesis using assms(2)
    by (auto simp: singleStep_def checkWatchpoints_def Let_def split: prod.split sum.split)
qed

text \<open>The event that tells the same as a result of the run loop.\<close>

definition tells :: "StopEvent \<Rightarrow> string RunResult \<Rightarrow> bool" where
  "tells event rr \<longleftrightarrow> ev_error event = rr_error rr \<and> ev_pc event = rr_pc rr \<and>
     (if rr_error rr = VM_None
      then ev_reason event = SR_Halted \<and> ev_message event = ''exit code '' @ dec (rr_exit_code rr)
      else ev_reason event = SR_Fault \<and> (rr_error rr \<noteq> BudgetExhausted \<longrightarrow> ev_message event = fault_text (rr_message rr)))"

lemma run_debugger_run_loop:
  assumes "no_stops d" and "\<not> halted (cpu (db_machine d))"
    and "run_debugger invoke budget executed d = (event, d')" and "run_loop invoke budget executed (db_machine d) = (rr, vm')"
  shows "db_machine d' = vm' \<and> tells event rr"
  using assms
proof (induction invoke budget executed d rule: run_debugger.induct)
  case (1 invoke budget executed d)
  note prems = "1.prems"
  have "breakpointAt (db_pc d) d = None" using prems(1) by (auto simp: breakpointAt_def no_stops_def find_None_iff)
  then have nobp: "(if executed > 0 \<or> \<not> db_started d then breakpointAt (db_pc d) d else None) = None" by simp
  show ?case
  proof (cases "budget \<le> executed")
    case True
    with prems show ?thesis
      by (auto simp: run_debugger.simps [of invoke budget executed d] run_loop.simps [of invoke budget executed]
          stopped_def tells_def stop_event_def)
  next
    case live: False
    obtain r m where st: "step invoke (db_machine d) = (r, m)" by fastforce
    show ?thesis
    proof (cases r)
      case (Inl fault)
      with prems st live nobp step_fault(1) [of invoke "db_machine d" fault m] show ?thesis
        by (auto simp: run_debugger.simps [of invoke budget executed d] run_loop.simps [of invoke budget executed]
            singleStep_quiet stopped_def tells_def stop_event_def)
    next
      case (Inr u)
      let ?d1 = "d\<lparr> db_machine := m, db_started := True \<rparr>"
      have s: "singleStep invoke d = (if halted (cpu m) then stop_event SR_Halted (pc (cpu m)) (''exit code '' @ dec (exit_code (cpu m))) VM_None
          else stop_event SR_StepComplete (pc (cpu m)) [] VM_None, ?d1)"
        using prems(1,2) st Inr by (simp add: singleStep_quiet)
      have loop: "run_loop invoke budget executed (db_machine d) = run_loop invoke budget (executed + 1) m"
        using prems(2) live st Inr by (simp add: run_loop.simps [of invoke budget executed])
      show ?thesis
      proof (cases "halted (cpu m)")
        case True
        with prems s loop live nobp show ?thesis
          by (auto simp: run_debugger.simps [of invoke budget executed d] run_loop.simps [of invoke budget _ m]
              tells_def stop_event_def)
      next
        case False
        with s live nobp have rd: "run_debugger invoke budget executed d = run_debugger invoke budget (executed + 1) ?d1"
          by (auto simp: run_debugger.simps [of invoke budget executed d] stop_event_def)
        have "no_stops ?d1" using prems(1) by (simp add: no_stops_def)
        moreover have "\<not> halted (cpu (db_machine ?d1))" using False by simp
        moreover have "run_debugger invoke budget (executed + 1) ?d1 = (event, d')" using rd prems(3) by simp
        moreover have "run_loop invoke budget (executed + 1) (db_machine ?d1) = (rr, vm')" using loop prems(4) by simp
        ultimately show ?thesis
          using "1.IH" [OF live nobp s [symmetric, unfolded if_not_P [OF False]] refl] by (simp add: stop_event_def)
      qed
    qed
  qed
qed

text \<open>
  C28: with no breakpoint and no watchpoint enabled, \<open>run\<close> in the debugger is the run of the machine:
  the machine ends in the same state, and the event carries the outcome, the program counter, the exit
  code and the message of the run.
\<close>

theorem debugger_run_is_run:
  assumes "loaded (db_machine d)" and "\<not> halted (cpu (db_machine d))" and "no_stops d"
    and "db_run invoke budget d = (event, d')" and "run invoke budget (db_machine d) = (rr, vm')"
  shows "db_machine d' = vm' \<and> ev_error event = rr_error rr \<and> ev_pc event = rr_pc rr \<and>
    (if rr_error rr = VM_None
     then ev_reason event = SR_Halted \<and> ev_message event = ''exit code '' @ dec (rr_exit_code rr)
     else ev_reason event = SR_Fault \<and> (rr_error rr \<noteq> BudgetExhausted \<longrightarrow> ev_message event = fault_text (rr_message rr)))"
proof -
  have "run_debugger invoke budget 0 d = (event, d')" using assms(1,4) by (simp add: db_run_def)
  moreover have "run_loop invoke budget 0 (db_machine d) = (rr, vm')" using assms(1,5) by (simp add: run_def)
  ultimately show ?thesis using run_debugger_run_loop [OF assms(3,2)] unfolding tells_def by blast
qed

lemma demo_session_state:
  "db_machine demo_session = demo_machine" "loaded demo_machine" "\<not> halted (cpu demo_machine)"
  "db_breakpoints demo_session = []" "db_watchpoints demo_session = []" "pc (cpu demo_machine) = 0x400000"
  "\<not> db_started demo_session"
  by (simp_all add: demo_session_def start_debugger_def load_result [OF demo_load] initial_cpu_def demo_image_def)

theorem debugger_run_is_run_witness:
  "db_machine (snd (db_run text_invoke 100 demo_session)) = snd (run text_invoke 100 demo_machine)"
proof -
  obtain event d rr vm where r: "db_run text_invoke 100 demo_session = (event, d)" "run text_invoke 100 demo_machine = (rr, vm)"
    by fastforce
  show ?thesis
    using debugger_run_is_run [of demo_session text_invoke 100 event d rr vm] r
    by (simp add: demo_session_state no_stops_def)
qed

subsection \<open>Stopping at breakpoints\<close>

lemma breakpointAt_same: "db_breakpoints d' = db_breakpoints d \<Longrightarrow> breakpointAt a d' = breakpointAt a d"
  by (simp add: breakpointAt_def)

definition counted :: "Breakpoint \<Rightarrow> Breakpoint list \<Rightarrow> Breakpoint list" where
  "counted hit bs = map (\<lambda>b. if bp_id b = bp_id hit then b\<lparr> bp_hits := bp_hits b + 1 \<rparr> else b) bs"

definition passed :: "(string, 'p) provider \<Rightarrow> 'p Debugger \<Rightarrow> nat \<Rightarrow> bool" where
  "passed invoke d k \<longleftrightarrow> breakpointAt (pc (cpu (after invoke k (db_machine d)))) d = None"

lemma passed_later:
  "db_breakpoints d' = db_breakpoints d \<Longrightarrow> db_machine d' = snd (step invoke (db_machine d)) \<Longrightarrow>
   passed invoke d' k = passed invoke d (Suc k)"
  by (simp add: passed_def breakpointAt_def)

lemma run_debugger_stops:
  assumes "run_debugger invoke budget executed d = (event, d')"
  shows "\<exists>n. n \<le> unat budget - unat executed \<and> db_machine d' = after invoke n (db_machine d) \<and>
    (\<forall>k<n. 0 < k \<or> 0 < executed \<or> \<not> db_started d \<longrightarrow> passed invoke d k) \<and>
    (if ev_reason event = SR_Breakpoint
     then \<exists>hit. breakpointAt (db_pc d') d = Some hit \<and> ev_pc event = db_pc d' \<and> ev_message event = bp_symbol hit \<and>
       db_breakpoints d' = counted hit (db_breakpoints d)
     else db_breakpoints d' = db_breakpoints d)"
  using assms
proof (induction invoke budget executed d rule: run_debugger.induct)
  case (1 invoke budget executed d)
  obtain e1 d1 where s: "singleStep invoke d = (e1, d1)" by fastforce
  note eff = singleStep_effect [OF s]
  define check where "check \<longleftrightarrow> executed > 0 \<or> \<not> db_started d"
  let ?hit = "if check then breakpointAt (db_pc d) d else None"
  have hit: "(if executed > 0 \<or> \<not> db_started d then breakpointAt (db_pc d) d else None) = ?hit" by (simp add: check_def)
  note unfolded = run_debugger.simps [of invoke budget executed d, unfolded hit]
  have first: "passed invoke d 0 \<or> \<not> check" if "?hit = None" using that by (auto simp: passed_def split: if_splits)
  show ?case
  proof (cases "budget \<le> executed")
    case True
    with "1.prems" show ?thesis by (intro exI [of _ 0]) (auto simp: unfolded stop_event_def)
  next
    case live: False
    note le = word_increment_measure [OF live]
    show ?thesis
    proof (cases ?hit)
      case (Some hit)
      with "1.prems" live show ?thesis
        by (intro exI [of _ 0]) (auto simp: unfolded stop_event_def count_hit_def counted_def split: if_splits)
    next
      case None
      show ?thesis
      proof (cases "ev_reason e1 = SR_StepComplete")
        case False
        have "unat executed < unat budget" using live by (simp add: word_le_nat_alt)
        then show ?thesis using "1.prems" live None False s eff singleStep_stop [OF s] first
          by (intro exI [of _ "Suc 0"]) (auto simp: unfolded check_def)
      next
        case True
        with "1.prems" live None s have r: "run_debugger invoke budget (executed + 1) d1 = (event, d')"
          by (simp add: unfolded)
        have pos: "0 < executed + 1" using le(2) by (simp add: word_less_nat_alt)
        from "1.IH" [OF live _ s [symmetric] refl _ r] hit None True obtain n where
          n: "n \<le> unat budget - unat (executed + 1)" "db_machine d' = after invoke n (db_machine d1)"
          "\<forall>k<n. passed invoke d1 k"
          and e: "if ev_reason event = SR_Breakpoint
             then \<exists>hit. breakpointAt (db_pc d') d1 = Some hit \<and> ev_pc event = db_pc d' \<and> ev_message event = bp_symbol hit \<and>
               db_breakpoints d' = counted hit (db_breakpoints d1)
             else db_breakpoints d' = db_breakpoints d1"
          using pos by auto
        have "\<forall>k<Suc n. 0 < k \<or> check \<longrightarrow> passed invoke d k"
          using n(3) first [OF None] passed_later [OF eff(3,1)] by (auto simp: less_Suc_eq_0_disj)
        moreover have "Suc n \<le> unat budget - unat executed" using n(1) le by linarith
        moreover have "db_machine d' = after invoke (Suc n) (db_machine d)" using n(2) eff(1) by simp
        moreover note e [unfolded breakpointAt_same [OF eff(3)] eff(3)]
        ultimately show ?thesis unfolding check_def by blast
      qed
    qed
  qed
qed

text \<open>
  C27: \<open>run\<close> executes no instruction at an enabled breakpoint, except the one it is parked on when it
  continues; when it reports a breakpoint the machine is at an enabled one whose instruction has not
  been executed yet, the event names its symbol, and exactly the hits of that breakpoint are counted.
\<close>

theorem run_stops_at_breakpoints:
  assumes "loaded (db_machine d)" and "db_run invoke budget d = (event, d')"
  shows "\<exists>n \<le> unat budget. db_machine d' = after invoke n (db_machine d) \<and>
    (\<forall>k<n. 0 < k \<or> \<not> db_started d \<longrightarrow> breakpointAt (pc (cpu (after invoke k (db_machine d)))) d = None) \<and>
    (if ev_reason event = SR_Breakpoint
     then \<exists>hit. breakpointAt (db_pc d') d = Some hit \<and> ev_pc event = db_pc d' \<and> ev_message event = bp_symbol hit \<and>
       db_breakpoints d' =
         map (\<lambda>b. if bp_id b = bp_id hit then b\<lparr> bp_hits := bp_hits b + 1 \<rparr> else b) (db_breakpoints d)
     else db_breakpoints d' = db_breakpoints d)"
proof -
  have "run_debugger invoke budget 0 d = (event, d')" using assms by (simp add: db_run_def)
  from run_debugger_stops [OF this] show ?thesis by (auto simp: passed_def counted_def)
qed

theorem run_stops_at_breakpoints_witness:
  "\<exists>n \<le> unat (100 :: u64). db_machine (snd (db_run text_invoke 100 (snd (addBreakpoint 0x400000 demo_session)))) =
     after text_invoke n demo_machine"
proof -
  let ?d = "snd (addBreakpoint 0x400000 demo_session)"
  have "db_machine ?d = demo_machine" by (simp add: addBreakpoint_def Let_def demo_session_state)
  then show ?thesis
    using run_stops_at_breakpoints [of ?d text_invoke 100, OF _ prod.collapse [symmetric]] demo_session_state(2) by metis
qed

text \<open>A watchpoint reports the first change, and only its own record is updated.\<close>

definition unchanged :: "VirtualMemory \<Rightarrow> Watchpoint \<Rightarrow> bool" where
  "unchanged m w \<longleftrightarrow> (wp_enabled w \<longrightarrow> (case readU64 m (wp_address w) of Inl _ \<Rightarrow> True | Inr v \<Rightarrow> v = wp_previous w))"

lemma check_watch_spec:
  assumes "check_watch m at ws = (event, ws')"
  shows "case event of
      None \<Rightarrow> ws' = ws \<and> list_all (unchanged m) ws
    | Some e \<Rightarrow> ev_reason e = SR_Watchpoint \<and> ev_pc e = at \<and> (\<exists>before w others v. ws = before @ w # others \<and> list_all (unchanged m) before \<and>
        wp_enabled w \<and> readU64 m (wp_address w) = Inr v \<and> v \<noteq> wp_previous w \<and>
        ws' = before @ w\<lparr> wp_previous := v \<rparr> # others)"
  using assms
proof (induction ws arbitrary: event ws')
  case (Cons w ws)
  obtain e vs where r: "check_watch m at ws = (e, vs)" by fastforce
  show ?case
  proof (cases "unchanged m w")
    case True
    then have "check_watch m at (w # ws) = (e, w # vs)"
      by (auto simp: unchanged_def r Let_def split: sum.splits)
    with Cons.prems have ew: "event = e" "ws' = w # vs" by simp_all
    show ?thesis
    proof (cases e)
      case None
      with Cons.IH [OF r] True ew show ?thesis by simp
    next
      case (Some x)
      with Cons.IH [OF r] obtain before u others v where x: "ev_reason x = SR_Watchpoint" "ev_pc x = at"
        "ws = before @ u # others" "list_all (unchanged m) before" "wp_enabled u" "readU64 m (wp_address u) = Inr v"
        "v \<noteq> wp_previous u" "vs = before @ u\<lparr> wp_previous := v \<rparr> # others" by auto
      then have "w # ws = (w # before) @ u # others" "list_all (unchanged m) (w # before)"
        "ws' = (w # before) @ u\<lparr> wp_previous := v \<rparr> # others" using True ew by simp_all
      with x(1,2,5-7) show ?thesis unfolding ew(1) Some option.case by blast
    qed
  next
    case False
    then obtain v where v: "wp_enabled w" "readU64 m (wp_address w) = Inr v" "v \<noteq> wp_previous w"
      by (auto simp: unchanged_def split: sum.splits)
    with Cons.prems obtain x where x: "event = Some x" "ev_reason x = SR_Watchpoint" "ev_pc x = at"
      and ws': "ws' = [] @ w\<lparr> wp_previous := v \<rparr> # ws" by (auto simp: Let_def stop_event_def)
    moreover have "w # ws = [] @ w # ws" "list_all (unchanged m) []" by simp_all
    ultimately show ?thesis using v unfolding x(1) option.case by blast
  qed
qed simp

end
