(* ===== verification/Debugger_Views.thy ===== *)
theory Debugger_Views
  imports Debugger_Safety
begin

text \<open>
  The commands of the debugger.  Addresses print and parse back; every command returns and is at most
  one operation of the debugger, so the lines a user types are a session; what \<open>next\<close> and \<open>finish\<close>
  report, and what a watchpoint stop means.
\<close>

subsection \<open>Addresses are read back\<close>

lemma hex_digit_reads: "d < 16 \<Longrightarrow> digit_value (hex_digit d) = d \<and> isDigitOfBase 16 (hex_digit d)"
  by (auto simp: hex_digit_def digit_value_def isDigitOfBase_def lowercase_def isDigit_def char_code_def Let_def)

lemma hex_digits_value:
  "foldl (\<lambda>value c. value * 16 + int (digit_value c)) 0 (hex_digits n acc) =
   foldl (\<lambda>value c. value * 16 + int (digit_value c)) (int n) acc"
proof (induction n acc rule: hex_digits.induct)
  case (1 n acc)
  have d: "digit_value (hex_digit (n mod 16)) = n mod 16" using hex_digit_reads by simp
  show ?case
  proof (cases "n < 16")
    case True
    then show ?thesis using d by (simp add: hex_digits.simps [of n])
  next
    case False
    have "int (n div 16) * 16 + int (n mod 16) = int n" by presburger
    with 1 False d show ?thesis by (simp add: hex_digits.simps [of n])
  qed
qed

lemma hex_digits_base: "list_all (isDigitOfBase 16) acc \<Longrightarrow>
  list_all (isDigitOfBase 16) (hex_digits n acc) \<and> hex_digits n acc \<noteq> []"
proof (induction n acc rule: hex_digits.induct)
  case (1 n acc)
  then show ?case using hex_digit_reads [of "n mod 16"] by (cases "n < 16") (simp_all add: hex_digits.simps [of n])
qed

lemma hex16_reads: "list_all (isDigitOfBase 16) (hex16 v) \<and> hex16 v \<noteq> [] \<and> digits_value 16 (hex16 v) = uint v"
proof -
  have zeros: "foldl (\<lambda>value c. value * 16 + int (digit_value c)) 0 (replicate n (CHR ''0'') @ s) =
      foldl (\<lambda>value c. value * 16 + int (digit_value c)) 0 s" for n s
  proof (induction n)
    case (Suc n)
    have "digit_value (CHR ''0'') = 0" by code_simp
    with Suc show ?case by simp
  qed simp
  have "isDigitOfBase 16 (CHR ''0'')" by code_simp
  then have "list_all (isDigitOfBase 16) (hex16 v)" "hex16 v \<noteq> []"
    using hex_digits_base [of "[]" "unat v"] by (auto simp: hex16_def hex_def pad_left_def list_all_iff)
  moreover have "foldl (\<lambda>value c. value * 16 + int (digit_value c)) 0 (hex16 v) = int (unat v)"
    unfolding hex16_def hex_def pad_left_def zeros hex_digits_value foldl_Nil ..
  then have "digits_value 16 (hex16 v) = uint v"
    unfolding digits_value_def of_nat_numeral by (simp only: uint_nat)
  ultimately show ?thesis by simp
qed

text \<open>
  An address the debugger prints, \<open>0x\<close> and sixteen hexadecimal digits, is read back by every
  command that takes an address as the same address, whatever the symbols of the image are called.
\<close>

theorem printed_address_is_read_back: "parseAddress (''0x'' @ hex16 v) executable = Some v"
proof -
  note r = hex16_reads [of v]
  have t: "takeWhile (isDigitOfBase 16) (hex16 v) = hex16 v"
    using r by (simp add: takeWhile_eq_all_conv list_all_iff)
  have "uint v < 2 ^ 64" using uint_lt2p [of v] by simp
  then have "from_chars 16 (2 ^ 64) (hex16 v) = Some (uint v, [])"
    using r by (simp add: from_chars_def t Let_def)
  then show ?thesis by (simp add: parseAddress_def has_hex_prefix_def Let_def)
qed

subsection \<open>Every command returns\<close>

lemma memory_lines_return:
  assumes "unat len \<le> 2 ^ 64 - 16"
  shows "\<exists>s. memory_lines m address len offset out = Some s"
proof (induction "unat len - unat offset" arbitrary: offset out rule: less_induct)
  case less
  show ?case
  proof (cases "offset < len")
    case True
    then have lt: "unat offset < unat len" by (simp add: word_less_nat_alt)
    then have "unat (offset + 16) = unat offset + 16"
      using assms by (subst unat_add_lem [THEN iffD1]) simp_all
    with less lt obtain s where "memory_lines m address len (offset + 16) (out @ memory_line m address len offset) = Some s"
      by fastforce
    with True show ?thesis by (simp add: memory_lines.simps [of m address len offset])
  qed (simp add: memory_lines.simps)
qed

lemma backtrace_lines_return:
  assumes "unat (stack_top (db_machine d)) \<le> 2 ^ 64 - 8"
  shows "\<exists>s. backtrace_lines d max_frames address frame out = Some s"
proof (induction "unat (stack_top (db_machine d)) - unat address" arbitrary: address frame out rule: less_induct)
  case less
  show ?case
  proof (cases "address < stack_top (db_machine d) \<and> frame < max_frames")
    case True
    then have lt: "unat address < unat (stack_top (db_machine d))" by (simp add: word_less_nat_alt)
    then have "unat (address + 8) = unat address + 8"
      using assms by (subst unat_add_lem [THEN iffD1]) simp_all
    with lt have "unat (stack_top (db_machine d)) - unat (address + 8) < unat (stack_top (db_machine d)) - unat address"
      by linarith
    from less [OF this] True show ?thesis
      by (auto simp: backtrace_lines.simps [of d max_frames address] split: sum.split)
  next
    case False
    then show ?thesis by (subst backtrace_lines.simps) (simp only: if_False, blast)
  qed
qed

lemma cmd_change_op: "snd (cmd_change command text d) = d \<or> db_op invoke d (snd (cmd_change command text d))"
proof (cases "from_chars 10 (2 ^ 32) text")
  case (Some p)
  obtain v rest where p: "p = (v, rest)" by fastforce
  have no_b: "snd (removeBreakpoint i d) = d" if "\<not> fst (removeBreakpoint i d)" for i
    using that by (simp add: removeBreakpoint_def split: if_splits)
  have "snd (cmd_change command text d) \<in> {snd (removeBreakpoint (of_int v) d), snd (removeWatchpoint (of_int v) d),
      snd (setBreakpointEnabled (of_int v) (command = ''enable'') d)}"
    using Some p no_b [of "of_int v"]
    by (cases "removeBreakpoint (of_int v) d") (auto simp: cmd_change_def split: prod.split bool.split)
  then show ?thesis using remove_breakpoint remove_watchpoint set_enabled by (metis empty_iff insert_iff)
qed (simp add: cmd_change_def)

lemma cmd_break_op: "snd (cmd_break text d) = d \<or> db_op invoke d (snd (cmd_break text d))"
  by (cases "parseAddress text (db_executable d)") (auto simp: cmd_break_def case_prod_beta intro: add_breakpoint)

lemma cmd_watch_op: "snd (cmd_watch text d) = d \<or> db_op invoke d (snd (cmd_watch text d))"
proof (cases "parseAddress text (db_executable d)")
  case (Some address)
  then have "snd (cmd_watch text d) = snd (addWatchpoint address d)"
    by (auto simp: cmd_watch_def split: prod.split option.split)
  then show ?thesis by (simp add: add_watchpoint)
qed (simp add: cmd_watch_def)

lemma stop_line_snd [simp]: "snd (stop_line p) = snd p"
  by (simp add: stop_line_def)

lemma cmd_step_snd [simp]: "snd (cmd_step invoke d) = snd (db_step invoke d)"
  by (simp add: cmd_step_def case_prod_beta)

lemma command_outcome:
  assumes "unat (stack_top (db_machine d)) \<le> 2 ^ 64 - 8"
  shows "\<exists>go_on out d'. executeCommand invoke line d = Some (go_on, out, d') \<and> (d' = d \<or> db_op invoke d d')"
proof -
  define returns where "returns r \<longleftrightarrow> (\<exists>go_on out d'. r = Some (go_on, out, d') \<and> (d' = d \<or> db_op invoke d d'))"
    for r :: "(bool \<times> string \<times> 'a Debugger) option"
  have one: "returns (Some (g, p))" if "snd p = d \<or> db_op invoke d (snd p)" for g p
    using that by (cases p) (auto simp: returns_def)
  have view: "returns (map_option (\<lambda>out. (True, out, d)) r)" if "\<exists>s. r = Some s" for r
    using that by (auto simp: returns_def)
  have mem: "\<exists>s. cmd_memory words arg d = Some s" for words arg
  proof -
    have "unat (min (count_argument words 64) 4096) \<le> 4096"
      using word_le_nat_alt [of "min (count_argument words 64) 4096" 4096] by simp
    then show ?thesis by (auto simp: cmd_memory_def formatMemory_def split: option.split intro!: memory_lines_return)
  qed
  have bt: "\<exists>s. formatBacktrace 32 d = Some s"
    unfolding formatBacktrace_def by (rule backtrace_lines_return [OF assms])
  have "returns (executeCommand invoke line d)"
    unfolding executeCommand_def Let_def
    by (simp only: if_split) (intro conjI impI one view mem bt; simp add: running stepping stepping_over finishing cmd_break_op
        cmd_watch_op cmd_change_op)
  then show ?thesis by (simp add: returns_def)
qed

text \<open>What the user types is a session.\<close>

lemma stack_top_after:
  assumes "vm_ok vm" and "stack_top vm = kStackTop"
  shows "unat (stack_top (after text_invoke n vm)) \<le> 2 ^ 64 - 8"
  using after_keeps [OF assms(1), of n] assms(2) by (simp add: vm_frame_def layout_numbers)

lemma command_loop_session:
  assumes "session text_invoke n d0 d" and "vm_ok (db_machine d0)" and "stack_top (db_machine d0) = kStackTop"
  shows "\<exists>out d' m. command_loop text_invoke lines d = Some (out, d') \<and> session text_invoke m d0 d' \<and> m \<le> n + length lines"
  using assms(1)
proof (induction lines arbitrary: n d)
  case (Cons line lines)
  obtain k where k: "db_machine d = after text_invoke k (db_machine d0)" using session_machine [OF Cons.prems] by blast
  obtain go_on out d' where c: "executeCommand text_invoke line d = Some (go_on, out, d')"
    and op: "d' = d \<or> db_op text_invoke d d'"
    using command_outcome [OF stack_top_after [OF assms(2,3), of k, folded k]] by blast
  obtain m where m: "session text_invoke m d0 d'" "m \<le> Suc n"
    using op Cons.prems session_more by (metis le_SucI order_refl)
  show ?case
  proof (cases go_on)
    case True
    obtain others e j where "command_loop text_invoke lines d' = Some (others, e)" "session text_invoke j d0 e" "j \<le> m + length lines"
      using Cons.IH [OF m(1)] by blast
    with True c m(2) show ?thesis by auto
  qed (use c m in auto)
qed auto

text \<open>
  C26: whatever lines are typed, the command interpreter returns on a loaded machine: no view loops at
  the end of the address space and no command waits for the program beyond its budget.  Every
  line is at most one operation, so everything that holds of sessions holds of what was typed.
\<close>

theorem interactive_session_returns:
  assumes "load executable vm0 = (Inr (), vm)"
  shows "\<exists>out d n. interactiveLoop text_invoke lines (start_debugger vm executable) = Some (out, d) \<and>
    session text_invoke n (start_debugger vm executable) d \<and> n \<le> length lines"
proof -
  have "vm_ok (db_machine (start_debugger vm executable))" "stack_top (db_machine (start_debugger vm executable)) = kStackTop"
    using load_establishes [OF assms] load_result(6) [OF assms] by (simp_all add: start_debugger_def)
  from command_loop_session [OF session_start this, of lines] obtain out d m where
    "command_loop text_invoke lines (start_debugger vm executable) = Some (out, d)"
    "session text_invoke m (start_debugger vm executable) d" "m \<le> length lines" by auto
  then show ?thesis by (auto simp: interactiveLoop_def)
qed

theorem interactive_session_returns_witness:
  "\<exists>out d n. interactiveLoop text_invoke [''b 0x400008'', ''run'', ''x 0xFFFFFFFFFFFFFFFF 9999'', ''bt''] (start_debugger demo_machine demo_image) =
     Some (out, d) \<and> session text_invoke n (start_debugger demo_machine demo_image) d \<and> n \<le> 4"
  using interactive_session_returns [OF demo_load, of "[''b 0x400008'', ''run'', ''x 0xFFFFFFFFFFFFFFFF 9999'', ''bt'']"] by (simp add: eval_nat_numeral)

subsection \<open>Watchpoints\<close>

text \<open>
  After a step that succeeded the debugger reports a watchpoint exactly when a watched word
  that can be read differs from its recorded value: it is the first such watchpoint, its record
  becomes the new value and no other record changes.
\<close>

theorem watchpoints_report_changes:
  assumes "singleStep invoke d = (event, d')" and "\<not> halted (cpu (db_machine d))" and "step invoke (db_machine d) = (Inr (), m)"
  shows "if ev_reason event = SR_Watchpoint
    then ev_pc event = pc (cpu m) \<and>
      (\<exists>before w others v. db_watchpoints d = before @ w # others \<and> list_all (unchanged (memory m)) before \<and>
         wp_enabled w \<and> readU64 (memory m) (wp_address w) = Inr v \<and> v \<noteq> wp_previous w \<and>
         db_watchpoints d' = before @ w\<lparr> wp_previous := v \<rparr> # others)
    else list_all (unchanged (memory m)) (db_watchpoints d) \<and> db_watchpoints d' = db_watchpoints d"
proof -
  obtain e ws where c: "check_watch (memory m) (pc (cpu m)) (db_watchpoints d) = (e, ws)" by fastforce
  note spec = check_watch_spec [OF c]
  show ?thesis
  proof (cases e)
    case None
    with assms c have "ev_reason event \<noteq> SR_Watchpoint" "db_watchpoints d' = ws"
      by (auto simp: singleStep_def checkWatchpoints_def stop_event_def Let_def split: if_splits)
    with spec None show ?thesis by simp
  next
    case (Some x)
    with assms c have "event = x" "db_watchpoints d' = ws" by (auto simp: singleStep_def checkWatchpoints_def Let_def)
    with spec Some show ?thesis by auto
  qed
qed

lemma demo_text_step:
  "step text_invoke demo_machine = (Inr (), set_register 1 5 (advance (mk_instr OP_MOVI 1 0 5) demo_machine))"
proof -
  have "regs_valid (mk_instr OP_MOVI 1 0 5)"
    by (simp add: regs_valid_def mk_instr_def registerIndex_def kRegisterCount_def)
  then show ?thesis
    using execute_simps(5) [of "mk_instr OP_MOVI 1 0 5" text_invoke "0x400000"] demo_session_state
    by (simp add: step_def demo_fetch demo_decode kInstructionSize_def Let_def) (simp add: mk_instr_def registerIndex_def)
qed

theorem watchpoints_report_changes_witness:
  "let (event, d') = singleStep text_invoke (snd (addWatchpoint 0x400000 demo_session)) in
   ev_reason event \<noteq> SR_Watchpoint \<longrightarrow> db_watchpoints d' = db_watchpoints (snd (addWatchpoint 0x400000 demo_session))"
proof -
  let ?d = "snd (addWatchpoint 0x400000 demo_session)"
  have "db_machine ?d = demo_machine" by (simp add: addWatchpoint_def demo_session_state split: sum.split)
  with watchpoints_report_changes [of text_invoke ?d, OF prod.collapse [symmetric]] demo_text_step demo_session_state(3)
  show ?thesis by (simp add: case_prod_beta Let_def)
qed

subsection \<open>Stepping over a call\<close>

definition is_back :: "(string, 'p) provider \<Rightarrow> u64 \<Rightarrow> u64 \<Rightarrow> 'p VM \<Rightarrow> nat \<Rightarrow> bool" where
  "is_back invoke resume depth vm k \<longleftrightarrow> (let c = cpu (after invoke k vm) in pc c = resume \<and> sp c \<ge> depth)"

lemma is_back_later: "is_back invoke resume depth (snd (step invoke vm)) k = is_back invoke resume depth vm (Suc k)"
  by (simp add: is_back_def)

lemma step_over_loop_outcome:
  assumes "step_over_loop invoke resume depth budget executed d = (event, d')"
  shows "\<exists>n. n \<le> unat budget - unat executed \<and> db_machine d' = after invoke n (db_machine d) \<and>
    (\<forall>k. 0 < k \<and> k < n \<longrightarrow> \<not> is_back invoke resume depth (db_machine d) k \<and> passed invoke d k) \<and>
    (ev_reason event = SR_StepComplete \<longrightarrow> 0 < n \<and> is_back invoke resume depth (db_machine d) n) \<and>
    (ev_reason event = SR_Breakpoint \<longrightarrow> 0 < n \<and> \<not> passed invoke d n) \<and>
    db_breakpoints d' = db_breakpoints d"
  using assms
proof (induction invoke resume depth budget executed d rule: step_over_loop.induct)
  case (1 invoke resume depth budget executed d)
  obtain e1 d1 where s: "singleStep invoke d = (e1, d1)" by fastforce
  note eff = singleStep_effect [OF s]
  note unfolded = step_over_loop.simps [of invoke resume depth budget executed d]
  have one: "db_machine d1 = after invoke (Suc 0) (db_machine d)" using eff(1) by simp
  have here: "(db_pc d1 = resume \<and> depth \<le> db_sp d1) = is_back invoke resume depth (db_machine d) (Suc 0)"
    "(breakpointAt (db_pc d1) d1 = None) = passed invoke d (Suc 0)"
    using breakpointAt_same [OF eff(3)] by (simp_all add: is_back_def one passed_def Let_def)
  show ?case
  proof (cases "budget \<le> executed")
    case True
    with "1.prems" show ?thesis by (intro exI [of _ 0]) (auto simp: unfolded stop_event_def)
  next
    case live: False
    note le = word_increment_measure [OF live]
    have lt: "unat executed < unat budget" using live by (simp add: word_le_nat_alt)
    show ?thesis
    proof (cases "ev_reason e1 = SR_StepComplete \<and> \<not> is_back invoke resume depth (db_machine d) (Suc 0) \<and>
        passed invoke d (Suc 0)")
      case False
      then show ?thesis using "1.prems" live s lt one eff(3) here singleStep_stop [OF s]
        by (intro exI [of _ "Suc 0"]) (auto simp: unfolded stop_event_def split: if_splits option.splits)
    next
      case True
      then have cont: "ev_reason e1 = SR_StepComplete" "\<not> (db_pc d1 = resume \<and> depth \<le> db_sp d1)"
        "breakpointAt (db_pc d1) d1 = None" using here by blast+
      with "1.prems" live s have r: "step_over_loop invoke resume depth budget (executed + 1) d1 = (event, d')"
        by (simp add: unfolded)
      from "1.IH" [OF live s [symmetric] refl _ _ cont(3) r] cont obtain n where
        n: "n \<le> unat budget - unat (executed + 1)" "db_machine d' = after invoke n (db_machine d1)"
          "\<forall>k. 0 < k \<and> k < n \<longrightarrow> \<not> is_back invoke resume depth (db_machine d1) k \<and> passed invoke d1 k"
          "ev_reason event = SR_StepComplete \<longrightarrow> 0 < n \<and> is_back invoke resume depth (db_machine d1) n"
          "ev_reason event = SR_Breakpoint \<longrightarrow> 0 < n \<and> \<not> passed invoke d1 n"
          "db_breakpoints d' = db_breakpoints d1"
        by auto
      note later = is_back_later [of invoke resume depth "db_machine d", folded eff(1)] passed_later [OF eff(3,1)]
      have "\<not> is_back invoke resume depth (db_machine d) k \<and> passed invoke d k" if "0 < k" "k < Suc n" for k
      proof (cases "k = 1")
        case False
        with that obtain j where "k = Suc j" "0 < j" "j < n" by (cases k) auto
        with n(3) later show ?thesis by auto
      qed (use True in simp)
      moreover have "Suc n \<le> unat budget - unat executed" using n(1) le lt by linarith
      moreover have "db_machine d' = after invoke (Suc n) (db_machine d)" using n(2) eff(1) by simp
      ultimately show ?thesis using n(4-6) eff(3) later by (intro exI [of _ "Suc n"]) auto
    qed
  qed
qed


definition call_code :: "u8 list" where
  "call_code = le_bytes 8 0x5700000000000008 @ le_bytes 8 0x0100000000000000 @ le_bytes 8 0x5800000000000000"

definition call_image :: Executable where
  "call_image = demo_image\<lparr> ex_segments := [demo_text\<lparr> sg_data := call_code \<rparr>] \<rparr>"

definition call_machine :: "DefaultProvider VM" where
  "call_machine = snd (load call_image (new_machine quiet_provider))"

lemma call_load: "load call_image (new_machine quiet_provider) = (Inr (), call_machine)"
proof -
  have "executable_ok call_image"
    by (simp add: executable_ok_def call_image_def demo_image_def demo_text_def kExeVersion_def segment_ok_def
      segment_end_def hasFlag_def segment_flag_consts call_code_def)
  then have "\<exists>vm'. load call_image (new_machine quiet_provider) = (Inr (), vm')"
    unfolding load_spec by (simp add: clear_of_def call_image_def demo_image_def demo_text_def segment_end_def)
  then show ?thesis by (auto simp: call_machine_def)
qed

lemma call_fetch: "fetchInstruction (memory call_machine) 0x400000 = Inr 0x5700000000000008"
proof -
  note r = load_result [OF call_load]
  have reg: "regionAt (memory call_machine) 0x400000 = Some 0"
    by (simp add: regionAt_def r(3) call_image_def demo_image_def demo_text_def region_has_def)
  have "region_bytes (segment_region (demo_text\<lparr> sg_data := call_code \<rparr>)) 0 8 = le_bytes 8 0x5700000000000008"
    by (rule nth_equalityI)
      (simp_all add: segment_region_def new_region_def demo_text_def call_code_def nth_append)
  then show ?thesis
    using reg by (simp add: fetchInstruction_def checkAccess_def r(3) call_image_def demo_image_def)
     (simp add: demo_text_def hasPermission_def permissionsOf_def hasFlag_def segment_flag_consts perm_consts)
qed


subsection \<open>Finishing a function\<close>

lemma singleStep_any_breakpoints:
  "singleStep invoke (d\<lparr> db_breakpoints := bs \<rparr>) = apsnd (db_breakpoints_update (\<lambda>_. bs)) (singleStep invoke d)"
  by (auto simp: singleStep_def checkWatchpoints_def Let_def split: prod.split sum.split option.split)

lemma finish_loop_any_breakpoints:
  "finish_loop invoke depth budget executed (d\<lparr> db_breakpoints := bs \<rparr>) =
   apsnd (db_breakpoints_update (\<lambda>_. bs)) (finish_loop invoke depth budget executed d)"
proof (induction invoke depth budget executed d rule: finish_loop.induct)
  case (1 invoke depth budget executed d)
  obtain e1 d1 where s: "singleStep invoke d = (e1, d1)" by fastforce
  note next_step = singleStep_any_breakpoints [where invoke = invoke and d = d and bs = bs, unfolded s apsnd_conv]
  show ?case using 1 s next_step
    by (simp add: finish_loop.simps [of invoke depth budget executed])
qed

text \<open>
  \<open>finish\<close> does not look at breakpoints: with any list of breakpoints in place of the present one it
  reports the same event and leaves the same machine.
\<close>

theorem finish_ignores_breakpoints:
  "db_finish invoke budget (d\<lparr> db_breakpoints := bs \<rparr>) =
   (fst (db_finish invoke budget d), (snd (db_finish invoke budget d))\<lparr> db_breakpoints := bs \<rparr>)"
  by (cases "finish_loop invoke (db_sp d) budget 0 d") (simp add: db_finish_def finish_loop_any_breakpoints)

text \<open>
  A breakpoint at the address where a watchpoint stopped the program is passed by \<open>continue\<close> without
  a report and without a hit.
\<close>

lemma parked_breakpoint_is_passed:
  assumes "db_started d" and "budget \<noteq> 0" and "singleStep invoke d = (event, d')" and "ev_reason event \<noteq> SR_StepComplete"
  shows "run_debugger invoke budget 0 d = (event, d')"
  using assms by (simp add: run_debugger.simps [of invoke budget 0 d])

end
