(* ===== verification/Disassembler_Safety.thy ===== *)
theory Disassembler_Safety
  imports Disassembler Machine_Safety Instruction_Text
begin

text \<open>
  What a disassembly shows: every whole word of the code once and in order, for a loaded image the
  very words the machine fetches, and for an instruction that is no branch a text that is assembled
  to the same word.
\<close>

subsection \<open>The lines\<close>

definition code_word :: "u8 list \<Rightarrow> nat \<Rightarrow> u64" where
  "code_word bytes k = load_le kInstructionSize (take kInstructionSize (drop (kInstructionSize * k) bytes))"

definition line_of :: "Options \<Rightarrow> u8 list \<Rightarrow> u64 \<Rightarrow> Executable option \<Rightarrow> nat \<Rightarrow> string" where
  "line_of options bytes base executable k =
     (let address = base + of_nat (kInstructionSize * k)
      in label_lines options address executable @ word_line options address (code_word bytes k) executable)"

lemma disassemble_words_lines:
  "disassemble_words options bytes base executable (kInstructionSize * j) =
   concat (map (line_of options bytes base executable) [j..<length bytes div kInstructionSize])"
proof (induction "length bytes div kInstructionSize - j" arbitrary: j)
  case 0
  then have "\<not> kInstructionSize * j + kInstructionSize \<le> length bytes" by (simp add: kInstructionSize_def)
  with 0 show ?case by (simp add: disassemble_words.simps)
next
  case (Suc n)
  then have lt: "j < length bytes div kInstructionSize" by linarith
  then have whole: "kInstructionSize * j + kInstructionSize \<le> length bytes" by (simp add: kInstructionSize_def)
  have step: "kInstructionSize * j + kInstructionSize = kInstructionSize * Suc j" by simp
  have "disassemble_words options bytes base executable (kInstructionSize * Suc j) =
      concat (map (line_of options bytes base executable) [Suc j..<length bytes div kInstructionSize])"
    using Suc(2) by (intro Suc(1)) linarith
  with whole show ?case
    by (subst disassemble_words.simps, simp only: if_True step)
      (simp add: upt_conv_Cons [OF lt] line_of_def code_word_def Let_def)
qed

text \<open>
  A disassembly shows every whole 8-byte word of the code exactly once, in the order of the
  addresses, and names the bytes left over behind the last word with their address and number.
\<close>

theorem disassembly_covers_code:
  "disassemble options bytes base executable =
     concat (map (\<lambda>k. let address = base + of_nat (8 * k); word = load_le 8 (take 8 (drop (8 * k) bytes))
       in label_lines options address executable @ word_line options address word executable) [0..<length bytes div 8]) @
     (if length bytes mod 8 = 0 then []
      else hex16 (base + of_nat (8 * (length bytes div 8))) @ '':  ; '' @ nat_str (length bytes mod 8) @
           '' trailing byte(s) do not form an instruction'' @ [newline])"
proof -
  have "length bytes = 8 * (length bytes div 8) + length bytes mod 8" by simp
  then have "(of_nat (length bytes) :: u64) - of_nat (length bytes mod 8) = of_nat (8 * (length bytes div 8))"
    by (metis add_diff_cancel_right' of_nat_add)
  then have tail: "base + of_nat (length bytes) - of_nat (length bytes mod 8) = base + of_nat (8 * (length bytes div 8))"
    by (simp add: add_diff_eq [symmetric])
  have "disassemble_words options bytes base executable 0 =
      concat (map (line_of options bytes base executable) [0..<length bytes div 8])"
    using disassemble_words_lines [of options bytes base executable 0] by (simp add: kInstructionSize_def)
  moreover have "line_of options bytes base executable = (\<lambda>k. let address = base + of_nat (8 * k);
      word = load_le 8 (take 8 (drop (8 * k) bytes))
      in label_lines options address executable @ word_line options address word executable)"
    by (rule ext) (simp add: line_of_def code_word_def kInstructionSize_def Let_def)
  ultimately show ?thesis unfolding disassemble_def kInstructionSize_def Let_def tail by simp
qed

subsection \<open>The words of a loaded image\<close>

lemma exec_permission: "hasFlag f SF_Exec \<Longrightarrow> hasPermission (permissionsOf f) Perm_Exec"
  by (simp add: permissionsOf_def hasPermission_def perm_consts hasFlag_def segment_flag_consts Let_def)

lemma loaded_word:
  assumes "load e vm = (Inr (), vm')" and "s \<in> set (ex_segments e)" and "hasFlag (sg_flags s) SF_Exec"
    and "kInstructionSize * k + kInstructionSize \<le> length (sg_data s)"
  shows "fetchInstruction (memory vm') (sg_virtual_address s + of_nat (kInstructionSize * k)) = Inr (code_word (sg_data s) k)"
proof -
  note r = load_result [OF assms(1)]
  let ?off = "kInstructionSize * k"
  let ?a = "sg_virtual_address s + of_nat ?off"
  have ok: "segment_ok s" using r(1) assms(2) by (simp add: executable_ok_def)
  then have sz: "?off + 8 \<le> unat (sg_virtual_size s)" and fits: "segment_end s < 2 ^ 64"
    using assms(4) by (simp_all add: segment_ok_def kInstructionSize_def)
  have a: "unat ?a = unat (sg_virtual_address s) + ?off"
    using fits sz by (subst unat_add_no_wrap) (simp_all add: segment_end_def unat_of_nat_u64 del: of_nat_mult)
  obtain i where i: "i < length (ex_segments e)" "ex_segments e ! i = s"
    using assms(2) by (metis in_set_conv_nth)
  then have ri: "regions (memory vm') ! i = segment_region s" "i < length (regions (memory vm'))"
    by (simp_all add: r(3) nth_append)
  have at: "regionAt (memory vm') ?a = Some i"
    using sz a ri by (intro regionAt_in_access r(2)) (simp_all add: segment_end_def)
  have small: "unat (of_nat ?off :: u64) = ?off"
    using sz unat_u64_less [of "sg_virtual_size s"] by (simp add: unat_of_nat_u64 del: of_nat_mult)
  then have "\<not> 8 > sg_virtual_size s - of_nat ?off"
    using sz by (simp add: word_less_nat_alt unat_sub_le word_le_nat_alt)
  then have acc: "checkAccess (memory vm') ?a 8 Perm_Exec = Inr i"
    using at ri exec_permission [OF assms(3)] by (simp add: checkAccess_def)
  have "region_bytes (segment_region s) ?off 8 = take kInstructionSize (drop ?off (sg_data s))"
    using assms(4) sz by (intro nth_equalityI)
      (simp_all add: segment_region_def new_region_def kInstructionSize_def)
  then show ?thesis using acc ri small by (simp add: fetchInstruction_def code_word_def kInstructionSize_def)
qed

lemma disassemble_has_line:
  assumes "k < length bytes div kInstructionSize"
  shows "\<exists>pre post. disassemble options bytes base executable = pre @ line_of options bytes base executable k @ post"
proof -
  let ?n = "length bytes div kInstructionSize"
  have "[0..<?n] = [0..<k] @ k # [Suc k..<?n]" using assms by (metis less_imp_add_positive upt_add_eq_append upt_conv_Cons zero_le less_or_eq_imp_le)
  then have "disassemble_words options bytes base executable (kInstructionSize * 0) =
      concat (map (line_of options bytes base executable) [0..<k]) @ line_of options bytes base executable k @
      concat (map (line_of options bytes base executable) [Suc k..<?n])"
    unfolding disassemble_words_lines by simp
  then show ?thesis unfolding disassemble_def Let_def by (simp, metis append_assoc)
qed

lemma disassemble_image_has:
  assumes "s \<in> set (ex_segments e)" and "hasFlag (sg_flags s) SF_Exec"
  shows "\<exists>pre post. disassemble_image options e =
    pre @ disassemble options (sg_data s) (sg_virtual_address s) (Some e) @ post"
proof -
  obtain before others where s: "ex_segments e = before @ s # others" using assms(1) by (meson split_list)
  define shown where "shown = (\<lambda>segment :: Segment. if \<not> hasFlag (sg_flags segment) SF_Exec then []
            else ''segment '' @ sg_name segment @ '' at 0x'' @ hex (sg_virtual_address segment) @ '' ('' @
                 dec (sg_virtual_size segment) @ '' bytes, '' @ flagsToString (sg_flags segment) @ '')'' @ [newline] @
                 disassemble options (sg_data segment) (sg_virtual_address segment) (Some e))"
  have "concat (map shown (ex_segments e)) \<noteq> []" using s assms(2) by (simp add: shown_def)
  moreover have "disassemble_image options e = (let out = concat (map shown (ex_segments e))
      in if out = [] then ''this executable contains no executable segments'' @ [newline] else out)"
    by (simp only: disassemble_image_def shown_def)
  ultimately have "disassemble_image options e = concat (map shown (ex_segments e))" by (simp only: Let_def if_False)
  also have "\<dots> = concat (map shown before) @ shown s @ concat (map shown others)" by (simp add: s)
  finally have all: "disassemble_image options e = concat (map shown before) @ shown s @ concat (map shown others)" .
  obtain pre where "shown s = pre @ disassemble options (sg_data s) (sg_virtual_address s) (Some e)"
    using assms(2) by (simp add: shown_def)
  with all have "disassemble_image options e = (concat (map shown before) @ pre) @
      disassemble options (sg_data s) (sg_virtual_address s) (Some e) @ concat (map shown others)" by simp
  then show ?thesis by blast
qed

text \<open>
  C30: the disassembly of an image shows what the machine runs: for every whole word of an executable
  segment of a loaded image it has the line of that address with the word the machine fetches there.
\<close>

theorem disassembly_shows_what_runs:
  assumes "load e vm = (Inr (), vm')" and "s \<in> set (ex_segments e)" and "hasFlag (sg_flags s) SF_Exec"
    and "8 * k + 8 \<le> length (sg_data s)"
  shows "\<exists>word pre post. fetchInstruction (memory vm') (sg_virtual_address s + of_nat (8 * k)) = Inr word \<and>
    disassemble_image options e = pre @ word_line options (sg_virtual_address s + of_nat (8 * k)) word (Some e) @ post"
proof -
  have k: "k < length (sg_data s) div kInstructionSize" using assms(4) by (simp add: kInstructionSize_def)
  obtain p1 q1 where "disassemble_image options e = p1 @ disassemble options (sg_data s) (sg_virtual_address s) (Some e) @ q1"
    using disassemble_image_has [OF assms(2,3)] by blast
  moreover obtain p2 q2 where "disassemble options (sg_data s) (sg_virtual_address s) (Some e) =
      p2 @ line_of options (sg_data s) (sg_virtual_address s) (Some e) k @ q2"
    using disassemble_has_line [OF k] by blast
  moreover obtain p3 where "line_of options (sg_data s) (sg_virtual_address s) (Some e) k =
      p3 @ word_line options (sg_virtual_address s + of_nat (8 * k)) (code_word (sg_data s) k) (Some e)"
    by (simp add: line_of_def kInstructionSize_def Let_def)
  ultimately have "disassemble_image options e =
      (p1 @ p2 @ p3) @ word_line options (sg_virtual_address s + of_nat (8 * k)) (code_word (sg_data s) k) (Some e) @ (q2 @ q1)"
    by simp
  moreover have "fetchInstruction (memory vm') (sg_virtual_address s + of_nat (8 * k)) = Inr (code_word (sg_data s) k)"
    using loaded_word [OF assms(1-3), of k] assms(4) by (simp add: kInstructionSize_def)
  ultimately show ?thesis by blast
qed

theorem disassembly_shows_what_runs_witness:
  "\<exists>word pre post. fetchInstruction (memory demo_machine) (0x400000 + of_nat (8 * 1)) = Inr word \<and>
     disassemble_image Disassembler.default_options demo_image =
       pre @ word_line Disassembler.default_options (0x400000 + of_nat (8 * 1)) word (Some demo_image) @ post"
proof -
  have "demo_text \<in> set (ex_segments demo_image)" "hasFlag (sg_flags demo_text) SF_Exec" "8 * 1 + 8 \<le> length (sg_data demo_text)"
    "sg_virtual_address demo_text = 0x400000"
    by (simp_all add: demo_image_def) (simp_all add: demo_text_def hasFlag_def segment_flag_consts demo_code_def)
  with disassembly_shows_what_runs [OF demo_load, of demo_text 1 Disassembler.default_options] show ?thesis by metis
qed

subsection \<open>The text of an instruction\<close>

text \<open>
  C31: what the disassembler shows for a word that decodes to an instruction other than a branch is
  assembly for that word: behind the address and the word stands a line the parser reads as one
  instruction, which the analyzer accepts and which is lowered to an instruction encoded as that
  very word.
\<close>

theorem disassembled_instruction_assembles:
  assumes "decode word = Inr i" and "formatOf (i_opcode i) \<noteq> Some Fmt_Jump"
  shows "\<exists>line node p info lowered. word_line Disassembler.default_options address word executable =
      hex16 address @ '':  '' @ hex16 word @ ''  '' @ line @ [newline] \<and>
    parse (start_parser (start_lexer line file) empty_engine) = (Inr [St_Instruction node], p) \<and>
    program_ok [St_Instruction node] \<and> findMnemonic (in_mnemonic node) = Some info \<and>
    lower_operands info (in_operands node) (in_location node) = Some lowered \<and>
    encode (ii_machine lowered) = Inr word \<and> ii_symbol lowered = None"
proof -
  have enc: "encodable i" using decode_encodable [OF assms(1)] ..
  then obtain info where info: "findOpcode (i_opcode i) = Some info" "oi_format info \<noteq> Fmt_Jump"
    using assms(2) by (auto simp: encodable_def formatOf_def split: option.splits)
  have "word_line Disassembler.default_options address word executable = hex16 address @ '':  '' @ hex16 word @ ''  '' @ toString i @ [newline]"
    using assms(1) info by (simp add: word_line_def formatInstruction_def Disassembler.default_options_def)
  with printed_reads_back [OF enc assms(2), of "file"] encode_decode [OF assms(1)] show ?thesis by metis
qed

theorem disassembled_instruction_assembles_witness:
  "\<exists>line node p. word_line Disassembler.default_options 0x400000 0x1110000000000005 None =
      hex16 0x400000 @ '':  '' @ hex16 0x1110000000000005 @ ''  '' @ line @ [newline] \<and>
    parse (start_parser (start_lexer line 0) empty_engine) = (Inr [St_Instruction node], p)"
proof -
  have "formatOf (i_opcode (mk_instr OP_MOVI 1 0 5)) \<noteq> Some Fmt_Jump" by code_simp
  with disassembled_instruction_assembles [OF demo_decode, of "0x400000" None 0] show ?thesis by blast
qed

end
