(* ===== verification/Executable_IO.thy ===== *)
theory Executable_IO
  imports Object_IO Executable
begin

text \<open>
  src/executable/executable_io.cpp: the .mexe format.  The layout follows the .mobj format; the
  writer refuses an image that \<open>validate\<close> rejects, and the reader ends with the same check.  The
  header has an entry point in place of the flags and the fifth count.  The offsets of the patched
  header fields and the assembly of the file are those of Object_IO, the code being repeated in
  both files.
\<close>

definition kSegmentRecordSize :: u64 where "kSegmentRecordSize = 40"
definition kExeSymbolRecordSize :: u64 where "kExeSymbolRecordSize = 24"
definition kExeDebugRecordSize :: u64 where "kExeDebugRecordSize = 24"
definition kExeSourceRecordSize :: u64 where "kExeSourceRecordSize = 4"

lemmas executable_sizes = kSegmentRecordSize_def kExeSymbolRecordSize_def kExeDebugRecordSize_def
  kExeSourceRecordSize_def

definition to_segment_type :: "u8 \<Rightarrow> SegmentType" where
  "to_segment_type v = (if v = 0 then Seg_Text else if v = 1 then Seg_Rodata else if v = 2 then Seg_Data
     else Seg_Bss)"

definition to_symbol_kind :: "u8 \<Rightarrow> SymbolKind" where
  "to_symbol_kind v = (if v = 0 then SK_None else if v = 1 then SK_Function else SK_Object)"

lemma executable_enum_round_trip [simp]:
  "to_segment_type (segment_type_num t) = t" "isValidSegmentType (segment_type_num t)"
  "to_symbol_kind (symbol_kind_num k) = k" "\<not> symbol_kind_num SK_Object < symbol_kind_num k"
  by (cases t; simp add: to_segment_type_def isValidSegmentType_def)+
    (cases k; simp add: to_symbol_kind_def)+

subsection \<open>Writing\<close>

datatype ExecutableWriteError = InvalidExecutable ExecutableError | ExecutableTooLarge

definition segment_fields :: "u32 \<Rightarrow> u64 \<Rightarrow> Segment \<Rightarrow> Field list" where
  "segment_fields name_offset data_offset segment =
     [F32 name_offset, F8 (segment_type_num (sg_type segment)), F8 (sg_flags segment), FPad 2,
      F64 (sg_virtual_address segment), F64 (sg_virtual_size segment), F64 data_offset,
      F64 (of_nat (length (sg_data segment)))]"

definition write_segment :: "Segment \<Rightarrow> WriteState \<Rightarrow> WriteState" where
  "write_segment segment st =
     (let data_offset = of_nat (length (ws_blob st));
          blob = raw (sg_data segment) (ws_blob st);
          (name_offset, strings) = intern (sg_name segment) (ws_strings st)
      in \<lparr> ws_strings = strings,
           ws_tables = write_fields (segment_fields name_offset data_offset segment) (ws_tables st),
           ws_blob = blob \<rparr>)"

definition entry_fields :: "u32 \<Rightarrow> SymbolEntry \<Rightarrow> Field list" where
  "entry_fields name_offset symbol =
     [F32 name_offset, F8 (symbol_kind_num (se_kind symbol)), FPad 3, F64 (se_address symbol),
      F64 (se_size symbol)]"

definition write_entry :: "SymbolEntry \<Rightarrow> WriteState \<Rightarrow> WriteState" where
  "write_entry symbol st =
     (let (name_offset, strings) = intern (se_name symbol) (ws_strings st)
      in st\<lparr> ws_strings := strings,
             ws_tables := write_fields (entry_fields name_offset symbol) (ws_tables st) \<rparr>)"

definition line_fields :: "DebugEntry \<Rightarrow> Field list" where
  "line_fields entry =
     [F64 (de_address entry), F32 (de_file entry), F32 (de_line entry), F32 (de_column entry), FPad 4]"

definition write_line :: "DebugEntry \<Rightarrow> WriteState \<Rightarrow> WriteState" where
  "write_line entry st = st\<lparr> ws_tables := write_fields (line_fields entry) (ws_tables st) \<rparr>"

definition executable_header :: "Executable \<Rightarrow> Writer" where
  "executable_header e =
     write_fields
       [F16 kExeVersion, F16 (of_nat kExeHeaderSize), F64 (ex_entry_point e),
        F32 (of_nat (length (ex_segments e))), F32 (of_nat (length (ex_symbols e))),
        F32 (of_nat (length (ex_debug_info e))), F32 (of_nat (length (ex_source_files e))),
        F64 0, F64 0, F64 0, F32 0, F32 0]
       (raw kExeMagic [])"

definition write_executable_tables :: "Executable \<Rightarrow> WriteState" where
  "write_executable_tables e =
     (let st = fold write_segment (ex_segments e) start_write;
          st = fold write_entry (ex_symbols e) st;
          st = fold write_line (ex_debug_info e) st
      in fold write_source (ex_source_files e) st)"

definition writeExecutableToBuffer :: "Executable \<Rightarrow> (ExecutableWriteError, u8 list) expected" where
  "writeExecutableToBuffer e =
     (case validate e of
        Inl x \<Rightarrow> Inl (InvalidExecutable x)
      | Inr _ \<Rightarrow>
          (case assemble_file kExeHeaderSize (executable_header e) (write_executable_tables e) of
             None \<Rightarrow> Inl ExecutableTooLarge
           | Some buffer \<Rightarrow> Inr buffer))"

subsection \<open>Reading\<close>

datatype ExecutableReadError =
    ExeTooShort nat
  | ExeShortMagic nat
  | ExeBadMagic
  | ExeTruncatedHeader
  | ExeBadVersion u16
  | ExeBadHeaderSize u16
  | ExeWrongFileSize u32 nat
  | ExeChecksumMismatch u32 u32
  | ExeInconsistentLayout
  | ExeStringTableOutside u64 u64 nat
  | TruncatedSegments
  | InvalidSegmentType u8
  | SegmentDataRange u64 u64 nat
  | ExeBadName StringError
  | TruncatedExeSymbols
  | InvalidSymbolKind u8
  | TruncatedExeDebug
  | DebugNamesFile u32 u32
  | TruncatedExeSources
  | NotLoadable ExecutableError

definition segment_kinds :: "Kind list" where
  "segment_kinds = [K32, K8, K8, KPad 2, K64, K64, K64, K64]"

definition read_segment ::
  "u8 list \<Rightarrow> u8 list \<Rightarrow> Reader \<Rightarrow> Executable \<Rightarrow> (ExecutableReadError, Executable) expected \<times> Reader" where
  "read_segment strings blob r e =
     (let (vs, r) = read_kinds segment_kinds r in
      case all_present vs of
        None \<Rightarrow> (Inl TruncatedSegments, r)
      | Some v \<Rightarrow>
          let name_offset = ucast (v ! 0); type = ucast (v ! 1); flags = ucast (v ! 2);
              virtual_address = v ! 4; virtual_size = v ! 5; data_offset = v ! 6; data_size = v ! 7
          in if \<not> isValidSegmentType type then (Inl (InvalidSegmentType type), r)
             else if unat data_offset > length blob \<or> unat data_size > length blob - unat data_offset
             then (Inl (SegmentDataRange data_offset (data_offset + data_size) (length blob)), r)
             else case readString strings name_offset of
                    Inl x \<Rightarrow> (Inl (ExeBadName x), r)
                  | Inr name \<Rightarrow>
                      (Inr (e\<lparr> ex_segments := ex_segments e @
                         [\<lparr> sg_type = to_segment_type type, sg_flags = flags, sg_name = name,
                            sg_virtual_address = virtual_address, sg_virtual_size = virtual_size,
                            sg_data = take (unat data_size) (drop (unat data_offset) blob) \<rparr>] \<rparr>), r))"

definition entry_kinds :: "Kind list" where
  "entry_kinds = [K32, K8, KPad 3, K64, K64]"

definition read_entry ::
  "u8 list \<Rightarrow> Reader \<Rightarrow> Executable \<Rightarrow> (ExecutableReadError, Executable) expected \<times> Reader" where
  "read_entry strings r e =
     (let (vs, r) = read_kinds entry_kinds r in
      case all_present vs of
        None \<Rightarrow> (Inl TruncatedExeSymbols, r)
      | Some v \<Rightarrow>
          let name_offset = ucast (v ! 0); kind = (ucast (v ! 1) :: u8); address = v ! 3; sz = v ! 4
          in if kind > symbol_kind_num SK_Object then (Inl (InvalidSymbolKind kind), r)
             else case readString strings name_offset of
                    Inl x \<Rightarrow> (Inl (ExeBadName x), r)
                  | Inr name \<Rightarrow>
                      (Inr (e\<lparr> ex_symbols := ex_symbols e @
                         [\<lparr> se_name = name, se_address = address, se_size = sz,
                            se_kind = to_symbol_kind kind \<rparr>] \<rparr>), r))"

definition line_kinds :: "Kind list" where
  "line_kinds = [K64, K32, K32, K32, KPad 4]"

definition read_line ::
  "u32 \<Rightarrow> Reader \<Rightarrow> Executable \<Rightarrow> (ExecutableReadError, Executable) expected \<times> Reader" where
  "read_line source_count r e =
     (let (vs, r) = read_kinds line_kinds r in
      case all_present vs of
        None \<Rightarrow> (Inl TruncatedExeDebug, r)
      | Some v \<Rightarrow>
          let address = v ! 0; file = ucast (v ! 1); line = ucast (v ! 2); column = ucast (v ! 3)
          in if file \<ge> source_count then (Inl (DebugNamesFile file source_count), r)
             else (Inr (e\<lparr> ex_debug_info := ex_debug_info e @
                     [\<lparr> de_address = address, de_file = file, de_line = line,
                        de_column = column \<rparr>] \<rparr>), r))"

definition read_exe_source ::
  "u8 list \<Rightarrow> Reader \<Rightarrow> Executable \<Rightarrow> (ExecutableReadError, Executable) expected \<times> Reader" where
  "read_exe_source strings r e =
     (let (vs, r) = read_kinds [K32] r in
      case all_present vs of
        None \<Rightarrow> (Inl TruncatedExeSources, r)
      | Some v \<Rightarrow>
          case readString strings (ucast (v ! 0)) of
            Inl x \<Rightarrow> (Inl (ExeBadName x), r)
          | Inr name \<Rightarrow> (Inr (e\<lparr> ex_source_files := ex_source_files e @ [name] \<rparr>), r))"

definition executable_header_kinds :: "Kind list" where
  "executable_header_kinds =
     [K16, K16, K64, K32, K32, K32, K32, K64, K64, K64, K32, K32]"

definition read_executable_tables ::
  "u16 \<Rightarrow> u64 \<Rightarrow> u32 \<Rightarrow> u32 \<Rightarrow> u32 \<Rightarrow> u32 \<Rightarrow> u8 list \<Rightarrow> u8 list \<Rightarrow> Reader \<Rightarrow>
    (ExecutableReadError, Executable) expected" where
  "read_executable_tables version entry_point segment_count symbol_count debug_count source_count
     strings blob r =
     (let segments_at = of_nat kExeHeaderSize :: u64;
          symbols_at = segments_at + ucast segment_count * kSegmentRecordSize;
          debug_at = symbols_at + ucast symbol_count * kExeSymbolRecordSize;
          sources_at = debug_at + ucast debug_count * kExeDebugRecordSize;
          e = \<lparr> ex_version = version, ex_entry_point = entry_point, ex_segments = [],
                ex_symbols = [], ex_debug_info = [], ex_source_files = [] \<rparr>
      in and_then (read_loop (read_segment strings blob) (unat segment_count)
                     (seek (unat segments_at) r) e) (\<lambda>e.
         and_then (read_loop (read_entry strings) (unat symbol_count)
                     (seek (unat symbols_at) r) e) (\<lambda>e.
         and_then (read_loop (read_line source_count) (unat debug_count)
                     (seek (unat debug_at) r) e) (\<lambda>e.
         and_then (read_loop (read_exe_source strings) (unat source_count)
                     (seek (unat sources_at) r) e) (\<lambda>e.
         case validate e of Inl x \<Rightarrow> Inl (NotLoadable x) | Inr _ \<Rightarrow> Inr e)))))"

definition readExecutableFromBuffer :: "u8 list \<Rightarrow> (ExecutableReadError, Executable) expected" where
  "readExecutableFromBuffer buffer =
     (if length buffer < kExeHeaderSize then Inl (ExeTooShort (length buffer))
      else
        let (magic, r) = read_raw (length kExeMagic) \<lparr> rd_data = buffer, rd_position = 0 \<rparr> in
        case magic of
          None \<Rightarrow> Inl (ExeShortMagic (length buffer))
        | Some m \<Rightarrow>
            if m \<noteq> kExeMagic then Inl ExeBadMagic
            else
              let (vs, r) = read_kinds executable_header_kinds r in
              case all_present vs of
                None \<Rightarrow> Inl ExeTruncatedHeader
              | Some v \<Rightarrow>
                  let version = (ucast (v ! 0) :: u16); header_size = (ucast (v ! 1) :: u16);
                      entry_point = v ! 2;
                      segment_count = (ucast (v ! 3) :: u32); symbol_count = (ucast (v ! 4) :: u32);
                      debug_count = (ucast (v ! 5) :: u32); source_count = (ucast (v ! 6) :: u32);
                      string_offset = v ! 7; string_size = v ! 8; blob_offset = v ! 9;
                      file_size = (ucast (v ! 10) :: u32); checksum = (ucast (v ! 11) :: u32);
                      actual = crc32 (drop kExeHeaderSize buffer);
                      tables_end = of_nat kExeHeaderSize +
                        ucast segment_count * kSegmentRecordSize +
                        ucast symbol_count * kExeSymbolRecordSize +
                        ucast debug_count * kExeDebugRecordSize +
                        ucast source_count * kExeSourceRecordSize
                  in if version \<noteq> kExeVersion then Inl (ExeBadVersion version)
                     else if unat header_size \<noteq> kExeHeaderSize then Inl (ExeBadHeaderSize header_size)
                     else if unat file_size \<noteq> length buffer
                     then Inl (ExeWrongFileSize file_size (length buffer))
                     else if actual \<noteq> checksum then Inl (ExeChecksumMismatch checksum actual)
                     else if unat tables_end > length buffer \<or> string_offset \<noteq> tables_end \<or>
                             unat (string_offset + string_size) > length buffer \<or>
                             blob_offset \<noteq> string_offset + string_size \<or>
                             unat blob_offset > length buffer
                     then Inl ExeInconsistentLayout
                     else case rawAt (unat string_offset) (unat string_size) r of
                            None \<Rightarrow> Inl (ExeStringTableOutside string_offset (string_offset + string_size) (length buffer))
                          | Some strings \<Rightarrow>
                              read_executable_tables version entry_point segment_count symbol_count
                                debug_count source_count strings (drop (unat blob_offset) buffer) r)"

end
