(* ===== verification/Error_Text.thy ===== *)
theory Error_Text
  imports Fault_Text Linker Object_IO Executable_IO Optimizer
begin

text \<open>
  The messages of the file formats, the linker and the loader: their error values as the code formats
  them, src/executable/executable.cpp, src/executable/executable_io.cpp, src/object/object_io.cpp,
  src/common/binary.hpp, src/linker/linker.cpp and src/vm/vm.cpp.
\<close>

definition num :: "'a::len word \<Rightarrow> string" where
  "num w = nat_str (unat w)"

text \<open>\<open>{:08X}\<close>\<close>

definition hex8 :: "u32 \<Rightarrow> string" where
  "hex8 w = pad_left (CHR ''0'') 8 (hex_digits (unat w) [])"

fun executable_error_text :: "ExecutableError \<Rightarrow> string" where
  "executable_error_text (UnsupportedVersion v) = ''unsupported executable version '' @ num v"
| "executable_error_text NoSegments = ''executable has no segments''"
| "executable_error_text (EmptySegment name) = ''segment '' @ quoted name @ '' occupies no memory''"
| "executable_error_text (OversizedData name n sz) =
     ''segment '' @ quoted name @ '' holds '' @ nat_str n @ '' bytes of data but claims only '' @ num sz @ '' bytes of memory''"
| "executable_error_text (WrappingSegment name) =
     ''segment '' @ quoted name @ '' wraps past the end of the address space''"
| "executable_error_text (BssWithData name n) =
     ''segment '' @ quoted name @ '' is .bss but carries '' @ nat_str n @ '' bytes of data''"
| "executable_error_text (WritableAndExecutable name) =
     ''segment '' @ quoted name @ '' is both writable and executable''"
| "executable_error_text (OverlappingSegments a b) =
     ''segments '' @ quoted a @ '' and '' @ quoted b @ '' overlap in memory''"
| "executable_error_text (MisalignedEntry a) =
     ''entry point 0x'' @ hex a @ '' is not '' @ nat_str kInstructionSize @ ''-byte aligned''"
| "executable_error_text (EntryNotMapped a) = ''entry point 0x'' @ hex a @ '' is not inside any segment''"
| "executable_error_text (EntryNotExecutable a name) =
     ''entry point 0x'' @ hex a @ '' is in non-executable segment '' @ quoted name"
| "executable_error_text (BadDebugFile file n) = ''debug entry names source file '' @ num file @ '' of '' @ nat_str n"

fun executable_write_text :: "ExecutableWriteError \<Rightarrow> string" where
  "executable_write_text (InvalidExecutable e) =
     ''refusing to write an invalid executable: '' @ executable_error_text e"
| "executable_write_text ExecutableTooLarge = ''executable exceeds the 4 GiB file size limit''"

fun string_error_text :: "StringError \<Rightarrow> string" where
  "string_error_text (StringOffset off n) =
     ''string offset '' @ num off @ '' is outside the '' @ nat_str n @ ''-byte string table''"
| "string_error_text (Unterminated off) = ''unterminated string at offset '' @ num off"

definition short_read_text :: "nat \<Rightarrow> string \<Rightarrow> nat \<Rightarrow> nat \<Rightarrow> string" where
  "short_read_text count what position remaining =
     ''truncated file: '' @ nat_str count @ '' bytes of '' @ what @ '' needed at offset '' @ nat_str position @
     '', only '' @ nat_str remaining @ '' remain''"

definition region_text :: "u64 \<Rightarrow> u64 \<Rightarrow> nat \<Rightarrow> string" where
  "region_text start stop n =
     ''region ['' @ num start @ '', '' @ num stop @ '') is outside the '' @ nat_str n @ ''-byte file''"

fun executable_read_text :: "ExecutableReadError \<Rightarrow> string" where
  "executable_read_text (ExeTooShort n) =
     ''not an executable: '' @ nat_str n @ '' bytes is shorter than the '' @ nat_str kExeHeaderSize @ ''-byte header''"
| "executable_read_text (ExeShortMagic n) = short_read_text (length kExeMagic) ''blob'' 0 n"
| "executable_read_text ExeBadMagic = ''not an executable: bad magic''"
| "executable_read_text ExeTruncatedHeader = ''truncated executable header''"
| "executable_read_text (ExeBadVersion v) =
     ''unsupported executable version '' @ num v @ '' (this build understands '' @ num kExeVersion @ '')''"
| "executable_read_text (ExeBadHeaderSize n) = ''unsupported executable header size '' @ num n"
| "executable_read_text (ExeWrongFileSize claimed n) =
     ''executable claims to be '' @ num claimed @ '' bytes but is '' @ nat_str n"
| "executable_read_text (ExeChecksumMismatch said actual) =
     ''executable checksum mismatch: header says 0x'' @ hex8 said @ '', contents hash to 0x'' @ hex8 actual"
| "executable_read_text ExeInconsistentLayout = ''executable table layout is inconsistent''"
| "executable_read_text (ExeStringTableOutside start stop n) = region_text start stop n"
| "executable_read_text TruncatedSegments = ''truncated segment table''"
| "executable_read_text (InvalidSegmentType t) = ''invalid segment type '' @ num t"
| "executable_read_text (SegmentDataRange start stop n) =
     ''segment data range ['' @ num start @ '', '' @ num stop @ '') is outside the '' @ nat_str n @ ''-byte image''"
| "executable_read_text (ExeBadName e) = string_error_text e"
| "executable_read_text TruncatedExeSymbols = ''truncated executable symbol table''"
| "executable_read_text (InvalidSymbolKind k) = ''invalid symbol kind '' @ num k"
| "executable_read_text TruncatedExeDebug = ''truncated debug table''"
| "executable_read_text (DebugNamesFile file n) = ''debug entry names source file '' @ num file @ '' of '' @ num n"
| "executable_read_text TruncatedExeSources = ''truncated source file table''"
| "executable_read_text (NotLoadable e) = executable_error_text e"

fun object_write_text :: "ObjectWriteError \<Rightarrow> string" where
  "object_write_text TooManyRecords = ''object is too large to serialise''"
| "object_write_text ObjectTooLarge = ''object exceeds the 4 GiB file size limit''"

definition outOfRange :: "string \<Rightarrow> string \<Rightarrow> string \<Rightarrow> string" where
  "outOfRange what value limit = ''invalid object file: '' @ what @ '' '' @ value @ '' exceeds '' @ limit"

fun object_read_text :: "ObjectReadError \<Rightarrow> string" where
  "object_read_text (TooShort n) =
     ''not an object file: '' @ nat_str n @ '' bytes is shorter than the '' @ nat_str kObjectHeaderSize @ ''-byte header''"
| "object_read_text (ShortMagic n) = short_read_text (length kObjectMagic) ''blob'' 0 n"
| "object_read_text BadMagic = ''not an object file: bad magic''"
| "object_read_text TruncatedHeader = ''truncated object header''"
| "object_read_text (BadVersion v) =
     ''unsupported object version '' @ num v @ '' (this build understands '' @ num kObjectVersion @ '')''"
| "object_read_text (BadHeaderSize n) = ''unsupported object header size '' @ num n"
| "object_read_text (UnknownFlags fl) = ''unknown object flags 0x'' @ hex8 fl"
| "object_read_text (WrongFileSize claimed n) =
     ''object claims to be '' @ num claimed @ '' bytes but is '' @ nat_str n"
| "object_read_text (ChecksumMismatch said actual) =
     ''object checksum mismatch: header says 0x'' @ hex8 said @ '', contents hash to 0x'' @ hex8 actual"
| "object_read_text InconsistentLayout = ''object table layout is inconsistent''"
| "object_read_text (StringTableOutside start stop n) = region_text start stop n"
| "object_read_text TruncatedSections = ''truncated section table''"
| "object_read_text (InvalidSectionType t) = ''invalid section type '' @ num t"
| "object_read_text (BadAlignment a) = ''section alignment '' @ num a @ '' is not a power of two''"
| "object_read_text (SectionDataRange stop n) = outOfRange ''section data range'' (num stop) (nat_str n)"
| "object_read_text MemorySmallerThanData = ''section memory size is smaller than its initialised data''"
| "object_read_text (BadName e) = string_error_text e"
| "object_read_text TruncatedSymbols = ''truncated symbol table''"
| "object_read_text (InvalidBinding b) = ''invalid symbol binding '' @ num b"
| "object_read_text (InvalidSymbolType t) = ''invalid symbol type '' @ num t"
| "object_read_text (SymbolSectionIndex i n) = outOfRange ''symbol section index'' (num i) (num n)"
| "object_read_text (DuplicateSymbol name) = ''duplicate symbol '' @ quoted name @ '' in symbol table''"
| "object_read_text TruncatedRelocations = ''truncated relocation table''"
| "object_read_text (InvalidRelocationType t) = ''invalid relocation type '' @ num t"
| "object_read_text (RelocationSectionIndex i n) = outOfRange ''relocation section index'' (num i) (num n)"
| "object_read_text (RelocationSymbolIndex i n) = outOfRange ''relocation symbol index'' (num i) (num n)"
| "object_read_text (RelocationDoesNotFit off name n) =
     ''relocation at offset '' @ num off @ '' does not fit in section '' @ quoted name @ '' ('' @ nat_str n @ '' bytes)''"
| "object_read_text TruncatedDebug = ''truncated debug table''"
| "object_read_text (DebugSectionIndex i n) = outOfRange ''debug section index'' (num i) (num n)"
| "object_read_text (DebugFileIndex i n) = outOfRange ''debug file index'' (num i) (num n)"
| "object_read_text TruncatedSources = ''truncated source file table''"

fun link_error_text :: "LinkError \<Rightarrow> string" where
  "link_error_text NoObjects = ''no object files to link''"
| "link_error_text (NoOutputRegion name) = ''section '' @ quoted name @ '' has no output region''"
| "link_error_text (RegionOverflow name) = name @ '' grows past its '' @ num (kRegionSize div 1024) @ '' KiB region''"
| "link_error_text (SymbolSectionMissing name i n) =
     ''symbol '' @ quoted name @ '' names section '' @ num i @ '' of '' @ nat_str n"
| "link_error_text (SymbolNotPlaced name) = ''symbol '' @ quoted name @ '' lives in a section that was not laid out''"
| "link_error_text (DefinedTwice name) = ''symbol '' @ quoted name @ '' is defined in more than one object''"
| "link_error_text (Undefined name source) = ''undefined symbol '' @ quoted name @ '' referenced by '' @ source"
| "link_error_text RelocationDangling = ''relocation refers to a section or symbol that does not exist''"
| "link_error_text RelocationNotPlaced = ''relocation targets a section that was not laid out''"
| "link_error_text (RelocationInZeroFilled name) = name @ '' cannot hold a relocation''"
| "link_error_text (UndefinedTarget name) = ''undefined symbol '' @ quoted name"
| "link_error_text (RelocationFailed t name region off e) =
     relocationTypeName t @ '' relocation for '' @ quoted name @ '' at '' @ region @ '' + 0x'' @ hex off @ '': '' @
     relocationErrorName e"
| "link_error_text (NoEntryPoint name) = ''entry point '' @ quoted name @ '' is not defined in any object''"
| "link_error_text (ImageInvalid e) = executable_error_text e"

text \<open>\<open>fail\<close> records every link error in the diagnostics and returns its text.\<close>

definition reported_link ::
  "LinkOptions \<Rightarrow> ObjectFile list \<Rightarrow> DiagnosticEngine \<Rightarrow> (string, Executable) expected \<times> DiagnosticEngine" where
  "reported_link options objects diagnostics =
     (case link options objects of
        Inl e \<Rightarrow> (Inl (link_error_text e), report_error (link_error_code e) no_location (link_error_text e) diagnostics)
      | Inr executable \<Rightarrow> (Inr executable, diagnostics))"

fun load_error_text :: "LoadError \<Rightarrow> string" where
  "load_error_text (InvalidImage e) = executable_error_text e"
| "load_error_text (CannotMapSegment name at) = ''cannot map segment '' @ quoted name @ '' at 0x'' @ hex at"
| "load_error_text StackOverlap = ''the stack overlaps a program segment''"
| "load_error_text HeapOverlap = ''the heap overlaps a program segment''"

text \<open>\<open>OptStats::summary\<close> of src/optimizer/optimizer.cpp\<close>

definition summary :: "OptStats \<Rightarrow> string" where
  "summary s =
     nat_str (os_instructions_before s) @ '' -> '' @ nat_str (os_instructions_after s) @ '' instructions ('' @
     num (os_constants_folded s) @ '' folded, '' @ num (os_identities_eliminated s) @ '' identities, '' @
     num (os_dead_stores_removed s) @ '' dead stores, '' @ num (os_unreachable_removed s) @ '' unreachable, '' @
     num (os_peepholes_applied s) @ '' peepholes)''"

text \<open>Bytes as characters, \<open>reinterpret_cast<const char*>\<close>\<close>

definition text_of :: "u8 list \<Rightarrow> string" where
  "text_of bytes = map (\<lambda>b. char_of (unat b)) bytes"

definition bytes_of :: "string \<Rightarrow> u8 list" where
  "bytes_of s = map (\<lambda>c. of_nat (of_char c)) s"

lemma length_text_of [simp]: "length (text_of bytes) = length bytes" "length (bytes_of s) = length s"
  by (simp_all add: text_of_def bytes_of_def)

lemma text_of_bytes_of [simp]: "text_of (bytes_of s) = s"
  by (induction s) (simp_all add: text_of_def bytes_of_def unat_of_nat)

end
