(* ===== verification/Pipeline.thy ===== *)
theory Pipeline
  imports Parser_Safety Optimizer
begin

text \<open>
  src/assembler/pipeline.cpp: the front end for one file, from its text to an object file, and what
  the stages guarantee together.  \<open>None\<close> is an exception or undefined behaviour of a stage.
\<close>

record AssembleOptions =
  ao_opt_level :: OptLevel
  ao_emit_debug_info :: bool

definition default_assemble_options :: AssembleOptions where
  "default_assemble_options = \<lparr> ao_opt_level = O0, ao_emit_debug_info = True \<rparr>"

record AssembleResult =
  ar_object :: ObjectFile
  ar_stats :: OptStats
  ar_module :: Module

definition assembleSource ::
  "SourceManager \<Rightarrow> u32 \<Rightarrow> DiagnosticEngine \<Rightarrow> AssembleOptions \<Rightarrow>
   ((string, AssembleResult) expected \<times> DiagnosticEngine) option" where
  "assembleSource sources file diagnostics options =
     (if \<not> sources_contains sources file then Some (Inl ''no such source file'', diagnostics)
      else case parse (start_parser (start_lexer (source_text sources file) file) diagnostics) of
        (Inl message, p) \<Rightarrow> Some (Inl message, pa_engine p)
      | (Inr program, p) \<Rightarrow>
          (case analyze program (pa_engine p) of
             (False, d) \<Rightarrow> Some (Inl ''semantic analysis failed'', d)
           | (True, d) \<Rightarrow>
               (case lower_program program (source_name sources file) d of
                  None \<Rightarrow> None
                | Some (Inl message, d) \<Rightarrow> Some (Inl message, d)
                | Some (Inr module, d) \<Rightarrow>
                    (case run_optimizer (ao_opt_level options) module of
                       None \<Rightarrow> None
                     | Some (module, stats) \<Rightarrow>
                         (case assemble module d of
                            (Inl message, d) \<Rightarrow> Some (Inl message, d)
                          | (Inr ob, d) \<Rightarrow>
                              let ob = (if \<not> ao_emit_debug_info options
                                then ob\<lparr> ob_debug_info := [], ob_source_files := [] \<rparr> else ob)
                              in Some (Inr \<lparr> ar_object = ob, ar_stats = stats, ar_module = module \<rparr>, d))))))"

lemma run_optimizer_O0:
  "run_optimizer O0 m = Some (m, no_stats\<lparr> os_instructions_before := instructionCount m, os_instructions_after := instructionCount m \<rparr>)"
  by (simp add: run_optimizer_def Let_def)

text \<open>The object of a program, and the program a file holds.\<close>

definition parsed :: "SourceManager \<Rightarrow> u32 \<Rightarrow> Program option" where
  "parsed sources file =
     (case parse (start_parser (start_lexer (source_text sources file) file) empty_engine) of
        (Inl _, _) \<Rightarrow> None | (Inr program, _) \<Rightarrow> Some program)"

definition assembles :: "Program \<Rightarrow> bool" where
  "assembles ss \<longleftrightarrow> program_ok ss \<and> well_placed ss \<and>
     set (listed_names Dir_Extern ss) \<inter> set (label_names ss) = {} \<and>
     list_all (\<lambda>n. is_local_name n \<longrightarrow> n \<in> set (label_names ss) \<union> set (listed_names Dir_Global ss) \<union>
       set (listed_names Dir_Weak ss) \<union> set (listed_names Dir_Extern ss)) (all_references ss) \<and>
     \<not> list_ex far_displacement ss"

definition program_object :: "bool \<Rightarrow> string \<Rightarrow> Program \<Rightarrow> ObjectFile" where
  "program_object debug name ss =
     (let ob = spec_object (lowered_module name ss)
      in if debug then ob else ob\<lparr> ob_debug_info := [], ob_source_files := [] \<rparr>)"

lemma assembles_iff:
  assumes "program_ok ss" and "well_placed ss" and "from_source ss"
  shows "assembles ss \<longleftrightarrow> \<not> assembly_fails (lowered_module name ss)"
  unfolding lowered_assembly_fails [OF assms] assembles_def using assms(1,2) by (auto simp: list_all_iff list_ex_iff)

lemma parsed_result:
  assumes "parse (start_parser (start_lexer (source_text sources file) file) empty_engine) = (r, p)"
  shows "parsed sources file = (case r of Inl _ \<Rightarrow> None | Inr ss \<Rightarrow> Some ss)"
    and "r = Inr ss \<Longrightarrow> from_source ss"
  using assms parsed_from_source by (auto simp: parsed_def split: sum.splits)

lemma pipeline_result:
  assumes "sources_contains sources file" and "ao_opt_level options = O0"
    and "\<And>ss. parsed sources file = Some ss \<Longrightarrow> fits_object (source_name sources file) ss"
  shows "\<exists>r d'. assembleSource sources file empty_engine options = Some (r, d') \<and>
    (case r of
       Inr result \<Rightarrow> \<exists>ss. parsed sources file = Some ss \<and> assembles ss \<and>
         ar_object result = program_object (ao_emit_debug_info options) (source_name sources file) ss \<and>
         object_ok (ar_object result) \<and> ar_module result = lowered_module (source_name sources file) ss
     | Inl message \<Rightarrow> (case parsed sources file of None \<Rightarrow> True | Some ss \<Rightarrow> \<not> assembles ss))"
proof -
  let ?name = "source_name sources file"
  obtain r p where p: "parse (start_parser (start_lexer (source_text sources file) file) empty_engine) = (r, p)" by fastforce
  note parsed = parsed_result(1) [OF p]
  show ?thesis
  proof (cases r)
    case (Inl message)
    then show ?thesis using assms(1) p parsed by (auto simp: assembleSource_def)
  next
    case (Inr ss)
    have src: "from_source ss" using parsed_result(2) [OF p Inr] .
    have fits: "fits_object ?name ss" using assms(3) parsed Inr by simp
    obtain ok d1 where a: "analyze ss (pa_engine p) = (ok, d1)" by fastforce
    have ok: "ok \<longleftrightarrow> program_ok ss" using analyze_accepts [of ss "pa_engine p"] a by simp
    show ?thesis
    proof (cases "program_ok ss")
      case False
      then show ?thesis using assms(1) p parsed Inr a ok by (auto simp: assembleSource_def assembles_def)
    next
      case True
      obtain d2 where l: "lower_program ss ?name d1 = Some (if well_placed ss then Inr (lowered_module ?name ss)
          else Inl (nat_str (de_error_count d2) @ '' error(s) lowering to IR''), d2)"
        using lower_program_result [OF True, of ?name d1] by blast
      show ?thesis
      proof (cases "well_placed ss")
        case False
        then show ?thesis using assms(1) p parsed Inr a ok True l by (auto simp: assembleSource_def assembles_def)
      next
        case placed: True
        let ?m = "lowered_module ?name ss"
        have card: "card (set (module_names ?m)) < 2 ^ 32" using fits by (simp add: fits_object_def)
        have mok: "module_ok ?m" by (rule lowered_module_ok [OF True src fits])
        obtain ro d3 where as: "assemble ?m d2 = (ro, d3)" by fastforce
        have ro: "(\<exists>message. ro = Inl message) \<and> assembly_fails ?m \<or> ro = Inr (spec_object ?m) \<and> \<not> assembly_fails ?m"
          using run_assembly_spec [OF card, of d2] as by (auto simp: assemble_def Let_def)
        have o1: "object_ok (spec_object ?m)" by (rule spec_object_ok [OF mok])
        then have "object_ok ((spec_object ?m)\<lparr> ob_debug_info := [], ob_source_files := [] \<rparr>)" by (simp add: object_ok_def)
        with ro o1 show ?thesis
          using assms(1,2) p parsed Inr a ok True placed l as assembles_iff [OF True placed src, of ?name]
          by (auto simp: assembleSource_def run_optimizer_O0 program_object_def Let_def)
      qed
    qed
  qed
qed


definition halting_source :: SourceManager where
  "halting_source = snd (addFile ''a.asm'' ''a:HALT'' [])"

definition halting_program :: Program where
  "halting_program =
     [St_Label \<lparr> ln_name = ''a'', ln_local = False,
        ln_location = \<lparr> loc_file = 0, loc_line = 1, loc_column = 1, loc_length = 1 \<rparr> \<rparr>,
      St_Instruction \<lparr> in_mnemonic = ''HALT'', in_operands = [],
        in_location = \<lparr> loc_file = 0, loc_line = 1, loc_column = 3, loc_length = 4 \<rparr> \<rparr>]"

lemma halting_parsed: "parsed halting_source 0 = Some halting_program"
  by code_simp

lemma halting_fits: "fits_object ''a.asm'' halting_program"
proof -
  have "map (\<lambda>kind. sum_list (map item_room (lowered_items halting_program kind))) kSectionOrder = [8, 0, 0, 0]" by code_simp
  then have "list_all (\<lambda>n. n < 2 ^ 63) (map (\<lambda>kind. sum_list (map item_room (lowered_items halting_program kind))) kSectionOrder)"
    by simp
  moreover have "module_names (lowered_module ''a.asm'' halting_program) = [''a'']" by code_simp
  ultimately show ?thesis by (simp add: fits_object_def list_all_iff printable_def)
qed


end
