(* ===== verification/Session.thy ===== *)
theory Session
  imports Error_Text Disassembler Pipeline "HOL-Library.Sublist"
begin

text \<open>
  src/playground/session.cpp: one job of the playground, from source text to a report.  A pointer kept
  into the provider the machine owns is the provider of the machine after the run.
\<close>

definition kMaxSourceBytes :: nat where "kMaxSourceBytes = 256 * 1024"
definition kMaxOutputBytes :: nat where "kMaxOutputBytes = 256 * 1024"
definition kDefaultPlaygroundBudget :: u64 where "kDefaultPlaygroundBudget = 5000000"
definition kMaxPlaygroundBudget :: u64 where "kMaxPlaygroundBudget = 50000000"

definition kSourceName :: string where "kSourceName = ''playground.asm''"

record RunRequest =
  rq_source :: string
  rq_input :: string
  rq_opt_level :: OptLevel
  rq_budget :: u64
  rq_want_disassembly :: bool

definition default_request :: RunRequest where
  "default_request = \<lparr> rq_source = [], rq_input = [], rq_opt_level = O0, rq_budget = kDefaultPlaygroundBudget,
     rq_want_disassembly = True \<rparr>"

datatype Stage = Stage_Assemble | Stage_Link | Stage_Load | Stage_Execute | Stage_Finished

fun stageName :: "Stage \<Rightarrow> string" where
  "stageName Stage_Assemble = ''assemble''"
| "stageName Stage_Link = ''link''"
| "stageName Stage_Load = ''load''"
| "stageName Stage_Execute = ''execute''"
| "stageName Stage_Finished = ''finished''"

record RunReport =
  rp_ok :: bool
  rp_stage :: Stage
  rp_diagnostics :: string
  rp_error :: string
  rp_output :: string
  rp_output_truncated :: bool
  rp_disassembly :: string
  rp_exit_code :: u64
  rp_instructions :: u64
  rp_stats :: OptStats
  rp_registers :: "u64 list"
  rp_pc :: u64
  rp_sp :: u64
  rp_flags :: u64

definition empty_report :: RunReport where
  "empty_report = \<lparr> rp_ok = False, rp_stage = Stage_Finished, rp_diagnostics = [], rp_error = [], rp_output = [],
     rp_output_truncated = False, rp_disassembly = [], rp_exit_code = 0, rp_instructions = 0, rp_stats = no_stats,
     rp_registers = replicate kRegisterCount 0, rp_pc = 0, rp_sp = 0, rp_flags = 0 \<rparr>"

subsection \<open>The capped provider\<close>

record CappedProvider =
  cp_inner :: DefaultProvider
  cp_truncated :: bool

definition capped_invoke :: "(SyscallMessage, CappedProvider) provider" where
  "capped_invoke number context p =
     (case default_invoke number context (cp_inner p) of
        (result, context, inner) \<Rightarrow>
          (result, context,
           if length (dp_output inner) > kMaxOutputBytes
           then p\<lparr> cp_inner := inner\<lparr> dp_output := take kMaxOutputBytes (dp_output inner) \<rparr>, cp_truncated := True \<rparr>
           else p\<lparr> cp_inner := inner \<rparr>))"

text \<open>A default provider has no output yet; \<open>setInput\<close> switches it to capturing.\<close>

definition capped_provider :: "string \<Rightarrow> CappedProvider" where
  "capped_provider input =
     \<lparr> cp_inner = \<lparr> dp_capture = True, dp_output = [], dp_error_output = [], dp_input = bytes_of input,
         host_stdout = [], host_stderr = [], host_stdin = [] \<rparr>, cp_truncated = False \<rparr>"

subsection \<open>A job\<close>

definition setError :: "string \<Rightarrow> RunReport \<Rightarrow> RunReport" where
  "setError message rep =
     (if message \<noteq> [] \<and> sublist message (rp_diagnostics rep) then rep
      else rep\<lparr> rp_error := message \<rparr>)"

definition recordState :: "'p VM \<Rightarrow> RunReport \<Rightarrow> RunReport" where
  "recordState machine rep = rep\<lparr> rp_registers := registers (cpu machine), rp_pc := pc (cpu machine),
     rp_sp := sp (cpu machine), rp_flags := flags (cpu machine) \<rparr>"

text \<open>The run of a linked image, from \<open>vm::VirtualMachine machine;\<close> to the end.\<close>

definition run_image :: "RunRequest \<Rightarrow> Executable \<Rightarrow> RunReport \<Rightarrow> RunReport" where
  "run_image request linked rep =
     (case load linked (new_machine (capped_provider (rq_input request))) of
        (Inl e, _) \<Rightarrow> setError (load_error_text e) (rep\<lparr> rp_stage := Stage_Load \<rparr>)
      | (Inr _, machine) \<Rightarrow>
          let budget = min (max (rq_budget request) 1) kMaxPlaygroundBudget;
              (run_result, machine) = run (text_provider syscall_text capped_invoke) budget machine;
              rep = recordState machine (rep\<lparr>
                rp_output := text_of (dp_output (cp_inner (provider machine))),
                rp_output_truncated := cp_truncated (provider machine),
                rp_exit_code := rr_exit_code run_result, rp_instructions := rr_instructions run_result \<rparr>)
          in if rr_error run_result \<noteq> VM_None
             then setError (fault_text (rr_message run_result)) (rep\<lparr> rp_stage := Stage_Execute \<rparr>)
             else rep\<lparr> rp_ok := True, rp_stage := Stage_Finished \<rparr>)"

definition runSource :: "RunRequest \<Rightarrow> RunReport option" where
  "runSource request =
     (let rep = empty_report in
      if length (rq_source request) > kMaxSourceBytes
      then Some (rep\<lparr> rp_stage := Stage_Assemble,
             rp_error := ''source is '' @ nat_str (length (rq_source request)) @ '' bytes; the limit is '' @
               nat_str kMaxSourceBytes \<rparr>)
      else
        let (file, sources) = addFile kSourceName (rq_source request) [] in
        case assembleSource sources file empty_engine (default_assemble_options\<lparr> ao_opt_level := rq_opt_level request \<rparr>) of
          None \<Rightarrow> None
        | Some (Inl message, diagnostics) \<Rightarrow>
            Some (setError message (rep\<lparr> rp_diagnostics := renderAll sources diagnostics, rp_stage := Stage_Assemble \<rparr>))
        | Some (Inr result, diagnostics) \<Rightarrow>
            let rep = rep\<lparr> rp_stats := ar_stats result \<rparr>;
                (linked, diagnostics) = reported_link Linker.default_options [ar_object result] diagnostics;
                rep = rep\<lparr> rp_diagnostics := renderAll sources diagnostics \<rparr>
            in case linked of
                 Inl message \<Rightarrow> Some (setError message (rep\<lparr> rp_stage := Stage_Link \<rparr>))
               | Inr linked \<Rightarrow>
                   let rep = (if rq_want_disassembly request
                         then rep\<lparr> rp_disassembly := disassemble_image Disassembler.default_options linked \<rparr> else rep)
                   in Some (run_image request linked rep))"

end
