(* ===== verification/Session_Safety.thy ===== *)
theory Session_Safety
  imports Session Debugger_Safety
begin

text \<open>
  What a job of the playground guarantees: a machine does not see which of two alike providers
  serves it, so cutting the output off changes nothing else about a run; and without the optimizer
  every source text has a report.
\<close>

subsection \<open>Machines with alike providers\<close>

definition with_provider :: "'q \<Rightarrow> 'p VM \<Rightarrow> 'q VM" where
  "with_provider q vm = \<lparr> cpu = cpu vm, memory = memory vm, provider = q, trace = trace vm, loaded = loaded vm,
     stack_top = stack_top vm, stack_limit = stack_limit vm \<rparr>"

lemma with_provider_simps [simp]:
  "cpu (with_provider q vm) = cpu vm" "memory (with_provider q vm) = memory vm" "provider (with_provider q vm) = q"
  "loaded (with_provider q vm) = loaded vm" "stack_top (with_provider q vm) = stack_top vm"
  "stack_limit (with_provider q vm) = stack_limit vm" "trace (with_provider q vm) = trace vm"
  "(with_provider q vm)\<lparr> cpu := c \<rparr> = with_provider q (vm\<lparr> cpu := c \<rparr>)"
  "(with_provider q vm)\<lparr> memory := m \<rparr> = with_provider q (vm\<lparr> memory := m \<rparr>)"
  "(with_provider q vm)\<lparr> loaded := b \<rparr> = with_provider q (vm\<lparr> loaded := b \<rparr>)"
  "(with_provider q vm)\<lparr> stack_top := a \<rparr> = with_provider q (vm\<lparr> stack_top := a \<rparr>)"
  "(with_provider q vm)\<lparr> stack_limit := a \<rparr> = with_provider q (vm\<lparr> stack_limit := a \<rparr>)"
  "(with_provider q vm)\<lparr> trace := t \<rparr> = with_provider q (vm\<lparr> trace := t \<rparr>)"
  "(with_provider q vm)\<lparr> provider := q' \<rparr> = with_provider q' vm"
  "with_provider q (vm\<lparr> provider := p \<rparr>) = with_provider q vm"
  by (simp_all add: with_provider_def)

definition carried :: "'q \<Rightarrow> 'p VM \<Rightarrow> ('a \<times> 'p VM) \<Rightarrow> ('a \<times> 'q VM) \<Rightarrow> bool" where
  "carried q vm a b \<longleftrightarrow> b = apsnd (with_provider q) a \<and> provider (snd a) = provider vm"

lemma set_commutes [simp]:
  "set_register i v (with_provider q vm) = with_provider q (set_register i v vm)"
  "set_pc v (with_provider q vm) = with_provider q (set_pc v vm)"
  "advance decoded (with_provider q vm) = with_provider q (advance decoded vm)"
  "provider (set_register i v vm) = provider vm" "provider (set_pc v vm) = provider vm"
  "provider (advance decoded vm) = provider vm"
  by (simp_all add: set_register_def set_pc_def advance_def)

lemma fault_commutes [simp]: "faultFromMemory (with_provider q vm) = faultFromMemory vm"
  by (rule ext)+ (simp add: faultFromMemory_def)

lemma push_carried: "carried q vm (push v a vm) (push v a (with_provider q vm))"
  by (auto simp: carried_def push_def Let_def split: sum.split)

lemma pop_carried: "carried q vm (pop a vm) (pop a (with_provider q vm))"
  by (auto simp: carried_def pop_def split: sum.split)

lemma exec_alu_carried: "carried q vm (exec_alu opcode d s a vm) (exec_alu opcode d s a (with_provider q vm))"
  by (auto simp: carried_def exec_alu_def Let_def split: sum.split AluError.split)

lemma exec_rest_carried: "carried q vm (exec_rest opcode d s imm a vm) (exec_rest opcode d s imm a (with_provider q vm))"
proof (cases "case findOpcode opcode of Some info \<Rightarrow> oi_is_branch info | None \<Rightarrow> False")
  case True
  show ?thesis unfolding exec_rest_def if_P [OF True] by (simp add: carried_def)
next
  case False
  show ?thesis unfolding exec_rest_def if_not_P [OF False] by (rule exec_alu_carried)
qed

lemmas carried_out = push_carried [unfolded carried_def, THEN conjunct1] pop_carried [unfolded carried_def, THEN conjunct1]

lemma stack_provider:
  "push v a vm = (s, w) \<Longrightarrow> provider w = provider vm" "pop a vm = (r, w) \<Longrightarrow> provider w = provider vm"
  by (auto simp: push_def pop_def Let_def split: if_splits sum.splits)

lemma execute_carried:
  assumes "\<not> (regs_valid i \<and> i_opcode i = OP_SYSCALL)"
  shows "carried q vm (execute first i a vm) (execute second i a (with_provider q vm))"
proof (cases "regs_valid i")
  case True
  note eqs = execute_simps [OF True]
  from True assms have ns: "i_opcode i \<noteq> OP_SYSCALL" by simp
  show ?thesis
  proof (cases "i_opcode i \<in> special_opcodes")
    case False
    then show ?thesis by (simp add: eqs(13) exec_rest_carried)
  next
    case True
    have pop_then: "carried q vm
        (case pop a vm of (Inl e, vm) \<Rightarrow> (Inl e, vm) | (Inr v, vm) \<Rightarrow> (Inr (), f v vm))
        (case pop a (with_provider q vm) of (Inl e, vm) \<Rightarrow> (Inl e, vm) | (Inr v, vm) \<Rightarrow> (Inr (), g v vm))"
      if "\<And>v vm. g v (with_provider q vm) = with_provider q (f v vm)" "\<And>v vm. provider (f v vm) = provider vm"
      for f g
      using that by (auto simp: carried_def carried_out split: sum.splits prod.splits dest: stack_provider)
    have call: "carried q vm
        (case push v a vm of (Inl e, vm) \<Rightarrow> (Inl e, vm) | (Inr _, vm) \<Rightarrow> (Inr (), set_pc t vm))
        (case push v a (with_provider q vm) of (Inl e, vm) \<Rightarrow> (Inl e, vm) | (Inr _, vm) \<Rightarrow> (Inr (), set_pc t vm))"
      for v t
      by (auto simp: carried_def carried_out split: sum.splits prod.splits dest: stack_provider)
    from True ns show ?thesis
      unfolding special_opcodes_def
      by (elim insertE emptyE)
        (simp_all add: eqs push_carried pop_then call,
          simp_all add: carried_def split: sum.split)
  qed
qed (simp add: execute_bad_register carried_def)

locale provider_sim =
  fixes first :: "('e, 'p) provider" and second :: "('e, 'q) provider" and alike :: "'p \<Rightarrow> 'q \<Rightarrow> bool"
  assumes serve: "alike p q \<Longrightarrow> first n c p = (r, c', p') \<Longrightarrow> \<exists>q'. second n c q = (r, c', q') \<and> alike p' q'"
begin

lemma exec_syscall_sim:
  assumes "alike (provider vm) q" and "exec_syscall first imm a vm = (r, vm')"
  shows "\<exists>q'. exec_syscall second imm a (with_provider q vm) = (r, with_provider q' vm') \<and> alike (provider vm') q'"
proof -
  let ?c = "\<lparr> sc_registers = registers (cpu vm), sc_memory = memory vm, sc_halt = False, sc_exit_code = 0 \<rparr>"
  obtain s c' p' where f: "first imm ?c (provider vm) = (s, c', p')" using prod_cases3 by blast
  then obtain q' where "second imm ?c q = (s, c', q')" "alike p' q'" using serve [OF assms(1)] by blast
  then show ?thesis using f assms(2)
    by (intro exI [of _ q']) (auto simp: exec_syscall_def Let_def split: sum.splits if_splits)
qed

lemma execute_sim:
  assumes "alike (provider vm) q" and "execute first i a vm = (r, vm')"
  shows "\<exists>q'. execute second i a (with_provider q vm) = (r, with_provider q' vm') \<and> alike (provider vm') q'"
proof (cases "regs_valid i \<and> i_opcode i = OP_SYSCALL")
  case True
  then show ?thesis using exec_syscall_sim [OF assms(1)] assms(2) by (simp add: execute_simps)
next
  case False
  then have "carried q vm (execute first i a vm) (execute second i a (with_provider q vm))" by (rule execute_carried)
  then show ?thesis using assms by (auto simp: carried_def)
qed

lemma step_sim:
  assumes "alike (provider vm) q" and "step first vm = (r, vm')"
  shows "\<exists>q'. step second (with_provider q vm) = (r, with_provider q' vm') \<and> alike (provider vm') q'"
  using assms execute_sim [of "advance decoded vm" q for decoded]
  by (auto simp: step_def Let_def split: if_splits sum.splits)

lemma run_loop_sim:
  assumes "alike (provider vm) q" and "run_loop first budget n vm = (r, vm')"
  shows "\<exists>q'. run_loop second budget n (with_provider q vm) = (r, with_provider q' vm') \<and> alike (provider vm') q'"
  using assms
proof (induction "unat budget - unat n" arbitrary: n vm q rule: less_induct)
  case less
  note loop = run_loop.simps [of _ _ _ vm] run_loop.simps [of _ _ _ "with_provider q vm"]
  show ?case
  proof (cases "halted (cpu vm) \<or> budget \<le> n")
    case True
    with less.prems show ?thesis
      by (intro exI [of _ q]) (auto simp: loop stopped_def split: if_splits)
  next
    case False
    obtain s w where st: "step first vm = (s, w)" by fastforce
    with step_sim [OF less.prems(1)] obtain q' where
      st': "step second (with_provider q vm) = (s, with_provider q' w)" and a: "alike (provider w) q'" by blast
    show ?thesis
    proof (cases s)
      case (Inl e)
      with False st st' a less.prems(2) show ?thesis
        by (intro exI [of _ q']) (auto simp: loop stopped_def)
    next
      case (Inr u)
      from False have "\<not> budget \<le> n" by simp
      from less.hyps [OF word_increment_measure(1) [OF this] a] False st st' less.prems(2) Inr show ?thesis
        by (simp add: loop)
    qed
  qed
qed

lemma run_sim:
  assumes "alike (provider vm) q" and "run first budget vm = (r, vm')"
  shows "\<exists>q'. run second budget (with_provider q vm) = (r, with_provider q' vm') \<and> alike (provider vm') q'"
  using assms run_loop_sim [OF assms(1), of budget 0]
  by (auto simp: run_def stopped_def split: if_splits)

end

subsection \<open>Cutting the output off\<close>

definition cut_off :: "DefaultProvider \<Rightarrow> CappedProvider" where
  "cut_off p = \<lparr> cp_inner = p\<lparr> dp_output := take kMaxOutputBytes (dp_output p) \<rparr>,
     cp_truncated = (kMaxOutputBytes < length (dp_output p)) \<rparr>"

definition is_cut_off :: "DefaultProvider \<Rightarrow> CappedProvider \<Rightarrow> bool" where
  "is_cut_off p q \<longleftrightarrow> dp_capture p \<and> q = cut_off p"

lemma emit_cut_off:
  assumes "dp_capture p"
  shows "(let inner = emit_output fd bytes (cp_inner (cut_off p)) in
      if length (dp_output inner) > kMaxOutputBytes
      then (cut_off p)\<lparr> cp_inner := inner\<lparr> dp_output := take kMaxOutputBytes (dp_output inner) \<rparr>, cp_truncated := True \<rparr>
      else (cut_off p)\<lparr> cp_inner := inner \<rparr>) = cut_off (emit_output fd bytes p)"
  using assms by (auto simp: Let_def cut_off_def emit_output_def min_def)

lemma take_input_cut_off:
  assumes "dp_capture p" and "take_input n p = (bs, p')"
  shows "take_input n (cp_inner (cut_off p)) = (bs, cp_inner (cut_off p'))" "dp_capture p'"
    "cp_truncated (cut_off p') = cp_truncated (cut_off p)"
  using assms by (auto simp: take_input_def Let_def cut_off_def)

lemma cut_off_short: "\<not> length (dp_output (cp_inner (cut_off p))) > kMaxOutputBytes"
  by (simp add: cut_off_def)

lemma cut_off_eq: "cp_inner q = cp_inner (cut_off p) \<Longrightarrow> cp_truncated q = cp_truncated (cut_off p) \<Longrightarrow> q = cut_off p"
  by simp

lemma capped_sim:
  assumes "dp_capture p" and "default_invoke n c p = (r, c', p')"
  shows "capped_invoke n c (cut_off p) = (r, c', cut_off p')" and "dp_capture p'"
proof -
  consider "n = 1" | "n = 2" | "n \<noteq> 1" "n \<noteq> 2" by blast
  then have "capped_invoke n c (cut_off p) = (r, c', cut_off p') \<and> dp_capture p'"
  proof cases
    case 1
    then show ?thesis
      using assms emit_cut_off [OF assms(1)] cut_off_short [of p]
      by (auto simp: capped_invoke_def default_invoke_def doWrite_def Let_def emit_output_def split: if_splits sum.splits)
  next
    case 2
    obtain bs p1 where t: "take_input (unat (sc_registers c ! kArg3)) p = (bs, p1)" by fastforce
    note ts = take_input_cut_off [OF assms(1) t]
    from 2 assms t ts cut_off_short [of p] cut_off_short [of p1] show ?thesis
      by (auto simp: capped_invoke_def default_invoke_def doRead_def Let_def split: if_splits sum.splits
        intro!: cut_off_eq)
  next
    case 3
    with assms cut_off_short [of p] show ?thesis
      by (auto simp: capped_invoke_def default_invoke_def doAllocate_def split: if_splits sum.splits prod.splits)
  qed
  then show "capped_invoke n c (cut_off p) = (r, c', cut_off p')" and "dp_capture p'" by simp_all
qed

interpretation cutting: provider_sim text_invoke "text_provider syscall_text capped_invoke" is_cut_off
proof
  show "\<exists>q'. text_provider syscall_text capped_invoke n c q = (r, c', q') \<and> is_cut_off p' q'"
    if "is_cut_off p q" "text_invoke n c p = (r, c', p')" for p q n c r c' p'
    using that capped_sim [of p n c]
    by (auto simp: is_cut_off_def text_invoke_def text_provider_def split: prod.splits sum.splits)
qed

subsection \<open>The run of a job, with all its output kept\<close>

text \<open>The same run with an ordinary capturing provider; only its report cuts the output off.\<close>

definition captured_run :: "RunRequest \<Rightarrow> Executable \<Rightarrow> RunReport \<Rightarrow> RunReport" where
  "captured_run request linked rep =
     (case load linked (new_machine (cp_inner (capped_provider (rq_input request)))) of
        (Inl e, _) \<Rightarrow> setError (load_error_text e) (rep\<lparr> rp_stage := Stage_Load \<rparr>)
      | (Inr _, machine) \<Rightarrow>
          let budget = min (max (rq_budget request) 1) kMaxPlaygroundBudget;
              (run_result, machine) = run text_invoke budget machine;
              written = dp_output (provider machine);
              rep = recordState machine (rep\<lparr>
                rp_output := text_of (take kMaxOutputBytes written),
                rp_output_truncated := (kMaxOutputBytes < length written),
                rp_exit_code := rr_exit_code run_result, rp_instructions := rr_instructions run_result \<rparr>)
          in if rr_error run_result \<noteq> VM_None
             then setError (fault_text (rr_message run_result)) (rep\<lparr> rp_stage := Stage_Execute \<rparr>)
             else rep\<lparr> rp_ok := True, rp_stage := Stage_Finished \<rparr>)"

lemma load_with: "load linked (with_provider q vm) = apsnd (with_provider q) (load linked vm)"
  by (auto simp: load_def split: sum.splits prod.splits bool.splits)

lemma load_provider: "load linked vm = (r, vm') \<Longrightarrow> provider vm' = provider vm"
  by (auto simp: load_def split: sum.splits prod.splits bool.splits)

lemma new_with: "with_provider q (new_machine p) = new_machine q"
  by (simp add: with_provider_def new_machine_def)

lemma recordState_with: "recordState (with_provider q machine) rep = recordState machine rep"
  by (simp add: recordState_def)

lemma run_image_captured: "run_image request linked rep = captured_run request linked rep"
proof -
  let ?p = "cp_inner (capped_provider (rq_input request))"
  let ?b = "min (max (rq_budget request) 1) kMaxPlaygroundBudget"
  have start: "is_cut_off ?p (capped_provider (rq_input request))"
    by (simp add: is_cut_off_def cut_off_def capped_provider_def)
  obtain r machine where l: "load linked (new_machine ?p) = (r, machine)" by fastforce
  have l': "load linked (new_machine (capped_provider (rq_input request))) =
      (r, with_provider (capped_provider (rq_input request)) machine)"
    using load_with [of linked "capped_provider (rq_input request)" "new_machine ?p"] l by (simp add: new_with)
  have p: "provider machine = ?p" using load_provider [OF l] by (simp add: new_machine_def)
  obtain res after_run where rn: "run text_invoke ?b machine = (res, after_run)" by fastforce
  from cutting.run_sim [OF _ rn, of "capped_provider (rq_input request)"] start p obtain q' where
    rn': "run (text_provider syscall_text capped_invoke) ?b (with_provider (capped_provider (rq_input request)) machine) =
      (res, with_provider q' after_run)" and q': "is_cut_off (provider after_run) q'" by auto
  show ?thesis
  proof (cases r)
    case (Inl e)
    then show ?thesis by (simp add: run_image_def captured_run_def l l')
  next
    case (Inr u)
    with q' show ?thesis
      by (simp add: run_image_def captured_run_def l l' rn rn' Let_def recordState_with is_cut_off_def cut_off_def)
  qed
qed

text \<open>
  C36: cutting the output of a job off is a display decision: the report of a run whose provider keeps
  at most the limit is the report of the run with an unlimited provider, its output cut to the limit
  at the end and marked as truncated exactly when the program wrote more than that.
\<close>

theorem playground_run_is_captured_run: "run_image request linked rep = captured_run request linked rep"
  by (rule run_image_captured)

subsection \<open>Every job has a report\<close>

lemma set_counts [simp]:
  "instruction_count (cpu (set_register i v vm)) = instruction_count (cpu vm)"
  "instruction_count (cpu (set_pc v vm)) = instruction_count (cpu vm)"
  "instruction_count (cpu (advance decoded vm)) = instruction_count (cpu vm) + 1"
  "loaded (set_register i v vm) = loaded vm" "loaded (set_pc v vm) = loaded vm" "loaded (advance decoded vm) = loaded vm"
  by (simp_all add: set_register_def set_pc_def advance_def)

lemma parts_count:
  "push v a vm = (r1, w) \<Longrightarrow> instruction_count (cpu w) = instruction_count (cpu vm) \<and> loaded w = loaded vm"
  "pop a vm = (r2, w) \<Longrightarrow> instruction_count (cpu w) = instruction_count (cpu vm) \<and> loaded w = loaded vm"
  "exec_syscall invoke imm a vm = (r1, w) \<Longrightarrow> instruction_count (cpu w) = instruction_count (cpu vm) \<and> loaded w = loaded vm"
  "exec_rest opcode d s imm a vm = (r1, w) \<Longrightarrow> instruction_count (cpu w) = instruction_count (cpu vm) \<and> loaded w = loaded vm"
  by (auto simp: push_def pop_def exec_syscall_def exec_rest_def exec_alu_def Let_def
    split: if_splits sum.splits prod.splits option.splits AluError.splits)

lemma execute_count:
  assumes "execute invoke i a vm = (r, w)"
  shows "instruction_count (cpu w) = instruction_count (cpu vm) \<and> loaded w = loaded vm"
proof (cases "regs_valid i")
  case False
  with assms show ?thesis by (auto simp: execute_bad_register)
next
  case True
  note eqs = execute_simps [OF True]
  show ?thesis
  proof (cases "i_opcode i \<in> special_opcodes")
    case False
    with assms eqs(13) parts_count(4) show ?thesis by metis
  next
    case True
    then show ?thesis
      using assms unfolding special_opcodes_def
      by (elim insertE emptyE) (auto simp: eqs split: prod.splits sum.splits dest!: parts_count)
  qed
qed

lemma step_count:
  assumes "step invoke vm = (r, w)" and "loaded vm" and "\<not> halted (cpu vm)"
  shows "instruction_count (cpu w) = instruction_count (cpu vm) + 1 \<and> loaded w \<or> w = vm \<and> (\<exists>e. r = Inl e)"
  using assms by (auto simp: step_def Let_def split: if_splits sum.splits dest: execute_count)

lemma run_loop_count:
  assumes "loaded vm" and "instruction_count (cpu vm) = n" and "n \<le> budget" and "run_loop invoke budget n vm = (r, w)"
  shows "rr_instructions r \<le> budget"
  using assms
proof (induction "unat budget - unat n" arbitrary: n vm rule: less_induct)
  case less
  note loop = run_loop.simps [of _ _ _ vm]
  show ?case
  proof (cases "halted (cpu vm) \<or> budget \<le> n")
    case True
    with less.prems show ?thesis by (auto simp: loop stopped_def split: if_splits)
  next
    case False
    then have nb: "\<not> budget \<le> n" by simp
    note up = word_increment_measure [OF nb]
    have le: "n + 1 \<le> budget" using nb up(2) by (simp add: word_le_nat_alt)
    obtain s v where st: "step invoke vm = (s, v)" by fastforce
    from step_count [OF st less.prems(1)] False
    have c: "instruction_count (cpu v) = n + 1 \<and> loaded v \<or> v = vm \<and> (\<exists>e. s = Inl e)" using less.prems(2) by simp
    show ?thesis
    proof (cases s)
      case (Inl e)
      with c le less.prems False st show ?thesis by (auto simp: loop stopped_def)
    next
      case (Inr u)
      with c have "loaded v" "instruction_count (cpu v) = n + 1" by auto
      from less.hyps [OF up(1) this le] less.prems(4) False st Inr show ?thesis by (simp add: loop)
    qed
  qed
qed

lemma run_count:
  assumes "instruction_count (cpu vm) = 0" and "run invoke budget vm = (r, w)"
  shows "rr_instructions r \<le> budget"
  using assms run_loop_count [of vm 0 budget invoke r w] by (auto simp: run_def split: if_splits)

text \<open>What every report satisfies; \<open>rp_error\<close> may be empty, where the diagnostics say it all.\<close>

definition report_in_bounds :: "RunReport \<Rightarrow> bool" where
  "report_in_bounds rep \<longleftrightarrow> rp_ok rep = (rp_stage rep = Stage_Finished) \<and> length (rp_output rep) \<le> kMaxOutputBytes \<and>
     rp_instructions rep \<le> kMaxPlaygroundBudget \<and> (rp_output_truncated rep \<longrightarrow> length (rp_output rep) = kMaxOutputBytes)"

lemma setError_keeps [simp]: "rp_stage (setError message rep) = rp_stage rep" "rp_ok (setError message rep) = rp_ok rep"
  "rp_output (setError message rep) = rp_output rep" "rp_instructions (setError message rep) = rp_instructions rep"
  "rp_output_truncated (setError message rep) = rp_output_truncated rep"
  by (simp_all add: setError_def)

lemma captured_run_bounds:
  assumes "rp_output rep = []" and "rp_instructions rep = 0" and "\<not> rp_output_truncated rep" and "\<not> rp_ok rep"
  shows "report_in_bounds (captured_run request linked rep)"
proof -
  obtain r machine where l: "load linked (new_machine (cp_inner (capped_provider (rq_input request)))) = (r, machine)" by fastforce
  show ?thesis
  proof (cases r)
    case (Inl e)
    with l assms show ?thesis by (simp add: captured_run_def report_in_bounds_def)
  next
    case (Inr u)
    let ?b = "min (max (rq_budget request) 1) kMaxPlaygroundBudget"
    obtain res w where rn: "run text_invoke ?b machine = (res, w)" by fastforce
    have "instruction_count (cpu machine) = 0"
      using l Inr by (auto simp: load_def initial_cpu_def split: sum.splits prod.splits bool.splits)
    from run_count [OF this rn] have "rr_instructions res \<le> kMaxPlaygroundBudget" by simp
    with l Inr rn assms show ?thesis
      by (simp add: captured_run_def report_in_bounds_def recordState_def Let_def)
  qed
qed

lemma assembleSource_returns:
  assumes "ao_opt_level options = O0"
  shows "\<exists>r d. assembleSource sources file engine options = Some (r, d)"
proof -
  obtain r p where p: "parse (start_parser (start_lexer (source_text sources file) file) engine) = (r, p)" by fastforce
  have lower: "\<exists>x d''. lower_program ss name d = Some (x, d'')" if "analyze ss e = (True, d)" for ss name d e
    using that analyze_accepts [of ss e] lower_program_result [of ss name d] by auto
  show ?thesis
  proof (cases r)
    case (Inr ss)
    obtain ok d where a: "analyze ss (pa_engine p) = (ok, d)" by fastforce
    show ?thesis
    proof (cases ok)
      case True
      with a have a': "analyze ss (pa_engine p) = (True, d)" by simp
      obtain x d'' where l: "lower_program ss (source_name sources file) d = Some (x, d'')"
        using lower [OF a', of "source_name sources file"] by blast
      show ?thesis
      proof (cases x)
        case (Inr module)
        obtain y d3 where "assemble module d'' = (y, d3)" by fastforce
        with p \<open>r = Inr ss\<close> a True l Inr assms show ?thesis
          by (cases y) (auto simp: assembleSource_def run_optimizer_O0 Let_def)
      qed (use p Inr a True l in \<open>auto simp: assembleSource_def\<close>)
    qed (use p Inr a in \<open>auto simp: assembleSource_def\<close>)
  qed (use p in \<open>auto simp: assembleSource_def\<close>)
qed



text \<open>What the provider of a job writes to the second descriptor is kept whole.\<close>

lemma error_output_is_not_capped:
  assumes "dp_capture (cp_inner q)" and "sc_registers c ! kArg1 = 2" and "sc_registers c ! kArg3 = len" and "len \<le> kMaxTransfer"
    and "readBytes (sc_memory c) (sc_registers c ! kArg2) (unat len) = Inr bytes"
  shows "\<exists>r c' q'. capped_invoke 1 c q = (r, c', q') \<and>
    dp_error_output (cp_inner q') = dp_error_output (cp_inner q) @ bytes"
  using assms by (auto simp: capped_invoke_def default_invoke_def doWrite_def Let_def emit_output_def not_le split: if_splits)

end
