(* ===== verification/Http.thy ===== *)
theory Http
  imports Session Debugger
begin

text \<open>
  src/playground/http_server.cpp: the JSON of a report, the decoding of the address, the reading of a
  request from a connection and its routing.  The page itself is an argument.  A connection is the
  list of the byte strings \<open>recv\<close> delivers, its end the end of the list; \<open>None\<close> of a handler is an
  exception of the toolchain behind it.
\<close>

definition dq :: char where "dq = CHR 0x22"
definition backslash :: char where "backslash = CHR 0x5C"
definition crlf :: string where "crlf = [CHR 0x0D, CHR 0x0A]"

subsection \<open>JSON\<close>

text \<open>The length of the sequence a byte starts and the range of its second byte; length 0 for none.\<close>

definition lead_bounds :: "nat \<Rightarrow> nat \<times> nat \<times> nat" where
  "lead_bounds b =
     (if 0xC2 \<le> b \<and> b \<le> 0xDF then (2, 0x80, 0xBF)
      else if b = 0xE0 then (3, 0xA0, 0xBF)
      else if 0xE1 \<le> b \<and> b \<le> 0xEC then (3, 0x80, 0xBF)
      else if b = 0xED then (3, 0x80, 0x9F)
      else if 0xEE \<le> b \<and> b \<le> 0xEF then (3, 0x80, 0xBF)
      else if b = 0xF0 then (4, 0x90, 0xBF)
      else if 0xF1 \<le> b \<and> b \<le> 0xF3 then (4, 0x80, 0xBF)
      else if b = 0xF4 then (4, 0x80, 0x8F)
      else (0, 0x80, 0xBF))"

text \<open>The length of the valid multi-byte sequence at the start of the text, if there is one.\<close>

definition sequence_length :: "string \<Rightarrow> nat option" where
  "sequence_length s =
     (let (n, low, high) = lead_bounds (char_code (hd s));
          bytes = map char_code s
      in if n \<noteq> 0 \<and> n \<le> length s \<and>
            list_all (\<lambda>k. (if k = 1 then low else 0x80) \<le> bytes ! k \<and> bytes ! k \<le> (if k = 1 then high else 0xBF)) [1..<n]
         then Some n else None)"

definition replacement :: string where
  "replacement = [CHR 0xEF, CHR 0xBF, CHR 0xBD]"

definition escape_byte :: "char \<Rightarrow> string" where
  "escape_byte c =
     (if c = dq then [backslash, dq]
      else if c = backslash then [backslash, backslash]
      else if c = newline then [backslash, CHR ''n'']
      else if c = CHR 0x0D then [backslash, CHR ''r'']
      else if c = CHR 0x09 then [backslash, CHR ''t'']
      else if char_code c < 0x20
      then [backslash, CHR ''u''] @ map lowercase (pad_left (CHR ''0'') 4 (hex_digits (char_code c) []))
      else [c])"

function json_body :: "string \<Rightarrow> string" where
  "json_body s =
     (if s = [] then []
      else if char_code (hd s) < 0x80 then escape_byte (hd s) @ json_body (tl s)
      else case sequence_length s of
             Some n \<Rightarrow> take n s @ json_body (drop n s)
           | None \<Rightarrow> replacement @ json_body (tl s))"
  by auto

lemma sequence_length_bounds: "sequence_length s = Some n \<Longrightarrow> 2 \<le> n \<and> n \<le> 4 \<and> n \<le> length s"
  by (auto simp: sequence_length_def lead_bounds_def Let_def split: if_splits)

termination json_body
  by (relation "measure length") (auto dest: sequence_length_bounds)

declare json_body.simps [simp del]

definition json_string :: "string \<Rightarrow> string" where
  "json_string s = dq # json_body s @ [dq]"

text \<open>\<open>out\<close> and \<open>first\<close> are the pair the fields are appended to.\<close>

definition appendRaw :: "string \<Rightarrow> string \<Rightarrow> string \<times> bool \<Rightarrow> string \<times> bool" where
  "appendRaw name value p = (fst p @ (if snd p then [] else '','') @ json_string name @ '':'' @ value, False)"

definition appendField :: "string \<Rightarrow> string \<Rightarrow> string \<times> bool \<Rightarrow> string \<times> bool" where
  "appendField name value p =
     (fst p @ (if snd p then [] else '','') @ json_string name @ '':'' @ json_string value, False)"

definition json_bool :: "bool \<Rightarrow> string" where
  "json_bool b = (if b then ''true'' else ''false'')"

fun json_registers :: "u64 list \<Rightarrow> string" where
  "json_registers [] = []"
| "json_registers [r] = json_string (num r)"
| "json_registers (r # rs) = json_string (num r) @ '','' @ json_registers rs"

definition json_stats :: "OptStats \<Rightarrow> string" where
  "json_stats s = ''{'' @ [dq] @ ''total'' @ [dq] @ '':'' @ num (stats_total s) @ '','' @
     [dq] @ ''summary'' @ [dq] @ '':'' @ json_string (summary s) @ ''}''"

definition toJson :: "RunReport \<Rightarrow> string" where
  "toJson rep =
     (let out = (''{'', True);
          out = appendRaw ''ok'' (json_bool (rp_ok rep)) out;
          out = appendField ''stage'' (stageName (rp_stage rep)) out;
          out = appendField ''diagnostics'' (rp_diagnostics rep) out;
          out = appendField ''error'' (rp_error rep) out;
          out = appendField ''output'' (rp_output rep) out;
          out = appendRaw ''output_truncated'' (json_bool (rp_output_truncated rep)) out;
          out = appendField ''disassembly'' (rp_disassembly rep) out;
          out = appendRaw ''ran'' (json_bool (rp_stage rep = Stage_Execute \<or> rp_stage rep = Stage_Finished)) out;
          out = appendField ''exit_code'' (num (rp_exit_code rep)) out;
          out = appendField ''instructions'' (num (rp_instructions rep)) out;
          out = appendField ''pc'' (num (rp_pc rep)) out;
          out = appendField ''sp'' (num (rp_sp rep)) out;
          out = appendField ''flags'' (num (rp_flags rep)) out;
          out = appendRaw ''registers'' (''['' @ json_registers (rp_registers rep) @ '']'') out;
          out = appendRaw ''stats'' (json_stats (rp_stats rep)) out
      in fst out @ ''}'')"

subsection \<open>The address\<close>

definition hexDigit :: "char \<Rightarrow> nat option" where
  "hexDigit c =
     (let b = char_code c in
      if 48 \<le> b \<and> b \<le> 57 then Some (b - 48)
      else if 97 \<le> b \<and> b \<le> 102 then Some (b - 97 + 10)
      else if 65 \<le> b \<and> b \<le> 70 then Some (b - 65 + 10)
      else None)"

fun urlDecode :: "string \<Rightarrow> string" where
  "urlDecode [] = []"
| "urlDecode (c # cs) =
     (if c = CHR ''+'' then CHR '' '' # urlDecode cs
      else case cs of
             h # l # rest \<Rightarrow>
               if c = CHR ''%''
               then (case (hexDigit h, hexDigit l) of
                       (Some high, Some low) \<Rightarrow> char_of (high * 16 + low) # urlDecode rest
                     | _ \<Rightarrow> CHR ''%'' # urlDecode cs)
               else c # urlDecode cs
           | _ \<Rightarrow> c # urlDecode cs)"

definition pathOf :: "string \<Rightarrow> string" where
  "pathOf target = takeWhile (\<lambda>c. c \<noteq> CHR ''?'') target"

definition queryOf :: "string \<Rightarrow> string" where
  "queryOf target = drop 1 (dropWhile (\<lambda>c. c \<noteq> CHR ''?'') target)"

function queryValue :: "string \<Rightarrow> string \<Rightarrow> string" where
  "queryValue query key =
     (let pair = takeWhile (\<lambda>c. c \<noteq> CHR ''&'') query;
          rest = dropWhile (\<lambda>c. c \<noteq> CHR ''&'') query;
          name = takeWhile (\<lambda>c. c \<noteq> CHR ''='') pair
      in if length name < length pair \<and> name = key then urlDecode (drop (length name + 1) pair)
         else if rest = [] then []
         else queryValue (tl rest) key)"
  by auto

termination queryValue
proof (relation "measure (\<lambda>(query, key). length query)")
  fix query key :: string and pair rest name :: string
  assume "rest = dropWhile (\<lambda>c. c \<noteq> CHR ''&'') query" "rest \<noteq> []"
  then have "length (tl rest) < length rest" "length rest \<le> length query" by (simp_all add: length_dropWhile_le)
  then show "((tl rest, key), (query, key)) \<in> measure (\<lambda>(query, key). length query)" by (simp del: length_tl)
qed simp

declare queryValue.simps [simp del]

subsection \<open>Requests\<close>

definition kMaxRequestBytes :: nat where "kMaxRequestBytes = 1024 * 1024"

fun statusText :: "nat \<Rightarrow> string" where
  "statusText status =
     (if status = 200 then ''OK'' else if status = 400 then ''Bad Request'' else if status = 404 then ''Not Found''
      else if status = 405 then ''Method Not Allowed'' else if status = 413 then ''Payload Too Large''
      else ''Internal Server Error'')"

text \<open>\<open>std::string::find\<close>\<close>

fun find_text :: "string \<Rightarrow> string \<Rightarrow> nat option" where
  "find_text pattern [] = (if pattern = [] then Some 0 else None)"
| "find_text pattern (c # cs) =
     (if take (length pattern) (c # cs) = pattern then Some 0 else map_option Suc (find_text pattern cs))"

definition header_line :: "string \<Rightarrow> nat \<Rightarrow> nat" where
  "header_line line content_length =
     (case find_text '':'' line of
        None \<Rightarrow> content_length
      | Some colon \<Rightarrow>
          if map lowercase (take colon line) = ''content-length''
          then (case from_chars 10 (2 ^ 64) (dropWhile (\<lambda>c. c = CHR '' '') (drop (colon + 1) line)) of
                  None \<Rightarrow> content_length | Some (v, _) \<Rightarrow> nat v)
          else content_length)"

function header_lines :: "string \<Rightarrow> nat \<Rightarrow> nat" where
  "header_lines headers content_length =
     (if headers = [] then content_length
      else case find_text crlf headers of
             None \<Rightarrow> header_line headers content_length
           | Some stop \<Rightarrow> header_lines (drop (stop + 2) headers) (header_line (take stop headers) content_length))"
  by auto

termination header_lines
  by (relation "measure (\<lambda>(headers, content_length). length headers)") auto

declare header_lines.simps [simp del]

fun read_request :: "string list \<Rightarrow> string \<Rightarrow> nat option \<Rightarrow> string option" where
  "read_request chunks request header_end =
     (let header_end = (case header_end of None \<Rightarrow> find_text (crlf @ crlf) request | Some h \<Rightarrow> Some h);
          status = (case header_end of
              None \<Rightarrow> None
            | Some h \<Rightarrow>
                let content_length = header_lines (take h request) 0 in
                if content_length > kMaxRequestBytes then Some None
                else if length request \<ge> h + 4 + content_length then Some (Some request)
                else None)
      in case status of
           Some answer \<Rightarrow> answer
         | None \<Rightarrow>
             if length request > kMaxRequestBytes then None
             else case chunks of
                    [] \<Rightarrow> None
                  | chunk # chunks \<Rightarrow> if chunk = [] then None else read_request chunks (request @ chunk) header_end)"

declare read_request.simps [simp del]

definition readRequest :: "string list \<Rightarrow> string option" where
  "readRequest chunks = read_request chunks [] None"

subsection \<open>Responses\<close>

record HttpResponse =
  hr_status :: nat
  hr_content_type :: string
  hr_body :: string

definition response :: "nat \<Rightarrow> string \<Rightarrow> string \<Rightarrow> HttpResponse" where
  "response status content_type body = \<lparr> hr_status = status, hr_content_type = content_type, hr_body = body \<rparr>"

definition plain :: string where "plain = ''text/plain; charset=utf-8''"

definition sendResponse :: "HttpResponse \<Rightarrow> string" where
  "sendResponse r =
     ''HTTP/1.1 '' @ nat_str (hr_status r) @ '' '' @ statusText (hr_status r) @ crlf @
     ''Content-Type: '' @ hr_content_type r @ crlf @
     ''Content-Length: '' @ nat_str (length (hr_body r)) @ crlf @
     ''Cache-Control: no-store'' @ crlf @ ''Connection: close'' @ crlf @ crlf @ hr_body r"

definition handleRequest :: "string \<Rightarrow> string \<Rightarrow> string \<Rightarrow> string \<Rightarrow> HttpResponse option" where
  "handleRequest page method target body =
     (let path = pathOf target in
      if path = ''/'' \<or> path = ''/index.html'' then
        (if method \<noteq> ''GET'' then Some (response 405 plain (''method not allowed'' @ [newline]))
         else Some (response 200 ''text/html; charset=utf-8'' page))
      else if path = ''/api/run'' then
        (if method \<noteq> ''POST'' then Some (response 405 plain (''method not allowed'' @ [newline]))
         else if length body > kMaxSourceBytes then Some (response 413 plain (''source too large'' @ [newline]))
         else
           let query = queryOf target;
               request = default_request\<lparr> rq_source := body, rq_input := queryValue query ''stdin'',
                 rq_opt_level := (if queryValue query ''opt'' = ''1'' then O1 else O0) \<rparr>
           in map_option (\<lambda>rep. response 200 ''application/json; charset=utf-8'' (toJson rep)) (runSource request))
      else Some (response 404 plain (''not found'' @ [newline])))"

text \<open>One connection of \<open>serve\<close>: \<open>None\<close> when it is closed without an answer.\<close>

definition answer_request :: "string \<Rightarrow> string \<Rightarrow> HttpResponse option" where
  "answer_request page request =
     (case (find_text crlf request, find_text (crlf @ crlf) request) of
        (Some stop, Some header_end) \<Rightarrow>
          let line = take stop request in
          (case find_text '' '' line of
             None \<Rightarrow> Some (response 400 plain (''bad request line'' @ [newline]))
           | Some first_space \<Rightarrow>
               let others = drop (first_space + 1) line in
               (case find_text '' '' others of
                  None \<Rightarrow> Some (response 400 plain (''bad request line'' @ [newline]))
                | Some k \<Rightarrow> handleRequest page (take first_space line) (take k others) (drop (header_end + 4) request)))
      | _ \<Rightarrow> Some (response 400 plain (''bad request'' @ [newline])))"

definition serve_connection :: "string \<Rightarrow> string list \<Rightarrow> string option option" where
  "serve_connection page chunks =
     (case readRequest chunks of
        None \<Rightarrow> Some None
      | Some request \<Rightarrow> map_option (\<lambda>r. Some (sendResponse r)) (answer_request page request))"

end
