(* ===== verification/Http_Safety.thy ===== *)
theory Http_Safety
  imports Http
begin

text \<open>
  What the transport of the playground guarantees: every report is sent as JSON strings of well-formed
  UTF-8, lossless on text; what the page puts into the address is what the program reads; a request
  is understood however the network cuts it up.
\<close>

subsection \<open>UTF-8\<close>

definition scalar :: "nat \<Rightarrow> bool" where
  "scalar cp \<longleftrightarrow> cp < 0x110000 \<and> \<not> (0xD800 \<le> cp \<and> cp \<le> 0xDFFF)"

definition utf8_bytes :: "nat \<Rightarrow> nat list" where
  "utf8_bytes cp =
     (if cp < 0x80 then [cp]
      else if cp < 0x800 then [0xC0 + cp div 64, 0x80 + cp mod 64]
      else if cp < 0x10000 then [0xE0 + cp div 4096, 0x80 + cp div 64 mod 64, 0x80 + cp mod 64]
      else [0xF0 + cp div 262144, 0x80 + cp div 4096 mod 64, 0x80 + cp div 64 mod 64, 0x80 + cp mod 64])"

definition utf8_char :: "nat \<Rightarrow> string" where
  "utf8_char cp = map char_of (utf8_bytes cp)"

text \<open>Well-formed text is a sequence of encoded Unicode scalar values.\<close>

inductive utf8 :: "string \<Rightarrow> bool" where
  utf8_Nil: "utf8 []"
| utf8_Cons: "scalar cp \<Longrightarrow> utf8 s \<Longrightarrow> utf8 (utf8_char cp @ s)"

lemma code_char_of: "char_code (char_of n) = n mod 256"
  by (simp add: char_code_def)

lemma char_of_code [simp]: "char_of (char_code c) = c"
  by (simp add: char_code_def)

lemma code_less [simp]: "char_code c < 256"
  by (simp add: char_code_def)

lemma utf8_char_length: "length (utf8_char cp) = (if cp < 0x80 then 1 else if cp < 0x800 then 2 else if cp < 0x10000 then 3 else 4)"
  by (simp add: utf8_char_def utf8_bytes_def)

lemma utf8_ascii: "char_code c < 0x80 \<Longrightarrow> utf8 s \<Longrightarrow> utf8 (c # s)"
  using utf8_Cons [of "char_code c" s] by (simp add: scalar_def utf8_char_def utf8_bytes_def)

lemma sextet: "(c::nat) < 64 \<Longrightarrow> (a * 64 + c) div 64 = a \<and> (a * 64 + c) mod 64 = c"
  by simp

lemma sextets:
  fixes n :: nat
  shows "n = n div 4096 * 4096 + n div 64 mod 64 * 64 + n mod 64"
    and "n = n div 262144 * 262144 + n div 4096 mod 64 * 4096 + n div 64 mod 64 * 64 + n mod 64"
proof -
  have "n div 64 div 64 = n div 4096" "n div 4096 div 64 = n div 262144" by (simp_all add: div_mult2_eq [symmetric])
  moreover have "n = n div 64 * 64 + n mod 64" "n div 64 = n div 64 div 64 * 64 + n div 64 mod 64"
    "n div 4096 = n div 4096 div 64 * 64 + n div 4096 mod 64" by simp_all
  ultimately show "n = n div 4096 * 4096 + n div 64 mod 64 * 64 + n mod 64"
    "n = n div 262144 * 262144 + n div 4096 mod 64 * 4096 + n div 64 mod 64 * 64 + n mod 64" by linarith+
qed

lemma sequence_of_scalar:
  assumes "scalar cp" and "0x80 \<le> cp"
  shows "sequence_length (utf8_char cp @ s) = Some (length (utf8_char cp))" and "0x80 \<le> char_code (hd (utf8_char cp))"
    and "utf8_char cp \<noteq> []"
proof -
  consider "cp < 0x800" | "0x800 \<le> cp" "cp < 0x10000" | "0x10000 \<le> cp" by linarith
  then have "sequence_length (utf8_char cp @ s) = Some (length (utf8_char cp)) \<and> 0x80 \<le> char_code (hd (utf8_char cp)) \<and> utf8_char cp \<noteq> []"
  proof cases
    case 1
    define a b where "a = cp div 64" and "b = cp mod 64"
    have ab: "2 \<le> a" "a < 32" "b < 64" using 1 assms(2) by (auto simp: a_def b_def)
    have u: "utf8_char cp = [char_of (0xC0 + a), char_of (0x80 + b)]"
      using 1 assms(2) by (simp add: utf8_char_def utf8_bytes_def a_def b_def)
    show ?thesis using ab by (simp add: u sequence_length_def lead_bounds_def code_char_of upt_rec)
  next
    case 2
    define a b c where "a = cp div 4096" and "b = cp div 64 mod 64" and "c = cp mod 64"
    have cp: "cp = a * 4096 + b * 64 + c" unfolding a_def b_def c_def by (rule sextets)
    have abc: "a < 16" "b < 64" "c < 64" using 2 by (auto simp: a_def b_def c_def)
    have "a = 0 \<Longrightarrow> 32 \<le> b" using 2 cp abc by linarith
    moreover have "a = 13 \<Longrightarrow> b < 32" using assms(1) cp abc by (auto simp: scalar_def)
    moreover have u: "utf8_char cp = [char_of (0xE0 + a), char_of (0x80 + b), char_of (0x80 + c)]"
      using 2 by (simp add: utf8_char_def utf8_bytes_def a_def b_def c_def)
    ultimately show ?thesis using abc by (auto simp: u sequence_length_def lead_bounds_def code_char_of upt_rec Let_def)
  next
    case 3
    define a b c d where "a = cp div 262144" and "b = cp div 4096 mod 64" and "c = cp div 64 mod 64" and "d = cp mod 64"
    have cp: "cp = a * 262144 + b * 4096 + c * 64 + d" unfolding a_def b_def c_def d_def by (rule sextets)
    have abc: "a < 5" "b < 64" "c < 64" "d < 64" using assms(1) by (auto simp: scalar_def a_def b_def c_def d_def)
    have "a = 4 \<or> a < 4" using abc by linarith
    moreover have "a = 0 \<Longrightarrow> 16 \<le> b" using 3 cp abc by linarith
    moreover have "a = 4 \<Longrightarrow> b < 16" using assms(1) cp abc by (auto simp: scalar_def)
    moreover have u: "utf8_char cp = [char_of (0xF0 + a), char_of (0x80 + b), char_of (0x80 + c), char_of (0x80 + d)]"
      using 3 by (simp add: utf8_char_def utf8_bytes_def a_def b_def c_def d_def)
    ultimately show ?thesis using abc by (auto simp: u sequence_length_def lead_bounds_def code_char_of upt_rec Let_def)
  qed
  then show "sequence_length (utf8_char cp @ s) = Some (length (utf8_char cp))" "0x80 \<le> char_code (hd (utf8_char cp))"
    "utf8_char cp \<noteq> []" by blast+
qed

lemma scalar_of_sequence:
  assumes "sequence_length s = Some n"
  shows "\<exists>cp. scalar cp \<and> utf8_char cp = take n s"
proof -
  note n = sequence_length_bounds [OF assms]
  then have "s \<noteq> []" by auto
  then obtain c0 s1 where s: "s = c0 # s1" by (cases s) auto
  define w where "w = char_code c0"
  consider "n = 2" | "n = 3" | "n = 4" using n by linarith
  then show ?thesis
  proof cases
    case 1
    then obtain c1 s2 where s1: "s1 = c1 # s2" using n s by (cases s1) auto
    define x where "x = char_code c1"
    have b: "0xC2 \<le> w" "w \<le> 0xDF" "0x80 \<le> x" "x \<le> 0xBF"
      using assms 1 by (auto simp: s s1 w_def x_def sequence_length_def lead_bounds_def upt_rec Let_def split: if_splits)
    define a b where "a = w - 0xC0" and "b = x - 0x80"
    have ab: "2 \<le> a" "a < 32" "b < 64" and wx: "w = 0xC0 + a" "x = 0x80 + b" using b by (auto simp: a_def b_def)
    define cp where "cp = a * 64 + b"
    have "0x80 \<le> cp" "cp < 0x800" "cp div 64 = a" "cp mod 64 = b" using ab by (auto simp: cp_def)
    then have "scalar cp" "utf8_char cp = [char_of w, char_of x]" by (simp_all add: wx scalar_def utf8_char_def utf8_bytes_def)
    then show ?thesis using 1 by (auto simp: s s1 w_def x_def)
  next
    case 2
    then obtain c1 c2 s3 where s1: "s1 = c1 # c2 # s3" using n s by (cases s1; cases "tl s1") auto
    define x y where "x = char_code c1" and "y = char_code c2"
    have b: "0xE0 \<le> w" "w \<le> 0xEF" "0x80 \<le> x" "x \<le> 0xBF" "0x80 \<le> y" "y \<le> 0xBF" "w = 0xE0 \<Longrightarrow> 0xA0 \<le> x" "w = 0xED \<Longrightarrow> x \<le> 0x9F"
      using assms 2 by (auto simp: s s1 w_def x_def y_def sequence_length_def lead_bounds_def upt_rec Let_def split: if_splits)
    define a b c where "a = w - 0xE0" and "b = x - 0x80" and "c = y - 0x80"
    have wxy: "w = 0xE0 + a" "x = 0x80 + b" "y = 0x80 + c" using b by (simp_all add: a_def b_def c_def)
    have abc: "a < 16" "b < 64" "c < 64" "a = 0 \<Longrightarrow> 32 \<le> b" "a = 13 \<Longrightarrow> b < 32"
      using b(2,4,6-8) unfolding wxy by auto
    define cp where "cp = a * 4096 + b * 64 + c"
    have e: "cp = (a * 64 + b) * 64 + c" by (simp add: cp_def)
    have "cp div 64 = a * 64 + b" "cp mod 64 = c" unfolding e using sextet [OF abc(3)] by blast+
    moreover from this have "cp div 64 div 64 = a" "cp div 64 mod 64 = b"
      by (simp_all only: sextet [OF abc(2)])
    moreover have "cp div 4096 = cp div 64 div 64" by (simp add: div_mult2_eq [symmetric])
    ultimately have "cp div 4096 = a" "cp div 64 mod 64 = b" "cp mod 64 = c" by simp_all
    moreover have "0x800 \<le> cp" using abc by (cases "a = 0") (simp_all add: cp_def)
    moreover have "cp < 0x10000" using abc(1-3) by (simp add: cp_def)
    moreover have "cp < 0xD800 \<or> 0xDFFF < cp"
    proof -
      consider "a < 13" | "a = 13" | "13 < a" by linarith
      then show ?thesis using abc by cases (simp_all add: cp_def)
    qed
    ultimately have "scalar cp" "utf8_char cp = [char_of w, char_of x, char_of y]"
      by (auto simp: wxy utf8_char_def utf8_bytes_def scalar_def)
    then show ?thesis using 2 by (auto simp: s s1 w_def x_def y_def)
  next
    case 3
    then obtain c1 c2 c3 s4 where s1: "s1 = c1 # c2 # c3 # s4" using n s by (cases s1; cases "tl s1"; cases "tl (tl s1)") auto
    define x y z where "x = char_code c1" and "y = char_code c2" and "z = char_code c3"
    have b: "0xF0 \<le> w" "w \<le> 0xF4" "0x80 \<le> x" "x \<le> 0xBF" "0x80 \<le> y" "y \<le> 0xBF" "0x80 \<le> z" "z \<le> 0xBF"
      "w = 0xF0 \<Longrightarrow> 0x90 \<le> x" "w = 0xF4 \<Longrightarrow> x \<le> 0x8F"
      using assms 3 by (auto simp: s s1 w_def x_def y_def z_def sequence_length_def lead_bounds_def upt_rec Let_def split: if_splits)
    define a b c d where "a = w - 0xF0" and "b = x - 0x80" and "c = y - 0x80" and "d = z - 0x80"
    have wxy: "w = 0xF0 + a" "x = 0x80 + b" "y = 0x80 + c" "z = 0x80 + d" using b by (simp_all add: a_def b_def c_def d_def)
    have abc: "a < 5" "b < 64" "c < 64" "d < 64" "a = 0 \<Longrightarrow> 16 \<le> b" "a = 4 \<Longrightarrow> b < 16"
      using b(2,4,6,8-10) unfolding wxy by auto
    define cp where "cp = a * 262144 + b * 4096 + c * 64 + d"
    have e: "cp = ((a * 64 + b) * 64 + c) * 64 + d" by (simp add: cp_def)
    have "cp div 64 = (a * 64 + b) * 64 + c" "cp mod 64 = d" unfolding e using sextet [OF abc(4)] by blast+
    moreover from this have "cp div 64 div 64 = a * 64 + b" "cp div 64 mod 64 = c"
      by (simp_all only: sextet [OF abc(3)])
    moreover from this have "cp div 64 div 64 div 64 = a" "cp div 64 div 64 mod 64 = b"
      by (simp_all only: sextet [OF abc(2)])
    moreover have "cp div 4096 = cp div 64 div 64" "cp div 262144 = cp div 64 div 64 div 64"
      by (simp_all add: div_mult2_eq [symmetric])
    ultimately have "cp div 262144 = a" "cp div 4096 mod 64 = b" "cp div 64 mod 64 = c" "cp mod 64 = d"
      by simp_all
    moreover have "0x10000 \<le> cp" using abc by (cases "a = 0") (simp_all add: cp_def)
    moreover have "cp < 0x110000"
    proof -
      consider "a < 4" | "a = 4" using abc(1) by linarith
      then show ?thesis using abc by cases (simp_all add: cp_def)
    qed
    ultimately have "scalar cp" "utf8_char cp = [char_of w, char_of x, char_of y, char_of z]"
      by (simp_all add: wxy utf8_char_def utf8_bytes_def scalar_def)
    then show ?thesis using 3 by (auto simp: s s1 w_def x_def y_def z_def)
  qed
qed

subsection \<open>JSON strings\<close>

text \<open>A reader of the rest of a JSON string literal after its opening quote: its text and what follows.\<close>

definition read_escape :: "string \<Rightarrow> (char \<times> string) option" where
  "read_escape s =
     (case s of
        [] \<Rightarrow> None
      | e # rest \<Rightarrow>
          if e = dq \<or> e = backslash then Some (e, rest)
          else if e = CHR ''n'' then Some (newline, rest)
          else if e = CHR ''r'' then Some (CHR 0x0D, rest)
          else if e = CHR ''t'' then Some (CHR 0x09, rest)
          else if e = CHR ''u'' \<and> 4 \<le> length rest
          then (case map hexDigit (take 4 rest) of
                  [Some 0, Some 0, Some high, Some low] \<Rightarrow>
                    if high < 8 then Some (char_of (high * 16 + low), drop 4 rest) else None
                | _ \<Rightarrow> None)
          else None)"

function json_read :: "string \<Rightarrow> (string \<times> string) option" where
  "json_read s =
     (if s = [] then None
      else if hd s = dq then Some ([], tl s)
      else if char_code (hd s) < 0x20 then None
      else if hd s = backslash
      then (case read_escape (tl s) of
              None \<Rightarrow> None
            | Some (c, rest) \<Rightarrow> map_option (apfst ((#) c)) (json_read rest))
      else map_option (apfst ((#) (hd s))) (json_read (tl s)))"
  by auto

lemma read_escape_shorter: "read_escape s = Some (c, rest) \<Longrightarrow> length rest < length s"
  by (auto simp: read_escape_def split: list.splits if_splits option.splits nat.splits)

termination json_read
  by (relation "measure length") (auto dest: read_escape_shorter)

declare json_read.simps [simp del]

lemma json_read_plain:
  "c \<noteq> dq \<Longrightarrow> c \<noteq> backslash \<Longrightarrow> 0x20 \<le> char_code c \<Longrightarrow>
   json_read (c # rest) = map_option (apfst ((#) c)) (json_read rest)"
  by (simp add: json_read.simps [of "c # rest"])

lemma json_read_high:
  assumes "\<forall>c \<in> set s. 0x80 \<le> char_code c" and "json_read rest = Some (t, r)"
  shows "json_read (s @ rest) = Some (s @ t, r)"
  using assms
proof (induction s)
  case (Cons c s)
  have "c \<noteq> dq" "c \<noteq> backslash" using Cons.prems by (auto simp: dq_def backslash_def char_code_def)
  with Cons show ?case by (simp add: json_read_plain)
qed simp

lemma json_read_escape:
  assumes "char_code c < 0x80" and "json_read rest = Some (t, r)"
  shows "json_read (escape_byte c @ rest) = Some (c # t, r)"
proof (cases "c \<in> {dq, backslash, newline, CHR 0x0D, CHR 0x09} \<or> char_code c < 0x20")
  case False
  with assms show ?thesis by (simp add: escape_byte_def json_read_plain)
next
  case True
  have low_digit: "d < 16 \<Longrightarrow> hexDigit (lowercase (hex_digit d)) = Some d" for d
    by (auto simp: hexDigit_def lowercase_def hex_digit_def char_code_def Let_def)
  have zero: "hexDigit (lowercase (CHR ''0'')) = Some 0" by (simp add: hexDigit_def lowercase_def char_code_def)
  have h: "length h = 4 \<and> map hexDigit h = [Some 0, Some 0, Some (char_code c div 16), Some (char_code c mod 16)]"
    if "h = map lowercase (pad_left (CHR ''0'') 4 (hex_digits (char_code c) []))" "char_code c < 32" for h
  proof (cases "char_code c < 16")
    case True
    then show ?thesis unfolding that(1)
      by (simp add: hex_digits.simps [of "char_code c"] pad_left_def low_digit zero numeral_3_eq_3)
  next
    case False
    have "char_code c div 16 < 16" using that(2) by linarith
    with False show ?thesis unfolding that(1)
      by (simp add: hex_digits.simps [of "char_code c"] hex_digits.simps [of "char_code c div 16"] pad_left_def low_digit zero numeral_2_eq_2)
  qed
  have "json_read (backslash # s) = (case read_escape s of None \<Rightarrow> None
      | Some (c, rest) \<Rightarrow> map_option (apfst ((#) c)) (json_read rest))" for s
    by (simp add: json_read.simps [of "backslash # s"]) (simp add: backslash_def dq_def char_code_def)
  moreover have "\<exists>s. escape_byte c = backslash # s \<and> read_escape (s @ rest) = Some (c, rest)"
  proof (cases "c \<in> {dq, backslash, newline, CHR 0x0D, CHR 0x09}")
    case True
    then show ?thesis by (auto simp: escape_byte_def read_escape_def dq_def backslash_def)
  next
    case other: False
    with True have low: "char_code c < 32" by blast
    let ?h = "map lowercase (pad_left (CHR ''0'') 4 (hex_digits (char_code c) []))"
    note hh = h [OF refl low]
    have "char_of (char_code c div 16 * 16 + char_code c mod 16) = c" by simp
    then have "read_escape (CHR ''u'' # ?h @ rest) = Some (c, rest)"
      using hh low by (simp add: read_escape_def dq_def backslash_def less_mult_imp_div_less)
    then show ?thesis using other low by (simp add: escape_byte_def)
  qed
  ultimately show ?thesis using assms(2) by auto
qed

lemma utf8_head: "utf8 s \<Longrightarrow> s \<noteq> [] \<Longrightarrow> \<exists>cp s'. scalar cp \<and> utf8 s' \<and> s = utf8_char cp @ s'"
  by (erule utf8.cases) auto

lemma utf8_char_high: "0x80 \<le> cp \<Longrightarrow> c \<in> set (utf8_char cp) \<Longrightarrow> scalar cp \<Longrightarrow> 0x80 \<le> char_code c"
proof -
  have "cp < 0x110000 \<Longrightarrow> 0x80 \<le> cp \<Longrightarrow> b \<in> set (utf8_bytes cp) \<Longrightarrow> 0x80 \<le> b \<and> b < 256" for b
    by (auto simp: utf8_bytes_def less_mult_imp_div_less split: if_splits)
  then show "0x80 \<le> cp \<Longrightarrow> c \<in> set (utf8_char cp) \<Longrightarrow> scalar cp \<Longrightarrow> 0x80 \<le> char_code c"
    by (auto simp: utf8_char_def scalar_def code_char_of)
qed

lemma utf8_char_low: "cp < 0x80 \<Longrightarrow> utf8_char cp = [char_of cp]"
  by (simp add: utf8_char_def utf8_bytes_def)

lemma utf8_replacement: "utf8 s \<Longrightarrow> utf8 (replacement @ s)"
proof -
  have "map char_code replacement = map char_code (utf8_char 0xFFFD)"
    by (simp add: replacement_def utf8_char_def utf8_bytes_def char_code_def)
  moreover have "inj char_code" by (rule inj_on_inverseI) (rule char_of_code)
  ultimately have "replacement = utf8_char 0xFFFD" by (simp add: inj_map_eq_map)
  then show "utf8 s \<Longrightarrow> utf8 (replacement @ s)" using utf8_Cons [of "0xFFFD" s] by (simp add: scalar_def)
qed

text \<open>
  C38: whatever bytes a program prints or a user types, the report carries them as a JSON string that
  every JSON reader takes for well-formed UTF-8 and that ends where the server ended it; text that is
  well-formed UTF-8 already arrives unchanged.
\<close>

theorem json_strings_are_safe:
  "\<exists>t. json_read (json_body s @ [dq] @ rest) = Some (t, rest) \<and> utf8 t \<and> (utf8 s \<longrightarrow> t = s)"
proof (induction s rule: json_body.induct)
  case (1 s)
  show ?case
  proof (cases "s = []")
    case True
    then show ?thesis by (auto simp: json_body.simps json_read.simps [of "dq # rest"] intro: utf8_Nil)
  next
    case ne: False
    then have hd: "s = hd s # tl s" by simp
    show ?thesis
    proof (cases "char_code (hd s) < 0x80")
      case low: True
      then obtain t where t: "json_read (json_body (tl s) @ [dq] @ rest) = Some (t, rest)" "utf8 t" "utf8 (tl s) \<longrightarrow> t = tl s"
        using 1(1) ne by blast
      have "utf8 (tl s)" if u: "utf8 s"
      proof -
        obtain cp s' where cp: "scalar cp" "utf8 s'" "s = utf8_char cp @ s'" using utf8_head [OF u ne] by blast
        have "cp < 0x80" using sequence_of_scalar(2,3) [OF cp(1)] cp(3) low by (metis hd_append2 not_le)
        with cp show ?thesis by (simp add: utf8_char_low)
      qed
      with t low ne hd have "json_read (json_body s @ [dq] @ rest) = Some (hd s # t, rest) \<and> utf8 (hd s # t) \<and> (utf8 s \<longrightarrow> hd s # t = s)"
        using json_read_escape [OF low t(1)] utf8_ascii [OF low t(2)] by (auto simp: json_body.simps [of s])
      then show ?thesis by blast
    next
      case high: False
      show ?thesis
      proof (cases "sequence_length s")
        case None
        then obtain t where t: "json_read (json_body (tl s) @ [dq] @ rest) = Some (t, rest)" "utf8 t" using 1(2) ne high by blast
        have "\<not> utf8 s"
        proof
          assume "utf8 s"
          then obtain cp s' where cp: "scalar cp" "s = utf8_char cp @ s'" using utf8_head ne by blast
          have "0x80 \<le> cp" using cp(2) high utf8_char_low [of cp] by (cases "cp < 0x80") (auto simp: code_char_of)
          with cp sequence_of_scalar(1) None show False by simp
        qed
        moreover have "\<forall>c \<in> set replacement. 0x80 \<le> char_code c" by (simp add: replacement_def char_code_def)
        ultimately show ?thesis using json_read_high [OF _ t(1)] utf8_replacement [OF t(2)] ne high None
          by (auto simp: json_body.simps [of s])
      next
        case (Some n)
        then obtain t where t: "json_read (json_body (drop n s) @ [dq] @ rest) = Some (t, rest)" "utf8 t"
          "utf8 (drop n s) \<longrightarrow> t = drop n s" using 1(3) ne high by blast
        note n = sequence_length_bounds [OF Some]
        obtain cp where cp: "scalar cp" "utf8_char cp = take n s" using scalar_of_sequence [OF Some] by blast
        have big: "0x80 \<le> cp" using cp(2) n utf8_char_length [of cp] by (auto split: if_splits)
        have "\<forall>c \<in> set (take n s). 0x80 \<le> char_code c" using utf8_char_high [OF big _ cp(1)] cp(2) by simp
        then have r: "json_read (take n s @ json_body (drop n s) @ [dq] @ rest) = Some (take n s @ t, rest)"
          by (rule json_read_high [OF _ t(1)])
        have u: "utf8 (take n s @ t)" using utf8_Cons [OF cp(1) t(2)] cp(2) by simp
        have "utf8 (drop n s)" if u: "utf8 s"
        proof -
          obtain cq s' where cq: "scalar cq" "utf8 s'" "s = utf8_char cq @ s'" using utf8_head [OF u ne] by blast
          have "0x80 \<le> cq" using cq(3) high utf8_char_low [of cq] by (cases "cq < 0x80") (auto simp: code_char_of)
          then have "n = length (utf8_char cq)" using sequence_of_scalar(1) [OF cq(1)] Some cq(3) by simp
          with cq show ?thesis by simp
        qed
        then have "utf8 s \<longrightarrow> take n s @ t = s" using t(3) by simp
        with r u ne high Some show ?thesis by (auto simp: json_body.simps [of s])
      qed
    qed
  qed
qed

theorem json_strings_are_safe_witness:
  "json_read (json_body [CHR ''a'', newline] @ [dq] @ '',1'') = Some ([CHR ''a'', newline], '',1'')"
proof -
  have "utf8 [CHR ''a'', newline]" by (intro utf8_ascii utf8_Nil) (simp_all add: char_code_def)
  then show ?thesis using json_strings_are_safe [of "[CHR ''a'', newline]" "'',1''"] by auto
qed

subsection \<open>The address\<close>

text \<open>What \<open>URLSearchParams\<close> of the page makes of a parameter.\<close>

definition unreserved :: "char \<Rightarrow> bool" where
  "unreserved c \<longleftrightarrow> isDigit c \<or> isIdentifierStart c \<or> c \<in> {CHR ''*'', CHR ''-'', CHR ''.''}"

definition form_char :: "char \<Rightarrow> string" where
  "form_char c =
     (if c = CHR '' '' then ''+'' else if unreserved c then [c]
      else [CHR ''%'', hex_digit (char_code c div 16), hex_digit (char_code c mod 16)])"

definition form_encode :: "string \<Rightarrow> string" where
  "form_encode s = concat (map form_char s)"

lemma hexDigit_hex_digit: "d < 16 \<Longrightarrow> hexDigit (hex_digit d) = Some d"
  by (auto simp: hexDigit_def hex_digit_def char_code_def Let_def)

lemma urlDecode_plain: "c \<noteq> CHR ''+'' \<Longrightarrow> c \<noteq> CHR ''%'' \<Longrightarrow> urlDecode (c # cs) = c # urlDecode cs"
  by (auto split: list.split)

lemma urlDecode_other:
  "urlDecode (CHR ''+'' # cs) = CHR '' '' # urlDecode cs"
  "hexDigit h = Some high \<Longrightarrow> hexDigit l = Some low \<Longrightarrow> urlDecode (CHR ''%'' # h # l # cs) = char_of (high * 16 + low) # urlDecode cs"
  by simp_all

lemma urlDecode_form: "urlDecode (form_encode s) = s"
proof (induction s)
  case (Cons c s)
  have "urlDecode (form_char c @ rest) = c # urlDecode rest" for rest
  proof -
    have "c \<noteq> CHR ''+'' \<and> c \<noteq> CHR ''%''" if "unreserved c"
      using that by (auto simp: unreserved_def isDigit_def isIdentifierStart_def char_code_def)
    moreover have "char_code c div 16 < 16" using code_less [of c] by (simp add: less_mult_imp_div_less)
    ultimately show ?thesis by (simp add: form_char_def urlDecode_plain urlDecode_other hexDigit_hex_digit del: urlDecode.simps(2))
  qed
  with Cons show ?case by (simp add: form_encode_def)
qed (simp add: form_encode_def)

definition separator :: "char \<Rightarrow> bool" where
  "separator c \<longleftrightarrow> c \<in> {CHR ''&'', CHR ''?'', CHR '' '', CHR ''=''}"

lemma form_encode_clean: "c \<in> set (form_encode s) \<Longrightarrow> \<not> separator c"
proof -
  have "\<not> separator x" if "unreserved x" for x
    using that by (auto simp: separator_def unreserved_def isDigit_def isIdentifierStart_def char_code_def)
  moreover have "unreserved (hex_digit d)" if "d < 16" for d
    using that by (auto simp: unreserved_def isDigit_def isIdentifierStart_def hex_digit_def char_code_def)
  moreover have "char_code x div 16 < 16" for x using code_less [of x] by (simp add: less_mult_imp_div_less)
  moreover have "\<not> separator (CHR ''+'')" "\<not> separator (CHR ''%'')" by (simp_all add: separator_def)
  ultimately have "c \<in> set (form_char x) \<Longrightarrow> \<not> separator c" for x
    by (auto simp: form_char_def split: if_splits)
  then show "c \<in> set (form_encode s) \<Longrightarrow> \<not> separator c" by (auto simp: form_encode_def)
qed

lemma takeWhile_stop: "\<forall>x \<in> set xs. P x \<Longrightarrow> \<not> P y \<Longrightarrow> takeWhile P (xs @ y # ys) = xs \<and> dropWhile P (xs @ y # ys) = y # ys"
  by (induction xs) auto

text \<open>The two parameters of the page, in its order.\<close>

definition page_query :: "string \<Rightarrow> string \<Rightarrow> string" where
  "page_query opt input = ''opt='' @ form_encode opt @ ''&stdin='' @ form_encode input"

lemma page_query_values: "queryValue (page_query opt input) ''opt'' = opt \<and> queryValue (page_query opt input) ''stdin'' = input"
proof -
  let ?first = "''opt='' @ form_encode opt" and ?second = "''stdin='' @ form_encode input"
  have "page_query opt input = ?first @ CHR ''&'' # ?second" by (simp add: page_query_def)
  moreover have "\<forall>c \<in> set ?first. c \<noteq> CHR ''&''" using form_encode_clean [of _ opt] by (auto simp: separator_def)
  ultimately have q: "takeWhile (\<lambda>c. c \<noteq> CHR ''&'') (page_query opt input) = ?first"
    "dropWhile (\<lambda>c. c \<noteq> CHR ''&'') (page_query opt input) = CHR ''&'' # ?second"
    using takeWhile_stop [of ?first "\<lambda>c. c \<noteq> CHR ''&''" "CHR ''&''" ?second] by simp_all
  have all: "takeWhile (\<lambda>c. c \<noteq> CHR ''&'') ?second = ?second"
    using form_encode_clean [of _ input] by (auto simp: takeWhile_eq_all_conv separator_def)
  have names: "takeWhile (\<lambda>c. c \<noteq> CHR ''='') ?first = ''opt''" "takeWhile (\<lambda>c. c \<noteq> CHR ''='') ?second = ''stdin''" by simp_all
  have "queryValue ?second ''stdin'' = input"
    by (subst queryValue.simps, unfold Let_def all names) (simp add: urlDecode_form)
  moreover have "queryValue (page_query opt input) ''stdin'' = queryValue ?second ''stdin''"
    by (subst queryValue.simps, unfold Let_def q names) simp
  moreover have "queryValue (page_query opt input) ''opt'' = opt"
    by (subst queryValue.simps, unfold Let_def q names) (simp add: urlDecode_form)
  ultimately show ?thesis by simp
qed

text \<open>
  C39: the request the page sends is the job the user asked for: the source is the body as it was
  typed, the input of the program is the text of the input field whatever characters it has, the
  optimizer runs exactly when it was chosen, and the answer is the report of that job as JSON.
\<close>

theorem page_request_runs_source:
  "handleRequest page ''POST'' (''/api/run?'' @ page_query opt input) body =
     (if length body > kMaxSourceBytes then Some (response 413 plain (''source too large'' @ [newline]))
      else map_option (\<lambda>rep. response 200 ''application/json; charset=utf-8'' (toJson rep))
             (runSource (default_request\<lparr> rq_source := body, rq_input := input,
                rq_opt_level := (if opt = ''1'' then O1 else O0) \<rparr>)))"
proof -
  have "pathOf (''/api/run?'' @ q) = ''/api/run''" "queryOf (''/api/run?'' @ q) = q" for q
    by (simp_all add: pathOf_def queryOf_def)
  then show ?thesis using page_query_values [of opt input] unfolding handleRequest_def Let_def by simp
qed

subsection \<open>Requests\<close>

lemma find_text_fits: "find_text p xs = Some h \<Longrightarrow> h + length p \<le> length xs"
proof (induction xs arbitrary: h)
  case (Cons x xs)
  show ?case
  proof (cases "take (length p) (x # xs) = p")
    case True
    then have "length (take (length p) (x # xs)) = length p" by simp
    then have "length p \<le> length (x # xs)" unfolding length_take by linarith
    with True Cons.prems show ?thesis by simp
  next
    case False
    with Cons show ?thesis by auto
  qed
qed (auto split: if_splits)

lemma find_text_append: "find_text p xs = Some h \<Longrightarrow> find_text p (xs @ ys) = Some h"
proof (induction xs arbitrary: h)
  case Nil
  then show ?case by (cases ys) (auto split: if_splits)
next
  case (Cons x xs)
  have "length p \<le> length (x # xs)" using find_text_fits [OF Cons.prems] by simp
  then have "take (length p) ((x # xs) @ ys) = take (length p) (x # xs)"
    by (simp only: take_append diff_is_0_eq' take0 append_Nil2)
  with Cons show ?case by (auto split: if_splits)
qed

text \<open>A request is complete with the body its header announces.\<close>

definition complete :: "string \<Rightarrow> bool" where
  "complete r \<longleftrightarrow> (case find_text (crlf @ crlf) r of
     None \<Rightarrow> False | Some h \<Rightarrow> length r = h + 4 + header_lines (take h r) 0)"

lemma completeE:
  assumes "complete r"
  obtains h where "find_text (crlf @ crlf) r = Some h" and "length r = h + 4 + header_lines (take h r) 0"
proof (cases "find_text (crlf @ crlf) r")
  case None
  with assms show ?thesis unfolding complete_def by simp
next
  case (Some h)
  with assms have "length r = h + 4 + header_lines (take h r) 0" unfolding complete_def by (simp only: option.case)
  with Some show ?thesis by (rule that)
qed

lemma read_request_complete:
  assumes "complete r" and "length r \<le> kMaxRequestBytes" and "req @ concat chunks = r" and "[] \<notin> set chunks"
    and "case he of None \<Rightarrow> True | Some h \<Rightarrow> find_text (crlf @ crlf) req = Some h"
  shows "read_request chunks req he = Some r"
  using assms(3-5)
proof (induction chunks arbitrary: req he)
  case Nil
  obtain h where h: "find_text (crlf @ crlf) r = Some h" "length r = h + 4 + header_lines (take h r) 0"
    by (rule completeE [OF assms(1)])
  have r: "req = r" using Nil by simp
  have he: "(case he of None \<Rightarrow> find_text (crlf @ crlf) r | Some h \<Rightarrow> Some h) = Some h"
    using h(1) Nil(3) unfolding r by (cases he) simp_all
  have fits: "\<not> header_lines (take h r) 0 > kMaxRequestBytes" "h + 4 + header_lines (take h r) 0 \<le> length r"
    using h(2) assms(2) by linarith+
  show ?case unfolding r read_request.simps [of "[]"] Let_def he option.case if_not_P [OF fits(1)] if_P [OF fits(2)] ..
next
  case (Cons chunk chunks)
  have chunk: "chunk \<noteq> []" "[] \<notin> set chunks" using Cons.prems by auto
  have r: "(req @ chunk) @ concat chunks = r" using Cons.prems(1) by simp
  have less: "length req < length r" using chunk(1) r by auto
  obtain h where h: "find_text (crlf @ crlf) r = Some h" "length r = h + 4 + header_lines (take h r) 0"
    by (rule completeE [OF assms(1)])
  let ?he = "case he of None \<Rightarrow> find_text (crlf @ crlf) req | Some h \<Rightarrow> Some h"
  have he: "?he = find_text (crlf @ crlf) req" using Cons.prems(3) by (auto split: option.splits)
  have keeps: "case ?he of None \<Rightarrow> True | Some h \<Rightarrow> find_text (crlf @ crlf) (req @ chunk) = Some h"
    unfolding he using find_text_append by (auto split: option.splits)
  note IH = Cons.IH [OF r chunk(2) keeps]
  show ?case
  proof (cases "find_text (crlf @ crlf) req")
    case None
    with IH he chunk(1) less assms(2) show ?thesis by (simp add: read_request.simps [of "chunk # chunks"])
  next
    case (Some k)
    have "k = h" using find_text_append [OF Some, of "chunk @ concat chunks"] r h(1) by simp
    moreover have "k \<le> length req" using find_text_fits [OF Some] by simp
    then have "take k req = take k r" unfolding r [symmetric] by simp
    ultimately have e: "header_lines (take k req) 0 = header_lines (take h r) 0" "k = h" by simp_all
    have f: "\<not> k + 4 + header_lines (take k req) 0 \<le> length req" "\<not> kMaxRequestBytes < header_lines (take k req) 0"
      "\<not> kMaxRequestBytes < length req"
      using h(2) less assms(2) e by linarith+
    have found: "?he = Some k" unfolding he by (rule Some)
    have "read_request (chunk # chunks) req he = read_request chunks (req @ chunk) (Some k)"
      unfolding read_request.simps [of "chunk # chunks"] Let_def found option.case list.case
        if_not_P [OF f(1)] if_not_P [OF f(2)] if_not_P [OF f(3)] if_not_P [OF chunk(1)] ..
    then show ?thesis using IH unfolding found by simp
  qed
qed

text \<open>
  C40: a complete request of at most the permitted size is read as it was sent, however the network
  cuts it into pieces: the connection delivers its bytes, all of them, and nothing else.
\<close>

theorem request_framing:
  assumes "complete r" and "length r \<le> kMaxRequestBytes" and "concat chunks = r" and "[] \<notin> set chunks"
  shows "readRequest chunks = Some r"
  using read_request_complete [OF assms(1,2), of "[]" chunks None] assms(3,4) by (simp add: readRequest_def)

definition sample_request :: string where
  "sample_request = ''POST /api/run HTTP/1.1'' @ crlf @ ''Content-Length: 2'' @ crlf @ crlf @ ''ab''"

theorem request_framing_witness:
  "readRequest [take 30 sample_request, drop 30 sample_request] = Some sample_request"
proof -
  have "complete sample_request" by code_simp
  moreover have "length sample_request \<le> kMaxRequestBytes" by (simp add: sample_request_def crlf_def kMaxRequestBytes_def)
  moreover have "[] \<notin> set [take 30 sample_request, drop 30 sample_request]" by (simp add: sample_request_def crlf_def)
  ultimately show ?thesis
    using request_framing [of sample_request "[take 30 sample_request, drop 30 sample_request]"] by simp
qed

end
