(* ===== verification/Files.thy ===== *)
theory Files
  imports Error_Text
begin

text \<open>
  The functions that open files: \<open>readFileBytes\<close>, \<open>writeFileBytes\<close>, \<open>writeObject\<close> and \<open>readObject\<close> of
  src/object/object_io.cpp and \<open>writeExecutable\<close> and \<open>readExecutable\<close> of src/executable/executable_io.cpp,
  over a file system that maps the path of each file that can be opened for reading to its bytes and
  says which paths can be opened for writing.  A path is its text.  A device that fails after a
  file was opened is not modelled.
\<close>

record FileSystem =
  fs_files :: "string \<Rightarrow> u8 list option"
  fs_writable :: "string \<Rightarrow> bool"

definition readFileBytes :: "string \<Rightarrow> FileSystem \<Rightarrow> (string, u8 list) expected" where
  "readFileBytes path fs =
     (case fs_files fs path of
        None \<Rightarrow> Inl (''cannot open '' @ quoted path @ '' for reading'')
      | Some bytes \<Rightarrow> Inr bytes)"

definition writeFileBytes :: "string \<Rightarrow> u8 list \<Rightarrow> FileSystem \<Rightarrow> (string, unit) expected \<times> FileSystem" where
  "writeFileBytes path bytes fs =
     (if \<not> fs_writable fs path then (Inl (''cannot open '' @ quoted path @ '' for writing''), fs)
      else (Inr (), fs\<lparr> fs_files := (fs_files fs)(path := Some bytes) \<rparr>))"

definition writeObject :: "ObjectFile \<Rightarrow> string \<Rightarrow> FileSystem \<Rightarrow> (string, unit) expected \<times> FileSystem" where
  "writeObject ob path fs =
     (case writeObjectToBuffer ob of
        Inl e \<Rightarrow> (Inl (object_write_text e), fs)
      | Inr buffer \<Rightarrow> writeFileBytes path buffer fs)"

definition readObject :: "string \<Rightarrow> FileSystem \<Rightarrow> (string, ObjectFile) expected" where
  "readObject path fs =
     (case readFileBytes path fs of
        Inl e \<Rightarrow> Inl e
      | Inr bytes \<Rightarrow>
          (case readObjectFromBuffer bytes of
             Inl e \<Rightarrow> Inl (path @ '': '' @ object_read_text e)
           | Inr ob \<Rightarrow> Inr ob))"

definition writeExecutable :: "Executable \<Rightarrow> string \<Rightarrow> FileSystem \<Rightarrow> (string, unit) expected \<times> FileSystem" where
  "writeExecutable executable path fs =
     (case writeExecutableToBuffer executable of
        Inl e \<Rightarrow> (Inl (executable_write_text e), fs)
      | Inr buffer \<Rightarrow> writeFileBytes path buffer fs)"

definition readExecutable :: "string \<Rightarrow> FileSystem \<Rightarrow> (string, Executable) expected" where
  "readExecutable path fs =
     (case readFileBytes path fs of
        Inl e \<Rightarrow> Inl e
      | Inr bytes \<Rightarrow>
          (case readExecutableFromBuffer bytes of
             Inl e \<Rightarrow> Inl (path @ '': '' @ executable_read_text e)
           | Inr executable \<Rightarrow> Inr executable))"

text \<open>What a write leaves to be read, and that it touches no other file.\<close>

lemma writeFileBytes_result:
  assumes "writeFileBytes path bytes fs = (r, fs')"
  shows "fs_writable fs' = fs_writable fs"
    and "case r of Inl _ \<Rightarrow> fs' = fs | Inr _ \<Rightarrow> fs_files fs' = (fs_files fs)(path := Some bytes)"
    and "r = Inr u \<longleftrightarrow> fs_writable fs path"
  using assms by (auto simp: writeFileBytes_def split: if_splits sum.splits)

end
