(* ===== verification/Cli.thy ===== *)
theory Cli
  imports Session Files Debugger_Commands
begin

text \<open>
  src/cli/main.cpp: the driver.  A command gets the parsed arguments and the shell, that is the file
  system and the streams of the process, and returns its exit code and the shell it leaves; \<open>None\<close> is
  an exception or undefined behaviour inside the toolchain.  The text the driver prints and the bytes
  a program writes to the same streams are kept apart, so the order between the two is not modelled;
  of the standard input, \<open>sh_lines\<close> are the lines the debugger reads and \<open>sh_stdin\<close> the bytes a program
  reads.
\<close>

record Shell =
  sh_fs :: FileSystem
  sh_out :: string
  sh_err :: string
  sh_lines :: "string list"
  sh_stdin :: "u8 list"
  sh_program_out :: "u8 list"
  sh_program_err :: "u8 list"

definition kVersion :: string where "kVersion = ''1.0.0''"
definition kUsageError :: nat where "kUsageError = 2"
definition kToolError :: nat where "kToolError = 1"

text \<open>\<open>printLine\<close> and \<open>std::fputs\<close> on the two streams\<close>

definition put_out :: "string \<Rightarrow> Shell \<Rightarrow> Shell" where
  "put_out txt shell = shell\<lparr> sh_out := sh_out shell @ txt \<rparr>"

definition put_err :: "string \<Rightarrow> Shell \<Rightarrow> Shell" where
  "put_err txt shell = shell\<lparr> sh_err := sh_err shell @ txt \<rparr>"

definition printLine :: "string \<Rightarrow> Shell \<Rightarrow> Shell" where
  "printLine txt shell = put_out (txt @ [newline]) shell"

definition printError :: "string \<Rightarrow> Shell \<Rightarrow> Shell" where
  "printError txt shell = put_err (txt @ [newline]) shell"

definition usage_lines :: "string list" where
  "usage_lines =
     [''minitool '' @ kVersion @ '' - a complete toolchain for the MiniToolchain 64-bit virtual ISA'',
      [],
      ''usage: minitool <command> [options]'',
      [],
      ''  build <src...> -o <exe>       assemble and link in one step'',
      ''  assemble <src> -o <obj>       assemble one source file'',
      ''  link <obj...> -o <exe>        link object files'',
      ''  run <exe>                     execute a program'',
      ''  disassemble <exe>             print the program as assembly'',
      ''  debug <exe>                   start the interactive debugger'',
      ''  objdump <obj>                 describe an object file'',
      ''  verify <exe>                  validate an executable image'',
      ''  isa                           print the instruction table'',
      ''  decode <hex-word>             decode one 64-bit instruction word'',
      ''  bench [iterations]            run the built-in benchmarks'',
      ''  serve                         open the playground UI in a browser'',
      ''  version                       print the version'',
      [],
      ''options:'',
      ''  -o <path>        output file'',
      ''  -O0 | -O1        optimization level (default -O0)'',
      ''  -g | -gno        emit or omit debug line information (default -g)'',
      ''  --entry <name>   entry symbol for link/build (default _start)'',
      ''  --trace          print every instruction as it executes'',
      ''  --max-instructions <n>   stop a run after n instructions'',
      ''  --stats          report what the optimizer did'',
      ''  -x <command>     run a debugger command before going interactive'',
      ''  --port <n>       port for `serve` (default 8080)'',
      ''  --host <addr>    bind address for `serve` (default 127.0.0.1)'']"

definition usage :: "Shell \<Rightarrow> nat \<times> Shell" where
  "usage shell = (kUsageError, fold printLine usage_lines shell)"

subsection \<open>Arguments\<close>

record Arguments =
  ag_inputs :: "string list"
  ag_output :: string
  ag_entry :: string
  ag_commands :: "string list"
  ag_opt_level :: OptLevel
  ag_debug_info :: bool
  ag_trace :: bool
  ag_stats :: bool
  ag_show_bytes :: bool
  ag_max_instructions :: u64
  ag_port :: u64
  ag_host :: string
  ag_error :: string

definition no_arguments :: Arguments where
  "no_arguments = \<lparr> ag_inputs = [], ag_output = [], ag_entry = ''_start'', ag_commands = [], ag_opt_level = O0,
     ag_debug_info = True, ag_trace = False, ag_stats = False, ag_show_bytes = True,
     ag_max_instructions = kDefaultBudget, ag_port = 8080, ag_host = ''127.0.0.1'', ag_error = [] \<rparr>"

text \<open>\<open>None\<close> is the result \<open>false\<close>, after which no caller looks at the output parameter.\<close>

definition parseU64 :: "string \<Rightarrow> u64 option" where
  "parseU64 txt =
     (let base = (if has_hex_prefix txt then 16 else 10);
          digits = (if has_hex_prefix txt then drop 2 txt else txt)
      in case from_chars base (2 ^ 64) digits of
           Some (v, []) \<Rightarrow> Some (of_int v)
         | _ \<Rightarrow> None)"

definition set_port :: "string \<Rightarrow> Arguments \<Rightarrow> Arguments" where
  "set_port value ps =
     (case parseU64 value of
        Some port \<Rightarrow>
          let ps = ps\<lparr> ag_port := port \<rparr>
          in if port = 0 \<or> port > 65535 then ps\<lparr> ag_error := ''--port needs a number between 1 and 65535'' \<rparr>
             else ps
      | None \<Rightarrow> ps\<lparr> ag_error := ''--port needs a number between 1 and 65535'' \<rparr>)"

definition set_max_instructions :: "string \<Rightarrow> Arguments \<Rightarrow> Arguments" where
  "set_max_instructions value ps =
     (case parseU64 value of
        Some n \<Rightarrow> ps\<lparr> ag_max_instructions := n \<rparr>
      | None \<Rightarrow> ps\<lparr> ag_error := ''--max-instructions needs a number'' \<rparr>)"

text \<open>The options that take the next argument as their value.\<close>

definition value_option :: "string \<Rightarrow> (string \<Rightarrow> Arguments \<Rightarrow> Arguments) option" where
  "value_option arg =
     (if arg = ''-o'' then Some (\<lambda>value ps. ps\<lparr> ag_output := value \<rparr>)
      else if arg = ''--entry'' then Some (\<lambda>value ps. ps\<lparr> ag_entry := value \<rparr>)
      else if arg = ''-x'' then Some (\<lambda>value ps. ps\<lparr> ag_commands := ag_commands ps @ [value] \<rparr>)
      else if arg = ''--port'' then Some set_port
      else if arg = ''--host'' then Some (\<lambda>value ps. ps\<lparr> ag_host := value \<rparr>)
      else if arg = ''--max-instructions'' then Some set_max_instructions
      else None)"

definition plain_argument :: "string \<Rightarrow> Arguments \<Rightarrow> Arguments" where
  "plain_argument arg ps =
     (if arg = ''-O0'' then ps\<lparr> ag_opt_level := O0 \<rparr>
      else if arg = ''-O1'' \<or> arg = ''-O'' then ps\<lparr> ag_opt_level := O1 \<rparr>
      else if arg = ''-g'' then ps\<lparr> ag_debug_info := True \<rparr>
      else if arg = ''-gno'' \<or> arg = ''--no-debug'' then ps\<lparr> ag_debug_info := False \<rparr>
      else if arg = ''--trace'' then ps\<lparr> ag_trace := True \<rparr>
      else if arg = ''--stats'' then ps\<lparr> ag_stats := True \<rparr>
      else if arg = ''--no-bytes'' then ps\<lparr> ag_show_bytes := False \<rparr>
      else if take 1 arg = ''-'' \<and> length arg > 1
      then ps\<lparr> ag_error := ''unknown option '' @ quoted arg \<rparr>
      else ps\<lparr> ag_inputs := ag_inputs ps @ [arg] \<rparr>)"

fun parse_arguments :: "string list \<Rightarrow> Arguments \<Rightarrow> Arguments" where
  "parse_arguments [] ps = ps"
| "parse_arguments (arg # args) ps =
     (case value_option arg of
        None \<Rightarrow> parse_arguments args (plain_argument arg ps)
      | Some setter \<Rightarrow>
          (case args of
             [] \<Rightarrow> setter [] (ps\<lparr> ag_error := arg @ '' needs a value'' \<rparr>)
           | value # args \<Rightarrow> parse_arguments args (setter value ps)))"

definition parseArguments :: "string list \<Rightarrow> Arguments" where
  "parseArguments args = parse_arguments args no_arguments"

subsection \<open>The commands\<close>

type_synonym outcome = "(nat \<times> Shell) option"

definition usage_error :: "string \<Rightarrow> Shell \<Rightarrow> outcome" where
  "usage_error txt shell = Some (kUsageError, printError (''usage: minitool '' @ txt) shell)"

definition tool_error :: "string \<Rightarrow> Shell \<Rightarrow> outcome" where
  "tool_error txt shell = Some (kToolError, printError txt shell)"

definition optLevelName :: "OptLevel \<Rightarrow> string" where
  "optLevelName level = (if level = O0 then ''O0'' else ''O1'')"

definition assembleFile :: "string \<Rightarrow> Arguments \<Rightarrow> Shell \<Rightarrow> (AssembleResult option \<times> Shell) option" where
  "assembleFile path arguments shell =
     (case readFileBytes path (sh_fs shell) of
        Inl e \<Rightarrow> Some (None, printError (''error: '' @ e) shell)
      | Inr bytes \<Rightarrow>
          let (n, sources) = addFile path (text_of bytes) [];
              options = \<lparr> ao_opt_level = ag_opt_level arguments, ao_emit_debug_info = ag_debug_info arguments \<rparr>
          in case assembleSource sources n empty_engine options of
               None \<Rightarrow> None
             | Some (result, diagnostics) \<Rightarrow>
                 let rendered = renderAll sources diagnostics;
                     shell = (if rendered \<noteq> [] then put_err rendered shell else shell)
                 in case result of
                      Inl e \<Rightarrow> Some (None, printError (''error: '' @ path @ '': '' @ e) shell)
                    | Inr r \<Rightarrow>
                        let shell = (if ag_stats arguments
                              then printError (path @ '': '' @ optLevelName (ag_opt_level arguments) @ '' '' @ summary (ar_stats r)) shell
                              else shell)
                        in Some (Some r, shell))"

definition isa_line :: "OpcodeInfo \<Rightarrow> string" where
  "isa_line info =
     (let notes = (if oi_writes_flags info then ''flags '' else []) @
                  (if oi_is_branch info then ''branch '' else []) @
                  (if oi_is_terminator info then ''terminator '' else [])
      in ''0x'' @ byte_hex (opcode_num (oi_opcode info)) @ ''   '' @ pad_right 9 (oi_mnemonic info) @ '' '' @
         pad_right 8 (formatName (oi_format info)) @ '' '' @ notes)"

definition cmdIsa :: "Shell \<Rightarrow> outcome" where
  "cmdIsa shell =
     (let shell = printLine (pad_right 6 ''op'' @ '' '' @ pad_right 9 ''mnemonic'' @ '' '' @ pad_right 8 ''format'' @ '' notes'') shell;
          shell = fold printLine (map isa_line kOpcodes) shell;
          shell = printLine [] shell
      in Some (0, printLine (nat_str (length kOpcodes) @ '' instructions, '' @ nat_str kInstructionSize @
           '' bytes each, little-endian'') shell))"

definition cmdDecode :: "string \<Rightarrow> Shell \<Rightarrow> outcome" where
  "cmdDecode txt shell =
     (let digits = (if has_hex_prefix txt then drop 2 txt else txt) in
      case from_chars 16 (2 ^ 64) digits of
        Some (v, []) \<Rightarrow>
          let word = of_int v :: u64
          in (case decode word of
                Inl e \<Rightarrow> tool_error (''error: '' @ decodeErrorName e) shell
              | Inr decoded \<Rightarrow> Some (0, printLine (hex16 word @ ''  '' @ toString decoded) shell))
      | _ \<Rightarrow> tool_error (''error: '' @ quoted txt @ '' is not a 64-bit hexadecimal word'') shell)"

definition cmdAssemble :: "Arguments \<Rightarrow> Shell \<Rightarrow> outcome" where
  "cmdAssemble arguments shell =
     (if length (ag_inputs arguments) \<noteq> 1 \<or> ag_output arguments = []
      then usage_error ''assemble <source.asm> -o <output.mobj>'' shell
      else case assembleFile (ag_inputs arguments ! 0) arguments shell of
        None \<Rightarrow> None
      | Some (None, shell) \<Rightarrow> Some (kToolError, shell)
      | Some (Some result, shell) \<Rightarrow>
          (case writeObject (ar_object result) (ag_output arguments) (sh_fs shell) of
             (Inl e, fs) \<Rightarrow> tool_error (''error: '' @ e) (shell\<lparr> sh_fs := fs \<rparr>)
           | (Inr _, fs) \<Rightarrow>
               Some (0, printLine (''assembled '' @ ag_inputs arguments ! 0 @ '' -> '' @ ag_output arguments)
                 (shell\<lparr> sh_fs := fs \<rparr>))))"

text \<open>The diagnostics engine of the link is not rendered; the error of the link is what is printed.\<close>

definition linkObjects :: "ObjectFile list \<Rightarrow> Arguments \<Rightarrow> Shell \<Rightarrow> outcome" where
  "linkObjects objects arguments shell =
     (case link (Linker.default_options\<lparr> lo_entry := ag_entry arguments \<rparr>) objects of
        Inl e \<Rightarrow> tool_error (''error: link failed: '' @ link_error_text e) shell
      | Inr executable \<Rightarrow>
          (case writeExecutable executable (ag_output arguments) (sh_fs shell) of
             (Inl e, fs) \<Rightarrow> tool_error (''error: '' @ e) (shell\<lparr> sh_fs := fs \<rparr>)
           | (Inr _, fs) \<Rightarrow>
               let image = fold (\<lambda>segment total. total + sg_virtual_size segment) (ex_segments executable) 0
               in Some (0, printLine (''linked '' @ nat_str (length objects) @ '' object(s) -> '' @ ag_output arguments @
                    '' (entry 0x'' @ hex (ex_entry_point executable) @ '', '' @ dec image @ '' bytes of image)'')
                    (shell\<lparr> sh_fs := fs \<rparr>))))"

fun read_objects :: "string list \<Rightarrow> FileSystem \<Rightarrow> (string, ObjectFile list) expected" where
  "read_objects [] fs = Inr []"
| "read_objects (input # inputs) fs =
     (case readObject input fs of
        Inl e \<Rightarrow> Inl e
      | Inr ob \<Rightarrow> (case read_objects inputs fs of Inl e \<Rightarrow> Inl e | Inr obs \<Rightarrow> Inr (ob # obs)))"

definition cmdLink :: "Arguments \<Rightarrow> Shell \<Rightarrow> outcome" where
  "cmdLink arguments shell =
     (if ag_inputs arguments = [] \<or> ag_output arguments = []
      then usage_error ''link <file.mobj...> -o <program.mexe>'' shell
      else case read_objects (ag_inputs arguments) (sh_fs shell) of
        Inl e \<Rightarrow> tool_error (''error: '' @ e) shell
      | Inr objects \<Rightarrow> linkObjects objects arguments shell)"

fun assemble_files :: "string list \<Rightarrow> Arguments \<Rightarrow> Shell \<Rightarrow> (ObjectFile list option \<times> Shell) option" where
  "assemble_files [] arguments shell = Some (Some [], shell)"
| "assemble_files (input # inputs) arguments shell =
     (case assembleFile input arguments shell of
        None \<Rightarrow> None
      | Some (None, shell) \<Rightarrow> Some (None, shell)
      | Some (Some result, shell) \<Rightarrow>
          (case assemble_files inputs arguments shell of
             None \<Rightarrow> None
           | Some (None, shell) \<Rightarrow> Some (None, shell)
           | Some (Some obs, shell) \<Rightarrow> Some (Some (ar_object result # obs), shell)))"

definition cmdBuild :: "Arguments \<Rightarrow> Shell \<Rightarrow> outcome" where
  "cmdBuild arguments shell =
     (if ag_inputs arguments = [] \<or> ag_output arguments = []
      then usage_error ''build <source.asm...> -o <program.mexe>'' shell
      else case assemble_files (ag_inputs arguments) arguments shell of
        None \<Rightarrow> None
      | Some (None, shell) \<Rightarrow> Some (kToolError, shell)
      | Some (Some objects, shell) \<Rightarrow> linkObjects objects arguments shell)"

subsection \<open>Programs\<close>

text \<open>The provider of a new machine writes to the streams of the process.\<close>

definition host_provider :: "Shell \<Rightarrow> DefaultProvider" where
  "host_provider shell = \<lparr> dp_capture = False, dp_output = [], dp_error_output = [], dp_input = [],
     host_stdout = sh_program_out shell, host_stderr = sh_program_err shell, host_stdin = sh_stdin shell \<rparr>"

definition program_streams :: "DefaultProvider \<Rightarrow> Shell \<Rightarrow> Shell" where
  "program_streams p shell = shell\<lparr> sh_program_out := host_stdout p, sh_program_err := host_stderr p,
     sh_stdin := host_stdin p \<rparr>"

definition trace_line :: "u64 \<times> Instruction \<Rightarrow> string" where
  "trace_line entry = ''PC=0x'' @ hex16 (fst entry) @ ''  '' @ toString (snd entry)"

definition cmdRun :: "Arguments \<Rightarrow> Shell \<Rightarrow> outcome" where
  "cmdRun arguments shell =
     (if length (ag_inputs arguments) \<noteq> 1 then usage_error ''run <program.mexe> [--trace]'' shell
      else case readExecutable (ag_inputs arguments ! 0) (sh_fs shell) of
        Inl e \<Rightarrow> tool_error (''error: '' @ e) shell
      | Inr executable \<Rightarrow>
          let machine = (new_machine (host_provider shell))\<lparr> trace := (if ag_trace arguments then Some [] else None) \<rparr>
          in case load executable machine of
               (Inl e, _) \<Rightarrow> tool_error (''error: cannot load: '' @ load_error_text e) shell
             | (Inr _, machine) \<Rightarrow>
                 let (result, machine) = run (text_provider syscall_text default_invoke) (ag_max_instructions arguments) machine;
                     shell = program_streams (provider machine) shell;
                     shell = (case trace machine of None \<Rightarrow> shell | Some log \<Rightarrow> fold printError (map trace_line log) shell)
                 in if rr_error result \<noteq> VM_None then
                      Some (kToolError, fold printError
                        [''runtime error: '' @ vmErrorName (rr_error result),
                         ''  '' @ fault_text (rr_message result),
                         ''  PC = 0x'' @ hex16 (rr_pc result) @ '', after '' @ dec (rr_instructions result) @ '' instructions''] shell)
                    else
                      let shell = (if ag_stats arguments
                            then printError (dec (rr_instructions result) @ '' instructions executed'') shell else shell)
                      in Some (unat (rr_exit_code result AND 0xFF), shell))"

definition cmdDisassemble :: "Arguments \<Rightarrow> Shell \<Rightarrow> outcome" where
  "cmdDisassemble arguments shell =
     (if length (ag_inputs arguments) \<noteq> 1 then usage_error ''disassemble <program.mexe>'' shell
      else case readExecutable (ag_inputs arguments ! 0) (sh_fs shell) of
        Inl e \<Rightarrow> tool_error (''error: '' @ e) shell
      | Inr executable \<Rightarrow>
          Some (0, put_out (disassemble_image
            (Disassembler.default_options\<lparr> show_bytes := ag_show_bytes arguments \<rparr>) executable) shell))"

text \<open>The commands of \<open>-x\<close>; \<open>False\<close> when one of them leaves the debugger.\<close>

fun run_commands :: "string list \<Rightarrow> DefaultProvider Debugger \<Rightarrow> (bool \<times> string \<times> DefaultProvider Debugger) option" where
  "run_commands [] debugger = Some (True, [], debugger)"
| "run_commands (command # commands) debugger =
     (case executeCommand (text_provider syscall_text default_invoke) command debugger of
        None \<Rightarrow> None
      | Some (False, txt, debugger) \<Rightarrow> Some (False, txt, debugger)
      | Some (True, txt, debugger) \<Rightarrow>
          (case run_commands commands debugger of
             None \<Rightarrow> None
           | Some (go_on, others, debugger) \<Rightarrow> Some (go_on, txt @ others, debugger)))"

definition leave_debugger :: "string \<Rightarrow> DefaultProvider Debugger \<Rightarrow> Shell \<Rightarrow> nat \<times> Shell" where
  "leave_debugger txt debugger shell = (0, put_out txt (program_streams (provider (db_machine debugger)) shell))"

definition cmdDebug :: "Arguments \<Rightarrow> Shell \<Rightarrow> outcome" where
  "cmdDebug arguments shell =
     (if length (ag_inputs arguments) \<noteq> 1 then usage_error ''debug <program.mexe>'' shell
      else case readExecutable (ag_inputs arguments ! 0) (sh_fs shell) of
        Inl e \<Rightarrow> tool_error (''error: '' @ e) shell
      | Inr executable \<Rightarrow>
          (case load executable (new_machine (host_provider shell)) of
             (Inl e, _) \<Rightarrow> tool_error (''error: cannot load: '' @ load_error_text e) shell
           | (Inr _, machine) \<Rightarrow>
               (case run_commands (ag_commands arguments) (start_debugger machine executable) of
                  None \<Rightarrow> None
                | Some (False, txt, debugger) \<Rightarrow> Some (leave_debugger txt debugger shell)
                | Some (True, txt, debugger) \<Rightarrow>
                    (case interactiveLoop (text_provider syscall_text default_invoke) (sh_lines shell) debugger of
                       None \<Rightarrow> None
                     | Some (others, debugger) \<Rightarrow> Some (leave_debugger (txt @ others) debugger shell)))))"

subsection \<open>Reports\<close>

definition signed_str :: "int \<Rightarrow> string" where
  "signed_str i = (if i < 0 then int_str i else CHR ''+'' # int_str i)"

definition section_line :: "Section \<Rightarrow> string" where
  "section_line section =
     ''  ['' @ num (sec_index section) @ ''] '' @ pad_right 10 (sec_name section) @ '' '' @
     pad_right 7 (sectionTypeName (sec_type section)) @ '' size '' @ pad_right 8 (dec (sec_size section)) @
     '' align '' @ pad_right 4 (dec (sec_alignment section)) @ '' '' @ nat_str (length (sec_data section)) @ '' bytes of data''"

fun binding_text :: "SymbolBinding \<Rightarrow> string" where
  "binding_text Global = ''global''"
| "binding_text Weak = ''weak''"
| "binding_text Extern = ''extern''"
| "binding_text Local = ''local''"

definition symbol_line :: "nat \<times> Symbol \<Rightarrow> string" where
  "symbol_line entry =
     (let symbol = snd entry;
          front = ''  ['' @ nat_str (fst entry) @ ''] '' @ pad_right 20 (sy_name symbol) @ '' '' @
            pad_right 7 (binding_text (sy_binding symbol))
      in if sy_defined symbol
         then front @ '' section '' @ num (sy_section symbol) @ '' + 0x'' @ hex (sy_value symbol)
         else front @ '' undefined'')"

definition relocation_line :: "ObjectFile \<Rightarrow> Relocation \<Rightarrow> string option" where
  "relocation_line ob relocation =
     (if unat (rel_symbol relocation) < length (st_symbols (ob_symbols ob)) then
        Some (''  '' @ pad_right 8 (relocationTypeName (rel_type relocation)) @ '' section '' @ num (rel_section relocation) @
          '' + 0x'' @ pad_right 6 (hex (rel_offset relocation)) @ '' -> '' @
          sy_name (st_symbols (ob_symbols ob) ! unat (rel_symbol relocation)) @ '' '' @
          signed_str (sint (rel_addend relocation)))
      else None)"

fun relocation_lines :: "ObjectFile \<Rightarrow> Relocation list \<Rightarrow> string list option" where
  "relocation_lines ob [] = Some []"
| "relocation_lines ob (relocation # rest) =
     (case relocation_line ob relocation of
        None \<Rightarrow> None
      | Some line \<Rightarrow> map_option ((#) line) (relocation_lines ob rest))"

definition section_code :: "Section \<Rightarrow> string" where
  "section_code section =
     (if sec_type section \<noteq> Sec_Text \<or> sec_data section = [] then []
      else [newline] @ ''disassembly of '' @ sec_name section @
        '' (offsets, not addresses -- this file is not linked yet):'' @ [newline] @
        disassemble Disassembler.default_options (sec_data section) 0 None)"

definition cmdObjdump :: "Arguments \<Rightarrow> Shell \<Rightarrow> outcome" where
  "cmdObjdump arguments shell =
     (if length (ag_inputs arguments) \<noteq> 1 then usage_error ''objdump <file.mobj>'' shell
      else case readObject (ag_inputs arguments ! 0) (sh_fs shell) of
        Inl e \<Rightarrow> tool_error (''error: '' @ e) shell
      | Inr ob \<Rightarrow>
          (case relocation_lines ob (ob_relocations ob) of
             None \<Rightarrow> None
           | Some relocations \<Rightarrow>
               let shell = printLine (ag_inputs arguments ! 0 @ '': MiniToolchain object, version '' @ num (ob_version ob)) shell;
                   shell = fold printLine ([[], ''sections:''] @ map section_line (ob_sections ob)) shell;
                   symbols = st_symbols (ob_symbols ob);
                   shell = fold printLine ([[], ''symbols:''] @ map symbol_line (zip [0..<length symbols] symbols)) shell;
                   shell = fold printLine ([[], ''relocations:''] @ relocations) shell;
                   shell = (if ob_debug_info ob = [] then shell
                     else fold printLine [[], ''debug line table: '' @ nat_str (length (ob_debug_info ob)) @
                       '' entries over '' @ nat_str (length (ob_source_files ob)) @ '' file(s)''] shell)
               in Some (0, fold (\<lambda>section. put_out (section_code section)) (ob_sections ob) shell)))"

definition segment_line :: "Segment \<Rightarrow> string" where
  "segment_line segment =
     ''    '' @ pad_right 8 (sg_name segment) @ '' 0x'' @ hex16 (sg_virtual_address segment) @ '' .. 0x'' @
     hex16 (sg_virtual_address segment + sg_virtual_size segment) @ ''  '' @ flagsToString (sg_flags segment) @ ''  '' @
     nat_str (length (sg_data segment)) @ '' bytes on disk''"

definition cmdVerify :: "Arguments \<Rightarrow> Shell \<Rightarrow> outcome" where
  "cmdVerify arguments shell =
     (if length (ag_inputs arguments) \<noteq> 1 then usage_error ''verify <program.mexe>'' shell
      else case readExecutable (ag_inputs arguments ! 0) (sh_fs shell) of
        Inl e \<Rightarrow> tool_error (''invalid: '' @ e) shell
      | Inr executable \<Rightarrow>
          Some (0, fold printLine
            ([ag_inputs arguments ! 0 @ '': valid MiniToolchain executable'',
              ''  entry point : 0x'' @ hex16 (ex_entry_point executable),
              ''  segments    : '' @ nat_str (length (ex_segments executable))] @
             map segment_line (ex_segments executable) @
             [''  symbols     : '' @ nat_str (length (ex_symbols executable)),
              ''  debug lines : '' @ nat_str (length (ex_debug_info executable))]) shell))"

subsection \<open>The benchmark and the driver\<close>

definition bench_source :: string where
  "bench_source =
     ''.section .text'' @ [newline] @ ''.global _start'' @ [newline] @ ''_start:'' @ [newline] @
     concat (replicate 200
       (''    MOVI R1, 7'' @ [newline] @ ''    MOVI R2, 5'' @ [newline] @ ''    ADD R1, R2'' @ [newline] @
        ''    CMP R1, R2'' @ [newline])) @
     ''    HALT'' @ [newline]"

text \<open>The total of instructions, or \<open>Inl ()\<close> where a round did not assemble.\<close>

fun bench_rounds :: "nat \<Rightarrow> u64 \<Rightarrow> (unit, u64) expected option" where
  "bench_rounds 0 instructions = Some (Inr instructions)"
| "bench_rounds (Suc n) instructions =
     (let (file_id, sources) = addFile ''bench.asm'' bench_source [] in
      case assembleSource sources file_id empty_engine default_assemble_options of
        None \<Rightarrow> None
      | Some (Inl _, _) \<Rightarrow> Some (Inl ())
      | Some (Inr result, _) \<Rightarrow>
          bench_rounds n (instructions + of_nat (os_instructions_before (ar_stats result))))"

text \<open>The clock is not modelled: \<open>timing\<close> gives the end of the line that reports the time taken.\<close>

definition cmdBench :: "(u64 \<Rightarrow> string) \<Rightarrow> Arguments \<Rightarrow> Shell \<Rightarrow> outcome" where
  "cmdBench timing arguments shell =
     (case (if ag_inputs arguments = [] then Some 200 else parseU64 (ag_inputs arguments ! 0)) of
        None \<Rightarrow> usage_error ''bench [iterations]'' shell
      | Some iterations \<Rightarrow>
          (case bench_rounds (unat iterations) 0 of
             None \<Rightarrow> None
           | Some (Inl _) \<Rightarrow> tool_error ''error: benchmark source failed to assemble'' shell
           | Some (Inr instructions) \<Rightarrow>
               Some (0, fold printLine
                 [''assembled '' @ dec instructions @ '' instructions in '' @ timing instructions,
                  ''(see benchmarks/ for the full suite)''] shell)))"

text \<open>\<open>serve\<close>, the web server, is a parameter: a host and a port to an exit code.\<close>

definition main_command ::
  "(string \<Rightarrow> u16 \<Rightarrow> Shell \<Rightarrow> outcome) \<Rightarrow> (u64 \<Rightarrow> string) \<Rightarrow> string \<Rightarrow> Arguments \<Rightarrow> Shell \<Rightarrow> outcome" where
  "main_command serve timing command arguments shell =
     (if command = ''version'' then Some (0, printLine kVersion shell)
      else if command = ''isa'' then cmdIsa shell
      else if command = ''decode'' then
        (if length (ag_inputs arguments) \<noteq> 1 then Some (usage shell) else cmdDecode (ag_inputs arguments ! 0) shell)
      else if command = ''assemble'' then cmdAssemble arguments shell
      else if command = ''link'' then cmdLink arguments shell
      else if command = ''build'' then cmdBuild arguments shell
      else if command = ''run'' then cmdRun arguments shell
      else if command = ''disassemble'' \<or> command = ''dis'' then cmdDisassemble arguments shell
      else if command = ''debug'' then cmdDebug arguments shell
      else if command = ''objdump'' then cmdObjdump arguments shell
      else if command = ''verify'' then cmdVerify arguments shell
      else if command = ''bench'' then cmdBench timing arguments shell
      else if command = ''serve'' then serve (ag_host arguments) (ucast (ag_port arguments)) shell
      else if command = ''help'' \<or> command = ''--help'' \<or> command = ''-h'' then Some (0, snd (usage shell))
      else Some (usage (printError (''error: unknown command '' @ quoted command) shell)))"

definition main_program ::
  "(string \<Rightarrow> u16 \<Rightarrow> Shell \<Rightarrow> outcome) \<Rightarrow> (u64 \<Rightarrow> string) \<Rightarrow> string list \<Rightarrow> Shell \<Rightarrow> outcome" where
  "main_program serve timing args shell =
     (case args of
        [] \<Rightarrow> Some (usage shell)
      | command # args \<Rightarrow>
          let arguments = parseArguments args
          in if ag_error arguments \<noteq> []
             then Some (kUsageError, printError (''error: '' @ ag_error arguments) shell)
             else main_command serve timing command arguments shell)"

end
