(* ===== verification/Executable_Codec.thy ===== *)
theory Executable_Codec
  imports Executable_IO Object_Codec
begin

text \<open>
  The .mexe format: the table contracts of Binary are discharged for its records, an image that
  validates is read back as written, and whatever the reader accepts validates.
\<close>

subsection \<open>Records\<close>

type_synonym located_segment = "Segment \<times> u32 \<times> u64"

definition segment_image :: "located_segment \<Rightarrow> u8 list" where
  "segment_image l = (case l of (segment, n, d) \<Rightarrow> record_bytes (segment_fields n d segment))"

definition segment_located :: "u8 list \<Rightarrow> u8 list \<Rightarrow> located_segment \<Rightarrow> bool" where
  "segment_located strings blob l = (case l of (segment, n, d) \<Rightarrow>
     (printable (sg_name segment) \<longrightarrow> resolves strings n (sg_name segment)) \<and>
     length (sg_data segment) < 2 ^ 32 \<and>
     blob_slice blob d (of_nat (length (sg_data segment))) (sg_data segment))"

definition add_segment :: "located_segment \<Rightarrow> Executable \<Rightarrow> Executable" where
  "add_segment l e = e\<lparr> ex_segments := ex_segments e @ [fst l] \<rparr>"

lemma segment_field_kinds: "segment_kinds = map field_kind (segment_fields n d segment)"
  by (simp add: segment_kinds_def segment_fields_def)

interpretation segment_codec:
  table_codec segment_image "read_segment strings blob" add_segment
    "\<lambda>l _. segment_located strings blob l \<and> printable (sg_name (fst l))"
  for strings blob
proof
  fix r l and s :: Executable
  assume at: "at_bytes r (segment_image l)"
    and good: "segment_located strings blob l \<and> printable (sg_name (fst l))"
  obtain seg n d where l: "l = (seg, n, d)" by (cases l)
  obtain vs r' where k: "read_kinds segment_kinds r = (vs, r')" by fastforce
  have p: "all_present vs = Some (map field_value (segment_fields n d seg))"
    "r' = advance_reader (length (segment_image l)) r"
    using read_kinds_present [OF _ segment_field_kinds k] at by (auto simp: l segment_image_def)
  have len: "unat (of_nat (length (sg_data seg)) :: u64) = length (sg_data seg)"
    using good by (simp add: segment_located_def l unat_of_nat_u64)
  show "read_segment strings blob r s = (Inr (add_segment l s), advance_reader (length (segment_image l)) r)"
    using good len
    by (auto simp: read_segment_def k p segment_fields_def Let_def l add_segment_def
        segment_located_def blob_slice_def resolves_def)
qed

interpretation segment_writer:
  table_writer write_segment segment_image fst
    "\<lambda>st. segment_located (str_bytes (ws_strings st)) (ws_blob st)"
proof
  fix st :: WriteState and x :: Segment
  assume ok: "strings_ok (ws_strings st)"
  obtain n t where i: "intern (sg_name x) (ws_strings st) = (n, t)" by fastforce
  note s = intern_spec [OF ok i]
  let ?l = "(x, n, of_nat (length (ws_blob st)) :: u64)"
  have w: "write_segment x st = \<lparr> ws_strings = t, ws_tables = ws_tables st @ segment_image ?l,
      ws_blob = ws_blob st @ sg_data x \<rparr>"
    by (simp add: write_segment_def i Let_def byte_simps segment_image_def raw_def)
  have "segment_located (str_bytes t) (ws_blob st @ sg_data x) ?l"
    if "small (write_segment x st)"
    using that s(3) blob_slice_new [of "ws_blob st" "sg_data x"]
    by (auto simp: w small_def segment_located_def)
  with s(1,2) show "\<exists>l. fst l = x \<and> ws_tables (write_segment x st) = ws_tables st @ segment_image l \<and>
      extends st (write_segment x st) \<and> strings_ok (ws_strings (write_segment x st)) \<and>
      (small (write_segment x st) \<longrightarrow>
        segment_located (str_bytes (ws_strings (write_segment x st))) (ws_blob (write_segment x st)) l)"
    by (intro exI [of _ ?l]) (auto simp: w extends_def)
next
  fix st l st'
  assume "segment_located (str_bytes (ws_strings st)) (ws_blob st) l" "extends st st'"
  then show "segment_located (str_bytes (ws_strings st')) (ws_blob st') l"
    by (auto simp: segment_located_def split: prod.splits intro: resolves_extends blob_slice_extends)
qed

definition entry_image :: "SymbolEntry \<times> u32 \<Rightarrow> u8 list" where
  "entry_image l = record_bytes (entry_fields (snd l) (fst l))"

definition add_entry :: "SymbolEntry \<times> u32 \<Rightarrow> Executable \<Rightarrow> Executable" where
  "add_entry l e = e\<lparr> ex_symbols := ex_symbols e @ [fst l] \<rparr>"

lemma entry_field_kinds: "entry_kinds = map field_kind (entry_fields n symbol)"
  by (simp add: entry_kinds_def entry_fields_def)

interpretation entry_codec:
  table_codec entry_image "read_entry strings" add_entry
    "\<lambda>l _. named se_name strings l \<and> printable (se_name (fst l))"
  for strings
proof
  fix r l and s :: Executable
  assume at: "at_bytes r (entry_image l)"
    and good: "named se_name strings l \<and> printable (se_name (fst l))"
  obtain vs r' where k: "read_kinds entry_kinds r = (vs, r')" by fastforce
  have p: "all_present vs = Some (map field_value (entry_fields (snd l) (fst l)))"
    "r' = advance_reader (length (entry_image l)) r"
    using read_kinds_present [OF _ entry_field_kinds k] at by (auto simp: entry_image_def)
  have name: "readString strings (snd l) = Inr (se_name (fst l))"
    using good by (auto simp: named_def resolves_def)
  show "read_entry strings r s = (Inr (add_entry l s), advance_reader (length (entry_image l)) r)"
    using name
    by (cases "fst l") (simp add: read_entry_def k p entry_fields_def Let_def add_entry_def
        del: symbol_kind_num.simps)
qed

interpretation entry_writer:
  table_writer write_entry entry_image fst "\<lambda>st. named se_name (str_bytes (ws_strings st))"
proof
  fix st :: WriteState and x :: SymbolEntry
  assume ok: "strings_ok (ws_strings st)"
  obtain n t where i: "intern (se_name x) (ws_strings st) = (n, t)" by fastforce
  note s = intern_spec [OF ok i]
  have w: "write_entry x st =
      st\<lparr> ws_strings := t, ws_tables := ws_tables st @ entry_image (x, n) \<rparr>"
    by (simp add: write_entry_def i Let_def byte_simps entry_image_def)
  with s show "\<exists>l. fst l = x \<and> ws_tables (write_entry x st) = ws_tables st @ entry_image l \<and>
      extends st (write_entry x st) \<and> strings_ok (ws_strings (write_entry x st)) \<and>
      (small (write_entry x st) \<longrightarrow> named se_name (str_bytes (ws_strings (write_entry x st))) l)"
    by (intro exI [of _ "(x, n)"]) (auto simp: extends_def named_def small_def)
qed (rule named_extends)

definition line_image :: "DebugEntry \<Rightarrow> u8 list" where
  "line_image entry = record_bytes (line_fields entry)"

definition add_line :: "DebugEntry \<Rightarrow> Executable \<Rightarrow> Executable" where
  "add_line entry e = e\<lparr> ex_debug_info := ex_debug_info e @ [entry] \<rparr>"

lemma line_field_kinds: "line_kinds = map field_kind (line_fields entry)"
  by (simp add: line_kinds_def line_fields_def)

interpretation line_codec:
  table_codec line_image "read_line source_count" add_line
    "\<lambda>entry _. unat (de_file entry) < unat source_count"
  for source_count
proof
  fix r x and s :: Executable
  assume at: "at_bytes r (line_image x)" and good: "unat (de_file x) < unat source_count"
  obtain vs r' where k: "read_kinds line_kinds r = (vs, r')" by fastforce
  have p: "all_present vs = Some (map field_value (line_fields x))"
    "r' = advance_reader (length (line_image x)) r"
    using read_kinds_present [OF _ line_field_kinds k] at by (auto simp: line_image_def)
  show "read_line source_count r s = (Inr (add_line x s), advance_reader (length (line_image x)) r)"
    using good
    by (simp add: read_line_def k p line_fields_def Let_def add_line_def word_le_nat_alt)
qed

interpretation line_writer: table_writer write_line line_image "\<lambda>l. l" "\<lambda>_ _. True"
  by unfold_locales (auto simp: write_line_def byte_simps line_image_def extends_def)

definition add_exe_source :: "string \<times> u32 \<Rightarrow> Executable \<Rightarrow> Executable" where
  "add_exe_source l e = e\<lparr> ex_source_files := ex_source_files e @ [fst l] \<rparr>"

interpretation exe_source_codec:
  table_codec source_image "read_exe_source strings" add_exe_source
    "\<lambda>l _. named (\<lambda>name. name) strings l \<and> printable (fst l)"
  for strings
proof
  fix r l and s :: Executable
  assume at: "at_bytes r (source_image l)"
    and good: "named (\<lambda>name. name) strings l \<and> printable (fst l)"
  obtain vs r' where k: "read_kinds [K32] r = (vs, r')" by fastforce
  have p: "all_present vs = Some (map field_value [F32 (snd l)])"
    "r' = advance_reader (length (source_image l)) r"
    using read_kinds_present [OF _ _ k, of "[F32 (snd l)]"] at by (auto simp: source_image_def)
  show "read_exe_source strings r s = (Inr (add_exe_source l s), advance_reader (length (source_image l)) r)"
    unfolding read_exe_source_def k
    using good by (simp add: p add_exe_source_def named_def resolves_def del: read_kinds.simps)
qed

lemma fold_exe_adds [simp]:
  "fold add_segment segs e = e\<lparr> ex_segments := ex_segments e @ map fst segs \<rparr>"
  "fold add_entry ents e = e\<lparr> ex_symbols := ex_symbols e @ map fst ents \<rparr>"
  "fold add_line lns e = e\<lparr> ex_debug_info := ex_debug_info e @ lns \<rparr>"
  "fold add_exe_source srcs e = e\<lparr> ex_source_files := ex_source_files e @ map fst srcs \<rparr>"
proof -
  show "fold add_segment segs e = e\<lparr> ex_segments := ex_segments e @ map fst segs \<rparr>"
    by (induction segs arbitrary: e) (simp_all add: add_segment_def)
  show "fold add_entry ents e = e\<lparr> ex_symbols := ex_symbols e @ map fst ents \<rparr>"
    by (induction ents arbitrary: e) (simp_all add: add_entry_def)
  show "fold add_line lns e = e\<lparr> ex_debug_info := ex_debug_info e @ lns \<rparr>"
    by (induction lns arbitrary: e) (simp_all add: add_line_def)
  show "fold add_exe_source srcs e = e\<lparr> ex_source_files := ex_source_files e @ map fst srcs \<rparr>"
    by (induction srcs arbitrary: e) (simp_all add: add_exe_source_def)
qed

lemma exe_table_lengths [layout_simps]:
  "length (concat (map segment_image ls)) = 40 * length ls"
  "length (concat (map entry_image ms)) = 24 * length ms"
  "length (concat (map line_image ys)) = 24 * length ys"
  by (rule length_concat_const, simp add: segment_image_def entry_image_def line_image_def
      record_bytes_length segment_fields_def entry_fields_def line_fields_def split: prod.splits)+

subsection \<open>The tables\<close>

definition image_ok :: "Executable \<Rightarrow> bool" where
  "image_ok e \<longleftrightarrow> executable_ok e \<and> list_all (\<lambda>s. printable (sg_name s)) (ex_segments e) \<and>
     list_all (\<lambda>s. printable (se_name s)) (ex_symbols e) \<and> list_all printable (ex_source_files e)"

lemma write_executable_tables_spec:
  fixes e :: Executable
  defines "st \<equiv> write_executable_tables e"
  obtains segs ents srcs where
    "map fst segs = ex_segments e" "map fst ents = ex_symbols e" "map fst srcs = ex_source_files e"
    "ws_tables st = concat (map segment_image segs) @ concat (map entry_image ents) @
       concat (map line_image (ex_debug_info e)) @ concat (map source_image srcs)"
    "small st \<Longrightarrow> \<forall>l \<in> set segs. segment_located (str_bytes (ws_strings st)) (ws_blob st) l"
    "small st \<Longrightarrow> \<forall>l \<in> set ents. named se_name (str_bytes (ws_strings st)) l"
    "small st \<Longrightarrow> \<forall>l \<in> set srcs. named (\<lambda>name. name) (str_bytes (ws_strings st)) l"
proof -
  define s1 where "s1 = fold write_segment (ex_segments e) start_write"
  define s2 where "s2 = fold write_entry (ex_symbols e) s1"
  define s3 where "s3 = fold write_line (ex_debug_info e) s2"
  have st: "st = fold write_source (ex_source_files e) s3"
    by (simp add: st_def write_executable_tables_def s3_def s2_def s1_def)
  have "strings_ok (ws_strings start_write)" by (simp add: start_write_def)
  from segment_writer.table_writes [OF this, of "ex_segments e"]
  obtain segs where 1: "map fst segs = ex_segments e" "ws_tables s1 = concat (map segment_image segs)"
    "strings_ok (ws_strings s1)"
    "small s1 \<longrightarrow> (\<forall>l \<in> set segs. segment_located (str_bytes (ws_strings s1)) (ws_blob s1) l)"
    by (auto simp: s1_def start_write_def)
  from entry_writer.table_writes [OF 1(3), of "ex_symbols e"]
  obtain ents where 2: "map fst ents = ex_symbols e"
    "ws_tables s2 = ws_tables s1 @ concat (map entry_image ents)" "extends s1 s2"
    "strings_ok (ws_strings s2)"
    "small s2 \<longrightarrow> (\<forall>l \<in> set ents. named se_name (str_bytes (ws_strings s2)) l)"
    by (auto simp: s2_def)
  from line_writer.table_writes [OF 2(4), of "ex_debug_info e"]
  have 3: "ws_tables s3 = ws_tables s2 @ concat (map line_image (ex_debug_info e))"
    "extends s2 s3" "strings_ok (ws_strings s3)" by (auto simp: s3_def)
  from source_writer.table_writes [OF 3(3), of "ex_source_files e"]
  obtain srcs where 5: "map fst srcs = ex_source_files e"
    "ws_tables st = ws_tables s3 @ concat (map source_image srcs)" "extends s3 st"
    "small st \<longrightarrow> (\<forall>l \<in> set srcs. named (\<lambda>name. name) (str_bytes (ws_strings st)) l)"
    by (auto simp: st)
  have e2: "extends s2 st" using 3(2) 5(3) extends_trans by blast
  have e1: "extends s1 st" using 2(3) e2 extends_trans by blast
  have "\<forall>l \<in> set segs. segment_located (str_bytes (ws_strings st)) (ws_blob st) l" if "small st"
    using 1(4) small_extends [OF e1 that] segment_writer.located_mono [OF _ e1] by blast
  moreover have "\<forall>l \<in> set ents. named se_name (str_bytes (ws_strings st)) l" if "small st"
    using 2(5) small_extends [OF e2 that] named_extends [OF _ e2] by blast
  ultimately show ?thesis
    using that [of segs ents srcs] 1 2 3 5 by simp
qed

lemma read_executable_tables_image:
  fixes e :: Executable
  assumes ok: "image_ok e"
    and segs: "map fst segs = ex_segments e" and ents: "map fst ents = ex_symbols e"
    and srcs: "map fst srcs = ex_source_files e"
    and loc: "\<forall>l \<in> set segs. segment_located strings blob l"
      "\<forall>l \<in> set ents. named se_name strings l" "\<forall>l \<in> set srcs. named (\<lambda>name. name) strings l"
    and data: "rd_data r = header @ concat (map segment_image segs) @ concat (map entry_image ents) @
       concat (map line_image (ex_debug_info e)) @ concat (map source_image srcs) @ rest"
    and header: "length header = 64" and small: "length (rd_data r) < 2 ^ 32"
  shows "read_executable_tables kExeVersion (ex_entry_point e) (of_nat (length segs))
      (of_nat (length ents)) (of_nat (length (ex_debug_info e))) (of_nat (length srcs)) strings blob r = Inr e"
proof -
  let ?dbg = "ex_debug_info e"
  have bound: "64 + 40 * length segs + 24 * length ents + 24 * length ?dbg + 4 * length srcs < 2 ^ 32"
    using small by (simp add: data header layout_simps)
  then have n: "length segs < 2 ^ 32" "length ents < 2 ^ 32" "length ?dbg < 2 ^ 32" "length srcs < 2 ^ 32"
    by linarith+
  note nat = n [THEN u32_of_nat]
  have pos: "unat (of_nat m :: u64) = m" if "m < 2 ^ 32" for m
    using that by (simp add: unat_of_nat_u64)
  let ?at2 = "64 + 40 * length segs" let ?at3 = "?at2 + 24 * length ents"
  let ?at4 = "?at3 + 24 * length ?dbg"
  have p: "unat (of_nat ?at2 :: u64) = ?at2" "unat (of_nat ?at3 :: u64) = ?at3"
    "unat (of_nat ?at4 :: u64) = ?at4"
    by (rule pos, use bound in linarith)+
  have w: "of_nat kExeHeaderSize + ucast (of_nat (length segs) :: u32) * kSegmentRecordSize
        = (of_nat ?at2 :: u64)"
    "(of_nat ?at2 :: u64) + ucast (of_nat (length ents) :: u32) * kExeSymbolRecordSize = of_nat ?at3"
    "(of_nat ?at3 :: u64) + ucast (of_nat (length ?dbg) :: u32) * kExeDebugRecordSize = of_nat ?at4"
    by (simp_all add: ucast_of_nat_u32 [OF n(1)] ucast_of_nat_u32 [OF n(2)]
        ucast_of_nat_u32 [OF n(3)] kExeHeaderSize_def executable_sizes)
  define o0 where "o0 = \<lparr> ex_version = kExeVersion, ex_entry_point = ex_entry_point e, ex_segments = [],
    ex_symbols = [], ex_debug_info = [], ex_source_files = [] \<rparr>"
  define o1 where "o1 = o0\<lparr> ex_segments := ex_segments e \<rparr>"
  define o2 where "o2 = o1\<lparr> ex_symbols := ex_symbols e \<rparr>"
  define o3 where "o3 = o2\<lparr> ex_debug_info := ?dbg \<rparr>"
  have shapes: "\<forall>l \<in> set segs. printable (sg_name (fst l))" "\<forall>l \<in> set ents. printable (se_name (fst l))"
    "\<forall>l \<in> set srcs. printable (fst l)"
    using ok unfolding image_ok_def list_all_iff
    by (metis image_eqI list.set_map segs ents srcs)+
  have lsrc: "length srcs = length (ex_source_files e)" using srcs by (metis length_map)
  have 1: "read_loop (read_segment strings blob) (length segs) (seek 64 r) o0 = Inr o1"
  proof -
    have "segment_codec.all_good strings blob segs o0"
      by (rule segment_codec.all_good_invariant [where P = "\<lambda>_. True"]) (use loc(1) shapes(1) in auto)
    from segment_codec.table_reads_at [OF _ _ refl this, of r header _ 64]
    show ?thesis by (simp add: data header o1_def segs) (simp add: o0_def)
  qed
  have 2: "read_loop (read_entry strings) (length ents) (seek ?at2 r) o1 = Inr o2"
  proof -
    have "entry_codec.all_good strings ents o1"
      by (rule entry_codec.all_good_invariant [where P = "\<lambda>_. True"]) (use loc(2) shapes(2) in auto)
    from entry_codec.table_reads_at [OF _ _ refl this,
        of r "header @ concat (map segment_image segs)" _ ?at2]
    show ?thesis by (simp add: data header layout_simps o2_def ents) (simp add: o1_def o0_def)
  qed
  have 3: "read_loop (read_line (of_nat (length srcs))) (length ?dbg) (seek ?at3 r) o2 = Inr o3"
  proof -
    have "line_codec.all_good (of_nat (length srcs)) ?dbg o2"
      by (rule line_codec.all_good_invariant [where P = "\<lambda>_. True"])
        (use ok nat(4) lsrc in \<open>auto simp: image_ok_def executable_ok_def\<close>)
    from line_codec.table_reads_at [OF _ _ refl this,
        of r "header @ concat (map segment_image segs) @ concat (map entry_image ents)" _ ?at3]
    show ?thesis by (simp add: data header layout_simps o3_def) (simp add: o2_def o1_def o0_def)
  qed
  have 4: "read_loop (read_exe_source strings) (length srcs) (seek ?at4 r) o3 = Inr e"
  proof -
    have "exe_source_codec.all_good strings srcs o3"
      by (rule exe_source_codec.all_good_invariant [where P = "\<lambda>_. True"]) (use loc(3) shapes(3) in auto)
    from exe_source_codec.table_reads_at [OF _ _ refl this,
        of r "header @ concat (map segment_image segs) @ concat (map entry_image ents) @
          concat (map line_image ?dbg)" rest ?at4]
    have "read_loop (read_exe_source strings) (length srcs) (seek ?at4 r) o3
        = Inr (o3\<lparr> ex_source_files := ex_source_files o3 @ ex_source_files e \<rparr>)"
      by (simp add: data header layout_simps srcs)
    also have "o3\<lparr> ex_source_files := ex_source_files o3 @ ex_source_files e \<rparr> = e"
      using ok by (simp add: o3_def o2_def o1_def o0_def image_ok_def executable_ok_def)
    finally show ?thesis .
  qed
  have at1: "unat (of_nat kExeHeaderSize :: u64) = 64" by (simp add: kExeHeaderSize_def)
  have v: "validate e = Inr ()" using ok by (simp add: image_ok_def validate_iff)
  show ?thesis
    unfolding read_executable_tables_def Let_def w p at1 o0_def [symmetric] nat
    by (simp only: 1 2 3 4 v and_then_simps sum.case)
qed

definition executable_counts :: "Executable \<Rightarrow> Field list" where
  "executable_counts e =
     [F16 kExeVersion, F16 (of_nat kExeHeaderSize), F64 (ex_entry_point e),
      F32 (of_nat (length (ex_segments e))), F32 (of_nat (length (ex_symbols e))),
      F32 (of_nat (length (ex_debug_info e))), F32 (of_nat (length (ex_source_files e)))]"

lemma executable_header_split:
  "executable_header e = (kExeMagic @ record_bytes (executable_counts e)) @
     record_bytes [F64 0, F64 0, F64 0, F32 0, F32 0]"
  "length (kExeMagic @ record_bytes (executable_counts e)) = 32"
  by (simp_all add: executable_header_def executable_counts_def byte_simps raw_def
      record_bytes_append [symmetric] record_bytes_length kExeMagic_def)

lemma write_executable_image:
  assumes "writeExecutableToBuffer e = Inr buf"
  defines "st \<equiv> write_executable_tables e"
  defines "body \<equiv> ws_tables st @ str_bytes (ws_strings st) @ ws_blob st"
  shows "buf = kExeMagic @ record_bytes (executable_counts e @
        sizes_fields (64 + length (ws_tables st)) (length (str_bytes (ws_strings st)))
          (64 + length (ws_tables st) + length (str_bytes (ws_strings st))) (64 + length body)
          (crc32 body)) @ body"
    and "length buf = 64 + length body" and "length buf \<le> 0xFFFFFFFF"
proof -
  have a: "assemble_file 64 ((kExeMagic @ record_bytes (executable_counts e)) @
      record_bytes [F64 0, F64 0, F64 0, F32 0, F32 0]) st = Some buf"
    using assms(1) unfolding executable_header_split(1) [symmetric] st_def
    by (simp add: writeExecutableToBuffer_def kExeHeaderSize_def split: sum.splits option.splits)
  note i = assemble_file_image [OF a executable_header_split(2), folded body_def]
  show "buf = kExeMagic @ record_bytes (executable_counts e @
        sizes_fields (64 + length (ws_tables st)) (length (str_bytes (ws_strings st)))
          (64 + length (ws_tables st) + length (str_bytes (ws_strings st))) (64 + length body)
          (crc32 body)) @ body"
    using i(3) by (simp add: record_bytes_append)
  show "length buf = 64 + length body" "length buf \<le> 0xFFFFFFFF" using i(1,2) by simp_all
qed

lemma executable_round_trip_image:
  assumes ok: "image_ok e" and w: "writeExecutableToBuffer e = Inr buf"
  shows "readExecutableFromBuffer buf = Inr e"
proof -
  define st where "st = write_executable_tables e"
  define strs where "strs = str_bytes (ws_strings st)"
  define body where "body = ws_tables st @ strs @ ws_blob st"
  define T where "T = length (ws_tables st)"
  define S where "S = length strs"
  define hf where "hf = executable_counts e @ sizes_fields (64 + T) S (64 + T + S) (64 + length body) (crc32 body)"
  have buf: "buf = kExeMagic @ record_bytes hf @ body" and len: "length buf = 64 + length body"
    and cap: "length buf < 2 ^ 32"
    using write_executable_image [OF w] by (simp_all add: st_def hf_def body_def strs_def T_def S_def)
  have hl: "length (record_bytes hf) = 60"
    by (simp add: hf_def executable_counts_def sizes_fields_def record_bytes_length)
  have ml: "length kExeMagic = 4" by (simp add: kExeMagic_def)
  define r1 where "r1 = \<lparr> rd_data = buf, rd_position = 4 \<rparr>"
  have raw: "read_raw (length kExeMagic) \<lparr> rd_data = buf, rd_position = 0 \<rparr> = (Some kExeMagic, r1)"
    by (simp add: read_raw_def has_def ml r1_def buf)
  obtain vs r2 where k: "read_kinds executable_header_kinds r1 = (vs, r2)" by fastforce
  have "at_bytes r1 (record_bytes hf)" by (simp add: at_bytes_def r1_def buf ml)
  from read_kinds_present [OF this _ k]
  have v: "all_present vs = Some (map field_value hf)" and r2: "r2 = advance_reader (length (record_bytes hf)) r1"
    by (simp_all add: hf_def executable_counts_def sizes_fields_def executable_header_kinds_def)
  have drop: "drop kExeHeaderSize buf = body" by (simp add: buf ml hl kExeHeaderSize_def)
  obtain segs ents srcs where
    names: "map fst segs = ex_segments e" "map fst ents = ex_symbols e" "map fst srcs = ex_source_files e"
    and tabs: "ws_tables st = concat (map segment_image segs) @ concat (map entry_image ents) @
       concat (map line_image (ex_debug_info e)) @ concat (map source_image srcs)"
    and loc: "small st \<Longrightarrow> \<forall>l \<in> set segs. segment_located strs (ws_blob st) l"
      "small st \<Longrightarrow> \<forall>l \<in> set ents. named se_name strs l"
      "small st \<Longrightarrow> \<forall>l \<in> set srcs. named (\<lambda>name. name) strs l"
    by (rule write_executable_tables_spec [of e, folded st_def, folded strs_def]) (rule that)
  have small: "small st" using len cap by (simp add: small_def body_def strs_def)
  have lens: "length (ex_segments e) = length segs" "length (ex_symbols e) = length ents"
    "length (ex_source_files e) = length srcs"
    using names by (metis length_map)+
  have T: "T = 40 * length segs + 24 * length ents + 24 * length (ex_debug_info e) + 4 * length srcs"
    by (simp add: T_def tabs layout_simps)
  have TS: "64 + T + S \<le> length buf" by (simp add: len body_def T_def S_def)
  have n: "length segs < 2 ^ 32" "length ents < 2 ^ 32" "length (ex_debug_info e) < 2 ^ 32" "length srcs < 2 ^ 32"
    using TS cap unfolding T by linarith+
  have sums: "64 + T < 18446744073709551616" "S < 18446744073709551616"
    "64 + T + S < 18446744073709551616"
    using TS cap by simp_all
  note nat = sums [THEN unat_of_nat_u64]
  have nat32: "unat (of_nat (64 + length body) :: u32) = length buf"
    unfolding len [symmetric] by (rule u32_of_nat [OF cap])
  define pre where "pre = kExeMagic @ record_bytes hf @ ws_tables st"
  have pre: "buf = pre @ strs @ ws_blob st" "length pre = 64 + T"
    by (simp_all add: pre_def buf body_def ml hl T_def)
  have strings: "rawAt (64 + T) S r2 = Some strs"
    by (simp add: rawAt_def r2 r1_def pre S_def)
  have blob: "drop (64 + T + S) buf = ws_blob st"
    by (simp add: pre S_def)
  have data: "rd_data r2 = (kExeMagic @ record_bytes hf) @ concat (map segment_image segs) @
      concat (map entry_image ents) @ concat (map line_image (ex_debug_info e)) @
      concat (map source_image srcs) @ strs @ ws_blob st"
    by (simp add: r2 r1_def buf body_def tabs)
  have tables: "read_executable_tables kExeVersion (ex_entry_point e) (of_nat (length segs))
      (of_nat (length ents)) (of_nat (length (ex_debug_info e))) (of_nat (length srcs))
      strs (ws_blob st) r2 = Inr e"
    using read_executable_tables_image [OF ok names loc [OF small] data] cap
    by (simp add: ml hl r2 r1_def)
  define c1 where "c1 = (of_nat (length segs) :: u32)"
  define c2 where "c2 = (of_nat (length ents) :: u32)"
  define c3 where "c3 = (of_nat (length (ex_debug_info e)) :: u32)"
  define c4 where "c4 = (of_nat (length srcs) :: u32)"
  define so where "so = (of_nat (64 + T) :: u64)"
  define ss where "ss = (of_nat S :: u64)"
  define bo where "bo = (of_nat (64 + T + S) :: u64)"
  define fs where "fs = (of_nat (64 + length body) :: u32)"
  have vals: "map field_value hf = [ucast kExeVersion, ucast (of_nat kExeHeaderSize :: u16),
      ex_entry_point e, ucast c1, ucast c2, ucast c3, ucast c4, so, ss, bo, ucast fs, ucast (crc32 body)]"
    by (simp add: hf_def executable_counts_def sizes_fields_def lens c1_def c2_def c3_def c4_def
        so_def ss_def bo_def fs_def)
  have tables_end: "of_nat kExeHeaderSize + ucast c1 * kSegmentRecordSize +
      ucast c2 * kExeSymbolRecordSize + ucast c3 * kExeDebugRecordSize +
      ucast c4 * kExeSourceRecordSize = so"
    unfolding c1_def c2_def c3_def c4_def so_def T n [THEN ucast_of_nat_u32]
    by (simp add: kExeHeaderSize_def executable_sizes)
  have bo: "so + ss = bo" by (simp add: so_def ss_def bo_def)
  have u: "unat so = 64 + T" "unat ss = S" "unat bo = 64 + T + S" "unat fs = length buf"
    using nat nat32 by (simp_all only: so_def ss_def bo_def fs_def)
  have hs: "unat (of_nat kExeHeaderSize :: u16) = kExeHeaderSize" "\<not> length buf < kExeHeaderSize"
    using len by (simp_all add: kExeHeaderSize_def)
  have fit: "\<not> length buf < 64 + T" "\<not> length buf < 64 + T + S" using TS by simp_all
  show ?thesis
    unfolding readExecutableFromBuffer_def
    using tables [folded c1_def c2_def c3_def c4_def]
    by (simp add: hs raw k v vals Let_def tables_end bo u drop fit strings blob nth_Cons' del: length_map)
qed

subsection \<open>What the reader accepts\<close>

lemma read_segment_step:
  assumes "read_segment strings blob r e = (Inr e', r')"
  shows "\<exists>x. e' = e\<lparr> ex_segments := ex_segments e @ [x] \<rparr> \<and> printable (sg_name x)"
  using assms
  by (auto simp: read_segment_def Let_def
      split: prod.splits option.splits if_splits sum.splits)
    (rule exI, rule conjI, rule refl, auto dest: readString_printable)

lemma read_entry_step:
  assumes "read_entry strings r e = (Inr e', r')"
  shows "\<exists>x. e' = e\<lparr> ex_symbols := ex_symbols e @ [x] \<rparr> \<and> printable (se_name x)"
  using assms
  by (auto simp: read_entry_def Let_def
      split: prod.splits option.splits if_splits sum.splits)
    (rule exI, rule conjI, rule refl, auto dest: readString_printable)

lemma read_line_step:
  assumes "read_line n r e = (Inr e', r')"
  shows "\<exists>x. e' = e\<lparr> ex_debug_info := ex_debug_info e @ [x] \<rparr>"
  using assms
  by (auto simp: read_line_def Let_def split: prod.splits option.splits if_splits)

lemma read_exe_source_step:
  assumes "read_exe_source strings r e = (Inr e', r')"
  shows "\<exists>x. e' = e\<lparr> ex_source_files := ex_source_files e @ [x] \<rparr> \<and> printable x"
  using assms
  by (auto simp: read_exe_source_def Let_def
      split: prod.splits option.splits sum.splits dest: readString_printable)

definition names_ok :: "Executable \<Rightarrow> bool" where
  "names_ok e \<longleftrightarrow> list_all (\<lambda>s. printable (sg_name s)) (ex_segments e) \<and>
     list_all (\<lambda>s. printable (se_name s)) (ex_symbols e) \<and> list_all printable (ex_source_files e)"

lemma names_ok_step:
  "read_segment strings blob r e = (Inr e', r') \<Longrightarrow> names_ok e \<Longrightarrow> names_ok e'"
  "read_entry strings r e = (Inr e', r') \<Longrightarrow> names_ok e \<Longrightarrow> names_ok e'"
  "read_line n r e = (Inr e', r') \<Longrightarrow> names_ok e \<Longrightarrow> names_ok e'"
  "read_exe_source strings r e = (Inr e', r') \<Longrightarrow> names_ok e \<Longrightarrow> names_ok e'"
  by (auto simp: names_ok_def
      dest!: read_segment_step read_entry_step read_line_step read_exe_source_step)

lemma read_loop_invariant:
  assumes "read_loop body n r s = Inr s'" and "P s"
    and "\<And>r s s' r'. body r s = (Inr s', r') \<Longrightarrow> P s \<Longrightarrow> P s'"
  shows "P s'"
  using read_loop_indexed [of "\<lambda>_. P" 0 n body r s s'] assms by blast

lemma read_executable_tables_ok:
  assumes "read_executable_tables kExeVersion ep n1 n2 n3 n4 strings blob r = Inr e"
  shows "image_ok e"
proof -
  define o0 where "o0 = \<lparr> ex_version = kExeVersion, ex_entry_point = ep, ex_segments = [],
    ex_symbols = [], ex_debug_info = [], ex_source_files = [] \<rparr>"
  from assms obtain o1 o2 o3 o4 a1 a2 a3 a4 where
    l1: "read_loop (read_segment strings blob) (unat n1) a1 o0 = Inr o1" and
    l2: "read_loop (read_entry strings) (unat n2) a2 o1 = Inr o2" and
    l3: "read_loop (read_line n4) (unat n3) a3 o2 = Inr o3" and
    l4: "read_loop (read_exe_source strings) (unat n4) a4 o3 = Inr o4" and
    v: "(case validate o4 of Inl x \<Rightarrow> Inl (NotLoadable x) | Inr _ \<Rightarrow> Inr o4) = Inr e"
    unfolding read_executable_tables_def Let_def o0_def [symmetric] and_then_Inr by blast
  have "names_ok o0" by (simp add: names_ok_def o0_def)
  then have "names_ok o1" by (rule read_loop_invariant [where P = names_ok, OF l1 _ names_ok_step(1)])
  then have "names_ok o2" by (rule read_loop_invariant [where P = names_ok, OF l2 _ names_ok_step(2)])
  then have "names_ok o3" by (rule read_loop_invariant [where P = names_ok, OF l3 _ names_ok_step(3)])
  then have "names_ok o4" by (rule read_loop_invariant [where P = names_ok, OF l4 _ names_ok_step(4)])
  moreover have "e = o4" "validate o4 = Inr ()" using v by (auto split: sum.splits)
  ultimately show ?thesis by (simp add: image_ok_def names_ok_def validate_iff)
qed

lemma accepted_executable_ok: "readExecutableFromBuffer buf = Inr e \<Longrightarrow> image_ok e"
  unfolding readExecutableFromBuffer_def Let_def
  by (simp split: if_splits prod.splits option.splits) (drule read_executable_tables_ok, assumption)

lemma readExecutable_header:
  assumes "64 \<le> length buf" and "take 64 buf = take 64 buf'" and "length buf' = length buf"
    and "readExecutableFromBuffer buf = Inr e" and "crc32 (drop 64 buf') \<noteq> crc32 (drop 64 buf)"
  shows "readExecutableFromBuffer buf' =
    Inl (ExeChecksumMismatch (crc32 (drop 64 buf)) (crc32 (drop 64 buf')))"
proof -
  have ml: "length kExeMagic = 4" by (simp add: kExeMagic_def)
  have "take 4 (take 64 buf) = take 4 (take 64 buf')" using assms(2) by simp
  then have t4: "take 4 buf' = take 4 buf" by simp
  define r where "r = \<lparr> rd_data = buf, rd_position = 4 \<rparr>"
  define r' where "r' = \<lparr> rd_data = buf', rd_position = 4 \<rparr>"
  have raw: "read_raw 4 \<lparr> rd_data = buf, rd_position = 0 \<rparr> = (Some (take 4 buf), r)"
    "read_raw 4 \<lparr> rd_data = buf', rd_position = 0 \<rparr> = (Some (take 4 buf), r')"
    using assms(1,3) t4 by (simp_all add: read_raw_def has_def r_def r'_def)
  obtain vs r2 where k: "read_kinds executable_header_kinds r = (vs, r2)" by fastforce
  obtain vs' r2' where k': "read_kinds executable_header_kinds r' = (vs', r2')" by fastforce
  have "fst (read_kinds executable_header_kinds r) = fst (read_kinds executable_header_kinds r')"
    unfolding r_def r'_def
    by (rule read_kinds_local [OF assms(2)]) (use assms(1,3) in \<open>simp_all add: executable_header_kinds_def\<close>)
  then have vs: "vs' = vs" by (simp add: k k')
  show ?thesis
    using assms(1,3,4,5)
    by (auto simp: readExecutableFromBuffer_def ml raw k k' vs Let_def kExeHeaderSize_def
        split: if_splits option.splits)
qed

subsection \<open>The contract of the format\<close>

lemma write_executable_fails:
  assumes "writeExecutableToBuffer e = Inl x"
  defines "st \<equiv> write_executable_tables e"
  shows "validate e \<noteq> Inr () \<or>
    0xFFFFFFFF < 64 + length (ws_tables st) + length (str_bytes (ws_strings st)) + length (ws_blob st)"
  using assms
  by (auto simp: writeExecutableToBuffer_def assemble_file_def Let_def kExeHeaderSize_def
      split: sum.splits option.splits if_splits)

definition demo_segment :: Segment where
  "demo_segment = \<lparr> sg_type = Seg_Text, sg_flags = 5, sg_name = ''.text'', sg_virtual_address = 0x400000,
     sg_virtual_size = 8, sg_data = [1, 0, 0, 0, 0, 0, 0, 0] \<rparr>"

definition demo_executable :: Executable where
  "demo_executable =
     \<lparr> ex_version = 1, ex_entry_point = 0x400000, ex_segments = [demo_segment],
       ex_symbols = [\<lparr> se_name = ''main'', se_address = 0x400000, se_size = 8, se_kind = SK_Function \<rparr>],
       ex_debug_info = [\<lparr> de_address = 0x400000, de_file = 0, de_line = 1, de_column = 1 \<rparr>],
       ex_source_files = [''a.mtc''] \<rparr>"

lemma demo_executable_ok: "image_ok demo_executable"
  by (simp add: image_ok_def executable_ok_def demo_executable_def demo_segment_def kExeVersion_def
      segment_ok_def segment_end_def hasFlag_def segment_flag_consts printable_def)

lemma demo_executable_writes: "\<exists>buf. writeExecutableToBuffer demo_executable = Inr buf"
proof (cases "writeExecutableToBuffer demo_executable")
  case (Inl x)
  have "validate demo_executable = Inr ()"
    using demo_executable_ok by (simp add: image_ok_def validate_iff)
  with write_executable_fails [OF Inl] show ?thesis
    by (simp add: write_executable_tables_def demo_executable_def demo_segment_def write_segment_def
        write_entry_def write_line_def write_source_def byte_simps
        record_bytes_length segment_fields_def entry_fields_def line_fields_def
        start_write_def new_strings_def intern_def raw_def Let_def)
qed auto

text \<open>
  C16: every image that validates and whose names hold no NUL byte is written unless it would pass
  4 GiB, and the bytes are read back as the very same image.
\<close>

theorem executable_round_trip:
  assumes "image_ok e"
  shows "case writeExecutableToBuffer e of
      Inr buf \<Rightarrow> readExecutableFromBuffer buf = Inr e
    | Inl x \<Rightarrow> 0xFFFFFFFF < 64 + length (ws_tables (write_executable_tables e)) +
        length (str_bytes (ws_strings (write_executable_tables e))) +
        length (ws_blob (write_executable_tables e))"
  using executable_round_trip_image [OF assms] write_executable_fails [of e] assms
  by (auto simp: image_ok_def validate_iff split: sum.splits)

lemma executable_round_trip_witness:
  "\<exists>buf. writeExecutableToBuffer demo_executable = Inr buf \<and>
     readExecutableFromBuffer buf = Inr demo_executable"
  using executable_round_trip [OF demo_executable_ok] demo_executable_writes
  by (auto split: sum.splits)

text \<open>
  Whatever bytes the executable reader accepts, the image it answers is loadable: segments
  are non-empty, hold their data, do not wrap, do not overlap and are never both writable and
  executable, the entry point is aligned and inside an executable segment, and line records name
  existing files.
\<close>

theorem accepted_executable_is_valid:
  "readExecutableFromBuffer buf = Inr e \<Longrightarrow> executable_ok e"
  using accepted_executable_ok by (auto simp: image_ok_def)

lemma accepted_executable_is_valid_witness:
  "\<exists>buf e. readExecutableFromBuffer buf = Inr e \<and> executable_ok e"
  using accepted_executable_is_valid demo_executable_writes
    executable_round_trip_image [OF demo_executable_ok] by blast

text \<open>
  Changing any four consecutive bytes behind the header of an accepted executable, in any
  way, makes the reader reject it as corrupt.
\<close>

theorem executable_corruption_detected:
  assumes "readExecutableFromBuffer (pre @ xs @ suf) = Inr e"
    and "64 \<le> length pre" and "length xs = 4" and "length ys = 4" and "ys \<noteq> xs"
  shows "\<exists>stored actual.
    readExecutableFromBuffer (pre @ ys @ suf) = Inl (ExeChecksumMismatch stored actual)"
proof -
  have d: "drop 64 (pre @ zs @ suf) = drop 64 pre @ zs @ suf" for zs using assms(2) by simp
  have "crc32 (drop 64 pre @ ys @ suf) \<noteq> crc32 (drop 64 pre @ xs @ suf)"
    by (rule crc32_burst [OF assms(4,3,5)])
  then show ?thesis
    using readExecutable_header [of "pre @ xs @ suf" "pre @ ys @ suf"] assms by (auto simp: d)
qed

lemma executable_corruption_detected_witness:
  "\<exists>pre xs suf stored actual. length xs = 4 \<and>
     readExecutableFromBuffer (pre @ xs @ suf) = Inr demo_executable \<and>
     readExecutableFromBuffer (pre @ map (\<lambda>b. b + 1) xs @ suf) = Inl (ExeChecksumMismatch stored actual)"
proof -
  obtain buf where w: "writeExecutableToBuffer demo_executable = Inr buf"
    using demo_executable_writes by blast
  have r: "readExecutableFromBuffer buf = Inr demo_executable"
    by (rule executable_round_trip_image [OF demo_executable_ok w])
  have "length buf = 64 + length (ws_tables (write_executable_tables demo_executable)) +
      (length (str_bytes (ws_strings (write_executable_tables demo_executable))) +
       length (ws_blob (write_executable_tables demo_executable)))"
    using write_executable_image(2) [OF w] by simp
  moreover have "4 \<le> length (ws_tables (write_executable_tables demo_executable))"
    by (simp add: write_executable_tables_def demo_executable_def write_source_def byte_simps
        record_bytes_length intern_def Let_def split: option.splits)
  ultimately have len: "68 \<le> length buf" by simp
  let ?pre = "take 64 buf" and ?xs = "take 4 (drop 64 buf)" and ?suf = "drop 68 buf"
  have split: "?pre @ ?xs @ ?suf = buf"
    using append_take_drop_id [of 4 "drop 64 buf"] append_take_drop_id [of 64 buf] by simp
  have "map (\<lambda>b. b + 1) ?xs \<noteq> ?xs"
  proof
    assume "map (\<lambda>b. b + 1) ?xs = ?xs"
    then have "map (\<lambda>b. b + 1) ?xs ! 0 = ?xs ! 0" by simp
    with len show False by simp
  qed
  with executable_corruption_detected [of ?pre ?xs ?suf demo_executable "map (\<lambda>b. b + 1) ?xs"] len r split
  show ?thesis by (intro exI [of _ ?pre] exI [of _ ?xs] exI [of _ ?suf]) simp
qed

end
