(* ===== verification/Linked_Image.thy ===== *)
theory Linked_Image
  imports Linker_Safety Executable_Codec
begin

text \<open>
  What the linker makes of well-formed object files is an image the executable format can carry: all
  its names can be stored, so what the writer makes of it is read back as the same image.
\<close>

subsection \<open>Names\<close>

definition names_printable :: "Definitions \<Rightarrow> bool" where
  "names_printable defs \<longleftrightarrow> (\<forall>d\<in>set defs. printable (fst d))"

lemma map_put_names:
  "set (map_put k v es) \<subseteq> insert (k, v) (set es)"
  by (induction k v es rule: map_put.induct) auto

lemma map_put_printable: "names_printable es \<Longrightarrow> printable k \<Longrightarrow> names_printable (map_put k v es)"
  using map_put_names [of k v es] by (auto simp: names_printable_def)

definition both_printable :: "Definitions \<times> Definitions \<Rightarrow> bool" where
  "both_printable ctx \<longleftrightarrow> names_printable (fst ctx) \<and> names_printable (snd ctx)"

lemma define_symbol_printable:
  assumes "printable (sy_name symbol)" and "both_printable ctx"
    and "define_symbol rgs k ob ps symbol ctx = Inr ctx'"
  shows "both_printable ctx'"
proof -
  obtain defs locals where ctx: "ctx = (defs, locals)" by fastforce
  have p: "names_printable defs" "names_printable locals" using assms(2) by (simp_all add: ctx both_printable_def)
  have put: "names_printable (map_put (sy_name symbol) d defs)" for d by (rule map_put_printable [OF p(1) assms(1)])
  have snoc: "names_printable (locals @ [(sy_name symbol, d)])" for d using p(2) assms(1) by (simp add: names_printable_def)
  have "\<exists>d. ctx' \<in> {(defs, locals), (defs, locals @ [(sy_name symbol, d)]), (map_put (sy_name symbol) d defs, locals)}"
    using assms(3) unfolding define_symbol_def Let_def ctx
    by (auto simp: and_then_Inr split: if_splits option.splits)
  then show ?thesis using p put snoc by (auto simp: both_printable_def)
qed

lemma require_symbol_printable:
  assumes "printable (sy_name symbol)" and "names_printable defs" and "require_symbol k ob symbol defs = Inr defs'"
  shows "names_printable defs'"
  using assms by (auto simp: require_symbol_def map_put_printable split: if_splits)

definition symbols_printable :: "ObjectFile \<Rightarrow> bool" where
  "symbols_printable ob \<longleftrightarrow> (\<forall>symbol\<in>set (st_symbols (ob_symbols ob)). printable (sy_name symbol))"

lemma input_objects: "(k, ob, ps) \<in> set (link_inputs objects pss) \<Longrightarrow> ob \<in> set objects"
  unfolding link_inputs_def by (meson set_zip_leftD set_zip_rightD)

lemma resolved_printable:
  assumes "resolveSymbols rgs inputs = Inr (defs, locals)"
    and "\<And>k ob ps. (k, ob, ps) \<in> set inputs \<Longrightarrow> symbols_printable ob"
  shows "names_printable defs" and "names_printable locals"
proof -
  have names: "printable (sy_name symbol)" if "(k, ob, ps) \<in> set inputs" "symbol \<in> set (st_symbols (ob_symbols ob))"
    for k ob ps symbol using assms(2) [OF that(1)] that(2) by (simp add: symbols_printable_def)
  from assms(1) obtain defs0 where d: "fold_expected (define_object rgs) inputs ([], []) = Inr (defs0, locals)"
    "fold_expected require_object inputs defs0 = Inr defs"
    by (auto simp: resolveSymbols_def and_then_Inr)
  have "both_printable (defs0, locals)"
  proof (rule fold_expected_invariant [OF _ _ d(1)])
    fix inp s s'
    assume i: "inp \<in> set inputs" and s: "both_printable s" and f: "define_object rgs inp s = Inr s'"
    obtain k ob ps where inp: "inp = (k, ob, ps)" by (metis prod.exhaust)
    have "fold_expected (define_symbol rgs k ob ps) (st_symbols (ob_symbols ob)) s = Inr s'"
      using f by (simp add: define_object_def inp)
    with s show "both_printable s'"
      by (rule fold_expected_invariant [rotated])
        (use names [OF i [unfolded inp]] in \<open>blast intro: define_symbol_printable\<close>)
  qed (simp add: both_printable_def names_printable_def)
  then have p: "names_printable defs0" "names_printable locals" by (simp_all add: both_printable_def)
  show "names_printable locals" by (rule p(2))
  show "names_printable defs"
  proof (rule fold_expected_invariant [where P = names_printable, OF _ p(1) d(2)])
    fix inp s s'
    assume i: "inp \<in> set inputs" and s: "names_printable s" and f: "require_object inp s = Inr s'"
    obtain k ob ps where inp: "inp = (k, ob, ps)" by (metis prod.exhaust)
    have "fold_expected (require_symbol k ob) (st_symbols (ob_symbols ob)) s = Inr s'"
      using f by (simp add: require_object_def inp)
    with s show "names_printable s'"
      by (rule fold_expected_invariant [rotated])
        (use names [OF i [unfolded inp]] in \<open>blast intro: require_symbol_printable\<close>)
  qed
qed

subsection \<open>Source files\<close>

lemma add_line_record_files:
  assumes "list_all printable (ob_source_files ob)" and "list_all printable files"
    and "add_line_record rgs ob ps entry (index, files, entries) = (index', files', entries')"
  shows "list_all printable files'"
  using assms by (auto simp: add_line_record_def Let_def list_all_iff split: if_splits option.splits)

lemma fold_invariant_all:
  assumes "P s" and "\<And>x s. x \<in> set xs \<Longrightarrow> P s \<Longrightarrow> P (f x s)"
  shows "P (fold f xs s)"
  using assms by (induction xs arbitrary: s) auto

lemma debug_files_printable:
  assumes "\<And>k ob ps. (k, ob, ps) \<in> set inputs \<Longrightarrow> list_all printable (ob_source_files ob)"
  shows "list_all printable (fst (buildDebugInfo rgs inputs))"
proof -
  let ?P = "\<lambda>st :: (string \<Rightarrow> u32 option) \<times> string list \<times> DebugEntry list. list_all printable (fst (snd st))"
  have "?P (fold (\<lambda>(object_index, ob, placements). fold (add_line_record rgs ob placements) (ob_debug_info ob))
      inputs (\<lambda>_. None, [], []))"
  proof (rule fold_invariant_all)
    fix inp st assume i: "inp \<in> set inputs" and st: "?P st"
    obtain k ob ps where inp: "inp = (k, ob, ps)" by (metis prod.exhaust)
    have src: "list_all printable (ob_source_files ob)" using assms i inp by simp
    have "?P (fold (add_line_record rgs ob ps) (ob_debug_info ob) st)"
    proof (rule fold_invariant_all [where P = ?P, OF st])
      fix entry st' assume "?P st'"
      then show "?P (add_line_record rgs ob ps entry st')"
        using add_line_record_files [OF src]
        by (cases st'; cases "add_line_record rgs ob ps entry st'") auto
    qed
    then show "?P ((\<lambda>(object_index, ob, placements). fold (add_line_record rgs ob placements) (ob_debug_info ob)) inp st)"
      by (simp add: inp)
  qed simp
  then show ?thesis by (auto simp: buildDebugInfo_def split: prod.splits)
qed

subsection \<open>The image\<close>

lemma object_names:
  assumes "object_ok ob"
  shows "symbols_printable ob" and "list_all printable (ob_source_files ob)" and "list_all section_shape (ob_sections ob)"
  using assms by (auto simp: object_ok_def symbols_printable_def symbol_shape_def list_all_iff)

lemma link_image_ok:
  assumes "link options objects = Inr e" and "\<And>ob. ob \<in> set objects \<Longrightarrow> object_ok ob"
  shows "image_ok e"
proof -
  obtain rgs pss defs locals rgs' where s: "mergeSections objects (initRegions options) = Inr (rgs, pss)"
    "resolveSymbols rgs (link_inputs objects pss) = Inr (defs, locals)"
    "applyRelocations defs (link_inputs objects pss) rgs = Inr rgs'"
    "buildExecutable options rgs' (link_inputs objects pss) defs locals = Inr e"
    using assms(1) by (rule link_stages)
  have good: "good_objects objects" using assms(2) object_names(3) by (simp add: good_objects_def)
  note b = buildExecutable_Inr [OF s(4)]
  have map_names: "map lr_name rgs' = [''.text'', ''.rodata'', ''.data'', ''.bss'']"
    using linked_regions(6) [OF s(1) good s(3)] by (simp add: initRegions_def)
  have "lr_name r \<in> {''.text'', ''.rodata'', ''.data'', ''.bss''}" if "r \<in> set rgs'" for r
    using arg_cong [OF map_names, of set] that by (auto dest: equalityD1 [THEN subsetD, OF _ imageI])
  then have "printable (lr_name r)" if "r \<in> set rgs'" for r
    using that by (fastforce simp: printable_def)
  then have seg: "list_all (\<lambda>s. printable (sg_name s)) (ex_segments e)"
    by (auto simp: b(1) list_all_iff region_segment_def)
  have sym: "names_printable defs" "names_printable locals"
    using resolved_printable [OF s(2)] input_objects object_names(1) assms(2) by blast+
  then have "list_all (\<lambda>s. printable (se_name s)) (ex_symbols e)"
    by (auto simp: b(4) image_symbols_def list_all_iff symbol_entry_def names_printable_def)
  moreover have "ex_source_files e = fst (buildDebugInfo rgs' (link_inputs objects pss))"
    using s(4) by (auto simp: buildExecutable_def Let_def split: option.splits prod.splits sum.splits)
  then have "list_all printable (ex_source_files e)"
    using debug_files_printable [of "link_inputs objects pss" rgs', OF object_names(2) [OF assms(2) [OF input_objects]]]
    by simp
  moreover have "executable_ok e" using b(2) by (simp add: validate_iff)
  ultimately show ?thesis using seg by (simp add: image_ok_def)
qed

end
