(* ===== verification/Cli_Safety.thy ===== *)
theory Cli_Safety
  imports Cli Linked_Image
begin

text \<open>
  What the driver guarantees: an option it does not know stops it before anything is done; a command
  changes no file but the one it was told to write, and that only when it succeeds; a program it
  linked is one it verifies and loads; and building is assembling followed by linking.
\<close>

subsection \<open>Options\<close>

text \<open>The arguments that are not the value of the option before them.\<close>

fun free_arguments :: "string list \<Rightarrow> string list" where
  "free_arguments [] = []"
| "free_arguments (arg # args) =
     (if value_option arg = None then arg # free_arguments args
      else case args of [] \<Rightarrow> [] | _ # args \<Rightarrow> free_arguments args)"

definition known_flags :: "string list" where
  "known_flags = [''-O0'', ''-O1'', ''-O'', ''-g'', ''-gno'', ''--no-debug'', ''--trace'', ''--stats'', ''--no-bytes'']"

definition unknown_option :: "string \<Rightarrow> bool" where
  "unknown_option arg \<longleftrightarrow> take 1 arg = ''-'' \<and> 1 < length arg \<and> value_option arg = None \<and> arg \<notin> set known_flags"

lemma plain_unknown: "unknown_option arg \<Longrightarrow> ag_error (plain_argument arg ag) \<noteq> []"
  by (simp add: plain_argument_def unknown_option_def known_flags_def)

lemma plain_keeps_error: "ag_error ag \<noteq> [] \<Longrightarrow> ag_error (plain_argument arg ag) \<noteq> []"
  by (simp add: plain_argument_def)

lemma setter_keeps_error:
  assumes "value_option arg = Some setter" and "ag_error ag \<noteq> []"
  shows "ag_error (setter value ag) \<noteq> []"
  using assms
  by (auto simp: value_option_def set_port_def set_max_instructions_def Let_def split: if_splits option.splits)

lemma parse_keeps_error: "ag_error ag \<noteq> [] \<Longrightarrow> ag_error (parse_arguments args ag) \<noteq> []"
proof (induction args ag rule: parse_arguments.induct)
  case (2 arg args ag)
  show ?case
  proof (cases "value_option arg")
    case None
    with 2 plain_keeps_error show ?thesis by simp
  next
    case (Some setter)
    then show ?thesis
      using 2 setter_keeps_error [OF Some] by (cases args) simp_all
  qed
qed simp

lemma unknown_option_error:
  "arg \<in> set (free_arguments args) \<Longrightarrow> unknown_option arg \<Longrightarrow> ag_error (parse_arguments args ag) \<noteq> []"
proof (induction args ag rule: parse_arguments.induct)
  case (2 first args ag)
  show ?case
  proof (cases "value_option first")
    case None
    with 2 plain_unknown [of first ag] parse_keeps_error show ?thesis by auto
  next
    case (Some setter)
    with 2 show ?thesis by (cases args) (auto split: if_splits)
  qed
qed simp

text \<open>
  C35: an option the driver does not know, anywhere it is not the value of another option, makes it
  refuse the whole command line: whatever the command, it prints one line of error and exits with 2,
  and no file changes.
\<close>

theorem unknown_option_is_refused:
  assumes "arg \<in> set (free_arguments args)" and "unknown_option arg"
  shows "\<exists>message. main_program serve timing (command # args) shell =
    Some (2, shell\<lparr> sh_err := sh_err shell @ ''error: '' @ message @ [newline] \<rparr>)"
  using unknown_option_error [OF assms, of no_arguments]
  by (intro exI [of _ "ag_error (parseArguments args)"]) (simp add: main_program_def Let_def parseArguments_def printError_def put_err_def kUsageError_def)

lemma unknown_option_is_refused_witness:
  "\<forall>shell. \<exists>message. main_program (\<lambda>_ _ _. None) (\<lambda>_. []) [''build'', ''a.asm'', ''-o'', ''-x'', ''-O2''] shell =
    Some (2, shell\<lparr> sh_err := sh_err shell @ ''error: '' @ message @ [newline] \<rparr>)"
  by (intro allI, rule unknown_option_is_refused [of "''-O2''"]) code_simp+

subsection \<open>Files\<close>

lemma put_fs [simp]:
  "sh_fs (put_out txt shell) = sh_fs shell" "sh_fs (put_err txt shell) = sh_fs shell"
  "sh_fs (printLine txt shell) = sh_fs shell" "sh_fs (printError txt shell) = sh_fs shell"
  "sh_fs (program_streams p shell) = sh_fs shell"
  by (simp_all add: put_out_def put_err_def printLine_def printError_def program_streams_def)

lemma fold_keeps_fs: "(\<And>x s. sh_fs (f x s) = sh_fs s) \<Longrightarrow> sh_fs (fold f xs shell) = sh_fs shell"
  by (induction xs arbitrary: shell) simp_all

lemma fold_fs [simp]:
  "sh_fs (fold printLine xs shell) = sh_fs shell" "sh_fs (fold printError xs shell) = sh_fs shell"
  "sh_fs (fold (\<lambda>x. put_out (g x)) ys shell) = sh_fs shell"
  by (rule fold_keeps_fs, simp)+

lemma usage_fs [simp]: "sh_fs (snd (usage shell)) = sh_fs shell" "fst (usage shell) = 2"
  by (simp_all add: usage_def kUsageError_def)

lemma tool_error_fs [simp]:
  "tool_error txt shell = Some (code, shell') \<longleftrightarrow> code = 1 \<and> shell' = printError txt shell"
  "usage_error txt shell = Some (code, shell') \<longleftrightarrow> code = 2 \<and> shell' = printError (''usage: minitool '' @ txt) shell"
  by (auto simp: tool_error_def usage_error_def kToolError_def kUsageError_def)

lemma assembleFile_fs:
  assumes "assembleFile path arguments shell = Some (r, shell')"
  shows "sh_fs shell' = sh_fs shell"
proof (cases "readFileBytes path (sh_fs shell)")
  case (Inl e)
  with assms show ?thesis by (auto simp: assembleFile_def)
next
  case (Inr bytes)
  obtain n sources where f: "addFile path (text_of bytes) [] = (n, sources)" by fastforce
  let ?options = "\<lparr> ao_opt_level = ag_opt_level arguments, ao_emit_debug_info = ag_debug_info arguments \<rparr>"
  from assms Inr f obtain q d where a: "assembleSource sources n empty_engine ?options = Some (q, d)"
    by (cases "assembleSource sources n empty_engine ?options") (auto simp: assembleFile_def Let_def)
  show ?thesis
    using assms by (cases q) (auto simp: assembleFile_def Let_def Inr f a split: if_splits)
qed

text \<open>One more file in a build.\<close>

lemma assemble_files_Cons:
  assumes "assemble_files (input # inputs) arguments shell = Some (r, shell')"
  obtains "assembleFile input arguments shell = Some (None, shell')" "r = None"
  | result shell1 q where "assembleFile input arguments shell = Some (Some result, shell1)"
      "assemble_files inputs arguments shell1 = Some (q, shell')" "r = map_option ((#) (ar_object result)) q"
proof (cases "assembleFile input arguments shell")
  case None
  with assms show ?thesis by simp
next
  case (Some p)
  then obtain o1 shell1 where a: "assembleFile input arguments shell = Some (o1, shell1)" by (cases p) simp
  show ?thesis
  proof (cases o1)
    case None
    with a assms that(1) show ?thesis by simp
  next
    case (Some result)
    with a assms obtain q shell2 where b: "assemble_files inputs arguments shell1 = Some (q, shell2)"
      by (cases "assemble_files inputs arguments shell1") auto
    show ?thesis using a Some assms b by (intro that(2) [of result shell1 q]) (cases q; simp)+
  qed
qed

lemma assemble_files_fs: "assemble_files inputs arguments shell = Some (r, shell') \<Longrightarrow> sh_fs shell' = sh_fs shell"
proof (induction inputs arbitrary: shell r)
  case (Cons input inputs)
  from Cons.prems show ?case
  proof (cases rule: assemble_files_Cons)
    case 1
    then show ?thesis by (simp add: assembleFile_fs)
  next
    case (2 result shell1 q)
    with Cons.IH [of shell1 q] assembleFile_fs [of input arguments shell "Some result" shell1] show ?thesis by simp
  qed
qed simp

text \<open>What a command that writes a file may do.\<close>

definition writes_only :: "string \<Rightarrow> nat \<Rightarrow> Shell \<Rightarrow> Shell \<Rightarrow> bool" where
  "writes_only path code shell shell' \<longleftrightarrow>
     (\<forall>other. other \<noteq> path \<longrightarrow> fs_files (sh_fs shell') other = fs_files (sh_fs shell) other) \<and>
     (code \<noteq> 0 \<longrightarrow> sh_fs shell' = sh_fs shell)"

lemma write_result:
  "writeObject ob path fs = (r, fs') \<Longrightarrow> (case r of Inl _ \<Rightarrow> fs' = fs | Inr _ \<Rightarrow> \<forall>other. other \<noteq> path \<longrightarrow> fs_files fs' other = fs_files fs other)"
  "writeExecutable e path fs = (r', fs') \<Longrightarrow> (case r' of Inl _ \<Rightarrow> fs' = fs | Inr _ \<Rightarrow> \<forall>other. other \<noteq> path \<longrightarrow> fs_files fs' other = fs_files fs other)"
  by (auto simp: writeObject_def writeExecutable_def writeFileBytes_def split: sum.splits if_splits)

lemma linkObjects_writes:
  assumes "linkObjects objects arguments shell = Some (code, shell')"
  shows "writes_only (ag_output arguments) code shell shell'"
proof (cases "link (Linker.default_options\<lparr> lo_entry := ag_entry arguments \<rparr>) objects")
  case (Inl e)
  with assms show ?thesis by (simp add: linkObjects_def writes_only_def)
next
  case (Inr e)
  obtain r fs where w: "writeExecutable e (ag_output arguments) (sh_fs shell) = (r, fs)" by fastforce
  show ?thesis
    using assms write_result(2) [OF w] by (cases r) (auto simp: linkObjects_def writes_only_def Inr w Let_def)
qed

lemma cmdAssemble_writes:
  assumes "cmdAssemble arguments shell = Some (code, shell')"
  shows "writes_only (ag_output arguments) code shell shell'"
proof (cases "length (ag_inputs arguments) \<noteq> 1 \<or> ag_output arguments = []")
  case True
  with assms show ?thesis by (auto simp: cmdAssemble_def writes_only_def)
next
  case False
  with assms obtain q shell1 where a: "assembleFile (ag_inputs arguments ! 0) arguments shell = Some (q, shell1)"
    by (auto simp: cmdAssemble_def split: option.splits)
  note fs1 = assembleFile_fs [OF a]
  show ?thesis
  proof (cases q)
    case None
    with assms False a fs1 show ?thesis by (simp add: cmdAssemble_def writes_only_def)
  next
    case (Some result)
    obtain r fs where w: "writeObject (ar_object result) (ag_output arguments) (sh_fs shell) = (r, fs)" by fastforce
    show ?thesis
      using assms write_result(1) [OF w] False
      by (cases r) (auto simp: cmdAssemble_def writes_only_def a Some w fs1)
  qed
qed

lemma cmdLink_writes:
  assumes "cmdLink arguments shell = Some (code, shell')"
  shows "writes_only (ag_output arguments) code shell shell'"
  using assms linkObjects_writes
  by (cases "read_objects (ag_inputs arguments) (sh_fs shell)") (auto simp: cmdLink_def writes_only_def split: if_splits)

lemma cmdBuild_writes:
  assumes "cmdBuild arguments shell = Some (code, shell')"
  shows "writes_only (ag_output arguments) code shell shell'"
proof (cases "ag_inputs arguments = [] \<or> ag_output arguments = []")
  case True
  with assms show ?thesis by (auto simp: cmdBuild_def writes_only_def)
next
  case False
  with assms obtain q shell1 where a: "assemble_files (ag_inputs arguments) arguments shell = Some (q, shell1)"
    by (auto simp: cmdBuild_def split: option.splits)
  note fs1 = assemble_files_fs [OF a]
  show ?thesis
  proof (cases q)
    case None
    with assms False a fs1 show ?thesis by (simp add: cmdBuild_def writes_only_def)
  next
    case (Some objects)
    with assms False a have "linkObjects objects arguments shell1 = Some (code, shell')" by (simp add: cmdBuild_def)
    from linkObjects_writes [OF this] fs1 show ?thesis by (simp add: writes_only_def)
  qed
qed

lemma read_only_commands:
  "cmdIsa shell = Some (code, shell') \<Longrightarrow> sh_fs shell' = sh_fs shell"
  "cmdDecode txt shell = Some (code, shell') \<Longrightarrow> sh_fs shell' = sh_fs shell"
  "cmdDisassemble arguments shell = Some (code, shell') \<Longrightarrow> sh_fs shell' = sh_fs shell"
  "cmdVerify arguments shell = Some (code, shell') \<Longrightarrow> sh_fs shell' = sh_fs shell"
  by (auto simp: cmdIsa_def cmdDecode_def cmdDisassemble_def cmdVerify_def Let_def
    split: if_splits sum.splits option.splits prod.splits list.splits)

lemma cmdRun_fs: "cmdRun arguments shell = Some (code, shell') \<Longrightarrow> sh_fs shell' = sh_fs shell"
  by (auto simp: cmdRun_def Let_def split: if_splits sum.splits option.splits prod.splits)

lemma cmdDebug_fs: "cmdDebug arguments shell = Some (code, shell') \<Longrightarrow> sh_fs shell' = sh_fs shell"
  by (auto simp: cmdDebug_def leave_debugger_def Let_def split: if_splits sum.splits option.splits prod.splits bool.splits)

lemma cmdObjdump_fs: "cmdObjdump arguments shell = Some (code, shell') \<Longrightarrow> sh_fs shell' = sh_fs shell"
  by (auto simp: cmdObjdump_def Let_def split: if_splits sum.splits option.splits)

lemma cmdBench_fs: "cmdBench timing arguments shell = Some (code, shell') \<Longrightarrow> sh_fs shell' = sh_fs shell"
  by (auto simp: cmdBench_def split: option.splits sum.splits)

text \<open>An outcome that leaves the files alone.\<close>

definition keeps_files :: "Shell \<Rightarrow> outcome \<Rightarrow> bool" where
  "keeps_files shell r \<longleftrightarrow> (\<forall>code shell'. r = Some (code, shell') \<longrightarrow> sh_fs shell' = sh_fs shell)"

lemma keeps_if: "(c \<Longrightarrow> keeps_files shell a) \<Longrightarrow> (\<not> c \<Longrightarrow> keeps_files shell b) \<Longrightarrow> keeps_files shell (if c then a else b)"
  by simp

lemma keeps_commands:
  "keeps_files shell (Some (0, printLine txt shell))" "keeps_files shell (cmdIsa shell)" "keeps_files shell (cmdDecode txt shell)"
  "keeps_files shell (cmdRun arguments shell)" "keeps_files shell (cmdDisassemble arguments shell)"
  "keeps_files shell (cmdDebug arguments shell)" "keeps_files shell (cmdObjdump arguments shell)"
  "keeps_files shell (cmdVerify arguments shell)" "keeps_files shell (cmdBench timing arguments shell)"
  "keeps_files shell (Some (usage shell))" "keeps_files shell (Some (0, snd (usage shell)))"
  "keeps_files shell (Some (usage (printError txt shell)))"
  unfolding keeps_files_def
  by (auto simp: usage_def dest: read_only_commands cmdRun_fs cmdDebug_fs cmdObjdump_fs cmdBench_fs)

lemma main_command_keeps:
  assumes "command \<notin> {''assemble'', ''link'', ''build''}" and "command \<noteq> ''serve''"
  shows "keeps_files shell (main_command serve timing command arguments shell)"
proof -
  have not: "command \<noteq> ''assemble''" "command \<noteq> ''link''" "command \<noteq> ''build''" using assms(1) by blast+
  show ?thesis
    unfolding main_command_def if_not_P [OF not(1)] if_not_P [OF not(2)] if_not_P [OF not(3)] if_not_P [OF assms(2)]
    by (intro keeps_if keeps_commands)
qed


subsection \<open>What was linked\<close>

lemma linkObjects_success:
  assumes "linkObjects objects arguments shell = Some (0, shell')"
  obtains e buf where "link (Linker.default_options\<lparr> lo_entry := ag_entry arguments \<rparr>) objects = Inr e"
    "writeExecutableToBuffer e = Inr buf"
    "sh_fs shell' = (sh_fs shell)\<lparr> fs_files := (fs_files (sh_fs shell))(ag_output arguments := Some buf) \<rparr>"
proof (cases "link (Linker.default_options\<lparr> lo_entry := ag_entry arguments \<rparr>) objects")
  case (Inl e)
  with assms show ?thesis by (simp add: linkObjects_def)
next
  case (Inr e)
  show ?thesis
    using assms that [OF Inr]
    by (auto simp: linkObjects_def Inr writeExecutable_def writeFileBytes_def Let_def split: sum.splits if_splits)
qed

lemma read_objects_ok: "read_objects inputs fs = Inr objects \<Longrightarrow> ob \<in> set objects \<Longrightarrow> object_ok ob"
  by (induction inputs arbitrary: objects)
    (auto simp: readObject_def accepted_object_ok split: sum.splits)


subsection \<open>Building\<close>

lemma assembled_objects:
  assumes "list_all2 (\<lambda>path ob. \<exists>buf. writeObjectToBuffer ob = Inr buf \<and> fs_files fs path = Some buf) paths objects"
    and "\<And>ob. ob \<in> set objects \<Longrightarrow> object_ok ob"
  shows "read_objects paths fs = Inr objects"
  using assms
proof (induction rule: list_all2_induct)
  case (Cons path paths ob obs)
  from Cons(1) obtain buf where b: "writeObjectToBuffer ob = Inr buf" "fs_files fs path = Some buf" by blast
  have "readObjectFromBuffer buf = Inr ob" using object_round_trip_image [OF Cons(4) [of ob] b(1)] by simp
  then have "readObject path fs = Inr ob" by (simp add: readObject_def readFileBytes_def b(2))
  with Cons show ?case by simp
qed simp

text \<open>The exit code of a link and the file it leaves depend only on the objects and on that file.\<close>

lemma linkObjects_same:
  assumes "fs_files (sh_fs shell1) (ag_output arguments) = fs_files (sh_fs shell2) (ag_output arguments)"
    and "fs_writable (sh_fs shell1) = fs_writable (sh_fs shell2)"
    and "linkObjects objects arguments shell1 = Some (code, shell1')"
  shows "\<exists>shell2'. linkObjects objects arguments shell2 = Some (code, shell2') \<and>
    fs_files (sh_fs shell2') (ag_output arguments) = fs_files (sh_fs shell1') (ag_output arguments)"
proof (cases "link (Linker.default_options\<lparr> lo_entry := ag_entry arguments \<rparr>) objects")
  case (Inl e)
  with assms show ?thesis by (auto simp: linkObjects_def)
next
  case (Inr e)
  with assms show ?thesis
    by (cases "writeExecutableToBuffer e"; cases "fs_writable (sh_fs shell2) (ag_output arguments)")
      (auto simp: linkObjects_def writeExecutable_def writeFileBytes_def Let_def)
qed

text \<open>
  C33: building is assembling and then linking: where every source assembles, \<open>build\<close> ends with the same
  exit code and leaves the same output file as \<open>link\<close> on files that hold the assembled objects.
\<close>

theorem build_is_link_of_objects:
  assumes "assemble_files (ag_inputs arguments) arguments shell = Some (Some objects, shell1)"
    and "\<And>ob. ob \<in> set objects \<Longrightarrow> object_ok ob" and "objects \<noteq> []"
    and "list_all2 (\<lambda>path ob. \<exists>buf. writeObjectToBuffer ob = Inr buf \<and> fs_files (sh_fs other) path = Some buf) paths objects"
    and "fs_files (sh_fs other) (ag_output arguments) = fs_files (sh_fs shell) (ag_output arguments)"
    and "fs_writable (sh_fs other) = fs_writable (sh_fs shell)"
    and "cmdBuild arguments shell = Some (code, shell')"
  shows "\<exists>other'. cmdLink (arguments\<lparr> ag_inputs := paths \<rparr>) other = Some (code, other') \<and>
    fs_files (sh_fs other') (ag_output arguments) = fs_files (sh_fs shell') (ag_output arguments)"
proof -
  have inputs: "ag_inputs arguments \<noteq> []" using assms(1,3) by (cases "ag_inputs arguments") auto
  have paths: "paths \<noteq> []" using assms(3,4) by auto
  have fs1: "sh_fs shell1 = sh_fs shell" by (rule assemble_files_fs [OF assms(1)])
  show ?thesis
  proof (cases "ag_output arguments = []")
    case True
    then show ?thesis using assms(5,7) by (auto simp: cmdBuild_def cmdLink_def usage_error_def)
  next
    case False
    with assms(1,7) inputs have "linkObjects objects arguments shell1 = Some (code, shell')" by (simp add: cmdBuild_def)
    from linkObjects_same [OF _ _ this, of other] assms(5,6) fs1 obtain other' where
      o: "linkObjects objects arguments other = Some (code, other')"
      "fs_files (sh_fs other') (ag_output arguments) = fs_files (sh_fs shell') (ag_output arguments)" by auto
    have r: "read_objects paths (sh_fs other) = Inr objects" using assembled_objects [OF assms(4,2)] .
    have fields: "ag_output (arguments\<lparr> ag_inputs := paths \<rparr>) = ag_output arguments"
      "ag_entry (arguments\<lparr> ag_inputs := paths \<rparr>) = ag_entry arguments" by simp_all
    have "linkObjects objects (arguments\<lparr> ag_inputs := paths \<rparr>) other = linkObjects objects arguments other"
      unfolding linkObjects_def fields ..
    with o r paths False show ?thesis by (simp add: cmdLink_def)
  qed
qed

subsection \<open>A small program\<close>

definition starting_text :: string where
  "starting_text = ''.global a'' @ [newline] @ ''a:HALT''"

definition starting_source :: SourceManager where
  "starting_source = snd (addFile ''a.asm'' starting_text [])"

definition starting_program :: Program where
  "starting_program =
     [St_Directive \<lparr> dn_type = Dir_Global,
        dn_operands = [\<lparr> op_type = OT_Symbol, op_reg = 0, op_immediate = 0, op_symbol = ''a'', op_text = [],
          op_location = \<lparr> loc_file = 0, loc_line = 1, loc_column = 9, loc_length = 1 \<rparr> \<rparr>],
        dn_location = \<lparr> loc_file = 0, loc_line = 1, loc_column = 1, loc_length = 7 \<rparr> \<rparr>,
      St_Label \<lparr> ln_name = ''a'', ln_local = False,
        ln_location = \<lparr> loc_file = 0, loc_line = 2, loc_column = 1, loc_length = 1 \<rparr> \<rparr>,
      St_Instruction \<lparr> in_mnemonic = ''HALT'', in_operands = [],
        in_location = \<lparr> loc_file = 0, loc_line = 2, loc_column = 3, loc_length = 4 \<rparr> \<rparr>]"

definition starting_object :: ObjectFile where
  "starting_object =
     \<lparr> ob_version = 1,
       ob_sections = [\<lparr> sec_name = ''.text'', sec_type = Sec_Text, sec_flags = 5, sec_alignment = 8,
         sec_data = [0, 0, 0, 0, 0, 0, 0, 1], sec_size = 8, sec_index = 0 \<rparr>],
       ob_symbols = \<lparr> st_symbols = [\<lparr> sy_name = ''a'', sy_binding = Global, sy_type = Sym_Function, sy_section = 0,
         sy_value = 0, sy_size = 0, sy_defined = True \<rparr>],
         st_index = (\<lambda>n. if n = ''a'' then Some 0 else None) \<rparr>,
       ob_relocations = [],
       ob_debug_info = [\<lparr> od_section = 0, od_file = 0, od_offset = 0, od_line = 2, od_column = 3 \<rparr>],
       ob_source_files = [''a.asm''] \<rparr>"

lemma starting_parsed: "parsed starting_source 0 = Some starting_program"
  by code_simp

lemma starting_program_object: "program_object True ''a.asm'' starting_program = starting_object"
proof -
  let ?m = "lowered_module ''a.asm'' starting_program"
  have n: "module_names ?m = [''a'', ''a'']" by code_simp
  have "map (spec_section ?m) (enumerate 0 (module_kinds ?m)) = ob_sections starting_object" by code_simp
  moreover have "map (spec_symbol ?m) (firsts (module_names ?m)) = st_symbols (ob_symbols starting_object)" by code_simp
  moreover have "name_index [''a'', ''a''] ''a'' = 0" by code_simp
  moreover have "concat (map (\<lambda>(i, kind). section_relocations (name_index (module_names ?m)) (of_nat i) (items_of ?m kind) [])
      (enumerate 0 (module_kinds ?m))) = []" by code_simp
  moreover have "concat (map (\<lambda>(i, kind). section_debug (of_nat i) (items_of ?m kind) []) (enumerate 0 (module_kinds ?m)))
      = ob_debug_info starting_object" by code_simp
  moreover have "mo_source_name ?m = ''a.asm''" by code_simp
  ultimately show ?thesis
    by (simp add: program_object_def spec_object_def n Let_def kObjectVersion_def starting_object_def fun_eq_iff)
qed

lemma starting_fits: "fits_object ''a.asm'' starting_program"
proof -
  have "map (\<lambda>kind. sum_list (map item_room (lowered_items starting_program kind))) kSectionOrder = [8, 0, 0, 0]" by code_simp
  then have "list_all (\<lambda>n. n < 2 ^ 63) (map (\<lambda>kind. sum_list (map item_room (lowered_items starting_program kind))) kSectionOrder)"
    by simp
  moreover have "module_names (lowered_module ''a.asm'' starting_program) = [''a'', ''a'']" by code_simp
  ultimately show ?thesis by (simp add: fits_object_def list_all_iff printable_def)
qed

lemma starting_assembles:
  "\<exists>result d'. assembleSource starting_source 0 empty_engine default_assemble_options = Some (Inr result, d') \<and>
     ar_object result = starting_object"
  and starting_object_ok: "object_ok starting_object"
proof -
  have name: "sources_contains starting_source 0" "source_name starting_source 0 = ''a.asm''" by code_simp+
  have as: "assembles starting_program" by code_simp
  have opt: "ao_opt_level default_assemble_options = O0" "ao_emit_debug_info default_assemble_options"
    by (simp_all add: default_assemble_options_def)
  have "\<And>ss. parsed starting_source 0 = Some ss \<Longrightarrow> fits_object (source_name starting_source 0) ss"
    using starting_parsed starting_fits name(2) by simp
  from pipeline_result [OF name(1) opt(1) this] obtain r d' where
    a: "assembleSource starting_source 0 empty_engine default_assemble_options = Some (r, d')"
    and r: "case r of
       Inr result \<Rightarrow> ar_object result = program_object True ''a.asm'' starting_program \<and> object_ok (ar_object result)
     | Inl message \<Rightarrow> False"
    using as starting_parsed opt(2) name(2) by (fastforce split: sum.splits)
  then obtain result where "r = Inr result" by (cases r) auto
  with a r show "object_ok starting_object"
    "\<exists>result d'. assembleSource starting_source 0 empty_engine default_assemble_options = Some (Inr result, d') \<and>
     ar_object result = starting_object" by (auto simp: starting_program_object)
qed

lemma starting_writes: "\<exists>buf. writeObjectToBuffer starting_object = Inr buf"
proof (cases "writeObjectToBuffer starting_object")
  case (Inl e)
  from write_object_fails [OF this] show ?thesis
    by (simp add: write_tables_def starting_object_def write_section_def
        write_symbol_def write_relocation_def write_debug_def write_source_def byte_simps
        record_bytes_length section_fields_def symbol_fields_def relocation_fields_def debug_fields_def
        start_write_def new_strings_def intern_def raw_def Let_def)
qed auto

definition starting_image :: Executable where
  "starting_image =
     \<lparr> ex_version = 1, ex_entry_point = 65536,
       ex_segments = [\<lparr> sg_type = Seg_Text, sg_flags = 5, sg_name = ''.text'', sg_virtual_address = 65536,
         sg_virtual_size = 8, sg_data = [0, 0, 0, 0, 0, 0, 0, 1] \<rparr>],
       ex_symbols = [\<lparr> se_name = ''a'', se_address = 65536, se_size = 0, se_kind = SK_Function \<rparr>],
       ex_debug_info = [\<lparr> de_address = 65536, de_file = 0, de_line = 2, de_column = 3 \<rparr>],
       ex_source_files = [''a.asm''] \<rparr>"

lemma starting_links: "link (Linker.default_options\<lparr> lo_entry := ''a'' \<rparr>) [starting_object] = Inr starting_image"
  by code_simp

lemma starting_image_writes: "\<exists>buf. writeExecutableToBuffer starting_image = Inr buf"
proof (cases "writeExecutableToBuffer starting_image")
  case (Inl x)
  have "validate starting_image = Inr ()" by code_simp
  with write_executable_fails [OF Inl] show ?thesis
    by (simp add: write_executable_tables_def starting_image_def write_segment_def
        write_entry_def write_line_def write_source_def byte_simps
        record_bytes_length segment_fields_def entry_fields_def line_fields_def
        start_write_def new_strings_def intern_def raw_def Let_def)
qed auto

text \<open>A shell with the source and with an object file; every path can be written.\<close>

definition starting_shell :: "u8 list \<Rightarrow> Shell" where
  "starting_shell ob_bytes =
     \<lparr> sh_fs = \<lparr> fs_files = [''a.asm'' \<mapsto> bytes_of starting_text, ''a.mobj'' \<mapsto> ob_bytes], fs_writable = (\<lambda>_. True) \<rparr>,
       sh_out = [], sh_err = [], sh_lines = [], sh_stdin = [], sh_program_out = [], sh_program_err = [] \<rparr>"

definition starting_arguments :: "string \<Rightarrow> Arguments" where
  "starting_arguments input = no_arguments\<lparr> ag_inputs := [input], ag_output := ''a.mexe'', ag_entry := ''a'' \<rparr>"

lemma starting_linkObjects:
  assumes "fs_writable (sh_fs shell) = (\<lambda>_. True)"
  shows "\<exists>shell'. linkObjects [starting_object] (starting_arguments input) shell = Some (0, shell')"
  using assms starting_links starting_image_writes
  by (auto simp: linkObjects_def starting_arguments_def writeExecutable_def writeFileBytes_def Let_def)

lemma starting_assembleFile:
  "\<exists>result shell1. assembleFile ''a.asm'' (starting_arguments ''a.asm'') (starting_shell bs) = Some (Some result, shell1) \<and>
     ar_object result = starting_object"
proof -
  obtain result d' where a: "assembleSource starting_source 0 empty_engine default_assemble_options = Some (Inr result, d')"
    "ar_object result = starting_object" using starting_assembles by blast
  have opt: "\<lparr> ao_opt_level = ag_opt_level (starting_arguments ''a.asm''),
      ao_emit_debug_info = ag_debug_info (starting_arguments ''a.asm'') \<rparr> = default_assemble_options"
    by (simp add: starting_arguments_def no_arguments_def default_assemble_options_def)
  have add: "addFile ''a.asm'' starting_text [] = (0, starting_source)"
    by (simp add: starting_source_def addFile_def Let_def)
  show ?thesis
    using a(2)
    by (simp add: assembleFile_def opt readFileBytes_def starting_shell_def add a(1) Let_def)
qed

lemma starting_object_bytes:
  obtains buf where "writeObjectToBuffer starting_object = Inr buf" "readObjectFromBuffer buf = Inr starting_object"
  using starting_writes object_round_trip_image [OF starting_object_ok] by blast

lemma starting_cmdLink:
  assumes "readObjectFromBuffer buf = Inr starting_object"
  shows "\<exists>shell'. cmdLink (starting_arguments ''a.mobj'') (starting_shell buf) = Some (0, shell')"
proof -
  have "read_objects [''a.mobj''] (sh_fs (starting_shell buf)) = Inr [starting_object]"
    using assms by (simp add: readObject_def readFileBytes_def starting_shell_def)
  with starting_linkObjects [of "starting_shell buf" "''a.mobj''"] show ?thesis
    by (auto simp: cmdLink_def starting_arguments_def starting_shell_def)
qed



lemma build_is_link_of_objects_witness:
  "\<exists>buf code shell' other'. cmdBuild (starting_arguments ''a.asm'') (starting_shell buf) = Some (code, shell') \<and>
    cmdLink ((starting_arguments ''a.asm'')\<lparr> ag_inputs := [''a.mobj''] \<rparr>) (starting_shell buf) = Some (code, other') \<and>
    fs_files (sh_fs other') ''a.mexe'' = fs_files (sh_fs shell') ''a.mexe''"
proof -
  obtain buf where b: "writeObjectToBuffer starting_object = Inr buf" by (rule starting_object_bytes)
  let ?args = "starting_arguments ''a.asm''" and ?shell = "starting_shell buf"
  obtain result shell1 where a: "assembleFile ''a.asm'' ?args ?shell = Some (Some result, shell1)"
    "ar_object result = starting_object" using starting_assembleFile by blast
  have in1: "ag_inputs ?args = [''a.asm'']" "ag_output ?args = ''a.mexe''" by (simp_all add: starting_arguments_def)
  have files: "assemble_files (ag_inputs ?args) ?args ?shell = Some (Some [starting_object], shell1)"
    using a by (simp add: in1)
  have "fs_writable (sh_fs shell1) = (\<lambda>_. True)" using assembleFile_fs [OF a(1)] by (simp add: starting_shell_def)
  then obtain shell' where "linkObjects [starting_object] ?args shell1 = Some (0, shell')"
    using starting_linkObjects by blast
  then have c: "cmdBuild ?args ?shell = Some (0, shell')" using files by (simp add: cmdBuild_def in1)
  have l: "list_all2 (\<lambda>path ob. \<exists>buf'. writeObjectToBuffer ob = Inr buf' \<and> fs_files (sh_fs ?shell) path = Some buf')
      [''a.mobj''] [starting_object]"
    using b by (simp add: starting_shell_def)
  have ok: "object_ok ob" if "ob \<in> set [starting_object]" for ob using that starting_object_ok by simp
  from build_is_link_of_objects [OF files ok _ l _ _ c] c show ?thesis by (auto simp: in1)
qed

end
