(* ===== verification/Spec2Isabelle.thy ===== *)
theory Spec2Isabelle
  imports Machine_Safety Optimizer_Flow Lexer_Literals Instruction_Text Debugger_Views Disassembler_Safety
    Session_Safety Http_Safety Cli_Safety
begin

text \<open>
  MiniToolChain is an assembler, an optimizer, a linker and a virtual machine for a 64-bit
  register machine with fixed 8-byte instructions.  A source file is lexed, parsed, checked,
  lowered to an intermediate representation, optimized and assembled to an object file; object
  files are linked to an executable image; the machine loads the image and runs it.  The library
  models these parts in the order in which they depend on each other.

  Base.  Prelude: machine integers as words, the sum type for \<open>std::expected\<close>, list and word
  lemmas.  Byte_Order (common/byte_order.hpp), Checksum (common/checksum.cpp), Binary
  (common/binary.hpp): the primitives of the file formats.  The i64 of the code is the word with
  the same bits, read by \<open>sint\<close>.

  Machine.  Isa (isa/opcode.cpp, isa/registers.cpp), Encoding (isa/encoding.cpp), Semantics
  (isa/semantics.cpp), Memory (vm/memory.cpp), Syscall (vm/syscall.cpp), Machine (vm/vm.cpp): the
  tables, the encoder and decoder, the arithmetic with its flags, regions with permissions and the
  heap, the system calls, and the step function and run loop of the machine.  Memory is the list
  of regions of the code; the lemmas of Memory relate it to a flat map from addresses to bytes.
  Machine_Safety proves the invariant of every run, the immutability of code and the outcome of
  the run loop, whose recursion is on the instruction budget the code counts down, so that it is
  total.

  Files.  Object_File, Object_IO, Object_Codec (object/object.cpp, object/object_io.cpp,
  assembler/symbol_table.hpp) and Executable, Executable_IO, Executable_Codec
  (executable/executable.cpp, executable/executable_io.cpp): the two file formats.  The Codec
  theories prove the round trips, that whatever a reader accepts is well formed, and that a
  corruption is detected.  Relocating (object/relocation.cpp): the patching of one field.

  Linker, Linker_Safety (linker/linker.cpp): the four stages of the linker, the specification of
  symbol resolution, the layout of merged sections and the link from section bytes to the memory
  of the loaded machine.

  Ir (ir/ir.cpp), Optimizer (optimizer/optimizer.cpp), with Optimizer_Safety, Optimizer_Sim and
  Optimizer_Flow: every pass, the control-flow graph and the liveness of FLAGS.  The liveness
  loop is \<open>while_option\<close>, where \<open>None\<close> also stands for the read outside the block list that a
  trailing label causes; it is proved to end otherwise.  The sweep limit of the pass iteration is
  the code's \<open>kMaxIterations\<close>, eight.  Optimizer_Flow relates the runs of a block before and
  after optimizing.

  Diagnostics (common/source_manager.cpp, diagnostics): source files with their line tables, the
  collecting engine and the rendering of a diagnostic with its caret.

  Front end.  Lexer (lexer/lexer.cpp), with Lexer_Safety (the tokens partition the source, and a
  location leads back to its text) and Lexer_Literals (values of literals); Ast and Parser (ast,
  parser/parser.cpp), with Parser_Safety (a file is accepted or an error is reported); Sema
  (assembler/sema.cpp), with Sema_Safety (the analyzer decides a predicate of the syntax tree);
  Lower (ir/lower.cpp), with Lower_Safety and Lower_Object (the lowered module is a closed form of
  the program); Assembler (assembler/assembler.cpp), with Assembler_Safety and Assembler_Object (the
  two passes compute a closed form, whose bytes arrive in the memory of the loaded machine);
  Pipeline (assembler/pipeline.cpp): the composition for one file.  A loop over the text recurses on
  what is left of it, so every function is total; a vector access that would throw is \<open>None\<close>.
  Instruction_Text proves that a printed instruction is read back as the same instruction.

  Texts.  Formatting, Fault_Text and Error_Text: the conversions of \<open>std::format\<close> that are used and
  the messages of the errors that the other theories keep as values.  Files (the functions of
  object/object_io.cpp and executable/executable_io.cpp that open files): reading and writing over a
  file system that maps paths to bytes.

  Tools.  Disassembler (disassembler/disassembler.cpp), with Disassembler_Safety: the lines of an image
  show the words the machine fetches.  Debugger and Debugger_Commands (debugger/debugger.cpp), with
  Debugger_Safety and Debugger_Views: breakpoints, watchpoints, the execution commands, the views and
  the command interpreter; debugging changes nothing a program computes, and every command ends.
  The loops of the debugger recurse on the budget and the views on the bytes left to show; the memory
  dump is a partial function, \<open>None\<close> where it never ends, and is proved to end for every command.
  Session (playground/session.cpp), with Session_Safety: one job of the playground; its output limit is
  proved to change nothing but the displayed text.  Http (playground/http_server.cpp), with Http_Safety:
  JSON, URLs, the framing of a request and its routing; a connection is the list of chunks \<open>recv\<close>
  delivers, and reading recurses on it.  Cli (cli/main.cpp), with Linked_Image and Cli_Safety: every
  command of the driver over a shell, that is the file system and the streams.

  Interfaces between parts are locales, interpreted on the definitions of the part that provides
  them.  Errors are values; a read past the end that the code leaves undefined, or an exception, is
  \<open>None\<close>.

  Not modelled: the page the playground serves (playground/page.hpp, a parameter of \<open>handleRequest\<close>);
  opening, binding and accepting on sockets in \<open>serve\<close>, which the driver takes as a parameter; the
  clock of the benchmark; devices that fail after a file was opened, such as a full disk, and memory
  that runs out; and the order between the text a tool prints and the bytes a program writes to the
  same stream.  Widths of formatted fields count bytes.
\<close>

end
